(* ===== verification/Prelude.thy ===== *)
theory Prelude
  imports Main "HOL-Library.Word"
begin

text \<open>
  Shared material of the development: the collections of rewrite rules the
  component theories extend, the result type that stands for Rust's
  \<^verbatim>\<open>Result\<close>, generic facts on lists and options, and the
  interfaces several components have in common (a machine whose steps keep an
  invariant, a wire format whose decoder undoes its encoder).
\<close>

section \<open>Collections of facts\<close>

named_theorems str_simps \<open>rewrite rules of the string library\<close>
named_theorems byte_simps \<open>rewrite rules of the big-endian byte encodings\<close>
named_theorems hdr_simps \<open>rewrite rules of the SIP header table\<close>

section \<open>Results\<close>

text \<open>
  A fallible Rust function returns \<^typ>\<open>'e + 'a\<close>: \<^const>\<open>Inl\<close> is
  \<^verbatim>\<open>Err\<close> and \<^const>\<open>Inr\<close> is \<^verbatim>\<open>Ok\<close>. The functions below are the
  question-mark operator and \<^verbatim>\<open>Option::ok_or\<close>.
\<close>

fun res_bind :: "'e + 'a \<Rightarrow> ('a \<Rightarrow> 'e + 'b) \<Rightarrow> 'e + 'b" where
  "res_bind (Inl e) f = Inl e"
| "res_bind (Inr a) f = f a"

fun ok_or :: "'e \<Rightarrow> 'a option \<Rightarrow> 'e + 'a" where
  "ok_or e None = Inl e"
| "ok_or e (Some a) = Inr a"

fun res_ok :: "'e + 'a \<Rightarrow> 'a option" where
  "res_ok (Inl e) = None"
| "res_ok (Inr a) = Some a"

definition is_ok :: "'e + 'a \<Rightarrow> bool" where
  "is_ok r = (case r of Inl _ \<Rightarrow> False | Inr _ \<Rightarrow> True)"

section \<open>Bounded machine arithmetic\<close>

text \<open>Rust's \<^verbatim>\<open>saturating_add\<close> on unsigned words.\<close>

definition sat_add :: "'a::len word \<Rightarrow> 'a word \<Rightarrow> 'a word" where
  "sat_add a b = (if unat a + unat b < 2 ^ LENGTH('a) then a + b else - 1)"

section \<open>Running a machine over a list of events\<close>

fun run_steps :: "('s \<Rightarrow> 'e \<Rightarrow> 's) \<Rightarrow> 's \<Rightarrow> 'e list \<Rightarrow> 's" where
  "run_steps step s [] = s"
| "run_steps step s (e # es) = run_steps step (step s e) es"

text \<open>\<^verbatim>\<open>iter_mut().find(..)\<close> and the assignments to what it found.\<close>

primrec on_first :: "('a \<Rightarrow> bool) \<Rightarrow> ('a \<Rightarrow> 'a) \<Rightarrow> 'a list \<Rightarrow> 'a list" where
  "on_first P f [] = []"
| "on_first P f (x # xs) = (if P x then f x # xs else x # on_first P f xs)"

text \<open>The newest elements of a list, and the loop that drops the oldest ones
  (\<^verbatim>\<open>while len() > max { pop_front() }\<close>).\<close>

definition last_n :: "nat \<Rightarrow> 'a list \<Rightarrow> 'a list" where
  "last_n n xs = drop (length xs - n) xs"

fun evict :: "nat \<Rightarrow> 'a list \<Rightarrow> 'a list" where
  "evict mx [] = []"
| "evict mx (x # xs) = (if length (x # xs) > mx then evict mx xs else x # xs)"

section \<open>Facts on results\<close>

lemma res_bind_Inr_iff [simp]:
  "res_bind r f = Inr b \<longleftrightarrow> (\<exists>a. r = Inr a \<and> f a = Inr b)"
  by (cases r) auto

lemma res_bind_Inl_iff:
  "res_bind r f = Inl e \<longleftrightarrow> r = Inl e \<or> (\<exists>a. r = Inr a \<and> f a = Inl e)"
  by (cases r) auto

lemma ok_or_Inr_iff [simp]: "ok_or e x = Inr a \<longleftrightarrow> x = Some a"
  by (cases x) auto

lemma ok_or_Inl_iff [simp]: "ok_or e x = Inl e' \<longleftrightarrow> x = None \<and> e' = e"
  by (cases x) auto

lemma res_ok_Some_iff [simp]: "res_ok r = Some a \<longleftrightarrow> r = Inr a"
  by (cases r) auto

lemma res_ok_None_iff: "res_ok r = None \<longleftrightarrow> (\<exists>e. r = Inl e)"
  by (cases r) auto

lemma is_ok_simps [simp]: "is_ok (Inr a)" "\<not> is_ok (Inl e)"
  by (simp_all add: is_ok_def)

lemma is_ok_iff: "is_ok r \<longleftrightarrow> (\<exists>a. r = Inr a)"
  by (cases r) auto

section \<open>Facts on lists\<close>

lemma run_steps_append: "run_steps f s (xs @ ys) = run_steps f (run_steps f s xs) ys"
  by (induction xs arbitrary: s) auto

lemma find_Some_filter: "find P xs = (case filter P xs of [] \<Rightarrow> None | y # ys \<Rightarrow> Some y)"
  by (induction xs) auto

lemma filter_eq_Nil_iff: "filter P xs = [] \<longleftrightarrow> (\<forall>x \<in> set xs. \<not> P x)"
  by (induction xs) auto

lemma on_first_all: "list_all Q xs \<Longrightarrow> (\<And>x. Q x \<Longrightarrow> P x \<Longrightarrow> Q (f x)) \<Longrightarrow> list_all Q (on_first P f xs)"
  by (induction xs) auto

lemma find_on_first: "(\<And>x. P (f x) = P x) \<Longrightarrow> find P (on_first P f xs) = map_option f (find P xs)"
  by (induction xs) auto

lemma on_first_comp: "(\<And>x. P (f x) = P x) \<Longrightarrow> on_first P g (on_first P f xs) = on_first P (g \<circ> f) xs"
  by (induction xs) auto

lemma on_first_cong: "(\<And>x. x \<in> set xs \<Longrightarrow> P x \<Longrightarrow> f x = g x) \<Longrightarrow> on_first P f xs = on_first P g xs"
  by (induction xs) auto

lemma on_first_id: "(\<And>x. x \<in> set xs \<Longrightarrow> P x \<Longrightarrow> f x = x) \<Longrightarrow> on_first P f xs = xs"
  by (induction xs) auto

lemma on_first_none: "find P xs = None \<Longrightarrow> on_first P f xs = xs"
  by (induction xs) (auto split: if_splits)

lemma length_on_first [simp]: "length (on_first P f xs) = length xs"
  by (induction xs) auto

lemma find_Some_mem: "find P xs = Some x \<Longrightarrow> x \<in> set xs \<and> P x"
  by (induction xs) (auto split: if_splits)

lemma on_first_append: "\<exists>x \<in> set xs. P x \<Longrightarrow> on_first P f (xs @ ys) = on_first P f xs @ ys"
  by (induction xs) auto

lemma on_first_map: "(\<And>x. g (f x) = g x) \<Longrightarrow> map g (on_first P f xs) = map g xs"
  by (induction xs) auto

lemma evict_last_n: "evict mx xs = last_n mx xs"
proof (induction xs)
  case (Cons x xs)
  then show ?case by (cases "mx \<le> length xs") (auto simp: last_n_def Suc_diff_le)
qed (simp add: last_n_def)

lemma length_last_n: "length (last_n n xs) = min n (length xs)"
  by (simp add: last_n_def)

lemma last_n_append: "last_n n (last_n n xs @ [x]) = last_n n (xs @ [x])"
  by (cases "n \<le> length xs") (auto simp: last_n_def Suc_diff_le)

lemma rev_last_n: "rev (last_n n xs) = take n (rev xs)"
  by (simp add: last_n_def take_rev)

lemma last_n_suffix: "xs = take (length xs - n) xs @ last_n n xs"
  by (simp add: last_n_def)

lemma take_length_append [simp]: "take (length xs) (xs @ ys) = xs"
  by simp

lemma unat_sat_add: "unat (sat_add a b) = min (unat a + unat b) (2 ^ LENGTH('a) - 1)"
  for a b :: "'a::len word"
proof (cases "unat a + unat b < 2 ^ LENGTH('a)")
  case True
  then show ?thesis by (simp add: sat_add_def unat_add_lem [THEN iffD1])
next
  case False
  then show ?thesis
    by (simp add: sat_add_def unsigned_minus_1_eq_mask mask_eq_exp_minus_1)
qed

section \<open>Machines with an invariant\<close>

text \<open>
  An interface for every component whose operations are one step function: a
  property of the initial state that each step keeps holds after any sequence
  of steps.
\<close>

locale inv_machine =
  fixes step :: "'s \<Rightarrow> 'e \<Rightarrow> 's"
    and inv :: "'s \<Rightarrow> bool"
  assumes step_inv: "inv s \<Longrightarrow> inv (step s e)"
begin

lemma run_inv: "inv s \<Longrightarrow> inv (run_steps step s es)"
  by (induction es arbitrary: s) (auto simp: step_inv)

end

text \<open>A quantity that no step decreases: the runs are monotone in it.\<close>

locale monotone_machine =
  fixes step :: "'s \<Rightarrow> 'e \<Rightarrow> 's"
    and rank :: "'s \<Rightarrow> 'm::preorder"
  assumes step_mono: "rank s \<le> rank (step s e)"
begin

lemma run_mono: "rank s \<le> rank (run_steps step s es)"
proof (induction es arbitrary: s)
  case Nil
  show ?case by simp
next
  case (Cons e es)
  have "rank s \<le> rank (step s e)" by (rule step_mono)
  also have "\<dots> \<le> rank (run_steps step (step s e) es)" by (rule Cons.IH)
  finally show ?case by simp
qed

end

section \<open>Refinement\<close>

text \<open>A machine refines another one: their steps keep a relation between the states, and
  then so do all runs.\<close>

locale simulation =
  fixes cstep :: "'s \<Rightarrow> 'e \<Rightarrow> 's"
    and astep :: "'a \<Rightarrow> 'e \<Rightarrow> 'a"
    and sim :: "'s \<Rightarrow> 'a \<Rightarrow> bool"
  assumes step_sim: "sim s a \<Longrightarrow> sim (cstep s e) (astep a e)"
begin

lemma run_sim: "sim s a \<Longrightarrow> sim (run_steps cstep s es) (run_steps astep a es)"
  by (induction es arbitrary: s a) (auto simp: step_sim)

end

section \<open>Wire formats\<close>

text \<open>
  A wire format promises that decoding an encoded value gives the value back,
  also when further octets follow. The clients of a format rely on the facts
  proved here once: the encoder is injective, and a stream of encoded values
  splits in only one way.
\<close>

locale wire_format =
  fixes enc :: "'a \<Rightarrow> 'b list"
    and dec :: "'b list \<Rightarrow> 'e + 'a"
    and wf :: "'a \<Rightarrow> bool"
  assumes dec_enc: "wf x \<Longrightarrow> dec (enc x) = Inr x"
begin

lemma enc_inj: "wf x \<Longrightarrow> wf y \<Longrightarrow> enc x = enc y \<Longrightarrow> x = y"
proof -
  assume "wf x" "wf y" "enc x = enc y"
  then have "Inr x = (Inr y :: 'e + 'a)"
    by (metis dec_enc)
  then show "x = y" by simp
qed

lemma enc_inj_on: "inj_on enc {x. wf x}"
  by (auto intro!: inj_onI enc_inj)

end

end
