(* ===== verification/Rust_Bytes.thy ===== *)
theory Rust_Bytes
  imports Prelude
begin

unbundle bit_operations_syntax

text \<open>
  Octets and the big-endian integer encodings of Rust's standard library
  (\<^verbatim>\<open>to_be_bytes\<close>, \<^verbatim>\<open>from_be_bytes\<close>), which the RTP and RTCP formats use.
\<close>

type_synonym octet = "8 word"

section \<open>Definitions\<close>

definition u16_to_be :: "16 word \<Rightarrow> octet list" where
  "u16_to_be w = [ucast (drop_bit 8 w), ucast w]"

definition u32_to_be :: "32 word \<Rightarrow> octet list" where
  "u32_to_be w = [ucast (drop_bit 24 w), ucast (drop_bit 16 w), ucast (drop_bit 8 w), ucast w]"

definition u16_from_be :: "octet \<Rightarrow> octet \<Rightarrow> 16 word" where
  "u16_from_be a b = push_bit 8 (ucast a) OR ucast b"

definition u32_from_be :: "octet \<Rightarrow> octet \<Rightarrow> octet \<Rightarrow> octet \<Rightarrow> 32 word" where
  "u32_from_be a b c d =
     push_bit 24 (ucast a) OR push_bit 16 (ucast b) OR push_bit 8 (ucast c) OR ucast d"

text \<open>The 24-bit field of an RTCP report block.\<close>

definition u24_to_be :: "32 word \<Rightarrow> octet list" where
  "u24_to_be w = [ucast (drop_bit 16 w), ucast (drop_bit 8 w), ucast w]"

definition u24_from_be :: "octet \<Rightarrow> octet \<Rightarrow> octet \<Rightarrow> 32 word" where
  "u24_from_be a b c = push_bit 16 (ucast a) OR push_bit 8 (ucast b) OR ucast c"

text \<open>The four (two) octets of a slice that starts at index \<open>i\<close>.\<close>

definition be32_at :: "octet list \<Rightarrow> nat \<Rightarrow> 32 word" where
  "be32_at d i = u32_from_be (d ! i) (d ! (i + 1)) (d ! (i + 2)) (d ! (i + 3))"

definition be16_at :: "octet list \<Rightarrow> nat \<Rightarrow> 16 word" where
  "be16_at d i = u16_from_be (d ! i) (d ! (i + 1))"

section \<open>Round trips\<close>

lemma length_u16_to_be [simp]: "length (u16_to_be w) = 2"
  by (simp add: u16_to_be_def)

lemma length_u32_to_be [simp]: "length (u32_to_be w) = 4"
  by (simp add: u32_to_be_def)

lemma length_u24_to_be [simp]: "length (u24_to_be w) = 3"
  by (simp add: u24_to_be_def)

lemma u16_from_to_be [byte_simps]:
  "u16_from_be (ucast (drop_bit 8 w)) (ucast w) = w"
  unfolding u16_from_be_def
  by (rule bit_word_eqI) (auto simp: bit_simps)

lemma u32_from_to_be [byte_simps]:
  "u32_from_be (ucast (drop_bit 24 w)) (ucast (drop_bit 16 w)) (ucast (drop_bit 8 w)) (ucast w) = w"
proof (rule bit_word_eqI)
  fix n
  assume "n < LENGTH(32)"
  then consider "n < 8" | "8 \<le> n" "n < 16" | "16 \<le> n" "n < 24" | "24 \<le> n" "n < 32"
    by fastforce
  then show "bit (u32_from_be (ucast (drop_bit 24 w)) (ucast (drop_bit 16 w))
      (ucast (drop_bit 8 w)) (ucast w)) n = bit w n"
    by cases (auto simp: u32_from_be_def bit_simps)
qed

lemma u24_from_to_be [byte_simps]:
  "u24_from_be (ucast (drop_bit 16 w)) (ucast (drop_bit 8 w)) (ucast w) = w AND 0xFFFFFF"
proof -
  have m: "(0xFFFFFF :: 32 word) = mask 24" by (simp add: mask_eq_exp_minus_1)
  show ?thesis
  proof (rule bit_word_eqI)
    fix n
    assume "n < LENGTH(32)"
    then consider "n < 8" | "8 \<le> n" "n < 16" | "16 \<le> n" "n < 24" | "24 \<le> n" "n < 32"
      by fastforce
    then show "bit (u24_from_be (ucast (drop_bit 16 w)) (ucast (drop_bit 8 w)) (ucast w)) n
        = bit (w AND 0xFFFFFF) n"
      unfolding m by cases (auto simp: u24_from_be_def bit_simps)
  qed
qed

lemma be32_at_append [simp]:
  "length xs = n \<Longrightarrow> be32_at (xs @ u32_to_be w @ ys) n = w"
  by (simp add: be32_at_def u32_to_be_def nth_append u32_from_to_be)

lemma be16_at_append [simp]:
  "length xs = n \<Longrightarrow> be16_at (xs @ u16_to_be w @ ys) n = w"
  by (simp add: be16_at_def u16_to_be_def nth_append u16_from_to_be)

lemma be32_at_0 [simp]: "be32_at (u32_to_be w @ ys) 0 = w"
  by (rule be32_at_append [where xs = "[]" and n = 0, simplified])

lemma be32_at_drop: "i + k + 4 \<le> length d \<Longrightarrow> be32_at (drop k d) i = be32_at d (k + i)"
  by (simp add: be32_at_def ac_simps)

lemmas be_defs = u16_to_be_def u32_to_be_def u24_to_be_def be16_at_def be32_at_def

end
