(* ===== verification/Rtcp.thy ===== *)
theory Rtcp
  imports Rust_Bytes
begin

unbundle bit_operations_syntax

text \<open>
  RTCP sender and receiver reports of \<^verbatim>\<open>src/src/rtp/rtcp.rs\<close> (RFC 3550,
  section 6.4). The central fact is unconditional: decoding an encoded report,
  with any further octets of a compound packet behind it, gives the report cut
  to the 31 blocks and the 24-bit loss counters the format can carry.
\<close>

section \<open>Definitions\<close>

definition PT_SR :: octet where
  "PT_SR = 200"

definition PT_RR :: octet where
  "PT_RR = 201"

definition NTP_UNIX_OFFSET :: nat where
  "NTP_UNIX_OFFSET = 2208988800"

record ntp_timestamp =
  ntp_seconds :: "32 word"
  ntp_fraction :: "32 word"

text \<open>
  \<^verbatim>\<open>NtpTimestamp::now\<close>, with the system clock (seconds and nanoseconds since the UNIX
  epoch) as its argument; the casts to 32 bits keep the low bits.
\<close>

definition ntp_now :: "nat \<Rightarrow> nat \<Rightarrow> ntp_timestamp" where
  "ntp_now secs nanos =
     \<lparr>ntp_seconds = word_of_nat (secs + NTP_UNIX_OFFSET),
      ntp_fraction = word_of_nat ((nanos * 2 ^ 32) div 1000000000)\<rparr>"

definition middle32 :: "ntp_timestamp \<Rightarrow> 32 word" where
  "middle32 t = push_bit 16 (ntp_seconds t AND 0xFFFF) OR drop_bit 16 (ntp_fraction t)"

record report_block =
  rb_ssrc :: "32 word"
  fraction_lost :: octet
  cumulative_lost :: "32 word"
  extended_highest_seq :: "32 word"
  rb_jitter :: "32 word"
  last_sr :: "32 word"
  delay_since_last_sr :: "32 word"

datatype rtcp_error =
    RtcpHeaderShort nat
  | RtcpBadVersion octet
  | RtcpWrongType octet octet
  | RtcpTruncated nat nat
  | BodyShort nat
  | BlockShort
  | BlockLength nat

definition rb_write :: "report_block \<Rightarrow> octet list" where
  "rb_write b =
     u32_to_be (rb_ssrc b) @ [fraction_lost b]
     @ u24_to_be (cumulative_lost b AND 0x00FFFFFF)
     @ u32_to_be (extended_highest_seq b) @ u32_to_be (rb_jitter b)
     @ u32_to_be (last_sr b) @ u32_to_be (delay_since_last_sr b)"

definition rb_from_bytes :: "octet list \<Rightarrow> rtcp_error + report_block" where
  "rb_from_bytes d =
     (if length d < 24 then Inl (BlockLength (length d))
      else Inr \<lparr>rb_ssrc = be32_at d 0, fraction_lost = d ! 4,
                cumulative_lost = u24_from_be (d ! 5) (d ! 6) (d ! 7),
                extended_highest_seq = be32_at d 8, rb_jitter = be32_at d 12,
                last_sr = be32_at d 16, delay_since_last_sr = be32_at d 20\<rparr>)"

record sender_report =
  sr_ssrc :: "32 word"
  ntp :: ntp_timestamp
  rtp_timestamp :: "32 word"
  packet_count :: "32 word"
  octet_count :: "32 word"
  sr_reports :: "report_block list"

record receiver_report =
  rr_ssrc :: "32 word"
  rr_reports :: "report_block list"

text \<open>The header: version 2, the report count, the packet type and the length in words.\<close>

definition rtcp_header_bytes :: "nat \<Rightarrow> octet \<Rightarrow> nat \<Rightarrow> octet list" where
  "rtcp_header_bytes rc pt words = [0x80 OR word_of_nat rc, pt] @ u16_to_be (word_of_nat words)"

definition sr_to_bytes :: "sender_report \<Rightarrow> octet list" where
  "sr_to_bytes r =
     (let rc = min (length (sr_reports r)) 31;
          words = (28 div 4 - 1) + rc * 6
      in rtcp_header_bytes rc PT_SR words
         @ u32_to_be (sr_ssrc r)
         @ u32_to_be (ntp_seconds (ntp r)) @ u32_to_be (ntp_fraction (ntp r))
         @ u32_to_be (rtp_timestamp r) @ u32_to_be (packet_count r) @ u32_to_be (octet_count r)
         @ concat (map rb_write (take 31 (sr_reports r))))"

definition rr_to_bytes :: "receiver_report \<Rightarrow> octet list" where
  "rr_to_bytes r =
     (let rc = min (length (rr_reports r)) 31;
          words = (8 div 4 - 1) + rc * 6
      in rtcp_header_bytes rc PT_RR words
         @ u32_to_be (rr_ssrc r)
         @ concat (map rb_write (take 31 (rr_reports r))))"

text \<open>\<^verbatim>\<open>parse_rtcp_header\<close> returns the report count and the body the length field announces.\<close>

definition parse_rtcp_header :: "octet list \<Rightarrow> octet \<Rightarrow> rtcp_error + (nat \<times> octet list)" where
  "parse_rtcp_header data pt =
     (if length data < 4 then Inl (RtcpHeaderShort (length data))
      else if drop_bit 6 (data ! 0) \<noteq> 2 then Inl (RtcpBadVersion (drop_bit 6 (data ! 0)))
      else if data ! 1 \<noteq> pt then Inl (RtcpWrongType pt (data ! 1))
      else let total = (unat (be16_at data 2) + 1) * 4
           in if length data < total then Inl (RtcpTruncated total (length data))
              else Inr (unat (data ! 0 AND 0x1f), drop 4 (take total data)))"

text \<open>The loop over the report blocks that both parsers share.\<close>

fun parse_blocks :: "nat \<Rightarrow> octet list \<Rightarrow> nat \<Rightarrow> rtcp_error + report_block list" where
  "parse_blocks 0 body off = Inr []"
| "parse_blocks (Suc n) body off =
     (if length body < off + 24 then Inl BlockShort
      else res_bind (rb_from_bytes (take 24 (drop off body))) (\<lambda>b.
           res_bind (parse_blocks n body (off + 24)) (\<lambda>bs. Inr (b # bs))))"

definition sr_from_bytes :: "octet list \<Rightarrow> rtcp_error + sender_report" where
  "sr_from_bytes data =
     res_bind (parse_rtcp_header data PT_SR) (\<lambda>(rc, body).
       if length body < 24 then Inl (BodyShort (length body))
       else res_bind (parse_blocks rc body 24) (\<lambda>bs.
         Inr \<lparr>sr_ssrc = be32_at body 0,
              ntp = \<lparr>ntp_seconds = be32_at body 4, ntp_fraction = be32_at body 8\<rparr>,
              rtp_timestamp = be32_at body 12, packet_count = be32_at body 16,
              octet_count = be32_at body 20, sr_reports = bs\<rparr>))"

definition rr_from_bytes :: "octet list \<Rightarrow> rtcp_error + receiver_report" where
  "rr_from_bytes data =
     res_bind (parse_rtcp_header data PT_RR) (\<lambda>(rc, body).
       if length body < 4 then Inl (BodyShort (length body))
       else res_bind (parse_blocks rc body 4) (\<lambda>bs.
         Inr \<lparr>rr_ssrc = be32_at body 0, rr_reports = bs\<rparr>))"

definition peek_packet_type :: "octet list \<Rightarrow> octet option" where
  "peek_packet_type data =
     (if length data < 2 then None
      else if drop_bit 6 (data ! 0) \<noteq> 2 then None else Some (data ! 1))"

text \<open>What the format can carry of a block and of a list of blocks.\<close>

definition clip_block :: "report_block \<Rightarrow> report_block" where
  "clip_block b = b\<lparr>cumulative_lost := cumulative_lost b AND 0xFFFFFF\<rparr>"

definition clip_blocks :: "report_block list \<Rightarrow> report_block list" where
  "clip_blocks bs = map clip_block (take 31 bs)"

section \<open>Report blocks\<close>

lemma length_rb_write [simp]: "length (rb_write b) = 24"
  by (simp add: rb_write_def)

lemma rb_decode_encode: "rb_from_bytes (rb_write b) = Inr (clip_block b)"
  by (simp add: rb_from_bytes_def rb_write_def clip_block_def be_defs byte_simps
      and.assoc del: drop_bit_and)

lemma parse_blocks_concat:
  "length pre = off \<Longrightarrow>
   parse_blocks (length bs) (pre @ concat (map rb_write bs) @ rest) off = Inr (map clip_block bs)"
proof (induction bs arbitrary: pre off)
  case Nil
  show ?case by simp
next
  case (Cons b bs)
  have "parse_blocks (length bs) ((pre @ rb_write b) @ concat (map rb_write bs) @ rest) (off + 24)
      = Inr (map clip_block bs)"
    using Cons.prems by (intro Cons.IH) simp
  with Cons.prems show ?case by (simp add: rb_decode_encode)
qed

lemma length_concat_rb_write [simp]: "length (concat (map rb_write bs)) = 24 * length bs"
  by (induction bs) auto

section \<open>The common header\<close>

lemma rc_octet:
  assumes "rc \<le> 31"
  shows "drop_bit 6 (word_of_nat rc :: octet) = 0"
    and "unat ((0x80 OR word_of_nat rc :: octet) AND 0x1f) = rc"
proof -
  have small: "(word_of_nat rc :: octet) < 2 ^ 5"
    using assms by (simp add: word_less_nat_alt unsigned_of_nat take_bit_nat_eq_self)
  have m: "(0x1f :: octet) = mask 5" by (simp add: mask_eq_exp_minus_1)
  show "drop_bit 6 (word_of_nat rc :: octet) = 0"
    using small by (simp add: word_unat_eq_iff drop_bit_eq_div unat_div_distrib word_less_nat_alt)
  have "(word_of_nat rc :: octet) AND 0x1f = word_of_nat rc"
    using less_mask_eq [OF small] by (metis m)
  then show "unat ((0x80 OR word_of_nat rc :: octet) AND 0x1f) = rc"
    using assms by (simp add: bit.conj_disj_distrib2 unsigned_of_nat take_bit_nat_eq_self)
qed

lemma parse_rtcp_header_bytes:
  assumes "rc \<le> 31" "words < 65536" "length body = words * 4"
  shows "parse_rtcp_header (rtcp_header_bytes rc pt words @ body @ rest) pt = Inr (rc, body)"
proof -
  have w: "unat (word_of_nat words :: 16 word) = words"
    using assms(2) by (simp add: unsigned_of_nat take_bit_nat_eq_self)
  have len: "length (rtcp_header_bytes rc pt words) = 4"
    by (simp add: rtcp_header_bytes_def)
  then have "take (4 + words * 4) (rtcp_header_bytes rc pt words @ body @ rest)
      = rtcp_header_bytes rc pt words @ body"
    using assms(3) by simp
  moreover have "be16_at (rtcp_header_bytes rc pt words @ body @ rest) 2 = word_of_nat words"
    by (simp add: rtcp_header_bytes_def be_defs byte_simps)
  moreover have "drop 4 (rtcp_header_bytes rc pt words @ body) = body"
    by (simp add: rtcp_header_bytes_def be_defs)
  moreover have
    "(rtcp_header_bytes rc pt words @ body @ rest) ! 0 = 0x80 OR word_of_nat rc"
    "(rtcp_header_bytes rc pt words @ body @ rest) ! Suc 0 = pt"
    by (simp_all add: rtcp_header_bytes_def)
  ultimately show ?thesis
    using assms by (simp add: parse_rtcp_header_def rc_octet w len)
qed

section \<open>Reports\<close>

lemma sr_decode_encode:
  "sr_from_bytes (sr_to_bytes r @ rest) = Inr (r\<lparr>sr_reports := clip_blocks (sr_reports r)\<rparr>)"
proof -
  let ?bs = "take 31 (sr_reports r)"
  let ?pre = "u32_to_be (sr_ssrc r) @ u32_to_be (ntp_seconds (ntp r)) @ u32_to_be (ntp_fraction (ntp r))
     @ u32_to_be (rtp_timestamp r) @ u32_to_be (packet_count r) @ u32_to_be (octet_count r)"
  let ?body = "?pre @ concat (map rb_write ?bs)"
  let ?rc = "min (length (sr_reports r)) 31"
  have "parse_rtcp_header (sr_to_bytes r @ rest) PT_SR = Inr (?rc, ?body)"
    using parse_rtcp_header_bytes [of ?rc "6 + ?rc * 6" ?body PT_SR rest]
    by (simp add: sr_to_bytes_def Let_def min_def)
  moreover have "parse_blocks ?rc ?body 24 = Inr (map clip_block ?bs)"
    using parse_blocks_concat [of ?pre 24 ?bs "[]"] by (simp add: min.commute)
  moreover have "be32_at ?body 0 = sr_ssrc r" "be32_at ?body 4 = ntp_seconds (ntp r)"
      "be32_at ?body 8 = ntp_fraction (ntp r)" "be32_at ?body 12 = rtp_timestamp r"
      "be32_at ?body 16 = packet_count r" "be32_at ?body 20 = octet_count r"
    by (simp_all add: be_defs byte_simps)
  ultimately show ?thesis
    by (simp add: sr_from_bytes_def clip_blocks_def)
qed

lemma rr_decode_encode:
  "rr_from_bytes (rr_to_bytes r @ rest) = Inr (r\<lparr>rr_reports := clip_blocks (rr_reports r)\<rparr>)"
proof -
  let ?bs = "take 31 (rr_reports r)"
  let ?pre = "u32_to_be (rr_ssrc r)"
  let ?body = "?pre @ concat (map rb_write ?bs)"
  let ?rc = "min (length (rr_reports r)) 31"
  have "parse_rtcp_header (rr_to_bytes r @ rest) PT_RR = Inr (?rc, ?body)"
    using parse_rtcp_header_bytes [of ?rc "1 + ?rc * 6" ?body PT_RR rest]
    by (simp add: rr_to_bytes_def Let_def min_def)
  moreover have "parse_blocks ?rc ?body 4 = Inr (map clip_block ?bs)"
    using parse_blocks_concat [of ?pre 4 ?bs "[]"] by (simp add: min.commute)
  ultimately show ?thesis
    by (simp add: rr_from_bytes_def clip_blocks_def)
qed

text \<open>The reports the format carries whole.\<close>

definition wf_blocks :: "report_block list \<Rightarrow> bool" where
  "wf_blocks bs \<longleftrightarrow> length bs \<le> 31 \<and> (\<forall>b \<in> set bs. cumulative_lost b AND 0xFFFFFF = cumulative_lost b)"

lemma clip_blocks_id: "wf_blocks bs \<Longrightarrow> clip_blocks bs = bs"
  by (auto simp: wf_blocks_def clip_blocks_def clip_block_def intro!: map_idI)

interpretation sr_wire: wire_format sr_to_bytes sr_from_bytes "\<lambda>r. wf_blocks (sr_reports r)"
  using sr_decode_encode [of _ "[]"] by unfold_locales (simp add: clip_blocks_id)

interpretation rr_wire: wire_format rr_to_bytes rr_from_bytes "\<lambda>r. wf_blocks (rr_reports r)"
  using rr_decode_encode [of _ "[]"] by unfold_locales (simp add: clip_blocks_id)

lemma sr_peek: "peek_packet_type (sr_to_bytes r) = Some PT_SR"
  by (simp add: peek_packet_type_def sr_to_bytes_def rtcp_header_bytes_def Let_def rc_octet)

lemma rr_peek: "peek_packet_type (rr_to_bytes r) = Some PT_RR"
  by (simp add: peek_packet_type_def rr_to_bytes_def rtcp_header_bytes_def Let_def rc_octet)

lemma rr_rejects_sr: "rr_from_bytes (sr_to_bytes r @ rest) = Inl (RtcpWrongType PT_RR PT_SR)"
  by (simp add: rr_from_bytes_def parse_rtcp_header_def sr_to_bytes_def rtcp_header_bytes_def Let_def
      rc_octet PT_SR_def PT_RR_def)

lemma unat_middle32:
  "unat (middle32 t) = unat (ntp_seconds t) mod 2 ^ 16 * 2 ^ 16 + unat (ntp_fraction t) div 2 ^ 16"
proof -
  let ?a = "push_bit 16 (ntp_seconds t AND 0xFFFF)" and ?b = "drop_bit 16 (ntp_fraction t)"
  have m: "(0xFFFF :: 32 word) = mask 16" by (simp add: mask_eq_exp_minus_1)
  have disj: "?a AND ?b = 0"
    unfolding m by (rule bit_word_eqI) (auto simp: bit_simps dest: bit_imp_le_length)
  have b: "unat ?b = unat (ntp_fraction t) div 2 ^ 16"
    by (simp add: unat_drop_bit_eq drop_bit_nat_def)
  have a: "unat ?a = unat (ntp_seconds t) mod 2 ^ 16 * 2 ^ 16"
    unfolding m take_bit_eq_mask [symmetric]
    by (simp add: unsigned_push_bit_eq unsigned_take_bit_eq take_bit_push_bit)
      (simp add: push_bit_eq_mult take_bit_eq_mod)
  have "middle32 t = ?a + ?b"
    unfolding middle32_def using disj by (metis disjunctive_add_eq_or)
  moreover have "unat ?a + unat ?b < 2 ^ LENGTH(32)"
  proof -
    have "unat (ntp_fraction t) < 2 ^ 32"
      using unsigned_less [of "ntp_fraction t", where ?'a = nat] by simp
    then show ?thesis unfolding a b by simp
  qed
  ultimately show ?thesis
    using a b by (simp add: unat_add_lem [THEN iffD1])
qed

section \<open>Properties\<close>

text \<open>Decoding an encoded sender report, with anything behind it in the compound packet,
  returns the report with its first 31 blocks and its loss counters cut to 24 bits; the same holds
  for receiver reports, and neither parser takes the other's packet.\<close>

theorem rtcp_roundtrip:
  "sr_from_bytes (sr_to_bytes s @ rest) = Inr (s\<lparr>sr_reports := clip_blocks (sr_reports s)\<rparr>)
   \<and> rr_from_bytes (rr_to_bytes r @ rest) = Inr (r\<lparr>rr_reports := clip_blocks (rr_reports r)\<rparr>)
   \<and> rr_from_bytes (sr_to_bytes s @ rest) = Inl (RtcpWrongType PT_RR PT_SR)
   \<and> peek_packet_type (sr_to_bytes s) = Some PT_SR \<and> peek_packet_type (rr_to_bytes r) = Some PT_RR"
  by (simp add: sr_decode_encode rr_decode_encode rr_rejects_sr sr_peek rr_peek)

text \<open>The NTP fraction of a wall-clock time is not truncated by the cast to 32 bits, and the
  middle 32 bits of a time stamp are the low 16 bits of its seconds over the high 16 bits of its
  fraction.\<close>

theorem ntp_fraction_exact:
  assumes "nanos < 1000000000"
  shows "unat (ntp_fraction (ntp_now secs nanos)) = nanos * 2 ^ 32 div 1000000000
    \<and> unat (middle32 t) = unat (ntp_seconds t) mod 2 ^ 16 * 2 ^ 16 + unat (ntp_fraction t) div 2 ^ 16"
proof
  have "nanos * 2 ^ 32 div 1000000000 < 2 ^ 32"
    using assms by (simp add: div_less_iff_less_mult)
  then show "unat (ntp_fraction (ntp_now secs nanos)) = nanos * 2 ^ 32 div 1000000000"
    by (simp add: ntp_now_def unsigned_of_nat take_bit_nat_eq_self)
  show "unat (middle32 t) = unat (ntp_seconds t) mod 2 ^ 16 * 2 ^ 16 + unat (ntp_fraction t) div 2 ^ 16"
    by (rule unat_middle32)
qed

theorem ntp_fraction_exact_witness:
  "unat (ntp_fraction (ntp_now 1700000000 999999999)) = 999999999 * 2 ^ 32 div 1000000000"
  by (rule ntp_fraction_exact [THEN conjunct1]) simp

end
