(* ===== verification/G711.thy ===== *)
theory G711
  imports Rust_Bytes
begin

unbundle bit_operations_syntax

text \<open>
  The G.711 mu-law coder of \<^verbatim>\<open>src/src/rtp/mod.rs\<close>, the one codec the carrier
  accepts. The facts: the quantisation error of a sample is at most one
  32nd of its biased magnitude, and transcoding an octet through linear PCM is
  stable except for the second code of zero.
\<close>

section \<open>Definitions\<close>

definition ULAW_BIAS :: int where
  "ULAW_BIAS = 0x84"

definition ULAW_CLIP :: int where
  "ULAW_CLIP = 32635"

text \<open>The segment table: the exponent of a biased magnitude.\<close>

definition ulaw_segment :: "int \<Rightarrow> nat" where
  "ulaw_segment s =
     (if s < 256 then 0 else if s < 512 then 1 else if s < 1024 then 2 else if s < 2048 then 3
      else if s < 4096 then 4 else if s < 8192 then 5 else if s < 16384 then 6 else 7)"

definition encode_ulaw :: "16 word \<Rightarrow> octet" where
  "encode_ulaw sample =
     (let s0 = sint sample;
          sgn_bit = (if s0 < 0 then 0x80 else 0);
          mag = (if s0 < 0 then - s0 else s0);
          s = (if mag > ULAW_CLIP then ULAW_CLIP else mag) + ULAW_BIAS;
          e = ulaw_segment s;
          mantissa = word_of_int (drop_bit (e + 3) s AND 0x0f)
      in NOT (sgn_bit OR push_bit 4 (word_of_nat e) OR mantissa))"

definition decode_ulaw :: "octet \<Rightarrow> 16 word" where
  "decode_ulaw octt =
     (let b = NOT octt;
          e = unat (drop_bit 4 b AND 0x07);
          mantissa = uint (b AND 0x0f);
          magnitude = push_bit e (push_bit 3 mantissa + ULAW_BIAS);
          val = magnitude - ULAW_BIAS
      in if b AND 0x80 \<noteq> 0 then - word_of_int val else word_of_int val)"

text \<open>The sample the coder really represents: magnitudes above the clip level saturate.\<close>

definition ulaw_clip :: "int \<Rightarrow> int" where
  "ulaw_clip x = max (- ULAW_CLIP) (min ULAW_CLIP x)"

text \<open>The octet with a given sign, segment and mantissa, and the level it stands for.\<close>

definition ulaw_code :: "bool \<Rightarrow> nat \<Rightarrow> nat \<Rightarrow> octet" where
  "ulaw_code neg e m = NOT ((if neg then 0x80 else 0) OR push_bit 4 (word_of_nat e) OR word_of_nat m)"

definition ulaw_level :: "bool \<Rightarrow> nat \<Rightarrow> nat \<Rightarrow> int" where
  "ulaw_level neg e m = (let v = (int m * 8 + 132) * 2 ^ e - 132 in if neg then - v else v)"

section \<open>Codes and levels\<close>

lemma decode_ulaw_code_all:
  "\<forall>neg \<in> {True, False}. \<forall>e \<in> set [0..<8]. \<forall>m \<in> set [0..<16].
     sint (decode_ulaw (ulaw_code neg e m)) = ulaw_level neg e m"
  by code_simp

lemma decode_ulaw_code:
  "e < 8 \<Longrightarrow> m < 16 \<Longrightarrow> sint (decode_ulaw (ulaw_code neg e m)) = ulaw_level neg e m"
  using decode_ulaw_code_all by (cases neg) simp_all

lemma ulaw_segment_bounds:
  assumes "132 \<le> s" "s < 32768"
  shows "ulaw_segment s < 8" "2 ^ (ulaw_segment s + 7) \<le> s" "s < 2 ^ (ulaw_segment s + 8)"
  using assms by (auto simp: ulaw_segment_def)

lemma and_15_int: "a AND 15 = a mod (16 :: int)"
  using take_bit_eq_mask [of 4 a] by (simp add: take_bit_eq_mod mask_eq_exp_minus_1)

lemma encode_ulaw_code:
  fixes sample :: "16 word"
  defines "x \<equiv> sint sample"
  defines "s \<equiv> min \<bar>x\<bar> ULAW_CLIP + ULAW_BIAS"
  shows "encode_ulaw sample
    = ulaw_code (x < 0) (ulaw_segment s) (nat (s div 2 ^ (ulaw_segment s + 3) mod 16))"
proof -
  have eq: "(if (if x < 0 then - x else x) > ULAW_CLIP then ULAW_CLIP else (if x < 0 then - x else x))
      + ULAW_BIAS = s"
    by (auto simp: s_def min_def)
  have "drop_bit (ulaw_segment s + 3) s AND 0x0f = s div 2 ^ (ulaw_segment s + 3) mod 16"
    by (simp add: drop_bit_eq_div and_15_int)
  then show ?thesis
    by (simp add: encode_ulaw_def ulaw_code_def Let_def x_def [symmetric] eq)
qed

lemma mod_16_upper: "16 \<le> d \<Longrightarrow> d < 32 \<Longrightarrow> d mod 16 = d - (16 :: int)"
  by presburger

lemma ulaw_reconstruct:
  assumes "132 \<le> s" "s < 32768"
  defines "e \<equiv> ulaw_segment s"
  defines "m \<equiv> nat (s div 2 ^ (e + 3) mod 16)"
  shows "m < 16" and "\<bar>(int m * 8 + 132) * 2 ^ e - s\<bar> \<le> 2 ^ (e + 2)"
proof -
  let ?q = "2 ^ (e + 3) :: int"
  have lo: "?q * 16 \<le> s" and hi: "s < ?q * 32"
    using ulaw_segment_bounds [OF assms(1,2)] by (simp_all add: e_def power_add)
  have d1: "16 \<le> s div ?q"
    using zdiv_mono1 [OF lo, of ?q] by simp
  have d2: "s div ?q < 32"
  proof (rule ccontr)
    assume "\<not> s div ?q < 32"
    then have "32 * ?q \<le> s div ?q * ?q" by (intro mult_right_mono) simp_all
    moreover have "s div ?q * ?q \<le> s" by (simp add: minus_mod_eq_div_mult [symmetric])
    ultimately show False using hi by linarith
  qed
  note d = d1 d2
  have mod: "s div ?q mod 16 = s div ?q - 16"
    using d by (rule mod_16_upper)
  show "m < 16" unfolding m_def mod using d by simp
  have m: "int m = s div ?q - 16" unfolding m_def mod using d by simp
  have "(int m * 8 + 132) * 2 ^ e = (s div ?q) * ?q + 2 ^ (e + 2)"
    unfolding m by (simp add: power_add algebra_simps)
  moreover have "s = (s div ?q) * ?q + s mod ?q" by (rule div_mult_mod_eq [symmetric])
  moreover have "0 \<le> s mod ?q" "s mod ?q < ?q" by simp_all
  moreover have "?q = 2 * 2 ^ (e + 2)" by (simp add: power_add)
  ultimately show "\<bar>(int m * 8 + 132) * 2 ^ e - s\<bar> \<le> 2 ^ (e + 2)" by linarith
qed

section \<open>The decoded sample\<close>

text \<open>The sample and its reconstruction, both shifted by the bias.\<close>

lemma decode_encode_level:
  fixes sample :: "16 word"
  defines "x \<equiv> sint sample"
  defines "s \<equiv> min \<bar>x\<bar> ULAW_CLIP + ULAW_BIAS"
  obtains l where "0 \<le> l - 132" "\<bar>l - s\<bar> * 32 \<le> s"
    "sint (decode_ulaw (encode_ulaw sample)) = (if x < 0 then 132 - l else l - 132)"
proof -
  define e where "e = ulaw_segment s"
  define m where "m = nat (s div 2 ^ (e + 3) mod 16)"
  define l where "l = (int m * 8 + 132) * 2 ^ e"
  have s: "132 \<le> s" "s < 32768" by (auto simp: s_def ULAW_CLIP_def ULAW_BIAS_def)
  have e: "e < 8" "2 ^ (e + 7) \<le> s" using ulaw_segment_bounds [OF s] by (simp_all add: e_def)
  have m: "m < 16" "\<bar>l - s\<bar> \<le> 2 ^ (e + 2)"
    using ulaw_reconstruct [OF s] by (simp_all add: e_def m_def l_def)
  have "\<bar>l - s\<bar> * 32 \<le> 2 ^ (e + 2) * 32" using m(2) by (rule mult_right_mono) simp
  also have "\<dots> = 2 ^ (e + 7)" by (simp add: power_add)
  finally have err: "\<bar>l - s\<bar> * 32 \<le> s" using e(2) by simp
  have "132 * 1 \<le> (int m * 8 + 132) * 2 ^ e" by (intro mult_mono) simp_all
  then have nonneg: "0 \<le> l - 132" by (simp add: l_def)
  have "encode_ulaw sample = ulaw_code (x < 0) e m"
    using encode_ulaw_code [of sample] by (simp add: x_def s_def e_def m_def)
  then have "sint (decode_ulaw (encode_ulaw sample)) = (if x < 0 then 132 - l else l - 132)"
    using e(1) m(1) by (simp add: decode_ulaw_code ulaw_level_def l_def Let_def)
  with nonneg err show ?thesis by (rule that)
qed

lemma ulaw_level_segment:
  assumes "e < 8" "m < 16"
  defines "l \<equiv> (int m * 8 + 132) * 2 ^ e"
  shows "ulaw_segment l = e" "nat (l div 2 ^ (e + 3) mod 16) = m" "132 \<le> l" "l \<le> 32256"
proof -
  have e: "e \<in> {0, 1, 2, 3, 4, 5, 6, 7}" using assms(1) by auto
  show "ulaw_segment l = e" "132 \<le> l" "l \<le> 32256"
    using e assms(2) by (auto simp: l_def ulaw_segment_def)
  have "l div 2 ^ (e + 3) = (int m * 8 + 132) div 8"
    by (simp add: l_def power_add mult.commute [of _ "2 ^ e"])
  also have "\<dots> = int m + 16" by simp
  finally show "nat (l div 2 ^ (e + 3) mod 16) = m" using assms(2) by simp
qed

lemma ulaw_level_zero: "(int m * 8 + 132) * 2 ^ e = 132 \<longleftrightarrow> e = 0 \<and> m = 0"
proof
  assume l: "(int m * 8 + 132) * 2 ^ e = 132"
  have "132 * 2 ^ e \<le> (int m * 8 + 132) * 2 ^ e" by (intro mult_right_mono) simp_all
  with l have "(2 :: int) ^ e \<le> 2 ^ 0" by simp
  then have "e \<le> 0" by (rule power_le_imp_le_exp [rotated]) simp
  with l show "e = 0 \<and> m = 0" by simp
qed simp

lemma ulaw_transcode_code:
  assumes "e < 8" "m < 16"
  shows "encode_ulaw (decode_ulaw (ulaw_code neg e m))
    = (if neg \<and> e = 0 \<and> m = 0 then ulaw_code False e m else ulaw_code neg e m)"
proof -
  let ?l = "(int m * 8 + 132) * 2 ^ e"
  let ?x = "sint (decode_ulaw (ulaw_code neg e m))"
  note seg = ulaw_level_segment [OF assms]
  have x: "?x = (if neg then 132 - ?l else ?l - 132)"
    using assms by (simp add: decode_ulaw_code ulaw_level_def Let_def)
  have s: "min \<bar>?x\<bar> ULAW_CLIP + ULAW_BIAS = ?l"
    using seg(3,4) unfolding x by (auto simp: ULAW_CLIP_def ULAW_BIAS_def)
  note zero = ulaw_level_zero [of m e]
  have "encode_ulaw (decode_ulaw (ulaw_code neg e m)) = ulaw_code (?x < 0) e m"
    using encode_ulaw_code [of "decode_ulaw (ulaw_code neg e m)"] unfolding s seg(1,2) .
  moreover have "?x < 0 \<longleftrightarrow> neg \<and> \<not> (e = 0 \<and> m = 0)"
    using seg(3) zero unfolding x by auto
  ultimately show ?thesis by auto
qed

lemma octet_is_ulaw_code:
  obtains neg e m where "e < 8" "m < 16" "(octt :: octet) = ulaw_code neg e m"
proof -
  let ?b = "NOT octt"
  have "?b = (if bit ?b 7 then 0x80 else 0) OR push_bit 4 (take_bit 3 (drop_bit 4 ?b)) OR take_bit 4 ?b"
  proof (rule bit_word_eqI)
    fix n assume "n < LENGTH(8)"
    then have "n \<in> {0, 1, 2, 3, 4, 5, 6, 7}" by auto
    then show "bit ?b n = bit ((if bit ?b 7 then 0x80 else 0)
        OR push_bit 4 (take_bit 3 (drop_bit 4 ?b)) OR take_bit 4 ?b) n"
      by (elim insertE) (simp_all add: bit_simps)
  qed
  then have "octt = ulaw_code (bit ?b 7) (unat (take_bit 3 (drop_bit 4 ?b))) (unat (take_bit 4 ?b))"
    by (simp add: ulaw_code_def)
  moreover have "unat (take_bit 3 (drop_bit 4 ?b)) < 8" "unat (take_bit 4 ?b) < 16"
    using take_bit_nat_less_exp [of 3 "unat (drop_bit 4 ?b)"] take_bit_nat_less_exp [of 4 "unat ?b"]
    by (simp_all add: unsigned_take_bit_eq)
  ultimately show ?thesis using that by blast
qed

section \<open>Properties\<close>

text \<open>Encoding a sample and decoding the octet changes the (clipped) sample by at most one
  32nd of its biased magnitude, whatever the sample, and never flips its sign.\<close>

theorem ulaw_quantisation_error:
  "32 * \<bar>sint (decode_ulaw (encode_ulaw sample)) - ulaw_clip (sint sample)\<bar>
     \<le> \<bar>ulaw_clip (sint sample)\<bar> + 132
   \<and> 0 \<le> sint sample * sint (decode_ulaw (encode_ulaw sample))"
proof -
  let ?x = "sint sample"
  obtain l where l: "0 \<le> l - 132" "\<bar>l - (min \<bar>?x\<bar> ULAW_CLIP + ULAW_BIAS)\<bar> * 32 \<le> min \<bar>?x\<bar> ULAW_CLIP + ULAW_BIAS"
      "sint (decode_ulaw (encode_ulaw sample)) = (if ?x < 0 then 132 - l else l - 132)"
    by (rule decode_encode_level)
  have clip: "ulaw_clip ?x = (if ?x < 0 then - min \<bar>?x\<bar> ULAW_CLIP else min \<bar>?x\<bar> ULAW_CLIP)"
    by (auto simp: ulaw_clip_def ULAW_CLIP_def)
  show ?thesis
    using l unfolding clip
    by (auto simp: ULAW_BIAS_def mult_nonpos_nonpos abs_if min_def split: if_splits)
qed

text \<open>Transcoding an octet to linear PCM and back gives the same octet, except that the code
  of negative zero (\<^verbatim>\<open>0x7f\<close>) comes back as the code of positive zero (\<^verbatim>\<open>0xff\<close>).\<close>

theorem ulaw_transcode_stable:
  "encode_ulaw (decode_ulaw octt) = (if octt = 0x7f then 0xff else octt)"
proof -
  obtain neg e m where em: "e < 8" "m < 16" and o: "octt = ulaw_code neg e m"
    by (rule octet_is_ulaw_code)
  have zero: "ulaw_code False 0 0 = 0xff" "ulaw_code True 0 0 = 0x7f"
    by (simp_all add: ulaw_code_def)
  have "octt = 0x7f \<longleftrightarrow> neg \<and> e = 0 \<and> m = 0"
  proof
    assume "octt = 0x7f"
    then have "ulaw_level neg e m = 0"
      using decode_ulaw_code [OF em, of neg] decode_ulaw_code [of 0 0 True]
      by (simp add: o zero ulaw_level_def)
    then have "e = 0 \<and> m = 0" by (auto simp: ulaw_level_def Let_def ulaw_level_zero split: if_splits)
    with \<open>octt = 0x7f\<close> show "neg \<and> e = 0 \<and> m = 0" by (cases neg) (simp_all add: o zero)
  qed (simp add: o zero)
  then show ?thesis using ulaw_transcode_code [OF em, of neg] by (auto simp: o zero)
qed

end
