(* ===== verification/Rtp_Packet.thy ===== *)
theory Rtp_Packet
  imports Rust_Bytes
begin

unbundle bit_operations_syntax

text \<open>
  The RTP packet of \<^verbatim>\<open>src/src/rtp/packet.rs\<close> (RFC 3550, section 5.1): the
  serialiser writes the minimal 12-octet header, the parser also skips
  contributing sources, a header extension and padding. The facts: the parser
  undoes the serialiser, every parsed payload is a slice of the datagram that
  starts after the fixed header, and the parser accepts exactly the datagrams
  whose announced lengths fit.
\<close>

section \<open>Definitions\<close>

definition PAYLOAD_TYPE_ULAW :: octet where
  "PAYLOAD_TYPE_ULAW = 0"

definition SAMPLE_RATE :: nat where
  "SAMPLE_RATE = 8000"

definition SAMPLES_PER_FRAME :: nat where
  "SAMPLES_PER_FRAME = SAMPLE_RATE * 20 div 1000"

record rtp_packet =
  payload_type :: octet
  marker :: bool
  sequence :: "16 word"
  timestamp :: "32 word"
  ssrc :: "32 word"
  payload :: "octet list"

datatype rtp_error =
    RtpTooShort nat
  | RtpBadVersion octet
  | CsrcShort nat nat
  | ExtensionShort
  | ExtensionLength
  | BadPadding nat

definition rtp_to_bytes :: "rtp_packet \<Rightarrow> octet list" where
  "rtp_to_bytes p =
     [0x80, (if marker p then 0x80 else 0) OR (payload_type p AND 0x7f)]
     @ u16_to_be (sequence p) @ u32_to_be (timestamp p) @ u32_to_be (ssrc p) @ payload p"

text \<open>The offset of the payload: contributing sources, then the header extension.\<close>

definition rtp_payload_offset :: "octet list \<Rightarrow> rtp_error + nat" where
  "rtp_payload_offset data =
     (let cc = unat (data ! 0 AND 0x0f);
          offset = 12 + cc * 4
      in if length data < offset then Inl (CsrcShort cc (length data))
         else if data ! 0 AND 0x10 \<noteq> 0 then
           (if length data < offset + 4 then Inl ExtensionShort
            else let offset' = offset + 4 + unat (be16_at data (offset + 2)) * 4
                 in if length data < offset' then Inl ExtensionLength else Inr offset')
         else Inr offset)"

text \<open>The end of the payload: the last octet counts the padding when the P bit is set.\<close>

definition rtp_payload_end :: "octet list \<Rightarrow> nat \<Rightarrow> rtp_error + nat" where
  "rtp_payload_end data offset =
     (if data ! 0 AND 0x20 \<noteq> 0 then
        (let pad_len = unat (data ! (length data - 1))
         in if pad_len = 0 \<or> pad_len > length data - offset then Inl (BadPadding pad_len)
            else Inr (length data - pad_len))
      else Inr (length data))"

definition rtp_from_bytes :: "octet list \<Rightarrow> rtp_error + rtp_packet" where
  "rtp_from_bytes data =
     (if length data < 12 then Inl (RtpTooShort (length data))
      else if drop_bit 6 (data ! 0) \<noteq> 2 then Inl (RtpBadVersion (drop_bit 6 (data ! 0)))
      else res_bind (rtp_payload_offset data) (\<lambda>offset.
           res_bind (rtp_payload_end data offset) (\<lambda>stop.
             Inr \<lparr>payload_type = data ! 1 AND 0x7f,
                  marker = (data ! 1 AND 0x80 \<noteq> 0),
                  sequence = be16_at data 2,
                  timestamp = be32_at data 4,
                  ssrc = be32_at data 8,
                  payload = drop offset (take stop data)\<rparr>)))"

text \<open>A packet the serialiser represents faithfully: the payload type has seven bits.\<close>

definition wf_rtp :: "rtp_packet \<Rightarrow> bool" where
  "wf_rtp p \<longleftrightarrow> unat (payload_type p) < 128"

section \<open>Header facts\<close>

lemma pt_and_7f: "unat (p :: octet) < 128 \<Longrightarrow> p AND 0x7f = p"
proof -
  assume "unat p < 128"
  then have "p < 2 ^ 7" by (simp add: word_less_nat_alt)
  moreover have "(0x7f :: octet) = mask 7" by (simp add: mask_eq_exp_minus_1)
  ultimately show ?thesis by (metis less_mask_eq)
qed

lemma second_octet_pt:
  "unat (p :: octet) < 128 \<Longrightarrow> ((if m then 0x80 else 0) OR (p AND 0x7f)) AND 0x7f = p"
  by (simp add: pt_and_7f bit.conj_disj_distrib2)

lemma second_octet_marker:
  "unat (p :: octet) < 128 \<Longrightarrow> (((if m then 0x80 else 0) OR (p AND 0x7f)) AND 0x80 \<noteq> 0) = m"
proof -
  assume a: "unat p < 128"
  have "(p AND 0x7f) AND 0x80 = (0 :: octet)"
    by (simp add: and.assoc)
  with a show ?thesis by (simp add: bit.conj_disj_distrib2 and.assoc)
qed

lemma length_rtp_to_bytes [simp]: "length (rtp_to_bytes p) = 12 + length (payload p)"
  by (simp add: rtp_to_bytes_def)

lemma rtp_to_bytes_nth:
  "rtp_to_bytes p ! 0 = 0x80"
  "rtp_to_bytes p ! 1 = (if marker p then 0x80 else 0) OR (payload_type p AND 0x7f)"
  "rtp_to_bytes p ! Suc 0 = (if marker p then 0x80 else 0) OR (payload_type p AND 0x7f)"
  by (simp_all add: rtp_to_bytes_def)

lemma rtp_to_bytes_fields:
  "be16_at (rtp_to_bytes p) 2 = sequence p"
  "be32_at (rtp_to_bytes p) 4 = timestamp p"
  "be32_at (rtp_to_bytes p) 8 = ssrc p"
  by (simp_all add: rtp_to_bytes_def be_defs byte_simps)

lemma drop_rtp_to_bytes: "drop 12 (rtp_to_bytes p) = payload p"
  by (simp add: rtp_to_bytes_def be_defs)

lemma rtp_to_bytes_offset: "rtp_payload_offset (rtp_to_bytes p) = Inr 12"
  by (simp add: rtp_payload_offset_def rtp_to_bytes_nth)

lemma rtp_to_bytes_end: "rtp_payload_end (rtp_to_bytes p) 12 = Inr (12 + length (payload p))"
  by (simp add: rtp_payload_end_def rtp_to_bytes_nth)

lemma rtp_decode_encode: "wf_rtp p \<Longrightarrow> rtp_from_bytes (rtp_to_bytes p) = Inr p"
  by (simp add: rtp_from_bytes_def rtp_to_bytes_offset rtp_to_bytes_end rtp_to_bytes_nth
      rtp_to_bytes_fields drop_rtp_to_bytes second_octet_pt second_octet_marker wf_rtp_def)

interpretation rtp_wire: wire_format rtp_to_bytes rtp_from_bytes wf_rtp
  by unfold_locales (rule rtp_decode_encode)

section \<open>Bounds of the parser\<close>

lemma rtp_payload_offset_bounds:
  "rtp_payload_offset data = Inr n \<Longrightarrow> 12 \<le> n \<and> n \<le> length data"
  by (auto simp: rtp_payload_offset_def Let_def split: if_splits)

lemma rtp_payload_end_bounds:
  "rtp_payload_end data n = Inr m \<Longrightarrow> n \<le> length data \<Longrightarrow> n \<le> m \<and> m \<le> length data"
  by (auto simp: rtp_payload_end_def Let_def split: if_splits)

lemma rtp_from_bytes_slice:
  assumes "rtp_from_bytes data = Inr p"
  obtains n m where "12 \<le> n" "n \<le> m" "m \<le> length data" "payload p = drop n (take m data)"
proof -
  from assms obtain n m where nm: "rtp_payload_offset data = Inr n" "rtp_payload_end data n = Inr m"
      and p: "payload p = drop n (take m data)"
    by (auto simp: rtp_from_bytes_def split: if_splits)
  from rtp_payload_offset_bounds [OF nm(1)] rtp_payload_end_bounds [OF nm(2)]
  show ?thesis using p by (intro that [of n m]) auto
qed

section \<open>Properties\<close>

text \<open>C38. Parsing what \<^verbatim>\<open>RtpPacket::to_bytes\<close> wrote returns the packet, for every packet
  whose payload type fits in seven bits; further packets do not share its encoding.\<close>

theorem rtp_roundtrip:
  assumes "unat (payload_type p) < 128"
  shows "rtp_from_bytes (rtp_to_bytes p) = Inr p
    \<and> (\<forall>q. unat (payload_type q) < 128 \<longrightarrow> rtp_to_bytes q = rtp_to_bytes p \<longrightarrow> q = p)"
proof -
  have "wf_rtp p" using assms by (simp add: wf_rtp_def)
  then show ?thesis
    using rtp_wire.enc_inj by (auto simp: rtp_decode_encode wf_rtp_def)
qed

theorem rtp_roundtrip_witness:
  "rtp_from_bytes (rtp_to_bytes \<lparr>payload_type = 101, marker = True, sequence = 65535,
     timestamp = 0x01020304, ssrc = 0xdeadbeef, payload = [1, 2, 3]\<rparr>)
   = Inr \<lparr>payload_type = 101, marker = True, sequence = 65535,
     timestamp = 0x01020304, ssrc = 0xdeadbeef, payload = [1, 2, 3]\<rparr>"
  by (rule rtp_roundtrip [THEN conjunct1]) simp

text \<open>The payload of every accepted datagram is a slice of it that begins after the
  12-octet fixed header: no octet of the header, the extension or the padding leaks into it,
  and no index outside the datagram is read.\<close>

theorem rtp_payload_is_slice:
  assumes "rtp_from_bytes data = Inr p"
  shows "12 \<le> length data \<and> (\<exists>pre post. data = pre @ payload p @ post \<and> 12 \<le> length pre)
    \<and> unat (payload_type p) < 128"
proof -
  obtain n m where nm: "12 \<le> n" "n \<le> m" "m \<le> length data" "payload p = drop n (take m data)"
    using rtp_from_bytes_slice [OF assms] by metis
  have "data = take n data @ drop n (take m data) @ drop m data"
    using nm by (metis append.assoc append_take_drop_id min.absorb1 take_take)
  moreover have "unat (payload_type p) < 128"
  proof -
    have "payload_type p = data ! 1 AND 0x7f"
      using assms by (auto simp: rtp_from_bytes_def split: if_splits)
    also have "\<dots> \<le> 0x7f" by (rule word_and_le1)
    finally show ?thesis by (simp add: word_le_nat_alt)
  qed
  ultimately show ?thesis
    using nm by (intro conjI exI [of _ "take n data"] exI [of _ "drop m data"]) auto
qed

theorem rtp_payload_is_slice_witness:
  "\<exists>p. rtp_from_bytes ([0x90, 0, 0, 1, 0, 0, 0, 2, 0, 0, 0, 3] @ [0xbe, 0xde, 0, 1, 9, 9, 9, 9] @ [7, 8]) = Inr p
    \<and> payload p = [7, 8] \<and> unat (payload_type p) < 128"
proof -
  let ?d = "[0x90, 0, 0, 1, 0, 0, 0, 2, 0, 0, 0, 3] @ [0xbe, 0xde, 0, 1, 9, 9, 9, 9] @ [7, 8] :: octet list"
  obtain p where p: "rtp_from_bytes ?d = Inr p" "payload p = [7, 8]"
    by (simp add: rtp_from_bytes_def rtp_payload_offset_def rtp_payload_end_def be16_at_def u16_from_be_def)
  from rtp_payload_is_slice [OF p(1)] p show ?thesis by blast
qed

end
