(* ===== verification/Rust_Btree.thy ===== *)
theory Rust_Btree
  imports Prelude
begin

text \<open>
  Rust's \<^verbatim>\<open>BTreeMap\<close> as the components see it: a finite map whose keys come in
  increasing order. The interface is the locale \<open>ordered_map\<close>; it is implemented
  by an association list with strictly increasing keys.
\<close>

section \<open>Definitions\<close>

type_synonym ('k, 'v) btree = "('k \<times> 'v) list"

fun bt_insert :: "'k::linorder \<Rightarrow> 'v \<Rightarrow> ('k, 'v) btree \<Rightarrow> ('k, 'v) btree" where
  "bt_insert k v [] = [(k, v)]"
| "bt_insert k v ((k', v') # m) =
     (if k < k' then (k, v) # (k', v') # m
      else if k = k' then (k, v) # m
      else (k', v') # bt_insert k v m)"

fun bt_remove :: "'k::linorder \<Rightarrow> ('k, 'v) btree \<Rightarrow> ('k, 'v) btree" where
  "bt_remove k [] = []"
| "bt_remove k ((k', v') # m) = (if k = k' then m else (k', v') # bt_remove k m)"

definition bt_get :: "('k::linorder, 'v) btree \<Rightarrow> 'k \<Rightarrow> 'v option" where
  "bt_get m k = map_of m k"

definition bt_first :: "('k::linorder, 'v) btree \<Rightarrow> 'k option" where
  "bt_first m = (case m of [] \<Rightarrow> None | (k, v) # _ \<Rightarrow> Some k)"

definition bt_invar :: "('k::linorder, 'v) btree \<Rightarrow> bool" where
  "bt_invar m \<longleftrightarrow> sorted_wrt (<) (map fst m)"

section \<open>The interface of an ordered map\<close>

locale ordered_map =
  fixes empty :: "'m"
    and upd :: "'k::linorder \<Rightarrow> 'v \<Rightarrow> 'm \<Rightarrow> 'm"
    and del :: "'k \<Rightarrow> 'm \<Rightarrow> 'm"
    and get :: "'m \<Rightarrow> 'k \<Rightarrow> 'v option"
    and first :: "'m \<Rightarrow> 'k option"
    and card_of :: "'m \<Rightarrow> nat"
    and invar :: "'m \<Rightarrow> bool"
  assumes get_empty: "get empty = Map.empty"
    and get_upd: "invar m \<Longrightarrow> get (upd k v m) = (get m)(k \<mapsto> v)"
    and get_del: "invar m \<Longrightarrow> get (del k m) = (get m)(k := None)"
    and first_None: "invar m \<Longrightarrow> first m = None \<longleftrightarrow> get m = Map.empty"
    and first_Some: "invar m \<Longrightarrow> first m = Some k \<Longrightarrow> k \<in> dom (get m) \<and> (\<forall>k' \<in> dom (get m). k \<le> k')"
    and card_upd: "invar m \<Longrightarrow> get m k = None \<Longrightarrow> card_of (upd k v m) = Suc (card_of m)"
    and card_del: "invar m \<Longrightarrow> get m k \<noteq> None \<Longrightarrow> Suc (card_of (del k m)) = card_of m"
    and invar_empty: "invar empty"
    and invar_upd: "invar m \<Longrightarrow> invar (upd k v m)"
    and invar_del: "invar m \<Longrightarrow> invar (del k m)"
begin

lemma first_get: "invar m \<Longrightarrow> first m = Some k \<Longrightarrow> \<exists>v. get m k = Some v"
  using first_Some by blast

lemma first_least: "invar m \<Longrightarrow> first m = Some k \<Longrightarrow> get m k' = Some v \<Longrightarrow> k \<le> k'"
  using first_Some by blast

lemma first_exists: "invar m \<Longrightarrow> get m k = Some v \<Longrightarrow> \<exists>k'. first m = Some k' \<and> k' \<le> k"
  using first_None [of m] first_least [of m] by (cases "first m") auto

lemma del_first_above:
  assumes "invar m" "first m = Some k" "get (del k m) k' = Some v"
  shows "k < k'"
  using assms first_least [of m k k' v] get_del [of m k] by (auto split: if_splits)

end

section \<open>The association list implements it\<close>

lemma bt_insert_keys: "set (map fst (bt_insert k v m)) = insert k (set (map fst m))"
  by (induction k v m rule: bt_insert.induct) (simp_all add: insert_commute)

lemma bt_remove_keys: "bt_invar m \<Longrightarrow> set (map fst (bt_remove k m)) = set (map fst m) - {k}"
proof (induction k m rule: bt_remove.induct)
  case (2 k k' v' m)
  then have "k' \<notin> set (map fst m)" and "bt_invar m"
    by (auto simp: bt_invar_def)
  with "2.IH" show ?case by (cases "k = k'") auto
qed simp

lemma bt_insert_invar: "bt_invar m \<Longrightarrow> bt_invar (bt_insert k v m)"
  unfolding bt_invar_def
proof (induction m)
  case Nil
  show ?case by simp
next
  case (Cons a m)
  obtain k' v' where a: "a = (k', v')" by fastforce
  from Cons have IH: "sorted_wrt (<) (map fst (bt_insert k v m))"
    and gt: "\<forall>x \<in> set (map fst m). k' < x"
    by (auto simp: a)
  show ?case
  proof (cases "k' < k")
    case True
    then have "\<forall>x \<in> set (map fst (bt_insert k v m)). k' < x"
      using gt unfolding bt_insert_keys by auto
    with True IH show ?thesis by (auto simp: a)
  next
    case False
    with Cons.prems show ?thesis by (auto simp: a)
  qed
qed

lemma bt_remove_invar: "bt_invar m \<Longrightarrow> bt_invar (bt_remove k m)"
proof (induction m)
  case Nil
  show ?case by (simp add: bt_invar_def)
next
  case (Cons a m)
  obtain k' v' where a: "a = (k', v')" by fastforce
  from Cons.prems have m: "bt_invar m" and gt: "\<forall>x \<in> set (map fst m). k' < x"
    by (auto simp: a bt_invar_def)
  have "bt_invar (bt_remove k m)" using m by (rule Cons.IH)
  moreover have "\<forall>x \<in> set (map fst (bt_remove k m)). k' < x"
    using gt unfolding bt_remove_keys [OF m] by auto
  ultimately show ?case using m by (auto simp: a bt_invar_def)
qed

lemma bt_get_insert: "bt_get (bt_insert k v m) = (bt_get m)(k \<mapsto> v)"
  by (induction m) (auto simp: bt_get_def fun_eq_iff)

lemma bt_get_remove: "bt_invar m \<Longrightarrow> bt_get (bt_remove k m) = (bt_get m)(k := None)"
proof (induction m)
  case Nil
  show ?case by (simp add: bt_get_def)
next
  case (Cons a m)
  obtain k' v' where a: "a = (k', v')" by fastforce
  from Cons.prems have m: "bt_invar m" and k': "k' \<notin> set (map fst m)"
    by (auto simp: a bt_invar_def)
  have "map_of m k' = None" using k' by (simp add: map_of_eq_None_iff)
  with Cons.IH [OF m] show ?case
    by (auto simp: a bt_get_def fun_eq_iff)
qed

lemma bt_get_dom: "dom (bt_get m) = set (map fst m)"
  by (auto simp: bt_get_def dom_def dest: map_of_SomeD intro: rev_image_eqI)
    (metis option.collapse weak_map_of_SomeI)

lemma bt_insert_length: "bt_get m k = None \<Longrightarrow> length (bt_insert k v m) = Suc (length m)"
  by (induction m) (auto simp: bt_get_def split: if_splits)

lemma bt_remove_length: "bt_get m k \<noteq> None \<Longrightarrow> Suc (length (bt_remove k m)) = length m"
  by (induction m) (auto simp: bt_get_def split: if_splits)

interpretation bt: ordered_map "[]" bt_insert bt_remove bt_get bt_first length bt_invar
proof
  show "bt_get [] = Map.empty" by (simp add: bt_get_def fun_eq_iff)
  fix m :: "('k::linorder, 'v) btree" and k v
  assume m: "bt_invar m"
  show "bt_get (bt_insert k v m) = (bt_get m)(k \<mapsto> v)" by (rule bt_get_insert)
  show "bt_get (bt_remove k m) = (bt_get m)(k := None)" using m by (rule bt_get_remove)
  show "bt_first m = None \<longleftrightarrow> bt_get m = Map.empty"
    by (auto simp: bt_first_def bt_get_def fun_eq_iff split: list.splits)
  show "bt_first m = Some k \<Longrightarrow> k \<in> dom (bt_get m) \<and> (\<forall>k' \<in> dom (bt_get m). k \<le> k')"
    using m unfolding bt_get_dom
    by (cases m) (auto simp: bt_first_def bt_invar_def intro: less_imp_le)
  show "bt_get m k = None \<Longrightarrow> length (bt_insert k v m) = Suc (length m)" by (rule bt_insert_length)
  show "bt_get m k \<noteq> None \<Longrightarrow> Suc (length (bt_remove k m)) = length m" by (rule bt_remove_length)
  show "bt_invar (bt_insert k v m)" using m by (rule bt_insert_invar)
  show "bt_invar (bt_remove k m)" using m by (rule bt_remove_invar)
next
  show "bt_invar []" by (simp add: bt_invar_def)
qed

end
