(* ===== verification/Rtp_Jitter.thy ===== *)
theory Rtp_Jitter
  imports Complex_Main Rtp_Packet Rust_Btree
begin

text \<open>
  The jitter buffer of \<^verbatim>\<open>src/src/rtp/jitter.rs\<close>: packets are stored under a
  sequence number extended across 16-bit wrap-arounds and played in that order.
  Times are nanoseconds of the monotonic clock; the jitter estimate, a floating
  point number in the code, is a rational here, so its rounding is not modelled.
  The facts: the extension follows the true sequence number as long as jumps
  stay inside the reorder window, every accepted packet is played exactly once
  and in increasing order, and the counters account for every packet.
\<close>

section \<open>Definitions\<close>

definition DEFAULT_DEPTH :: nat where
  "DEFAULT_DEPTH = 4"

definition SEQ_REORDER_WINDOW :: int where
  "SEQ_REORDER_WINDOW = 3000"

record jitter_stats =
  js_received :: nat
  js_lost :: int
  js_duplicates :: nat
  js_late_drops :: nat
  js_jitter :: rat
  js_max_seq_ext :: int
  js_base_seq_ext :: "int option"

definition stats_cumulative_lost :: "jitter_stats \<Rightarrow> int" where
  "stats_cumulative_lost s =
     (case js_base_seq_ext s of
        None \<Rightarrow> 0
      | Some base \<Rightarrow> js_max_seq_ext s - base + 1 - int (js_received s))"

definition stats_fraction_lost :: "jitter_stats \<Rightarrow> int \<Rightarrow> nat \<Rightarrow> nat" where
  "stats_fraction_lost s last_expected last_received =
     (case js_base_seq_ext s of
        None \<Rightarrow> 0
      | Some base \<Rightarrow>
          (let expected = js_max_seq_ext s - base + 1;
               expected_interval = nat (max (expected - last_expected) 0);
               received_interval = js_received s - last_received;
               lost_interval = expected_interval - received_interval
           in if expected_interval = 0 then 0
              else min (lost_interval * 256 div expected_interval) 255))"

record jitter_buffer =
  jb_depth :: nat
  jb_queue :: "(int, rtp_packet) btree"
  jb_next :: "int option"
  jb_last_arrival :: "(32 word \<times> nat) option"
  jb_last_seq :: "16 word option"
  jb_cycles :: int
  jb_stats :: jitter_stats

definition jb_new :: "nat \<Rightarrow> jitter_buffer" where
  "jb_new depth =
     \<lparr>jb_depth = max depth 1, jb_queue = [], jb_next = None, jb_last_arrival = None,
      jb_last_seq = None, jb_cycles = 0,
      jb_stats = \<lparr>js_received = 0, js_lost = 0, js_duplicates = 0, js_late_drops = 0,
                  js_jitter = 0, js_max_seq_ext = 0, js_base_seq_ext = None\<rparr>\<rparr>"

text \<open>\<^verbatim>\<open>extend_seq\<close>: the extended number of a packet and the updated wrap state.\<close>

definition extend_seq :: "jitter_buffer \<Rightarrow> 16 word \<Rightarrow> int \<times> jitter_buffer" where
  "extend_seq jb sq =
     (case jb_last_seq jb of
        None \<Rightarrow> (uint sq, jb\<lparr>jb_last_seq := Some sq, jb_cycles := 0\<rparr>)
      | Some prev \<Rightarrow>
          (let diff = uint sq - uint prev
           in if diff < - SEQ_REORDER_WINDOW then
                (let c = jb_cycles jb + 65536
                 in (c + uint sq, jb\<lparr>jb_cycles := c, jb_last_seq := Some sq\<rparr>))
              else if diff > SEQ_REORDER_WINDOW then (jb_cycles jb - 65536 + uint sq, jb)
              else if diff > 0 then (jb_cycles jb + uint sq, jb\<lparr>jb_last_seq := Some sq\<rparr>)
              else (jb_cycles jb + uint sq, jb)))"

text \<open>The range of extended numbers seen so far.\<close>

definition note_range :: "int \<Rightarrow> jitter_stats \<Rightarrow> jitter_stats" where
  "note_range ext s =
     (case js_base_seq_ext s of
        None \<Rightarrow> s\<lparr>js_base_seq_ext := Some ext, js_max_seq_ext := ext\<rparr>
      | Some _ \<Rightarrow> if ext > js_max_seq_ext s then s\<lparr>js_max_seq_ext := ext\<rparr> else s)"

text \<open>The interarrival jitter (RFC 3550, appendix A.8) at 8000 ticks per second.\<close>

definition note_jitter :: "rtp_packet \<Rightarrow> nat \<Rightarrow> jitter_buffer \<Rightarrow> jitter_buffer" where
  "note_jitter pkt now jb =
     (case jb_last_arrival jb of
        None \<Rightarrow> jb\<lparr>jb_last_arrival := Some (timestamp pkt, now)\<rparr>
      | Some (prev_ts, prev_arrival) \<Rightarrow>
          (let arrival_ticks = of_nat (now - prev_arrival) * 8000 / 1000000000;
               ts_delta = of_int (sint (timestamp pkt - prev_ts));
               d = \<bar>arrival_ticks - ts_delta\<bar>;
               s = jb_stats jb
           in jb\<lparr>jb_stats := s\<lparr>js_jitter := js_jitter s + (d - js_jitter s) / 16\<rparr>,
                 jb_last_arrival := Some (timestamp pkt, now)\<rparr>))"

definition jb_push :: "jitter_buffer \<Rightarrow> rtp_packet \<Rightarrow> nat \<Rightarrow> jitter_buffer" where
  "jb_push jb0 pkt now =
     (let (ext, jb1) = extend_seq jb0 (sequence pkt);
          jb2 = jb1\<lparr>jb_stats := note_range ext (jb_stats jb1)\<rparr>;
          jb = note_jitter pkt now jb2;
          s = jb_stats jb
      in if (case jb_next jb of None \<Rightarrow> False | Some n \<Rightarrow> ext < n) then
           jb\<lparr>jb_stats := s\<lparr>js_late_drops := js_late_drops s + 1\<rparr>\<rparr>
         else if bt_get (jb_queue jb) ext \<noteq> None then
           jb\<lparr>jb_stats := s\<lparr>js_duplicates := js_duplicates s + 1\<rparr>\<rparr>
         else jb\<lparr>jb_stats := s\<lparr>js_received := js_received s + 1\<rparr>,
                 jb_queue := bt_insert ext pkt (jb_queue jb)\<rparr>)"

text \<open>
  \<^verbatim>\<open>pull\<close> once the first expected number is known: the expected packet if it is
  there; otherwise, only when the buffer has filled up, the oldest packet, and
  the gap counts as lost.
\<close>

definition jb_pull_from :: "jitter_buffer \<Rightarrow> int \<Rightarrow> rtp_packet option \<times> jitter_buffer" where
  "jb_pull_from jb n =
     (case bt_get (jb_queue jb) n of
        Some pkt \<Rightarrow> (Some pkt, jb\<lparr>jb_queue := bt_remove n (jb_queue jb), jb_next := Some (n + 1)\<rparr>)
      | None \<Rightarrow>
          if length (jb_queue jb) < jb_depth jb \<and> length (jb_queue jb) < jb_depth jb * 2
          then (None, jb)
          else (case bt_first (jb_queue jb) of
                  None \<Rightarrow> (None, jb)
                | Some f \<Rightarrow>
                    (let s = jb_stats jb;
                         jb' = (if f - n > 0 then jb\<lparr>jb_stats := s\<lparr>js_lost := js_lost s + (f - n)\<rparr>\<rparr> else jb)
                     in case bt_get (jb_queue jb) f of
                          None \<Rightarrow> (None, jb')
                        | Some pkt \<Rightarrow>
                            (Some pkt, jb'\<lparr>jb_queue := bt_remove f (jb_queue jb), jb_next := Some (f + 1)\<rparr>))))"

definition jb_pull :: "jitter_buffer \<Rightarrow> rtp_packet option \<times> jitter_buffer" where
  "jb_pull jb =
     (case jb_next jb of
        Some n \<Rightarrow> jb_pull_from jb n
      | None \<Rightarrow>
          if length (jb_queue jb) < jb_depth jb then (None, jb)
          else (case bt_first (jb_queue jb) of
                  None \<Rightarrow> (None, jb)
                | Some f \<Rightarrow> jb_pull_from (jb\<lparr>jb_next := Some f\<rparr>) f))"

text \<open>\<^verbatim>\<open>drain\<close> takes the packets out in order and counts the gaps between them.\<close>

fun drain_loop :: "(int, rtp_packet) btree \<Rightarrow> int \<Rightarrow> int \<Rightarrow> rtp_packet list \<times> int \<times> int" where
  "drain_loop [] n lost = ([], n, lost)"
| "drain_loop ((sq, pkt) # q) n lost =
     (let lost' = (if sq > n then lost + (sq - n) else lost);
          (out, n', lost'') = drain_loop q (sq + 1) lost'
      in (pkt # out, n', lost''))"

definition jb_drain :: "jitter_buffer \<Rightarrow> rtp_packet list \<times> jitter_buffer" where
  "jb_drain jb =
     (let n = (case jb_next jb of
                 Some n \<Rightarrow> n
               | None \<Rightarrow> (case bt_first (jb_queue jb) of Some f \<Rightarrow> f | None \<Rightarrow> 0));
          (out, n', lost) = drain_loop (jb_queue jb) n (js_lost (jb_stats jb))
      in (out, jb\<lparr>jb_queue := [], jb_next := Some n', jb_stats := (jb_stats jb)\<lparr>js_lost := lost\<rparr>\<rparr>))"

section \<open>Sessions\<close>

text \<open>
  A session is a sequence of operations on one buffer. The log records what was
  played, with the extended number of each packet: \<^verbatim>\<open>pull\<close> leaves the number after
  the one it played in \<^const>\<open>jb_next\<close>.
\<close>

datatype jb_event = Push rtp_packet nat | Pull | Drain

type_synonym jb_session = "jitter_buffer \<times> (int \<times> rtp_packet) list"

fun jb_step :: "jb_session \<Rightarrow> jb_event \<Rightarrow> jb_session" where
  "jb_step (jb, played) (Push pkt now) = (jb_push jb pkt now, played)"
| "jb_step (jb, played) Pull =
     (case jb_pull jb of
        (None, jb') \<Rightarrow> (jb', played)
      | (Some pkt, jb') \<Rightarrow> (jb', played @ [(the (jb_next jb') - 1, pkt)]))"
| "jb_step (jb, played) Drain =
     (case jb_drain jb of (out, jb') \<Rightarrow> (jb', played @ zip (map fst (jb_queue jb)) out))"

fun is_push :: "jb_event \<Rightarrow> bool" where
  "is_push (Push _ _) = True"
| "is_push _ = False"

section \<open>Extension of sequence numbers\<close>

text \<open>
  The wrap state agrees with the highest true sequence number \<open>h\<close>: the last raw
  number is \<open>h\<close> modulo \<open>2 ^ 16\<close> and the cycle counter is the rest.
\<close>

definition tracks :: "jitter_buffer \<Rightarrow> int \<Rightarrow> bool" where
  "tracks jb h \<longleftrightarrow> (\<exists>prev. jb_last_seq jb = Some prev \<and> uint prev = h mod 65536) \<and> jb_cycles jb = h - h mod 65536"

lemma mod_65536_split:
  fixes h t :: int
  obtains k where "t mod 65536 = h mod 65536 + (t - h) + 65536 * k"
proof
  show "t mod 65536 = h mod 65536 + (t - h) + 65536 * (h div 65536 - t div 65536)"
    using div_mult_mod_eq [of h 65536] div_mult_mod_eq [of t 65536] by (simp add: algebra_simps)
qed

lemma mod_65536_cases:
  fixes h t :: int
  assumes "h - 3000 \<le> t" "t \<le> h + 3000"
  obtains "t mod 65536 = h mod 65536 + (t - h)"
  | "t - h > 0" "t mod 65536 = h mod 65536 + (t - h) - 65536"
  | "t - h < 0" "t mod 65536 = h mod 65536 + (t - h) + 65536"
proof -
  obtain k where k: "t mod 65536 = h mod 65536 + (t - h) + 65536 * k" by (rule mod_65536_split)
  have b: "0 \<le> h mod 65536" "h mod 65536 < 65536" "0 \<le> t mod 65536" "t mod 65536 < 65536"
    by simp_all
  have "k = 0 \<or> k = - 1 \<or> k = 1" using k b assms by linarith
  then show thesis
  proof (elim disjE)
    assume "k = 0"
    with k that(1) show thesis by simp
  next
    assume "k = - 1"
    with k b that(2) show thesis by linarith
  next
    assume "k = 1"
    with k b that(3) show thesis by linarith
  qed
qed

lemma extend_seq_tracks_step:
  assumes tr: "tracks jb h" and t: "h - 3000 \<le> t" "t \<le> h + 3000" and sq: "uint sq = t mod 65536"
  shows "fst (extend_seq jb sq) = t \<and> tracks (snd (extend_seq jb sq)) (max h t)"
proof -
  from tr obtain prev where l: "jb_last_seq jb = Some prev" "uint prev = h mod 65536"
    and c: "jb_cycles jb = h - h mod 65536"
    by (auto simp: tracks_def)
  show ?thesis
    using t
  proof (cases rule: mod_65536_cases)
    case 1
    then show ?thesis
      using l c sq t by (auto simp: extend_seq_def tracks_def SEQ_REORDER_WINDOW_def Let_def max_def)
  next
    case 2
    then show ?thesis
      using l c sq t by (auto simp: extend_seq_def tracks_def SEQ_REORDER_WINDOW_def Let_def max_def)
  next
    case 3
    then show ?thesis
      using l c sq t by (auto simp: extend_seq_def tracks_def SEQ_REORDER_WINDOW_def Let_def max_def)
  qed
qed

section \<open>Playback\<close>

text \<open>
  What every session keeps: the queue is sorted, holds nothing that was passed
  over, and every number in the queue and in the log is congruent to the
  16-bit number its packet carries; the log increases and lies below the next
  expected number; the counters add up.
\<close>

definition seq_of :: "int \<times> rtp_packet \<Rightarrow> bool" where
  "seq_of e \<longleftrightarrow> fst e mod 65536 = uint (sequence (snd e))"

definition jb_inv :: "jb_session \<Rightarrow> bool" where
  "jb_inv st \<longleftrightarrow>
     (let (jb, played) = st
      in bt_invar (jb_queue jb) \<and> 1 \<le> jb_depth jb \<and> jb_cycles jb mod 65536 = 0
         \<and> list_all seq_of (jb_queue jb) \<and> list_all seq_of played
         \<and> sorted_wrt (<) (map fst played)
         \<and> (case jb_next jb of
              None \<Rightarrow> played = []
            | Some n \<Rightarrow> (\<forall>e \<in> set played. fst e < n) \<and> (\<forall>e \<in> set (jb_queue jb). n \<le> fst e))
         \<and> js_received (jb_stats jb) = length played + length (jb_queue jb))"

lemma extend_seq_frame:
  "jb_queue (snd (extend_seq jb sq)) = jb_queue jb \<and> jb_next (snd (extend_seq jb sq)) = jb_next jb
   \<and> jb_stats (snd (extend_seq jb sq)) = jb_stats jb \<and> jb_depth (snd (extend_seq jb sq)) = jb_depth jb"
  by (auto simp: extend_seq_def Let_def split: option.splits)

lemma extend_seq_cong:
  assumes "jb_cycles jb mod 65536 = 0"
  shows "fst (extend_seq jb sq) mod 65536 = uint sq" "jb_cycles (snd (extend_seq jb sq)) mod 65536 = 0"
proof -
  obtain k where k: "jb_cycles jb = 65536 * k" using assms by (auto simp: mod_eq_0_iff_dvd)
  have u: "uint sq mod 65536 = uint sq"
    using uint_bounded [of sq] by (simp add: mod_pos_pos_trivial)
  have a: "(65536 * m + uint sq) mod 65536 = uint sq" for m :: int
    using u by simp
  have p: "(65536 * k + 65536 + uint sq) mod 65536 = uint sq" using a [of "k + 1"] by (simp only: distrib_left mult_1_right)
  have m: "(65536 * k - 65536 + uint sq) mod 65536 = uint sq" using a [of "k - 1"] by (simp only: right_diff_distrib mult_1_right)
  have z: "(65536 * k + 65536) mod 65536 = 0" by simp
  show "fst (extend_seq jb sq) mod 65536 = uint sq" "jb_cycles (snd (extend_seq jb sq)) mod 65536 = 0"
    using k a [of k] p m z u by (auto simp: extend_seq_def Let_def split: option.splits)
qed

lemma note_jitter_frame:
  "jb_queue (note_jitter pkt now jb) = jb_queue jb \<and> jb_next (note_jitter pkt now jb) = jb_next jb
   \<and> jb_cycles (note_jitter pkt now jb) = jb_cycles jb \<and> jb_depth (note_jitter pkt now jb) = jb_depth jb
   \<and> js_received (jb_stats (note_jitter pkt now jb)) = js_received (jb_stats jb)
   \<and> js_duplicates (jb_stats (note_jitter pkt now jb)) = js_duplicates (jb_stats jb)
   \<and> js_late_drops (jb_stats (note_jitter pkt now jb)) = js_late_drops (jb_stats jb)"
  by (auto simp: note_jitter_def Let_def split: option.splits)

lemma note_range_frame:
  "js_received (note_range e s) = js_received s \<and> js_duplicates (note_range e s) = js_duplicates s
   \<and> js_late_drops (note_range e s) = js_late_drops s"
  by (auto simp: note_range_def split: option.splits)

lemmas jb_frames = extend_seq_frame note_jitter_frame note_range_frame

lemma bt_insert_set: "bt_get m k = None \<Longrightarrow> set (bt_insert k v m) = insert (k, v) (set m)"
  by (induction m) (auto simp: bt_get_def split: if_splits)

lemma bt_remove_set: "bt_invar m \<Longrightarrow> set (bt_remove k m) = {e \<in> set m. fst e \<noteq> k}"
  by (induction m) (auto simp: bt_invar_def split: if_splits, fastforce)

lemma bt_get_set: "bt_get m k = Some v \<Longrightarrow> (k, v) \<in> set m"
  by (auto simp: bt_get_def dest: map_of_SomeD)

lemma jb_inv_push:
  assumes "jb_inv (jb, played)"
  shows "jb_inv (jb_push jb pkt now, played)"
proof -
  obtain ext jb1 where e: "extend_seq jb (sequence pkt) = (ext, jb1)" by fastforce
  have c: "jb_cycles jb mod 65536 = 0" using assms by (simp add: jb_inv_def)
  have x: "ext mod 65536 = uint (sequence pkt)" "jb_cycles jb1 mod 65536 = 0"
    using extend_seq_cong [OF c, of "sequence pkt"] e by simp_all
  have f: "jb_queue jb1 = jb_queue jb" "jb_next jb1 = jb_next jb" "jb_stats jb1 = jb_stats jb" "jb_depth jb1 = jb_depth jb"
    using extend_seq_frame [of jb "sequence pkt"] e by simp_all
  show ?thesis
    using assms x f
    by (auto simp: jb_inv_def jb_push_def e Let_def note_jitter_frame note_range_frame
        bt.invar_upd bt_insert_set bt_insert_length seq_of_def list_all_iff split: option.splits)
qed

lemma jb_inv_pull_from:
  assumes inv: "jb_inv (jb, played)" and nx: "jb_next jb = Some n"
    and pl: "jb_pull_from jb n = (Some pkt, jb')"
  shows "jb_inv (jb', played @ [(the (jb_next jb') - 1, pkt)])"
proof -
  have i: "bt_invar (jb_queue jb)" and ge: "\<forall>e \<in> set (jb_queue jb). n \<le> fst e"
    and lt: "\<forall>e \<in> set played. fst e < n"
    using inv nx by (auto simp: jb_inv_def)
  have key: "\<exists>k. bt_get (jb_queue jb) k = Some pkt \<and> jb_queue jb' = bt_remove k (jb_queue jb)
      \<and> jb_next jb' = Some (k + 1) \<and> jb_cycles jb' = jb_cycles jb \<and> jb_depth jb' = jb_depth jb
      \<and> js_received (jb_stats jb') = js_received (jb_stats jb)
      \<and> (\<forall>e \<in> set (jb_queue jb). k \<le> fst e)"
  proof (cases "bt_get (jb_queue jb) n")
    case (Some p)
    then show ?thesis using pl ge by (auto simp: jb_pull_from_def)
  next
    case None
    then obtain f where f: "bt_first (jb_queue jb) = Some f" "bt_get (jb_queue jb) f = Some pkt"
      "jb_queue jb' = bt_remove f (jb_queue jb)" "jb_next jb' = Some (f + 1)"
      "jb_cycles jb' = jb_cycles jb" "jb_depth jb' = jb_depth jb" "js_received (jb_stats jb') = js_received (jb_stats jb)"
      using pl by (auto simp: jb_pull_from_def Let_def split: option.splits if_splits)
    have "\<forall>e \<in> set (jb_queue jb). f \<le> fst e"
      using bt.first_Some [OF i f(1)] by (auto simp: bt_get_dom)
    with f show ?thesis by blast
  qed
  then obtain k where k: "bt_get (jb_queue jb) k = Some pkt" "jb_queue jb' = bt_remove k (jb_queue jb)"
      "jb_next jb' = Some (k + 1)" "jb_cycles jb' = jb_cycles jb" "jb_depth jb' = jb_depth jb"
      "js_received (jb_stats jb') = js_received (jb_stats jb)" "\<forall>e \<in> set (jb_queue jb). k \<le> fst e"
    by blast
  have m: "(k, pkt) \<in> set (jb_queue jb)" using k(1) by (rule bt_get_set)
  have len: "length (jb_queue jb) = Suc (length (jb_queue jb'))"
    using bt_remove_length [of "jb_queue jb" k] k(1,2) by simp
  have lt': "\<forall>e \<in> set played. fst e < k" using lt ge m by fastforce
  have ge': "\<forall>e \<in> set (jb_queue jb'). k + 1 \<le> fst e"
    using k(2,7) by (auto simp: bt_remove_set [OF i])
  have qs: "list_all seq_of (jb_queue jb')" "list_all seq_of (played @ [(k, pkt)])"
    using inv m k(2) by (auto simp: jb_inv_def list_all_iff bt_remove_set [OF i])
  have srt: "sorted_wrt (<) (map fst (played @ [(k, pkt)]))"
    using inv lt' by (auto simp: jb_inv_def sorted_wrt_append)
  have "\<forall>e \<in> set (played @ [(k, pkt)]). fst e < k + 1" using lt' by auto
  then show ?thesis
    using inv k qs srt len ge' by (simp add: jb_inv_def bt.invar_del [OF i])
qed

lemma jb_pull_from_None: "jb_pull_from jb n = (None, jb') \<Longrightarrow> jb_inv (jb, played) \<Longrightarrow> jb' = jb"
  by (auto simp: jb_pull_from_def jb_inv_def Let_def split: option.splits if_splits
      dest: bt.first_get)

lemma jb_inv_start:
  assumes "jb_inv (jb, played)" "jb_next jb = None" "bt_first (jb_queue jb) = Some f"
  shows "jb_inv (jb\<lparr>jb_next := Some f\<rparr>, played)"
proof -
  have i: "bt_invar (jb_queue jb)" using assms by (simp add: jb_inv_def)
  have "\<forall>e \<in> set (jb_queue jb). f \<le> fst e"
    using bt.first_Some [OF i assms(3)] by (auto simp: bt_get_dom)
  with assms show ?thesis by (auto simp: jb_inv_def)
qed

lemma jb_inv_pull:
  assumes "jb_inv (jb, played)"
  shows "jb_inv (jb_step (jb, played) Pull)"
proof (cases "jb_next jb")
  case (Some n)
  then show ?thesis
    using assms jb_inv_pull_from [OF assms Some] jb_pull_from_None [of jb n _ played]
    by (cases "jb_pull_from jb n"; cases "fst (jb_pull_from jb n)") (auto simp: jb_pull_def)
next
  case None
  show ?thesis
  proof (cases "length (jb_queue jb) < jb_depth jb \<or> bt_first (jb_queue jb) = None")
    case True
    then show ?thesis using None assms by (auto simp: jb_pull_def split: option.splits)
  next
    case False
    then obtain f where f: "bt_first (jb_queue jb) = Some f" "\<not> length (jb_queue jb) < jb_depth jb" by auto
    let ?jb = "jb\<lparr>jb_next := Some f\<rparr>"
    have i: "jb_inv (?jb, played)" using assms None f(1) by (rule jb_inv_start)
    have n: "jb_next ?jb = Some f" by simp
    show ?thesis
      using None f i jb_inv_pull_from [OF i n] jb_pull_from_None [of ?jb f _ played]
      by (cases "jb_pull_from ?jb f"; cases "fst (jb_pull_from ?jb f)") (auto simp: jb_pull_def)
  qed
qed

lemma drain_loop_out: "fst (drain_loop q n lost) = map snd q"
  by (induction q n lost rule: drain_loop.induct) (auto simp: Let_def split: prod.splits)

lemma drain_loop_next:
  "bt_invar q \<Longrightarrow> \<forall>e \<in> set q. n \<le> fst e \<Longrightarrow>
   n \<le> fst (snd (drain_loop q n lost)) \<and> (\<forall>e \<in> set q. fst e < fst (snd (drain_loop q n lost)))"
proof (induction q n lost rule: drain_loop.induct)
  case (2 sq pkt q n lost)
  have "bt_invar q" "\<forall>e \<in> set q. sq + 1 \<le> fst e" using "2.prems" by (auto simp: bt_invar_def)
  from "2.IH" [OF refl this] "2.prems" show ?case by (auto simp: Let_def split: prod.splits)
qed simp

lemma jb_inv_drain:
  assumes "jb_inv (jb, played)"
  shows "jb_inv (jb_step (jb, played) Drain)"
proof -
  let ?q = "jb_queue jb"
  define n where "n = (case jb_next jb of Some n \<Rightarrow> n
      | None \<Rightarrow> (case bt_first ?q of Some f \<Rightarrow> f | None \<Rightarrow> 0))"
  obtain out n' lost where d: "drain_loop ?q n (js_lost (jb_stats jb)) = (out, n', lost)"
    using prod_cases3 by blast
  have i: "bt_invar ?q" using assms by (simp add: jb_inv_def)
  have ge: "\<forall>e \<in> set ?q. n \<le> fst e"
    using assms bt.first_Some [OF i] bt.first_None [OF i]
    by (auto simp: n_def jb_inv_def bt_get_dom split: option.splits)
      (force simp: bt_first_def split: list.splits)+
  have lt: "\<forall>e \<in> set played. fst e < n"
    using assms by (auto simp: n_def jb_inv_def split: option.splits)
  have out: "out = map snd ?q" using drain_loop_out [of ?q n] d by (metis fst_conv)
  have n': "n \<le> n'" "\<forall>e \<in> set ?q. fst e < n'"
    using drain_loop_next [OF i ge, of "js_lost (jb_stats jb)"] d by auto
  have st: "jb_step (jb, played) Drain =
      (jb\<lparr>jb_queue := [], jb_next := Some n', jb_stats := (jb_stats jb)\<lparr>js_lost := lost\<rparr>\<rparr>, played @ ?q)"
    using d by (simp add: jb_drain_def n_def [symmetric] Let_def out zip_map_fst_snd)
  have srt: "sorted_wrt (<) (map fst (played @ ?q))"
    using assms i lt ge by (fastforce simp: jb_inv_def bt_invar_def sorted_wrt_append)
  have "\<forall>e \<in> set (played @ ?q). fst e < n'" using lt n' by auto
  with assms srt show ?thesis
    unfolding st jb_inv_def by (simp add: bt_invar_def)
qed

lemma jb_inv_step: "jb_inv st \<Longrightarrow> jb_inv (jb_step st e)"
  using jb_inv_push jb_inv_pull jb_inv_drain by (cases st; cases e) auto

lemma jb_inv_new: "jb_inv (jb_new d, [])"
  by (simp add: jb_inv_def jb_new_def bt.invar_empty)

interpretation jbm: inv_machine jb_step jb_inv
  by unfold_locales (rule jb_inv_step)

lemma jb_session_inv: "jb_inv (run_steps jb_step (jb_new d, []) evs)"
  by (rule jbm.run_inv) (rule jb_inv_new)

text \<open>Every push is counted in exactly one of three counters.\<close>

definition jb_counted :: "jb_session \<Rightarrow> nat" where
  "jb_counted st = (let s = jb_stats (fst st) in js_received s + js_duplicates s + js_late_drops s)"

lemma jb_counted_push: "jb_counted (jb_push jb pkt now, l) = Suc (jb_counted (jb, l'))"
  by (auto simp: jb_counted_def jb_push_def Let_def jb_frames split: prod.splits)
    (metis jb_frames fst_conv snd_conv)+

lemma jb_counted_pull_from: "jb_counted (snd (jb_pull_from jb n), l) = jb_counted (jb, l')"
  by (auto simp: jb_counted_def jb_pull_from_def Let_def split: option.splits)

lemma jb_counted_step: "jb_counted (jb_step st e) = jb_counted st + (if is_push e then 1 else 0)"
proof (cases e)
  case (Push pkt now)
  then show ?thesis using jb_counted_push by (cases st) auto
next
  case Pull
  have "jb_counted (snd (jb_pull jb), l) = jb_counted (jb, l')" for jb l l'
    using jb_counted_pull_from
    by (auto simp: jb_pull_def split: option.splits) (auto simp: jb_counted_def)
  then have "jb_pull jb = (p, jb') \<Longrightarrow> jb_counted (jb', l) = jb_counted (jb, l')" for jb p jb' l l'
    by (metis snd_conv)
  with Pull show ?thesis by (cases st) (simp split: prod.splits option.splits)
next
  case Drain
  then show ?thesis by (cases st) (auto simp: jb_drain_def jb_counted_def Let_def split: prod.splits)
qed

lemma jb_counted_run:
  "jb_counted (run_steps jb_step st evs) = jb_counted st + length (filter is_push evs)"
  by (induction evs arbitrary: st) (auto simp: jb_counted_step)

lemma jb_pull_from_some:
  assumes "jb_inv (jb, played)"
  shows "fst (jb_pull_from jb n) \<noteq> None \<longleftrightarrow>
    jb_depth jb \<le> length (jb_queue jb) \<or> bt_get (jb_queue jb) n \<noteq> None"
proof -
  have i: "bt_invar (jb_queue jb)" "1 \<le> jb_depth jb" using assms by (simp_all add: jb_inv_def)
  show ?thesis
  proof (cases "jb_depth jb \<le> length (jb_queue jb)")
    case True
    then have "jb_queue jb \<noteq> []" using i by auto
    then obtain f where f: "bt_first (jb_queue jb) = Some f"
      by (cases "jb_queue jb") (auto simp: bt_first_def)
    with True bt.first_get [OF i(1) f] show ?thesis
      by (auto simp: jb_pull_from_def Let_def split: option.splits)
  next
    case False
    then show ?thesis by (auto simp: jb_pull_from_def split: option.splits)
  qed
qed

lemma jb_pull_some:
  assumes "jb_inv (jb, played)"
  shows "fst (jb_pull jb) \<noteq> None \<longleftrightarrow>
    jb_depth jb \<le> length (jb_queue jb)
    \<or> (case jb_next jb of None \<Rightarrow> False | Some n \<Rightarrow> bt_get (jb_queue jb) n \<noteq> None)"
proof (cases "jb_next jb")
  case (Some n)
  then show ?thesis using jb_pull_from_some [OF assms] by (simp add: jb_pull_def)
next
  case None
  have d: "1 \<le> jb_depth jb" using assms by (simp add: jb_inv_def)
  show ?thesis
  proof (cases "bt_first (jb_queue jb)")
    case first: None
    with None d show ?thesis by (auto simp: jb_pull_def bt_first_def split: list.splits)
  next
    case (Some f)
    show ?thesis
      using None Some jb_pull_from_some [OF jb_inv_start [OF assms None Some], of f]
      by (auto simp: jb_pull_def not_less)
  qed
qed

section \<open>Streams\<close>

text \<open>The extended numbers given to a stream of raw ones.\<close>

fun extend_all :: "jitter_buffer \<Rightarrow> 16 word list \<Rightarrow> int list" where
  "extend_all jb [] = []"
| "extend_all jb (sq # sqs) = (case extend_seq jb sq of (ext, jb') \<Rightarrow> ext # extend_all jb' sqs)"

text \<open>Every number is at most one reorder window away from the highest one before it.\<close>

fun near_max :: "int \<Rightarrow> int list \<Rightarrow> bool" where
  "near_max h [] = True"
| "near_max h (t # ts) = (\<bar>t - h\<bar> \<le> SEQ_REORDER_WINDOW \<and> near_max (max h t) ts)"

lemma uint_raw_seq: "uint (word_of_int t :: 16 word) = t mod 65536"
  by (simp add: uint_word_of_int)

lemma extend_all_tracks:
  "tracks jb h \<Longrightarrow> near_max h ts \<Longrightarrow> extend_all jb (map word_of_int ts) = ts"
proof (induction ts arbitrary: jb h)
  case (Cons t ts)
  have t: "h - 3000 \<le> t" "t \<le> h + 3000" and n: "near_max (max h t) ts"
    using Cons.prems(2) by (auto simp: SEQ_REORDER_WINDOW_def)
  from extend_seq_tracks_step [OF Cons.prems(1) t uint_raw_seq] Cons.IH n
  show ?case by (auto split: prod.splits)
qed simp

section \<open>Properties\<close>

text \<open>The 16-bit sequence numbers of a stream that starts at \<open>t\<close> and whose packets
  each arrive at most 3000 positions away from the highest one so far are extended
  to the true numbers of the packets, across any number of wrap-arounds.\<close>

theorem jitter_extension_exact:
  assumes "0 \<le> t" "t < 65536" "near_max t ts"
  shows "extend_all (jb_new d) (map word_of_int (t # ts)) = t # ts"
proof -
  have u: "uint (word_of_int t :: 16 word) = t" using assms(1,2) by (simp add: uint_raw_seq)
  have "tracks (snd (extend_seq (jb_new d) (word_of_int t))) t"
    "fst (extend_seq (jb_new d) (word_of_int t)) = t"
    using assms(1,2) u by (simp_all add: extend_seq_def jb_new_def tracks_def)
  with extend_all_tracks [OF _ assms(3)] show ?thesis by (auto split: prod.splits)
qed

theorem jitter_extension_exact_witness:
  "extend_all (jb_new 4) (map word_of_int [65534, 65536, 65535, 65537, 68000]) =
     [65534, 65536, 65535, 65537, 68000]"
  using jitter_extension_exact [of 65534 "[65536, 65535, 65537, 68000]" 4]
  by (simp add: SEQ_REORDER_WINDOW_def)

text \<open>C27. In every session of pushes, pulls and drains on a new buffer, packets are
  played in strictly increasing order of extended sequence number, each under a
  number congruent to the one it carries, so none is played twice; the packets
  received are those played or still queued, and every push is counted exactly
  once as received, duplicate or late.\<close>

theorem jitter_session_correct:
  "case run_steps jb_step (jb_new d, []) evs of (jb, played) \<Rightarrow>
     sorted_wrt (<) (map fst played)
     \<and> list_all seq_of played
     \<and> js_received (jb_stats jb) = length played + length (jb_queue jb)
     \<and> length (filter is_push evs) =
         js_received (jb_stats jb) + js_duplicates (jb_stats jb) + js_late_drops (jb_stats jb)"
  using jb_session_inv [of d evs] jb_counted_run [of "(jb_new d, [])" evs]
  by (auto simp: jb_inv_def jb_counted_def jb_new_def Let_def)

text \<open>In every session, a pull gives a packet exactly when the buffer holds at least
  its depth of packets, or the next expected packet is there: the buffer is never
  stuck behind a lost packet once it has filled up.\<close>

theorem jitter_pull_progress:
  "case run_steps jb_step (jb_new d, []) evs of (jb, played) \<Rightarrow>
     fst (jb_pull jb) \<noteq> None \<longleftrightarrow>
       jb_depth jb \<le> length (jb_queue jb)
       \<or> (case jb_next jb of None \<Rightarrow> False | Some n \<Rightarrow> bt_get (jb_queue jb) n \<noteq> None)"
proof (cases "run_steps jb_step (jb_new d, []) evs")
  case (Pair jb played)
  then have "jb_inv (jb, played)" using jb_session_inv [of d evs] by simp
  from jb_pull_some [OF this] Pair show ?thesis by simp
qed

text \<open>A forward jump of more than the reorder window that does not cross a
  wrap-around is taken for a packet of the previous cycle: it gets a number
  65536 too small, the wrap state does not move, and once playback has passed that
  number the packet is dropped as late instead of being counted as a loss.\<close>

theorem jitter_forward_jump_dropped:
  assumes "tracks jb h" "3000 < t - h" "h mod 65536 + (t - h) < 65536"
    "uint (sequence pkt) = t mod 65536" "jb_next jb = Some n" "t - 65536 < n"
  shows "extend_seq jb (sequence pkt) = (t - 65536, jb)
    \<and> jb_queue (jb_push jb pkt now) = jb_queue jb
    \<and> js_late_drops (jb_stats (jb_push jb pkt now)) = Suc (js_late_drops (jb_stats jb))"
proof -
  have m: "t mod 65536 = h mod 65536 + (t - h)"
  proof -
    have "(h mod 65536 + (t - h)) mod 65536 = t mod 65536" by (simp add: mod_simps)
    moreover have "0 \<le> h mod 65536 + (t - h)" using assms(2) pos_mod_sign [of 65536 h] by linarith
    ultimately show ?thesis using assms(3) by simp
  qed
  have e: "extend_seq jb (sequence pkt) = (t - 65536, jb)"
    using assms m by (auto simp: tracks_def extend_seq_def SEQ_REORDER_WINDOW_def Let_def)
  then show ?thesis
    using assms(5,6) by (simp add: jb_push_def Let_def jb_frames)
qed

definition jump_buffer :: jitter_buffer where
  "jump_buffer = (jb_new 4)\<lparr>jb_last_seq := Some 100, jb_next := Some 101\<rparr>"

definition jump_packet :: rtp_packet where
  "jump_packet = \<lparr>payload_type = 0, marker = False, sequence = 5000, timestamp = 0, ssrc = 1, payload = []\<rparr>"

theorem jitter_forward_jump_dropped_witness:
  "extend_seq jump_buffer (sequence jump_packet) = (5000 - 65536, jump_buffer)
   \<and> jb_queue (jb_push jump_buffer jump_packet 0) = []
   \<and> js_late_drops (jb_stats (jb_push jump_buffer jump_packet 0)) = 1"
  using jitter_forward_jump_dropped [of jump_buffer 100 5000 jump_packet 101 0]
  by (simp add: jump_buffer_def jump_packet_def tracks_def jb_new_def)

end
