(* ===== verification/Rust_Str.thy ===== *)
theory Rust_Str
  imports Prelude "HOL-Library.Sublist"
begin

text \<open>
  The part of Rust's string library the SIP code uses. A Rust string is the list
  of its UTF-8 octets, and a HOL character stands for one octet, so datagrams
  and strings have one type. The patterns the program searches for are ASCII, so
  searching octets is searching characters; white space is recognised by the
  octet sequences of the Unicode white-space characters. The facts: trimming is
  idempotent and commutes with ASCII case folding, splitting undoes joining,
  decimal numbers read back, and the lossy UTF-8 decoder is the identity on its
  own results.
\<close>

section \<open>Definitions\<close>

abbreviation CR :: char where "CR \<equiv> CHR 0x0D"
abbreviation LF :: char where "LF \<equiv> CHR 0x0A"
abbreviation SP :: char where "SP \<equiv> CHR '' ''"
abbreviation DQ :: char where "DQ \<equiv> CHR 0x22"
abbreviation crlf :: string where "crlf \<equiv> [CHR 0x0D, CHR 0x0A]"

definition octet_of :: "char \<Rightarrow> nat" where
  "octet_of c = of_char c"

subsection \<open>ASCII case\<close>

definition ascii_lower :: "char \<Rightarrow> char" where
  "ascii_lower c = (if 65 \<le> octet_of c \<and> octet_of c \<le> 90 then char_of (octet_of c + 32) else c)"

definition ascii_upper :: "char \<Rightarrow> char" where
  "ascii_upper c = (if 97 \<le> octet_of c \<and> octet_of c \<le> 122 then char_of (octet_of c - 32) else c)"

definition lower :: "string \<Rightarrow> string" where
  "lower s = map ascii_lower s"

definition upper :: "string \<Rightarrow> string" where
  "upper s = map ascii_upper s"

definition eq_ignore_case :: "string \<Rightarrow> string \<Rightarrow> bool" where
  "eq_ignore_case a b \<longleftrightarrow> lower a = lower b"

subsection \<open>White space\<close>

text \<open>The number of octets of the white-space character a string starts with, or zero.\<close>

definition ws1 :: "nat \<Rightarrow> bool" where
  "ws1 a \<longleftrightarrow> 9 \<le> a \<and> a \<le> 13 \<or> a = 32"

definition ws2 :: "nat \<Rightarrow> nat \<Rightarrow> bool" where
  "ws2 a b \<longleftrightarrow> a = 0xC2 \<and> (b = 0x85 \<or> b = 0xA0)"

definition ws3 :: "nat \<Rightarrow> nat \<Rightarrow> nat \<Rightarrow> bool" where
  "ws3 a b c \<longleftrightarrow>
     a = 0xE1 \<and> b = 0x9A \<and> c = 0x80
     \<or> a = 0xE2 \<and> b = 0x80 \<and> (0x80 \<le> c \<and> c \<le> 0x8A \<or> c = 0xA8 \<or> c = 0xA9 \<or> c = 0xAF)
     \<or> a = 0xE2 \<and> b = 0x81 \<and> c = 0x9F
     \<or> a = 0xE3 \<and> b = 0x80 \<and> c = 0x80"

definition ws_at :: "string \<Rightarrow> nat" where
  "ws_at s =
     (case s of [] \<Rightarrow> 0
      | a # s1 \<Rightarrow> if ws1 (octet_of a) then 1
        else (case s1 of [] \<Rightarrow> 0
              | b # s2 \<Rightarrow> if ws2 (octet_of a) (octet_of b) then 2
                else (case s2 of [] \<Rightarrow> 0
                      | c # _ \<Rightarrow> if ws3 (octet_of a) (octet_of b) (octet_of c) then 3 else 0)))"

text \<open>The same at the end of a string.\<close>

definition ws_end :: "string \<Rightarrow> nat" where
  "ws_end s =
     (case rev s of [] \<Rightarrow> 0
      | c # s1 \<Rightarrow> if ws1 (octet_of c) then 1
        else (case s1 of [] \<Rightarrow> 0
              | b # s2 \<Rightarrow> if ws2 (octet_of b) (octet_of c) then 2
                else (case s2 of [] \<Rightarrow> 0
                      | a # _ \<Rightarrow> if ws3 (octet_of a) (octet_of b) (octet_of c) then 3 else 0)))"

function trim_start :: "string \<Rightarrow> string" where
  "trim_start s = (if ws_at s = 0 then s else trim_start (drop (ws_at s) s))"
  by pat_completeness auto
termination
  by (relation "measure length") (auto simp: ws_at_def split: if_splits list.splits)

function trim_end :: "string \<Rightarrow> string" where
  "trim_end s = (if ws_end s = 0 then s else trim_end (take (length s - ws_end s) s))"
  by pat_completeness auto
termination
  by (relation "measure length") (auto simp: ws_end_def split: if_splits list.splits)

declare trim_start.simps [simp del] trim_end.simps [simp del]

definition trim :: "string \<Rightarrow> string" where
  "trim s = trim_end (trim_start s)"

text \<open>\<^verbatim>\<open>trim_matches\<close> with the double quote.\<close>

definition trim_quotes :: "string \<Rightarrow> string" where
  "trim_quotes s = rev (dropWhile (\<lambda>c. c = DQ) (rev (dropWhile (\<lambda>c. c = DQ) s)))"

text \<open>The octets before the first white-space character.\<close>

fun take_word :: "string \<Rightarrow> string" where
  "take_word [] = []"
| "take_word (c # s) = (if ws_at (c # s) = 0 then c # take_word s else [])"

function split_whitespace :: "string \<Rightarrow> string list" where
  "split_whitespace s =
     (let t = trim_start s; w = take_word t
      in if w = [] then [] else w # split_whitespace (drop (length w) t))"
  by pat_completeness auto

subsection \<open>Searching and splitting\<close>

definition strip_prefix :: "string \<Rightarrow> string \<Rightarrow> string option" where
  "strip_prefix p s = (if take (length p) s = p then Some (drop (length p) s) else None)"

definition strip_suffix :: "string \<Rightarrow> string \<Rightarrow> string option" where
  "strip_suffix p s =
     (if length p \<le> length s \<and> drop (length s - length p) s = p then Some (take (length s - length p) s) else None)"

definition starts_with :: "string \<Rightarrow> string \<Rightarrow> bool" where
  "starts_with p s \<longleftrightarrow> take (length p) s = p"

fun find_str :: "string \<Rightarrow> string \<Rightarrow> nat option" where
  "find_str p [] = (if p = [] then Some 0 else None)"
| "find_str p (c # s) = (if starts_with p (c # s) then Some 0 else map_option Suc (find_str p s))"

fun split_once :: "char \<Rightarrow> string \<Rightarrow> (string \<times> string) option" where
  "split_once d [] = None"
| "split_once d (c # s) =
     (if c = d then Some ([], s) else map_option (\<lambda>(a, b). (c # a, b)) (split_once d s))"

definition rsplit_once :: "char \<Rightarrow> string \<Rightarrow> (string \<times> string) option" where
  "rsplit_once d s = map_option (\<lambda>(a, b). (rev b, rev a)) (split_once d (rev s))"

fun cons_hd :: "'a \<Rightarrow> 'a list list \<Rightarrow> 'a list list" where
  "cons_hd c [] = [[c]]"
| "cons_hd c (x # xs) = (c # x) # xs"

fun split_char :: "char \<Rightarrow> string \<Rightarrow> string list" where
  "split_char d [] = [[]]"
| "split_char d (c # s) = (if c = d then [] # split_char d s else cons_hd c (split_char d s))"

function split_str :: "string \<Rightarrow> string \<Rightarrow> string list" where
  "split_str p [] = [[]]"
| "split_str p (c # s) =
     (if p \<noteq> [] \<and> starts_with p (c # s) then [] # split_str p (drop (length p) (c # s))
      else cons_hd c (split_str p s))"
  by pat_completeness auto
termination
  by (relation "measure (length \<circ> snd)") (auto simp: neq_Nil_conv)

fun splitn :: "nat \<Rightarrow> char \<Rightarrow> string \<Rightarrow> string list" where
  "splitn 0 d s = []"
| "splitn (Suc 0) d s = [s]"
| "splitn (Suc (Suc n)) d s =
     (case split_once d s of None \<Rightarrow> [s] | Some (a, b) \<Rightarrow> a # splitn (Suc n) d b)"

fun join :: "string \<Rightarrow> string list \<Rightarrow> string" where
  "join sep [] = []"
| "join sep [x] = x"
| "join sep (x # y # ys) = x @ sep @ join sep (y # ys)"

subsection \<open>Numbers\<close>

definition is_digit :: "char \<Rightarrow> bool" where
  "is_digit c \<longleftrightarrow> 48 \<le> octet_of c \<and> octet_of c \<le> 57"

definition digit_char :: "nat \<Rightarrow> char" where
  "digit_char d = char_of (48 + d)"

fun dec :: "nat \<Rightarrow> string" where
  "dec n = (if n < 10 then [digit_char n] else dec (n div 10) @ [digit_char (n mod 10)])"

declare dec.simps [simp del]

definition digits_value :: "string \<Rightarrow> nat" where
  "digits_value s = foldl (\<lambda>acc c. acc * 10 + (octet_of c - 48)) 0 s"

text \<open>
  \<^verbatim>\<open>str::parse\<close> for an unsigned type of the given width: an optional plus sign,
  then decimal digits, at least one, and the value must fit.
\<close>

definition parse_uint :: "nat \<Rightarrow> string \<Rightarrow> nat option" where
  "parse_uint w s =
     (let ds = (case s of c # r \<Rightarrow> if c = CHR ''+'' then r else s | [] \<Rightarrow> [])
      in if ds \<noteq> [] \<and> list_all is_digit ds \<and> digits_value ds < 2 ^ w then Some (digits_value ds) else None)"

definition hex_digit :: "nat \<Rightarrow> char" where
  "hex_digit d = (if d < 10 then char_of (48 + d) else char_of (87 + d))"

text \<open>Lower-case hexadecimal, zero-padded to a fixed number of digits.\<close>

fun hex_fixed :: "nat \<Rightarrow> nat \<Rightarrow> string" where
  "hex_fixed 0 n = []"
| "hex_fixed (Suc k) n = hex_fixed k (n div 16) @ [hex_digit (n mod 16)]"

subsection \<open>UTF-8\<close>

definition octet_in :: "nat \<Rightarrow> nat \<Rightarrow> string \<Rightarrow> nat \<Rightarrow> bool" where
  "octet_in lo hi s i \<longleftrightarrow> i < length s \<and> lo \<le> octet_of (s ! i) \<and> octet_of (s ! i) \<le> hi"

text \<open>The range the second octet must be in after a lead octet of three or four.\<close>

definition utf8_second :: "nat \<Rightarrow> nat \<times> nat" where
  "utf8_second b =
     (if b = 0xE0 then (0xA0, 0xBF) else if b = 0xED then (0x80, 0x9F)
      else if b = 0xF0 then (0x90, 0xBF) else if b = 0xF4 then (0x80, 0x8F) else (0x80, 0xBF))"

text \<open>
  One step of the decoder: whether the string starts with a well-formed
  character, and the number of octets of the character or of the ill-formed
  sequence.
\<close>

definition utf8_step :: "string \<Rightarrow> bool \<times> nat" where
  "utf8_step s =
     (let b = octet_of (s ! 0); (lo, hi) = utf8_second b
      in if b < 0x80 then (True, 1)
         else if 0xC2 \<le> b \<and> b \<le> 0xDF then (if octet_in 0x80 0xBF s 1 then (True, 2) else (False, 1))
         else if 0xE0 \<le> b \<and> b \<le> 0xEF then
           (if \<not> octet_in lo hi s 1 then (False, 1)
            else if \<not> octet_in 0x80 0xBF s 2 then (False, 2) else (True, 3))
         else if 0xF0 \<le> b \<and> b \<le> 0xF4 then
           (if \<not> octet_in lo hi s 1 then (False, 1)
            else if \<not> octet_in 0x80 0xBF s 2 then (False, 2)
            else if \<not> octet_in 0x80 0xBF s 3 then (False, 3) else (True, 4))
         else (False, 1))"

definition replacement :: string where
  "replacement = [CHR 0xEF, CHR 0xBF, CHR 0xBD]"

function from_utf8_lossy :: "string \<Rightarrow> string" where
  "from_utf8_lossy s =
     (if s = [] then []
      else (let (ok, n) = utf8_step s
            in (if ok then take n s else replacement) @ from_utf8_lossy (drop n s)))"
  by pat_completeness auto

function valid_utf8 :: "string \<Rightarrow> bool" where
  "valid_utf8 s =
     (if s = [] then True
      else (let (ok, n) = utf8_step s in if ok then valid_utf8 (drop n s) else False))"
  by pat_completeness auto

lemma utf8_step_pos: "0 < snd (utf8_step s)"
  by (simp add: utf8_step_def Let_def split: prod.splits)

lemma utf8_step_decr: "s \<noteq> [] \<Longrightarrow> (ok, n) = utf8_step s \<Longrightarrow> length (drop n s) < length s"
  using utf8_step_pos [of s] by (auto simp: neq_Nil_conv split_pairs)

termination from_utf8_lossy
  by (relation "measure length") (auto intro: utf8_step_decr [unfolded length_drop])

termination valid_utf8
  by (relation "measure length") (auto intro: utf8_step_decr [unfolded length_drop])

declare from_utf8_lossy.simps [simp del] valid_utf8.simps [simp del]

text \<open>\<^verbatim>\<open>chars().next()\<close>: the octets of the first character.\<close>

definition first_char :: "string \<Rightarrow> string option" where
  "first_char s = (if s = [] then None else Some (take (snd (utf8_step s)) s))"

lemma trim_start_length: "length (trim_start s) \<le> length s"
  by (induction s rule: trim_start.induct) (subst trim_start.simps, auto)

termination split_whitespace
  by (relation "measure length") (auto simp: le_trans [OF _ trim_start_length], metis
      diff_less length_greater_0_conv take_word.simps(1) trim_start_length less_le_trans)

declare split_whitespace.simps [simp del]

section \<open>Octets and case\<close>

lemma octet_of_less [simp]: "octet_of c < 256"
  by (cases c) (simp add: octet_of_def)

lemma octet_of_char_of [simp]: "octet_of (char_of n) = n mod 256"
  by (simp add: octet_of_def)

lemma octet_of_inj: "octet_of a = octet_of b \<longleftrightarrow> a = b"
  by (simp add: octet_of_def)

lemma octet_of_eqD: "octet_of c = n \<Longrightarrow> c = char_of n"
  by (auto simp: octet_of_def)

lemma octet_of_ascii_lower:
  "octet_of (ascii_lower c) = (if 65 \<le> octet_of c \<and> octet_of c \<le> 90 then octet_of c + 32 else octet_of c)"
  by (simp add: ascii_lower_def)

lemma octet_of_ascii_upper:
  "octet_of (ascii_upper c) = (if 97 \<le> octet_of c \<and> octet_of c \<le> 122 then octet_of c - 32 else octet_of c)"
proof -
  have "octet_of c - 32 < 256" using octet_of_less [of c] by linarith
  then show ?thesis by (simp add: ascii_upper_def)
qed

lemma ascii_lower_idem [simp]: "ascii_lower (ascii_lower c) = ascii_lower c"
  by (simp add: octet_of_inj [symmetric] octet_of_ascii_lower)

lemma ascii_lower_upper [simp]: "ascii_lower (ascii_upper c) = ascii_lower c"
  by (auto simp add: octet_of_inj [symmetric] octet_of_ascii_lower octet_of_ascii_upper)

text \<open>Folding case touches letters only.\<close>

lemma ascii_lower_eq_iff:
  assumes "octet_of d < 65 \<or> 122 < octet_of d"
  shows "ascii_lower c = d \<longleftrightarrow> c = d"
  using assms by (auto simp: octet_of_inj [symmetric] octet_of_ascii_lower)

lemma ascii_upper_eq_iff:
  assumes "octet_of d < 65 \<or> 122 < octet_of d"
  shows "ascii_upper c = d \<longleftrightarrow> c = d"
  using assms by (auto simp: octet_of_inj [symmetric] octet_of_ascii_upper)

lemma lower_simps [simp, str_simps]:
  "lower [] = []" "lower (c # s) = ascii_lower c # lower s" "lower (s @ t) = lower s @ lower t"
  "length (lower s) = length s" "lower (lower s) = lower s"
  by (simp_all add: lower_def)

lemma lower_take_drop [str_simps]: "lower (take n s) = take n (lower s)" "lower (drop n s) = drop n (lower s)"
  by (simp_all add: lower_def take_map drop_map)

lemma lower_nth: "i < length s \<Longrightarrow> lower s ! i = ascii_lower (s ! i)"
  by (simp add: lower_def)

lemma eq_ignore_case_refl [simp]: "eq_ignore_case s s"
  by (simp add: eq_ignore_case_def)

text \<open>What evaluates string functions on literals by rewriting.\<close>

lemmas char_eval = ascii_lower_def ascii_upper_def octet_of_def char_of_def bit_Suc_0_iff
lemmas ws_eval = ws_at_def ws_end_def ws1_def ws2_def ws3_def octet_of_def

section \<open>Trimming\<close>

lemma ws_lower [simp]:
  "ws1 (octet_of (ascii_lower c)) \<longleftrightarrow> ws1 (octet_of c)"
  "ws2 (octet_of (ascii_lower c)) (octet_of (ascii_lower d)) \<longleftrightarrow> ws2 (octet_of c) (octet_of d)"
  "ws3 (octet_of (ascii_lower c)) (octet_of (ascii_lower d)) (octet_of (ascii_lower e))
     \<longleftrightarrow> ws3 (octet_of c) (octet_of d) (octet_of e)"
  by (auto simp: ws1_def ws2_def ws3_def octet_of_ascii_lower)

lemma ws_at_lower [simp]: "ws_at (lower s) = ws_at s"
  by (auto simp: ws_at_def lower_def split: list.splits)

lemma ws_end_lower [simp]: "ws_end (lower s) = ws_end s"
  by (auto simp: ws_end_def lower_def rev_map split: list.splits)

lemma trim_start_lower [str_simps]: "trim_start (lower s) = lower (trim_start s)"
proof (induction s rule: trim_start.induct)
  case (1 s)
  then show ?case
    using trim_start.simps [of s] trim_start.simps [of "lower s"] by (auto simp: lower_take_drop)
qed

lemma trim_end_lower [str_simps]: "trim_end (lower s) = lower (trim_end s)"
proof (induction s rule: trim_end.induct)
  case (1 s)
  then show ?case
    using trim_end.simps [of s] trim_end.simps [of "lower s"] by (auto simp: lower_take_drop)
qed

lemma trim_lower [str_simps]: "trim (lower s) = lower (trim s)"
  by (simp add: trim_def str_simps)

lemma ws_at_trim_start [simp]: "ws_at (trim_start s) = 0"
  by (induction s rule: trim_start.induct) (subst trim_start.simps, auto)

lemma ws_end_trim_end [simp]: "ws_end (trim_end s) = 0"
  by (induction s rule: trim_end.induct) (subst trim_end.simps, auto)

lemma trim_end_prefix: "\<exists>t. s = trim_end s @ t"
proof (induction s rule: trim_end.induct)
  case (1 s)
  show ?case
  proof (cases "ws_end s = 0")
    case True
    then show ?thesis by (simp add: trim_end.simps [of s])
  next
    case False
    with 1 obtain t where t: "take (length s - ws_end s) s = trim_end s @ t"
      by (auto simp: trim_end.simps [of s])
    have "s = take (length s - ws_end s) s @ drop (length s - ws_end s) s" by simp
    then show ?thesis unfolding t by (metis append_assoc)
  qed
qed

lemma trim_start_suffix: "\<exists>t. s = t @ trim_start s"
proof (induction s rule: trim_start.induct)
  case (1 s)
  show ?case
  proof (cases "ws_at s = 0")
    case True
    then show ?thesis by (simp add: trim_start.simps [of s])
  next
    case False
    with 1 obtain t where t: "drop (ws_at s) s = t @ trim_start s"
      by (auto simp: trim_start.simps [of s])
    have "s = take (ws_at s) s @ drop (ws_at s) s" by simp
    then show ?thesis unfolding t by (metis append_assoc)
  qed
qed

lemma ws_at_append: "ws_at s \<noteq> 0 \<Longrightarrow> ws_at (s @ t) \<noteq> 0"
  by (auto simp: ws_at_def split: list.splits if_splits)

lemma trim_start_id: "ws_at s = 0 \<Longrightarrow> trim_start s = s"
  by (simp add: trim_start.simps [of s])

lemma trim_end_id: "ws_end s = 0 \<Longrightarrow> trim_end s = s"
  by (simp add: trim_end.simps [of s])

lemma ws_at_trim [simp]: "ws_at (trim s) = 0"
proof -
  obtain t where "trim_start s = trim s @ t" using trim_end_prefix [of "trim_start s"] by (auto simp: trim_def)
  with ws_at_append [of "trim s" t] show ?thesis by (metis ws_at_trim_start)
qed

lemma ws_end_trim [simp]: "ws_end (trim s) = 0"
  by (simp add: trim_def)

lemma trim_idem [simp]: "trim (trim s) = trim s"
  using trim_start_id [OF ws_at_trim] trim_end_id [OF ws_end_trim] by (metis trim_def)

lemma trim_Nil [simp]: "trim [] = []"
  by (simp add: trim_def trim_start_id trim_end_id ws_at_def ws_end_def)

lemma trim_SP [simp]: "trim (SP # s) = trim s"
proof -
  have "ws_at (SP # s) = 1" by (simp add: ws_at_def ws1_def octet_of_def)
  then show ?thesis by (simp add: trim_def trim_start.simps [of "SP # s"])
qed

lemma trim_infix: "\<exists>a b. s = a @ trim s @ b"
proof -
  obtain a where "s = a @ trim_start s" using trim_start_suffix by blast
  moreover obtain b where "trim_start s = trim s @ b" using trim_end_prefix by (auto simp: trim_def)
  ultimately show ?thesis by metis
qed

section \<open>Splitting\<close>

lemma split_once_None [str_simps]: "split_once d s = None \<longleftrightarrow> d \<notin> set s"
  by (induction s) auto

lemma split_once_Some: "split_once d s = Some (a, b) \<longleftrightarrow> s = a @ d # b \<and> d \<notin> set a"
proof (induction s arbitrary: a)
  case (Cons c s)
  then show ?case by (cases a) auto
qed simp

lemma split_once_append [str_simps]: "d \<notin> set a \<Longrightarrow> split_once d (a @ d # b) = Some (a, b)"
  by (simp add: split_once_Some)

lemma rsplit_once_Some: "rsplit_once d s = Some (a, b) \<longleftrightarrow> s = a @ d # b \<and> d \<notin> set b"
proof -
  have "rsplit_once d s = Some (a, b) \<longleftrightarrow> split_once d (rev s) = Some (rev b, rev a)"
    by (auto simp: rsplit_once_def)
  also have "\<dots> \<longleftrightarrow> rev s = rev b @ d # rev a \<and> d \<notin> set b" by (simp add: split_once_Some)
  also have "\<dots> \<longleftrightarrow> rev s = rev (a @ d # b) \<and> d \<notin> set b" by simp
  also have "\<dots> \<longleftrightarrow> s = a @ d # b \<and> d \<notin> set b" by (simp only: rev_is_rev_conv)
  finally show ?thesis .
qed

lemma rsplit_once_None [str_simps]: "rsplit_once d s = None \<longleftrightarrow> d \<notin> set s"
  by (simp add: rsplit_once_def split_once_None)

lemma split_char_ne [simp]: "split_char d s \<noteq> []"
proof (cases s)
  case (Cons c r)
  then show ?thesis by (cases "split_char d r") auto
qed simp

lemma split_char_join: "join [d] (split_char d s) = s"
proof (induction s)
  case (Cons c s)
  then show ?case
    using split_char_ne [of d s] by (cases "split_char d s"; cases "tl (split_char d s)") auto
qed simp

lemma split_char_none: "d \<notin> set s \<Longrightarrow> split_char d s = [s]"
  by (induction s) auto

lemma split_char_append: "d \<notin> set a \<Longrightarrow> split_char d (a @ d # b) = a # split_char d b"
  by (induction a) auto

lemma split_char_of_join:
  "xs \<noteq> [] \<Longrightarrow> \<forall>x \<in> set xs. d \<notin> set x \<Longrightarrow> split_char d (join [d] xs) = xs"
proof (induction xs rule: list_nonempty_induct)
  case (cons x xs)
  then show ?case by (cases xs) (auto simp: split_char_append)
qed (simp add: split_char_none)

lemma starts_with_append [simp]: "starts_with p (p @ s)"
  by (simp add: starts_with_def)

lemma starts_withD: "starts_with p s \<Longrightarrow> \<exists>t. s = p @ t"
  by (metis starts_with_def append_take_drop_id)

lemma strip_prefix_Some: "strip_prefix p s = Some r \<longleftrightarrow> s = p @ r"
  by (auto simp: strip_prefix_def) (metis append_take_drop_id)

lemma strip_prefix_None: "strip_prefix p s = None \<longleftrightarrow> \<not> starts_with p s"
  by (simp add: strip_prefix_def starts_with_def)

lemma strip_prefix_append [simp]: "strip_prefix p (p @ s) = Some s"
  by (simp add: strip_prefix_Some)

section \<open>Lines\<close>

definition no_crlf :: "string \<Rightarrow> bool" where
  "no_crlf s \<longleftrightarrow> find_str crlf s = None"

lemma starts_with_crlf [simp]: "starts_with crlf (c # s) \<longleftrightarrow> c = CR \<and> (\<exists>t. s = LF # t)"
  by (cases s) (auto simp: starts_with_def)

lemma no_crlf_Nil [simp]: "no_crlf []"
  by (simp add: no_crlf_def)

lemma no_crlf_Cons: "no_crlf (c # s) \<longleftrightarrow> \<not> (c = CR \<and> (\<exists>t. s = LF # t)) \<and> no_crlf s"
  by (auto simp: no_crlf_def)

lemma no_crlf_append: "no_crlf (s @ t) \<Longrightarrow> no_crlf s \<and> no_crlf t"
  by (induction s) (auto simp: no_crlf_Cons Cons_eq_append_conv)

lemma no_crlf_infix: "no_crlf (a @ s @ b) \<Longrightarrow> no_crlf s"
  using no_crlf_append by blast

lemma no_crlf_join: "no_crlf s \<Longrightarrow> no_crlf (c # t) \<Longrightarrow> c \<noteq> LF \<Longrightarrow> no_crlf (s @ c # t)"
  by (induction s) (auto simp: no_crlf_Cons Cons_eq_append_conv append_eq_Cons_conv)

lemma no_CR_no_crlf: "CR \<notin> set s \<Longrightarrow> no_crlf s"
  by (induction s) (auto simp: no_crlf_Cons)

lemma no_crlf_trim: "no_crlf s \<Longrightarrow> no_crlf (trim s)"
  using trim_infix [of s] no_crlf_infix by metis

lemma no_crlf_map:
  assumes "\<And>c. f c = CR \<longleftrightarrow> c = CR" "\<And>c. f c = LF \<longleftrightarrow> c = LF"
  shows "no_crlf (map f s) \<longleftrightarrow> no_crlf s"
proof (induction s)
  case (Cons c s)
  have "(\<exists>t. map f s = LF # t) \<longleftrightarrow> (\<exists>t. s = LF # t)"
    using assms(2) by (cases s) auto
  with Cons assms(1) show ?case by (simp add: no_crlf_Cons)
qed simp

lemma split_crlf_none: "no_crlf l \<Longrightarrow> split_str crlf l = [l]"
  by (induction l) (auto simp: no_crlf_Cons)

lemma split_crlf_append: "no_crlf l \<Longrightarrow> split_str crlf (l @ CR # LF # r) = l # split_str crlf r"
  by (induction l) (auto simp: no_crlf_Cons append_eq_Cons_conv)

lemma cons_hd_ne [simp]: "cons_hd c xs \<noteq> []"
  by (cases xs) auto

lemma split_str_ne [simp]: "split_str p s \<noteq> []"
  by (cases s) auto

lemma join_cons_hd: "xs \<noteq> [] \<Longrightarrow> join p (cons_hd c xs) = c # join p xs"
  by (cases xs; cases "tl xs") auto

lemma split_str_join: "join p (split_str p s) = s"
proof (induction p s rule: split_str.induct)
  case (2 p c s)
  show ?case
  proof (cases "p \<noteq> [] \<and> starts_with p (c # s)")
    case True
    then obtain t where t: "c # s = p @ t" using starts_withD by blast
    have "join p (split_str p t) = t" using "2.IH"(1) True t by simp
    then have "p @ join p (split_str p t) = c # s" using t by simp
    moreover have "split_str p (c # s) = [] # split_str p (drop (length p) (c # s))" using True by simp
    then have "split_str p (c # s) = [] # split_str p t" unfolding t by simp
    ultimately show ?thesis
      using split_str_ne [of p t] by (cases "split_str p t") auto
  next
    case False
    then show ?thesis using "2.IH"(2) by (auto simp: join_cons_hd)
  qed
qed simp

lemma split_crlf_lines: "l \<in> set (split_str crlf s) \<Longrightarrow> no_crlf l"
proof (induction crlf s arbitrary: l rule: split_str.induct)
  case (2 c s)
  show ?case
  proof (cases "starts_with crlf (c # s)")
    case True
    with 2 show ?thesis by auto
  next
    case False
    obtain x xs where x: "split_str crlf s = x # xs"
      using split_str_ne [of crlf s] by (cases "split_str crlf s") auto
    have "\<exists>r. s = x @ r" using split_str_join [of crlf s] unfolding x by (cases xs) auto
    then have "\<not> (c = CR \<and> (\<exists>t. x = LF # t))" using False by auto
    moreover have "no_crlf x" "\<forall>y \<in> set xs. no_crlf y" using "2.hyps"(2) False x by auto
    ultimately show ?thesis using "2.prems" False x by (auto simp: no_crlf_Cons)
  qed
qed simp

section \<open>Decimal numbers\<close>

lemma is_digit_digit_char: "d < 10 \<Longrightarrow> is_digit (digit_char d) \<and> octet_of (digit_char d) - 48 = d"
  by (simp add: is_digit_def digit_char_def)

lemma dec_digits: "list_all is_digit (dec n) \<and> dec n \<noteq> []"
proof (induction n rule: dec.induct)
  case (1 n)
  then show ?case
    by (cases "n < 10") (simp_all add: dec.simps [of n] is_digit_digit_char)
qed

lemma digits_value_snoc: "digits_value (s @ [c]) = digits_value s * 10 + (octet_of c - 48)"
  by (simp add: digits_value_def)

lemma digits_value_dec [simp]: "digits_value (dec n) = n"
proof (induction n rule: dec.induct)
  case (1 n)
  show ?case
  proof (cases "n < 10")
    case True
    then show ?thesis
      using digits_value_snoc [of "[]"]
      by (simp add: dec.simps [of n] is_digit_digit_char digits_value_def)
  next
    case False
    then show ?thesis
      using 1 by (simp add: dec.simps [of n] digits_value_snoc is_digit_digit_char)
  qed
qed

lemma is_digit_not: "is_digit c \<Longrightarrow> c \<noteq> CHR ''+'' \<and> c \<noteq> SP \<and> c \<noteq> CR \<and> c \<noteq> CHR '':''"
  by (auto simp: is_digit_def octet_of_def)

lemma parse_uint_digits:
  "s \<noteq> [] \<Longrightarrow> list_all is_digit s \<Longrightarrow> digits_value s < 2 ^ w \<Longrightarrow> parse_uint w s = Some (digits_value s)"
  using is_digit_not by (cases s) (auto simp: parse_uint_def)

lemma parse_uint_dec [simp]: "n < 2 ^ w \<Longrightarrow> parse_uint w (dec n) = Some n"
  using dec_digits [of n] parse_uint_digits [of "dec n" w] by simp

lemma parse_uint_bound: "parse_uint w s = Some n \<Longrightarrow> n < 2 ^ w"
  by (auto simp: parse_uint_def Let_def split: if_splits)

lemma dec_not: "c \<in> set (dec n) \<Longrightarrow> is_digit c"
  using dec_digits [of n] by (simp add: list_all_iff)

lemma digit_no_ws: "is_digit c \<Longrightarrow> \<not> ws1 (octet_of c) \<and> \<not> ws2 (octet_of c) b \<and> \<not> ws3 (octet_of c) b d
   \<and> \<not> ws2 b (octet_of c) \<and> \<not> ws3 b d (octet_of c)"
  by (auto simp: is_digit_def ws1_def ws2_def ws3_def)

lemma trim_dec [simp]: "trim (dec n) = dec n"
proof -
  have "ws_at (dec n) = 0"
    using dec_digits [of n] by (auto simp: ws_at_def digit_no_ws split: list.splits)
  moreover have "list_all is_digit (rev (dec n))" using dec_digits [of n] by simp
  then have "ws_end (dec n) = 0"
    by (auto simp: ws_end_def digit_no_ws split: list.splits)
  ultimately show ?thesis by (simp add: trim_def trim_start_id trim_end_id)
qed

section \<open>UTF-8 facts\<close>

definition is_cont :: "char \<Rightarrow> bool" where
  "is_cont c \<longleftrightarrow> 0x80 \<le> octet_of c \<and> octet_of c \<le> 0xBF"

lemma utf8_second_cont: "utf8_second b = (lo, hi) \<Longrightarrow> 0x80 \<le> lo \<and> hi \<le> 0xBF"
  by (auto simp: utf8_second_def split: if_splits)

text \<open>The four shapes of a well-formed character.\<close>

definition utf8_char :: "nat \<Rightarrow> string \<Rightarrow> bool" where
  "utf8_char n s \<longleftrightarrow>
     (let b = octet_of (s ! 0); (lo, hi) = utf8_second b
      in b < 0x80 \<and> n = 1
         \<or> 0xC2 \<le> b \<and> b \<le> 0xDF \<and> octet_in 0x80 0xBF s 1 \<and> n = 2
         \<or> 0xE0 \<le> b \<and> b \<le> 0xEF \<and> octet_in lo hi s 1 \<and> octet_in 0x80 0xBF s 2 \<and> n = 3
         \<or> 0xF0 \<le> b \<and> b \<le> 0xF4 \<and> octet_in lo hi s 1 \<and> octet_in 0x80 0xBF s 2
           \<and> octet_in 0x80 0xBF s 3 \<and> n = 4)"

lemma utf8_step_iff: "utf8_step s = (True, n) \<longleftrightarrow> utf8_char n s"
proof -
  obtain lo hi where l: "utf8_second (octet_of (s ! 0)) = (lo, hi)" by fastforce
  consider "octet_of (s ! 0) < 0xC2" | "0xC2 \<le> octet_of (s ! 0)" "octet_of (s ! 0) \<le> 0xDF"
    | "0xE0 \<le> octet_of (s ! 0)" "octet_of (s ! 0) \<le> 0xEF"
    | "0xF0 \<le> octet_of (s ! 0)" "octet_of (s ! 0) \<le> 0xF4" | "0xF4 < octet_of (s ! 0)"
    by linarith
  then show ?thesis
    unfolding utf8_step_def utf8_char_def Let_def l prod.case by cases auto
qed

text \<open>A well-formed character lies inside the string, and all its octets but the first are continuations.\<close>

lemma octet_in_cont: "octet_in lo hi s i \<Longrightarrow> 0x80 \<le> lo \<Longrightarrow> hi \<le> 0xBF \<Longrightarrow> i < length s \<and> is_cont (s ! i)"
  by (simp add: octet_in_def is_cont_def)

lemma octet_in_cont': "octet_in 0x80 0xBF s i \<Longrightarrow> i < length s \<and> is_cont (s ! i)"
  by (simp add: octet_in_def is_cont_def)

lemma utf8_step_ok:
  assumes "utf8_step s = (True, n)" "s \<noteq> []"
  shows "n \<le> length s \<and> (\<forall>i. 0 < i \<and> i < n \<longrightarrow> is_cont (s ! i))"
proof -
  obtain lo hi where l: "utf8_second (octet_of (s ! 0)) = (lo, hi)" by fastforce
  note b = utf8_second_cont [OF l]
  have sc: "octet_in lo hi s 1 \<Longrightarrow> 1 < length s \<and> is_cont (s ! 1)" using octet_in_cont b by blast
  have i: "0 < i \<and> i < 4 \<Longrightarrow> i = 1 \<or> i = 2 \<or> i = 3" for i :: nat by auto
  have "utf8_char n s" using assms(1) by (simp add: utf8_step_iff)
  then consider "n = 1" | "n = 2" "octet_in 0x80 0xBF s 1" | "n = 3" "octet_in lo hi s 1" "octet_in 0x80 0xBF s 2"
    | "n = 4" "octet_in lo hi s 1" "octet_in 0x80 0xBF s 2" "octet_in 0x80 0xBF s 3"
    unfolding utf8_char_def Let_def l prod.case by blast
  then show ?thesis
  proof cases
    case 1
    then show ?thesis using assms(2) by (cases s) auto
  next
    case 2
    then show ?thesis using octet_in_cont' [of s 1] by (auto simp: less_Suc_eq numeral_eq_Suc)
  next
    case 3
    then show ?thesis using sc octet_in_cont' [of s 2] by (auto simp: less_Suc_eq numeral_eq_Suc)
  next
    case 4
    then show ?thesis
      using sc octet_in_cont' [of s 2] octet_in_cont' [of s 3] by (auto simp: less_Suc_eq numeral_eq_Suc)
  qed
qed

lemma octet_in_take: "octet_in lo hi s i \<Longrightarrow> i < m \<Longrightarrow> m \<le> length s \<Longrightarrow> octet_in lo hi (take m s @ t) i"
  by (simp add: octet_in_def nth_append)

lemma utf8_step_take:
  assumes "utf8_step s = (True, n)" "s \<noteq> []" "n \<le> m" "m \<le> length s"
  shows "utf8_step (take m s @ t) = (True, n)"
proof -
  have p: "0 < m" using assms(1,3) utf8_step_pos [of s] by simp
  then have h: "(take m s @ t) ! 0 = s ! 0" using assms(2,4) by (simp add: nth_append)
  obtain lo hi where l: "utf8_second (octet_of (s ! 0)) = (lo, hi)" by fastforce
  have "utf8_char n (take m s @ t)"
    using assms(1) octet_in_take [OF _ _ assms(4)] assms(3)
    unfolding utf8_step_iff utf8_char_def h Let_def l prod.case by auto
  then show ?thesis by (simp add: utf8_step_iff)
qed

lemma valid_utf8_Nil [simp]: "valid_utf8 []"
  by (simp add: valid_utf8.simps)

lemma valid_utf8_step:
  "utf8_step s = (True, n) \<Longrightarrow> s \<noteq> [] \<Longrightarrow> valid_utf8 s \<longleftrightarrow> valid_utf8 (drop n s)"
  by (simp add: valid_utf8.simps [of s])

lemma valid_utf8D: "valid_utf8 s \<Longrightarrow> s \<noteq> [] \<Longrightarrow> \<exists>n. utf8_step s = (True, n) \<and> valid_utf8 (drop n s)"
  by (auto simp: valid_utf8.simps [of s] split: prod.splits if_splits)

lemma valid_utf8_append: "valid_utf8 s \<Longrightarrow> valid_utf8 t \<Longrightarrow> valid_utf8 (s @ t)"
proof (induction "length s" arbitrary: s rule: less_induct)
  case less
  show ?case
  proof (cases "s = []")
    case False
    then obtain n where n: "utf8_step s = (True, n)" "valid_utf8 (drop n s)"
      using valid_utf8D less.prems by blast
    have len: "n \<le> length s" "0 < n" using utf8_step_ok [OF n(1) False] utf8_step_pos [of s] n(1) by auto
    have "utf8_step (s @ t) = (True, n)" using utf8_step_take [OF n(1) False len(1) order_refl] by simp
    moreover have "valid_utf8 (drop n s @ t)" using less n len by simp
    ultimately show ?thesis using valid_utf8_step [of "s @ t" n] False len by simp
  qed (use less in simp)
qed

text \<open>A cut before an octet that is not a continuation leaves two well-formed parts.\<close>

lemma valid_utf8_cut:
  "valid_utf8 (s @ c # t) \<Longrightarrow> \<not> is_cont c \<Longrightarrow> valid_utf8 s \<and> valid_utf8 (c # t)"
proof (induction "length s" arbitrary: s rule: less_induct)
  case less
  show ?case
  proof (cases "s = []")
    case False
    then obtain n where n: "utf8_step (s @ c # t) = (True, n)" "valid_utf8 (drop n (s @ c # t))"
      using valid_utf8D less.prems by blast
    have pos: "0 < n" using utf8_step_pos [of "s @ c # t"] n(1) by simp
    have len: "n \<le> length s"
    proof (rule ccontr)
      assume "\<not> n \<le> length s"
      with utf8_step_ok [OF n(1)] False have "is_cont ((s @ c # t) ! length s)" by auto
      with less.prems(2) show False by simp
    qed
    have st: "utf8_step s = (True, n)"
      using utf8_step_take [OF n(1) _ len, of "[]"] by simp
    have "valid_utf8 (drop n s) \<and> valid_utf8 (c # t)"
      using less.hyps [of "drop n s"] n(2) len pos False less.prems(2) by simp
    with st False show ?thesis by (simp add: valid_utf8_step)
  qed (use less in simp)
qed

lemma valid_utf8_ascii: "octet_of c < 0x80 \<Longrightarrow> valid_utf8 (c # s) \<longleftrightarrow> valid_utf8 s"
  using valid_utf8_step [of "c # s" 1] by (simp add: utf8_step_def Let_def split: prod.splits)

lemma valid_utf8_all_ascii: "\<forall>c \<in> set s. octet_of c < 0x80 \<Longrightarrow> valid_utf8 s"
  by (induction s) (simp_all add: valid_utf8_ascii)

lemma valid_utf8_split_ascii:
  assumes "octet_of c < 0x80"
  shows "valid_utf8 (s @ c # t) \<longleftrightarrow> valid_utf8 s \<and> valid_utf8 t"
  using assms valid_utf8_cut [of s c t] valid_utf8_append [of s "c # t"] valid_utf8_ascii [OF assms]
  by (auto simp: is_cont_def)

lemma valid_replacement: "valid_utf8 replacement"
  by (simp add: replacement_def valid_utf8.simps [of "[_, _, _]"] utf8_step_def utf8_second_def
      octet_of_def octet_in_def Let_def)

lemma from_utf8_lossy_valid: "valid_utf8 (from_utf8_lossy s)"
proof (induction s rule: from_utf8_lossy.induct)
  case (1 s)
  show ?case
  proof (cases "s = []")
    case False
    obtain ok n where n: "utf8_step s = (ok, n)" by fastforce
    have IH: "valid_utf8 (from_utf8_lossy (drop n s))" using 1 False n by simp
    have "valid_utf8 (if ok then take n s else replacement)"
    proof (cases ok)
      case True
      have len: "n \<le> length s" "0 < n" using utf8_step_ok [of s n] utf8_step_pos [of s] n True False by auto
      have "utf8_step (take n s) = (True, n)"
        using utf8_step_take [of s n n "[]"] n True False len by simp
      then show ?thesis using valid_utf8_step [of "take n s" n] True False len by simp
    qed (simp add: valid_replacement)
    with IH n False show ?thesis
      by (subst from_utf8_lossy.simps) (simp add: valid_utf8_append)
  qed (simp add: from_utf8_lossy.simps)
qed

lemma from_utf8_lossy_id: "valid_utf8 s \<Longrightarrow> from_utf8_lossy s = s"
proof (induction s rule: from_utf8_lossy.induct)
  case (1 s)
  show ?case
  proof (cases "s = []")
    case False
    then obtain n where n: "utf8_step s = (True, n)" "valid_utf8 (drop n s)" using 1 valid_utf8D by blast
    with 1 False show ?thesis by (subst from_utf8_lossy.simps) simp
  qed (simp add: from_utf8_lossy.simps)
qed

lemma ws_at_step: "ws_at s \<noteq> 0 \<Longrightarrow> utf8_step s = (True, ws_at s)"
proof -
  assume w: "ws_at s \<noteq> 0"
  then consider a r where "s = a # r" "ws1 (octet_of a)" "ws_at s = 1"
    | a b r where "s = a # b # r" "ws2 (octet_of a) (octet_of b)" "ws_at s = 2"
    | a b c r where "s = a # b # c # r" "ws3 (octet_of a) (octet_of b) (octet_of c)" "ws_at s = 3"
    by (auto simp: ws_at_def split: list.splits if_splits)
  then show ?thesis
  proof cases
    case 1
    then have "octet_of a < 0x80" by (auto simp: ws1_def)
    with 1 show ?thesis by (simp add: utf8_step_iff utf8_char_def split: prod.splits)
  next
    case 2
    then show ?thesis by (auto simp: utf8_step_iff utf8_char_def utf8_second_def octet_in_def ws2_def)
  next
    case 3
    then have "octet_of a \<in> {0xE1, 0xE2, 0xE3}" "0x80 \<le> octet_of b" "octet_of b \<le> 0xBF"
      "0x80 \<le> octet_of c" "octet_of c \<le> 0xBF"
      by (auto simp: ws3_def)
    with 3 show ?thesis by (auto simp: utf8_step_iff utf8_char_def utf8_second_def octet_in_def)
  qed
qed

lemma ws_at_le: "ws_at s \<le> length s"
  by (auto simp: ws_at_def split: list.splits)

lemma valid_utf8_trim_start: "valid_utf8 s \<Longrightarrow> valid_utf8 (trim_start s)"
proof (induction s rule: trim_start.induct)
  case (1 s)
  show ?case
  proof (cases "ws_at s = 0")
    case False
    then have "s \<noteq> []" by (auto simp: ws_at_def)
    with False 1 show ?thesis
      using valid_utf8_step [OF ws_at_step] by (simp add: trim_start.simps [of s])
  qed (use 1 in \<open>simp add: trim_start_id\<close>)
qed

lemma ws_end_cut: "ws_end s \<noteq> 0 \<Longrightarrow> \<exists>c t. s = take (length s - ws_end s) s @ c # t \<and> \<not> is_cont c"
proof -
  assume w: "ws_end s \<noteq> 0"
  then consider c r where "rev s = c # r" "ws1 (octet_of c)" "ws_end s = 1"
    | c b r where "rev s = c # b # r" "ws2 (octet_of b) (octet_of c)" "ws_end s = 2"
    | c b a r where "rev s = c # b # a # r" "ws3 (octet_of a) (octet_of b) (octet_of c)" "ws_end s = 3"
    by (auto simp: ws_end_def split: list.splits if_splits)
  then show ?thesis
  proof cases
    case 1
    then have "s = rev r @ [c]" by (simp add: rev_swap)
    with 1 show ?thesis by (auto simp: is_cont_def ws1_def)
  next
    case 2
    then have "s = rev r @ [b, c]" by (simp add: rev_swap)
    with 2 show ?thesis by (auto simp: is_cont_def ws2_def)
  next
    case 3
    then have "s = rev r @ [a, b, c]" by (simp add: rev_swap)
    with 3 show ?thesis by (auto simp: is_cont_def ws3_def)
  qed
qed

lemma valid_utf8_trim_end: "valid_utf8 s \<Longrightarrow> valid_utf8 (trim_end s)"
proof (induction s rule: trim_end.induct)
  case (1 s)
  show ?case
  proof (cases "ws_end s = 0")
    case False
    then obtain c t where "s = take (length s - ws_end s) s @ c # t" "\<not> is_cont c"
      using ws_end_cut by blast
    then have "valid_utf8 (take (length s - ws_end s) s)"
      using valid_utf8_cut 1(2) by metis
    with False 1 show ?thesis by (simp add: trim_end.simps [of s])
  qed (use 1 in \<open>simp add: trim_end_id\<close>)
qed

lemma valid_utf8_trim: "valid_utf8 s \<Longrightarrow> valid_utf8 (trim s)"
  by (simp add: trim_def valid_utf8_trim_start valid_utf8_trim_end)

lemma valid_utf8_split_once:
  assumes "split_once d s = Some (a, b)" "octet_of d < 0x80" "valid_utf8 s"
  shows "valid_utf8 a \<and> valid_utf8 b"
  using assms by (auto simp: split_once_Some valid_utf8_split_ascii)

lemma valid_utf8_lines: "valid_utf8 s \<Longrightarrow> l \<in> set (split_str crlf s) \<Longrightarrow> valid_utf8 l"
proof (induction "length s" arbitrary: s rule: less_induct)
  case less
  show ?case
  proof (cases "no_crlf s")
    case True
    then show ?thesis using less.prems by (simp add: split_crlf_none)
  next
    case False
    obtain x xs where x: "split_str crlf s = x # xs"
      using split_str_ne [of crlf s] by (cases "split_str crlf s") auto
    have xn: "no_crlf x" using split_crlf_lines x by (metis list.set_intros(1))
    have "xs \<noteq> []" using False split_str_join [of crlf s] x xn by auto
    then have s: "s = x @ CR # LF # join crlf xs"
      using split_str_join [of crlf s] unfolding x by (cases xs) auto
    have v: "valid_utf8 x" "valid_utf8 (join crlf xs)"
      using less.prems(1) by (subst (asm) s, simp add: valid_utf8_split_ascii valid_utf8_ascii octet_of_def)+
    have "split_str crlf s = x # split_str crlf (join crlf xs)"
      by (subst s) (rule split_crlf_append [OF xn])
    then have xs: "xs = split_str crlf (join crlf xs)" using x by simp
    have "length (join crlf xs) < length s" by (subst s) simp
    from less.hyps [OF this v(2)] less.prems(2) v(1) x xs show ?thesis by auto
  qed
qed

section \<open>What case folding keeps\<close>

lemma octet_in_lower: "0x80 \<le> lo \<Longrightarrow> octet_in lo hi (lower s) i \<longleftrightarrow> octet_in lo hi s i"
  by (auto simp: octet_in_def lower_nth octet_of_ascii_lower split: if_splits)

lemma utf8_step_lower: "s \<noteq> [] \<Longrightarrow> utf8_step (lower s) = utf8_step s"
proof -
  assume "s \<noteq> []"
  then have h: "lower s ! 0 = ascii_lower (s ! 0)" by (simp add: lower_nth)
  show ?thesis
  proof (cases "octet_of (s ! 0) < 0x80")
    case True
    then show ?thesis by (auto simp: utf8_step_def h octet_of_ascii_lower Let_def split: prod.splits)
  next
    case False
    then have o: "octet_of (ascii_lower (s ! 0)) = octet_of (s ! 0)" by (simp add: octet_of_ascii_lower)
    obtain lo hi where l: "utf8_second (octet_of (s ! 0)) = (lo, hi)" by fastforce
    have "octet_in lo hi (lower s) 1 \<longleftrightarrow> octet_in lo hi s 1"
      using octet_in_lower utf8_second_cont [OF l] by blast
    then show ?thesis unfolding utf8_step_def h o Let_def l by (simp add: octet_in_lower)
  qed
qed

lemma valid_utf8_lower [simp]: "valid_utf8 (lower s) \<longleftrightarrow> valid_utf8 s"
proof (induction "length s" arbitrary: s rule: less_induct)
  case less
  show ?case
  proof (cases "s = []")
    case False
    obtain ok n where n: "utf8_step s = (ok, n)" by fastforce
    then have "length (drop n s) < length s" using utf8_step_decr False by metis
    then have "valid_utf8 (lower (drop n s)) \<longleftrightarrow> valid_utf8 (drop n s)" using less by blast
    moreover have "lower s \<noteq> []" using False by (metis length_0_conv lower_simps(4))
    ultimately show ?thesis
      using False n utf8_step_lower [OF False]
      by (simp add: valid_utf8.simps [of s] valid_utf8.simps [of "lower s"] lower_take_drop)
  qed simp
qed

lemma no_crlf_lower [simp]: "no_crlf (lower s) \<longleftrightarrow> no_crlf s"
  unfolding lower_def by (rule no_crlf_map) (simp_all add: ascii_lower_eq_iff octet_of_def)

lemma set_lower_iff: "octet_of d < 65 \<or> 122 < octet_of d \<Longrightarrow> d \<in> set (lower s) \<longleftrightarrow> d \<in> set s"
  by (auto simp: lower_def image_iff) (metis ascii_lower_eq_iff)+

text \<open>Strings that differ in case only agree on all of this.\<close>

lemma same_lower:
  assumes "lower s = lower t"
  shows "valid_utf8 s \<longleftrightarrow> valid_utf8 t" "no_crlf s \<longleftrightarrow> no_crlf t" "lower (trim s) = lower (trim t)"
    "octet_of d < 65 \<or> 122 < octet_of d \<Longrightarrow> d \<in> set s \<longleftrightarrow> d \<in> set t" "ws_at s = ws_at t"
proof -
  show "valid_utf8 s \<longleftrightarrow> valid_utf8 t" using assms valid_utf8_lower by metis
  show "no_crlf s \<longleftrightarrow> no_crlf t" using assms no_crlf_lower by metis
  show "lower (trim s) = lower (trim t)" using assms trim_lower by metis
  show "octet_of d < 65 \<or> 122 < octet_of d \<Longrightarrow> d \<in> set s \<longleftrightarrow> d \<in> set t" using assms set_lower_iff by metis
  show "ws_at s = ws_at t" using assms ws_at_lower by metis
qed

lemma split_char_parts: "p \<in> set (split_char d s) \<Longrightarrow> d \<notin> set p"
proof (induction s arbitrary: p)
  case (Cons c s)
  then show ?case by (cases "split_char d s") (auto split: if_splits)
qed simp

section \<open>Graphic characters\<close>

definition graphic :: "char \<Rightarrow> bool" where
  "graphic c \<longleftrightarrow> 33 \<le> octet_of c \<and> octet_of c \<le> 126"

lemma graphic_no_ws: "graphic c \<Longrightarrow> \<not> ws1 (octet_of c) \<and> \<not> ws2 (octet_of c) b \<and> \<not> ws3 (octet_of c) b d
   \<and> \<not> ws2 b (octet_of c) \<and> \<not> ws3 b d (octet_of c)"
  by (auto simp: graphic_def ws1_def ws2_def ws3_def)

lemma trim_graphic: "list_all graphic s \<Longrightarrow> trim s = s"
proof -
  assume g: "list_all graphic s"
  then have "ws_at s = 0" by (auto simp: ws_at_def graphic_no_ws split: list.splits)
  moreover have "list_all graphic (rev s)" using g by simp
  then have "ws_end s = 0" by (auto simp: ws_end_def graphic_no_ws split: list.splits)
  ultimately show ?thesis by (simp add: trim_def trim_start_id trim_end_id)
qed

lemma ws_at_graphic: "s \<noteq> [] \<Longrightarrow> graphic (hd s) \<Longrightarrow> ws_at s = 0"
  by (auto simp: ws_at_def graphic_no_ws split: list.splits)

lemma ws_end_graphic: "s \<noteq> [] \<Longrightarrow> graphic (List.last s) \<Longrightarrow> ws_end s = 0"
  by (cases s rule: rev_cases) (auto simp: ws_end_def graphic_no_ws split: list.splits)

lemma trim_ends: "s \<noteq> [] \<Longrightarrow> graphic (hd s) \<Longrightarrow> graphic (List.last s) \<Longrightarrow> trim s = s"
  by (simp add: trim_def trim_start_id trim_end_id ws_at_graphic ws_end_graphic)

lemma digit_graphic: "is_digit c \<Longrightarrow> graphic c"
  by (simp add: is_digit_def graphic_def)

lemma dec_graphic: "list_all graphic (dec n)"
  using dec_digits [of n] digit_graphic by (auto simp: list_all_iff)

lemma graphic_no_crlf: "list_all graphic s \<Longrightarrow> no_crlf s"
  by (intro no_CR_no_crlf) (auto simp: list_all_iff graphic_def octet_of_def)

lemma graphic_valid_utf8: "list_all graphic s \<Longrightarrow> valid_utf8 s"
  by (intro valid_utf8_all_ascii) (auto simp: list_all_iff graphic_def)

lemma graphic_first: "graphic c \<Longrightarrow> first_char (c # s) = Some [c]"
  by (simp add: first_char_def utf8_step_def Let_def graphic_def split: prod.splits)

section \<open>Words\<close>

text \<open>A word is not empty and has no white space; what \<^const>\<open>split_whitespace\<close> returns are words.\<close>

definition is_word :: "string \<Rightarrow> bool" where
  "is_word w \<longleftrightarrow> w \<noteq> [] \<and> take_word w = w"

lemma octet_blank: "octet_of SP = 32" "octet_of LF = 10" "octet_of CR = 13"
  by (simp_all add: octet_of_def)

lemma ws_at_append_SP: "s \<noteq> [] \<Longrightarrow> ws_at s = 0 \<Longrightarrow> ws_at (s @ SP # t) = 0"
  by (cases s rule: remdups_adj.cases; cases "tl (tl s)"; cases t)
    (simp_all add: ws_at_def ws1_def octet_blank ws2_def ws3_def split: if_splits list.splits)

lemma ws_at_prefix: "ws_at (s @ t) = 0 \<Longrightarrow> ws_at s = 0"
  by (cases s rule: remdups_adj.cases; cases "tl (tl s)"; cases t)
    (simp_all add: ws_at_def split: if_splits list.splits)

lemma take_word_append_SP: "take_word w = w \<Longrightarrow> take_word (w @ SP # t) = w"
proof (induction w)
  case Nil
  then show ?case by (simp add: ws_at_def ws1_def octet_blank)
next
  case (Cons c w)
  then have "ws_at (c # w) = 0" "take_word w = w" by (auto split: if_splits)
  with Cons.IH ws_at_append_SP [of "c # w" t] show ?case by simp
qed

lemma take_word_prefix: "\<exists>r. s = take_word s @ r"
  by (induction s) auto

lemma take_word_idem: "take_word (take_word s) = take_word s"
proof (induction s)
  case (Cons c s)
  obtain r where "s = take_word s @ r" using take_word_prefix by blast
  then have "ws_at (c # s) = 0 \<Longrightarrow> ws_at (c # take_word s) = 0" using ws_at_prefix [of "c # take_word s" r] by simp
  with Cons show ?case by simp
qed simp

lemma split_whitespace_words: "w \<in> set (split_whitespace s) \<Longrightarrow> is_word w"
proof (induction s rule: split_whitespace.induct)
  case (1 s)
  show ?case
  proof (cases "take_word (trim_start s) = []")
    case True
    then show ?thesis using 1(2) by (subst (asm) split_whitespace.simps) (simp add: Let_def)
  next
    case False
    then show ?thesis using 1(1) [OF refl refl False] 1(2) take_word_idem
      by (subst (asm) split_whitespace.simps) (auto simp: Let_def is_word_def)
  qed
qed

lemma word_start: "is_word w \<Longrightarrow> ws_at (w @ SP # t) = 0 \<and> ws_at w = 0"
proof -
  assume "is_word w"
  then have "w \<noteq> []" "ws_at w = 0" by (cases w; auto simp: is_word_def split: if_splits)+
  then show ?thesis using ws_at_append_SP by blast
qed

lemma split_whitespace_SP: "split_whitespace (SP # s) = split_whitespace s"
proof -
  have "trim_start (SP # s) = trim_start s" by (subst trim_start.simps) (simp add: ws_at_def ws1_def octet_blank)
  then show ?thesis by (simp add: split_whitespace.simps [of "SP # s"] split_whitespace.simps [of s])
qed

lemma split_whitespace_join: "list_all is_word ws \<Longrightarrow> split_whitespace (join [SP] ws) = ws"
proof (induction ws)
  case Nil
  show ?case by (simp add: split_whitespace.simps trim_start_id ws_at_def)
next
  case (Cons w ws)
  then have w: "is_word w" "w \<noteq> []" "take_word w = w" by (simp_all add: is_word_def)
  show ?case
  proof (cases ws)
    case Nil
    then show ?thesis using w word_start [OF w(1)]
      by (simp add: split_whitespace.simps [of w] split_whitespace.simps [of "[]"] trim_start_id ws_at_def Let_def)
  next
    case (Cons v vs)
    let ?t = "join [SP] (v # vs)"
    have "split_whitespace (w @ SP # ?t) = w # split_whitespace (SP # ?t)"
      using w word_start [OF w(1), of ?t] take_word_append_SP [OF w(3), of ?t]
      by (simp add: split_whitespace.simps [of "w @ SP # ?t"] trim_start_id Let_def)
    then show ?thesis using Cons.IH Cons.prems Cons by (simp add: split_whitespace_SP)
  qed
qed

lemma graphic_word: "list_all graphic w \<Longrightarrow> w \<noteq> [] \<Longrightarrow> is_word w"
proof -
  assume "list_all graphic w" "w \<noteq> []"
  moreover from this(1) have "take_word w = w"
    by (induction w) (auto simp: ws_at_graphic)
  ultimately show ?thesis by (simp add: is_word_def)
qed

lemma word_no_LF: "is_word w \<Longrightarrow> LF \<notin> set w \<and> CR \<notin> set w"
proof -
  have "take_word w = w \<Longrightarrow> LF \<notin> set w \<and> CR \<notin> set w" for w
  proof (induction w)
    case (Cons c w)
    then have "ws_at (c # w) = 0" by (simp split: if_splits)
    then have "\<not> ws1 (octet_of c)" by (simp add: ws_at_def split: if_splits)
    then have "c \<noteq> LF \<and> c \<noteq> CR" by (auto simp: ws1_def octet_blank)
    with Cons show ?case by (simp split: if_splits)
  qed simp
  then show "is_word w \<Longrightarrow> ?thesis" by (simp add: is_word_def)
qed

end
