(* ===== verification/Sip_Message.thy ===== *)
theory Sip_Message
  imports Rust_Str
begin

text \<open>
  The SIP message layer of \<^verbatim>\<open>src/src/sip/message.rs\<close>: methods, the header table,
  requests and responses with their serialisers, the classifying parser, the
  skeleton extracted from a malformed request, and SIP URIs. Datagrams and
  strings are lists of octets; integers that are read from the wire are natural
  numbers below the bound of their Rust type. The facts: parsing what a
  serialiser wrote gives the message back with one Content-Length field that
  states the length of the body, also for every message that was itself parsed;
  the body a parse returns is the part of the datagram the header fields
  announce; the parser's errors are classified exactly.
\<close>

section \<open>Methods\<close>

datatype sip_method =
    Register
  | Invite
  | Ack
  | Bye
  | Cancel
  | Options
  | Info
  | Notify
  | Subscribe
  | Prack
  | Publish
  | Update
  | Message
  | Refer
  | Other string

fun method_as_str :: "sip_method \<Rightarrow> string" where
  "method_as_str Register = ''REGISTER''"
| "method_as_str Invite = ''INVITE''"
| "method_as_str Ack = ''ACK''"
| "method_as_str Bye = ''BYE''"
| "method_as_str Cancel = ''CANCEL''"
| "method_as_str Options = ''OPTIONS''"
| "method_as_str Info = ''INFO''"
| "method_as_str Notify = ''NOTIFY''"
| "method_as_str Subscribe = ''SUBSCRIBE''"
| "method_as_str Prack = ''PRACK''"
| "method_as_str Publish = ''PUBLISH''"
| "method_as_str Update = ''UPDATE''"
| "method_as_str Message = ''MESSAGE''"
| "method_as_str Refer = ''REFER''"
| "method_as_str (Other s) = s"

text \<open>Only the empty token is refused.\<close>

definition method_from_str :: "string \<Rightarrow> sip_method option" where
  "method_from_str s =
     (if s = [] then None
      else if s = ''REGISTER'' then Some Register
      else if s = ''INVITE'' then Some Invite
      else if s = ''ACK'' then Some Ack
      else if s = ''BYE'' then Some Bye
      else if s = ''CANCEL'' then Some Cancel
      else if s = ''OPTIONS'' then Some Options
      else if s = ''INFO'' then Some Info
      else if s = ''NOTIFY'' then Some Notify
      else if s = ''SUBSCRIBE'' then Some Subscribe
      else if s = ''PRACK'' then Some Prack
      else if s = ''PUBLISH'' then Some Publish
      else if s = ''UPDATE'' then Some Update
      else if s = ''MESSAGE'' then Some Message
      else if s = ''REFER'' then Some Refer
      else Some (Other s))"

section \<open>Header names\<close>

definition compact_forms :: "(string \<times> string) list" where
  "compact_forms =
     [(''i'', ''call-id''),
      (''m'', ''contact''),
      (''f'', ''from''),
      (''t'', ''to''),
      (''v'', ''via''),
      (''c'', ''content-type''),
      (''l'', ''content-length''),
      (''e'', ''content-encoding''),
      (''s'', ''subject''),
      (''k'', ''supported''),
      (''b'', ''referred-by''),
      (''o'', ''event''),
      (''r'', ''refer-to''),
      (''u'', ''allow-events''),
      (''x'', ''session-expires'')]"

definition normalize_header_name :: "string \<Rightarrow> string" where
  "normalize_header_name name =
     (let lc = lower (trim name)
      in case map_of compact_forms lc of Some long \<Rightarrow> long | None \<Rightarrow> lc)"

definition known_names :: "(string \<times> string) list" where
  "known_names =
     [(''via'', ''Via''),
      (''from'', ''From''),
      (''to'', ''To''),
      (''call-id'', ''Call-ID''),
      (''cseq'', ''CSeq''),
      (''contact'', ''Contact''),
      (''content-type'', ''Content-Type''),
      (''content-length'', ''Content-Length''),
      (''content-encoding'', ''Content-Encoding''),
      (''max-forwards'', ''Max-Forwards''),
      (''authorization'', ''Authorization''),
      (''www-authenticate'', ''WWW-Authenticate''),
      (''proxy-authenticate'', ''Proxy-Authenticate''),
      (''proxy-authorization'', ''Proxy-Authorization''),
      (''expires'', ''Expires''),
      (''allow'', ''Allow''),
      (''allow-events'', ''Allow-Events''),
      (''supported'', ''Supported''),
      (''require'', ''Require''),
      (''session-expires'', ''Session-Expires''),
      (''min-se'', ''Min-SE''),
      (''p-preferred-identity'', ''P-Preferred-Identity''),
      (''p-asserted-identity'', ''P-Asserted-Identity''),
      (''user-agent'', ''User-Agent''),
      (''subject'', ''Subject''),
      (''event'', ''Event''),
      (''refer-to'', ''Refer-To''),
      (''referred-by'', ''Referred-By''),
      (''rseq'', ''RSeq''),
      (''rack'', ''RAck''),
      (''record-route'', ''Record-Route''),
      (''route'', ''Route'')]"

fun capitalise :: "string \<Rightarrow> string" where
  "capitalise [] = []"
| "capitalise (c # s) = ascii_upper c # s"

definition title_case_dashed :: "string \<Rightarrow> string" where
  "title_case_dashed s = join ''-'' (map capitalise (split_char CHR ''-'' s))"

definition canonical_header_name :: "string \<Rightarrow> string" where
  "canonical_header_name lc =
     (case map_of known_names lc of Some name \<Rightarrow> name | None \<Rightarrow> title_case_dashed lc)"

section \<open>The header table\<close>

type_synonym sip_headers = "(string \<times> string) list"

fun set_first :: "string \<Rightarrow> string \<Rightarrow> sip_headers \<Rightarrow> sip_headers" where
  "set_first key v [] = [(key, v)]"
| "set_first key v ((k, w) # hs) = (if k = key then (k, v) # hs else (k, w) # set_first key v hs)"

definition hdr_set :: "string \<Rightarrow> string \<Rightarrow> sip_headers \<Rightarrow> sip_headers" where
  "hdr_set name v hs = set_first (normalize_header_name name) v hs"

definition hdr_add :: "string \<Rightarrow> string \<Rightarrow> sip_headers \<Rightarrow> sip_headers" where
  "hdr_add name v hs = hs @ [(normalize_header_name name, v)]"

definition hdr_get :: "sip_headers \<Rightarrow> string \<Rightarrow> string option" where
  "hdr_get hs name = map_option snd (find (\<lambda>(k, _). k = normalize_header_name name) hs)"

definition hdr_get_all :: "sip_headers \<Rightarrow> string \<Rightarrow> string list" where
  "hdr_get_all hs name = map snd (filter (\<lambda>(k, _). k = normalize_header_name name) hs)"

section \<open>Messages\<close>

record sip_request =
  req_method :: sip_method
  req_uri :: string
  req_headers :: sip_headers
  req_body :: string

record sip_response =
  resp_status :: nat
  resp_reason :: string
  resp_headers :: sip_headers
  resp_body :: string

datatype sip_message = Request sip_request | Response sip_response

definition request_new :: "sip_method \<Rightarrow> string \<Rightarrow> sip_request" where
  "request_new m uri = \<lparr>req_method = m, req_uri = uri, req_headers = [], req_body = []\<rparr>"

text \<open>
  The header lines both serialisers write: a Content-Length in the table is
  left out and one computed from the body is written at the end.
\<close>

definition header_line :: "string \<times> string \<Rightarrow> string" where
  "header_line h = canonical_header_name (fst h) @ '': '' @ snd h"

definition header_block :: "sip_headers \<Rightarrow> string \<Rightarrow> string" where
  "header_block hs body =
     concat (map (\<lambda>h. header_line h @ crlf) (filter (\<lambda>h. fst h \<noteq> ''content-length'') hs))
     @ (if body \<noteq> [] then ''Content-Length: '' @ dec (length body) @ crlf else ''Content-Length: 0'' @ crlf)
     @ crlf"

definition request_to_bytes :: "sip_request \<Rightarrow> string" where
  "request_to_bytes r =
     (method_as_str (req_method r) @ '' '' @ req_uri r @ '' SIP/2.0'' @ crlf)
     @ header_block (req_headers r) (req_body r) @ req_body r"

definition response_to_bytes :: "sip_response \<Rightarrow> string" where
  "response_to_bytes r =
     (''SIP/2.0 '' @ dec (resp_status r) @ '' '' @ resp_reason r @ crlf)
     @ header_block (resp_headers r) (resp_body r) @ resp_body r"

section \<open>The parser\<close>

datatype parse_error =
    Empty
  | NoCrlfCrlf
  | Truncated nat nat
  | DuplicateContentLength nat
  | NonNumericContentLength string
  | MalformedRequestLine string
  | BadStatusCode string
  | UnknownMethod string

fun is_header_recoverable :: "parse_error \<Rightarrow> bool" where
  "is_header_recoverable (Truncated _ _) = True"
| "is_header_recoverable (DuplicateContentLength _) = True"
| "is_header_recoverable (NonNumericContentLength _) = True"
| "is_header_recoverable _ = False"

definition find_subslice :: "string \<Rightarrow> string \<Rightarrow> nat option" where
  "find_subslice haystack needle =
     (if needle = [] \<or> length haystack < length needle then None else find_str needle haystack)"

fun parse_header_lines :: "string list \<Rightarrow> sip_headers \<Rightarrow> sip_headers" where
  "parse_header_lines [] hs = hs"
| "parse_header_lines (l # ls) hs =
     parse_header_lines ls
       (case split_once CHR '':'' l of Some (k, v) \<Rightarrow> hdr_add (trim k) (trim v) hs | None \<Rightarrow> hs)"

definition parse_body :: "sip_headers \<Rightarrow> string \<Rightarrow> parse_error + string" where
  "parse_body hs body_bytes =
     (case hdr_get_all hs ''content-length'' of
        [] \<Rightarrow> Inr body_bytes
      | [raw] \<Rightarrow>
          (case parse_uint 64 raw of
             None \<Rightarrow> Inl (NonNumericContentLength raw)
           | Some n \<Rightarrow>
               if n > length body_bytes then Inl (Truncated n (length body_bytes))
               else Inr (take n body_bytes))
      | cls \<Rightarrow> Inl (DuplicateContentLength (length cls)))"

definition parse_start_line :: "string \<Rightarrow> sip_headers \<Rightarrow> string \<Rightarrow> parse_error + sip_message" where
  "parse_start_line first_line hs body =
     (case strip_prefix ''SIP/2.0 '' first_line of
        Some rest \<Rightarrow>
          (let (code_str, reason) = (case split_once SP rest of Some p \<Rightarrow> p | None \<Rightarrow> (rest, []))
           in case parse_uint 16 code_str of
                None \<Rightarrow> Inl (BadStatusCode code_str)
              | Some code \<Rightarrow>
                  Inr (Response \<lparr>resp_status = code, resp_reason = reason, resp_headers = hs, resp_body = body\<rparr>))
      | None \<Rightarrow>
          (let parts = splitn 3 SP first_line
           in if length parts < 2 then Inl (MalformedRequestLine first_line)
              else (case method_from_str (parts ! 0) of
                      None \<Rightarrow> Inl (UnknownMethod (parts ! 0))
                    | Some m \<Rightarrow>
                        Inr (Request \<lparr>req_method = m, req_uri = parts ! 1, req_headers = hs, req_body = body\<rparr>))))"

definition parse_message_classified :: "string \<Rightarrow> parse_error + sip_message" where
  "parse_message_classified data =
     (if data = [] then Inl Empty
      else (case find_subslice data (crlf @ crlf) of
              None \<Rightarrow> Inl NoCrlfCrlf
            | Some header_end \<Rightarrow>
                (let header_text = from_utf8_lossy (take header_end data);
                     body_bytes = drop (header_end + 4) data
                 in case split_str crlf header_text of
                      [] \<Rightarrow> Inl Empty
                    | first_line # ls \<Rightarrow>
                        (let hs = parse_header_lines ls []
                         in case parse_body hs body_bytes of
                              Inl e \<Rightarrow> Inl e
                            | Inr body \<Rightarrow> parse_start_line first_line hs body))))"

definition parse_message :: "string \<Rightarrow> sip_message option" where
  "parse_message data = res_ok (parse_message_classified data)"

section \<open>The skeleton of a malformed request\<close>

record request_skeleton =
  sk_method :: sip_method
  sk_uri :: string
  sk_headers :: sip_headers

definition essential_headers :: "string list" where
  "essential_headers = [''via'', ''from'', ''to'', ''call-id'', ''cseq'']"

definition extract_request_skeleton_for_400 :: "string \<Rightarrow> request_skeleton option" where
  "extract_request_skeleton_for_400 data =
     (case find_subslice data (crlf @ crlf) of
        None \<Rightarrow> None
      | Some header_end \<Rightarrow>
          (case split_str crlf (from_utf8_lossy (take header_end data)) of
             [] \<Rightarrow> None
           | first_line # ls \<Rightarrow>
               if starts_with ''SIP/2.0 '' first_line then None
               else (let parts = splitn 3 SP first_line
                     in if length parts < 2 then None
                        else (case method_from_str (parts ! 0) of
                                None \<Rightarrow> None
                              | Some m \<Rightarrow>
                                  (let hs = parse_header_lines ls []
                                   in if list_ex (\<lambda>h. hdr_get hs h = None) essential_headers then None
                                      else Some \<lparr>sk_method = m, sk_uri = parts ! 1, sk_headers = hs\<rparr>)))))"

section \<open>SIP URIs\<close>

record sip_uri_parts =
  uri_scheme :: string
  uri_user :: "string option"
  uri_host :: string
  uri_port :: "nat option"
  uri_params :: "(string \<times> string) list"
  uri_headers :: "(string \<times> string) list"

definition uri_has_param :: "sip_uri_parts \<Rightarrow> string \<Rightarrow> bool" where
  "uri_has_param u name = list_ex (\<lambda>(k, _). eq_ignore_case k (lower name)) (uri_params u)"

definition uri_param :: "sip_uri_parts \<Rightarrow> string \<Rightarrow> string option" where
  "uri_param u name = map_option snd (find (\<lambda>(k, _). eq_ignore_case k (lower name)) (uri_params u))"

datatype uri_error =
    EmptyUri
  | MissingScheme string
  | UnclosedIpv6 string
  | BadPort string
  | EmptyHost string

definition parse_kv_list :: "string \<Rightarrow> char \<Rightarrow> (string \<times> string) list" where
  "parse_kv_list s sep =
     map (\<lambda>part. case split_once CHR ''='' part of
                   Some (k, v) \<Rightarrow> (lower (trim k), trim v)
                 | None \<Rightarrow> (lower (trim part), []))
       (filter (\<lambda>p. p \<noteq> []) (split_char sep s))"

definition parse_port :: "string \<Rightarrow> uri_error + nat" where
  "parse_port p = ok_or (BadPort p) (parse_uint 16 p)"

definition parse_hostport :: "string \<Rightarrow> uri_error + string \<times> nat option" where
  "parse_hostport hostport =
     (case strip_prefix ''['' hostport of
        Some stripped \<Rightarrow>
          (case split_once CHR '']'' stripped of
             None \<Rightarrow> Inl (UnclosedIpv6 hostport)
           | Some (host, after) \<Rightarrow>
               (case strip_prefix '':'' after of
                  Some p \<Rightarrow> res_bind (parse_port p) (\<lambda>port. Inr (''['' @ host @ '']'', Some port))
                | None \<Rightarrow> Inr (''['' @ host @ '']'', None)))
      | None \<Rightarrow>
          (case rsplit_once CHR '':'' hostport of
             Some (h, p) \<Rightarrow> res_bind (parse_port p) (\<lambda>port. Inr (h, Some port))
           | None \<Rightarrow> Inr (hostport, None)))"

definition split_opt :: "char \<Rightarrow> string \<Rightarrow> string \<times> string option" where
  "split_opt d s = (case split_once d s of Some (a, b) \<Rightarrow> (a, Some b) | None \<Rightarrow> (s, None))"

definition parse_sip_uri :: "string \<Rightarrow> uri_error + sip_uri_parts" where
  "parse_sip_uri input =
     (let s = trim input
      in if s = [] then Inl EmptyUri
         else (case split_once CHR '':'' s of
                 None \<Rightarrow> Inl (MissingScheme s)
               | Some (scheme, rest0) \<Rightarrow>
                   (let (rest1, headers_part) = split_opt CHR ''?'' rest0;
                        (rest2, params_part) = split_opt CHR '';'' rest1;
                        (user_part, hostport) =
                          (case rsplit_once CHR ''@'' rest2 of Some (u, h) \<Rightarrow> (Some u, h) | None \<Rightarrow> (None, rest2))
                    in res_bind (parse_hostport hostport) (\<lambda>(host, port).
                         if host = [] then Inl (EmptyHost input)
                         else Inr \<lparr>uri_scheme = lower scheme,
                                   uri_user = map_option (\<lambda>u. hd (split_char CHR '':'' u)) user_part,
                                   uri_host = host, uri_port = port,
                                   uri_params = (case params_part of Some p \<Rightarrow> parse_kv_list p CHR '';'' | None \<Rightarrow> []),
                                   uri_headers = (case headers_part of Some h \<Rightarrow> parse_kv_list h CHR ''&'' | None \<Rightarrow> [])\<rparr>))))"

section \<open>Methods and header names: facts\<close>

lemma method_from_str_as_str: "method_from_str s = Some m \<Longrightarrow> method_as_str m = s"
  by (auto simp: method_from_str_def split: if_splits)

lemma method_from_str_None: "method_from_str s = None \<longleftrightarrow> s = []"
  by (auto simp: method_from_str_def)

text \<open>A method the parser can produce: not the catch-all form of a known or empty name.\<close>

definition wf_method :: "sip_method \<Rightarrow> bool" where
  "wf_method m \<longleftrightarrow> method_from_str (method_as_str m) = Some m"

lemma lower_join: "lower (join p xs) = join (lower p) (map lower xs)"
  by (induction p xs rule: join.induct) simp_all

lemma lower_capitalise: "lower (capitalise s) = lower s"
  by (cases s) simp_all

lemma lower_title_case: "lower (title_case_dashed s) = lower s"
proof -
  have "lower (title_case_dashed s) = join (lower ''-'') (map lower (split_char CHR ''-'' s))"
    by (simp add: title_case_dashed_def lower_join lower_capitalise comp_def)
  also have "\<dots> = lower (join ''-'' (split_char CHR ''-'' s))" by (simp only: lower_join)
  finally show ?thesis by (simp add: split_char_join)
qed

lemma lower_known_names: "map_of known_names k = Some n \<Longrightarrow> lower n = lower k"
proof -
  assume "map_of known_names k = Some n"
  then have "(k, n) \<in> set known_names" by (rule map_of_SomeD)
  moreover have "list_all (\<lambda>(k, n). lower n = lower k) known_names"
    by (simp add: known_names_def char_eval)
  ultimately show ?thesis by (auto simp: list_all_iff)
qed

text \<open>The written name differs from the key in case only, so it normalises to the same key.\<close>

lemma lower_canonical: "lower (canonical_header_name k) = lower k"
  by (simp add: canonical_header_name_def lower_title_case lower_known_names split: option.splits)

lemma normalize_same_lower: "lower s = lower t \<Longrightarrow> normalize_header_name s = normalize_header_name t"
  using same_lower(3) [of s t] by (simp add: normalize_header_name_def)

lemma normalize_canonical [simp]: "normalize_header_name (canonical_header_name k) = normalize_header_name k"
  by (rule normalize_same_lower) (rule lower_canonical)

lemma normalize_trim [simp]: "normalize_header_name (trim k) = normalize_header_name k"
  by (simp add: normalize_header_name_def)

lemma normalize_compact:
  "list_all (\<lambda>(c, long). normalize_header_name long = long \<and> trim long = long) compact_forms"
  by (simp add: compact_forms_def normalize_header_name_def trim_def trim_start_id trim_end_id ws_eval
      char_eval)

lemma compact_wf:
  "list_all (\<lambda>(c, long). no_crlf long \<and> CHR '':'' \<notin> set long \<and> valid_utf8 long) compact_forms"
  by (simp add: compact_forms_def no_CR_no_crlf valid_utf8_all_ascii octet_of_def)

lemma normalize_cases:
  "normalize_header_name k = lower (trim k) \<and> map_of compact_forms (lower (trim k)) = None
   \<or> (\<exists>c. (c, normalize_header_name k) \<in> set compact_forms)"
  by (auto simp: normalize_header_name_def Let_def split: option.splits dest: map_of_SomeD)

lemma normalize_idem [simp]: "normalize_header_name (normalize_header_name k) = normalize_header_name k"
  using normalize_cases [of k]
proof (elim disjE conjE exE)
  assume "normalize_header_name k = lower (trim k)" "map_of compact_forms (lower (trim k)) = None"
  then show ?thesis by (simp add: normalize_header_name_def trim_lower)
next
  fix c assume "(c, normalize_header_name k) \<in> set compact_forms"
  with normalize_compact show ?thesis by (auto simp: list_all_iff)
qed

section \<open>Header lines: facts\<close>

text \<open>A header field that survives being written and read: normal name, trimmed value, no line break.\<close>

definition wf_header :: "string \<times> string \<Rightarrow> bool" where
  "wf_header h \<longleftrightarrow>
     normalize_header_name (fst h) = fst h \<and> CHR '':'' \<notin> set (fst h) \<and> trim (snd h) = snd h
     \<and> no_crlf (fst h) \<and> no_crlf (snd h) \<and> valid_utf8 (fst h) \<and> valid_utf8 (snd h)"

text \<open>The header table of a message that has been written and read again.\<close>

definition relay_headers :: "sip_headers \<Rightarrow> string \<Rightarrow> sip_headers" where
  "relay_headers hs body =
     filter (\<lambda>h. fst h \<noteq> ''content-length'') hs @ [(''content-length'', dec (length body))]"

lemma octet_colon [simp]: "octet_of CHR '':'' = 58" "octet_of SP = 32" "octet_of CR = 13" "octet_of LF = 10"
  by (simp_all add: octet_of_def)

lemma canonical_colon: "CHR '':'' \<in> set (canonical_header_name k) \<longleftrightarrow> CHR '':'' \<in> set k"
  by (rule same_lower(4) [OF lower_canonical]) simp

lemma parse_header_line:
  assumes "wf_header h"
  shows "parse_header_lines (header_line h # ls) hs = parse_header_lines ls (hs @ [h])"
proof -
  obtain k v where h: "h = (k, v)" by fastforce
  have "split_once CHR '':'' (canonical_header_name k @ CHR '':'' # SP # v) = Some (canonical_header_name k, SP # v)"
    using assms h canonical_colon by (intro split_once_append) (simp add: wf_header_def)
  with assms h show ?thesis
    by (simp add: header_line_def hdr_add_def wf_header_def)
qed

lemma parse_header_lines_written:
  "list_all wf_header hs' \<Longrightarrow> parse_header_lines (map header_line hs') hs = hs @ hs'"
proof (induction hs' arbitrary: hs)
  case (Cons h hs')
  then show ?case
    using parse_header_line [of h "map header_line hs'" hs] by (simp del: parse_header_lines.simps)
qed simp

lemma header_line_wf:
  assumes "wf_header h"
  shows "no_crlf (header_line h)" "valid_utf8 (header_line h)" "header_line h \<noteq> []"
proof -
  obtain k v where h: "h = (k, v)" by fastforce
  let ?k = "canonical_header_name k"
  have k: "no_crlf ?k" "valid_utf8 ?k"
    using assms h same_lower(1,2) [OF lower_canonical [of k]] by (simp_all add: wf_header_def)
  have v: "no_crlf (CHR '':'' # SP # v)" "valid_utf8 v"
    using assms h by (simp_all add: wf_header_def no_crlf_Cons)
  show "no_crlf (header_line h)"
    using no_crlf_join [OF k(1) v(1)] by (simp add: h header_line_def)
  show "valid_utf8 (header_line h)"
    using k v by (simp add: h header_line_def valid_utf8_split_ascii valid_utf8_ascii)
  show "header_line h \<noteq> []" by (simp add: header_line_def)
qed

lemma map_of_known_content_length: "canonical_header_name ''content-length'' = ''Content-Length''"
  by (simp add: canonical_header_name_def known_names_def)

lemma dec_0 [simp]: "dec 0 = ''0''"
  by (simp add: dec.simps digit_char_def char_eval)

lemma header_block_relay:
  "header_block hs body = concat (map (\<lambda>h. header_line h @ crlf) (relay_headers hs body)) @ crlf"
  by (simp add: header_block_def relay_headers_def header_line_def map_of_known_content_length)

lemma wf_content_length: "wf_header (''content-length'', dec n)"
proof -
  have "normalize_header_name ''content-length'' = ''content-length''"
    using normalize_compact by (simp add: compact_forms_def)
  moreover have "no_crlf (dec n)" using dec_not [of _ n] is_digit_not by (intro no_CR_no_crlf) blast
  moreover have "valid_utf8 (dec n)"
    using dec_not [of _ n] by (intro valid_utf8_all_ascii) (fastforce simp: is_digit_def)
  ultimately show ?thesis
    by (simp add: wf_header_def no_CR_no_crlf valid_utf8_all_ascii octet_of_def)
qed

lemma wf_relay_headers: "list_all wf_header hs \<Longrightarrow> list_all wf_header (relay_headers hs body)"
  by (auto simp: relay_headers_def list_all_iff wf_content_length)

lemma relay_content_length: "hdr_get_all (relay_headers hs body) ''content-length'' = [dec (length body)]"
proof -
  have "normalize_header_name ''content-length'' = ''content-length''"
    using normalize_compact by (simp add: compact_forms_def)
  then show ?thesis
    by (simp add: hdr_get_all_def relay_headers_def filter_eq_Nil_iff split_beta)
qed

section \<open>Finding the end of the header\<close>

lemma find_crlf2_line:
  "no_crlf l \<Longrightarrow> find_str (crlf @ crlf) (l @ CR # LF # r) =
     (if starts_with crlf r then Some (length l)
      else map_option (\<lambda>i. length l + 2 + i) (find_str (crlf @ crlf) r))"
proof (induction l)
  case Nil
  show ?case
    by (auto simp: starts_with_def option.map_comp comp_def numeral_eq_Suc)
next
  case (Cons c l)
  have n: "\<not> starts_with (crlf @ crlf) (c # l @ CR # LF # r)"
    using Cons.prems by (cases l) (auto simp: starts_with_def no_crlf_Cons)
  show ?case
    using Cons n by (auto simp: no_crlf_Cons option.map_comp comp_def)
qed

lemma starts_crlf_line: "no_crlf l \<Longrightarrow> l \<noteq> [] \<Longrightarrow> \<not> starts_with crlf (l @ CR # r)"
  by (cases l; cases "tl l") (auto simp: no_crlf_Cons starts_with_def)

lemma find_header_end:
  assumes "ls \<noteq> []" "\<forall>l \<in> set ls. no_crlf l" "\<forall>l \<in> set (tl ls). l \<noteq> []"
  shows "find_str (crlf @ crlf) (concat (map (\<lambda>l. l @ crlf) ls) @ crlf @ body) = Some (length (join crlf ls))"
  using assms
proof (induction ls rule: list_nonempty_induct)
  case (single l)
  then show ?case using find_crlf2_line [of l "CR # LF # body"] by simp
next
  case (cons l ls)
  obtain l' ls' where ls: "ls = l' # ls'" using cons by (cases ls) auto
  have "\<not> starts_with crlf (concat (map (\<lambda>l. l @ crlf) ls) @ crlf @ body)"
    using cons.prems starts_crlf_line [of l'] by (simp add: ls)
  moreover have "find_str (crlf @ crlf) (concat (map (\<lambda>l. l @ crlf) ls) @ crlf @ body) = Some (length (join crlf ls))"
    using cons ls by simp
  ultimately show ?case
    using cons.prems find_crlf2_line [of l "concat (map (\<lambda>l. l @ crlf) ls) @ crlf @ body"] by (simp add: ls)
qed

lemma lines_join: "ls \<noteq> [] \<Longrightarrow> concat (map (\<lambda>l. l @ crlf) ls) = join crlf ls @ crlf"
  by (induction ls rule: list_nonempty_induct) (auto simp: neq_Nil_conv)

lemma split_join_lines:
  "ls \<noteq> [] \<Longrightarrow> \<forall>l \<in> set ls. no_crlf l \<Longrightarrow> split_str crlf (join crlf ls) = ls"
proof (induction ls rule: list_nonempty_induct)
  case (cons l ls)
  then show ?case using split_crlf_append [of l] by (cases ls) auto
qed (simp add: split_crlf_none)

lemma valid_join_lines: "\<forall>l \<in> set ls. valid_utf8 l \<Longrightarrow> valid_utf8 (join crlf ls)"
  by (induction crlf ls rule: join.induct) (auto simp: valid_utf8_split_ascii valid_utf8_ascii)

text \<open>
  Any text of a start line and header lines, written with a blank line and a
  body after it, is taken apart again at the right place.
\<close>

lemma parse_written:
  assumes l: "no_crlf l" "valid_utf8 l" and hs: "list_all wf_header hs"
    and n: "length body < 2 ^ 64"
  shows "parse_message_classified (l @ crlf @ header_block hs body @ body) =
    parse_start_line l (relay_headers hs body) body"
proof -
  let ?hs = "relay_headers hs body" and ?bytes = "l @ crlf @ header_block hs body @ body"
  define ls where "ls = l # map header_line ?hs"
  have wf: "list_all wf_header ?hs" using hs by (rule wf_relay_headers)
  have ls: "ls \<noteq> []" "\<forall>l \<in> set ls. no_crlf l" "\<forall>l \<in> set (tl ls). l \<noteq> []" "\<forall>l \<in> set ls. valid_utf8 l"
    using l wf header_line_wf by (auto simp: ls_def list_all_iff)
  have b: "?bytes = concat (map (\<lambda>l. l @ crlf) ls) @ crlf @ body"
    by (simp add: ls_def header_block_relay comp_def)
  have b': "?bytes = join crlf ls @ crlf @ crlf @ body"
    unfolding b lines_join [OF ls(1)] by simp
  have "2 \<le> length (concat (map (\<lambda>l. l @ crlf) ls))" using ls(1) by (cases ls) auto
  then have f: "find_subslice ?bytes (crlf @ crlf) = Some (length (join crlf ls))"
    using find_header_end [OF ls(1-3), of body] unfolding b by (simp add: find_subslice_def)
  have t: "from_utf8_lossy (take (length (join crlf ls)) ?bytes) = join crlf ls"
    using valid_join_lines [OF ls(4)] unfolding b' by (simp add: from_utf8_lossy_id)
  have d: "drop (length (join crlf ls) + 4) ?bytes = body" unfolding b' by simp
  have "split_str crlf (join crlf ls) = l # map header_line ?hs"
    using split_join_lines [OF ls(1,2)] by (simp add: ls_def)
  moreover have "parse_header_lines (map header_line ?hs) [] = ?hs"
    using parse_header_lines_written [OF wf, of "[]"] by simp
  moreover have "parse_body ?hs body = Inr body"
    using n by (simp add: parse_body_def relay_content_length)
  moreover have "?bytes \<noteq> []" by simp
  ultimately show ?thesis
    unfolding parse_message_classified_def f option.case Let_def t d by simp
qed

section \<open>Messages that survive\<close>

definition wf_request :: "sip_request \<Rightarrow> bool" where
  "wf_request r \<longleftrightarrow>
     (let m = method_as_str (req_method r)
      in wf_method (req_method r) \<and> m \<noteq> ''SIP/2.0'' \<and> SP \<notin> set m \<and> SP \<notin> set (req_uri r)
         \<and> no_crlf m \<and> no_crlf (req_uri r) \<and> valid_utf8 m \<and> valid_utf8 (req_uri r)
         \<and> list_all wf_header (req_headers r) \<and> length (req_body r) < 2 ^ 64)"

definition wf_response :: "sip_response \<Rightarrow> bool" where
  "wf_response r \<longleftrightarrow>
     resp_status r < 2 ^ 16 \<and> no_crlf (resp_reason r) \<and> valid_utf8 (resp_reason r)
     \<and> list_all wf_header (resp_headers r) \<and> length (resp_body r) < 2 ^ 64"

fun wf_message :: "sip_message \<Rightarrow> bool" where
  "wf_message (Request r) = wf_request r"
| "wf_message (Response r) = wf_response r"

fun message_to_bytes :: "sip_message \<Rightarrow> string" where
  "message_to_bytes (Request r) = request_to_bytes r"
| "message_to_bytes (Response r) = response_to_bytes r"

text \<open>The message with its Content-Length brought in line with the body.\<close>

fun relayed :: "sip_message \<Rightarrow> sip_message" where
  "relayed (Request r) = Request (r\<lparr>req_headers := relay_headers (req_headers r) (req_body r)\<rparr>)"
| "relayed (Response r) = Response (r\<lparr>resp_headers := relay_headers (resp_headers r) (resp_body r)\<rparr>)"

lemma request_line_not_status:
  assumes "SP \<notin> set m" "m \<noteq> ''SIP/2.0''"
  shows "strip_prefix ''SIP/2.0 '' (m @ SP # r) = None"
proof (rule ccontr)
  assume "strip_prefix ''SIP/2.0 '' (m @ SP # r) \<noteq> None"
  then obtain t where "m @ SP # r = ''SIP/2.0'' @ SP # t" by (auto simp: strip_prefix_Some)
  then have "split_once SP (m @ SP # r) = Some (''SIP/2.0'', t)" by (simp add: split_once_Some)
  with assms show False by (simp add: split_once_append)
qed

lemma parse_request_line:
  assumes "wf_method m" "SP \<notin> set (method_as_str m)" "SP \<notin> set uri" "method_as_str m \<noteq> ''SIP/2.0''"
  shows "parse_start_line (method_as_str m @ SP # uri @ '' SIP/2.0'') hs body =
    Inr (Request \<lparr>req_method = m, req_uri = uri, req_headers = hs, req_body = body\<rparr>)"
proof -
  have "splitn 3 SP (method_as_str m @ SP # uri @ SP # ''SIP/2.0'') = [method_as_str m, uri, ''SIP/2.0'']"
    using assms by (simp add: numeral_3_eq_3 split_once_append)
  with assms show ?thesis
    by (simp add: parse_start_line_def request_line_not_status wf_method_def)
qed

lemma parse_status_line:
  assumes "code < 2 ^ 16"
  shows "parse_start_line (''SIP/2.0 '' @ dec code @ SP # reason) hs body =
    Inr (Response \<lparr>resp_status = code, resp_reason = reason, resp_headers = hs, resp_body = body\<rparr>)"
proof -
  have "SP \<notin> set (dec code)" using dec_not is_digit_not by blast
  with assms show ?thesis
    unfolding parse_start_line_def strip_prefix_append option.case
    by (simp add: split_once_append del: power.simps)
qed

lemma dec_ascii: "valid_utf8 (dec n)" "no_crlf (dec n)"
  using wf_content_length [of n] by (simp_all add: wf_header_def)

lemma parse_message_to_bytes:
  assumes "wf_message msg"
  shows "parse_message_classified (message_to_bytes msg) = Inr (relayed msg)"
proof (cases msg)
  case (Request r)
  let ?m = "method_as_str (req_method r)" and ?v = "''SIP/2.0''"
  let ?l = "?m @ SP # req_uri r @ '' SIP/2.0''"
  have w: "wf_request r" using assms Request by simp
  then have l: "no_crlf ?l" "valid_utf8 ?l"
    using no_crlf_join [of "req_uri r" SP ?v] no_crlf_join [of ?m SP "req_uri r @ SP # ?v"]
    by (simp_all add: wf_request_def Let_def no_crlf_Cons no_CR_no_crlf valid_utf8_split_ascii
        valid_utf8_all_ascii octet_of_def)
  have "message_to_bytes msg = ?l @ crlf @ header_block (req_headers r) (req_body r) @ req_body r"
    by (simp add: Request request_to_bytes_def)
  with w Request show ?thesis
    using parse_written [OF l, of "req_headers r" "req_body r"]
      parse_request_line [of "req_method r" "req_uri r"]
    by (simp add: wf_request_def Let_def)
next
  case (Response r)
  let ?l = "''SIP/2.0 '' @ dec (resp_status r) @ SP # resp_reason r"
  have w: "wf_response r" using assms Response by simp
  then have l: "no_crlf ?l" "valid_utf8 ?l"
    using no_crlf_join [of "dec (resp_status r)" SP "resp_reason r"]
      dec_ascii [of "resp_status r"]
    by (simp_all add: wf_response_def no_crlf_Cons valid_utf8_split_ascii valid_utf8_ascii octet_of_def)
  have "message_to_bytes msg = ?l @ crlf @ header_block (resp_headers r) (resp_body r) @ resp_body r"
    by (simp add: Response response_to_bytes_def)
  with w Response show ?thesis
    using parse_written [OF l, of "resp_headers r" "resp_body r"] parse_status_line [of "resp_status r"]
    by (simp add: wf_response_def del: power.simps)
qed

section \<open>Parsed messages survive\<close>

lemma normalize_wf:
  assumes "CHR '':'' \<notin> set k" "no_crlf k" "valid_utf8 k"
  shows "CHR '':'' \<notin> set (normalize_header_name k) \<and> no_crlf (normalize_header_name k)
    \<and> valid_utf8 (normalize_header_name k)"
  using normalize_cases [of k]
proof (elim disjE conjE exE)
  assume n: "normalize_header_name k = lower (trim k)"
  obtain a b where "k = a @ trim k @ b" using trim_infix by blast
  then have "CHR '':'' \<notin> set (trim k)" using assms(1) by (metis Un_iff set_append)
  with assms n show ?thesis by (simp add: set_lower_iff no_crlf_trim valid_utf8_trim)
next
  fix c assume "(c, normalize_header_name k) \<in> set compact_forms"
  with compact_wf show ?thesis by (auto simp: list_all_iff)
qed

lemma parsed_header_wf:
  assumes "split_once CHR '':'' l = Some (k, v)" "no_crlf l" "valid_utf8 l"
  shows "wf_header (normalize_header_name (trim k), trim v)"
proof -
  have l: "l = k @ CHR '':'' # v" "CHR '':'' \<notin> set k" using assms(1) by (simp_all add: split_once_Some)
  have "no_crlf k" "no_crlf v" using assms(2) no_crlf_append [of k "CHR '':'' # v"] l(1) by (auto simp: no_crlf_Cons)
  moreover have "valid_utf8 k" "valid_utf8 v"
    using valid_utf8_split_once [OF assms(1) _ assms(3)] by simp_all
  ultimately show ?thesis
    using normalize_wf [OF l(2)] by (simp add: wf_header_def no_crlf_trim valid_utf8_trim)
qed

lemma parse_header_lines_wf:
  "\<forall>l \<in> set ls. no_crlf l \<and> valid_utf8 l \<Longrightarrow> list_all wf_header hs \<Longrightarrow>
   list_all wf_header (parse_header_lines ls hs)"
proof (induction ls arbitrary: hs)
  case (Cons l ls)
  have "wf_header (normalize_header_name (trim k), trim v)" if "split_once CHR '':'' l = Some (k, v)" for k v
    using parsed_header_wf [OF that] Cons.prems by simp
  with Cons show ?case by (auto simp: hdr_add_def split: option.splits prod.splits)
qed simp

lemma parse_message_ok:
  assumes "parse_message_classified data = Inr msg"
  obtains e first ls body where "find_subslice data (crlf @ crlf) = Some e"
    "split_str crlf (from_utf8_lossy (take e data)) = first # ls"
    "parse_body (parse_header_lines ls []) (drop (e + 4) data) = Inr body"
    "parse_start_line first (parse_header_lines ls []) body = Inr msg"
  using assms
  by (auto simp: parse_message_classified_def Let_def split: if_splits option.splits list.splits sum.splits)

text \<open>The start line and the header lines of a parse are lines of well-formed text.\<close>

lemma header_text_lines:
  assumes "split_str crlf (from_utf8_lossy s) = ls" "l \<in> set ls"
  shows "no_crlf l \<and> valid_utf8 l"
  using assms split_crlf_lines valid_utf8_lines [OF from_utf8_lossy_valid] by blast

lemma splitn_3:
  assumes "\<not> length (splitn 3 SP l) < 2"
  obtains m u where "splitn 3 SP l ! 0 = m" "splitn 3 SP l ! 1 = u" "SP \<notin> set m" "SP \<notin> set u"
    "l = m @ SP # u \<or> (\<exists>t. l = m @ SP # u @ SP # t)"
proof -
  obtain m r where m: "split_once SP l = Some (m, r)"
    using assms by (cases "split_once SP l") (auto simp: numeral_3_eq_3)
  show thesis
  proof (cases "split_once SP r")
    case None
    with m have "splitn 3 SP l = [m, r]" by (simp add: numeral_3_eq_3)
    with None m show thesis using that [of m r] by (auto simp: split_once_Some split_once_None)
  next
    case (Some p)
    obtain u t where p: "p = (u, t)" by fastforce
    with Some m have "splitn 3 SP l = [m, u, t]" by (simp add: numeral_3_eq_3)
    with Some m p show thesis using that [of m u] by (auto simp: split_once_Some)
  qed
qed

lemma no_crlf_split: "no_crlf (a @ c # b) \<Longrightarrow> no_crlf a \<and> no_crlf b"
  using no_crlf_append [of a "c # b"] by (simp add: no_crlf_Cons)

lemma parse_start_line_wf:
  assumes ps: "parse_start_line l hs body = Inr msg" and l: "no_crlf l \<and> valid_utf8 l"
    and hs: "list_all wf_header hs" and n: "length body < 2 ^ 64"
  shows "wf_message msg"
proof (cases "strip_prefix ''SIP/2.0 '' l")
  case (Some rest)
  then have "l = ''SIP/2.0'' @ SP # rest" by (simp add: strip_prefix_Some)
  with l have rest: "no_crlf rest \<and> valid_utf8 rest"
    by (simp add: no_crlf_Cons valid_utf8_ascii octet_of_def)
  have sp: "no_crlf b \<and> valid_utf8 b" if "split_once SP rest = Some (a, b)" for a b
    using that rest no_crlf_split [of a SP b] valid_utf8_split_once [OF that] by (auto simp: split_once_Some)
  show ?thesis
    using ps Some hs n sp
    by (auto simp: parse_start_line_def wf_response_def Let_def dest: parse_uint_bound
        split: option.splits prod.splits)
next
  case None
  then have len: "\<not> length (splitn 3 SP l) < 2"
    using ps by (auto simp: parse_start_line_def Let_def split: if_splits)
  from splitn_3 [OF this] obtain m u where mu: "splitn 3 SP l ! 0 = m" "splitn 3 SP l ! 1 = u"
    "SP \<notin> set m" "SP \<notin> set u" "l = m @ SP # u \<or> (\<exists>t. l = m @ SP # u @ SP # t)" .
  obtain r where r: "l = m @ SP # r" "r = u \<or> (\<exists>t. r = u @ SP # t)" using mu(5) by auto
  have mr: "no_crlf m" "no_crlf r" "valid_utf8 m" "valid_utf8 r"
    using l r(1) no_crlf_split [of m SP r] by (simp_all add: valid_utf8_split_ascii)
  then have w: "no_crlf m" "no_crlf u" "valid_utf8 m" "valid_utf8 u"
    using r(2) no_crlf_split [of u SP] by (auto simp: valid_utf8_split_ascii)
  have "m \<noteq> ''SIP/2.0''" using None mu(5) by (auto simp: strip_prefix_None starts_with_def)
  moreover obtain meth where "method_from_str m = Some meth"
    "msg = Request \<lparr>req_method = meth, req_uri = u, req_headers = hs, req_body = body\<rparr>"
    using ps None len mu(1,2) by (auto simp: parse_start_line_def Let_def split: option.splits)
  ultimately show ?thesis
    using mu w hs n by (simp add: wf_request_def wf_method_def Let_def method_from_str_as_str)
qed

lemma parse_body_framing:
  assumes "parse_body hs rest = Inr body"
  shows "(hdr_get_all hs ''content-length'' = [] \<and> body = rest)
    \<or> (\<exists>v n. hdr_get_all hs ''content-length'' = [v] \<and> parse_uint 64 v = Some n \<and> n \<le> length rest
        \<and> body = take n rest)"
  using assms by (auto simp: parse_body_def split: list.splits option.splits if_splits)

lemma parse_message_wf:
  assumes "parse_message_classified data = Inr msg" "length data < 2 ^ 64"
  shows "wf_message msg"
proof -
  obtain e first ls body where p: "split_str crlf (from_utf8_lossy (take e data)) = first # ls"
    "parse_body (parse_header_lines ls []) (drop (e + 4) data) = Inr body"
    "parse_start_line first (parse_header_lines ls []) body = Inr msg"
    using parse_message_ok [OF assms(1)] by metis
  have w: "no_crlf l \<and> valid_utf8 l" if "l \<in> set (first # ls)" for l
    using header_text_lines [OF p(1)] that by blast
  have "length body \<le> length (drop (e + 4) data)" using parse_body_framing [OF p(2)] by auto
  then have "length body < 2 ^ 64" using assms(2) by (simp del: power.simps)
  moreover have "list_all wf_header (parse_header_lines ls [])" using w by (intro parse_header_lines_wf) auto
  ultimately show ?thesis using parse_start_line_wf [OF p(3)] w by simp
qed

section \<open>The header table as an interface\<close>

text \<open>
  What the rest of the program relies on: names are compared after
  normalisation, \<open>put\<close> replaces the first field of that name or appends one,
  \<open>app\<close> appends, \<open>get\<close> gives the first and \<open>get_all\<close> all in order.
\<close>

locale header_table =
  fixes norm :: "'n \<Rightarrow> 'k"
    and put :: "'n \<Rightarrow> 'v \<Rightarrow> 't \<Rightarrow> 't"
    and app :: "'n \<Rightarrow> 'v \<Rightarrow> 't \<Rightarrow> 't"
    and get :: "'t \<Rightarrow> 'n \<Rightarrow> 'v option"
    and get_all :: "'t \<Rightarrow> 'n \<Rightarrow> 'v list"
  assumes get_hd: "get t n = (case get_all t n of [] \<Rightarrow> None | v # _ \<Rightarrow> Some v)"
    and get_all_app: "get_all (app n v t) m = get_all t m @ (if norm m = norm n then [v] else [])"
    and get_all_put: "get_all (put n v t) m = (if norm m = norm n then v # tl (get_all t m) else get_all t m)"
begin

lemma get_put: "get (put n v t) m = (if norm m = norm n then Some v else get t m)"
  by (simp add: get_hd get_all_put)

lemma get_app: "get (app n v t) m = (case get t m of Some w \<Rightarrow> Some w | None \<Rightarrow> if norm m = norm n then Some v else None)"
  by (simp add: get_hd get_all_app split: list.splits)

lemma get_None_iff: "get t n = None \<longleftrightarrow> get_all t n = []"
  by (simp add: get_hd split: list.splits)

lemma put_put: "get (put n w (put n v t)) = get (put n w t)"
  by (rule ext) (simp add: get_put)

lemma put_keeps_count: "get_all t n \<noteq> [] \<Longrightarrow> length (get_all (put n v t) m) = length (get_all t m)
    \<or> norm m \<noteq> norm n \<or> get_all t m = []"
  by (auto simp: get_all_put)

end

lemma get_all_set_first:
  "map snd (filter (\<lambda>h. fst h = m) (set_first n v hs)) =
     (if m = n then v # tl (map snd (filter (\<lambda>h. fst h = m) hs)) else map snd (filter (\<lambda>h. fst h = m) hs))"
  by (induction n v hs rule: set_first.induct) auto

interpretation hdr: header_table normalize_header_name hdr_set hdr_add hdr_get hdr_get_all
proof
  fix t :: sip_headers and n m v
  show "hdr_get t n = (case hdr_get_all t n of [] \<Rightarrow> None | v # _ \<Rightarrow> Some v)"
    by (auto simp: hdr_get_def hdr_get_all_def find_Some_filter split: list.splits)
  show "hdr_get_all (hdr_add n v t) m =
      hdr_get_all t m @ (if normalize_header_name m = normalize_header_name n then [v] else [])"
    by (auto simp: hdr_get_all_def hdr_add_def)
  show "hdr_get_all (hdr_set n v t) m =
      (if normalize_header_name m = normalize_header_name n then v # tl (hdr_get_all t m) else hdr_get_all t m)"
    unfolding hdr_get_all_def hdr_set_def split_beta by (rule get_all_set_first)
qed

declare hdr.get_put [hdr_simps] hdr.get_app [hdr_simps] hdr.get_all_app [hdr_simps] hdr.get_all_put [hdr_simps]

section \<open>The names the program uses\<close>

lemma normalize_table:
  "list_all (\<lambda>(n, k). normalize_header_name n = k)
     [(''Via'', ''via''), (''via'', ''via''), (''From'', ''from''), (''from'', ''from''), (''To'', ''to''), (''to'', ''to''), (''Call-ID'', ''call-id''), (''call-id'', ''call-id''), (''CSeq'', ''cseq''), (''cseq'', ''cseq''), (''Contact'', ''contact''), (''contact'', ''contact''), (''Route'', ''route''), (''route'', ''route''), (''Record-Route'', ''record-route''), (''record-route'', ''record-route''), (''Max-Forwards'', ''max-forwards''), (''max-forwards'', ''max-forwards''), (''User-Agent'', ''user-agent''), (''Event'', ''event''), (''Subscription-State'', ''subscription-state''), (''Content-Type'', ''content-type''), (''Session-Expires'', ''session-expires''), (''Min-SE'', ''min-se''), (''Supported'', ''supported''), (''Timestamp'', ''timestamp''), (''timestamp'', ''timestamp''), (''Reason'', ''reason''), (''content-length'', ''content-length'')]"
  by (simp add: normalize_header_name_def compact_forms_def trim_def trim_start_id trim_end_id ws_eval char_eval)

lemmas normalize_names [hdr_simps] = normalize_table [simplified list.pred_inject prod.case simp_thms]

section \<open>Skeletons: facts\<close>

lemma extract_skeleton_ok:
  assumes "extract_request_skeleton_for_400 data = Some sk"
  obtains e first ls where "find_subslice data (crlf @ crlf) = Some e"
    "split_str crlf (from_utf8_lossy (take e data)) = first # ls"
    "strip_prefix ''SIP/2.0 '' first = None" "\<not> length (splitn 3 SP first) < 2"
    "method_from_str (splitn 3 SP first ! 0) = Some (sk_method sk)" "splitn 3 SP first ! 1 = sk_uri sk"
    "parse_header_lines ls [] = sk_headers sk" "\<not> list_ex (\<lambda>h. hdr_get (sk_headers sk) h = None) essential_headers"
  using assms
  by (auto simp: extract_request_skeleton_for_400_def Let_def strip_prefix_None
      split: if_splits option.splits list.splits)

lemma parse_body_error: "parse_body hs rest = Inl e \<Longrightarrow> is_header_recoverable e"
  by (auto simp: parse_body_def split: list.splits option.splits if_splits)

section \<open>URIs: facts\<close>

text \<open>The graphic ASCII octets that have no meaning in the syntax of a URI.\<close>

definition uri_octet :: "char \<Rightarrow> bool" where
  "uri_octet c \<longleftrightarrow> 33 \<le> octet_of c \<and> octet_of c \<le> 126 \<and> c \<notin> set '':;?@=&[]''"

definition wf_uri_host :: "string \<Rightarrow> bool" where
  "wf_uri_host h \<longleftrightarrow>
     h \<noteq> [] \<and> list_all uri_octet h
     \<or> (\<exists>a. h = ''['' @ a @ '']'' \<and> list_all (\<lambda>c. uri_octet c \<or> c = CHR '':'') a)"

definition wf_uri_param :: "string \<times> string \<Rightarrow> bool" where
  "wf_uri_param p \<longleftrightarrow> list_all uri_octet (fst p) \<and> lower (fst p) = fst p \<and> list_all uri_octet (snd p)"

definition uri_text :: "string \<Rightarrow> string \<Rightarrow> nat \<Rightarrow> (string \<times> string) list \<Rightarrow> string" where
  "uri_text user host port params =
     ''sip:'' @ user @ ''@'' @ host @ '':'' @ dec port @ concat (map (\<lambda>(k, v). '';'' @ k @ ''='' @ v) params)"

lemma uri_octet_graphic: "uri_octet c \<Longrightarrow> graphic c"
  by (simp add: uri_octet_def graphic_def)

lemma uri_octets: "list_all uri_octet s \<Longrightarrow> list_all graphic s" "list_all uri_octet s \<Longrightarrow> c \<in> set '':;?@=&[]'' \<Longrightarrow> c \<notin> set s"
  by (auto simp: list_all_iff uri_octet_graphic uri_octet_def)

lemma dec_uri_octets: "list_all uri_octet (dec n)"
proof -
  have "uri_octet c" if "is_digit c" for c
    using that by (auto simp: is_digit_def uri_octet_def octet_of_def)
  then show ?thesis using dec_not by (auto simp: list_all_iff)
qed

lemma uri_host_octets:
  "wf_uri_host h \<Longrightarrow> c \<in> set h \<Longrightarrow> graphic c \<and> c \<noteq> CHR ''?'' \<and> c \<noteq> CHR '';'' \<and> c \<noteq> CHR ''@''"
proof -
  have p: "graphic CHR '':''" "graphic CHR ''[''" "graphic CHR '']''" by (simp_all add: graphic_def octet_of_def)
  have u: "uri_octet c \<Longrightarrow> graphic c \<and> c \<noteq> CHR ''?'' \<and> c \<noteq> CHR '';'' \<and> c \<noteq> CHR ''@''" for c
    by (simp add: uri_octet_graphic) (auto simp: uri_octet_def)
  assume "wf_uri_host h" and c: "c \<in> set h"
  then consider "uri_octet c" | "c = CHR '':''" | "c = CHR ''[''" | "c = CHR '']''"
    unfolding wf_uri_host_def list_all_iff by fastforce
  then show ?thesis by cases (use u p in simp_all)
qed

lemma uri_param_octets:
  assumes "list_all wf_uri_param params"
    and "c \<in> set (concat (map (\<lambda>(k, v). '';'' @ k @ ''='' @ v) params))"
  shows "graphic c \<and> c \<noteq> CHR ''?''"
proof -
  have "uri_octet c \<or> c = CHR '';'' \<or> c = CHR ''=''"
    using assms by (fastforce simp: wf_uri_param_def list_all_iff)
  moreover have "graphic CHR '';''" "graphic CHR ''=''" by (simp_all add: graphic_def octet_of_def)
  moreover have "\<not> uri_octet CHR ''?''" by (simp add: uri_octet_def)
  ultimately show ?thesis using uri_octet_graphic by auto
qed

lemma uri_hostport:
  assumes "wf_uri_host h" "p < 2 ^ 16"
  shows "parse_hostport (h @ CHR '':'' # dec p) = Inr (h, Some p)"
proof -
  have port: "parse_port (dec p) = Inr p" using assms(2) by (simp add: parse_port_def del: power.simps)
  have d: "CHR '':'' \<notin> set (dec p)" using uri_octets(2) [OF dec_uri_octets] by simp
  from assms(1) consider "h \<noteq> []" "list_all uri_octet h"
    | a where "h = ''['' @ a @ '']''" "list_all (\<lambda>c. uri_octet c \<or> c = CHR '':'') a"
    by (auto simp: wf_uri_host_def)
  then show ?thesis
  proof cases
    case 1
    have "CHR ''['' \<notin> set h" using uri_octets(2) [OF 1(2)] by simp
    with 1(1) have "hd h \<noteq> CHR ''[''" by (cases h) auto
    then have "strip_prefix ''['' (h @ CHR '':'' # dec p) = None" using 1 by (cases h) (auto simp: strip_prefix_def)
    moreover have "rsplit_once CHR '':'' (h @ CHR '':'' # dec p) = Some (h, dec p)" using d by (simp add: rsplit_once_Some)
    ultimately show ?thesis using port by (simp add: parse_hostport_def)
  next
    case 2
    have "CHR '']'' \<notin> set a" using 2(2) by (auto simp: list_all_iff uri_octet_def)
    then have "split_once CHR '']'' (a @ CHR '']'' # CHR '':'' # dec p) = Some (a, CHR '':'' # dec p)"
      by (rule split_once_append)
    then show ?thesis using port by (simp add: parse_hostport_def 2 strip_prefix_def)
  qed
qed

lemma uri_kv_list:
  "params \<noteq> [] \<Longrightarrow> list_all wf_uri_param params \<Longrightarrow>
   parse_kv_list (tl (concat (map (\<lambda>(k, v). '';'' @ k @ ''='' @ v) params))) CHR '';'' = params"
proof (induction params rule: list_nonempty_induct)
  case (single p)
  obtain k v where p: "p = (k, v)" by fastforce
  have n: "CHR '';'' \<notin> set (k @ CHR ''='' # v)" "CHR ''='' \<notin> set k" "trim k = k" "trim v = v" "lower k = k"
    using single p by (auto simp: wf_uri_param_def uri_octets trim_graphic)
  show ?case
    using n by (simp add: p parse_kv_list_def split_char_none split_once_append)
next
  case (cons p ps)
  obtain k v where p: "p = (k, v)" by fastforce
  have n: "CHR '';'' \<notin> set (k @ CHR ''='' # v)" "CHR ''='' \<notin> set k" "trim k = k" "trim v = v" "lower k = k"
    using cons.prems p by (auto simp: wf_uri_param_def uri_octets trim_graphic)
  let ?c = "concat (map (\<lambda>(k, v). '';'' @ k @ ''='' @ v) ps)"
  have c: "?c = CHR '';'' # tl ?c" using cons.hyps by (cases ps) auto
  have "split_char CHR '';'' ((k @ CHR ''='' # v) @ CHR '';'' # tl ?c) = (k @ CHR ''='' # v) # split_char CHR '';'' (tl ?c)"
    using n(1) by (rule split_char_append)
  then have "split_char CHR '';'' (k @ CHR ''='' # v @ ?c) = (k @ CHR ''='' # v) # split_char CHR '';'' (tl ?c)"
    using c by simp
  then show ?case
    using cons n by (simp add: p parse_kv_list_def split_once_append)
qed

lemma sip_uri_parse_parts:
  assumes "list_all uri_octet user" "wf_uri_host host" "port < 2 ^ 16" "list_all wf_uri_param params"
  shows "parse_sip_uri (uri_text user host port params) =
    Inr \<lparr>uri_scheme = ''sip'', uri_user = Some user, uri_host = host, uri_port = Some port,
         uri_params = params, uri_headers = []\<rparr>"
proof -
  let ?c = "concat (map (\<lambda>(k, v). '';'' @ k @ ''='' @ v) params)"
  let ?hp = "host @ CHR '':'' # dec port"
  let ?r = "user @ CHR ''@'' # ?hp @ ?c"
  have host: "list_all graphic host" "CHR ''?'' \<notin> set host" "CHR '';'' \<notin> set host" "CHR ''@'' \<notin> set host" "host \<noteq> []"
    using uri_host_octets [OF assms(2)] assms(2) by (auto simp: wf_uri_host_def list_all_iff)
  have c: "list_all graphic ?c" "CHR ''?'' \<notin> set ?c"
    using uri_param_octets [OF assms(4)] by (auto simp: list_all_iff)
  note u = uri_octets [OF assms(1)] and d = uri_octets [OF dec_uri_octets [of port]]
  have t: "trim (uri_text user host port params) = ''sip:'' @ ?r"
    using host c u d by (subst trim_graphic) (auto simp: uri_text_def graphic_def octet_of_def)
  have q: "split_opt CHR ''?'' ?r = (?r, None)"
    using host c u d by (simp add: split_opt_def split_once_None [THEN iffD2])
  have p: "split_opt CHR '';'' ?r = (user @ CHR ''@'' # ?hp, if params = [] then None else Some (tl ?c))"
  proof (cases "params = []")
    case True
    then show ?thesis using host u d by (simp add: split_opt_def split_once_None [THEN iffD2])
  next
    case False
    then have "?c = CHR '';'' # tl ?c" by (cases params) auto
    then have "?r = (user @ CHR ''@'' # ?hp) @ CHR '';'' # tl ?c" by simp
    then have "split_once CHR '';'' ?r = Some (user @ CHR ''@'' # ?hp, tl ?c)"
      unfolding split_once_Some using host u d by simp
    then show ?thesis using False by (simp add: split_opt_def)
  qed
  have a: "rsplit_once CHR ''@'' (user @ CHR ''@'' # ?hp) = Some (user, ?hp)"
    using host d by (simp add: rsplit_once_Some)
  have us: "hd (split_char CHR '':'' user) = user" using u(2) by (simp add: split_char_none)
  have ws: "split_once CHR '':'' (''sip:'' @ ?r) = Some (''sip'', ?r)" by (simp add: split_once_Some)
  show ?thesis
    unfolding parse_sip_uri_def t Let_def ws option.case prod.case q p a uri_hostport [OF assms(2,3)] res_bind.simps
    using host(5) us uri_kv_list [OF _ assms(4)] by (simp add: char_eval)
qed

section \<open>Properties\<close>

text \<open>Parsing the bytes of a well-formed request or response gives the message
  back, with exactly one Content-Length field that states the length of the body
  in place of whatever the header table held.\<close>

theorem sip_print_parse:
  assumes "wf_message msg"
  shows "parse_message_classified (message_to_bytes msg) = Inr (relayed msg)"
  using assms by (rule parse_message_to_bytes)

definition options_request :: sip_request where
  "options_request =
     \<lparr>req_method = Options, req_uri = ''sip:ntt'',
      req_headers = [(''via'', ''SIP/2.0/UDP 192.0.2.1''), (''content-length'', ''77''), (''cseq'', ''1 OPTIONS'')],
      req_body = ''hi''\<rparr>"

theorem sip_print_parse_witness:
  "parse_message_classified (message_to_bytes (Request options_request)) =
     Inr (Request (options_request\<lparr>req_headers :=
       [(''via'', ''SIP/2.0/UDP 192.0.2.1''), (''cseq'', ''1 OPTIONS''), (''content-length'', ''2'')]\<rparr>))"
proof -
  have "wf_message (Request options_request)"
    by (simp add: options_request_def wf_request_def wf_method_def method_from_str_def wf_header_def
        normalize_header_name_def compact_forms_def trim_def trim_start_id trim_end_id ws_eval char_eval
        no_CR_no_crlf valid_utf8_all_ascii)
  from sip_print_parse [OF this] show ?thesis
    by (simp add: options_request_def relay_headers_def dec.simps digit_char_def char_eval)
qed

text \<open>C11. A message that was received can be sent on: whatever datagram was parsed,
  serialising the result gives a datagram that parses to the same message, with
  the Content-Length brought in line with the body. No header value, name, URI or
  reason phrase that the parser accepts can break the framing.\<close>

theorem sip_relay_stable:
  assumes "parse_message_classified data = Inr msg" "length data < 2 ^ 64"
  shows "parse_message_classified (message_to_bytes msg) = Inr (relayed msg)"
  using parse_message_to_bytes [OF parse_message_wf [OF assms]] .

definition short_datagram :: string where
  "short_datagram = ''OPTIONS x'' @ crlf @ ''l: 1'' @ crlf @ crlf @ ''ab''"

lemma parse_short_datagram:
  "parse_message_classified short_datagram =
     Inr (Request \<lparr>req_method = Options, req_uri = ''x'', req_headers = [(''content-length'', ''1'')], req_body = ''a''\<rparr>)"
proof -
  have f: "find_subslice short_datagram (crlf @ crlf) = Some 15"
    by (simp add: short_datagram_def find_subslice_def starts_with_def)
  have t: "from_utf8_lossy (take 15 short_datagram) = ''OPTIONS x'' @ CR # LF # ''l: 1''"
    unfolding short_datagram_def by (simp add: from_utf8_lossy_id valid_utf8_ascii octet_of_def)
  have l: "split_str crlf (''OPTIONS x'' @ CR # LF # ''l: 1'') = [''OPTIONS x'', ''l: 1'']"
    by (subst split_crlf_append) (simp_all add: split_crlf_none no_CR_no_crlf)
  have "trim ''l'' = ''l''" "trim ''1'' = ''1''"
    by (simp_all add: trim_def trim_start_id trim_end_id ws_eval)
  then have h: "parse_header_lines [''l: 1''] [] = [(''content-length'', ''1'')]"
    by (simp add: hdr_add_def normalize_header_name_def compact_forms_def char_eval)
  have b: "parse_body [(''content-length'', ''1'')] ''ab'' = Inr ''a''"
    using parse_uint_dec [of 1 64] normalize_compact
    by (simp add: parse_body_def hdr_get_all_def compact_forms_def dec.simps digit_char_def char_eval)
  have d: "drop (15 + 4) short_datagram = ''ab''" by (simp add: short_datagram_def)
  have "short_datagram \<noteq> []" by (simp add: short_datagram_def)
  then show ?thesis
    unfolding parse_message_classified_def f t l d Let_def option.case list.case h b
    by (simp add: parse_start_line_def strip_prefix_def method_from_str_def numeral_3_eq_3)
qed

theorem sip_relay_stable_witness:
  "parse_message_classified (''OPTIONS x SIP/2.0'' @ crlf @ ''Content-Length: 1'' @ crlf @ crlf @ ''a'') =
     Inr (Request \<lparr>req_method = Options, req_uri = ''x'', req_headers = [(''content-length'', ''1'')], req_body = ''a''\<rparr>)"
proof -
  have "length short_datagram < 2 ^ 64" by (simp add: short_datagram_def)
  from sip_relay_stable [OF parse_short_datagram this] show ?thesis
    by (simp add: request_to_bytes_def header_block_def relay_headers_def dec.simps digit_char_def char_eval)
qed

text \<open>C12. The body of a parsed message is framed by the header: it is the whole rest of
  the datagram when no Content-Length field is present, and the announced number
  of octets after the blank line when exactly one is; a message with two such
  fields, a value that is not a number or an announced length beyond the datagram
  is never accepted.\<close>

theorem sip_body_framing:
  assumes "parse_message_classified data = Inr msg"
  shows "\<exists>e. find_subslice data (crlf @ crlf) = Some e \<and>
    (let rest = drop (e + 4) data;
         hs = (case msg of Request r \<Rightarrow> req_headers r | Response r \<Rightarrow> resp_headers r);
         body = (case msg of Request r \<Rightarrow> req_body r | Response r \<Rightarrow> resp_body r)
     in hdr_get_all hs ''content-length'' = [] \<and> body = rest
        \<or> (\<exists>v n. hdr_get_all hs ''content-length'' = [v] \<and> parse_uint 64 v = Some n \<and> n \<le> length rest
             \<and> body = take n rest))"
proof -
  obtain e first ls body where p: "find_subslice data (crlf @ crlf) = Some e"
    "parse_body (parse_header_lines ls []) (drop (e + 4) data) = Inr body"
    "parse_start_line first (parse_header_lines ls []) body = Inr msg"
    using parse_message_ok [OF assms] by metis
  have "(case msg of Request r \<Rightarrow> req_headers r | Response r \<Rightarrow> resp_headers r) = parse_header_lines ls []"
    "(case msg of Request r \<Rightarrow> req_body r | Response r \<Rightarrow> resp_body r) = body"
    using p(3) by (auto simp: parse_start_line_def Let_def split: option.splits if_splits prod.splits)
  with p(1) parse_body_framing [OF p(2)] show ?thesis by (simp add: Let_def)
qed

theorem sip_body_framing_witness:
  "\<exists>e. find_subslice short_datagram (crlf @ crlf) = Some e \<and>
     (\<exists>v n. hdr_get_all [(''content-length'', ''1'')] ''content-length'' = [v] \<and> parse_uint 64 v = Some n
        \<and> n \<le> length (drop (e + 4) short_datagram) \<and> ''a'' = take n (drop (e + 4) short_datagram))"
proof -
  have "hdr_get_all [(''content-length'', ''1'')] ''content-length'' \<noteq> []"
    using normalize_compact by (simp add: hdr_get_all_def compact_forms_def)
  with sip_body_framing [OF parse_short_datagram] show ?thesis by simp
qed

text \<open>The material for a 400 response is extracted only from requests whose header
  part is readable: every essential header field is present, and the parser either
  accepts the same method, URI and header table or refuses the datagram with an
  error classified as recoverable, never with one for which the program stays silent.\<close>

theorem sip_400_skeleton_sound:
  assumes "extract_request_skeleton_for_400 data = Some sk"
  shows "(\<forall>h \<in> set essential_headers. hdr_get (sk_headers sk) h \<noteq> None) \<and>
    ((\<exists>body. parse_message_classified data =
        Inr (Request \<lparr>req_method = sk_method sk, req_uri = sk_uri sk, req_headers = sk_headers sk, req_body = body\<rparr>))
     \<or> (\<exists>e. parse_message_classified data = Inl e \<and> is_header_recoverable e))"
proof -
  obtain e first ls where p: "find_subslice data (crlf @ crlf) = Some e"
    "split_str crlf (from_utf8_lossy (take e data)) = first # ls"
    "strip_prefix ''SIP/2.0 '' first = None" "\<not> length (splitn 3 SP first) < 2"
    "method_from_str (splitn 3 SP first ! 0) = Some (sk_method sk)" "splitn 3 SP first ! 1 = sk_uri sk"
    "parse_header_lines ls [] = sk_headers sk" "\<not> list_ex (\<lambda>h. hdr_get (sk_headers sk) h = None) essential_headers"
    using extract_skeleton_ok [OF assms] .
  have "data \<noteq> []" using p(1) by (auto simp: find_subslice_def)
  then have eq: "parse_message_classified data =
      (case parse_body (sk_headers sk) (drop (e + 4) data) of Inl e \<Rightarrow> Inl e
       | Inr body \<Rightarrow> parse_start_line first (sk_headers sk) body)"
    using p(1,2,7) by (simp add: parse_message_classified_def Let_def split: sum.splits)
  have "parse_start_line first (sk_headers sk) body =
      Inr (Request \<lparr>req_method = sk_method sk, req_uri = sk_uri sk, req_headers = sk_headers sk, req_body = body\<rparr>)" for body
    using p(3-6) by (simp add: parse_start_line_def Let_def)
  then show ?thesis
    using eq p(8) parse_body_error by (auto simp: list_ex_iff split: sum.splits)
qed

definition truncated_datagram :: string where
  "truncated_datagram =
     ''X y'' @ crlf @ ''v:1'' @ crlf @ ''f:2'' @ crlf @ ''t:3'' @ crlf @ ''i:4'' @ crlf @ ''CSeq:5'' @ crlf @ ''l:9''
     @ crlf @ crlf @ ''ab''"

definition truncated_skeleton :: request_skeleton where
  "truncated_skeleton =
     \<lparr>sk_method = Other ''X'', sk_uri = ''y'',
      sk_headers = [(''via'', ''1''), (''from'', ''2''), (''to'', ''3''), (''call-id'', ''4''), (''cseq'', ''5''),
                    (''content-length'', ''9'')]\<rparr>"

definition truncated_lines :: "string list" where
  "truncated_lines = [''X y'', ''v:1'', ''f:2'', ''t:3'', ''i:4'', ''CSeq:5'', ''l:9'']"

lemma truncated_parts:
  "find_subslice truncated_datagram (crlf @ crlf) = Some (length (join crlf truncated_lines))"
  "split_str crlf (from_utf8_lossy (take (length (join crlf truncated_lines)) truncated_datagram)) = truncated_lines"
  "drop (length (join crlf truncated_lines) + 4) truncated_datagram = ''ab''"
  "parse_header_lines (tl truncated_lines) [] = sk_headers truncated_skeleton"
proof -
  have d: "truncated_datagram = concat (map (\<lambda>l. l @ crlf) truncated_lines) @ crlf @ ''ab''"
    by (simp add: truncated_datagram_def truncated_lines_def)
  have wf: "truncated_lines \<noteq> []" "\<forall>l \<in> set truncated_lines. no_crlf l" "\<forall>l \<in> set (tl truncated_lines). l \<noteq> []"
    "\<forall>l \<in> set truncated_lines. valid_utf8 l"
    by (simp_all add: truncated_lines_def no_CR_no_crlf valid_utf8_all_ascii octet_of_def)
  show "find_subslice truncated_datagram (crlf @ crlf) = Some (length (join crlf truncated_lines))"
    using find_header_end [OF wf(1-3), of "''ab''"] unfolding d
    by (simp add: find_subslice_def truncated_lines_def)
  show "split_str crlf (from_utf8_lossy (take (length (join crlf truncated_lines)) truncated_datagram)) = truncated_lines"
    unfolding d lines_join [OF wf(1)]
    using split_join_lines [OF wf(1,2)] valid_join_lines [OF wf(4)] by (simp add: from_utf8_lossy_id)
  show "drop (length (join crlf truncated_lines) + 4) truncated_datagram = ''ab''"
    unfolding d lines_join [OF wf(1)] by simp
  have tr: "list_all (\<lambda>s. trim s = s) [''v'', ''f'', ''t'', ''i'', ''CSeq'', ''l'', ''1'', ''2'', ''3'', ''4'', ''5'', ''9'']"
    by (simp add: trim_def trim_start_id trim_end_id ws_eval)
  show "parse_header_lines (tl truncated_lines) [] = sk_headers truncated_skeleton"
    using tr by (simp add: truncated_lines_def hdr_add_def normalize_header_name_def compact_forms_def char_eval
        truncated_skeleton_def)
qed

lemma truncated_lines_hd: "truncated_lines = ''X y'' # tl truncated_lines"
  by (simp add: truncated_lines_def)

lemma extract_truncated: "extract_request_skeleton_for_400 truncated_datagram = Some truncated_skeleton"
proof -
  have g: "\<not> list_ex (\<lambda>h. hdr_get (sk_headers truncated_skeleton) h = None) essential_headers"
    by (simp add: hdr_get_def essential_headers_def hdr_simps truncated_skeleton_def)
  have s: "split_str crlf (from_utf8_lossy (take (length (join crlf truncated_lines)) truncated_datagram)) = ''X y'' # tl truncated_lines"
    using truncated_parts(2) truncated_lines_hd by simp
  show ?thesis
    using g truncated_parts(4) unfolding extract_request_skeleton_for_400_def truncated_parts(1) option.case s list.case Let_def
    by (simp add: starts_with_def method_from_str_def numeral_3_eq_3) (simp add: truncated_skeleton_def)
qed

lemma parse_truncated: "parse_message_classified truncated_datagram = Inl (Truncated 9 2)"
proof -
  have s: "split_str crlf (from_utf8_lossy (take (length (join crlf truncated_lines)) truncated_datagram)) = ''X y'' # tl truncated_lines"
    using truncated_parts(2) truncated_lines_hd by simp
  have "hdr_get_all (sk_headers truncated_skeleton) ''content-length'' = [''9'']"
    by (simp add: hdr_get_all_def hdr_simps truncated_skeleton_def)
  then have b: "parse_body (sk_headers truncated_skeleton) ''ab'' = Inl (Truncated 9 2)"
    using parse_uint_dec [of 9 64] by (simp add: parse_body_def dec.simps digit_char_def char_eval)
  have "truncated_datagram \<noteq> []" by (simp add: truncated_datagram_def)
  then show ?thesis
    using truncated_parts(4) b
    unfolding parse_message_classified_def truncated_parts(1) option.case Let_def s list.case truncated_parts(3) by simp
qed

theorem sip_400_skeleton_sound_witness:
  "hdr_get (sk_headers truncated_skeleton) ''call-id'' \<noteq> None
   \<and> ((\<exists>body. parse_message_classified truncated_datagram =
        Inr (Request \<lparr>req_method = Other ''X'', req_uri = ''y'', req_headers = sk_headers truncated_skeleton, req_body = body\<rparr>))
      \<or> (\<exists>e. parse_message_classified truncated_datagram = Inl e \<and> is_header_recoverable e))"
  using sip_400_skeleton_sound [OF extract_truncated] by (simp add: essential_headers_def truncated_skeleton_def)

text \<open>A SIP URI of a user, a host name or bracketed IPv6 address, a port and
  parameters is taken apart into exactly these parts.\<close>

theorem sip_uri_parse:
  assumes "list_all uri_octet user" "wf_uri_host host" "port < 2 ^ 16" "list_all wf_uri_param params"
  shows "parse_sip_uri (uri_text user host port params) =
    Inr \<lparr>uri_scheme = ''sip'', uri_user = Some user, uri_host = host, uri_port = Some port,
         uri_params = params, uri_headers = []\<rparr>"
  using assms by (rule sip_uri_parse_parts)

theorem sip_uri_parse_witness:
  "parse_sip_uri (uri_text ''bob'' ''[2001:db8::1]'' 5060 [(''transport'', ''udp''), (''lr'', [])]) =
    Inr \<lparr>uri_scheme = ''sip'', uri_user = Some ''bob'', uri_host = ''[2001:db8::1]'', uri_port = Some 5060,
         uri_params = [(''transport'', ''udp''), (''lr'', [])], uri_headers = []\<rparr>"
proof (rule sip_uri_parse)
  show "wf_uri_host ''[2001:db8::1]''"
    unfolding wf_uri_host_def by (rule disjI2, rule exI [of _ "''2001:db8::1''"]) (simp add: uri_octet_def octet_of_def)
qed (simp_all add: uri_octet_def wf_uri_param_def char_eval)

end
