(* ===== verification/Sip_Utils.thy ===== *)
theory Sip_Utils
  imports Sip_Message
begin

text \<open>
  The helpers of \<^verbatim>\<open>src/src/sip/utils.rs\<close>: identifiers made from random words (the
  random word is an argument) and the test for a tag in a \<^verbatim>\<open>To\<close> value. The loop
  over octets is related to a splitter that cuts at a separator outside angle
  brackets, which \<^verbatim>\<open>dialog.rs\<close> shares.
\<close>

section \<open>Definitions\<close>

definition new_branch :: "64 word \<Rightarrow> string" where
  "new_branch r = ''z9hG4bK'' @ hex_fixed 16 (unat r)"

definition new_call_id :: "64 word \<Rightarrow> string" where
  "new_call_id r = hex_fixed 16 (unat r) @ ''@hikari-sip''"

definition new_tag :: "32 word \<Rightarrow> string" where
  "new_tag r = hex_fixed 8 (unat r)"

definition param_is_nonempty_tag :: "string \<Rightarrow> bool" where
  "param_is_nonempty_tag param =
     (case split_once CHR ''='' param of
        None \<Rightarrow> False
      | Some (name, val) \<Rightarrow> eq_ignore_case name ''tag'' \<and> val \<noteq> [])"

text \<open>
  The loop of \<^verbatim>\<open>has_to_tag\<close>: the nesting depth, whether a separator was seen, and
  the octets since the last one.
\<close>

fun tag_scan :: "string \<Rightarrow> int \<Rightarrow> bool \<Rightarrow> string \<Rightarrow> bool" where
  "tag_scan [] depth after_semi acc = (after_semi \<and> param_is_nonempty_tag (trim acc))"
| "tag_scan (b # s) depth after_semi acc =
     (if b = CHR ''<'' then tag_scan s (depth + 1) after_semi (acc @ [b])
      else if b = CHR ''>'' then tag_scan s (depth - 1) after_semi (acc @ [b])
      else if b = CHR '';'' \<and> depth = 0 then
        (if after_semi \<and> param_is_nonempty_tag (trim acc) then True else tag_scan s depth True [])
      else tag_scan s depth after_semi (acc @ [b]))"

definition has_to_tag :: "string \<Rightarrow> bool" where
  "has_to_tag val = tag_scan val 0 False []"

section \<open>Splitting outside angle brackets\<close>

fun top_split :: "char \<Rightarrow> int \<Rightarrow> string \<Rightarrow> string list" where
  "top_split d depth [] = [[]]"
| "top_split d depth (b # s) =
     (if b = CHR ''<'' then cons_hd b (top_split d (depth + 1) s)
      else if b = CHR ''>'' then cons_hd b (top_split d (depth - 1) s)
      else if b = d \<and> depth = 0 then [] # top_split d depth s
      else cons_hd b (top_split d depth s))"

lemma top_split_ne [simp]: "top_split d depth s \<noteq> []"
  by (cases s) auto

definition prepend_hd :: "string \<Rightarrow> string list \<Rightarrow> string list" where
  "prepend_hd acc xs = (case xs of [] \<Rightarrow> [acc] | x # xs \<Rightarrow> (acc @ x) # xs)"

lemma prepend_hd_cons_hd [simp]: "prepend_hd acc (cons_hd b xs) = prepend_hd (acc @ [b]) xs"
  by (cases xs) (simp_all add: prepend_hd_def)

lemma prepend_hd_Nil [simp]: "xs \<noteq> [] \<Longrightarrow> prepend_hd [] xs = xs"
  by (cases xs) (simp_all add: prepend_hd_def)

lemma prepend_hd_single [simp]: "prepend_hd acc [[]] = [acc]" "prepend_hd acc ([] # xs) = acc # xs"
  by (simp_all add: prepend_hd_def)

text \<open>The loop tests every part but the one before the first separator.\<close>

lemma tag_scan_split:
  "tag_scan s depth after acc \<longleftrightarrow>
     (let ps = prepend_hd acc (top_split CHR '';'' depth s)
      in \<exists>p \<in> set (if after then ps else tl ps). param_is_nonempty_tag (trim p))"
proof (induction s depth after acc rule: tag_scan.induct)
  case (2 b s depth after acc)
  then show ?case by (simp add: Let_def)
qed auto

lemma top_split_none:
  "CHR ''<'' \<notin> set s \<Longrightarrow> CHR ''>'' \<notin> set s \<Longrightarrow> d \<notin> set s \<or> depth \<noteq> 0 \<Longrightarrow> top_split d depth s = [s]"
  by (induction s) auto

lemma top_split_skip:
  "CHR ''<'' \<notin> set s \<Longrightarrow> CHR ''>'' \<notin> set s \<Longrightarrow> d \<notin> set s \<or> depth \<noteq> 0 \<Longrightarrow>
   top_split d depth (s @ t) = prepend_hd s (top_split d depth t)"
proof (induction s)
  case (Cons b s)
  have "prepend_hd s xs \<noteq> []" for xs by (cases xs) (simp_all add: prepend_hd_def)
  moreover have "cons_hd b (prepend_hd s xs) = prepend_hd (b # s) xs" for xs
    by (cases xs) (simp_all add: prepend_hd_def)
  ultimately show ?case using Cons by auto
qed simp

lemma prepend_prepend [simp]: "prepend_hd a (prepend_hd b xs) = prepend_hd (a @ b) xs"
  by (cases xs) (simp_all add: prepend_hd_def)

text \<open>A bracketed part goes through untouched.\<close>

lemma top_split_bracket:
  assumes "CHR ''<'' \<notin> set u" "CHR ''>'' \<notin> set u" "d \<noteq> CHR ''<''" "d \<noteq> CHR ''>''"
  shows "top_split d 0 (CHR ''<'' # u @ CHR ''>'' # t) = prepend_hd (CHR ''<'' # u @ [CHR ''>'']) (top_split d 0 t)"
proof -
  have "top_split d 1 (u @ CHR ''>'' # t) = prepend_hd u (top_split d 1 (CHR ''>'' # t))"
    using assms by (intro top_split_skip) auto
  moreover have "cons_hd b xs = prepend_hd [b] xs" for b :: char and xs
    by (cases xs) (simp_all add: prepend_hd_def)
  ultimately show ?thesis using assms by simp
qed

lemma top_split_flat:
  "CHR ''<'' \<notin> set s \<Longrightarrow> CHR ''>'' \<notin> set s \<Longrightarrow> d \<noteq> CHR ''<'' \<Longrightarrow> d \<noteq> CHR ''>'' \<Longrightarrow>
   top_split d 0 s = split_char d s"
  by (induction s) auto

lemma tl_prepend_hd [simp]: "tl (prepend_hd acc xs) = tl xs"
  by (cases xs) (simp_all add: prepend_hd_def)

section \<open>Properties\<close>

text \<open>A \<^verbatim>\<open>To\<close> value of a display name, a bracketed URI and parameters has a tag exactly
  when one of its header parameters is a non-empty tag in any case; what the URI in
  the brackets contains never counts.\<close>

theorem has_to_tag_name_addr:
  assumes "CHR ''<'' \<notin> set name" "CHR ''>'' \<notin> set name" "CHR '';'' \<notin> set name"
    and "CHR ''<'' \<notin> set uri" "CHR ''>'' \<notin> set uri"
    and "CHR ''<'' \<notin> set params" "CHR ''>'' \<notin> set params"
  shows "has_to_tag (name @ ''<'' @ uri @ ''>'' @ params) \<longleftrightarrow>
    (\<exists>p \<in> set (tl (split_char CHR '';'' params)). param_is_nonempty_tag (trim p))"
proof -
  have "top_split CHR '';'' 0 (name @ CHR ''<'' # uri @ CHR ''>'' # params) =
      prepend_hd (name @ CHR ''<'' # uri @ [CHR ''>'']) (split_char CHR '';'' params)"
    using assms by (subst top_split_skip) (simp_all add: top_split_bracket top_split_flat del: top_split.simps)
  then show ?thesis by (simp add: has_to_tag_def tag_scan_split Let_def)
qed

theorem has_to_tag_name_addr_witness:
  "has_to_tag (''Bob '' @ ''<'' @ ''sip:b;tag=fake@h'' @ ''>'' @ '';user=phone;TAG=x1'')
   \<and> \<not> has_to_tag (''Bob '' @ ''<'' @ ''sip:b;tag=fake@h'' @ ''>'' @ '';tag='')"
proof -
  have t: "trim ''user=phone'' = ''user=phone''" "trim ''TAG=x1'' = ''TAG=x1''" "trim ''tag='' = ''tag=''"
    by (simp_all add: trim_def trim_start_id trim_end_id ws_eval)
  show ?thesis
    using has_to_tag_name_addr [of "''Bob ''" "''sip:b;tag=fake@h''" "'';user=phone;TAG=x1''"]
      has_to_tag_name_addr [of "''Bob ''" "''sip:b;tag=fake@h''" "'';tag=''"]
    by (simp add: t param_is_nonempty_tag_def eq_ignore_case_def char_eval)
qed

end
