(* ===== verification/Rust_Net.thy ===== *)
theory Rust_Net
  imports Rust_Str
begin

text \<open>
  The part of \<^verbatim>\<open>std::net\<close> the SIP code uses: IP addresses with their textual form
  and parser, and socket addresses. An IPv6 address is its eight 16-bit segments.
\<close>

section \<open>Definitions\<close>

datatype ip_addr = V4 nat nat nat nat | V6 "nat list"

record socket_addr =
  sa_ip :: ip_addr
  sa_port :: nat

fun wf_ip :: "ip_addr \<Rightarrow> bool" where
  "wf_ip (V4 a b c d) = (a < 256 \<and> b < 256 \<and> c < 256 \<and> d < 256)"
| "wf_ip (V6 s) = (length s = 8 \<and> list_all (\<lambda>g. g < 65536) s)"

subsection \<open>Display\<close>

definition v4_display :: "nat \<Rightarrow> nat \<Rightarrow> nat \<Rightarrow> nat \<Rightarrow> string" where
  "v4_display a b c d = dec a @ ''.'' @ dec b @ ''.'' @ dec c @ ''.'' @ dec d"

function hex :: "nat \<Rightarrow> string" where
  "hex n = (if n < 16 then [hex_digit n] else hex (n div 16) @ [hex_digit (n mod 16)])"
  by pat_completeness auto
termination
  by (relation "measure id") auto

declare hex.simps [simp del]

text \<open>The first longest run of zero segments, as start and length.\<close>

fun zero_run :: "nat list \<Rightarrow> nat \<Rightarrow> nat \<times> nat \<Rightarrow> nat \<times> nat \<Rightarrow> nat \<times> nat" where
  "zero_run [] i (cs, cl) (ls, ll) = (ls, ll)"
| "zero_run (g # gs) i (cs, cl) (ls, ll) =
     (if g = 0 then
        (let cur = (if cl = 0 then (i, 1) else (cs, cl + 1))
         in zero_run gs (i + 1) cur (if snd cur > ll then cur else (ls, ll)))
      else zero_run gs (i + 1) (0, 0) (ls, ll))"

definition v6_display :: "nat list \<Rightarrow> string" where
  "v6_display s =
     (if take 6 s = [0, 0, 0, 0, 0, 65535] then
        ''::ffff:'' @ v4_display (s ! 6 div 256) (s ! 6 mod 256) (s ! 7 div 256) (s ! 7 mod 256)
      else (let (z, n) = zero_run s 0 (0, 0) (0, 0)
            in if n > 1 then
                 join '':'' (map hex (take z s)) @ ''::'' @ join '':'' (map hex (drop (z + n) s))
               else join '':'' (map hex s)))"

fun ip_display :: "ip_addr \<Rightarrow> string" where
  "ip_display (V4 a b c d) = v4_display a b c d"
| "ip_display (V6 s) = v6_display s"

definition socket_display :: "socket_addr \<Rightarrow> string" where
  "socket_display a =
     (case sa_ip a of
        V4 _ _ _ _ \<Rightarrow> ip_display (sa_ip a) @ '':'' @ dec (sa_port a)
      | V6 _ \<Rightarrow> ''['' @ ip_display (sa_ip a) @ '']:'' @ dec (sa_port a))"

subsection \<open>Parsing\<close>

definition hex_value :: "char \<Rightarrow> nat option" where
  "hex_value c =
     (let b = octet_of c
      in if 48 \<le> b \<and> b \<le> 57 then Some (b - 48)
         else if 97 \<le> b \<and> b \<le> 102 then Some (b - 87)
         else if 65 \<le> b \<and> b \<le> 70 then Some (b - 55)
         else None)"

text \<open>One decimal octet: at most three digits, no leading zero, below 256.\<close>

definition read_dec_octet :: "string \<Rightarrow> (nat \<times> string) option" where
  "read_dec_octet s =
     (let ds = takeWhile is_digit s
      in if ds = [] \<or> length ds > 3 \<or> length ds > 1 \<and> hd ds = CHR ''0'' \<or> digits_value ds > 255 then None
         else Some (digits_value ds, drop (length ds) s))"

definition read_char :: "char \<Rightarrow> string \<Rightarrow> string option" where
  "read_char c s = (case s of d # r \<Rightarrow> if d = c then Some r else None | [] \<Rightarrow> None)"

definition read_ipv4 :: "string \<Rightarrow> ((nat \<times> nat \<times> nat \<times> nat) \<times> string) option" where
  "read_ipv4 s0 =
     Option.bind (read_dec_octet s0) (\<lambda>(a, s1).
     Option.bind (read_char CHR ''.'' s1) (\<lambda>s2.
     Option.bind (read_dec_octet s2) (\<lambda>(b, s3).
     Option.bind (read_char CHR ''.'' s3) (\<lambda>s4.
     Option.bind (read_dec_octet s4) (\<lambda>(c, s5).
     Option.bind (read_char CHR ''.'' s5) (\<lambda>s6.
     Option.bind (read_dec_octet s6) (\<lambda>(d, s7). Some ((a, b, c, d), s7))))))))"

text \<open>One segment: one to four hexadecimal digits.\<close>

definition read_hex_group :: "string \<Rightarrow> (nat \<times> string) option" where
  "read_hex_group s =
     (let ds = takeWhile (\<lambda>c. hex_value c \<noteq> None) s
      in if ds = [] \<or> length ds > 4 then None
         else Some (foldl (\<lambda>a c. a * 16 + the (hex_value c)) 0 ds, drop (length ds) s))"

text \<open>
  Up to a limit of segments, separated by colons; an embedded IPv4 address ends
  them and counts for two. The result tells whether one was read.
\<close>

function read_groups :: "nat \<Rightarrow> nat \<Rightarrow> string \<Rightarrow> nat list \<times> bool \<times> string" where
  "read_groups i limit s =
     (if i \<ge> limit then ([], False, s)
      else (case (if i = 0 then Some s else read_char CHR '':'' s) of
              None \<Rightarrow> ([], False, s)
            | Some r \<Rightarrow>
                (case (if i + 1 < limit then read_ipv4 r else None) of
                   Some ((a, b, c, d), t) \<Rightarrow> ([a * 256 + b, c * 256 + d], True, t)
                 | None \<Rightarrow>
                     (case read_hex_group r of
                        None \<Rightarrow> ([], False, s)
                      | Some (g, t) \<Rightarrow>
                          (let (gs, v4, u) = read_groups (i + 1) limit t in (g # gs, v4, u))))))"
  by pat_completeness auto
termination
  by (relation "measure (\<lambda>(i, limit, s). limit - i)") auto

declare read_groups.simps [simp del]

definition read_ipv6 :: "string \<Rightarrow> (nat list \<times> string) option" where
  "read_ipv6 s =
     (let (head, head_v4, r) = read_groups 0 8 s
      in if length head = 8 then Some (head, r)
         else if head_v4 then None
         else (case strip_prefix ''::'' r of
                 None \<Rightarrow> None
               | Some t \<Rightarrow>
                   (let (tail, _, u) = read_groups 0 (7 - length head) t
                    in Some (head @ replicate (8 - length head - length tail) 0 @ tail, u))))"

definition parse_ip :: "string \<Rightarrow> ip_addr option" where
  "parse_ip s =
     (case read_ipv4 s of
        Some ((a, b, c, d), r) \<Rightarrow> if r = [] then Some (V4 a b c d) else None
      | None \<Rightarrow> (case read_ipv6 s of Some (g, r) \<Rightarrow> if r = [] then Some (V6 g) else None | None \<Rightarrow> None))"

section \<open>Facts\<close>

lemma dec_digit_count: "n < 256 \<Longrightarrow> length (dec n) \<le> 3"
  by (simp add: dec.simps [of n] dec.simps [of "n div 10"] dec.simps [of "n div 10 div 10"])

lemma dec_leading_zero: "length (dec n) > 1 \<Longrightarrow> hd (dec n) \<noteq> CHR ''0''"
proof (induction n rule: dec.induct)
  case (1 n)
  show ?case
  proof (cases "n < 10")
    case True
    with 1(2) show ?thesis by (simp add: dec.simps [of n])
  next
    case False
    have ne: "dec (n div 10) \<noteq> []" using dec_digits by blast
    have h: "hd (dec n) = hd (dec (n div 10))" using False ne by (simp add: dec.simps [of n])
    show ?thesis
    proof (cases "n div 10 < 10")
      case True
      have "digit_char (n div 10) \<noteq> CHR ''0''"
        using False True by (auto simp: octet_of_inj [symmetric] digit_char_def) (simp add: octet_of_def)
      with h True show ?thesis by (simp add: dec.simps [of "n div 10"])
    next
      case big: False
      then have "length (dec (n div 10)) > 1"
        using dec_digits [of "n div 10 div 10"] by (simp add: dec.simps [of "n div 10"])
      with 1 False h show ?thesis by simp
    qed
  qed
qed

lemma read_dec_octet_dec:
  assumes "n < 256" "r = [] \<or> \<not> is_digit (hd r)"
  shows "read_dec_octet (dec n @ r) = Some (n, r)"
proof -
  have t: "takeWhile is_digit (dec n @ r) = dec n"
  proof -
    have "takeWhile is_digit r = []" using assms(2) by (cases r) auto
    then show ?thesis using dec_not [of _ n] by (simp add: takeWhile_append)
  qed
  have "dec n \<noteq> []" using dec_digits by blast
  moreover have "length (dec n) \<le> 3" using assms(1) by (rule dec_digit_count)
  ultimately show ?thesis
    using assms(1) dec_leading_zero [of n] by (auto simp: read_dec_octet_def t Let_def)
qed

lemma dot_not_digit: "\<not> is_digit CHR ''.''"
  by (simp add: is_digit_def octet_of_def)

lemma parse_ip_v4: "wf_ip (V4 a b c d) \<Longrightarrow> parse_ip (ip_display (V4 a b c d)) = Some (V4 a b c d)"
  by (simp add: parse_ip_def read_ipv4_def v4_display_def read_dec_octet_dec dot_not_digit read_char_def)
    (simp add: read_dec_octet_dec [of d "[]", simplified])

text \<open>What the text of an address is made of.\<close>

definition ip_char :: "char \<Rightarrow> bool" where
  "ip_char c \<longleftrightarrow> is_digit c \<or> 97 \<le> octet_of c \<and> octet_of c \<le> 102 \<or> c = CHR ''.'' \<or> c = CHR '':''"

lemma dec_ip_chars: "list_all ip_char (dec n)"
  using dec_digits [of n] by (auto simp: list_all_iff ip_char_def)

lemma hex_digit_ip: "d < 16 \<Longrightarrow> ip_char (hex_digit d)"
  by (auto simp: ip_char_def hex_digit_def is_digit_def)

lemma hex_ip_chars: "list_all ip_char (hex n)"
proof (induction n rule: hex.induct)
  case (1 n)
  then show ?case by (cases "n < 16") (simp_all add: hex.simps [of n] hex_digit_ip)
qed

lemma join_ip_chars: "\<forall>x \<in> set xs. list_all ip_char x \<Longrightarrow> list_all ip_char (join '':'' xs)"
  by (induction "'':''" xs rule: join.induct) (auto simp: ip_char_def)

lemma ip_display_chars: "list_all ip_char (ip_display ip)"
proof -
  have p: "ip_char CHR ''.''" "ip_char CHR '':''" "ip_char CHR ''f''"
    by (simp_all add: ip_char_def octet_of_def)
  have "list_all ip_char (join '':'' (map hex s))" for s
    using hex_ip_chars by (intro join_ip_chars) auto
  then show ?thesis
    using dec_ip_chars p by (cases ip) (auto simp: v4_display_def v6_display_def split: prod.splits)
qed

lemma ip_graphic: "list_all graphic (ip_display ip)" "list_all graphic (dec n)"
proof -
  have "ip_char c \<Longrightarrow> graphic c" for c by (auto simp: ip_char_def graphic_def is_digit_def octet_of_def)
  then show "list_all graphic (ip_display ip)" "list_all graphic (dec n)"
    using ip_display_chars [of ip] dec_ip_chars [of n] by (auto simp: list_all_iff)
qed

section \<open>IPv6: reading what was displayed\<close>

lemma hex_value_digit: "d < 16 \<Longrightarrow> hex_value (hex_digit d) = Some d"
  by (auto simp: hex_value_def hex_digit_def)

lemma hex_read: "list_all (\<lambda>c. hex_value c \<noteq> None) (hex n) \<and> hex n \<noteq> []
    \<and> foldl (\<lambda>a c. a * 16 + the (hex_value c)) 0 (hex n) = n"
proof (induction n rule: hex.induct)
  case (1 n)
  then show ?case
    by (cases "n < 16") (simp_all add: hex.simps [of n] hex_value_digit)
qed

lemma hex_length: "n < 65536 \<Longrightarrow> length (hex n) \<le> 4"
  by (simp add: hex.simps [of n] hex.simps [of "n div 16"] hex.simps [of "n div 16 div 16"]
      hex.simps [of "n div 16 div 16 div 16"])

lemma read_hex_group_hex:
  assumes "n < 65536" "r = [] \<or> hd r = CHR '':''"
  shows "read_hex_group (hex n @ r) = Some (n, r)"
proof -
  have "takeWhile (\<lambda>c. hex_value c \<noteq> None) r = []"
    using assms(2) by (cases r) (auto simp: hex_value_def octet_of_def)
  then have "takeWhile (\<lambda>c. hex_value c \<noteq> None) (hex n @ r) = hex n"
    using hex_read [of n] by (simp add: takeWhile_append list_all_iff)
  then show ?thesis using hex_read [of n] hex_length [OF assms(1)] by (simp add: read_hex_group_def)
qed

lemma read_ipv4_no_dot:
  assumes "CHR ''.'' \<notin> set s"
  shows "read_ipv4 s = None"
proof (cases "read_dec_octet s")
  case (Some p)
  obtain a t where p: "p = (a, t)" by fastforce
  have "set t \<subseteq> set s"
    using Some p by (auto simp: read_dec_octet_def Let_def set_drop_subset [THEN subsetD] split: if_splits dest: in_set_dropD)
  then have "read_char CHR ''.'' t = None" using assms by (cases t) (auto simp: read_char_def)
  with Some p show ?thesis by (simp add: read_ipv4_def)
qed (simp add: read_ipv4_def)

lemma hex_no_dot: "c \<in> set (hex n) \<Longrightarrow> c \<noteq> CHR ''.'' \<and> c \<noteq> CHR '':''"
  using hex_read [of n] by (auto simp: list_all_iff hex_value_def octet_of_def)

lemma join_hex_no_dot: "CHR ''.'' \<notin> set (join '':'' (map hex gs))"
proof (induction gs)
  case (Cons g gs)
  then show ?case using hex_no_dot [of _ g] by (cases gs) auto
qed simp

text \<open>What stops the reading of segments: the end or a double colon.\<close>

definition group_stop :: "string \<Rightarrow> bool" where
  "group_stop r \<longleftrightarrow> CHR ''.'' \<notin> set r \<and> (r = [] \<or> (\<exists>t. r = CHR '':'' # CHR '':'' # t))"

lemma read_groups_stop:
  assumes "group_stop r"
  shows "read_groups i limit r = ([], False, r)"
proof -
  have h: "read_hex_group (CHR '':'' # t) = None" "read_hex_group [] = None" for t
    by (simp_all add: read_hex_group_def hex_value_def octet_of_def)
  have d: "read_ipv4 r = None" "\<And>t. r = CHR '':'' # t \<Longrightarrow> read_ipv4 t = None"
    using assms by (auto simp: group_stop_def intro!: read_ipv4_no_dot)
  show ?thesis
  proof (cases r)
    case Nil
    then show ?thesis using h d by (simp add: read_groups.simps [of i] read_char_def)
  next
    case (Cons c t)
    with assms obtain u where "c = CHR '':''" "t = CHR '':'' # u" by (auto simp: group_stop_def)
    with Cons show ?thesis using h d by (simp add: read_groups.simps [of i] read_char_def)
  qed
qed

lemma read_groups_hex:
  assumes "list_all (\<lambda>g. g < 65536) gs" "i + length gs \<le> limit" "group_stop r" "gs \<noteq> []"
  shows "read_groups i limit ((if i = 0 then [] else '':'') @ join '':'' (map hex gs) @ r) = (gs, False, r)"
  using assms
proof (induction gs arbitrary: i)
  case (Cons g gs)
  let ?rest = "(if gs = [] then [] else '':'') @ join '':'' (map hex gs) @ r"
  have j: "join '':'' (map hex (g # gs)) @ r = hex g @ ?rest" by (cases gs) simp_all
  have "?rest = [] \<or> hd ?rest = CHR '':''" using Cons.prems(3) by (cases gs) (auto simp: group_stop_def)
  then have h: "read_hex_group (hex g @ ?rest) = Some (g, ?rest)"
    using Cons.prems(1) by (intro read_hex_group_hex) simp_all
  have "CHR ''.'' \<notin> set (hex g @ ?rest)"
    using hex_no_dot join_hex_no_dot [of gs] Cons.prems(3) by (auto simp: group_stop_def)
  then have v: "read_ipv4 (hex g @ ?rest) = None" by (rule read_ipv4_no_dot)
  have "read_groups (i + 1) limit ?rest = (gs, False, r)"
  proof (cases "gs = []")
    case True
    then show ?thesis using read_groups_stop [OF Cons.prems(3)] by simp
  next
    case False
    then show ?thesis using Cons.IH [of "i + 1"] Cons.prems by simp
  qed
  moreover have "i < limit" using Cons.prems(2) by simp
  ultimately show ?case unfolding j read_groups.simps [of i] using h v
    by (cases "i = 0") (simp_all add: read_char_def del: append_assoc)
qed simp

lemma zero_run_spec:
  assumes "zero_run gs i (cs, cl) (ls, ll) = (z, n)" "ls + ll \<le> i" "cl > 0 \<longrightarrow> cs + cl = i"
    and "\<forall>k. ls \<le> k \<and> k < ls + ll \<longrightarrow> f k = 0" "\<forall>k. cs \<le> k \<and> k < cs + cl \<longrightarrow> f k = 0"
    and "\<forall>k < length gs. f (i + k) = gs ! k"
  shows "z + n \<le> i + length gs \<and> (\<forall>k. z \<le> k \<and> k < z + n \<longrightarrow> f k = (0 :: nat))"
  using assms
proof (induction gs arbitrary: i cs cl ls ll)
  case (Cons g gs)
  have g: "f i = g" "\<forall>k < length gs. f (Suc i + k) = gs ! k"
    using Cons.prems(6) by (auto dest: spec [of _ 0] spec [of _ "Suc _"])
  show ?case
  proof (cases "g = 0")
    case True
    define c where "c = (if cl = 0 then (i, 1) else (cs, cl + 1))"
    define l where "l = (if snd c > ll then c else (ls, ll))"
    have c: "fst c + snd c = Suc i" "\<forall>k. fst c \<le> k \<and> k < fst c + snd c \<longrightarrow> f k = 0"
      using True g Cons.prems(3,5) by (auto simp: c_def less_Suc_eq)
    have l: "fst l + snd l \<le> Suc i" "\<forall>k. fst l \<le> k \<and> k < fst l + snd l \<longrightarrow> f k = 0"
      using c Cons.prems(2,4) by (auto simp: l_def)
    have "zero_run gs (Suc i) (fst c, snd c) (fst l, snd l) = (z, n)"
      using Cons.prems(1) True by (simp add: c_def l_def Let_def split: if_splits)
    from Cons.IH [OF this l(1) _ l(2) c(2) g(2)] c(1) show ?thesis by simp
  next
    case False
    then have "zero_run gs (Suc i) (0, 0) (ls, ll) = (z, n)" using Cons.prems(1) by simp
    from Cons.IH [OF this _ _ Cons.prems(4) _ g(2)] Cons.prems(2) show ?thesis by simp
  qed
qed auto

lemma zero_run_zeros:
  assumes "zero_run s 0 (0, 0) (0, 0) = (z, n)"
  shows "z + n \<le> length s" "s = take z s @ replicate n 0 @ drop (z + n) s"
proof -
  have r: "z + n \<le> length s \<and> (\<forall>k. z \<le> k \<and> k < z + n \<longrightarrow> s ! k = 0)"
    using zero_run_spec [OF assms, of "(!) s"] by simp
  then show "z + n \<le> length s" by simp
  have "take n (drop z s) = replicate n 0" using r by (intro nth_equalityI) auto
  then show "s = take z s @ replicate n 0 @ drop (z + n) s"
    by (metis append_take_drop_id drop_drop add.commute)
qed

lemma read_ipv6_display:
  assumes "wf_ip (V6 s)" "take 6 s \<noteq> [0, 0, 0, 0, 0, 65535]"
  shows "read_ipv6 (v6_display s) = Some (s, []) \<and> CHR ''.'' \<notin> set (v6_display s)"
proof -
  obtain z n where zn: "zero_run s 0 (0, 0) (0, 0) = (z, n)" by fastforce
  have len: "length s = 8" and hx: "list_all (\<lambda>g. g < 65536) s" using assms(1) by simp_all
  note zs = zero_run_zeros [OF zn]
  show ?thesis
  proof (cases "n > 1")
    case True
    let ?a = "take z s" and ?b = "drop (z + n) s"
    let ?r = "''::'' @ join '':'' (map hex ?b)"
    have d: "v6_display s = join '':'' (map hex ?a) @ ?r" using True assms(2) zn by (simp add: v6_display_def)
    have stop: "group_stop ?r" "group_stop []" using join_hex_no_dot by (auto simp: group_stop_def)
    have h: "list_all (\<lambda>g. g < 65536) ?a" "list_all (\<lambda>g. g < 65536) ?b"
      using hx by (auto simp: list_all_iff dest: in_set_takeD in_set_dropD)
    have "read_groups 0 8 (v6_display s) = (?a, False, ?r)"
    proof (cases "?a = []")
      case True
      then have "map hex ?a = []" by simp
      with True show ?thesis unfolding d using read_groups_stop [OF stop(1)] by (simp only: join.simps append_Nil)
    next
      case False
      then show ?thesis unfolding d using read_groups_hex [OF h(1) _ stop(1), of 0 8] len by simp
    qed
    moreover have "read_groups 0 (7 - z) (join '':'' (map hex ?b)) = (?b, False, [])"
    proof (cases "?b = []")
      case True
      then show ?thesis using read_groups_stop [OF stop(2)] by simp
    next
      case False
      then show ?thesis using read_groups_hex [OF h(2) _ stop(2), of 0 "7 - z"] len zs(1) \<open>n > 1\<close> by simp
    qed
    moreover have "length ?a = z" "8 - z - length ?b = n" using zs(1) len by simp_all
    moreover have "z \<noteq> 8" using zs(1) len True by simp
    ultimately show ?thesis
      using zs(2) join_hex_no_dot d by (simp add: read_ipv6_def strip_prefix_def)
  next
    case False
    then have d: "v6_display s = join '':'' (map hex s)" using assms(2) zn by (simp add: v6_display_def)
    have "s \<noteq> []" using len by auto
    then have "read_groups 0 8 (join '':'' (map hex s)) = (s, False, [])"
      using read_groups_hex [OF hx, of 0 8 "[]"] len by (simp add: group_stop_def)
    then show ?thesis using d len join_hex_no_dot by (simp add: read_ipv6_def)
  qed
qed

lemma read_ipv4_display:
  assumes "wf_ip (V4 a b c d)"
  shows "read_ipv4 (v4_display a b c d) = Some ((a, b, c, d), [])"
  using assms
  by (simp add: read_ipv4_def v4_display_def read_dec_octet_dec dot_not_digit read_char_def)
    (simp add: read_dec_octet_dec [of d "[]", simplified])

lemma hex_ffff: "hex 65535 = ''ffff''"
  by (simp add: hex.simps hex_digit_def char_eval)

lemma read_ipv6_mapped:
  assumes "wf_ip (V6 s)" "take 6 s = [0, 0, 0, 0, 0, 65535]"
  shows "read_ipv6 (v6_display s) = Some (s, []) \<and> read_ipv4 (v6_display s) = None"
proof -
  obtain g h where s: "s = [0, 0, 0, 0, 0, 65535, g, h]"
  proof -
    have "length (drop 6 s) = Suc (Suc 0)" using assms(1) by simp
    then obtain x y where "drop 6 s = [x, y]" by (metis length_0_conv length_Suc_conv)
    then have "s = [0, 0, 0, 0, 0, 65535] @ [x, y]" using append_take_drop_id [of 6 s] assms(2) by metis
    then show ?thesis using that by simp
  qed
  have gh: "g < 65536" "h < 65536" using assms(1) s by simp_all
  let ?v = "v4_display (g div 256) (g mod 256) (h div 256) (h mod 256)"
  have d: "v6_display s = ''::ffff:'' @ ?v" using s by (simp add: v6_display_def)
  have v: "read_ipv4 ?v = Some ((g div 256, g mod 256, h div 256, h mod 256), [])"
    using gh by (intro read_ipv4_display) (simp add: less_mult_imp_div_less)
  have n: "read_ipv4 (CHR '':'' # r) = None" "read_ipv4 (CHR ''f'' # r) = None" for r
    by (simp_all add: read_ipv4_def read_dec_octet_def is_digit_def octet_of_def)
  have h0: "read_hex_group (CHR '':'' # r) = None" for r
    by (simp add: read_hex_group_def hex_value_def octet_of_def)
  have hf: "read_hex_group (''ffff'' @ CHR '':'' # r) = Some (65535, CHR '':'' # r)" for r
    using read_hex_group_hex [of 65535 "CHR '':'' # r"] by (simp add: hex_ffff)
  have "read_groups 1 7 (CHR '':'' # ?v) = ([g, h], True, [])"
    using v by (subst read_groups.simps) (simp add: read_char_def)
  then have "read_groups 0 7 (''ffff'' @ CHR '':'' # ?v) = ([65535, g, h], True, [])"
    using n hf by (subst read_groups.simps) simp
  moreover have "read_groups 0 8 (v6_display s) = ([], False, v6_display s)"
    using n h0 d by (subst read_groups.simps) simp
  moreover have "replicate 5 (0 :: nat) = [0, 0, 0, 0, 0]" by (simp add: numeral_eq_Suc)
  ultimately show ?thesis
    using n d s by (simp add: read_ipv6_def strip_prefix_def)
qed

text \<open>Every address is read back from its text.\<close>

lemma parse_ip_display: "wf_ip ip \<Longrightarrow> parse_ip (ip_display ip) = Some ip"
proof (cases ip)
  case (V4 a b c d)
  then show "wf_ip ip \<Longrightarrow> ?thesis" by (simp only: parse_ip_v4)
next
  case (V6 s)
  assume "wf_ip ip"
  with V6 have w: "wf_ip (V6 s)" by simp
  show ?thesis
  proof (cases "take 6 s = [0, 0, 0, 0, 0, 65535]")
    case True
    with read_ipv6_mapped [OF w] V6 show ?thesis by (simp add: parse_ip_def)
  next
    case False
    with read_ipv6_display [OF w] V6 read_ipv4_no_dot show ?thesis by (simp add: parse_ip_def)
  qed
qed

text \<open>What is read is an address.\<close>

lemma read_dec_octet_bound: "read_dec_octet s = Some (n, r) \<Longrightarrow> n < 256"
  by (auto simp: read_dec_octet_def Let_def split: if_splits)

lemma read_ipv4_bound: "read_ipv4 s = Some ((a, b, c, d), r) \<Longrightarrow> wf_ip (V4 a b c d)"
  by (auto simp: read_ipv4_def bind_eq_Some_conv dest: read_dec_octet_bound)

lemma hex_value_bound: "hex_value c = Some d \<Longrightarrow> d < 16"
  by (auto simp: hex_value_def Let_def split: if_splits)

lemma hex_fold_bound:
  "\<forall>c \<in> set ds. hex_value c \<noteq> None \<Longrightarrow> foldl (\<lambda>a c. a * 16 + the (hex_value c)) x ds < (x + 1) * 16 ^ length ds"
proof (induction ds arbitrary: x)
  case (Cons c ds)
  then obtain d where d: "hex_value c = Some d" "d < 16" by (auto dest: hex_value_bound)
  have "foldl (\<lambda>a c. a * 16 + the (hex_value c)) (x * 16 + d) ds < (x * 16 + d + 1) * 16 ^ length ds"
    using Cons by simp
  also have "\<dots> \<le> ((x + 1) * 16) * 16 ^ length ds" using d by (intro mult_right_mono) auto
  finally show ?case using d by (simp add: algebra_simps)
qed simp

lemma read_hex_group_bound: "read_hex_group s = Some (g, r) \<Longrightarrow> g < 65536"
proof -
  assume a: "read_hex_group s = Some (g, r)"
  let ?ds = "takeWhile (\<lambda>c. hex_value c \<noteq> None) s"
  have g: "g = foldl (\<lambda>a c. a * 16 + the (hex_value c)) 0 ?ds" "length ?ds \<le> 4"
    using a by (auto simp: read_hex_group_def Let_def split: if_splits)
  have "g < 16 ^ length ?ds" using hex_fold_bound [of ?ds 0] g(1) by (auto dest: set_takeWhileD)
  also have "\<dots> \<le> 16 ^ 4" using g(2) by (intro power_increasing) auto
  finally show ?thesis by simp
qed

lemma read_groups_bound:
  "read_groups i limit s = (gs, v, r) \<Longrightarrow> i \<le> limit \<Longrightarrow> i + length gs \<le> limit \<and> list_all (\<lambda>g. g < 65536) gs"
proof (induction i limit s arbitrary: gs v r rule: read_groups.induct)
  case (1 i limit s)
  show ?case
  proof (cases "i \<ge> limit")
    case False
    show ?thesis
    proof (cases "if i = 0 then Some s else read_char CHR '':'' s")
      case None
      then show ?thesis using 1(2,3) False by (subst (asm) read_groups.simps) simp
    next
      case (Some t)
      show ?thesis
      proof (cases "if i + 1 < limit then read_ipv4 t else None")
        case v4: (Some p)
        then obtain a b c d u where p: "p = ((a, b, c, d), u)" by (cases p) auto
        with v4 have "wf_ip (V4 a b c d)" "i + 1 < limit" by (auto split: if_splits dest: read_ipv4_bound)
        then show ?thesis using 1(2) False Some v4 p by (subst (asm) read_groups.simps) auto
      next
        case v4: None
        show ?thesis
        proof (cases "read_hex_group t")
          case None
          then show ?thesis using 1(2,3) False Some v4 by (subst (asm) read_groups.simps) simp
        next
          case h: (Some q)
          then obtain g u where q: "q = (g, u)" by (cases q)
          obtain gs' v' r' where rg: "read_groups (i + 1) limit u = (gs', v', r')" by (cases "read_groups (i + 1) limit u")
          have "gs = g # gs'" using 1(2) False Some v4 h q rg by (subst (asm) read_groups.simps) simp
          moreover have "i + 1 + length gs' \<le> limit \<and> list_all (\<lambda>g. g < 65536) gs'"
            using 1(1) [OF False Some v4 h q [symmetric] rg] False by simp
          ultimately show ?thesis using read_hex_group_bound h q by simp
        qed
      qed
    qed
  qed (use 1 in \<open>subst (asm) read_groups.simps, simp\<close>)
qed

lemma parse_ip_wf: "parse_ip s = Some ip \<Longrightarrow> wf_ip ip"
proof -
  assume p: "parse_ip s = Some ip"
  show ?thesis
  proof (cases "read_ipv4 s")
    case (Some q)
    then show ?thesis using p by (cases q) (auto simp: parse_ip_def dest: read_ipv4_bound split: if_splits)
  next
    case None
    with p obtain g where g: "read_ipv6 s = Some (g, [])" "ip = V6 g"
      by (auto simp: parse_ip_def split: option.splits if_splits)
    obtain hd_g v r where h: "read_groups 0 8 s = (hd_g, v, r)" by (cases "read_groups 0 8 s")
    note hb = read_groups_bound [OF h]
    show ?thesis
    proof (cases "length hd_g = 8")
      case True
      then show ?thesis using g h hb by (auto simp: read_ipv6_def)
    next
      case False
      with g h obtain t where t: "\<not> v" "strip_prefix ''::'' r = Some t"
        by (auto simp: read_ipv6_def split: if_splits option.splits)
      obtain tl_g v' r' where u: "read_groups 0 (7 - length hd_g) t = (tl_g, v', r')"
        by (cases "read_groups 0 (7 - length hd_g) t")
      note tb = read_groups_bound [OF u]
      have "g = hd_g @ replicate (8 - length hd_g - length tl_g) 0 @ tl_g"
        using False g h t u by (simp add: read_ipv6_def)
      then show ?thesis using g(2) hb tb False by (auto simp: list_all_iff)
    qed
  qed
qed

end
