(* ===== verification/Sip_Dialog.thy ===== *)
theory Sip_Dialog
  imports Sip_Utils Rust_Net
begin

text \<open>
  The dialog layer of \<^verbatim>\<open>src/src/sip/dialog.rs\<close>: dialogs made from an INVITE and its
  response on either side, their confirmation and end, and the requests sent
  inside them. The atomic CSeq counter is a 32-bit word of the dialog, so the
  builders that draw a number return the dialog with the counter advanced; the
  random branch is an argument.
\<close>

section \<open>Definitions\<close>

datatype dialog_state = DlgEarly | DlgConfirmed | DlgTerminated

record dialog_id =
  dlg_call_id :: string
  dlg_local_tag :: string
  dlg_remote_tag :: string

record dialog =
  dlg_id :: dialog_id
  dlg_state :: dialog_state
  dlg_local_uri :: string
  dlg_remote_uri :: string
  dlg_remote_target :: string
  dlg_route_set :: "string list"
  dlg_local_cseq :: "32 word"
  dlg_local_contact :: string
  dlg_sent_by :: string

record dialog_config =
  cfg_local_uri :: string
  cfg_remote_uri :: string
  cfg_local_contact :: string
  cfg_sent_by :: string

datatype dialog_error =
    NoCallId | NoFrom | NoTo | NoFromTag string | NoToTag string | NoContact | NoCSeq
  | EmptyCSeq | BadCSeq string | BadDialogStatus nat

subsection \<open>Reading header values\<close>

definition extract_uri :: "string \<Rightarrow> string" where
  "extract_uri val =
     (let trimmed = trim val;
          bare = (case split_once CHR '';'' trimmed of Some (uri, _) \<Rightarrow> trim uri | None \<Rightarrow> trimmed)
      in case split_once CHR ''<'' trimmed of
           Some (_, rest) \<Rightarrow> (case split_once CHR ''>'' rest of Some (uri, _) \<Rightarrow> uri | None \<Rightarrow> bare)
         | None \<Rightarrow> bare)"

fun first_tag :: "string list \<Rightarrow> string option" where
  "first_tag [] = None"
| "first_tag (p # ps) = (case strip_prefix ''tag='' (trim p) of Some rest \<Rightarrow> Some rest | None \<Rightarrow> first_tag ps)"

definition parse_tag :: "string \<Rightarrow> string option" where
  "parse_tag val = first_tag (tl (split_char CHR '';'' val))"

definition parse_cseq_number :: "string \<Rightarrow> dialog_error + 32 word" where
  "parse_cseq_number val =
     (case split_whitespace val of
        [] \<Rightarrow> Inl EmptyCSeq
      | num # _ \<Rightarrow> (case parse_uint 32 num of None \<Rightarrow> Inl (BadCSeq val) | Some n \<Rightarrow> Inr (of_nat n)))"

text \<open>The loop of \<^verbatim>\<open>split_route_header\<close>: nesting depth and octets since the last separator.\<close>

fun route_scan :: "string \<Rightarrow> int \<Rightarrow> string \<Rightarrow> string list" where
  "route_scan [] depth acc = (if trim acc \<noteq> [] then [trim acc] else [])"
| "route_scan (b # s) depth acc =
     (if b = CHR ''<'' then route_scan s (depth + 1) (acc @ [b])
      else if b = CHR ''>'' then route_scan s (depth - 1) (acc @ [b])
      else if b = CHR '','' \<and> depth = 0 then
        (if trim acc \<noteq> [] then [trim acc] else []) @ route_scan s depth []
      else route_scan s depth (acc @ [b]))"

definition split_route_header :: "string \<Rightarrow> string list" where
  "split_route_header val = route_scan val 0 []"

definition route_uri_has_lr :: "string \<Rightarrow> bool" where
  "route_uri_has_lr val =
     ((case split_once CHR ''<'' val of
         Some (_, rest) \<Rightarrow>
           (case split_once CHR ''>'' rest of
              Some (inside, _) \<Rightarrow> list_ex (\<lambda>p. trim p = ''lr'') (split_char CHR '';'' inside)
            | None \<Rightarrow> False)
       | None \<Rightarrow> False)
      \<or> list_ex (\<lambda>p. trim p = ''lr'') (split_char CHR '';'' val))"

subsection \<open>Making dialogs\<close>

definition record_routes :: "sip_headers \<Rightarrow> string list" where
  "record_routes hs = concat (map split_route_header (hdr_get_all hs ''record-route''))"

definition state_of_status :: "nat \<Rightarrow> dialog_error + dialog_state" where
  "state_of_status code =
     (if 200 \<le> code \<and> code < 300 then Inr DlgConfirmed
      else if 100 \<le> code \<and> code < 200 then Inr DlgEarly
      else Inl (BadDialogStatus code))"

definition from_uac_response :: "sip_request \<Rightarrow> sip_response \<Rightarrow> dialog_config \<Rightarrow> dialog_error + dialog" where
  "from_uac_response request response cfg =
     res_bind (ok_or NoCallId (hdr_get (req_headers request) ''call-id'')) (\<lambda>call_id.
     res_bind (ok_or NoFrom (hdr_get (req_headers request) ''from'')) (\<lambda>from_v.
     res_bind (ok_or NoTo (hdr_get (resp_headers response) ''to'')) (\<lambda>to_v.
     res_bind (ok_or (NoFromTag from_v) (parse_tag from_v)) (\<lambda>local_tag.
     res_bind (ok_or (NoToTag to_v) (parse_tag to_v)) (\<lambda>remote_tag.
     res_bind (ok_or NoContact (map_option extract_uri (hdr_get (resp_headers response) ''contact''))) (\<lambda>remote_target.
     res_bind (ok_or NoCSeq (hdr_get (req_headers request) ''cseq'')) (\<lambda>cseq_v.
     res_bind (parse_cseq_number cseq_v) (\<lambda>invite_cseq.
     res_bind (state_of_status (resp_status response)) (\<lambda>state.
       Inr \<lparr>dlg_id = \<lparr>dlg_call_id = call_id, dlg_local_tag = local_tag, dlg_remote_tag = remote_tag\<rparr>,
            dlg_state = state, dlg_local_uri = cfg_local_uri cfg, dlg_remote_uri = cfg_remote_uri cfg,
            dlg_remote_target = remote_target, dlg_route_set = rev (record_routes (resp_headers response)),
            dlg_local_cseq = invite_cseq + 1, dlg_local_contact = cfg_local_contact cfg,
            dlg_sent_by = cfg_sent_by cfg\<rparr>)))))))))"

definition from_uas_invite :: "sip_request \<Rightarrow> sip_response \<Rightarrow> dialog_config \<Rightarrow> dialog_error + dialog" where
  "from_uas_invite invite response cfg =
     res_bind (ok_or NoCallId (hdr_get (req_headers invite) ''call-id'')) (\<lambda>call_id.
     res_bind (ok_or NoFrom (hdr_get (req_headers invite) ''from'')) (\<lambda>from_v.
     res_bind (ok_or NoTo (hdr_get (resp_headers response) ''to'')) (\<lambda>to_v.
     res_bind (ok_or (NoFromTag from_v) (parse_tag from_v)) (\<lambda>remote_tag.
     res_bind (ok_or (NoToTag to_v) (parse_tag to_v)) (\<lambda>local_tag.
     res_bind (ok_or NoContact (map_option extract_uri (hdr_get (req_headers invite) ''contact''))) (\<lambda>remote_target.
     res_bind (state_of_status (resp_status response)) (\<lambda>state.
       Inr \<lparr>dlg_id = \<lparr>dlg_call_id = call_id, dlg_local_tag = local_tag, dlg_remote_tag = remote_tag\<rparr>,
            dlg_state = state, dlg_local_uri = cfg_local_uri cfg, dlg_remote_uri = cfg_remote_uri cfg,
            dlg_remote_target = remote_target, dlg_route_set = record_routes (req_headers invite),
            dlg_local_cseq = 1, dlg_local_contact = cfg_local_contact cfg,
            dlg_sent_by = cfg_sent_by cfg\<rparr>)))))))"

definition confirm :: "dialog \<Rightarrow> sip_response \<Rightarrow> dialog_error + dialog" where
  "confirm d response =
     res_bind (ok_or NoContact (map_option extract_uri (hdr_get (resp_headers response) ''contact''))) (\<lambda>remote_target.
       let d1 = d\<lparr>dlg_remote_target := remote_target,
                  dlg_route_set := rev (record_routes (resp_headers response))\<rparr>;
           d2 = (case hdr_get (resp_headers response) ''to'' of
                   Some to_v \<Rightarrow>
                     (case parse_tag to_v of
                        Some tag \<Rightarrow> d1\<lparr>dlg_id := (dlg_id d1)\<lparr>dlg_remote_tag := tag\<rparr>\<rparr>
                      | None \<Rightarrow> d1)
                 | None \<Rightarrow> d1)
       in Inr (d2\<lparr>dlg_state := DlgConfirmed\<rparr>))"

definition terminate :: "dialog \<Rightarrow> dialog" where
  "terminate d = d\<lparr>dlg_state := DlgTerminated\<rparr>"

subsection \<open>Requests inside a dialog\<close>

definition compute_request_uri_and_route :: "dialog \<Rightarrow> string \<times> string list" where
  "compute_request_uri_and_route d =
     (case dlg_route_set d of
        [] \<Rightarrow> (dlg_remote_target d, [])
      | r # rs \<Rightarrow>
          if route_uri_has_lr r then (dlg_remote_target d, r # rs)
          else (extract_uri r, rs @ [''<'' @ dlg_remote_target d @ ''>'']))"

definition next_hop_uri :: "dialog \<Rightarrow> string" where
  "next_hop_uri d = (case dlg_route_set d of [] \<Rightarrow> dlg_remote_target d | r # _ \<Rightarrow> extract_uri r)"

definition next_hop_socket :: "dialog \<Rightarrow> socket_addr \<Rightarrow> socket_addr" where
  "next_hop_socket d fallback =
     (case parse_sip_uri (next_hop_uri d) of
        Inl _ \<Rightarrow> fallback
      | Inr parts \<Rightarrow>
          (case uri_port parts of
             None \<Rightarrow> fallback
           | Some port \<Rightarrow>
               (let host = uri_host parts;
                    parsed_ip = (case Option.bind (strip_prefix ''['' host) (strip_suffix '']'') of
                                   Some stripped \<Rightarrow> parse_ip stripped
                                 | None \<Rightarrow> parse_ip host)
                in case parsed_ip of
                     Some ip \<Rightarrow> \<lparr>sa_ip = ip, sa_port = port\<rparr>
                   | None \<Rightarrow> fallback)))"

definition add_route :: "string \<Rightarrow> sip_headers \<Rightarrow> sip_headers" where
  "add_route route hs =
     (if starts_with ''<'' route then hdr_add ''Route'' route hs else hdr_add ''Route'' (''<'' @ route @ ''>'') hs)"

definition fill_common_headers ::
  "dialog \<Rightarrow> 64 word \<Rightarrow> string \<Rightarrow> 32 word \<Rightarrow> string list \<Rightarrow> bool \<Rightarrow> sip_request \<Rightarrow> sip_request" where
  "fill_common_headers d rnd method_name cseq route_headers with_contact req =
     (let hs1 = hdr_set ''Via'' (''SIP/2.0/UDP '' @ dlg_sent_by d @ '';branch='' @ new_branch rnd) (req_headers req);
          hs2 = hdr_set ''Max-Forwards'' ''70'' hs1;
          hs3 = hdr_set ''From'' (''<'' @ dlg_local_uri d @ ''>;tag='' @ dlg_local_tag (dlg_id d)) hs2;
          hs4 = hdr_set ''To'' (''<'' @ dlg_remote_uri d @ ''>;tag='' @ dlg_remote_tag (dlg_id d)) hs3;
          hs5 = hdr_set ''Call-ID'' (dlg_call_id (dlg_id d)) hs4;
          hs6 = hdr_set ''CSeq'' (dec (unat cseq) @ '' '' @ method_name) hs5;
          hs7 = fold add_route route_headers hs6;
          hs8 = (if with_contact then hdr_set ''Contact'' (''<'' @ dlg_local_contact d @ ''>'') hs7 else hs7);
          hs9 = hdr_set ''User-Agent'' ''hikari-sip/0.1'' hs8
      in req\<lparr>req_headers := hs9\<rparr>)"

definition build_ack_for_2xx :: "dialog \<Rightarrow> 64 word \<Rightarrow> 32 word \<Rightarrow> sip_request" where
  "build_ack_for_2xx d rnd invite_cseq =
     (let (request_uri, route_headers) = compute_request_uri_and_route d
      in fill_common_headers d rnd ''ACK'' invite_cseq route_headers False (request_new Ack request_uri))"

text \<open>\<^verbatim>\<open>fetch_add\<close> on the counter: the old value, and the dialog with the counter advanced.\<close>

definition draw_cseq :: "dialog \<Rightarrow> 32 word \<times> dialog" where
  "draw_cseq d = (dlg_local_cseq d, d\<lparr>dlg_local_cseq := dlg_local_cseq d + 1\<rparr>)"

definition build_bye :: "dialog \<Rightarrow> 64 word \<Rightarrow> sip_request \<times> dialog" where
  "build_bye d rnd =
     (let (cseq, d') = draw_cseq d;
          (request_uri, route_headers) = compute_request_uri_and_route d'
      in (fill_common_headers d' rnd ''BYE'' cseq route_headers True (request_new Bye request_uri), d'))"

definition build_notify_refer_sipfrag :: "dialog \<Rightarrow> 64 word \<Rightarrow> string \<Rightarrow> string \<Rightarrow> sip_request \<times> dialog" where
  "build_notify_refer_sipfrag d rnd status_line subscription_state =
     (let (cseq, d') = draw_cseq d;
          (request_uri, route_headers) = compute_request_uri_and_route d';
          req = fill_common_headers d' rnd ''NOTIFY'' cseq route_headers True (request_new Notify request_uri);
          hs1 = hdr_set ''Event'' ''refer'' (req_headers req);
          hs2 = hdr_set ''Subscription-State'' subscription_state hs1;
          hs3 = hdr_set ''Content-Type'' ''message/sipfrag;version=2.0'' hs2
      in (req\<lparr>req_headers := hs3, req_body := status_line @ crlf\<rparr>, d'))"

definition build_reinvite :: "dialog \<Rightarrow> 64 word \<Rightarrow> string option \<Rightarrow> nat \<Rightarrow> nat \<Rightarrow> sip_request \<times> dialog" where
  "build_reinvite d rnd sdp_body session_expires_secs min_se_secs =
     (let (cseq, d') = draw_cseq d;
          (request_uri, route_headers) = compute_request_uri_and_route d';
          req = fill_common_headers d' rnd ''INVITE'' cseq route_headers True (request_new Invite request_uri);
          hs1 = hdr_set ''Session-Expires'' (dec session_expires_secs @ '';refresher=uac'') (req_headers req);
          hs2 = hdr_set ''Min-SE'' (dec min_se_secs) hs1;
          hs3 = hdr_set ''Supported'' ''timer'' hs2
      in (case sdp_body of
            Some body \<Rightarrow> (req\<lparr>req_headers := hdr_set ''Content-Type'' ''application/sdp'' hs3, req_body := body\<rparr>, d')
          | None \<Rightarrow> (req\<lparr>req_headers := hs3\<rparr>, d')))"

section \<open>Sessions\<close>

text \<open>A dialog in use: each request drawn from it is sent, and the counter moves on.\<close>

datatype dialog_event =
    SendBye "64 word"
  | SendNotify "64 word" string string
  | SendReinvite "64 word" "string option" nat nat
  | Terminate

fun dialog_step :: "dialog \<times> sip_request list \<Rightarrow> dialog_event \<Rightarrow> dialog \<times> sip_request list" where
  "dialog_step (d, sent) (SendBye r) = (let (q, d') = build_bye d r in (d', sent @ [q]))"
| "dialog_step (d, sent) (SendNotify r st sub) =
     (let (q, d') = build_notify_refer_sipfrag d r st sub in (d', sent @ [q]))"
| "dialog_step (d, sent) (SendReinvite r body se mse) =
     (let (q, d') = build_reinvite d r body se mse in (d', sent @ [q]))"
| "dialog_step (d, sent) Terminate = (terminate d, sent)"

section \<open>Headers of the requests\<close>

definition bracketed :: "string \<Rightarrow> string" where
  "bracketed r = (if starts_with ''<'' r then r else ''<'' @ r @ ''>'')"

lemma add_route_hdr: "add_route r hs = hdr_add ''Route'' (bracketed r) hs"
  by (simp add: add_route_def bracketed_def)

lemma get_all_add_routes:
  "hdr_get_all (fold add_route rs hs) n =
     hdr_get_all hs n @ (if normalize_header_name n = ''route'' then map bracketed rs else [])"
  by (induction rs arbitrary: hs) (simp_all add: add_route_hdr hdr_simps)

lemma get_add_routes [hdr_simps]:
  "normalize_header_name n \<noteq> ''route'' \<Longrightarrow> hdr_get (fold add_route rs hs) n = hdr_get hs n"
  by (simp add: hdr.get_hd get_all_add_routes)

lemmas request_defs = fill_common_headers_def request_new_def Let_def

lemma fill_common_headers_get:
  "hdr_get (req_headers (fill_common_headers d r m c rs wc q)) ''cseq'' = Some (dec (unat c) @ '' '' @ m)"
  "hdr_get (req_headers (fill_common_headers d r m c rs wc q)) ''from'' =
     Some (''<'' @ dlg_local_uri d @ ''>;tag='' @ dlg_local_tag (dlg_id d))"
  "hdr_get (req_headers (fill_common_headers d r m c rs wc q)) ''to'' =
     Some (''<'' @ dlg_remote_uri d @ ''>;tag='' @ dlg_remote_tag (dlg_id d))"
  "hdr_get (req_headers (fill_common_headers d r m c rs wc q)) ''call-id'' = Some (dlg_call_id (dlg_id d))"
  "hdr_get_all (req_headers (fill_common_headers d r m c rs wc q)) ''route'' =
     hdr_get_all (req_headers q) ''route'' @ map bracketed rs"
  by (simp_all add: request_defs hdr_simps get_all_add_routes)

lemma fill_common_headers_frame [simp]:
  "req_method (fill_common_headers d r m c rs wc q) = req_method q"
  "req_uri (fill_common_headers d r m c rs wc q) = req_uri q"
  "req_body (fill_common_headers d r m c rs wc q) = req_body q"
  by (simp_all add: request_defs)

text \<open>What the three numbered requests have in common.\<close>

definition in_dialog_request :: "dialog \<Rightarrow> 32 word \<Rightarrow> sip_request \<Rightarrow> bool" where
  "in_dialog_request d c q \<longleftrightarrow>
     hdr_get (req_headers q) ''cseq'' = Some (dec (unat c) @ '' '' @ method_as_str (req_method q))
     \<and> hdr_get (req_headers q) ''from'' = Some (''<'' @ dlg_local_uri d @ ''>;tag='' @ dlg_local_tag (dlg_id d))
     \<and> hdr_get (req_headers q) ''to'' = Some (''<'' @ dlg_remote_uri d @ ''>;tag='' @ dlg_remote_tag (dlg_id d))
     \<and> hdr_get (req_headers q) ''call-id'' = Some (dlg_call_id (dlg_id d))
     \<and> req_uri q = fst (compute_request_uri_and_route d)
     \<and> hdr_get_all (req_headers q) ''route'' = map bracketed (snd (compute_request_uri_and_route d))"

lemma compute_draw [simp]:
  "compute_request_uri_and_route (d\<lparr>dlg_local_cseq := c\<rparr>) = compute_request_uri_and_route d"
  "compute_request_uri_and_route (d\<lparr>dlg_state := s\<rparr>) = compute_request_uri_and_route d"
  by (simp_all add: compute_request_uri_and_route_def split: list.splits)

lemma get_all_empty [simp]: "hdr_get_all [] n = []"
  by (simp add: hdr_get_all_def)

lemma in_dialog_request_draw [simp]: "in_dialog_request (d\<lparr>dlg_local_cseq := c'\<rparr>) c q = in_dialog_request d c q"
  by (simp add: in_dialog_request_def)

lemma in_dialog_build:
  "in_dialog_request d (dlg_local_cseq d) (fst (build_bye d r))"
  "in_dialog_request d (dlg_local_cseq d) (fst (build_notify_refer_sipfrag d r st sub))"
  "in_dialog_request d (dlg_local_cseq d) (fst (build_reinvite d r body se mse))"
proof -
  obtain u rs where c: "compute_request_uri_and_route d = (u, rs)" by fastforce
  note d = in_dialog_request_def draw_cseq_def c fill_common_headers_get hdr_simps request_new_def Let_def
  show "in_dialog_request d (dlg_local_cseq d) (fst (build_bye d r))"
    by (simp add: build_bye_def d)
  show "in_dialog_request d (dlg_local_cseq d) (fst (build_notify_refer_sipfrag d r st sub))"
    by (simp add: build_notify_refer_sipfrag_def d)
  show "in_dialog_request d (dlg_local_cseq d) (fst (build_reinvite d r body se mse))"
    by (simp add: build_reinvite_def d split: option.splits)
qed

lemma build_snd:
  "snd (build_bye d r) = d\<lparr>dlg_local_cseq := dlg_local_cseq d + 1\<rparr>"
  "snd (build_notify_refer_sipfrag d r st sub) = d\<lparr>dlg_local_cseq := dlg_local_cseq d + 1\<rparr>"
  "snd (build_reinvite d r body se mse) = d\<lparr>dlg_local_cseq := dlg_local_cseq d + 1\<rparr>"
  by (simp_all add: build_bye_def build_notify_refer_sipfrag_def build_reinvite_def draw_cseq_def Let_def
      split: prod.splits option.splits)

text \<open>The requests sent so far carry consecutive numbers, and the counter is the next one.\<close>

definition dialog_inv :: "dialog \<Rightarrow> dialog \<times> sip_request list \<Rightarrow> bool" where
  "dialog_inv d0 st \<longleftrightarrow>
     (let (d, sent) = st
      in (\<exists>s. d = d0\<lparr>dlg_local_cseq := dlg_local_cseq d0 + of_nat (length sent), dlg_state := s\<rparr>)
         \<and> list_all (\<lambda>(i, q). in_dialog_request d0 (dlg_local_cseq d0 + of_nat i) q) (enumerate 0 sent))"

lemma enumerate_snoc: "enumerate n (xs @ [x]) = enumerate n xs @ [(n + length xs, x)]"
  by (simp add: enumerate_append_eq)

lemma in_dialog_request_state [simp]: "in_dialog_request (d\<lparr>dlg_state := s\<rparr>) c q = in_dialog_request d c q"
  by (simp add: in_dialog_request_def)

lemma dialog_inv_send:
  assumes "dialog_inv d0 (d, sent)" "in_dialog_request d (dlg_local_cseq d) q"
    "d' = d\<lparr>dlg_local_cseq := dlg_local_cseq d + 1\<rparr>"
  shows "dialog_inv d0 (d', sent @ [q])"
proof -
  obtain s where s: "d = d0\<lparr>dlg_local_cseq := dlg_local_cseq d0 + of_nat (length sent), dlg_state := s\<rparr>"
    using assms(1) by (auto simp: dialog_inv_def)
  have "d' = d0\<lparr>dlg_local_cseq := dlg_local_cseq d0 + of_nat (length (sent @ [q])), dlg_state := s\<rparr>"
    using assms(3) by (simp add: s add.commute add.left_commute)
  moreover have "in_dialog_request d0 (dlg_local_cseq d0 + of_nat (length sent)) q" using assms(2) by (simp add: s)
  ultimately show ?thesis
    using assms(1) by (auto simp: dialog_inv_def enumerate_snoc)
qed

lemma dialog_inv_step: "dialog_inv d0 st \<Longrightarrow> dialog_inv d0 (dialog_step st e)"
proof -
  assume inv: "dialog_inv d0 st"
  obtain d sent where st: "st = (d, sent)" by fastforce
  note send = dialog_inv_send [OF inv [unfolded st]]
  show ?thesis
  proof (cases e)
    case (SendBye r)
    then show ?thesis using send [OF in_dialog_build(1) [of d r] build_snd(1) [of d r]] by (simp add: st split_beta)
  next
    case (SendNotify r s u)
    then show ?thesis using send [OF in_dialog_build(2) [of d r s u] build_snd(2) [of d r s u]] by (simp add: st split_beta)
  next
    case (SendReinvite r b se mse)
    then show ?thesis
      using send [OF in_dialog_build(3) [of d r b se mse] build_snd(3) [of d r b se mse]] by (simp add: st split_beta)
  next
    case Terminate
    then show ?thesis using inv by (auto simp: st terminate_def dialog_inv_def)
  qed
qed

interpretation dlg: inv_machine dialog_step "dialog_inv d0" for d0
  by unfold_locales (rule dialog_inv_step)

text \<open>What the invariant says of the requests: their numbers, and the fields that name the dialog.\<close>

lemma dialog_inv_numbers:
  assumes "dialog_inv d0 (d, sent)"
  shows "dlg_local_cseq d = dlg_local_cseq d0 + of_nat (length sent)"
    and "map (\<lambda>q. hdr_get (req_headers q) ''cseq'') sent =
         map (\<lambda>(i, q). Some (dec (unat (dlg_local_cseq d0 + of_nat i)) @ '' '' @ method_as_str (req_method q)))
           (enumerate 0 sent)"
    and "list_all (\<lambda>q. hdr_get (req_headers q) ''call-id'' = Some (dlg_call_id (dlg_id d0))
          \<and> hdr_get (req_headers q) ''from'' = Some (''<'' @ dlg_local_uri d0 @ ''>;tag='' @ dlg_local_tag (dlg_id d0))
          \<and> hdr_get (req_headers q) ''to'' = Some (''<'' @ dlg_remote_uri d0 @ ''>;tag='' @ dlg_remote_tag (dlg_id d0)))
         sent"
proof -
  have d: "\<exists>s. d = d0\<lparr>dlg_local_cseq := dlg_local_cseq d0 + of_nat (length sent), dlg_state := s\<rparr>"
    and q: "list_all (\<lambda>(i, q). in_dialog_request d0 (dlg_local_cseq d0 + of_nat i) q) (enumerate 0 sent)"
    using assms by (simp_all add: dialog_inv_def)
  from d show "dlg_local_cseq d = dlg_local_cseq d0 + of_nat (length sent)" by auto
  have s: "sent = map snd (enumerate 0 sent)" by simp
  have "map (\<lambda>q. hdr_get (req_headers q) ''cseq'') sent =
      map (\<lambda>(i, q). hdr_get (req_headers q) ''cseq'') (enumerate 0 sent)"
    by (subst s) (simp add: split_beta comp_def del: map_snd_enumerate)
  also have "\<dots> = map (\<lambda>(i, q). Some (dec (unat (dlg_local_cseq d0 + of_nat i)) @ '' '' @ method_as_str (req_method q)))
      (enumerate 0 sent)"
    using q by (intro map_cong refl) (auto simp: list_all_iff in_dialog_request_def)
  finally show "map (\<lambda>q. hdr_get (req_headers q) ''cseq'') sent = \<dots>" .
  have "\<forall>q \<in> set sent. \<exists>i. (i, q) \<in> set (enumerate 0 sent)"
    by (subst s) (auto simp del: map_snd_enumerate)
  then have "list_all (\<lambda>q. \<exists>c. in_dialog_request d0 c q) sent"
    using q by (fastforce simp: list_all_iff)
  then show "list_all (\<lambda>q. hdr_get (req_headers q) ''call-id'' = Some (dlg_call_id (dlg_id d0))
          \<and> hdr_get (req_headers q) ''from'' = Some (''<'' @ dlg_local_uri d0 @ ''>;tag='' @ dlg_local_tag (dlg_id d0))
          \<and> hdr_get (req_headers q) ''to'' = Some (''<'' @ dlg_remote_uri d0 @ ''>;tag='' @ dlg_remote_tag (dlg_id d0))) sent"
    by (auto simp: in_dialog_request_def list_all_iff)
qed

lemma dialog_inv_start: "dialog_inv d0 (d0, [])"
proof -
  have "\<exists>s. d0 = d0\<lparr>dlg_state := s\<rparr>" by (rule exI [of _ "dlg_state d0"]) simp
  then show ?thesis by (simp add: dialog_inv_def)
qed

section \<open>Route headers\<close>

text \<open>The loop keeps the non-empty trimmed parts between top-level commas.\<close>

lemma route_scan_split:
  "route_scan s depth acc =
     filter (\<lambda>p. p \<noteq> []) (map trim (prepend_hd acc (top_split CHR '','' depth s)))"
  by (induction s depth acc rule: route_scan.induct) simp_all

definition wf_route :: "string \<Rightarrow> bool" where
  "wf_route r \<longleftrightarrow>
     trim r = r \<and> (\<exists>u ps. r = ''<'' @ u @ ''>'' @ ps \<and> CHR ''<'' \<notin> set u \<and> CHR ''>'' \<notin> set u
       \<and> CHR ''<'' \<notin> set ps \<and> CHR ''>'' \<notin> set ps \<and> CHR '','' \<notin> set ps)"

lemma top_split_route:
  assumes "wf_route r"
  shows "top_split CHR '','' 0 (r @ t) = prepend_hd r (top_split CHR '','' 0 t)" "r \<noteq> []" "trim r = r"
  using assms by (auto simp: wf_route_def top_split_bracket top_split_skip simp del: top_split.simps)

lemma split_route_join:
  "rs \<noteq> [] \<Longrightarrow> list_all wf_route rs \<Longrightarrow> split_route_header (join '', '' rs) = rs"
proof (induction rs rule: list_nonempty_induct)
  case (single r)
  then have r: "wf_route r" by simp
  show ?case
    using top_split_route [OF r] top_split_route(1) [OF r, of "[]"]
    by (simp add: split_route_header_def route_scan_split)
next
  case (cons r rs)
  then have r: "wf_route r" by simp
  have "trim (SP # x) = trim x" for x by simp
  moreover obtain x xs where x: "top_split CHR '','' 0 (join '', '' rs) = x # xs"
    using top_split_ne by (metis neq_Nil_conv)
  ultimately have "split_route_header (r @ '', '' @ join '', '' rs) = r # split_route_header (join '', '' rs)"
    using top_split_route [OF r] by (simp add: split_route_header_def route_scan_split)
  with cons show ?case by (cases rs) auto
qed

lemma extract_uri_bracket:
  assumes "CHR ''>'' \<notin> set u" "trim (''<'' @ u @ ''>'' @ ps) = ''<'' @ u @ ''>'' @ ps"
  shows "extract_uri (''<'' @ u @ ''>'' @ ps) = u"
  using assms by (simp add: extract_uri_def Let_def split_once_append)

section \<open>Properties\<close>

text \<open>C30. However a dialog is used, the requests drawn from it carry consecutive CSeq numbers
  from the counter it started with, modulo two to the 32, each with its own method,
  and the tags, URIs and Call-ID that identify the dialog.\<close>

theorem dialog_requests_numbered:
  "case run_steps dialog_step (d0, []) evs of (d, sent) \<Rightarrow>
     dlg_local_cseq d = dlg_local_cseq d0 + of_nat (length sent)
     \<and> map (\<lambda>q. hdr_get (req_headers q) ''cseq'') sent =
         map (\<lambda>(i, q). Some (dec (unat (dlg_local_cseq d0 + of_nat i)) @ '' '' @ method_as_str (req_method q)))
           (enumerate 0 sent)
     \<and> list_all (\<lambda>q. hdr_get (req_headers q) ''call-id'' = Some (dlg_call_id (dlg_id d0))
          \<and> hdr_get (req_headers q) ''from'' = Some (''<'' @ dlg_local_uri d0 @ ''>;tag='' @ dlg_local_tag (dlg_id d0))
          \<and> hdr_get (req_headers q) ''to'' = Some (''<'' @ dlg_remote_uri d0 @ ''>;tag='' @ dlg_remote_tag (dlg_id d0)))
         sent"
proof (cases "run_steps dialog_step (d0, []) evs")
  case (Pair d sent)
  with dlg.run_inv [OF dialog_inv_start, of d0 evs] have "dialog_inv d0 (d, sent)" by simp
  from dialog_inv_numbers [OF this] Pair show ?thesis by simp
qed

text \<open>C36. The two ends of a call agree: the dialogs the caller and the callee make from the same
  INVITE and response have the same Call-ID, swapped tags and the same state; when the
  response echoes the Record-Route fields, the route sets are the reverse of each other.\<close>

theorem dialog_ends_agree:
  assumes "from_uac_response invite response cfg1 = Inr d1" "from_uas_invite invite response cfg2 = Inr d2"
  shows "dlg_call_id (dlg_id d1) = dlg_call_id (dlg_id d2)
    \<and> dlg_local_tag (dlg_id d1) = dlg_remote_tag (dlg_id d2)
    \<and> dlg_remote_tag (dlg_id d1) = dlg_local_tag (dlg_id d2)
    \<and> dlg_state d1 = dlg_state d2
    \<and> (hdr_get_all (resp_headers response) ''record-route'' = hdr_get_all (req_headers invite) ''record-route''
       \<longrightarrow> dlg_route_set d1 = rev (dlg_route_set d2))"
  using assms by (auto simp: from_uac_response_def from_uas_invite_def record_routes_def)

definition invite_ex :: sip_request where
  "invite_ex = \<lparr>req_method = Invite, req_uri = ''sip:b'',
     req_headers = [(''from'', ''<sip:a>;tag=1''), (''call-id'', ''c''), (''cseq'', ''7 INVITE''), (''contact'', ''<sip:x>''),
       (''record-route'', ''<sip:p1>''), (''record-route'', ''<sip:p2>'')], req_body = []\<rparr>"

definition response_ex :: sip_response where
  "response_ex = \<lparr>resp_status = 200, resp_reason = ''OK'',
     resp_headers = [(''to'', ''<sip:b>;tag=2''), (''contact'', ''<sip:y>''),
       (''record-route'', ''<sip:p1>''), (''record-route'', ''<sip:p2>'')], resp_body = []\<rparr>"

definition cfg_ex :: dialog_config where
  "cfg_ex = \<lparr>cfg_local_uri = ''sip:a'', cfg_remote_uri = ''sip:b'', cfg_local_contact = ''sip:a'', cfg_sent_by = ''h''\<rparr>"

lemma trim_ex: "trim ''tag=1'' = ''tag=1''" "trim ''tag=2'' = ''tag=2''" "trim ''7'' = ''7''" "trim ''<sip:x>'' = ''<sip:x>''"
  "trim ''<sip:y>'' = ''<sip:y>''" "trim ''<sip:p1>'' = ''<sip:p1>''" "trim ''<sip:p2>'' = ''<sip:p2>''"
  by (simp_all add: trim_def trim_start_id trim_end_id ws_eval)

lemma cseq_ex: "parse_cseq_number ''7 INVITE'' = Inr 7"
proof -
  have "trim_start ''7 INVITE'' = ''7 INVITE''" by (simp add: trim_start_id ws_eval)
  then have "hd (split_whitespace ''7 INVITE'') = ''7''" "split_whitespace ''7 INVITE'' \<noteq> []"
    by (subst split_whitespace.simps, simp add: Let_def ws_eval)+
  moreover have "parse_uint 32 ''7'' = Some 7"
    by (simp add: parse_uint_def is_digit_def digits_value_def octet_of_def)
  ultimately show ?thesis by (auto simp: parse_cseq_number_def split: list.splits)
qed

lemma dialogs_ex:
  "\<exists>d. from_uac_response invite_ex response_ex cfg_ex = Inr d" "\<exists>d. from_uas_invite invite_ex response_ex cfg_ex = Inr d"
  by (simp_all add: from_uac_response_def from_uas_invite_def invite_ex_def response_ex_def cfg_ex_def hdr_get_def
      hdr_simps parse_tag_def trim_ex strip_prefix_def cseq_ex state_of_status_def)

theorem dialog_ends_agree_witness:
  "\<exists>d1 d2. from_uac_response invite_ex response_ex cfg_ex = Inr d1 \<and> from_uas_invite invite_ex response_ex cfg_ex = Inr d2
     \<and> dlg_local_tag (dlg_id d1) = dlg_remote_tag (dlg_id d2) \<and> dlg_route_set d1 = rev (dlg_route_set d2)"
proof -
  obtain d1 d2 where d: "from_uac_response invite_ex response_ex cfg_ex = Inr d1"
    "from_uas_invite invite_ex response_ex cfg_ex = Inr d2"
    using dialogs_ex by blast
  have "hdr_get_all (resp_headers response_ex) ''record-route'' = hdr_get_all (req_headers invite_ex) ''record-route''"
    by (simp add: response_ex_def invite_ex_def hdr_get_all_def hdr_simps)
  with dialog_ends_agree [OF d] d show ?thesis by blast
qed

text \<open>Route header values that are joined into one line are taken apart again, whatever
  commas their URIs contain.\<close>

theorem route_header_split:
  assumes "rs \<noteq> []" "list_all wf_route rs"
  shows "split_route_header (join '', '' rs) = rs"
  using assms by (rule split_route_join)

theorem route_header_split_witness:
  "split_route_header (join '', '' [''<sip:a,b;lr>'', ''<sip:c>;x'']) = [''<sip:a,b;lr>'', ''<sip:c>;x'']"
proof (rule route_header_split)
  have t: "trim ''<sip:a,b;lr>'' = ''<sip:a,b;lr>''" "trim ''<sip:c>;x'' = ''<sip:c>;x''"
    by (simp_all add: trim_def trim_start_id trim_end_id ws_eval)
  have "wf_route ''<sip:a,b;lr>''"
    unfolding wf_route_def using t by (intro conjI exI [of _ "''sip:a,b;lr''"] exI [of _ "[]"]) simp_all
  moreover have "wf_route ''<sip:c>;x''"
    unfolding wf_route_def using t by (intro conjI exI [of _ "''sip:c''"] exI [of _ "'';x''"]) simp_all
  ultimately show "list_all wf_route [''<sip:a,b;lr>'', ''<sip:c>;x'']" by simp
qed simp

text \<open>A request inside a dialog goes to its topmost route: with a loose router first, the
  next hop is the URI of the first Route field and the Request-URI is the remote
  target; with a strict router first, the next hop is the Request-URI and the remote
  target is the last Route field; without routes both are the remote target.\<close>

theorem dialog_routing:
  assumes "list_all (starts_with ''<'') (dlg_route_set d)"
  shows "let q = fst (build_bye d rnd); routes = hdr_get_all (req_headers q) ''route''
    in if dlg_route_set d = [] then routes = [] \<and> req_uri q = dlg_remote_target d \<and> next_hop_uri d = req_uri q
       else if route_uri_has_lr (hd (dlg_route_set d)) then
         routes = dlg_route_set d \<and> req_uri q = dlg_remote_target d \<and> next_hop_uri d = extract_uri (hd routes)
       else routes = tl (dlg_route_set d) @ [''<'' @ dlg_remote_target d @ ''>''] \<and> next_hop_uri d = req_uri q"
proof -
  have b: "map bracketed rs = rs" if "list_all (starts_with ''<'') rs" for rs
    using that by (induction rs) (simp_all add: bracketed_def)
  have "in_dialog_request d (dlg_local_cseq d) (fst (build_bye d rnd))" by (rule in_dialog_build)
  then show ?thesis
    using assms b
    by (cases "dlg_route_set d")
      (simp_all add: in_dialog_request_def compute_request_uri_and_route_def next_hop_uri_def Let_def bracketed_def
        starts_with_def)
qed

definition dialog_ex :: dialog where
  "dialog_ex = \<lparr>dlg_id = \<lparr>dlg_call_id = ''c'', dlg_local_tag = ''1'', dlg_remote_tag = ''2''\<rparr>, dlg_state = DlgConfirmed,
     dlg_local_uri = ''sip:a'', dlg_remote_uri = ''sip:b'', dlg_remote_target = ''sip:b@h'',
     dlg_route_set = [''<sip:p@118.177.125.1:5060;lr=>''], dlg_local_cseq = 2, dlg_local_contact = ''sip:a'', dlg_sent_by = ''h''\<rparr>"

theorem dialog_routing_witness:
  "\<not> route_uri_has_lr (hd (dlg_route_set dialog_ex))
   \<and> hdr_get_all (req_headers (fst (build_bye dialog_ex 0))) ''route'' = [''<sip:b@h>'']
   \<and> next_hop_uri dialog_ex = req_uri (fst (build_bye dialog_ex 0))"
proof -
  have "trim ''lr=>'' = ''lr=>''" "trim ''lr='' = ''lr=''" "trim ''<sip:p@118.177.125.1:5060'' = ''<sip:p@118.177.125.1:5060''"
    "trim ''sip:p@118.177.125.1:5060'' = ''sip:p@118.177.125.1:5060''"
    by (simp_all add: trim_def trim_start_id trim_end_id ws_eval)
  then have "\<not> route_uri_has_lr (hd (dlg_route_set dialog_ex))"
    by (simp add: dialog_ex_def route_uri_has_lr_def)
  with dialog_routing [of dialog_ex 0] show ?thesis
    by (simp add: Let_def starts_with_def) (simp add: dialog_ex_def starts_with_def)
qed

text \<open>When the topmost route is an IPv4 address with a port, a request inside the dialog is
  sent to exactly that socket address, and the fallback is not used.\<close>

theorem dialog_next_hop_ipv4:
  assumes "dlg_route_set d = (''<'' @ uri_text user (ip_display ip) port params @ ''>'') # rs"
    and "ip = V4 a b c e" "wf_ip ip" "port < 2 ^ 16" "list_all uri_octet user" "list_all wf_uri_param params"
    and "CHR ''>'' \<notin> set (uri_text user (ip_display ip) port params)"
  shows "next_hop_socket d fallback = \<lparr>sa_ip = ip, sa_port = port\<rparr>"
proof -
  let ?h = "ip_display ip" and ?u = "uri_text user (ip_display ip) port params"
  have oct: "ip_char x \<Longrightarrow> x \<noteq> CHR '':'' \<Longrightarrow> uri_octet x" for x
    by (auto simp: ip_char_def uri_octet_def is_digit_def octet_of_def)
  have "dec n \<noteq> []" for n using dec_digits by blast
  moreover have nc: "CHR '':'' \<notin> set ?h"
    using uri_octets(2) [OF dec_uri_octets] by (auto simp: assms(2) v4_display_def)
  ultimately have h: "?h \<noteq> []" "list_all uri_octet ?h"
    using ip_display_chars [of ip] oct by (auto simp: list_all_iff assms(2) v4_display_def)
  then have wfh: "wf_uri_host ?h" by (simp add: wf_uri_host_def)
  have g: "list_all graphic ?u"
    using uri_octets(1) [OF assms(5)] uri_octets(1) [OF h(2)] uri_octets(1) [OF dec_uri_octets]
      uri_param_octets [OF assms(6)]
    by (simp add: uri_text_def list_all_append) (auto simp: list_all_iff graphic_def octet_of_def)
  then have "trim (''<'' @ ?u @ ''>'' @ []) = ''<'' @ ?u @ ''>'' @ []"
    by (intro trim_graphic) (simp add: graphic_def octet_of_def)
  from extract_uri_bracket [OF assms(7) this]
  have n: "next_hop_uri d = ?u" using assms(1) by (simp add: next_hop_uri_def)
  have "strip_prefix ''['' ?h = None"
    using uri_octets(2) [OF h(2), of "CHR ''[''"] h(1) by (cases ?h) (auto simp: strip_prefix_def)
  moreover have "parse_ip ?h = Some ip" using parse_ip_v4 [of a b c e] assms(2,3) by simp
  ultimately show ?thesis
    unfolding next_hop_socket_def n sip_uri_parse_parts [OF assms(5) wfh assms(4,6)] by simp
qed

theorem dialog_next_hop_ipv4_witness:
  "next_hop_socket dialog_ex \<lparr>sa_ip = V4 127 0 0 1, sa_port = 9\<rparr> = \<lparr>sa_ip = V4 118 177 125 1, sa_port = 5060\<rparr>"
proof (rule dialog_next_hop_ipv4)
  have "uri_text ''p'' (ip_display (V4 118 177 125 1)) 5060 [(''lr'', [])] = ''sip:p@118.177.125.1:5060;lr=''"
    by (simp add: uri_text_def v4_display_def dec.simps digit_char_def char_eval)
  then show "dlg_route_set dialog_ex = (''<'' @ uri_text ''p'' (ip_display (V4 118 177 125 1)) 5060 [(''lr'', [])] @ ''>'') # []"
    and "CHR ''>'' \<notin> set (uri_text ''p'' (ip_display (V4 118 177 125 1)) 5060 [(''lr'', [])])"
    by (simp_all add: dialog_ex_def)
qed (simp_all add: uri_octet_def wf_uri_param_def char_eval)

section \<open>Two readings of a tag\<close>

text \<open>
  \<^verbatim>\<open>parse_tag\<close> compares the parameter name exactly and does not know angle brackets,
  so it disagrees with \<^verbatim>\<open>has_to_tag\<close> on the case of the name and on parameters of the URI.
\<close>

lemma tag_readings_differ:
  "has_to_tag ''<sip:a>;Tag=x'' \<and> parse_tag ''<sip:a>;Tag=x'' = None
   \<and> \<not> has_to_tag ''<sip:a;tag=f>'' \<and> parse_tag ''<sip:a;tag=f>'' = Some ''f>''"
proof -
  have "trim ''Tag=x'' = ''Tag=x''" "trim ''tag=f>'' = ''tag=f>''"
    by (simp_all add: trim_def trim_start_id trim_end_id ws_eval)
  then show ?thesis
    by (simp add: has_to_tag_def parse_tag_def strip_prefix_def param_is_nonempty_tag_def eq_ignore_case_def char_eval)
qed

end
