(* ===== verification/Sip_Transaction.thy ===== *)
theory Sip_Transaction
  imports Sip_Utils Rust_Net
begin

text \<open>
  Transaction identifiers and the messages the transaction layer makes, from
  \<^verbatim>\<open>src/src/sip/transaction.rs\<close>: matching by branch, sent-by and method, the rewriting of
  the Via field of a response, the ACK of a refused INVITE and the skeleton of a
  response. Durations are milliseconds; the random tag is an argument. The facts:
  the rewritten Via still names the same transaction, so every response the program
  sends is matched to the request it answers, and the ACK to the INVITE it ends.
\<close>

section \<open>Timers\<close>

definition T1 :: nat where "T1 = 500"
definition T2 :: nat where "T2 = 4000"
definition T4 :: nat where "T4 = 5000"
definition TIMER_B :: nat where "TIMER_B = 64 * 500"
definition TIMER_F :: nat where "TIMER_F = 64 * 500"
definition TIMER_D :: nat where "TIMER_D = 32000"
definition TIMER_K :: nat where "TIMER_K = T4"
definition TIMER_H :: nat where "TIMER_H = 64 * 500"
definition TIMER_I :: nat where "TIMER_I = T4"
definition TIMER_J :: nat where "TIMER_J = 64 * 500"
definition MAX_UDP_DATAGRAM_SIZE :: nat where "MAX_UDP_DATAGRAM_SIZE = 65535"

lemmas timer_defs = T1_def T2_def T4_def TIMER_B_def TIMER_F_def TIMER_D_def TIMER_K_def TIMER_H_def
  TIMER_I_def TIMER_J_def

section \<open>Transaction identifiers\<close>

record transaction_id =
  tx_branch :: string
  tx_sent_by :: string
  tx_method :: sip_method

datatype tx_error =
    NoVia | NoBranch | NoSentBy | NoCSeqHeader | NoCSeqMethod | EmptyMethod
  | NoInviteFrom | NoResponseTo | NoInviteCallId | NoCSeqNumber
  | TxTimeout | LayerStopped

text \<open>The loop over the Via parameters: the last branch wins.\<close>

fun via_branch :: "string list \<Rightarrow> string \<Rightarrow> string" where
  "via_branch [] branch = branch"
| "via_branch (part # parts) branch =
     via_branch parts
       (case strip_prefix ''branch='' (trim part) of Some rest \<Rightarrow> trim_quotes rest | None \<Rightarrow> branch)"

definition via_sent_by :: "string \<Rightarrow> string" where
  "via_sent_by part = (case split_once SP (trim part) of Some (_, h) \<Rightarrow> trim h | None \<Rightarrow> [])"

definition parse_via :: "string \<Rightarrow> tx_error + string \<times> string" where
  "parse_via via =
     (let parts = split_char CHR '';'' via;
          sent_by = via_sent_by (hd parts);
          branch = via_branch (tl parts) []
      in if branch = [] then Inl NoBranch
         else if sent_by = [] then Inl NoSentBy
         else Inr (branch, sent_by))"

definition id_from_request :: "sip_request \<Rightarrow> tx_error + transaction_id" where
  "id_from_request req =
     res_bind (ok_or NoVia (hdr_get (req_headers req) ''via'')) (\<lambda>via.
     res_bind (parse_via via) (\<lambda>(branch, sent_by).
       Inr \<lparr>tx_branch = branch, tx_sent_by = sent_by, tx_method = req_method req\<rparr>))"

definition id_from_response :: "sip_response \<Rightarrow> tx_error + transaction_id" where
  "id_from_response resp =
     res_bind (ok_or NoVia (hdr_get (resp_headers resp) ''via'')) (\<lambda>via.
     res_bind (parse_via via) (\<lambda>(branch, sent_by).
     res_bind (ok_or NoCSeqHeader (hdr_get (resp_headers resp) ''cseq'')) (\<lambda>cseq.
     res_bind (ok_or NoCSeqMethod (case split_whitespace cseq of _ # m # _ \<Rightarrow> Some m | _ \<Rightarrow> None)) (\<lambda>method_str.
     res_bind (ok_or EmptyMethod (method_from_str method_str)) (\<lambda>m.
       Inr \<lparr>tx_branch = branch, tx_sent_by = sent_by, tx_method = m\<rparr>)))))"

section \<open>The Via field of a response\<close>

definition via_sent_by_host :: "string \<Rightarrow> string" where
  "via_sent_by_host sent_by =
     (let s = trim sent_by
      in if starts_with ''['' s then (case split_once CHR '']'' s of Some (a, _) \<Rightarrow> a @ '']'' | None \<Rightarrow> s)
         else (case rsplit_once CHR '':'' s of
                 Some (host, port) \<Rightarrow> if list_all is_digit port \<and> port \<noteq> [] then host else s
               | None \<Rightarrow> s))"

definition ip_for_via_host :: "socket_addr \<Rightarrow> string" where
  "ip_for_via_host addr =
     (case sa_ip addr of
        V4 a b c d \<Rightarrow> ip_display (V4 a b c d)
      | V6 s \<Rightarrow> ''['' @ ip_display (V6 s) @ '']'')"

definition is_param :: "string \<Rightarrow> string \<Rightarrow> bool" where
  "is_param name p \<longleftrightarrow> p = name \<or> starts_with (name @ ''='') p"

fun put_param :: "string \<Rightarrow> string \<Rightarrow> string list \<Rightarrow> string list" where
  "put_param name v [] = [v]"
| "put_param name v (p # ps) = (if is_param name p then v # ps else p # put_param name v ps)"

fun replace_param :: "string \<Rightarrow> string \<Rightarrow> string list \<Rightarrow> string list" where
  "replace_param name v [] = []"
| "replace_param name v (p # ps) = (if is_param name p then v # ps else p # replace_param name v ps)"

definition apply_rport_to_via_for_response :: "string \<Rightarrow> socket_addr \<Rightarrow> string" where
  "apply_rport_to_via_for_response via remote =
     (let parts = split_char CHR '';'' (trim via);
          head = trim (hd parts);
          sent_by = (case split_once SP head of Some (_, h) \<Rightarrow> trim h | None \<Rightarrow> []);
          params = map trim (tl parts);
          has_rport = list_ex (is_param ''rport'') params;
          need_received = (has_rport \<or> via_sent_by_host sent_by \<noteq> ip_for_via_host remote)
      in if \<not> has_rport \<and> \<not> need_received then via
         else (let params1 = (if need_received then put_param ''received'' (''received='' @ ip_display (sa_ip remote)) params
                              else params);
                   params2 = (if has_rport then replace_param ''rport'' (''rport='' @ dec (sa_port remote)) params1
                              else params1)
               in head @ concat (map (\<lambda>p. CHR '';'' # p) params2)))"

definition response_destination_for :: "string \<Rightarrow> socket_addr \<Rightarrow> socket_addr" where
  "response_destination_for via remote = remote"

section \<open>Messages the layer makes\<close>

definition new_uas_to_tag :: "32 word \<Rightarrow> string" where
  "new_uas_to_tag r = ''sabiden-'' @ hex_fixed 8 (unat r)"

definition copy_header :: "string \<Rightarrow> string \<Rightarrow> sip_headers \<Rightarrow> sip_headers \<Rightarrow> sip_headers" where
  "copy_header key name from_hs hs = (case hdr_get from_hs key of Some v \<Rightarrow> hdr_set name v hs | None \<Rightarrow> hs)"

definition build_response_skeleton :: "32 word \<Rightarrow> sip_request \<Rightarrow> nat \<Rightarrow> string \<Rightarrow> sip_response" where
  "build_response_skeleton rnd request status reason =
     (let rq = req_headers request;
          hs1 = copy_header ''via'' ''Via'' rq [];
          hs2 = copy_header ''from'' ''From'' rq hs1;
          hs3 = (case hdr_get rq ''to'' of
                   Some to_v \<Rightarrow>
                     hdr_set ''To''
                       (if status \<noteq> 100 \<and> \<not> has_to_tag to_v then to_v @ '';tag='' @ new_uas_to_tag rnd else to_v) hs2
                 | None \<Rightarrow> hs2);
          hs4 = copy_header ''call-id'' ''Call-ID'' rq hs3;
          hs5 = copy_header ''cseq'' ''CSeq'' rq hs4;
          hs6 = fold (hdr_add ''Record-Route'') (hdr_get_all rq ''record-route'') hs5;
          hs7 = copy_header ''timestamp'' ''Timestamp'' rq hs6
      in \<lparr>resp_status = status, resp_reason = reason, resp_headers = hs7, resp_body = []\<rparr>)"

definition build_non2xx_ack :: "sip_request \<Rightarrow> sip_response \<Rightarrow> tx_error + sip_request" where
  "build_non2xx_ack invite response =
     (let iv = req_headers invite
      in res_bind (ok_or NoVia (hdr_get iv ''via'')) (\<lambda>via.
         res_bind (ok_or NoInviteFrom (hdr_get iv ''from'')) (\<lambda>from_v.
         res_bind (ok_or NoResponseTo (hdr_get (resp_headers response) ''to'')) (\<lambda>to_v.
         res_bind (ok_or NoInviteCallId (hdr_get iv ''call-id'')) (\<lambda>call_id.
         res_bind (ok_or NoCSeqHeader (hdr_get iv ''cseq'')) (\<lambda>cseq.
         res_bind (ok_or NoCSeqNumber (case split_whitespace cseq of n # _ \<Rightarrow> Some n | [] \<Rightarrow> None)) (\<lambda>seq_num.
           let hs1 = hdr_set ''Via'' via [];
               hs2 = hdr_set ''From'' from_v hs1;
               hs3 = hdr_set ''To'' to_v hs2;
               hs4 = hdr_set ''Call-ID'' call_id hs3;
               hs5 = hdr_set ''CSeq'' (seq_num @ '' ACK'') hs4;
               mf = (case hdr_get iv ''max-forwards'' of Some v \<Rightarrow> v | None \<Rightarrow> ''70'');
               hs6 = hdr_set ''Max-Forwards'' mf hs5;
               hs7 = fold (hdr_add ''Route'') (hdr_get_all iv ''route'') hs6
           in Inr ((request_new Ack (req_uri invite))\<lparr>req_headers := hs7\<rparr>))))))))"

fun reason_text :: "parse_error \<Rightarrow> string" where
  "reason_text Empty = ''empty''"
| "reason_text NoCrlfCrlf = ''no-crlfcrlf''"
| "reason_text (Truncated _ _) = ''content-length-truncated''"
| "reason_text (DuplicateContentLength _) = ''duplicate-content-length''"
| "reason_text (NonNumericContentLength _) = ''non-numeric-content-length''"
| "reason_text (MalformedRequestLine _) = ''malformed-request-line''"
| "reason_text (BadStatusCode _) = ''bad-status-code''"
| "reason_text (UnknownMethod _) = ''unknown-method''"

section \<open>Facts on Via\<close>

lemma is_param_no_branch: "is_param name p \<Longrightarrow> name \<in> {''received'', ''rport''} \<Longrightarrow> strip_prefix ''branch='' p = None"
  by (cases p) (auto simp: is_param_def starts_with_def strip_prefix_def)

lemma via_branch_append: "via_branch (ps @ qs) b = via_branch qs (via_branch ps b)"
  by (induction ps arbitrary: b) simp_all

lemma via_branch_skip: "strip_prefix ''branch='' (trim v) = None \<Longrightarrow> via_branch (v # ps) b = via_branch ps b"
  by simp

lemma via_branch_trim: "via_branch (map trim ps) b = via_branch ps b"
  by (induction ps arbitrary: b) simp_all

lemma via_branch_put_param:
  assumes "name \<in> {''received'', ''rport''}" "strip_prefix ''branch='' (trim v) = None" "\<forall>p \<in> set ps. trim p = p"
  shows "via_branch (put_param name v ps) b = via_branch ps b"
    "via_branch (replace_param name v ps) b = via_branch ps b"
proof -
  have "is_param name p \<Longrightarrow> strip_prefix ''branch='' p = None" for p
    using is_param_no_branch assms(1) by blast
  then show "via_branch (put_param name v ps) b = via_branch ps b"
    "via_branch (replace_param name v ps) b = via_branch ps b"
    using assms(2,3) by (induction ps arbitrary: b) auto
qed

lemma put_param_set: "set (put_param name v ps) \<subseteq> insert v (set ps)" "set (replace_param name v ps) \<subseteq> insert v (set ps)"
  by (induction ps) auto

lemma split_char_written:
  "CHR '';'' \<notin> set h \<Longrightarrow> \<forall>p \<in> set ps. CHR '';'' \<notin> set p \<Longrightarrow>
   split_char CHR '';'' (h @ concat (map (\<lambda>p. CHR '';'' # p) ps)) = h # ps"
  by (induction ps arbitrary: h) (simp_all add: split_char_none split_char_append)

lemma trim_subset: "c \<in> set (trim s) \<Longrightarrow> c \<in> set s"
  using trim_infix [of s] by (metis Un_iff set_append)

lemma ip_char_no_semi: "list_all ip_char s \<Longrightarrow> CHR '';'' \<notin> set s"
  by (auto simp: list_all_iff ip_char_def is_digit_def octet_of_def)

lemma received_param: "CHR '';'' \<notin> set (''received='' @ ip_display ip)" "CHR '';'' \<notin> set (''rport='' @ dec n)"
  using ip_char_no_semi [OF ip_display_chars] ip_char_no_semi [OF dec_ip_chars] by simp_all

lemma no_branch_prefix: "c \<noteq> CHR ''b'' \<Longrightarrow> list_all graphic (c # s) \<Longrightarrow> strip_prefix ''branch='' (trim (c # s)) = None"
  by (simp add: trim_graphic strip_prefix_def)

lemma new_params_no_branch:
  "strip_prefix ''branch='' (trim (''received='' @ ip_display ip)) = None"
  "strip_prefix ''branch='' (trim (''rport='' @ dec n)) = None"
proof -
  have "list_all graphic (''received='' @ ip_display ip)" "list_all graphic (''rport='' @ dec n)"
    using ip_graphic(1) [of ip] ip_graphic(2) [of n] by (simp_all add: graphic_def octet_of_def)
  then show "strip_prefix ''branch='' (trim (''received='' @ ip_display ip)) = None"
    "strip_prefix ''branch='' (trim (''rport='' @ dec n)) = None"
    using no_branch_prefix by simp_all
qed

text \<open>The parameters after the rewriting, and what they keep.\<close>

definition via_params :: "bool \<Rightarrow> bool \<Rightarrow> socket_addr \<Rightarrow> string list \<Rightarrow> string list" where
  "via_params need has remote params =
     (let params1 = (if need then put_param ''received'' (''received='' @ ip_display (sa_ip remote)) params else params)
      in if has then replace_param ''rport'' (''rport='' @ dec (sa_port remote)) params1 else params1)"

lemma trim_new_params [simp]:
  "trim (''received='' @ ip_display ip) = ''received='' @ ip_display ip" "trim (''rport='' @ dec n) = ''rport='' @ dec n"
  using ip_graphic(1) [of ip] ip_graphic(2) [of n] by (intro trim_graphic; simp add: graphic_def octet_of_def)+

lemma via_params_branch:
  assumes "\<forall>p \<in> set params. trim p = p"
  shows "via_branch (via_params need has remote params) b = via_branch params b"
proof -
  let ?v = "''received='' @ ip_display (sa_ip remote)"
  have "\<forall>p \<in> set (put_param ''received'' ?v params). trim p = p"
    using put_param_set(1) [of "''received''" ?v params] assms trim_new_params(1) [of "sa_ip remote"] by blast
  then show ?thesis
    using assms new_params_no_branch(1) [of "sa_ip remote"] new_params_no_branch(2) [of "sa_port remote"]
    by (simp add: via_params_def via_branch_put_param Let_def)
qed

lemma via_params_semi:
  assumes "\<forall>p \<in> set params. CHR '';'' \<notin> set p" "q \<in> set (via_params need has remote params)"
  shows "CHR '';'' \<notin> set q"
proof -
  let ?v = "''received='' @ ip_display (sa_ip remote)" and ?w = "''rport='' @ dec (sa_port remote)"
  have "set (via_params need has remote params) \<subseteq> insert ?w (insert ?v (set params))"
    using put_param_set(1) [of "''received''" ?v params] put_param_set(2) [of "''rport''" ?w params]
      put_param_set(2) [of "''rport''" ?w "put_param ''received'' ?v params"]
    unfolding via_params_def Let_def by (simp only: split: if_splits) blast
  then have "q = ?w \<or> q = ?v \<or> q \<in> set params" using assms(2) by blast
  then show ?thesis using assms(1) received_param by blast
qed

lemma parse_via_rewritten:
  assumes "trim via = via"
  shows "parse_via (apply_rport_to_via_for_response via remote) = parse_via via"
proof -
  let ?parts = "split_char CHR '';'' via"
  let ?head = "trim (hd ?parts)" and ?params = "map trim (tl ?parts)"
  have parts: "?parts = hd ?parts # tl ?parts" by simp
  have semi: "CHR '';'' \<notin> set ?head" "\<forall>p \<in> set ?params. CHR '';'' \<notin> set p"
  proof -
    have "hd ?parts \<in> set ?parts" "set (tl ?parts) \<subseteq> set ?parts"
      by (simp_all add: list.set_sel(2) subsetI)
    then show "CHR '';'' \<notin> set ?head" "\<forall>p \<in> set ?params. CHR '';'' \<notin> set p"
      using split_char_parts [of _ "CHR '';''" via] trim_subset by fastforce+
  qed
  show ?thesis
  proof (cases "apply_rport_to_via_for_response via remote = via")
    case False
    then obtain need has where o: "apply_rport_to_via_for_response via remote =
        ?head @ concat (map (\<lambda>p. CHR '';'' # p) (via_params need has remote ?params))"
      unfolding apply_rport_to_via_for_response_def via_params_def assms Let_def by (metis (lifting))
    have s: "split_char CHR '';'' (apply_rport_to_via_for_response via remote) = ?head # via_params need has remote ?params"
      unfolding o using semi via_params_semi [OF semi(2)] by (intro split_char_written) blast+
    have "via_branch (via_params need has remote ?params) [] = via_branch (tl ?parts) []"
      by (subst via_params_branch) (auto simp: via_branch_trim)
    moreover have "via_sent_by ?head = via_sent_by (hd ?parts)" by (simp add: via_sent_by_def)
    ultimately show ?thesis by (simp add: parse_via_def s Let_def)
  qed simp
qed

section \<open>Facts on the messages\<close>

lemma get_fold_add [hdr_simps]:
  "hdr_get_all (fold (hdr_add n) vs hs) m =
     hdr_get_all hs m @ (if normalize_header_name m = normalize_header_name n then vs else [])"
  by (induction vs arbitrary: hs) (simp_all add: hdr_simps)

lemma get_fold_add_other [hdr_simps]:
  "normalize_header_name m \<noteq> normalize_header_name n \<Longrightarrow> hdr_get (fold (hdr_add n) vs hs) m = hdr_get hs m"
  by (simp add: hdr.get_hd hdr_simps)

lemma get_copy_header [hdr_simps]:
  "hdr_get (copy_header key name rq hs) m =
     (if normalize_header_name m = normalize_header_name name \<and> hdr_get rq key \<noteq> None then hdr_get rq key
      else hdr_get hs m)"
  by (auto simp: copy_header_def hdr_simps split: option.splits)

lemma get_all_copy_header [hdr_simps]:
  "normalize_header_name m \<noteq> normalize_header_name name \<Longrightarrow>
   hdr_get_all (copy_header key name rq hs) m = hdr_get_all hs m"
  by (auto simp: copy_header_def hdr_simps split: option.splits)

lemma get_empty [hdr_simps]: "hdr_get [] m = None" "hdr_get_all [] m = []"
  by (simp_all add: hdr_get_def hdr_get_all_def)

lemma skeleton_get:
  "hdr_get (resp_headers (build_response_skeleton r req st rs)) ''via'' = hdr_get (req_headers req) ''via''"
  "hdr_get (resp_headers (build_response_skeleton r req st rs)) ''cseq'' = hdr_get (req_headers req) ''cseq''"
  "hdr_get (resp_headers (build_response_skeleton r req st rs)) ''from'' = hdr_get (req_headers req) ''from''"
  "hdr_get (resp_headers (build_response_skeleton r req st rs)) ''call-id'' = hdr_get (req_headers req) ''call-id''"
  "hdr_get (resp_headers (build_response_skeleton r req st rs)) ''to'' =
     map_option (\<lambda>to_v. if st \<noteq> 100 \<and> \<not> has_to_tag to_v then to_v @ '';tag='' @ new_uas_to_tag r else to_v)
       (hdr_get (req_headers req) ''to'')"
  "hdr_get_all (resp_headers (build_response_skeleton r req st rs)) ''record-route'' =
     hdr_get_all (req_headers req) ''record-route''"
  by (simp_all add: build_response_skeleton_def Let_def hdr_simps split: option.splits)

lemma id_from_request_ok:
  "id_from_request req = Inr i \<longleftrightarrow>
     (\<exists>via. hdr_get (req_headers req) ''via'' = Some via \<and> parse_via via = Inr (tx_branch i, tx_sent_by i)
        \<and> tx_method i = req_method req)"
  by (cases i) (auto simp: id_from_request_def)

text \<open>A response that carries the Via and CSeq of a request belongs to its transaction.\<close>

lemma id_from_response_of_request:
  assumes "id_from_request req = Inr i"
    and "hdr_get (req_headers req) ''cseq'' = Some c" "split_whitespace c = n # method_as_str (req_method req) # ws"
    and "wf_method (req_method req)"
    and "hdr_get (resp_headers resp) ''via'' = Some via'" "parse_via via' = parse_via (the (hdr_get (req_headers req) ''via''))"
    and "hdr_get (resp_headers resp) ''cseq'' = Some c"
  shows "id_from_response resp = Inr i"
proof -
  obtain via where v: "hdr_get (req_headers req) ''via'' = Some via" "parse_via via = Inr (tx_branch i, tx_sent_by i)"
    "tx_method i = req_method req"
    using assms(1) by (auto simp: id_from_request_ok)
  with assms show ?thesis by (simp add: id_from_response_def wf_method_def)
qed

lemma build_non2xx_ack_ok:
  assumes "build_non2xx_ack invite response = Inr ack"
  obtains via f t cid c n ws hs where "hdr_get (req_headers invite) ''via'' = Some via"
    "hdr_get (req_headers invite) ''from'' = Some f" "hdr_get (resp_headers response) ''to'' = Some t"
    "hdr_get (req_headers invite) ''call-id'' = Some cid" "hdr_get (req_headers invite) ''cseq'' = Some c"
    "split_whitespace c = n # ws"
    "ack = (request_new Ack (req_uri invite))\<lparr>req_headers := fold (hdr_add ''Route'') (hdr_get_all (req_headers invite) ''route'') hs\<rparr>"
    "hs = hdr_set ''Max-Forwards'' (case hdr_get (req_headers invite) ''max-forwards'' of Some v \<Rightarrow> v | None \<Rightarrow> ''70'')
      (hdr_set ''CSeq'' (n @ '' ACK'') (hdr_set ''Call-ID'' cid (hdr_set ''To'' t (hdr_set ''From'' f (hdr_set ''Via'' via [])))))"
proof -
  have c: "(case split_whitespace c of [] \<Rightarrow> None | n # _ \<Rightarrow> Some n) = Some n \<Longrightarrow> \<exists>ws. split_whitespace c = n # ws" for c n
    by (auto split: list.splits)
  from assms obtain via f t cid c n where h: "hdr_get (req_headers invite) ''via'' = Some via"
    "hdr_get (req_headers invite) ''from'' = Some f" "hdr_get (resp_headers response) ''to'' = Some t"
    "hdr_get (req_headers invite) ''call-id'' = Some cid" "hdr_get (req_headers invite) ''cseq'' = Some c"
    and n: "(case split_whitespace c of [] \<Rightarrow> None | n # _ \<Rightarrow> Some n) = Some n"
    and a: "ack = (request_new Ack (req_uri invite))\<lparr>req_headers :=
      fold (hdr_add ''Route'') (hdr_get_all (req_headers invite) ''route'')
        (hdr_set ''Max-Forwards'' (case hdr_get (req_headers invite) ''max-forwards'' of Some v \<Rightarrow> v | None \<Rightarrow> ''70'')
          (hdr_set ''CSeq'' (n @ '' ACK'') (hdr_set ''Call-ID'' cid (hdr_set ''To'' t (hdr_set ''From'' f (hdr_set ''Via'' via []))))))\<rparr>"
    by (auto simp: build_non2xx_ack_def Let_def)
  obtain ws where "split_whitespace c = n # ws" using c [OF n] by blast
  with h a show thesis by (rule_tac that) (assumption | rule refl)+
qed

section \<open>Tags\<close>

text \<open>The nesting depth at the end of a value.\<close>

fun end_depth :: "int \<Rightarrow> string \<Rightarrow> int" where
  "end_depth d [] = d"
| "end_depth d (b # s) =
     end_depth (if b = CHR ''<'' then d + 1 else if b = CHR ''>'' then d - 1 else d) s"

lemma top_split_end: "end_depth d s = 0 \<Longrightarrow> top_split CHR '';'' d (s @ CHR '';'' # t) = top_split CHR '';'' d s @ top_split CHR '';'' 0 t"
proof (induction s arbitrary: d)
  case (Cons b s)
  have "cons_hd b (xs @ ys) = cons_hd b xs @ ys" if "xs \<noteq> []" for xs ys using that by (cases xs) auto
  with Cons show ?case by auto
qed simp

lemma hex_fixed_graphic: "list_all (\<lambda>c. graphic c \<and> c \<noteq> CHR ''<'' \<and> c \<noteq> CHR ''>'' \<and> c \<noteq> CHR '';'' \<and> c \<noteq> CHR ''='') (hex_fixed n k)"
proof (induction n arbitrary: k)
  case (Suc n)
  have "graphic (hex_digit d) \<and> hex_digit d \<noteq> CHR ''<'' \<and> hex_digit d \<noteq> CHR ''>'' \<and> hex_digit d \<noteq> CHR '';''
    \<and> hex_digit d \<noteq> CHR ''=''" if "d < 16" for d
    using that by (auto simp: hex_digit_def graphic_def octet_of_inj [symmetric]) (auto simp: octet_of_def)
  then show ?case using Suc by simp
qed simp

lemma uas_tag_param:
  "trim (''tag='' @ new_uas_to_tag r) = ''tag='' @ new_uas_to_tag r"
  "top_split CHR '';'' 0 (''tag='' @ new_uas_to_tag r) = [''tag='' @ new_uas_to_tag r]"
  "param_is_nonempty_tag (''tag='' @ new_uas_to_tag r)"
proof -
  have h: "list_all (\<lambda>c. graphic c \<and> c \<noteq> CHR ''<'' \<and> c \<noteq> CHR ''>'' \<and> c \<noteq> CHR '';'' \<and> c \<noteq> CHR ''='') (hex_fixed 8 (unat r))"
    by (rule hex_fixed_graphic)
  show "trim (''tag='' @ new_uas_to_tag r) = ''tag='' @ new_uas_to_tag r"
    using h by (intro trim_graphic) (simp add: new_uas_to_tag_def graphic_def octet_of_def list_all_iff)
  show "top_split CHR '';'' 0 (''tag='' @ new_uas_to_tag r) = [''tag='' @ new_uas_to_tag r]"
    using h by (intro top_split_none) (auto simp: new_uas_to_tag_def list_all_iff)
  show "param_is_nonempty_tag (''tag='' @ new_uas_to_tag r)"
    by (simp add: param_is_nonempty_tag_def new_uas_to_tag_def)
qed

lemma has_to_tag_appended:
  assumes "end_depth 0 to_v = 0"
  shows "has_to_tag (to_v @ '';tag='' @ new_uas_to_tag r)"
proof -
  have "top_split CHR '';'' 0 (to_v @ CHR '';'' # ''tag='' @ new_uas_to_tag r) =
      top_split CHR '';'' 0 to_v @ [''tag='' @ new_uas_to_tag r]"
    using top_split_end [OF assms] uas_tag_param(2) by simp
  moreover have "tl (xs @ [x]) = tl xs @ [x]" if "xs \<noteq> []" for xs and x :: string using that by (cases xs) auto
  ultimately show ?thesis
    using uas_tag_param(1,3) by (simp add: has_to_tag_def tag_scan_split Let_def)
qed

section \<open>Properties\<close>

text \<open>Filling in \<^verbatim>\<open>received\<close> and \<^verbatim>\<open>rport\<close> does not change the transaction a Via field
  names: the rewritten field has the same branch and sent-by, or is refused for the
  same reason.\<close>

theorem via_rewrite_keeps_transaction:
  assumes "trim via = via"
  shows "parse_via (apply_rport_to_via_for_response via remote) = parse_via via"
  using assms by (rule parse_via_rewritten)

definition via_ex :: string where
  "via_ex = ''SIP/2.0/UDP 192.0.2.1:5060;rport;branch=z9hG4bK1''"

definition remote_ex :: socket_addr where
  "remote_ex = \<lparr>sa_ip = V4 10 0 0 7, sa_port = 40000\<rparr>"

lemma trim_via_ex: "trim via_ex = via_ex"
  by (simp add: via_ex_def trim_def trim_start_id trim_end_id ws_eval)

lemma parse_via_ex: "parse_via via_ex = Inr (''z9hG4bK1'', ''192.0.2.1:5060'')"
proof -
  have "trim ''SIP/2.0/UDP 192.0.2.1:5060'' = ''SIP/2.0/UDP 192.0.2.1:5060''" "trim ''192.0.2.1:5060'' = ''192.0.2.1:5060''"
    "trim ''rport'' = ''rport''" "trim ''branch=z9hG4bK1'' = ''branch=z9hG4bK1''"
    by (simp_all add: trim_def trim_start_id trim_end_id ws_eval)
  then show ?thesis
    by (simp add: parse_via_def via_ex_def via_sent_by_def strip_prefix_def trim_quotes_def)
qed

theorem via_rewrite_keeps_transaction_witness:
  "parse_via (apply_rport_to_via_for_response via_ex remote_ex) = Inr (''z9hG4bK1'', ''192.0.2.1:5060'')"
  using via_rewrite_keeps_transaction [OF trim_via_ex] parse_via_ex by simp

text \<open>Every response the program sends to a request finds the client transaction that is
  waiting for it: a skeleton with its rewritten Via has the identifier of the request,
  when the method in the CSeq of the request is its method.\<close>

theorem response_matches_request:
  assumes "id_from_request req = Inr i"
    and "hdr_get (req_headers req) ''via'' = Some via" "trim via = via"
    and "hdr_get (req_headers req) ''cseq'' = Some c" "split_whitespace c = n # method_as_str (req_method req) # ws"
    and "wf_method (req_method req)"
  shows "let skel = build_response_skeleton rnd req status reason
    in id_from_response skel = Inr i
       \<and> id_from_response (skel\<lparr>resp_headers :=
            hdr_set ''Via'' (apply_rport_to_via_for_response via remote) (resp_headers skel)\<rparr>) = Inr i"
  using assms id_from_response_of_request [OF assms(1,4,5,6)]
  by (simp add: Let_def skeleton_get hdr_simps parse_via_rewritten)

definition register_ex :: sip_request where
  "register_ex = \<lparr>req_method = Register, req_uri = ''sip:r'',
     req_headers = [(''via'', via_ex), (''to'', ''<sip:a>''), (''cseq'', ''1 REGISTER'')], req_body = []\<rparr>"

lemma register_ex_facts:
  "id_from_request register_ex = Inr \<lparr>tx_branch = ''z9hG4bK1'', tx_sent_by = ''192.0.2.1:5060'', tx_method = Register\<rparr>"
  "split_whitespace ''1 REGISTER'' = [''1'', ''REGISTER'']"
proof -
  show "id_from_request register_ex = Inr \<lparr>tx_branch = ''z9hG4bK1'', tx_sent_by = ''192.0.2.1:5060'', tx_method = Register\<rparr>"
    by (simp add: id_from_request_def register_ex_def hdr_get_def hdr_simps parse_via_ex)
  have "trim_start ''1 REGISTER'' = ''1 REGISTER''" "trim_start ''REGISTER'' = ''REGISTER''" "trim_start [] = []"
    by (simp_all add: trim_start_id ws_eval)
  moreover have "trim_start '' REGISTER'' = trim_start ''REGISTER''"
    by (subst trim_start.simps) (simp add: ws_eval)
  ultimately show "split_whitespace ''1 REGISTER'' = [''1'', ''REGISTER'']"
    by (simp add: split_whitespace.simps [of "''1 REGISTER''"] split_whitespace.simps [of "'' REGISTER''"]
        split_whitespace.simps [of "[]"] Let_def ws_eval)
qed

theorem response_matches_request_witness:
  "id_from_response (build_response_skeleton 0 register_ex 200 ''OK'') =
     Inr \<lparr>tx_branch = ''z9hG4bK1'', tx_sent_by = ''192.0.2.1:5060'', tx_method = Register\<rparr>"
proof -
  have h: "hdr_get (req_headers register_ex) ''via'' = Some via_ex"
    "hdr_get (req_headers register_ex) ''cseq'' = Some ''1 REGISTER''"
    "method_as_str (req_method register_ex) = ''REGISTER''" "wf_method (req_method register_ex)"
    by (simp_all add: register_ex_def hdr_get_def hdr_simps wf_method_def method_from_str_def)
  show ?thesis
    using response_matches_request [OF register_ex_facts(1) h(1) trim_via_ex h(2), of "''1''" "[]" 0 200 "''OK''"]
    by (simp add: h register_ex_facts(2) Let_def)
qed

text \<open>The ACK of a refused INVITE stays in its transaction: same branch and sent-by with
  the method ACK, the To of the response with its tag, the Call-ID, From and Route
  fields of the INVITE in order, and the number of its CSeq.\<close>

theorem non2xx_ack_in_transaction:
  assumes "build_non2xx_ack invite response = Inr ack" "id_from_request invite = Inr i"
  shows "id_from_request ack = Inr (i\<lparr>tx_method := Ack\<rparr>)
    \<and> req_uri ack = req_uri invite
    \<and> hdr_get (req_headers ack) ''to'' = hdr_get (resp_headers response) ''to''
    \<and> hdr_get (req_headers ack) ''from'' = hdr_get (req_headers invite) ''from''
    \<and> hdr_get (req_headers ack) ''call-id'' = hdr_get (req_headers invite) ''call-id''
    \<and> hdr_get_all (req_headers ack) ''route'' = hdr_get_all (req_headers invite) ''route''
    \<and> hdr_get_all (req_headers ack) ''via'' = [the (hdr_get (req_headers invite) ''via'')]
    \<and> (\<exists>n ws c. hdr_get (req_headers invite) ''cseq'' = Some c \<and> split_whitespace c = n # ws
         \<and> hdr_get (req_headers ack) ''cseq'' = Some (n @ '' ACK''))"
  using assms(2)
  by (rule_tac build_non2xx_ack_ok [OF assms(1)]) (auto simp: id_from_request_ok request_new_def hdr_simps)

definition invite_tx_ex :: sip_request where
  "invite_tx_ex = \<lparr>req_method = Invite, req_uri = ''sip:b'',
     req_headers = [(''via'', via_ex), (''from'', ''<sip:a>;tag=1''), (''call-id'', ''c''), (''cseq'', ''1 REGISTER''),
       (''route'', ''<sip:p>'')], req_body = []\<rparr>"

definition busy_ex :: sip_response where
  "busy_ex = \<lparr>resp_status = 486, resp_reason = ''Busy'', resp_headers = [(''to'', ''<sip:b>;tag=9'')], resp_body = []\<rparr>"

theorem non2xx_ack_in_transaction_witness:
  "\<exists>ack. build_non2xx_ack invite_tx_ex busy_ex = Inr ack
     \<and> id_from_request ack = Inr \<lparr>tx_branch = ''z9hG4bK1'', tx_sent_by = ''192.0.2.1:5060'', tx_method = Ack\<rparr>"
proof -
  have b: "\<exists>ack. build_non2xx_ack invite_tx_ex busy_ex = Inr ack"
    by (simp add: build_non2xx_ack_def Let_def invite_tx_ex_def busy_ex_def hdr_get_def hdr_simps register_ex_facts(2))
  have i: "id_from_request invite_tx_ex = Inr \<lparr>tx_branch = ''z9hG4bK1'', tx_sent_by = ''192.0.2.1:5060'', tx_method = Invite\<rparr>"
    by (simp add: id_from_request_def invite_tx_ex_def hdr_get_def hdr_simps parse_via_ex)
  from b non2xx_ack_in_transaction [OF _ i] show ?thesis by fastforce
qed

text \<open>Every response but 100 to a request whose To value closes its angle brackets carries
  a To tag; a value that already has one is echoed unchanged, so no tag is added
  twice; the Record-Route fields are echoed in order.\<close>

theorem response_skeleton_to_tag:
  assumes "hdr_get (req_headers req) ''to'' = Some to_v" "end_depth 0 to_v = 0" "status \<noteq> 100"
  shows "\<exists>v. hdr_get (resp_headers (build_response_skeleton rnd req status reason)) ''to'' = Some v
     \<and> has_to_tag v \<and> (has_to_tag to_v \<longrightarrow> v = to_v)
     \<and> hdr_get_all (resp_headers (build_response_skeleton rnd req status reason)) ''record-route'' =
         hdr_get_all (req_headers req) ''record-route''"
  using assms has_to_tag_appended [OF assms(2)] by (simp add: skeleton_get)

theorem response_skeleton_to_tag_witness:
  "\<exists>v. hdr_get (resp_headers (build_response_skeleton 5 register_ex 404 ''Not Found'')) ''to'' = Some v \<and> has_to_tag v"
proof -
  have "hdr_get (req_headers register_ex) ''to'' = Some ''<sip:a>''"
    by (simp add: register_ex_def hdr_get_def hdr_simps)
  from response_skeleton_to_tag [OF this, of 404 5 "''Not Found''"] show ?thesis by auto
qed

section \<open>Several Via fields\<close>

text \<open>Only the topmost Via of a request reaches the response, however many proxies added one.\<close>

lemma skeleton_single_via:
  assumes "hdr_get_all (req_headers req) ''via'' = v # vs"
  shows "hdr_get_all (resp_headers (build_response_skeleton rnd req status reason)) ''via'' = [v]"
proof -
  have "hdr_get (req_headers req) ''via'' = Some v" using assms by (simp add: hdr.get_hd)
  then show ?thesis
    by (simp add: build_response_skeleton_def Let_def hdr_simps copy_header_def split: option.splits)
qed

end
