(* ===== verification/Client_Transaction.thy ===== *)
theory Client_Transaction
  imports Sip_Transaction
begin

text \<open>
  The client transaction of \<^verbatim>\<open>src/src/sip/transaction.rs\<close> as a timed state machine. The
  body of each branch of the \<^verbatim>\<open>select\<close> loop is a function; the step relation says
  which branches may run when: a message may arrive at any time up to the next
  timer, a timer fires at its instant, and when several are ready any of them may
  be taken. Times are milliseconds. The requests and acknowledgements that were
  sent are recorded with the time. The facts: the retransmissions follow the
  schedule of RFC 3261 and stop with the first provisional response to an INVITE,
  and no transaction outlives its timeout.
\<close>

section \<open>Definitions\<close>

datatype client_state = Calling | Trying | Proceeding | Completed | Terminated

record client_tx =
  ct_request :: sip_request
  ct_state :: client_state
  ct_interval :: nat
  ct_next_retx :: nat
  ct_timeout_at :: nat
  ct_sent :: "nat list"
  ct_acks :: "(nat \<times> sip_request) list"
  ct_result :: "(tx_error + sip_response) option"

definition is_invite :: "client_tx \<Rightarrow> bool" where
  "is_invite ct \<longleftrightarrow> req_method (ct_request ct) = Invite"

definition tx_timeout :: "client_tx \<Rightarrow> nat" where
  "tx_timeout ct = (if is_invite ct then TIMER_B else TIMER_F)"

definition client_start :: "sip_request \<Rightarrow> nat \<Rightarrow> client_tx" where
  "client_start request now =
     \<lparr>ct_request = request, ct_state = (if req_method request = Invite then Calling else Trying),
      ct_interval = T1, ct_next_retx = now + T1,
      ct_timeout_at = now + (if req_method request = Invite then TIMER_B else TIMER_F),
      ct_sent = [now], ct_acks = [], ct_result = None\<rparr>"

definition client_on_response :: "client_tx \<Rightarrow> nat \<Rightarrow> sip_response \<Rightarrow> client_tx" where
  "client_on_response ct now resp =
     (let code = resp_status resp
      in if 100 \<le> code \<and> code < 200 then
           (let ct' = ct\<lparr>ct_state := Proceeding\<rparr>
            in if is_invite ct then ct'\<lparr>ct_next_retx := now + tx_timeout ct\<rparr>
               else ct'\<lparr>ct_interval := T2, ct_next_retx := now + T2\<rparr>)
         else (let ct' = ct\<lparr>ct_state := Completed, ct_result := Some (Inr resp)\<rparr>
               in if is_invite ct \<and> 300 \<le> code \<and> code < 700 then
                    (case build_non2xx_ack (ct_request ct) resp of
                       Inr ack \<Rightarrow> ct'\<lparr>ct_acks := ct_acks ct @ [(now, ack)]\<rparr>
                     | Inl _ \<Rightarrow> ct')
                  else ct'))"

definition client_on_retx :: "client_tx \<Rightarrow> nat \<Rightarrow> client_tx" where
  "client_on_retx ct now =
     (if is_invite ct \<and> ct_state ct \<noteq> Calling then ct\<lparr>ct_next_retx := now + tx_timeout ct\<rparr>
      else (let interval' = (if is_invite ct then ct_interval ct * 2 else min (ct_interval ct * 2) T2)
            in ct\<lparr>ct_sent := ct_sent ct @ [now], ct_interval := interval', ct_next_retx := now + interval'\<rparr>))"

definition client_on_timeout :: "client_tx \<Rightarrow> client_tx" where
  "client_on_timeout ct = ct\<lparr>ct_state := Terminated, ct_result := Some (Inl TxTimeout)\<rparr>"

definition client_on_closed :: "client_tx \<Rightarrow> client_tx" where
  "client_on_closed ct = ct\<lparr>ct_result := Some (Inl LayerStopped)\<rparr>"

datatype client_event = Recv sip_response | RetxFires | TimeoutFires | ChannelClosed

inductive client_step :: "client_tx \<times> nat \<Rightarrow> client_event \<Rightarrow> client_tx \<times> nat \<Rightarrow> bool" where
  recv: "ct_result ct = None \<Longrightarrow> now \<le> t \<Longrightarrow> t \<le> ct_next_retx ct \<Longrightarrow> t \<le> ct_timeout_at ct \<Longrightarrow>
    client_step (ct, now) (Recv resp) (client_on_response ct t resp, t)"
| retx: "ct_result ct = None \<Longrightarrow> now \<le> ct_next_retx ct \<Longrightarrow> ct_next_retx ct \<le> ct_timeout_at ct \<Longrightarrow>
    client_step (ct, now) RetxFires (client_on_retx ct (ct_next_retx ct), ct_next_retx ct)"
| timeout: "ct_result ct = None \<Longrightarrow> now \<le> ct_timeout_at ct \<Longrightarrow> ct_timeout_at ct \<le> ct_next_retx ct \<Longrightarrow>
    client_step (ct, now) TimeoutFires (client_on_timeout ct, ct_timeout_at ct)"
| closed: "ct_result ct = None \<Longrightarrow> now \<le> t \<Longrightarrow> t \<le> ct_next_retx ct \<Longrightarrow> t \<le> ct_timeout_at ct \<Longrightarrow>
    client_step (ct, now) ChannelClosed (client_on_closed ct, t)"

inductive_cases client_stepE: "client_step s e s'"

inductive client_run :: "client_tx \<times> nat \<Rightarrow> client_event list \<Rightarrow> client_tx \<times> nat \<Rightarrow> bool" where
  stop: "client_run s [] s"
| step: "client_run s es s' \<Longrightarrow> client_step s' e s'' \<Longrightarrow> client_run s (es @ [e]) s''"

text \<open>The task that answers retransmitted final responses during Timer D with the same ACK.\<close>

fun absorb :: "string \<Rightarrow> sip_response list \<Rightarrow> string list" where
  "absorb ack_bytes [] = []"
| "absorb ack_bytes (r # rs) = (if 200 \<le> resp_status r then ack_bytes # absorb ack_bytes rs else absorb ack_bytes rs)"

section \<open>What every run keeps\<close>

lemma client_run_inv:
  assumes "client_run s es s'" "I [] s"
    and "\<And>es s e s'. I es s \<Longrightarrow> client_step s e s' \<Longrightarrow> I (es @ [e]) s'"
  shows "I es s'"
  using assms by (induction rule: client_run.induct) auto

lemmas client_defs = client_on_response_def client_on_retx_def client_on_timeout_def client_on_closed_def
  is_invite_def tx_timeout_def Let_def

lemma client_step_frame:
  assumes "client_step (ct, now) e (ct', now')"
  shows "ct_request ct' = ct_request ct" "ct_timeout_at ct' = ct_timeout_at ct" "ct_result ct = None"
    "now \<le> now'" "now' \<le> ct_timeout_at ct"
  using assms by (auto elim!: client_stepE simp: client_defs split: sum.splits)

definition is_retx :: "client_event \<Rightarrow> bool" where
  "is_retx e \<longleftrightarrow> e = RetxFires"

text \<open>Bookkeeping all transactions share: time stays before the timeout and every timer step costs at least T1.\<close>

definition base_inv :: "sip_request \<Rightarrow> nat \<Rightarrow> client_event list \<Rightarrow> client_tx \<times> nat \<Rightarrow> bool" where
  "base_inv req t0 es s \<longleftrightarrow>
     (let (ct, now) = s
      in ct_request ct = req \<and> ct_timeout_at ct = t0 + 32000 \<and> t0 \<le> now \<and> now \<le> t0 + 32000
         \<and> 500 \<le> ct_interval ct
         \<and> t0 + 500 * length (filter is_retx es) \<le> now
         \<and> (ct_result ct = None \<longrightarrow> now \<le> ct_next_retx ct
              \<and> t0 + 500 * length (filter is_retx es) + 500 \<le> ct_next_retx ct))"

lemma base_inv_step:
  assumes "base_inv req t0 es s" "client_step s e s'"
  shows "base_inv req t0 (es @ [e]) s'"
  using assms(2,1)
proof (cases rule: client_step.cases)
  case (recv ct now t resp)
  then show ?thesis
    using assms(1) by (auto simp: base_inv_def client_defs is_retx_def timer_defs split: sum.splits)
next
  case (retx ct now)
  then show ?thesis
    using assms(1) by (auto simp: base_inv_def client_defs is_retx_def timer_defs)
next
  case (timeout ct now)
  then show ?thesis
    using assms(1) by (auto simp: base_inv_def client_defs is_retx_def)
next
  case (closed ct now t)
  then show ?thesis
    using assms(1) by (auto simp: base_inv_def client_defs is_retx_def)
qed

lemma base_inv_start: "base_inv req t0 [] (client_start req t0, t0)"
  by (simp add: base_inv_def client_start_def timer_defs)

lemma base_inv_run: "client_run (client_start req t0, t0) es s \<Longrightarrow> base_inv req t0 es s"
  by (erule client_run_inv) (auto intro: base_inv_start base_inv_step)

section \<open>The INVITE schedule\<close>

definition invite_time :: "nat \<Rightarrow> nat \<Rightarrow> nat" where
  "invite_time t0 j = t0 + 500 * (2 ^ j - 1)"

definition invite_inv :: "nat \<Rightarrow> client_tx \<times> nat \<Rightarrow> bool" where
  "invite_inv t0 s \<longleftrightarrow>
     (let ct = fst s; n = length (ct_sent ct)
      in ct_sent ct = map (invite_time t0) [0..<n] \<and> 1 \<le> n \<and> n \<le> 7
         \<and> (ct_result ct = None \<and> ct_state ct = Calling \<longrightarrow>
              ct_interval ct = 500 * 2 ^ (n - 1) \<and> ct_next_retx ct = invite_time t0 n))"

lemma invite_time_bound: "invite_time t0 n \<le> t0 + 32000 \<Longrightarrow> n \<le> 6"
proof (rule ccontr)
  assume b: "invite_time t0 n \<le> t0 + 32000" and "\<not> n \<le> 6"
  then have "(2::nat) ^ 7 \<le> 2 ^ n" by (intro power_increasing) auto
  with b show False by (simp add: invite_time_def)
qed

lemma invite_time_Suc: "1 \<le> n \<Longrightarrow> invite_time t0 n + 500 * 2 ^ (n - 1) * 2 = invite_time t0 (Suc n)"
proof -
  assume "1 \<le> n"
  then have "(2::nat) ^ (n - 1) * 2 = 2 ^ n" by (cases n) auto
  moreover have "(1::nat) \<le> 2 ^ n" by simp
  ultimately show ?thesis unfolding invite_time_def by simp
qed

lemma invite_inv_retx:
  assumes "invite_inv t0 (ct, now)" "ct_result ct = None" "is_invite ct" "ct_state ct = Calling"
    "ct_next_retx ct \<le> t0 + 32000"
  shows "invite_inv t0 (client_on_retx ct (ct_next_retx ct), now')"
proof -
  let ?n = "length (ct_sent ct)"
  have i: "ct_sent ct = map (invite_time t0) [0..<?n]" "1 \<le> ?n" "ct_interval ct = 500 * 2 ^ (?n - 1)"
    "ct_next_retx ct = invite_time t0 ?n"
    using assms(1,2,4) by (simp_all add: invite_inv_def Let_def)
  have "?n \<le> 6" using assms(5) i(4) invite_time_bound by simp
  moreover have "ct_sent ct @ [invite_time t0 ?n] = map (invite_time t0) [0..<Suc ?n]"
    using i(1) by simp
  moreover have "(2::nat) ^ (?n - 1) * 2 = 2 ^ ?n" using i(2) by (cases ?n) auto
  ultimately show ?thesis
    using assms(3,4) i invite_time_Suc [OF i(2), of t0] by (simp add: invite_inv_def client_on_retx_def Let_def)
qed

lemma invite_inv_step:
  assumes "base_inv req t0 es s" "invite_inv t0 s" "client_step s e s'" "req_method req = Invite"
  shows "invite_inv t0 s'"
  using assms(3)
proof (cases rule: client_step.cases)
  case (recv ct now t resp)
  then show ?thesis
    using assms(1,2,4) by (auto simp: invite_inv_def base_inv_def client_on_response_def is_invite_def Let_def split: sum.splits)
next
  case (retx ct now)
  have iv: "is_invite ct" "ct_next_retx ct \<le> t0 + 32000"
    using retx assms(1,4) by (auto simp: base_inv_def is_invite_def)
  show ?thesis
  proof (cases "ct_state ct = Calling")
    case True
    then show ?thesis using retx assms(2) iv invite_inv_retx by blast
  next
    case False
    then show ?thesis using retx assms(2) iv by (simp add: invite_inv_def client_on_retx_def Let_def)
  qed
next
  case (timeout ct now)
  then show ?thesis using assms(2) by (simp add: invite_inv_def client_on_timeout_def Let_def)
next
  case (closed ct now t)
  then show ?thesis using assms(2) by (simp add: invite_inv_def client_on_closed_def Let_def)
qed

lemma invite_inv_run:
  assumes "client_run (client_start req t0, t0) es s" "req_method req = Invite"
  shows "invite_inv t0 s"
proof -
  have "base_inv req t0 es s \<and> invite_inv t0 s"
    using assms(1)
  proof (rule client_run_inv [where I = "\<lambda>es s. base_inv req t0 es s \<and> invite_inv t0 s"])
    show "base_inv req t0 [] (client_start req t0, t0) \<and> invite_inv t0 (client_start req t0, t0)"
      using assms(2)
      by (intro conjI base_inv_start) (simp add: invite_inv_def client_start_def invite_time_def timer_defs)
  qed (use base_inv_step invite_inv_step assms(2) in blast)
  then show ?thesis ..
qed

section \<open>The schedule of other requests\<close>

fun other_time :: "nat \<Rightarrow> nat" where
  "other_time 0 = 0"
| "other_time (Suc n) = other_time n + min (500 * 2 ^ n) 4000"

definition other_inv :: "nat \<Rightarrow> client_tx \<times> nat \<Rightarrow> bool" where
  "other_inv t0 s \<longleftrightarrow>
     (let (ct, now) = s; n = length (ct_sent ct)
      in 1 \<le> n \<and> n \<le> 11 \<and> t0 + other_time (n - 1) \<le> now
         \<and> (ct_result ct = None \<longrightarrow>
              min (500 * 2 ^ (n - 1)) 4000 \<le> ct_interval ct \<and> t0 + other_time n \<le> ct_next_retx ct))"

lemma other_time_mono: "n \<le> m \<Longrightarrow> other_time n \<le> other_time m"
  by (rule lift_Suc_mono_le [of other_time]) simp_all

lemma other_time_closed: "other_time (n + 3) = 3500 + 4000 * n"
proof (induction n)
  case 0
  show ?case by (simp add: numeral_3_eq_3)
next
  case (Suc n)
  have "(500::nat) * 2 ^ (n + 3) = 4000 * 2 ^ n" by (simp add: power_add)
  moreover have "(1::nat) \<le> 2 ^ n" by simp
  ultimately have "min (500 * 2 ^ (n + 3)) 4000 = (4000::nat)" by linarith
  with Suc show ?case using other_time.simps(2) [of "n + 3"] by simp
qed

lemma other_time_bound: "other_time n \<le> 32000 \<Longrightarrow> n \<le> 10"
proof (rule ccontr)
  assume b: "other_time n \<le> 32000" and "\<not> n \<le> 10"
  then have "other_time 11 \<le> other_time n" by (intro other_time_mono) simp
  moreover have "other_time 11 = 35500" using other_time_closed [of 8] by simp
  ultimately show False using b by simp
qed

lemma other_time_step: "1 \<le> n \<Longrightarrow> other_time n \<le> other_time (n - 1) + 4000"
  by (cases n) auto

lemma other_inv_retx:
  assumes "other_inv t0 (ct, now)" "ct_result ct = None" "\<not> is_invite ct" "ct_next_retx ct \<le> t0 + 32000"
  shows "other_inv t0 (client_on_retx ct (ct_next_retx ct), ct_next_retx ct)"
proof -
  let ?n = "length (ct_sent ct)"
  have i: "1 \<le> ?n" "min (500 * 2 ^ (?n - 1)) 4000 \<le> ct_interval ct" "t0 + other_time ?n \<le> ct_next_retx ct"
    using assms(1,2) by (simp_all add: other_inv_def Let_def)
  have "?n \<le> 10" using i(3) assms(4) by (intro other_time_bound) linarith
  moreover have "(500::nat) * 2 ^ ?n = 500 * 2 ^ (?n - 1) * 2" using i(1) by (cases ?n) auto
  then have "min (500 * 2 ^ ?n) 4000 \<le> min (ct_interval ct * 2) 4000" using i(2) by linarith
  ultimately show ?thesis
    using assms(2,3) i by (auto simp: other_inv_def client_on_retx_def Let_def timer_defs)
qed

lemma other_inv_step:
  assumes "base_inv req t0 es s" "other_inv t0 s" "client_step s e s'" "req_method req \<noteq> Invite"
  shows "other_inv t0 s'"
  using assms(3)
proof (cases rule: client_step.cases)
  case (recv ct now t resp)
  have "1 \<le> length (ct_sent ct)" using recv assms(2) by (simp add: other_inv_def Let_def)
  then show ?thesis
    using recv assms(1,2,4) other_time_step [of "length (ct_sent ct)"]
    by (auto simp: other_inv_def base_inv_def client_on_response_def is_invite_def timer_defs Let_def)
next
  case (retx ct now)
  have "\<not> is_invite ct" "ct_next_retx ct \<le> t0 + 32000"
    using retx assms(1,4) by (auto simp: base_inv_def is_invite_def)
  then show ?thesis using retx assms(2) other_inv_retx by blast
next
  case (timeout ct now)
  then show ?thesis using assms(2) by (auto simp: other_inv_def client_on_timeout_def Let_def)
next
  case (closed ct now t)
  then show ?thesis using assms(2) by (auto simp: other_inv_def client_on_closed_def Let_def)
qed

lemma other_inv_run:
  assumes "client_run (client_start req t0, t0) es s" "req_method req \<noteq> Invite"
  shows "other_inv t0 s"
proof -
  have "base_inv req t0 es s \<and> other_inv t0 s"
    using assms(1)
  proof (rule client_run_inv [where I = "\<lambda>es s. base_inv req t0 es s \<and> other_inv t0 s"])
    show "base_inv req t0 [] (client_start req t0, t0) \<and> other_inv t0 (client_start req t0, t0)"
      using assms(2)
      by (intro conjI base_inv_start) (simp add: other_inv_def client_start_def timer_defs)
  qed (use base_inv_step other_inv_step assms(2) in blast)
  then show ?thesis ..
qed

section \<open>After a provisional response\<close>

lemma client_on_response_frame:
  "ct_sent (client_on_response ct t r) = ct_sent ct" "ct_request (client_on_response ct t r) = ct_request ct"
  "ct_state (client_on_response ct t r) \<noteq> Calling"
  by (auto simp: client_on_response_def Let_def split: sum.splits)

lemma invite_quiet_step:
  assumes "client_step s e s'" "is_invite (fst s)" "ct_state (fst s) \<noteq> Calling"
  shows "ct_sent (fst s') = ct_sent (fst s) \<and> is_invite (fst s') \<and> ct_state (fst s') \<noteq> Calling"
  using assms(1)
proof (cases rule: client_step.cases)
  case (recv ct now t resp)
  then show ?thesis using assms by (simp add: client_on_response_frame is_invite_def)
qed (use assms in \<open>auto simp: client_on_retx_def client_on_timeout_def client_on_closed_def is_invite_def\<close>)

lemma invite_quiet_run:
  assumes "client_run s es s'" "is_invite (fst s)" "ct_state (fst s) \<noteq> Calling"
  shows "ct_sent (fst s') = ct_sent (fst s)"
proof -
  have "ct_sent (fst s') = ct_sent (fst s) \<and> is_invite (fst s') \<and> ct_state (fst s') \<noteq> Calling"
    using assms(1)
  proof (rule client_run_inv [where I = "\<lambda>es s'. ct_sent (fst s') = ct_sent (fst s) \<and> is_invite (fst s') \<and> ct_state (fst s') \<noteq> Calling"])
    show "ct_sent (fst s) = ct_sent (fst s) \<and> is_invite (fst s) \<and> ct_state (fst s) \<noteq> Calling"
      using assms by simp
  next
    fix es s1 e s2
    assume "ct_sent (fst s1) = ct_sent (fst s) \<and> is_invite (fst s1) \<and> ct_state (fst s1) \<noteq> Calling"
      and "client_step s1 e s2"
    then show "ct_sent (fst s2) = ct_sent (fst s) \<and> is_invite (fst s2) \<and> ct_state (fst s2) \<noteq> Calling"
      using invite_quiet_step by metis
  qed
  then show ?thesis ..
qed

section \<open>Results\<close>

definition expected_acks :: "client_tx \<Rightarrow> nat \<Rightarrow> sip_response \<Rightarrow> (nat \<times> sip_request) list" where
  "expected_acks ct now resp =
     (if is_invite ct \<and> 300 \<le> resp_status resp \<and> resp_status resp < 700 then
        (case build_non2xx_ack (ct_request ct) resp of Inr ack \<Rightarrow> [(now, ack)] | Inl _ \<Rightarrow> [])
      else [])"

definition result_inv :: "client_event list \<Rightarrow> client_tx \<times> nat \<Rightarrow> bool" where
  "result_inv es s \<longleftrightarrow>
     (let (ct, now) = s
      in case ct_result ct of
           None \<Rightarrow> ct_acks ct = []
         | Some (Inr resp) \<Rightarrow>
             Recv resp \<in> set es \<and> \<not> (100 \<le> resp_status resp \<and> resp_status resp < 200)
             \<and> ct_state ct = Completed \<and> ct_acks ct = expected_acks ct now resp
         | Some (Inl e) \<Rightarrow>
             (e = TxTimeout \<and> now = ct_timeout_at ct \<or> e = LayerStopped \<and> ChannelClosed \<in> set es) \<and> ct_acks ct = [])"

lemma result_inv_step: "result_inv es s \<Longrightarrow> client_step s e s' \<Longrightarrow> result_inv (es @ [e]) s'"
  by (erule client_stepE)
    (auto simp: result_inv_def expected_acks_def client_defs split: sum.splits)

section \<open>Silence\<close>

text \<open>The run in which nothing is received: the earlier timer fires until the transaction ends.\<close>

fun client_silent :: "nat \<Rightarrow> client_tx \<Rightarrow> client_tx" where
  "client_silent 0 ct = ct"
| "client_silent (Suc k) ct =
     (if ct_result ct \<noteq> None then ct
      else if ct_next_retx ct < ct_timeout_at ct then client_silent k (client_on_retx ct (ct_next_retx ct))
      else client_on_timeout ct)"

lemma client_silent_numeral [simp]:
  "client_silent (numeral k) ct =
     (if ct_result ct \<noteq> None then ct
      else if ct_next_retx ct < ct_timeout_at ct then client_silent (pred_numeral k) (client_on_retx ct (ct_next_retx ct))
      else client_on_timeout ct)"
  by (simp add: numeral_eq_Suc)

text \<open>It is a run, and the only one without input as long as the timers do not coincide.\<close>

lemma client_run_trans: "client_run s2 es2 s3 \<Longrightarrow> client_run s1 es1 s2 \<Longrightarrow> client_run s1 (es1 @ es2) s3"
  by (induction rule: client_run.induct) (auto simp: append_assoc [symmetric] intro: client_run.intros simp del: append_assoc)

lemma client_silent_is_run:
  "ct_result ct = None \<Longrightarrow> now \<le> ct_next_retx ct \<Longrightarrow> now \<le> ct_timeout_at ct \<Longrightarrow>
   \<exists>es now'. client_run (ct, now) es (client_silent k ct, now') \<and> set es \<subseteq> {RetxFires, TimeoutFires}"
proof (induction k arbitrary: ct now)
  case 0
  show ?case using client_run.stop [of "(ct, now)"] by (intro exI [of _ "[]"] exI [of _ now]) simp
next
  case (Suc k)
  show ?case
  proof (cases "ct_next_retx ct < ct_timeout_at ct")
    case True
    let ?ct = "client_on_retx ct (ct_next_retx ct)"
    have s: "client_step (ct, now) RetxFires (?ct, ct_next_retx ct)"
      using Suc.prems True by (intro client_step.retx) auto
    have "ct_result ?ct = None" "ct_next_retx ct \<le> ct_next_retx ?ct" "ct_next_retx ct \<le> ct_timeout_at ?ct"
      using Suc.prems True by (auto simp: client_defs)
    from Suc.IH [OF this] obtain es now' where r: "client_run (?ct, ct_next_retx ct) es (client_silent k ?ct, now')"
      "set es \<subseteq> {RetxFires, TimeoutFires}" by blast
    have "client_run (ct, now) ([] @ [RetxFires]) (?ct, ct_next_retx ct)"
      using s by (rule client_run.step [OF client_run.stop])
    from client_run_trans [OF r(1) this] have "client_run (ct, now) (RetxFires # es) (client_silent (Suc k) ct, now')"
      using True Suc.prems(1) by simp
    with r(2) show ?thesis by (intro exI [of _ "RetxFires # es"] exI [of _ now']) simp
  next
    case False
    then have "client_step (ct, now) TimeoutFires (client_on_timeout ct, ct_timeout_at ct)"
      using Suc.prems by (intro client_step.timeout) auto
    then have "client_run (ct, now) ([] @ [TimeoutFires]) (client_on_timeout ct, ct_timeout_at ct)"
      by (rule client_run.step [OF client_run.stop])
    then have "client_run (ct, now) [TimeoutFires] (client_silent (Suc k) ct, ct_timeout_at ct)"
      using False Suc.prems(1) by simp
    then show ?thesis by (intro exI [of _ "[TimeoutFires]"] exI [of _ "ct_timeout_at ct"]) simp
  qed
qed

section \<open>Properties\<close>

text \<open>In every run of an INVITE transaction the request is sent at most seven times, and
  the sendings are a prefix of the schedule of RFC 3261: at 0, T1, 3 T1, 7 T1 and so
  on after the start, whatever responses arrive and whichever timer wins a tie.\<close>

theorem client_invite_schedule:
  assumes "client_run (client_start req t0, t0) es (ct, now)" "req_method req = Invite"
  shows "length (ct_sent ct) \<le> 7 \<and> ct_sent ct = map (\<lambda>j. t0 + T1 * (2 ^ j - 1)) [0..<length (ct_sent ct)]"
  using invite_inv_run [OF assms] by (simp add: invite_inv_def invite_time_def [abs_def] timer_defs Let_def)

definition invite_req :: sip_request where
  "invite_req = request_new Invite ''sip:b''"

theorem client_invite_schedule_witness:
  "\<exists>es ct now. client_run (client_start invite_req 0, 0) es (ct, now)
     \<and> length (ct_sent ct) \<le> 7 \<and> ct_sent ct = map (\<lambda>j. 0 + T1 * (2 ^ j - 1)) [0..<length (ct_sent ct)]"
proof -
  have "client_step (client_start invite_req 0, 0) RetxFires (client_on_retx (client_start invite_req 0) 500, 500)"
    using client_step.retx [of "client_start invite_req 0" 0]
    by (simp add: client_start_def invite_req_def request_new_def timer_defs)
  then have r: "client_run (client_start invite_req 0, 0) ([] @ [RetxFires]) (client_on_retx (client_start invite_req 0) 500, 500)"
    by (rule client_run.step [OF client_run.stop])
  have "req_method invite_req = Invite" by (simp add: invite_req_def request_new_def)
  from client_invite_schedule [OF r this] r show ?thesis by blast
qed

text \<open>Once an INVITE transaction has received a provisional response it never sends the
  request again.\<close>

theorem client_invite_quiet_after_1xx:
  assumes "client_step s (Recv resp) s1" "is_invite (fst s)" "100 \<le> resp_status resp" "resp_status resp < 200"
    and "client_run s1 es s2"
  shows "ct_sent (fst s2) = ct_sent (fst s)"
proof -
  have "ct_sent (fst s1) = ct_sent (fst s)" "is_invite (fst s1)" "ct_state (fst s1) \<noteq> Calling"
    using assms(1,2) by (auto elim!: client_stepE simp: client_on_response_frame is_invite_def)
  with invite_quiet_run [OF assms(5)] show ?thesis by simp
qed

definition ringing_ex :: sip_response where
  "ringing_ex = \<lparr>resp_status = 180, resp_reason = ''Ringing'', resp_headers = [], resp_body = []\<rparr>"

theorem client_invite_quiet_after_1xx_witness:
  "\<exists>s1 es s2. client_step (client_start invite_req 0, 0) (Recv ringing_ex) s1 \<and> client_run s1 es s2 \<and> es \<noteq> []
     \<and> ct_sent (fst s2) = ct_sent (client_start invite_req 0)"
proof -
  let ?c = "client_start invite_req 0"
  let ?c1 = "client_on_response ?c 100 ringing_ex"
  have s1: "client_step (?c, 0) (Recv ringing_ex) (?c1, 100)"
    by (intro client_step.recv) (simp_all add: client_start_def invite_req_def request_new_def timer_defs)
  have "client_step (?c1, 100) TimeoutFires (client_on_timeout ?c1, ct_timeout_at ?c1)"
    by (intro client_step.timeout)
      (simp_all add: client_start_def client_defs invite_req_def request_new_def ringing_ex_def timer_defs)
  then have r: "client_run (?c1, 100) ([] @ [TimeoutFires]) (client_on_timeout ?c1, ct_timeout_at ?c1)"
    by (rule client_run.step [OF client_run.stop])
  have "is_invite (fst (?c, 0))" by (simp add: client_start_def is_invite_def invite_req_def request_new_def)
  from client_invite_quiet_after_1xx [OF s1 this _ _ r]
  have "ct_sent (fst (client_on_timeout ?c1, ct_timeout_at ?c1)) = ct_sent ?c" by (simp add: ringing_ex_def)
  with s1 r show ?thesis by (intro exI conjI) (assumption | simp)+
qed

text \<open>A transaction of any other method sends its request at most eleven times.\<close>

theorem client_other_bounded:
  assumes "client_run (client_start req t0, t0) es (ct, now)" "req_method req \<noteq> Invite"
  shows "1 \<le> length (ct_sent ct) \<and> length (ct_sent ct) \<le> 11"
  using other_inv_run [OF assms] by (simp add: other_inv_def Let_def)

theorem client_other_bounded_witness:
  "1 \<le> length (ct_sent (client_start (request_new Bye ''sip:b'') 0)) \<and> length (ct_sent (client_start (request_new Bye ''sip:b'') 0)) \<le> 11"
  by (rule client_other_bounded [OF client_run.stop]) (simp add: request_new_def)

text \<open>C22. No transaction runs on: in every run the clock stays within 64 T1 of the start, at
  most 64 retransmission timers fire, and as long as there is no result a timer step
  is possible, so the transaction cannot hang.\<close>

theorem client_terminates:
  assumes "client_run (client_start req t0, t0) es (ct, now)"
  shows "now \<le> t0 + 64 * T1 \<and> length (filter is_retx es) \<le> 64
    \<and> (ct_result ct = None \<longrightarrow> (\<exists>s'. client_step (ct, now) RetxFires s' \<or> client_step (ct, now) TimeoutFires s'))"
proof -
  have b: "base_inv req t0 es (ct, now)" using assms by (rule base_inv_run)
  then have "\<exists>s'. client_step (ct, now) RetxFires s' \<or> client_step (ct, now) TimeoutFires s'" if "ct_result ct = None"
  proof (cases "ct_next_retx ct \<le> ct_timeout_at ct")
    case True
    moreover have "now \<le> ct_next_retx ct" using b that by (auto simp: base_inv_def)
    ultimately show ?thesis using that client_step.retx [of ct now] by auto
  next
    case False
    have "now \<le> ct_timeout_at ct" using b by (auto simp: base_inv_def)
    with False that show ?thesis using client_step.timeout [of ct now] by auto
  qed
  with b show ?thesis by (auto simp: base_inv_def timer_defs)
qed

theorem client_terminates_witness:
  "\<exists>s'. client_step (client_start invite_req 7, 7) RetxFires s' \<or> client_step (client_start invite_req 7, 7) TimeoutFires s'"
proof -
  have "ct_result (client_start invite_req 7) = None" by (simp add: client_start_def)
  with client_terminates [OF client_run.stop [of "(client_start invite_req 7, 7)"]] show ?thesis by blast
qed

text \<open>C17. The result of a transaction is justified: a response it returns was received and is
  not provisional, and a refused INVITE was acknowledged exactly once, at that moment,
  whenever the ACK can be built; a timeout is reported only 64 T1 after the start.\<close>

theorem client_result_sound:
  assumes "client_run (client_start req t0, t0) es (ct, now)" "ct_result ct = Some res"
  shows "case res of
      Inr resp \<Rightarrow> Recv resp \<in> set es \<and> \<not> (100 \<le> resp_status resp \<and> resp_status resp < 200)
        \<and> ct_acks ct = (if req_method req = Invite \<and> 300 \<le> resp_status resp \<and> resp_status resp < 700
            then (case build_non2xx_ack req resp of Inr ack \<Rightarrow> [(now, ack)] | Inl _ \<Rightarrow> []) else [])
    | Inl e \<Rightarrow> ct_acks ct = [] \<and> (e = TxTimeout \<and> now = t0 + 64 * T1 \<or> e = LayerStopped \<and> ChannelClosed \<in> set es)"
proof -
  have "result_inv es (ct, now)"
    using assms(1)
  proof (rule client_run_inv)
    show "result_inv [] (client_start req t0, t0)" by (simp add: result_inv_def client_start_def)
  qed (rule result_inv_step)
  moreover have "base_inv req t0 es (ct, now)" using assms(1) by (rule base_inv_run)
  ultimately show ?thesis
    using assms(2)
    by (auto simp: result_inv_def base_inv_def expected_acks_def is_invite_def timer_defs split: sum.splits)
qed

theorem client_result_sound_witness:
  "\<exists>es ct now. client_run (client_start invite_req 0, 0) es (ct, now) \<and> ct_result ct = Some (Inl TxTimeout)
     \<and> now = 0 + 64 * T1"
proof -
  let ?c = "client_start invite_req 0"
  have n: "\<exists>es now. client_run (?c, 0) es (client_silent 12 ?c, now) \<and> set es \<subseteq> {RetxFires, TimeoutFires}"
    by (rule client_silent_is_run) (simp_all add: client_start_def)
  then obtain es now where r: "client_run (?c, 0) es (client_silent 12 ?c, now)" "set es \<subseteq> {RetxFires, TimeoutFires}"
    by blast
  have t: "ct_result (client_silent 12 ?c) = Some (Inl TxTimeout)"
    by (simp add: client_start_def client_defs invite_req_def request_new_def timer_defs)
  have "now = 0 + 64 * T1" using client_result_sound [OF r(1) t] by (simp only: sum.case) blast
  with r(1) t show ?thesis by (intro exI conjI) assumption+
qed

text \<open>When no response arrives, an INVITE is sent exactly seven times and any other request
  exactly eleven times, at the instants of RFC 3261, and then the timeout is reported.\<close>

theorem client_silent_outcome:
  "ct_result (client_silent 12 (client_start req t0)) = Some (Inl TxTimeout)
   \<and> ct_sent (client_silent 12 (client_start req t0)) =
       map (\<lambda>d. t0 + d)
         (if req_method req = Invite then [0, 500, 1500, 3500, 7500, 15500, 31500]
          else [0, 500, 1500, 3500, 7500, 11500, 15500, 19500, 23500, 27500, 31500])"
  by (simp add: client_start_def client_defs timer_defs)

end
