(* ===== verification/Server_Transaction.thy ===== *)
theory Server_Transaction
  imports Sip_Transaction
begin

text \<open>
  The server transaction of \<^verbatim>\<open>src/src/sip/transaction.rs\<close> with the background task that
  repeats the final response. The task's branches are functions on its record; the
  events of the channel are handed to it directly, and a session is any sequence of
  responses, retransmitted requests, acknowledgements and timer expiries. Sent
  datagrams are collected in a log. The facts: everything goes to the address the
  request came from with the rewritten Via, the task repeats the latest final
  response, and an acknowledged INVITE is quiet.
\<close>

section \<open>Definitions\<close>

datatype server_state = SrvTrying | SrvProceeding | SrvCompleted | SrvConfirmed | SrvTerminated

text \<open>The task: waiting for events and timers, asleep in Timer I after an ACK, or ended.\<close>

datatype task_phase = Waiting | TimerI nat | Ended

record timer_task =
  tt_invite :: bool
  tt_bytes :: string
  tt_g_interval :: nat
  tt_g_at :: nat
  tt_end_at :: nat
  tt_phase :: task_phase

record server_tx =
  st_id :: transaction_id
  st_request :: sip_request
  st_response_dest :: socket_addr
  st_response_via :: string
  st_state :: server_state
  st_last_response :: "sip_response option"
  st_timer :: "timer_task option"

type_synonym datagram = "socket_addr \<times> string"

definition server_new :: "sip_request \<Rightarrow> socket_addr \<Rightarrow> tx_error + server_tx" where
  "server_new request remote =
     res_bind (id_from_request request) (\<lambda>i.
     res_bind (ok_or NoVia (hdr_get (req_headers request) ''via'')) (\<lambda>original_via.
       Inr \<lparr>st_id = i, st_request = request,
            st_response_dest = response_destination_for original_via remote,
            st_response_via = apply_rport_to_via_for_response original_via remote,
            st_state = (if req_method request = Invite then SrvProceeding else SrvTrying),
            st_last_response = None, st_timer = None\<rparr>))"

definition start_completed_timers :: "server_tx \<Rightarrow> nat \<Rightarrow> server_tx" where
  "start_completed_timers st now =
     (let inv = (req_method (st_request st) = Invite);
          last_bytes = (case st_last_response st of Some r \<Rightarrow> response_to_bytes r | None \<Rightarrow> [])
      in st\<lparr>st_timer := Some \<lparr>tt_invite = inv, tt_bytes = last_bytes, tt_g_interval = T1, tt_g_at = now + T1,
              tt_end_at = now + (if inv then TIMER_H else TIMER_J),
              tt_phase = (if last_bytes = [] then Ended else Waiting)\<rparr>\<rparr>)"

definition respond :: "server_tx \<Rightarrow> sip_response \<Rightarrow> nat \<Rightarrow> datagram list \<times> server_tx" where
  "respond st resp0 now =
     (let code = resp_status resp0;
          resp = resp0\<lparr>resp_headers := hdr_set ''Via'' (st_response_via st) (resp_headers resp0)\<rparr>;
          out = [(st_response_dest st, response_to_bytes resp)];
          st1 = st\<lparr>st_last_response := Some resp\<rparr>
      in (out,
          if st_state st = SrvTrying \<and> 100 \<le> code \<and> code \<le> 199 then st1\<lparr>st_state := SrvProceeding\<rparr>
          else if (st_state st = SrvTrying \<or> st_state st = SrvProceeding) \<and> 200 \<le> code \<and> code \<le> 699 then
            start_completed_timers (st1\<lparr>st_state := SrvCompleted\<rparr>) now
          else if st_state st = SrvProceeding \<and> 100 \<le> code \<and> code \<le> 199 then st1
          else if st_state st = SrvCompleted \<and> 200 \<le> code \<and> code \<le> 699 then start_completed_timers st1 now
          else st1))"

text \<open>The branches of the task, with whether it sends its response.\<close>

definition task_on_retransmit :: "timer_task \<Rightarrow> nat \<Rightarrow> bool \<times> timer_task" where
  "task_on_retransmit tt now =
     (if tt_phase tt \<noteq> Waiting then (False, tt)
      else if tt_invite tt then (True, tt\<lparr>tt_g_interval := T1, tt_g_at := now + T1\<rparr>)
      else (True, tt))"

definition task_on_ack :: "timer_task \<Rightarrow> nat \<Rightarrow> timer_task" where
  "task_on_ack tt now = (if tt_phase tt = Waiting \<and> tt_invite tt then tt\<lparr>tt_phase := TimerI (now + TIMER_I)\<rparr> else tt)"

definition task_on_g :: "timer_task \<Rightarrow> bool \<times> timer_task" where
  "task_on_g tt =
     (if tt_phase tt = Waiting \<and> tt_invite tt then
        (let g = min (tt_g_interval tt * 2) T2
         in (True, tt\<lparr>tt_g_interval := g, tt_g_at := tt_g_at tt + g\<rparr>))
      else (False, tt))"

text \<open>Timer H or J, or the end of Timer I.\<close>

definition task_on_end :: "timer_task \<Rightarrow> timer_task" where
  "task_on_end tt = tt\<lparr>tt_phase := Ended\<rparr>"

definition handle_retransmit :: "server_tx \<Rightarrow> nat \<Rightarrow> datagram list \<times> server_tx" where
  "handle_retransmit st now =
     (case st_timer st of
        Some tt \<Rightarrow>
          (let (sends, tt') = task_on_retransmit tt now
           in (if sends then [(st_response_dest st, tt_bytes tt)] else [], st\<lparr>st_timer := Some tt'\<rparr>))
      | None \<Rightarrow>
          (case st_last_response st of
             Some resp \<Rightarrow> ([(st_response_dest st, response_to_bytes resp)], st)
           | None \<Rightarrow> ([], st)))"

definition handle_ack :: "server_tx \<Rightarrow> nat \<Rightarrow> server_tx" where
  "handle_ack st now =
     (if req_method (st_request st) = Invite \<and> st_state st = SrvCompleted then
        st\<lparr>st_state := SrvConfirmed, st_timer := map_option (\<lambda>tt. task_on_ack tt now) (st_timer st)\<rparr>
      else st)"

section \<open>Sessions\<close>

datatype server_event = Respond sip_response nat | Retransmit nat | AckIn nat | GFires | EndFires

fun server_step :: "server_tx \<times> datagram list \<Rightarrow> server_event \<Rightarrow> server_tx \<times> datagram list" where
  "server_step (st, out) (Respond resp now) = (case respond st resp now of (o1, st') \<Rightarrow> (st', out @ o1))"
| "server_step (st, out) (Retransmit now) = (case handle_retransmit st now of (o1, st') \<Rightarrow> (st', out @ o1))"
| "server_step (st, out) (AckIn now) = (handle_ack st now, out)"
| "server_step (st, out) GFires =
     (case st_timer st of
        None \<Rightarrow> (st, out)
      | Some tt \<Rightarrow>
          (let (sends, tt') = task_on_g tt
           in (st\<lparr>st_timer := Some tt'\<rparr>, out @ (if sends then [(st_response_dest st, tt_bytes tt)] else []))))"
| "server_step (st, out) EndFires = (st\<lparr>st_timer := map_option task_on_end (st_timer st)\<rparr>, out)"

fun server_rank :: "server_state \<Rightarrow> nat" where
  "server_rank SrvTrying = 0"
| "server_rank SrvProceeding = 1"
| "server_rank SrvCompleted = 2"
| "server_rank SrvConfirmed = 3"
| "server_rank SrvTerminated = 4"

section \<open>What every session keeps\<close>

text \<open>A datagram of the transaction: sent to the source of the request, with the rewritten Via on top.\<close>

definition good_datagram :: "server_tx \<Rightarrow> datagram \<Rightarrow> bool" where
  "good_datagram st d \<longleftrightarrow>
     fst d = st_response_dest st
     \<and> (\<exists>resp. snd d = response_to_bytes resp \<and> hdr_get (resp_headers resp) ''via'' = Some (st_response_via st))"

definition good_bytes :: "server_tx \<Rightarrow> string \<Rightarrow> bool" where
  "good_bytes st b \<longleftrightarrow> good_datagram st (st_response_dest st, b)"

definition server_inv :: "server_tx \<Rightarrow> server_tx \<times> datagram list \<Rightarrow> bool" where
  "server_inv st0 s \<longleftrightarrow>
     (let (st, out) = s
      in st_id st = st_id st0 \<and> st_request st = st_request st0 \<and> st_response_dest st = st_response_dest st0
         \<and> st_response_via st = st_response_via st0
         \<and> list_all (good_datagram st0) out
         \<and> (case st_last_response st of None \<Rightarrow> True | Some r \<Rightarrow> good_bytes st0 (response_to_bytes r))
         \<and> (case st_timer st of
              None \<Rightarrow> st_state st \<noteq> SrvCompleted \<and> st_state st \<noteq> SrvConfirmed
            | Some tt \<Rightarrow> (st_state st = SrvCompleted \<or> st_state st = SrvConfirmed) \<and> good_bytes st0 (tt_bytes tt)
                \<and> (tt_invite tt \<longleftrightarrow> req_method (st_request st) = Invite)
                \<and> (st_state st = SrvConfirmed \<longrightarrow> tt_phase tt \<noteq> Waiting))
         \<and> st_state st \<noteq> SrvTerminated)"

lemma start_timers_simps [simp]:
  "st_id (start_completed_timers st now) = st_id st" "st_request (start_completed_timers st now) = st_request st"
  "st_response_dest (start_completed_timers st now) = st_response_dest st"
  "st_response_via (start_completed_timers st now) = st_response_via st"
  "st_last_response (start_completed_timers st now) = st_last_response st"
  "st_state (start_completed_timers st now) = st_state st"
  by (simp_all add: start_completed_timers_def Let_def)

lemma respond_good:
  assumes "st_response_dest st = st_response_dest st0" "st_response_via st = st_response_via st0"
  shows "good_datagram st0 (st_response_dest st0, response_to_bytes (resp\<lparr>resp_headers := hdr_set ''Via'' (st_response_via st) (resp_headers resp)\<rparr>))"
  unfolding good_datagram_def using assms
  by (intro conjI exI [of _ "resp\<lparr>resp_headers := hdr_set ''Via'' (st_response_via st) (resp_headers resp)\<rparr>"])
    (simp_all add: hdr_simps)

lemma start_timers_timer:
  "st_last_response st = Some r \<Longrightarrow>
   \<exists>tt. st_timer (start_completed_timers st now) = Some tt \<and> tt_bytes tt = response_to_bytes r
     \<and> (tt_invite tt \<longleftrightarrow> req_method (st_request st) = Invite) \<and> tt_phase tt = Waiting"
  by (simp add: start_completed_timers_def Let_def response_to_bytes_def)

lemma server_inv_respond:
  assumes "server_inv st0 (st, out)"
  shows "server_inv st0 (server_step (st, out) (Respond resp now))"
proof -
  let ?r = "resp\<lparr>resp_headers := hdr_set ''Via'' (st_response_via st) (resp_headers resp)\<rparr>"
  have g: "good_datagram st0 (st_response_dest st0, response_to_bytes ?r)"
    using assms by (intro respond_good) (simp_all add: server_inv_def)
  let ?s = "st\<lparr>st_last_response := Some ?r, st_state := SrvCompleted\<rparr>"
  let ?u = "st\<lparr>st_last_response := Some ?r\<rparr>"
  obtain tt where t: "st_timer (start_completed_timers ?s now) = Some tt" "tt_bytes tt = response_to_bytes ?r"
    "tt_invite tt \<longleftrightarrow> req_method (st_request st) = Invite"
    using start_timers_timer [of ?s ?r now] by auto
  obtain uu where u: "st_timer (start_completed_timers ?u now) = Some uu" "tt_bytes uu = response_to_bytes ?r"
    "tt_invite uu \<longleftrightarrow> req_method (st_request st) = Invite"
    using start_timers_timer [of ?u ?r now] by auto
  show ?thesis
    using assms g t u unfolding server_inv_def good_bytes_def
    by (cases "st_state st") (auto simp: respond_def Let_def split: option.splits)
qed

lemma server_inv_retransmit:
  assumes "server_inv st0 (st, out)"
  shows "server_inv st0 (server_step (st, out) (Retransmit now))"
  using assms unfolding server_inv_def good_bytes_def
  by (auto simp: handle_retransmit_def task_on_retransmit_def Let_def split: option.splits)

lemma server_inv_step: "server_inv st0 s \<Longrightarrow> server_inv st0 (server_step s e)"
proof -
  assume a: "server_inv st0 s"
  obtain st out where s: "s = (st, out)" by fastforce
  show ?thesis
  proof (cases e)
    case (Respond resp now)
    then show ?thesis using server_inv_respond a s by blast
  next
    case (Retransmit now)
    then show ?thesis using server_inv_retransmit a s by blast
  next
    case (AckIn now)
    then show ?thesis using a unfolding s server_inv_def good_bytes_def
      by (auto simp: handle_ack_def task_on_ack_def split: option.splits)
  next
    case GFires
    then show ?thesis using a unfolding s server_inv_def good_bytes_def
      by (auto simp: task_on_g_def Let_def split: option.splits)
  next
    case EndFires
    then show ?thesis using a unfolding s server_inv_def good_bytes_def
      by (auto simp: task_on_end_def split: option.splits)
  qed
qed

interpretation srv: inv_machine server_step "server_inv st0" for st0
  by unfold_locales (rule server_inv_step)

lemma server_new_ok:
  assumes "server_new req remote = Inr st"
  shows "server_inv st (st, []) \<and> st_response_dest st = remote \<and> id_from_request req = Inr (st_id st)
    \<and> st_request st = req
    \<and> (\<exists>via. hdr_get (req_headers req) ''via'' = Some via \<and> st_response_via st = apply_rport_to_via_for_response via remote)"
  using assms by (auto simp: server_new_def server_inv_def response_destination_for_def split: if_splits)

lemma server_rank_step: "server_rank (st_state (fst s)) \<le> server_rank (st_state (fst (server_step s e)))"
  by (cases s; cases e)
    (auto simp: respond_def handle_retransmit_def handle_ack_def Let_def split: option.splits prod.splits)

interpretation srv_rank: monotone_machine server_step "\<lambda>s. server_rank (st_state (fst s))"
  by unfold_locales (rule server_rank_step)

section \<open>The latest final response\<close>

text \<open>The final response most recently handed to the transaction in a state that takes one.\<close>

fun latest_final :: "server_tx \<times> datagram list \<Rightarrow> sip_response option \<Rightarrow> server_event list \<Rightarrow> sip_response option" where
  "latest_final s f [] = f"
| "latest_final s f (e # es) =
     latest_final (server_step s e)
       (case e of
          Respond resp now \<Rightarrow>
            if st_state (fst s) \<noteq> SrvConfirmed \<and> 200 \<le> resp_status resp \<and> resp_status resp \<le> 699
            then Some (resp\<lparr>resp_headers := hdr_set ''Via'' (st_response_via (fst s)) (resp_headers resp)\<rparr>) else f
        | _ \<Rightarrow> f) es"

definition timer_holds :: "server_tx \<Rightarrow> sip_response option \<Rightarrow> bool" where
  "timer_holds st f \<longleftrightarrow> (case st_timer st of None \<Rightarrow> True | Some tt \<Rightarrow> \<exists>r. f = Some r \<and> tt_bytes tt = response_to_bytes r)"

lemma start_timers_holds: "timer_holds (start_completed_timers (st\<lparr>st_last_response := Some r\<rparr>) now) (Some r)"
  by (simp add: timer_holds_def start_completed_timers_def Let_def)

lemma start_timers_holds': "timer_holds (start_completed_timers (st\<lparr>st_last_response := Some r, st_state := q\<rparr>) now) (Some r)"
  by (simp add: timer_holds_def start_completed_timers_def Let_def)

lemma respond_timer:
  assumes "server_inv st0 (st, out)" "timer_holds st f"
  shows "timer_holds (snd (respond st resp now))
    (if st_state st \<noteq> SrvConfirmed \<and> 200 \<le> resp_status resp \<and> resp_status resp \<le> 699
     then Some (resp\<lparr>resp_headers := hdr_set ''Via'' (st_response_via st) (resp_headers resp)\<rparr>) else f)"
proof -
  have n: "st_state st \<noteq> SrvTerminated" using assms(1) by (simp add: server_inv_def)
  have f: "timer_holds (st\<lparr>st_last_response := x\<rparr>) f" "timer_holds (st\<lparr>st_last_response := x, st_state := q\<rparr>) f" for x q
    using assms(2) by (simp_all add: timer_holds_def)
  show ?thesis
    using n f start_timers_holds start_timers_holds' by (cases "st_state st") (auto simp: respond_def Let_def)
qed

lemma timer_holds_step:
  assumes "server_inv st0 s" "timer_holds (fst s) f"
  shows "timer_holds (fst (server_step s e))
    (case e of
       Respond resp now \<Rightarrow>
         if st_state (fst s) \<noteq> SrvConfirmed \<and> 200 \<le> resp_status resp \<and> resp_status resp \<le> 699
         then Some (resp\<lparr>resp_headers := hdr_set ''Via'' (st_response_via (fst s)) (resp_headers resp)\<rparr>) else f
     | _ \<Rightarrow> f)"
proof (cases s)
  case (Pair st out)
  show ?thesis
  proof (cases e)
    case (Respond resp now)
    then show ?thesis using respond_timer [of st0 st out f resp now] assms Pair
      by (auto simp: split_beta split: if_splits)
  qed (use assms(2) Pair in \<open>auto simp: timer_holds_def handle_retransmit_def handle_ack_def task_on_retransmit_def
      task_on_ack_def task_on_g_def task_on_end_def Let_def split: option.splits\<close>)
qed

lemma timer_holds_run:
  "server_inv st0 s \<Longrightarrow> timer_holds (fst s) f \<Longrightarrow>
   timer_holds (fst (run_steps server_step s es)) (latest_final s f es)"
proof (induction es arbitrary: s f)
  case (Cons e es)
  then show ?case
    using server_inv_step [OF Cons.prems(1), of e] timer_holds_step [OF Cons.prems, of e] by simp
qed simp

section \<open>Properties\<close>

text \<open>Whatever happens to a server transaction, every datagram it sends goes to the address
  its request came from and is a response whose topmost Via is that of the request
  with \<^verbatim>\<open>received\<close> and \<^verbatim>\<open>rport\<close> filled in.\<close>

theorem server_replies_to_source:
  assumes "server_new req remote = Inr st0" "run_steps server_step (st0, []) evs = (st, out)"
  shows "\<exists>via. hdr_get (req_headers req) ''via'' = Some via
    \<and> list_all (\<lambda>(dest, bytes). dest = remote
         \<and> (\<exists>resp. bytes = response_to_bytes resp
              \<and> hdr_get (resp_headers resp) ''via'' = Some (apply_rport_to_via_for_response via remote))) out"
proof -
  have n: "server_inv st0 (st0, [])" "st_response_dest st0 = remote" using server_new_ok [OF assms(1)] by simp_all
  obtain via where v: "hdr_get (req_headers req) ''via'' = Some via" "st_response_via st0 = apply_rport_to_via_for_response via remote"
    using server_new_ok [OF assms(1)] by blast
  have "server_inv st0 (st, out)" using srv.run_inv [OF n(1), of evs] assms(2) by simp
  then have "list_all (good_datagram st0) out" by (simp add: server_inv_def)
  with n v show ?thesis by (intro exI [of _ via]) (fastforce simp: list_all_iff good_datagram_def)
qed

definition bye_ex :: sip_request where
  "bye_ex = \<lparr>req_method = Bye, req_uri = ''sip:r'', req_headers = [(''via'', via_ex)], req_body = []\<rparr>"

definition ok_ex :: sip_response where
  "ok_ex = \<lparr>resp_status = 200, resp_reason = ''OK'', resp_headers = [], resp_body = []\<rparr>"

lemma server_ex: "\<exists>st. server_new bye_ex remote_ex = Inr st"
  by (simp add: server_new_def id_from_request_def bye_ex_def hdr_get_def hdr_simps parse_via_ex)

theorem server_replies_to_source_witness:
  "\<exists>st0 st out. server_new bye_ex remote_ex = Inr st0
     \<and> run_steps server_step (st0, []) [Respond ok_ex 0, Retransmit 10] = (st, out)
     \<and> list_all (\<lambda>(dest, bytes). dest = remote_ex) out"
proof -
  obtain st0 where s: "server_new bye_ex remote_ex = Inr st0" using server_ex by blast
  obtain st out where r: "run_steps server_step (st0, []) [Respond ok_ex 0, Retransmit 10] = (st, out)" by fastforce
  from server_replies_to_source [OF s r] have "list_all (\<lambda>(dest, bytes). dest = remote_ex) out"
    by (auto simp: list_all_iff)
  with s r show ?thesis by blast
qed

text \<open>C19. The retransmission task always holds the latest final response: when a second final
  response replaces the first (the race of a CANCEL with another refusal), what the
  timers repeat from then on is the second.\<close>

theorem server_repeats_latest_final:
  assumes "server_new req remote = Inr st0" "run_steps server_step (st0, []) evs = (st, out)" "st_timer st = Some tt"
  shows "\<exists>r. latest_final (st0, []) None evs = Some r \<and> tt_bytes tt = response_to_bytes r"
proof -
  have "timer_holds (fst (st0, [])) None"
    using assms(1) by (auto simp: server_new_def timer_holds_def)
  from timer_holds_run [OF _ this, of st0 evs] server_new_ok [OF assms(1)] assms(2,3)
  show ?thesis by (auto simp: timer_holds_def)
qed

theorem server_repeats_latest_final_witness:
  "\<exists>st0 st out tt. server_new bye_ex remote_ex = Inr st0
     \<and> run_steps server_step (st0, []) [Respond ok_ex 0, Respond (ok_ex\<lparr>resp_status := 487\<rparr>) 5] = (st, out)
     \<and> st_timer st = Some tt
     \<and> (\<exists>r. latest_final (st0, []) None [Respond ok_ex 0, Respond (ok_ex\<lparr>resp_status := 487\<rparr>) 5] = Some r
          \<and> resp_status r = 487 \<and> tt_bytes tt = response_to_bytes r)"
proof -
  let ?evs = "[Respond ok_ex 0, Respond (ok_ex\<lparr>resp_status := 487\<rparr>) 5]"
  obtain st0 where s: "server_new bye_ex remote_ex = Inr st0" using server_ex by blast
  obtain st out where r: "run_steps server_step (st0, []) ?evs = (st, out)" by fastforce
  have s0: "st_state st0 = SrvTrying" using s by (auto simp: server_new_def bye_ex_def)
  obtain tt where t: "st_timer st = Some tt"
    using r s0 by (auto simp: respond_def Let_def ok_ex_def start_completed_timers_def)
  have "\<exists>r. latest_final (st0, []) None ?evs = Some r \<and> resp_status r = 487"
    using s0 by (simp add: respond_def Let_def ok_ex_def)
  with server_repeats_latest_final [OF s r t] s r t show ?thesis by (metis option.inject)
qed

text \<open>The state of a server transaction only moves forward, and it never reaches the
  terminated state: the expiry of Timer H, I or J ends the background task but is
  not recorded in the state.\<close>

theorem server_state_forward:
  assumes "server_new req remote = Inr st0" "run_steps server_step (st0, []) (evs @ evs') = (st, out)"
    "run_steps server_step (st0, []) evs = (st1, out1)"
  shows "server_rank (st_state st1) \<le> server_rank (st_state st) \<and> st_state st \<noteq> SrvTerminated"
proof -
  have i: "server_inv st0 (st0, [])" using server_new_ok [OF assms(1)] by simp
  have "run_steps server_step (st1, out1) evs' = (st, out)" using assms(2,3) by (simp add: run_steps_append)
  with srv_rank.run_mono [of "(st1, out1)" evs'] have "server_rank (st_state st1) \<le> server_rank (st_state st)" by simp
  moreover have "server_inv st0 (st, out)" using srv.run_inv [OF i, of "evs @ evs'"] assms(2) by simp
  ultimately show ?thesis by (simp add: server_inv_def)
qed

theorem server_state_forward_witness:
  "\<exists>st0 st1 out1 st out. server_new bye_ex remote_ex = Inr st0
     \<and> run_steps server_step (st0, []) [Respond ok_ex 0] = (st1, out1)
     \<and> run_steps server_step (st0, []) ([Respond ok_ex 0] @ [EndFires]) = (st, out)
     \<and> server_rank (st_state st1) \<le> server_rank (st_state st) \<and> st_state st \<noteq> SrvTerminated"
proof -
  obtain st0 where s: "server_new bye_ex remote_ex = Inr st0" using server_ex by blast
  obtain st1 out1 where r1: "run_steps server_step (st0, []) [Respond ok_ex 0] = (st1, out1)" by fastforce
  obtain st out where r: "run_steps server_step (st0, []) ([Respond ok_ex 0] @ [EndFires]) = (st, out)" by fastforce
  from server_state_forward [OF s r r1] s r1 r show ?thesis by blast
qed

text \<open>An acknowledged INVITE is quiet: after the ACK neither a retransmitted INVITE nor a
  timer makes the transaction send anything.\<close>

theorem server_quiet_after_ack:
  assumes "server_new req remote = Inr st0" "run_steps server_step (st0, []) evs = (st, out)"
    "st_state st = SrvConfirmed" "e \<in> {Retransmit now, AckIn now, GFires, EndFires}"
  shows "snd (server_step (st, out) e) = out"
proof -
  have i: "server_inv st0 (st0, [])" using server_new_ok [OF assms(1)] by simp
  have inv: "server_inv st0 (st, out)" using srv.run_inv [OF i, of evs] assms(2) by simp
  then obtain tt where tt: "st_timer st = Some tt" "tt_phase tt \<noteq> Waiting"
    using assms(3) by (auto simp: server_inv_def split: option.splits)
  with assms(4) show ?thesis
    by (auto simp: handle_retransmit_def task_on_retransmit_def task_on_g_def handle_ack_def)
qed

definition invite_srv_ex :: sip_request where
  "invite_srv_ex = bye_ex\<lparr>req_method := Invite\<rparr>"

theorem server_quiet_after_ack_witness:
  "\<exists>st0 st out. server_new invite_srv_ex remote_ex = Inr st0
     \<and> run_steps server_step (st0, []) [Respond ok_ex 0, AckIn 3] = (st, out)
     \<and> st_state st = SrvConfirmed \<and> snd (server_step (st, out) GFires) = out"
proof -
  obtain st0 where s: "server_new invite_srv_ex remote_ex = Inr st0"
    by (simp add: server_new_def id_from_request_def invite_srv_ex_def bye_ex_def hdr_get_def hdr_simps parse_via_ex)
  obtain st out where r: "run_steps server_step (st0, []) [Respond ok_ex 0, AckIn 3] = (st, out)" by fastforce
  have "st_state st0 = SrvProceeding" "req_method (st_request st0) = Invite"
    using s by (auto simp: server_new_def invite_srv_ex_def)
  then have c: "st_state st = SrvConfirmed"
    using r by (auto simp: respond_def handle_ack_def Let_def ok_ex_def)
  from server_quiet_after_ack [OF s r c] s r c show ?thesis by blast
qed

end
