(* ===== verification/Transaction_Layer.thy ===== *)
theory Transaction_Layer
  imports Client_Transaction Server_Transaction
begin

text \<open>
  The transaction layer of \<^verbatim>\<open>src/src/sip/transaction.rs\<close>: the table of client transactions
  with the response progress of INVITEs, the dispatch of responses, the handling of
  one received datagram with the answer to malformed requests, and the clean-up after
  a request. A channel is the list of the responses put into it. The facts: a
  response reaches exactly the transaction it names, the progress a CANCEL waits for
  is what the responses in the channel say and never goes back, and a malformed
  datagram is answered at most once, never when it is a response itself.
\<close>

section \<open>Definitions\<close>

datatype progress = Pending | Provisional | Final

record tx_table =
  tb_clients :: "transaction_id \<rightharpoonup> sip_response list"
  tb_provisional :: "transaction_id \<rightharpoonup> progress"

definition table_empty :: tx_table where
  "table_empty = \<lparr>tb_clients = Map.empty, tb_provisional = Map.empty\<rparr>"

definition next_progress :: "progress \<Rightarrow> nat \<Rightarrow> progress" where
  "next_progress cur code =
     (let new_state = (if 100 \<le> code \<and> code < 200 then Provisional else if 200 \<le> code then Final else cur);
          should_advance = (cur = Pending \<or> cur = Provisional \<and> new_state = Final)
      in if should_advance then new_state else cur)"

definition dispatch_response :: "tx_table \<Rightarrow> sip_response \<Rightarrow> tx_table" where
  "dispatch_response tb resp =
     (case id_from_response resp of
        Inl _ \<Rightarrow> tb
      | Inr i \<Rightarrow>
          (let tb1 = (case tb_provisional tb i of
                        Some cur \<Rightarrow> tb\<lparr>tb_provisional := (tb_provisional tb)(i \<mapsto> next_progress cur (resp_status resp))\<rparr>
                      | None \<Rightarrow> tb)
           in case tb_clients tb i of
                Some q \<Rightarrow> tb1\<lparr>tb_clients := (tb_clients tb1)(i \<mapsto> q @ [resp])\<rparr>
              | None \<Rightarrow> tb1))"

definition create_client :: "tx_table \<Rightarrow> sip_request \<Rightarrow> tx_error + tx_table \<times> transaction_id" where
  "create_client tb request =
     res_bind (id_from_request request) (\<lambda>i.
       let tb1 = tb\<lparr>tb_clients := (tb_clients tb)(i \<mapsto> [])\<rparr>;
           tb2 = (if tx_method i = Invite then tb1\<lparr>tb_provisional := (tb_provisional tb1)(i \<mapsto> Pending)\<rparr> else tb1)
       in Inr (tb2, i))"

definition provisional_watch :: "tx_table \<Rightarrow> transaction_id \<Rightarrow> progress option" where
  "provisional_watch tb i = tb_provisional tb i"

definition drop_client :: "tx_table \<Rightarrow> transaction_id \<Rightarrow> tx_table" where
  "drop_client tb i =
     tb\<lparr>tb_clients := (tb_clients tb)(i := None), tb_provisional := (tb_provisional tb)(i := None)\<rparr>"

text \<open>The end of \<^verbatim>\<open>send_request\<close>: an INVITE refused with 300 to 699 is left to the absorber.\<close>

definition finish_request :: "tx_table \<Rightarrow> transaction_id \<Rightarrow> tx_error + sip_response \<Rightarrow> tx_table" where
  "finish_request tb i result =
     (let absorber_owns_cleanup =
            (case result of
               Inr resp \<Rightarrow> tx_method i = Invite \<and> 300 \<le> resp_status resp \<and> resp_status resp < 700
             | Inl _ \<Rightarrow> False)
      in if \<not> absorber_owns_cleanup then drop_client tb i else tb)"

section \<open>One received datagram\<close>

definition bad_request_response :: "32 word \<Rightarrow> request_skeleton \<Rightarrow> socket_addr \<Rightarrow> parse_error \<Rightarrow> sip_response" where
  "bad_request_response rnd sk remote err =
     (let dummy_req = \<lparr>req_method = sk_method sk, req_uri = sk_uri sk, req_headers = sk_headers sk, req_body = []\<rparr>;
          resp = build_response_skeleton rnd dummy_req 400 ''Bad Request'';
          hs1 = (case hdr_get (resp_headers resp) ''via'' of
                   Some via \<Rightarrow>
                     if find_str ''received='' via = None
                     then hdr_set ''Via'' (via @ '';received='' @ ip_display (sa_ip remote)) (resp_headers resp)
                     else resp_headers resp
                 | None \<Rightarrow> resp_headers resp);
          hs2 = hdr_set ''Reason'' (''SIP;cause=400;text='' @ [DQ] @ reason_text err @ [DQ]) hs1
      in resp\<lparr>resp_headers := hs2\<rparr>)"

definition try_send_400_bad_request :: "32 word \<Rightarrow> string \<Rightarrow> socket_addr \<Rightarrow> parse_error \<Rightarrow> datagram list" where
  "try_send_400_bad_request rnd data remote err =
     (case extract_request_skeleton_for_400 data of
        None \<Rightarrow> []
      | Some sk \<Rightarrow> [(remote, response_to_bytes (bad_request_response rnd sk remote err))])"

definition ascii_whitespace :: "char \<Rightarrow> bool" where
  "ascii_whitespace c \<longleftrightarrow> octet_of c \<in> {9, 10, 12, 13, 32}"

text \<open>The body of the receive loop: the table, the request handed to the user, the datagrams sent.\<close>

definition recv_datagram ::
  "32 word \<Rightarrow> tx_table \<Rightarrow> string \<Rightarrow> socket_addr \<Rightarrow> tx_table \<times> (sip_request \<times> socket_addr) option \<times> datagram list" where
  "recv_datagram rnd tb data remote =
     (case parse_message_classified data of
        Inr (Response resp) \<Rightarrow> (dispatch_response tb resp, None, [])
      | Inr (Request req) \<Rightarrow> (tb, Some (req, remote), [])
      | Inl e \<Rightarrow>
          if list_all ascii_whitespace data then (tb, None, [])
          else if is_header_recoverable e then (tb, None, try_send_400_bad_request rnd data remote e)
          else (tb, None, []))"

section \<open>The table over time\<close>

datatype table_event = Create sip_request | Dispatch sip_response | Drop transaction_id

fun table_step :: "tx_table \<Rightarrow> table_event \<Rightarrow> tx_table" where
  "table_step tb (Create req) = (case create_client tb req of Inr (tb', _) \<Rightarrow> tb' | Inl _ \<Rightarrow> tb)"
| "table_step tb (Dispatch resp) = dispatch_response tb resp"
| "table_step tb (Drop i) = drop_client tb i"

text \<open>What the responses in a channel say about the progress of an INVITE.\<close>

definition progress_of :: "sip_response list \<Rightarrow> progress" where
  "progress_of q =
     (if list_ex (\<lambda>r. 200 \<le> resp_status r) q then Final
      else if list_ex (\<lambda>r. 100 \<le> resp_status r) q then Provisional else Pending)"

definition watch_of :: "transaction_id \<Rightarrow> sip_response list option \<Rightarrow> progress option" where
  "watch_of i c = (case c of Some q \<Rightarrow> if tx_method i = Invite then Some (progress_of q) else None | None \<Rightarrow> None)"

definition table_inv :: "tx_table \<Rightarrow> bool" where
  "table_inv tb \<longleftrightarrow> (\<forall>i. tb_provisional tb i = watch_of i (tb_clients tb i))"

lemma watch_of_simps [simp]:
  "watch_of i None = None" "tx_method i \<noteq> Invite \<Longrightarrow> watch_of i c = None"
  "tx_method i = Invite \<Longrightarrow> watch_of i (Some q) = Some (progress_of q)"
  by (auto simp: watch_of_def split: option.splits)

lemma next_progress_of: "next_progress (progress_of q) (resp_status r) = progress_of (q @ [r])"
  by (auto simp: next_progress_def progress_of_def Let_def)

lemma table_inv_dispatch: "table_inv tb \<Longrightarrow> table_inv (dispatch_response tb resp)"
proof (cases "id_from_response resp")
  case (Inr i)
  assume a: "table_inv tb"
  then have p: "tb_provisional tb j = watch_of j (tb_clients tb j)" for j by (simp add: table_inv_def)
  show ?thesis
  proof (cases "tb_clients tb i")
    case None
    then show ?thesis using Inr a p [of i] by (simp add: dispatch_response_def)
  next
    case (Some q)
    then show ?thesis
      using Inr p next_progress_of [of q resp]
      by (cases "tx_method i = Invite") (simp_all add: dispatch_response_def table_inv_def Let_def)
  qed
qed (simp add: dispatch_response_def)

lemma table_inv_create: "table_inv tb \<Longrightarrow> create_client tb req = Inr (tb', i) \<Longrightarrow> table_inv tb'"
  by (auto simp: create_client_def table_inv_def progress_of_def Let_def split: if_splits)

lemma table_inv_step: "table_inv tb \<Longrightarrow> table_inv (table_step tb e)"
proof (cases e)
  case (Create req)
  assume "table_inv tb"
  with Create table_inv_create [of tb req] show ?thesis by (auto split: sum.splits)
next
  case (Drop i)
  assume "table_inv tb"
  with Drop show ?thesis by (auto simp: table_inv_def drop_client_def)
qed (auto intro: table_inv_dispatch)

interpretation tbl: inv_machine table_step table_inv
  by unfold_locales (rule table_inv_step)

lemma table_inv_empty: "table_inv table_empty"
  by (simp add: table_inv_def table_empty_def)

text \<open>The progress as a number, for each transaction; dispatching never lowers it.\<close>

fun progress_rank :: "progress option \<Rightarrow> nat" where
  "progress_rank None = 0"
| "progress_rank (Some Pending) = 1"
| "progress_rank (Some Provisional) = 2"
| "progress_rank (Some Final) = 3"

lemma next_progress_rank: "progress_rank (Some p) \<le> progress_rank (Some (next_progress p code))"
  by (cases p) (auto simp: next_progress_def Let_def)

lemma dispatch_rank:
  "(\<lambda>i. progress_rank (tb_provisional tb i)) \<le> (\<lambda>i. progress_rank (tb_provisional (dispatch_response tb resp) i))"
  using next_progress_rank
  by (auto simp: le_fun_def dispatch_response_def Let_def split: sum.splits option.splits)

interpretation disp: monotone_machine dispatch_response "\<lambda>tb i. progress_rank (tb_provisional tb i)"
  by unfold_locales (rule dispatch_rank)

section \<open>Properties\<close>

text \<open>C21. However client transactions are created, dropped and answered, the table watches the
  progress of exactly the INVITE transactions it holds, and the progress is what the
  responses delivered to each say: final after a response of 200 or more, provisional
  after one of 100 to 199, pending before. A CANCEL that waits for it is therefore
  sent only after a provisional and before a final response.\<close>

theorem table_progress_exact:
  "provisional_watch (run_steps table_step table_empty evs) i =
     (case tb_clients (run_steps table_step table_empty evs) i of
        Some q \<Rightarrow> if tx_method i = Invite then Some (progress_of q) else None
      | None \<Rightarrow> None)"
proof -
  have "table_inv (run_steps table_step table_empty evs)" by (rule tbl.run_inv) (rule table_inv_empty)
  then show ?thesis by (simp add: table_inv_def provisional_watch_def watch_of_def)
qed

text \<open>Responses never take the progress of an INVITE back.\<close>

theorem progress_monotone:
  "progress_rank (tb_provisional tb i) \<le> progress_rank (tb_provisional (run_steps dispatch_response tb resps) i)"
  using disp.run_mono [of tb resps] by (simp add: le_fun_def)

text \<open>A response is delivered to the transaction it names and to no other: the channel of
  that transaction grows by the response, every other entry stays as it was. The answer
  to a CANCEL, which shares the branch of its INVITE, does not reach the INVITE.\<close>

theorem dispatch_exact:
  assumes "id_from_response resp = Inr i" "tb_clients tb i = Some q"
  shows "tb_clients (dispatch_response tb resp) = (tb_clients tb)(i \<mapsto> q @ [resp])
    \<and> (tx_method j \<noteq> tx_method i \<longrightarrow> tb_provisional (dispatch_response tb resp) j = tb_provisional tb j)"
  using assms by (auto simp: dispatch_response_def Let_def split: option.splits)

definition ok_register_ex :: sip_response where
  "ok_register_ex = build_response_skeleton 0 register_ex 200 ''OK''"

lemma ok_register_id: "id_from_response ok_register_ex =
    Inr \<lparr>tx_branch = ''z9hG4bK1'', tx_sent_by = ''192.0.2.1:5060'', tx_method = Register\<rparr>"
proof -
  have h: "hdr_get (req_headers register_ex) ''via'' = Some via_ex" "hdr_get (req_headers register_ex) ''cseq'' = Some ''1 REGISTER''"
    by (simp_all add: register_ex_def hdr_get_def hdr_simps)
  show ?thesis
    by (simp add: ok_register_ex_def id_from_response_def skeleton_get h parse_via_ex register_ex_facts(2) method_from_str_def)
qed

theorem dispatch_exact_witness:
  "let i = \<lparr>tx_branch = ''z9hG4bK1'', tx_sent_by = ''192.0.2.1:5060'', tx_method = Register\<rparr>;
       tb = \<lparr>tb_clients = [i \<mapsto> []], tb_provisional = Map.empty\<rparr>
   in tb_clients (dispatch_response tb ok_register_ex) i = Some [ok_register_ex]"
  using dispatch_exact [OF ok_register_id, of "\<lparr>tb_clients = [\<lparr>tx_branch = ''z9hG4bK1'', tx_sent_by = ''192.0.2.1:5060'', tx_method = Register\<rparr> \<mapsto> []], tb_provisional = Map.empty\<rparr>" "[]"]
  by (simp add: Let_def)

text \<open>A received datagram never makes the layer answer a response, and it is answered at
  most once, with a 400 to its source; the answer carries the Call-ID and CSeq of the
  request and is sent only for an error in the Content-Length.\<close>

theorem malformed_answer_safe:
  assumes "recv_datagram rnd tb data remote = (tb', inbound, out)" "out \<noteq> []"
  shows "\<exists>e sk resp. parse_message_classified data = Inl e \<and> is_header_recoverable e
    \<and> extract_request_skeleton_for_400 data = Some sk \<and> tb' = tb \<and> inbound = None
    \<and> out = [(remote, response_to_bytes resp)] \<and> resp_status resp = 400
    \<and> hdr_get (resp_headers resp) ''call-id'' = hdr_get (sk_headers sk) ''call-id''
    \<and> hdr_get (resp_headers resp) ''cseq'' = hdr_get (sk_headers sk) ''cseq''
    \<and> (\<forall>e first ls. find_subslice data (crlf @ crlf) = Some e \<and> split_str crlf (from_utf8_lossy (take e data)) = first # ls
         \<longrightarrow> \<not> starts_with ''SIP/2.0 '' first)"
proof -
  have "\<exists>e. parse_message_classified data = Inl e \<and> is_header_recoverable e
      \<and> out = try_send_400_bad_request rnd data remote e \<and> tb' = tb \<and> inbound = None"
    using assms by (auto simp: recv_datagram_def split: sum.splits sip_message.splits if_splits)
  then obtain e where e: "parse_message_classified data = Inl e" "is_header_recoverable e"
    "out = try_send_400_bad_request rnd data remote e" "tb' = tb" "inbound = None" by blast
  then obtain sk where sk: "extract_request_skeleton_for_400 data = Some sk"
    "out = [(remote, response_to_bytes (bad_request_response rnd sk remote e))]"
    using assms(2) by (auto simp: try_send_400_bad_request_def split: option.splits)
  let ?r = "bad_request_response rnd sk remote e"
  have r: "resp_status ?r = 400" "hdr_get (resp_headers ?r) ''call-id'' = hdr_get (sk_headers sk) ''call-id''"
    "hdr_get (resp_headers ?r) ''cseq'' = hdr_get (sk_headers sk) ''cseq''"
    by (simp_all add: bad_request_response_def Let_def skeleton_get hdr_simps split: option.splits)
      (simp add: build_response_skeleton_def Let_def)
  have "\<forall>e first ls. find_subslice data (crlf @ crlf) = Some e \<and> split_str crlf (from_utf8_lossy (take e data)) = first # ls
      \<longrightarrow> \<not> starts_with ''SIP/2.0 '' first"
    using sk(1) by (auto elim!: extract_skeleton_ok simp: strip_prefix_None)
  with e sk r show ?thesis by blast
qed

theorem malformed_answer_safe_witness:
  "\<exists>resp. recv_datagram 0 table_empty truncated_datagram remote_ex = (table_empty, None, [(remote_ex, response_to_bytes resp)])
     \<and> resp_status resp = 400"
proof -
  obtain tb' inbound out where r: "recv_datagram 0 table_empty truncated_datagram remote_ex = (tb', inbound, out)"
    using prod_cases3 by blast
  have "\<not> list_all ascii_whitespace truncated_datagram"
    by (simp add: truncated_datagram_def ascii_whitespace_def octet_of_def)
  then have "out \<noteq> []"
    using r by (auto simp: recv_datagram_def parse_truncated try_send_400_bad_request_def extract_truncated)
  from malformed_answer_safe [OF r this] r show ?thesis by blast
qed

section \<open>An entry that is never removed\<close>

text \<open>
  A refused INVITE is left to the absorber, which is started only when the ACK can
  be built. A refusal without a To field is returned to the caller, but no task
  removes its entry from the table.
\<close>

lemma refused_without_to_leaks:
  assumes "tx_method i = Invite" "300 \<le> resp_status resp" "resp_status resp < 700"
    "hdr_get (resp_headers resp) ''to'' = None" "tb_clients tb i = Some q" "is_invite ct"
  shows "ct_acks (client_on_response ct now resp) = ct_acks ct
    \<and> ct_result (client_on_response ct now resp) = Some (Inr resp)
    \<and> tb_clients (finish_request tb i (Inr resp)) i = Some q"
proof -
  have "\<exists>e. build_non2xx_ack (ct_request ct) resp = Inl e"
    using assms(4) by (cases "build_non2xx_ack (ct_request ct) resp") (auto elim: build_non2xx_ack_ok)
  with assms show ?thesis by (auto simp: client_on_response_def finish_request_def Let_def)
qed

end
