(* ===== verification/Sip_Exchange.thy ===== *)
theory Sip_Exchange
  imports Transaction_Layer
begin

text \<open>
  What joins the message layer and the transaction layer: the messages the
  transaction code makes (response skeletons, rewritten Via fields) are well formed,
  so the parser at the other end reads back what was written.
\<close>

section \<open>Well-formed field values\<close>

definition wf_value :: "string \<Rightarrow> bool" where
  "wf_value v \<longleftrightarrow> trim v = v \<and> no_crlf v \<and> valid_utf8 v"

definition wf_name :: "string \<Rightarrow> bool" where
  "wf_name n \<longleftrightarrow> CHR '':'' \<notin> set (normalize_header_name n) \<and> no_crlf (normalize_header_name n)
     \<and> valid_utf8 (normalize_header_name n)"

lemma wf_header_parts: "wf_header (normalize_header_name n, v) \<longleftrightarrow> wf_name n \<and> wf_value v"
  by (auto simp: wf_header_def wf_name_def wf_value_def)

lemma wf_header_value: "wf_header h \<Longrightarrow> wf_value (snd h)"
  by (simp add: wf_header_def wf_value_def)

lemma wf_set_first: "list_all wf_header hs \<Longrightarrow> wf_header (n, v) \<Longrightarrow> list_all wf_header (set_first n v hs)"
  by (induction n v hs rule: set_first.induct) auto

lemma wf_hdr_set: "list_all wf_header hs \<Longrightarrow> wf_name n \<Longrightarrow> wf_value v \<Longrightarrow> list_all wf_header (hdr_set n v hs)"
  by (simp add: hdr_set_def wf_set_first wf_header_parts)

lemma wf_hdr_add: "list_all wf_header hs \<Longrightarrow> wf_name n \<Longrightarrow> wf_value v \<Longrightarrow> list_all wf_header (hdr_add n v hs)"
  by (simp add: hdr_add_def wf_header_parts)

lemma wf_hdr_get_all: "list_all wf_header hs \<Longrightarrow> v \<in> set (hdr_get_all hs n) \<Longrightarrow> wf_value v"
  by (auto simp: hdr_get_all_def list_all_iff dest!: wf_header_value)

lemma wf_hdr_get:
  assumes "list_all wf_header hs" "hdr_get hs n = Some v"
  shows "wf_value v"
proof (rule wf_hdr_get_all [OF assms(1)])
  show "v \<in> set (hdr_get_all hs n)" using assms(2) by (auto simp: hdr.get_hd split: if_splits list.splits)
qed

lemma wf_copy_header:
  "list_all wf_header rq \<Longrightarrow> list_all wf_header hs \<Longrightarrow> wf_name n \<Longrightarrow> list_all wf_header (copy_header key n rq hs)"
  by (auto simp: copy_header_def wf_hdr_set wf_hdr_get split: option.splits)

lemma wf_fold_add:
  "\<forall>v \<in> set vs. wf_value v \<Longrightarrow> wf_name n \<Longrightarrow> list_all wf_header hs \<Longrightarrow> list_all wf_header (fold (hdr_add n) vs hs)"
  by (induction vs arbitrary: hs) (simp_all add: wf_hdr_add)

lemma wf_names:
  "wf_name ''Via''" "wf_name ''From''" "wf_name ''To''" "wf_name ''Call-ID''" "wf_name ''CSeq''"
  "wf_name ''Record-Route''" "wf_name ''Timestamp''"
  by (simp_all add: wf_name_def hdr_simps no_CR_no_crlf valid_utf8_all_ascii octet_of_def)

section \<open>Values joined with a semicolon\<close>

lemma semi_no_ws: "\<not> ws1 (octet_of CHR '';'')" "\<not> ws2 a (octet_of CHR '';'')" "\<not> ws2 (octet_of CHR '';'') a"
  "\<not> ws3 (octet_of CHR '';'') a b" "\<not> ws3 a (octet_of CHR '';'') b" "\<not> ws3 a b (octet_of CHR '';'')"
  by (simp_all add: ws1_def ws2_def ws3_def octet_of_def)

lemma ws_at_semi: "ws_at s = 0 \<Longrightarrow> ws_at (s @ CHR '';'' # t) = 0"
  by (cases s rule: remdups_adj.cases; cases "tl (tl s)"; cases t)
    (simp_all add: ws_at_def semi_no_ws split: if_splits list.splits)

lemma ws_end_semi:
  assumes "ws_end t = 0"
  shows "ws_end (s @ CHR '';'' # t) = 0"
proof -
  obtain u where u: "t = rev u" by (metis rev_rev_ident)
  show ?thesis using assms unfolding u
    by (cases u rule: remdups_adj.cases; cases "tl (tl u)"; cases "rev s")
      (simp_all add: ws_end_def semi_no_ws split: if_splits list.splits)
qed

lemma trim_iff: "trim s = s \<longleftrightarrow> ws_at s = 0 \<and> ws_end s = 0"
  by (metis trim_def trim_end_id trim_start_id ws_at_trim ws_end_trim)

lemma wf_value_semi: "wf_value s \<Longrightarrow> wf_value t \<Longrightarrow> wf_value (s @ CHR '';'' # t)"
  by (auto simp: wf_value_def trim_iff ws_at_semi ws_end_semi valid_utf8_split_ascii octet_of_def no_crlf_Cons intro!: no_crlf_join)

lemma wf_value_params: "wf_value s \<Longrightarrow> list_all wf_value ps \<Longrightarrow> wf_value (s @ concat (map (\<lambda>p. CHR '';'' # p) ps))"
proof (induction ps arbitrary: s)
  case (Cons p ps)
  from Cons.prems have "wf_value (s @ CHR '';'' # p)" by (simp add: wf_value_semi)
  from Cons.IH [OF this] Cons.prems show ?case by simp
qed simp

lemma wf_value_split:
  assumes "no_crlf s" "valid_utf8 s" "p \<in> set (split_char CHR '';'' s)"
  shows "wf_value (trim p)"
  using assms
proof (induction "split_char CHR '';'' s" arbitrary: s)
  case (Cons q qs)
  show ?case
  proof (cases "split_once CHR '';'' s")
    case None
    with Cons.prems show ?thesis
      by (simp add: split_once_None split_char_none wf_value_def no_crlf_trim valid_utf8_trim)
  next
    case (Some ab)
    then obtain a b where s: "s = a @ CHR '';'' # b" "CHR '';'' \<notin> set a" by (cases ab) (auto simp: split_once_Some)
    then have b: "no_crlf a" "no_crlf b" "valid_utf8 a" "valid_utf8 b"
      using Cons.prems no_crlf_split [of a "CHR '';''" b] by (simp_all add: valid_utf8_split_ascii octet_of_def)
    have "split_char CHR '';'' s = a # split_char CHR '';'' b" using s by (simp add: split_char_append)
    with Cons.hyps b Cons.prems(3) show ?thesis
      by (auto simp: wf_value_def no_crlf_trim valid_utf8_trim)
  qed
qed simp

lemma wf_graphic: "list_all graphic s \<Longrightarrow> wf_value s"
  by (auto simp: wf_value_def trim_graphic list_all_iff graphic_def octet_of_def intro!: no_CR_no_crlf valid_utf8_all_ascii)

lemma wf_new_params: "wf_value (''received='' @ ip_display ip)" "wf_value (''rport='' @ dec n)"
  using ip_graphic(1) [of ip] ip_graphic(2) [of n] by (auto intro!: wf_graphic simp: graphic_def octet_of_def)

lemma wf_via_params: "list_all wf_value ps \<Longrightarrow> list_all wf_value (via_params need has remote ps)"
proof -
  assume a: "list_all wf_value ps"
  let ?v = "''received='' @ ip_display (sa_ip remote)" and ?w = "''rport='' @ dec (sa_port remote)"
  have "set (via_params need has remote ps) \<subseteq> insert ?w (insert ?v (set ps))"
    using put_param_set(1) [of "''received''" ?v ps] put_param_set(2) [of "''rport''" ?w ps]
      put_param_set(2) [of "''rport''" ?w "put_param ''received'' ?v ps"]
    unfolding via_params_def Let_def by (auto split: if_splits)
  with a wf_new_params(1) [of "sa_ip remote"] wf_new_params(2) [of "sa_port remote"] show ?thesis
    unfolding list_all_iff by blast
qed

lemma wf_rewritten_via: "wf_value via \<Longrightarrow> wf_value (apply_rport_to_via_for_response via remote)"
proof (cases "apply_rport_to_via_for_response via remote = via")
  case False
  assume a: "wf_value via"
  let ?parts = "split_char CHR '';'' via"
  from a False obtain need has where o: "apply_rport_to_via_for_response via remote =
      trim (hd ?parts) @ concat (map (\<lambda>p. CHR '';'' # p) (via_params need has remote (map trim (tl ?parts))))"
    unfolding apply_rport_to_via_for_response_def via_params_def wf_value_def Let_def by (metis (lifting))
  have w: "wf_value (trim p)" if "p \<in> set ?parts" for p
    using a that wf_value_split [of via p] unfolding wf_value_def by blast
  have "wf_value (trim (hd ?parts))" by (rule w) simp
  moreover have "list_all wf_value (map trim (tl ?parts))"
    using w by (auto simp: list_all_iff list.set_sel(2))
  ultimately show ?thesis unfolding o by (intro wf_value_params wf_via_params)
qed simp

section \<open>Responses are well formed\<close>

lemma wf_tagged: "wf_value to_v \<Longrightarrow> wf_value (to_v @ '';tag='' @ new_uas_to_tag r)"
proof -
  assume "wf_value to_v"
  moreover have "list_all graphic (''tag='' @ new_uas_to_tag r)"
    using hex_fixed_graphic [of 8 "unat r"] by (auto simp: new_uas_to_tag_def graphic_def octet_of_def list_all_iff)
  ultimately show ?thesis using wf_value_semi [OF _ wf_graphic] by simp
qed

lemma wf_skeleton:
  assumes "list_all wf_header (req_headers req)"
  shows "list_all wf_header (resp_headers (build_response_skeleton rnd req status reason))"
  using assms wf_hdr_get [OF assms] wf_hdr_get_all [OF assms]
  by (auto simp: build_response_skeleton_def Let_def wf_copy_header wf_names wf_hdr_set wf_tagged [simplified] wf_fold_add split: option.splits)

text \<open>Writing a message and reading it back changes only the Content-Length field.\<close>

lemma relay_get: "m \<noteq> ''content-length'' \<Longrightarrow> normalize_header_name m = m \<Longrightarrow> hdr_get (relay_headers hs b) m = hdr_get hs m"
proof -
  assume a: "m \<noteq> ''content-length''" "normalize_header_name m = m"
  have "hdr_get_all (relay_headers hs b) m = hdr_get_all hs m"
    using a by (auto simp: hdr_get_all_def relay_headers_def intro!: arg_cong [of _ _ "map snd"] filter_cong)
  then show ?thesis by (simp add: hdr.get_hd)
qed

lemma recv_written_request:
  "wf_request req \<Longrightarrow> recv_datagram rnd tb (request_to_bytes req) remote =
     (tb, Some (req\<lparr>req_headers := relay_headers (req_headers req) (req_body req)\<rparr>, remote), [])"
  using parse_message_to_bytes [of "Request req"] by (simp add: recv_datagram_def)

lemma recv_written_response:
  "wf_response resp \<Longrightarrow> recv_datagram rnd tb (response_to_bytes resp) remote =
     (dispatch_response tb (resp\<lparr>resp_headers := relay_headers (resp_headers resp) (resp_body resp)\<rparr>), None, [])"
  using parse_message_to_bytes [of "Response resp"] by (simp add: recv_datagram_def)

section \<open>One exchange\<close>

text \<open>The server side of one exchange: the datagram is received, a server transaction is made
  for the request and it answers with a skeleton. The result is the datagrams sent.\<close>

definition answer_datagram ::
  "32 word \<Rightarrow> tx_table \<Rightarrow> string \<Rightarrow> socket_addr \<Rightarrow> nat \<Rightarrow> string \<Rightarrow> nat \<Rightarrow> datagram list" where
  "answer_datagram rnd tb data remote status reason now =
     (case recv_datagram rnd tb data remote of
        (_, Some (req, from_addr), _) \<Rightarrow>
          (case server_new req from_addr of
             Inr st \<Rightarrow> fst (respond st (build_response_skeleton rnd req status reason) now)
           | Inl _ \<Rightarrow> [])
      | _ \<Rightarrow> [])"

definition answer_response :: "32 word \<Rightarrow> sip_request \<Rightarrow> string \<Rightarrow> socket_addr \<Rightarrow> nat \<Rightarrow> string \<Rightarrow> sip_response" where
  "answer_response rnd req via remote status reason =
     (let sk = build_response_skeleton rnd req status reason
      in sk\<lparr>resp_headers := hdr_set ''Via'' (apply_rport_to_via_for_response via remote) (resp_headers sk)\<rparr>)"

lemma answer_status [simp]:
  "resp_status (answer_response rnd req via remote status reason) = status"
  "resp_reason (answer_response rnd req via remote status reason) = reason"
  "resp_body (answer_response rnd req via remote status reason) = []"
  by (simp_all add: answer_response_def build_response_skeleton_def Let_def)

lemma answer_get:
  "hdr_get (resp_headers (answer_response rnd req via remote status reason)) ''via'' =
     Some (apply_rport_to_via_for_response via remote)"
  "hdr_get (resp_headers (answer_response rnd req via remote status reason)) ''cseq'' = hdr_get (req_headers req) ''cseq''"
  by (simp_all add: answer_response_def Let_def hdr_simps skeleton_get)

lemma wf_answer:
  assumes "list_all wf_header (req_headers req)" "hdr_get (req_headers req) ''via'' = Some via"
    and "status < 2 ^ 16" "no_crlf reason" "valid_utf8 reason"
  shows "wf_response (answer_response rnd req via remote status reason)"
proof -
  have "list_all wf_header (resp_headers (answer_response rnd req via remote status reason))"
    using wf_skeleton [OF assms(1)] wf_rewritten_via [OF wf_hdr_get [OF assms(1,2)]]
    by (simp add: answer_response_def Let_def wf_hdr_set wf_names)
  with assms(3,4,5) show ?thesis by (simp add: wf_response_def)
qed

lemma answer_written:
  assumes "wf_request req" "id_from_request req = Inr i" "hdr_get (req_headers req) ''via'' = Some via"
  shows "answer_datagram rnd tb (request_to_bytes req) remote status reason now =
    [(remote, response_to_bytes (answer_response rnd
       (req\<lparr>req_headers := relay_headers (req_headers req) (req_body req)\<rparr>) via remote status reason))]"
proof -
  from assms(2,3) have "parse_via via = Inr (tx_branch i, tx_sent_by i)" by (auto simp: id_from_request_ok)
  with assms(3) show ?thesis
    by (simp add: answer_datagram_def recv_written_request [OF assms(1)] server_new_def id_from_request_def
        relay_get hdr_simps answer_response_def respond_def Let_def response_destination_for_def)
qed

end
