(* ===== verification/Rate_Limiter.thy ===== *)
theory Rate_Limiter
  imports Rust_Str
begin

text \<open>
  The limiter of outgoing INVITEs (\<^verbatim>\<open>call/rate_limiter.rs\<close>): per address of record a
  minimal interval between calls, a growing wait after server failures, and the
  Retry-After of the network. Instants and durations are nanoseconds; the instant of a
  call is an argument, as in the \<^verbatim>\<open>_at\<close> versions of the operations.
\<close>

section \<open>State\<close>

definition SEC :: nat where "SEC = 10 ^ 9"

datatype rate_limit_decision =
    Allow (previous_interval: "nat option")
  | Deny (retry_after: nat)

record aor_state =
  as_last_allowed_at :: nat
  as_failure_streak :: nat
  as_retry_after_until :: "nat option"

record rate_limiter_config =
  rc_min_interval :: nat
  rc_failure_backoff_steps :: "nat list"

record rate_limiter =
  rl_state :: "string \<rightharpoonup> aor_state"
  rl_config :: rate_limiter_config

definition default_config :: rate_limiter_config where
  "default_config = \<lparr>rc_min_interval = 3 * SEC, rc_failure_backoff_steps = [5 * SEC, 10 * SEC, 30 * SEC]\<rparr>"

definition with_config :: "rate_limiter_config \<Rightarrow> rate_limiter" where
  "with_config cfg = \<lparr>rl_state = Map.empty, rl_config = cfg\<rparr>"

definition limiter_new :: rate_limiter where
  "limiter_new = with_config default_config"

section \<open>Operations\<close>

definition round_up_secs :: "nat \<Rightarrow> nat" where
  "round_up_secs d =
     (let secs = d div SEC;
          secs = (if d mod SEC > 0 then secs + 1 else secs);
          secs = (if secs = 0 then 1 else secs)
      in secs * SEC)"

text \<open>The wait that the configuration asks for after a streak of failures.\<close>

definition interval_wait :: "rate_limiter_config \<Rightarrow> nat \<Rightarrow> nat" where
  "interval_wait cfg streak =
     (let wait = rc_min_interval cfg; steps = rc_failure_backoff_steps cfg
      in if streak > 0 then
           (let idx = min (streak - 1) (length steps - 1)
            in if idx < length steps \<and> steps ! idx > wait then steps ! idx else wait)
         else wait)"

definition allow_at :: "rate_limiter_config \<Rightarrow> aor_state \<Rightarrow> nat" where
  "allow_at cfg s =
     (let interval_until = as_last_allowed_at s + interval_wait cfg (as_failure_streak s)
      in case as_retry_after_until s of
           Some ra \<Rightarrow> if ra > interval_until then ra else interval_until
         | None \<Rightarrow> interval_until)"

definition check_and_record_at :: "rate_limiter \<Rightarrow> string \<Rightarrow> nat \<Rightarrow> rate_limit_decision \<times> rate_limiter" where
  "check_and_record_at rl aor now =
     (case rl_state rl aor of
        None \<Rightarrow>
          (Allow None,
           rl\<lparr>rl_state := (rl_state rl)(aor \<mapsto>
             \<lparr>as_last_allowed_at = now, as_failure_streak = 0, as_retry_after_until = None\<rparr>)\<rparr>)
      | Some s \<Rightarrow>
          if now < allow_at (rl_config rl) s then
            (Deny (round_up_secs (allow_at (rl_config rl) s - now)), rl)
          else
            (Allow (Some (now - as_last_allowed_at s)),
             rl\<lparr>rl_state := (rl_state rl)(aor \<mapsto>
               \<lparr>as_last_allowed_at = now, as_failure_streak = as_failure_streak s,
                as_retry_after_until =
                  (case as_retry_after_until s of Some ra \<Rightarrow> if ra > now then Some ra else None | None \<Rightarrow> None)\<rparr>)\<rparr>))"

definition record_failure_at :: "rate_limiter \<Rightarrow> string \<Rightarrow> nat \<Rightarrow> nat option \<Rightarrow> nat \<Rightarrow> rate_limiter" where
  "record_failure_at rl aor status retry_after_secs now =
     (let entry = (case rl_state rl aor of
                     Some s \<Rightarrow> s
                   | None \<Rightarrow> \<lparr>as_last_allowed_at = now, as_failure_streak = 0, as_retry_after_until = None\<rparr>);
          e1 = (if 500 \<le> status \<and> status < 600
                then entry\<lparr>as_failure_streak := min (as_failure_streak entry + 1) (2 ^ 32 - 1)\<rparr> else entry);
          e2 = (if 500 \<le> status \<and> status < 600 then
                  (case retry_after_secs of
                     Some secs \<Rightarrow>
                       (let until = now + secs * SEC
                        in e1\<lparr>as_retry_after_until :=
                             Some (case as_retry_after_until e1 of
                                     Some prev \<Rightarrow> if prev > until then prev else until
                                   | None \<Rightarrow> until)\<rparr>)
                   | None \<Rightarrow> e1)
                else e1)
      in rl\<lparr>rl_state := (rl_state rl)(aor \<mapsto> e2)\<rparr>)"

definition record_success :: "rate_limiter \<Rightarrow> string \<Rightarrow> rate_limiter" where
  "record_success rl aor =
     (case rl_state rl aor of
        Some s \<Rightarrow> rl\<lparr>rl_state := (rl_state rl)(aor \<mapsto> s\<lparr>as_failure_streak := 0, as_retry_after_until := None\<rparr>)\<rparr>
      | None \<Rightarrow> rl)"

definition parse_retry_after :: "string \<Rightarrow> nat option" where
  "parse_retry_after v =
     (let digits = takeWhile is_digit (trim_start v)
      in if digits = [] then None else parse_uint 32 digits)"

section \<open>The limiter over time\<close>

text \<open>The uses of the limiter, with the log of the calls it allowed.\<close>

datatype limiter_event =
    Check string nat
  | Failure string nat "nat option" nat
  | Success string

type_synonym allow_log = "(string \<times> nat) list"

fun limiter_step :: "rate_limiter \<times> allow_log \<Rightarrow> limiter_event \<Rightarrow> rate_limiter \<times> allow_log" where
  "limiter_step (rl, lg) (Check aor now) =
     (case check_and_record_at rl aor now of
        (Allow _, rl') \<Rightarrow> (rl', lg @ [(aor, now)])
      | (Deny _, rl') \<Rightarrow> (rl', lg))"
| "limiter_step (rl, lg) (Failure aor status secs now) = (record_failure_at rl aor status secs now, lg)"
| "limiter_step (rl, lg) (Success aor) = (record_success rl aor, lg)"

definition allows :: "string \<Rightarrow> allow_log \<Rightarrow> nat list" where
  "allows aor lg = map snd (filter (\<lambda>p. fst p = aor) lg)"

lemma allows_simps [simp]:
  "allows aor [] = []" "allows aor (lg @ [(a, t)]) = (if a = aor then allows aor lg @ [t] else allows aor lg)"
  by (simp_all add: allows_def)

lemma interval_wait_min: "rc_min_interval cfg \<le> interval_wait cfg k"
  by (simp add: interval_wait_def Let_def)

lemma allow_at_ge: "as_last_allowed_at s + rc_min_interval cfg \<le> allow_at cfg s"
  using interval_wait_min [of cfg "as_failure_streak s"]
  by (auto simp: allow_at_def Let_def split: option.splits)

lemma check_config [simp]: "rl_config (snd (check_and_record_at rl aor now)) = rl_config rl"
  by (simp add: check_and_record_at_def split: option.splits)

lemma check_Allow:
  assumes "check_and_record_at rl aor now = (Allow p, rl')"
  shows "(\<forall>s. rl_state rl aor = Some s \<longrightarrow> allow_at (rl_config rl) s \<le> now)
    \<and> (\<exists>s. rl_state rl' aor = Some s \<and> as_last_allowed_at s = now)
    \<and> (\<forall>b. b \<noteq> aor \<longrightarrow> rl_state rl' b = rl_state rl b) \<and> rl_config rl' = rl_config rl"
  using assms by (auto simp: check_and_record_at_def split: option.splits if_splits)

lemma check_Deny:
  "check_and_record_at rl aor now = (Deny r, rl') \<longleftrightarrow>
     rl' = rl \<and> (\<exists>s. rl_state rl aor = Some s \<and> now < allow_at (rl_config rl) s
       \<and> r = round_up_secs (allow_at (rl_config rl) s - now))"
  by (auto simp: check_and_record_at_def split: option.splits if_splits)

text \<open>The invariant of every session: what was allowed is spaced and remembered.\<close>

definition limiter_inv :: "rate_limiter_config \<Rightarrow> rate_limiter \<times> allow_log \<Rightarrow> bool" where
  "limiter_inv cfg s \<longleftrightarrow>
     (case s of (rl, lg) \<Rightarrow> rl_config rl = cfg
       \<and> (\<forall>aor. sorted_wrt (\<lambda>a b. a + rc_min_interval cfg \<le> b) (allows aor lg)
            \<and> (\<forall>t \<in> set (allows aor lg). \<exists>s. rl_state rl aor = Some s \<and> t \<le> as_last_allowed_at s)))"

lemma record_failure_frame:
  "rl_config (record_failure_at rl aor status secs now) = rl_config rl"
  "rl_state rl b = Some s \<Longrightarrow> \<exists>s'. rl_state (record_failure_at rl aor status secs now) b = Some s'
     \<and> as_last_allowed_at s' = as_last_allowed_at s"
  by (auto simp: record_failure_at_def Let_def split: option.splits)

lemma record_success_frame:
  "rl_config (record_success rl aor) = rl_config rl"
  "rl_state rl b = Some s \<Longrightarrow> \<exists>s'. rl_state (record_success rl aor) b = Some s'
     \<and> as_last_allowed_at s' = as_last_allowed_at s"
  by (auto simp: record_success_def split: option.splits)

lemma limiter_inv_allow:
  assumes i: "limiter_inv cfg (rl, lg)" and c: "check_and_record_at rl aor now = (Allow p, rl')"
  shows "limiter_inv cfg (rl', lg @ [(aor, now)])"
proof -
  note f = check_Allow [OF c]
  have old: "t + rc_min_interval cfg \<le> now" if "t \<in> set (allows aor lg)" for t
  proof -
    from i that obtain s where s: "rl_state rl aor = Some s" "t \<le> as_last_allowed_at s" "rl_config rl = cfg"
      by (fastforce simp: limiter_inv_def)
    then show ?thesis using f allow_at_ge [of s cfg] by fastforce
  qed
  then have "\<exists>s. rl_state rl' b = Some s \<and> t \<le> as_last_allowed_at s" if "t \<in> set (allows b (lg @ [(aor, now)]))" for b t
    using that f i by (cases "b = aor") (fastforce simp: limiter_inv_def)+
  moreover have "sorted_wrt (\<lambda>a b. a + rc_min_interval cfg \<le> b) (allows b (lg @ [(aor, now)]))" for b
    using i old by (auto simp: limiter_inv_def sorted_wrt_append)
  ultimately show ?thesis using f i by (simp add: limiter_inv_def)
qed

lemma limiter_inv_step:
  assumes i: "limiter_inv cfg s"
  shows "limiter_inv cfg (limiter_step s e)"
proof (cases s)
  case (Pair rl lg)
  show ?thesis
  proof (cases e)
    case (Check aor now)
    obtain d rl' where c: "check_and_record_at rl aor now = (d, rl')" by fastforce
    show ?thesis
    proof (cases d)
      case (Allow p)
      then show ?thesis using limiter_inv_allow i c Pair Check by simp
    next
      case (Deny r)
      with c have "rl' = rl" by (simp add: check_Deny)
      with c Deny show ?thesis using i Pair Check by simp
    qed
  next
    case (Failure aor status secs now)
    then show ?thesis using i Pair record_failure_frame [of rl] by (fastforce simp: limiter_inv_def)
  next
    case (Success aor)
    then show ?thesis using i Pair record_success_frame [of rl] by (fastforce simp: limiter_inv_def)
  qed
qed

interpretation rlm: inv_machine limiter_step "limiter_inv cfg" for cfg
  by unfold_locales (rule limiter_inv_step)

section \<open>Retry-After\<close>

definition barred_until :: "string \<Rightarrow> nat \<Rightarrow> rate_limiter \<Rightarrow> bool" where
  "barred_until aor t rl \<longleftrightarrow>
     (\<exists>s ra. rl_state rl aor = Some s \<and> as_retry_after_until s = Some ra \<and> t \<le> ra)"

fun keeps_bar :: "string \<Rightarrow> nat \<Rightarrow> limiter_event \<Rightarrow> bool" where
  "keeps_bar aor t (Check b now) = (b = aor \<longrightarrow> now < t)"
| "keeps_bar aor t (Failure b status secs now) = True"
| "keeps_bar aor t (Success b) = (b \<noteq> aor)"

lemma barred_denies:
  assumes "barred_until aor t rl" "now < t"
  shows "\<exists>r. check_and_record_at rl aor now = (Deny r, rl)"
  using assms by (fastforce simp: barred_until_def check_Deny allow_at_def Let_def)

lemma barred_failure: "barred_until aor t rl \<Longrightarrow> barred_until aor t (record_failure_at rl b status secs now)"
  by (fastforce simp: barred_until_def record_failure_at_def Let_def split: option.splits)

lemma barred_step:
  assumes "barred_until aor t rl" "keeps_bar aor t e" "limiter_step (rl, lg) e = (rl', lg')"
  shows "barred_until aor t rl' \<and> allows aor lg' = allows aor lg"
proof (cases e)
  case (Check b now)
  show ?thesis
  proof (cases "b = aor")
    case True
    then show ?thesis using Check assms barred_denies [OF assms(1), of now] by auto
  next
    case False
    obtain d rl2 where c: "check_and_record_at rl b now = (d, rl2)" by fastforce
    then have "rl_state rl2 aor = rl_state rl aor"
      using False by (cases d) (auto dest: check_Allow simp: check_Deny)
    then show ?thesis using False Check c assms by (cases d) (auto simp: barred_until_def)
  qed
next
  case (Failure b status secs now)
  then show ?thesis using assms barred_failure by auto
next
  case (Success b)
  then show ?thesis using assms by (auto simp: barred_until_def record_success_def split: option.splits)
qed

lemma barred_run:
  assumes "barred_until aor t rl" "list_all (keeps_bar aor t) es" "run_steps limiter_step (rl, lg) es = (rl', lg')"
  shows "allows aor lg' = allows aor lg"
  using assms
proof (induction es arbitrary: rl lg)
  case (Cons e es)
  obtain rl1 lg1 where s: "limiter_step (rl, lg) e = (rl1, lg1)" by fastforce
  with Cons.prems barred_step [of aor t rl e lg] have "barred_until aor t rl1" "allows aor lg1 = allows aor lg" by auto
  with Cons.IH [of rl1 lg1] Cons.prems s show ?case by simp
qed simp

section \<open>Rounding and reading of seconds\<close>

lemma round_up_bounds: "d \<le> round_up_secs d" "0 < d \<Longrightarrow> round_up_secs d < d + SEC" "\<exists>k \<ge> 1. round_up_secs d = k * SEC"
proof -
  define q r where "q = d div SEC" and "r = d mod SEC"
  have m: "d = q * SEC + r" "r < SEC" by (simp_all add: SEC_def q_def r_def)
  have e: "round_up_secs d = (if r > 0 then q * SEC + SEC else if q = 0 then SEC else q * SEC)"
    by (simp add: round_up_secs_def Let_def q_def r_def)
  show "d \<le> round_up_secs d" "0 < d \<Longrightarrow> round_up_secs d < d + SEC"
    using m unfolding e by auto
  have "round_up_secs d = max 1 (if r > 0 then q + 1 else q) * SEC" unfolding e by auto
  then show "\<exists>k \<ge> 1. round_up_secs d = k * SEC" by (metis max.cobounded1)
qed

lemma takeWhile_digits: "list_all is_digit ds \<Longrightarrow> \<not> (\<exists>c r. rest = c # r \<and> is_digit c) \<Longrightarrow> takeWhile is_digit (ds @ rest) = ds"
  by (induction ds) (cases rest, auto)

section \<open>Properties\<close>

text \<open>However the limiter is used, two calls it allows for the same address are at least the
  minimal interval apart: no sequence of checks, failures and successes, in whatever
  order the instants come, makes it let two calls through more closely.\<close>

theorem rate_limit_spacing:
  "sorted_wrt (\<lambda>a b. a + rc_min_interval cfg \<le> b)
     (allows aor (snd (run_steps limiter_step (with_config cfg, []) evs)))"
proof -
  have "limiter_inv cfg (with_config cfg, [])" by (simp add: limiter_inv_def with_config_def)
  from rlm.run_inv [OF this, of evs] show ?thesis by (auto simp: limiter_inv_def split: prod.splits)
qed

text \<open>A Retry-After of the network is obeyed: after a 5xx failure with a Retry-After, no call
  to that address is allowed before its end, whatever else happens, unless a call
  succeeds meanwhile.\<close>

theorem rate_limit_retry_after:
  assumes "500 \<le> status" "status < 600"
    and "list_all (keeps_bar aor (t + secs * SEC)) evs"
    and "run_steps limiter_step (record_failure_at rl aor status (Some secs) t, lg) evs = (rl', lg')"
  shows "allows aor lg' = allows aor lg"
proof (rule barred_run [OF _ assms(3,4)])
  show "barred_until aor (t + secs * SEC) (record_failure_at rl aor status (Some secs) t)"
    using assms(1,2) by (auto simp: barred_until_def record_failure_at_def Let_def split: option.splits)
qed

theorem rate_limit_retry_after_witness:
  "allows ''a'' (snd (run_steps limiter_step (record_failure_at limiter_new ''a'' 503 (Some 20) 0, [])
     [Check ''a'' (19 * SEC), Failure ''a'' 500 None (19 * SEC), Check ''b'' (30 * SEC), Check ''a'' (20 * SEC - 1)])) = []"
proof -
  let ?evs = "[Check ''a'' (19 * SEC), Failure ''a'' 500 None (19 * SEC), Check ''b'' (30 * SEC), Check ''a'' (20 * SEC - 1)]"
  let ?rl = "record_failure_at limiter_new ''a'' 503 (Some 20) 0"
  obtain rl' lg' where r: "run_steps limiter_step (?rl, []) ?evs = (rl', lg')" by fastforce
  have "list_all (keeps_bar ''a'' (0 + 20 * SEC)) ?evs" by (simp add: SEC_def)
  from rate_limit_retry_after [OF _ _ this r] show ?thesis unfolding r by simp
qed

text \<open>The wait a refused caller is told is right: it is a whole number of seconds, at least one,
  the refusal changes nothing, a caller who waits that long is allowed, and one who comes
  a second earlier is still refused.\<close>

theorem rate_limit_deny_exact:
  assumes "check_and_record_at rl aor now = (Deny r, rl')"
  shows "rl' = rl \<and> (\<exists>k \<ge> 1. r = k * SEC)
    \<and> (\<exists>p. fst (check_and_record_at rl aor (now + r)) = Allow p)
    \<and> (\<forall>t \<le> now + r - SEC. \<exists>r'. fst (check_and_record_at rl aor t) = Deny r')"
proof -
  from assms obtain s where s: "rl' = rl" "rl_state rl aor = Some s" "now < allow_at (rl_config rl) s"
    "r = round_up_secs (allow_at (rl_config rl) s - now)" by (auto simp: check_Deny)
  let ?d = "allow_at (rl_config rl) s - now"
  have b: "?d \<le> r" "r < ?d + SEC" "\<exists>k \<ge> 1. r = k * SEC"
    unfolding s(4) using s(3) round_up_bounds(2) [of ?d] by (simp_all only: round_up_bounds zero_less_diff)
  then have "allow_at (rl_config rl) s \<le> now + r" "now + r - SEC < allow_at (rl_config rl) s" using s(3) by auto
  with s b(3) show ?thesis by (auto simp: check_and_record_at_def)
qed

theorem rate_limit_deny_exact_witness:
  "let rl = snd (check_and_record_at limiter_new ''a'' 0)
   in \<exists>r. check_and_record_at rl ''a'' 1 = (Deny r, rl) \<and> (\<exists>p. fst (check_and_record_at rl ''a'' (1 + r)) = Allow p)"
proof -
  let ?rl = "snd (check_and_record_at limiter_new ''a'' 0)"
  obtain r where "check_and_record_at ?rl ''a'' 1 = (Deny r, ?rl)"
    by (simp add: check_and_record_at_def limiter_new_def with_config_def default_config_def allow_at_def
        interval_wait_def SEC_def)
  with rate_limit_deny_exact [OF this] show ?thesis by (auto simp: Let_def)
qed

definition default_backoff :: "nat \<Rightarrow> nat" where
  "default_backoff n = (if n = 0 then 3 else if n = 1 then 5 else if n = 2 then 10 else 30) * SEC"

lemma interval_wait_default: "interval_wait default_config n = default_backoff n"
  by (auto simp: interval_wait_def default_config_def default_backoff_def SEC_def Let_def min_def nth_Cons' split: if_splits)

text \<open>With the default configuration the wait after a call grows with the failures that follow
  it: three seconds without one, then five, ten and thirty, until a call succeeds.\<close>

theorem rate_limit_backoff:
  assumes "n < 2 ^ 32" "list_all (\<lambda>c. 500 \<le> c \<and> c < 600) codes" "length codes = n"
  shows "let rl = foldl (\<lambda>rl c. record_failure_at rl aor c None t) (snd (check_and_record_at limiter_new aor t0)) codes
     in (\<exists>p. fst (check_and_record_at rl aor now) = Allow p) \<longleftrightarrow> t0 + default_backoff n \<le> now"
proof -
  let ?rl = "\<lambda>cs. foldl (\<lambda>rl c. record_failure_at rl aor c None t) (snd (check_and_record_at limiter_new aor t0)) cs"
  have "rl_config (?rl codes) = default_config
    \<and> rl_state (?rl codes) aor = Some \<lparr>as_last_allowed_at = t0, as_failure_streak = n, as_retry_after_until = None\<rparr>"
    using assms
  proof (induction codes arbitrary: n rule: rev_induct)
    case Nil
    then show ?case by (simp add: check_and_record_at_def limiter_new_def with_config_def)
  next
    case (snoc c cs)
    then have "rl_config (?rl cs) = default_config
      \<and> rl_state (?rl cs) aor = Some \<lparr>as_last_allowed_at = t0, as_failure_streak = n - 1, as_retry_after_until = None\<rparr>"
      by simp
    with snoc.prems show ?case by (auto simp: record_failure_at_def Let_def)
  qed
  then show ?thesis
    by (auto simp: check_and_record_at_def allow_at_def interval_wait_default Let_def)
qed

theorem rate_limit_backoff_witness:
  "let rl = foldl (\<lambda>rl c. record_failure_at rl ''a'' c None 1) (snd (check_and_record_at limiter_new ''a'' 0)) [500, 503]
   in \<not> (\<exists>p. fst (check_and_record_at rl ''a'' (9 * SEC)) = Allow p)"
  using rate_limit_backoff [of 2 "[500, 503]" "''a''" 1 0 "9 * SEC"] by (simp add: default_backoff_def SEC_def)

text \<open>The seconds of a Retry-After field are read back from what was written, with any comment or
  parameter after them; a number that does not fit 32 bits is refused.\<close>

theorem retry_after_read:
  assumes "\<not> (\<exists>c r. rest = c # r \<and> is_digit c)"
  shows "parse_retry_after (dec n @ rest) = (if n < 2 ^ 32 then Some n else None)"
proof -
  obtain c ds where d: "dec n = c # ds" by (metis dec_digits neq_Nil_conv)
  then have "is_digit c" using dec_digits [of n] by simp
  then have w: "ws_at (dec n @ rest) = 0" using digit_no_ws [of c] d by (auto simp: ws_at_def split: list.splits)
  have plus: "(case dec n of c # r \<Rightarrow> if c = CHR ''+'' then r else dec n | [] \<Rightarrow> []) = dec n"
    using is_digit_not [OF \<open>is_digit c\<close>] by (simp add: d)
  have "parse_uint 32 (dec n) = (if n < 2 ^ 32 then Some n else None)"
    using parse_uint_dec [of n 32] by (simp add: parse_uint_def plus)
  then show ?thesis
    using w assms takeWhile_digits [of "dec n" rest] dec_digits [of n] by (simp add: parse_retry_after_def trim_start_id Let_def)
qed

theorem retry_after_read_witness: "parse_retry_after (dec 5 @ '';duration=10'') = Some 5"
  using retry_after_read [of "'';duration=10''" 5] by (simp add: is_digit_def octet_of_def)

end
