(* ===== verification/Carrier_Retry.thy ===== *)
theory Carrier_Retry
  imports Rate_Limiter Sip_Message
begin

text \<open>
  The policy that repeats an INVITE once when the network refuses it at random
  (\<^verbatim>\<open>call/carrier_retry.rs\<close>). Durations are milliseconds; the random offset is an
  argument of the decision, as in the code, and the generator of the offset takes the
  nanoseconds of the system clock as an argument.
\<close>

section \<open>Policy\<close>

record carrier_retry_config =
  cr_default_wait :: nat
  cr_max_wait :: nat
  cr_jitter :: nat

definition default_retry_config :: carrier_retry_config where
  "default_retry_config = \<lparr>cr_default_wait = 8000, cr_max_wait = 12000, cr_jitter = 1500\<rparr>"

datatype no_retry_reason = NotIntermittent | RetryAfterTooLong

datatype retry_decision =
    Retry (retry_wait: nat) (retry_after_header_secs: "nat option")
  | NoRetry no_retry_reason

definition is_carrier_intermittent_reject :: "nat \<Rightarrow> bool" where
  "is_carrier_intermittent_reject status \<longleftrightarrow> status = 500 \<or> status = 486 \<or> status = 503"

definition apply_jitter :: "nat \<Rightarrow> int \<Rightarrow> nat" where
  "apply_jitter base_ms offset =
     (let base = int (if base_ms < 2 ^ 64 then base_ms else 2 ^ 64 - 1);
          sum = max (base + offset) 0
      in if sum < 2 ^ 64 then nat sum else 0)"

definition decide_retry :: "nat \<Rightarrow> sip_headers \<Rightarrow> carrier_retry_config \<Rightarrow> int \<Rightarrow> retry_decision" where
  "decide_retry status headers cfg offset =
     (if \<not> is_carrier_intermittent_reject status then NoRetry NotIntermittent
      else
        (let secs_opt = Option.bind (hdr_get headers ''retry-after'') parse_retry_after
         in case secs_opt of
              Some secs \<Rightarrow>
                if secs * 1000 > cr_max_wait cfg then NoRetry RetryAfterTooLong
                else Retry (apply_jitter (secs * 1000) offset) secs_opt
            | None \<Rightarrow> Retry (apply_jitter (cr_default_wait cfg) offset) secs_opt))"

text \<open>The generator: one step of a linear congruence on 64 bits, folded into the amplitude.\<close>

definition random_jitter_offset_ms :: "64 word \<Rightarrow> nat \<Rightarrow> int" where
  "random_jitter_offset_ms nanos amplitude =
     (let amp_ms = (if amplitude < 2 ^ 63 then int amplitude else 0)
      in if amp_ms = 0 then 0
         else (let seed = nanos * 6364136223846793005 + 1442695040888963407;
                   range = (word_of_int (amp_ms * 2 + 1) :: 64 word)
               in uint (seed mod range) - amp_ms))"

section \<open>Facts\<close>

lemma apply_jitter_small:
  "base < 2 ^ 62 \<Longrightarrow> \<bar>offset\<bar> < 2 ^ 62 \<Longrightarrow> apply_jitter base offset = nat (int base + offset)"
  by (auto simp: apply_jitter_def Let_def max_def)

lemma jitter_offset_range:
  assumes "amplitude < 2 ^ 62"
  shows "\<bar>random_jitter_offset_ms nanos amplitude\<bar> \<le> int amplitude"
proof (cases "amplitude = 0")
  case False
  let ?range = "word_of_int (int amplitude * 2 + 1) :: 64 word"
  have u: "uint ?range = int amplitude * 2 + 1"
    unfolding uint_word_of_int using assms by (intro mod_pos_pos_trivial) simp_all
  then have "uint (x mod ?range) < int amplitude * 2 + 1" for x :: "64 word"
    by (metis (no_types) False of_nat_0_le_iff add_nonneg_pos mult_nonneg_nonneg pos_mod_bound uint_mod zero_le_numeral zero_less_one)
  moreover have "0 \<le> uint (x mod ?range)" for x by simp
  ultimately show ?thesis using False assms
    by (simp add: random_jitter_offset_ms_def Let_def abs_le_iff) (smt (verit))
qed (simp add: random_jitter_offset_ms_def)

section \<open>Properties\<close>

text \<open>An INVITE is repeated only after 486, 500 or 503, and the wait is bounded: with the
  offsets the generator gives it is between 6.5 and 9.5 seconds without a Retry-After,
  and within 1.5 seconds of the Retry-After otherwise; a Retry-After of more than 12
  seconds is never waited for.\<close>

theorem carrier_retry_bounded:
  assumes "decide_retry status headers default_retry_config (random_jitter_offset_ms nanos 1500) = Retry w secs"
  shows "status \<in> {486, 500, 503}
    \<and> secs = Option.bind (hdr_get headers ''retry-after'') parse_retry_after
    \<and> (case secs of
         None \<Rightarrow> 6500 \<le> w \<and> w \<le> 9500
       | Some n \<Rightarrow> n \<le> 12 \<and> n * 1000 \<le> w + 1500 \<and> w \<le> n * 1000 + 1500)"
proof -
  let ?o = "random_jitter_offset_ms nanos 1500"
  have o: "\<bar>?o\<bar> \<le> 1500" using jitter_offset_range [of 1500 nanos] by simp
  have j: "apply_jitter b ?o = nat (int b + ?o)" if "b \<le> 12000" for b
    using that o by (intro apply_jitter_small) simp_all
  have b: "Option.bind (hdr_get headers ''retry-after'') parse_retry_after = secs" "status \<in> {486, 500, 503}"
    using assms by (auto simp: decide_retry_def is_carrier_intermittent_reject_def Let_def split: if_splits option.splits)
  then show ?thesis
    using assms o j unfolding decide_retry_def b(1)
    by (cases secs) (auto simp: default_retry_config_def Let_def split: if_splits)
qed

theorem carrier_retry_bounded_witness:
  "\<exists>w. decide_retry 500 [] default_retry_config (random_jitter_offset_ms 0 1500) = Retry w None \<and> 6500 \<le> w \<and> w \<le> 9500"
proof -
  obtain w where w: "decide_retry 500 [] default_retry_config (random_jitter_offset_ms 0 1500) = Retry w None"
    by (simp add: decide_retry_def is_carrier_intermittent_reject_def hdr_get_def)
  with carrier_retry_bounded [OF w] show ?thesis by simp
qed

text \<open>The random offset is also taken off a Retry-After, so the INVITE may be repeated before the
  time the network asked for.\<close>

lemma retry_before_retry_after:
  "decide_retry 503 [(''retry-after'', ''5'')] default_retry_config (- 1500) = Retry 3500 (Some 5)"
proof -
  have "parse_retry_after ''5'' = Some 5"
    by (simp add: parse_retry_after_def trim_start_id ws_eval is_digit_def octet_of_def parse_uint_def digits_value_def)
  moreover have "normalize_header_name ''retry-after'' = ''retry-after''"
    by (simp add: normalize_header_name_def compact_forms_def char_eval trim_def trim_start_id trim_end_id ws_eval)
  ultimately show ?thesis
    by (simp add: decide_retry_def is_carrier_intermittent_reject_def hdr_get_def default_retry_config_def apply_jitter_def)
qed

end
