(* ===== verification/Dtmf.thy ===== *)
theory Dtmf
  imports Rtp_Packet Rust_Str
begin

unbundle bit_operations_syntax

text \<open>
  Relay of DTMF digits (\<^verbatim>\<open>call/dtmf.rs\<close>): the RTP payload of RFC 4733, the digits and
  their event numbers, the bodies of SIP INFO, and the expansion of one key press into
  RTP packets. A Rust \<^verbatim>\<open>char\<close> is the list of its UTF-8 octets. Arithmetic on
  \<^verbatim>\<open>u32\<close> and \<^verbatim>\<open>u16\<close> wraps or saturates at its width as in the release build.
\<close>

section \<open>Telephone events\<close>

definition PAYLOAD_TYPE_TELEPHONE_EVENT :: octet where
  "PAYLOAD_TYPE_TELEPHONE_EVENT = 101"

record telephone_event =
  te_event :: octet
  te_end :: bool
  te_volume :: octet
  te_duration :: "16 word"

datatype dtmf_error = EventTooShort nat | NotUtf8 | NoSignal | EmptyBody

definition into_payload :: "telephone_event \<Rightarrow> octet list" where
  "into_payload te =
     (let e_bit = (if te_end te then 0x80 else 0); vol = te_volume te AND 0x3f
      in [te_event te, e_bit OR vol, ucast (drop_bit 8 (te_duration te)), ucast (te_duration te AND 0xff)])"

definition from_payload :: "octet list \<Rightarrow> dtmf_error + telephone_event" where
  "from_payload data =
     (if length data < 4 then Inl (EventTooShort (length data))
      else (let flags = data ! 1
            in Inr \<lparr>te_event = data ! 0, te_end = (flags AND 0x80 \<noteq> 0), te_volume = flags AND 0x3f,
                    te_duration = u16_from_be (data ! 2) (data ! 3)\<rparr>))"

section \<open>Digits\<close>

definition digit_to_event :: "string \<Rightarrow> octet option" where
  "digit_to_event d =
     (case d of
        [c] \<Rightarrow>
          (let b = octet_of c
           in if 48 \<le> b \<and> b \<le> 57 then Some (of_nat (b - 48))
              else if c = CHR ''*'' then Some 10
              else if c = CHR ''#'' then Some 11
              else if 65 \<le> b \<and> b \<le> 68 then Some (12 + of_nat (b - 65))
              else if 97 \<le> b \<and> b \<le> 100 then Some (12 + of_nat (b - 97))
              else None)
      | _ \<Rightarrow> None)"

definition event_to_digit :: "octet \<Rightarrow> string option" where
  "event_to_digit e =
     (let n = unat e
      in if n \<le> 9 then Some [char_of (48 + n)]
         else if n = 10 then Some ''*''
         else if n = 11 then Some ''#''
         else if n \<le> 15 then Some [char_of (65 + (n - 12))]
         else None)"

section \<open>Bodies of SIP INFO\<close>

text \<open>\<^verbatim>\<open>str::lines\<close>: a line ends with a line feed, with or without a carriage return before it.\<close>

definition strip_cr :: "string \<Rightarrow> string" where
  "strip_cr l = (case strip_suffix [CR] l of Some r \<Rightarrow> r | None \<Rightarrow> l)"

definition str_lines :: "string \<Rightarrow> string list" where
  "str_lines s =
     (let ps = split_char LF s
      in map strip_cr (butlast ps) @ (if List.last ps = [] then [] else [List.last ps]))"

definition relay_line :: "string \<Rightarrow> string option \<times> nat \<Rightarrow> string option \<times> nat" where
  "relay_line line0 st =
     (let line = trim line0
      in case strip_prefix ''Signal='' line of
           Some rest \<Rightarrow>
             (case first_char (trim rest) of Some c \<Rightarrow> (Some c, snd st) | None \<Rightarrow> st)
         | None \<Rightarrow>
             (case strip_prefix ''Duration='' line of
                Some rest \<Rightarrow> (case parse_uint 32 (trim rest) of Some n \<Rightarrow> (fst st, n) | None \<Rightarrow> st)
              | None \<Rightarrow> st))"

definition parse_application_dtmf_relay :: "string \<Rightarrow> dtmf_error + string \<times> nat" where
  "parse_application_dtmf_relay body =
     (if \<not> valid_utf8 body then Inl NotUtf8
      else (case fold relay_line (str_lines body) (None, 250) of
              (Some signal, duration_ms) \<Rightarrow> Inr (signal, duration_ms)
            | (None, _) \<Rightarrow> Inl NoSignal))"

definition parse_application_dtmf :: "string \<Rightarrow> dtmf_error + string" where
  "parse_application_dtmf body =
     (if \<not> valid_utf8 body then Inl NotUtf8
      else (case first_char (trim body) of Some c \<Rightarrow> Inr c | None \<Rightarrow> Inl EmptyBody))"

section \<open>One key press as packets\<close>

definition CLOCK_HZ :: "32 word" where
  "CLOCK_HZ = 8000"

definition total_duration_units :: "32 word \<Rightarrow> 16 word" where
  "total_duration_units duration_ms = ucast (min (max duration_ms 1 * CLOCK_HZ div 1000) 65535)"

definition period_units :: "32 word \<Rightarrow> 32 word \<Rightarrow> 16 word" where
  "period_units duration_ms period_ms =
     (if period_ms = 0 then total_duration_units duration_ms
      else max (ucast (min (period_ms * CLOCK_HZ div 1000) 65535)) 1)"

definition dtmf_packet ::
  "octet \<Rightarrow> 32 word \<Rightarrow> 32 word \<Rightarrow> octet \<Rightarrow> bool \<Rightarrow> bool \<Rightarrow> 16 word \<Rightarrow> 16 word \<Rightarrow> rtp_packet" where
  "dtmf_packet event ts src volume is_end mark sq dur =
     \<lparr>payload_type = PAYLOAD_TYPE_TELEPHONE_EVENT, marker = mark, sequence = sq, timestamp = ts, ssrc = src,
      payload = into_payload \<lparr>te_event = event, te_end = is_end, te_volume = volume, te_duration = dur\<rparr>\<rparr>"

text \<open>The loop of the packets before the end; \<open>mk\<close> makes one from marker, number and duration.
  The value \<^const>\<open>None\<close> would be a loop that never ends.\<close>

partial_function (option) dtmf_loop ::
  "(bool \<Rightarrow> 16 word \<Rightarrow> 16 word \<Rightarrow> rtp_packet) \<Rightarrow> 16 word \<Rightarrow> 16 word \<Rightarrow> 16 word \<Rightarrow> 16 word \<Rightarrow> bool
    \<Rightarrow> (rtp_packet list \<times> 16 word) option" where
  "dtmf_loop mk tot period sq accumulated first =
     (let cur_duration = min accumulated tot;
          pkt = mk first sq cur_duration
      in if cur_duration \<ge> tot then Some ([pkt], sq + 1)
         else Option.bind (dtmf_loop mk tot period (sq + 1) (sat_add accumulated period) False)
                (\<lambda>(ps, sq'). Some (pkt # ps, sq')))"

definition build_dtmf_packet_sequence ::
  "octet \<Rightarrow> 16 word \<Rightarrow> 32 word \<Rightarrow> 32 word \<Rightarrow> 32 word \<Rightarrow> 32 word \<Rightarrow> octet \<Rightarrow> rtp_packet list option" where
  "build_dtmf_packet_sequence event start_seq start_timestamp src duration_ms period_ms volume =
     (let tot = total_duration_units duration_ms;
          period = period_units duration_ms period_ms;
          pkt = dtmf_packet event start_timestamp src volume
      in Option.bind (dtmf_loop (pkt False) tot period start_seq period True)
           (\<lambda>(ps, sq). Some (ps @ map (\<lambda>i. pkt True False (sq + of_nat i) tot) [0..<3])))"

section \<open>Facts\<close>

lemma into_payload_length [simp]: "length (into_payload te) = 4"
  by (simp add: into_payload_def Let_def)

lemma flags_end: "((if e then 0x80 else 0) OR (v AND 0x3f)) AND 0x80 \<noteq> 0 \<longleftrightarrow> e" for v :: octet
  by (simp add: bit.conj_disj_distrib2 and.assoc)

lemma flags_volume: "((if e then 0x80 else 0) OR (v AND 0x3f)) AND 0x3f = v AND 0x3f" for v :: octet
  by (simp add: bit.conj_disj_distrib2 and.assoc)

lemma ucast_low: "ucast (w AND 0xff) = (ucast w :: octet)" for w :: "16 word"
proof -
  have "ucast (w AND mask 8) = (ucast w :: octet)" by (rule bit_word_eqI) (auto simp: bit_simps)
  then show ?thesis by (simp add: mask_eq_exp_minus_1)
qed

lemma payload_decode: "from_payload (into_payload te @ rest) = Inr (te\<lparr>te_volume := te_volume te AND 0x3f\<rparr>)"
  by (simp add: from_payload_def into_payload_def Let_def flags_end flags_volume ucast_low u16_from_to_be)

lemma total_exact: "unat d \<le> 536870 \<Longrightarrow> unat (total_duration_units d) = min (8 * max (unat d) 1) 65535"
proof -
  assume a: "unat d \<le> 536870"
  have m: "unat (max d 1) = max (unat d) 1" by (simp add: max_def word_le_nat_alt)
  have "unat (max d 1 * CLOCK_HZ) = max (unat d) 1 * 8000"
    using a m by (subst unat_mult_lem [THEN iffD1]) (simp_all add: CLOCK_HZ_def)
  then have "unat (max d 1 * CLOCK_HZ div 1000) = 8 * max (unat d) 1" by (simp add: unat_div)
  then have "unat (min (max d 1 * CLOCK_HZ div 1000) 65535) = min (8 * max (unat d) 1) 65535"
    by (auto simp: min_def word_le_nat_alt)
  then show ?thesis by (simp add: total_duration_units_def unsigned_ucast_eq take_bit_nat_eq_self)
qed

section \<open>The loop\<close>

lemma dtmf_loop_shape:
  assumes "0 < unat period \<or> unat tot \<le> unat acc"
  shows "\<exists>n. n = (unat tot - unat acc + unat period - 1) div max 1 (unat period) + 1
    \<and> dtmf_loop mk tot period sq acc first =
      Some (map (\<lambda>i. mk (first \<and> i = 0) (sq + of_nat i) (of_nat (min (unat acc + i * unat period) (unat tot)))) [0..<n],
            sq + of_nat n)"
  using assms
proof (induction "unat tot - unat acc" arbitrary: sq acc first rule: less_induct)
  case less
  show ?case
  proof (cases "unat tot \<le> unat acc")
    case True
    then have m: "min acc tot = tot" by (simp add: min.absorb2 word_le_nat_alt)
    have "(unat period - 1) div max 1 (unat period) = 0" by simp
    with True m show ?thesis by (subst dtmf_loop.simps) simp
  next
    case False
    let ?acc = "sat_add acc period"
    have p: "0 < unat period" using False less.prems by simp
    have tb: "unat tot \<le> 65535" using unsigned_less [of tot, where 'a = nat] by simp
    have u: "unat ?acc = min (unat acc + unat period) 65535" by (simp add: unat_sat_add)
    then have "unat tot - unat ?acc < unat tot - unat acc" using p tb False by simp
    from less.hyps [OF this, of "sq + 1" False] p obtain n where
      n: "n = (unat tot - unat ?acc + unat period - 1) div max 1 (unat period) + 1" and
      l: "dtmf_loop mk tot period (sq + 1) ?acc False =
        Some (map (\<lambda>i. mk False (sq + 1 + of_nat i) (of_nat (min (unat ?acc + i * unat period) (unat tot)))) [0..<n],
              sq + 1 + of_nat n)" by auto
    have k: "Suc n = (unat tot - unat acc + unat period - 1) div max 1 (unat period) + 1"
    proof (cases "unat tot \<le> unat acc + unat period")
      case True
      then have "unat tot - unat ?acc = 0" using u tb by simp
      then have "n = 1" using n p by simp
      moreover have "(unat tot - unat acc + unat period - 1) div unat period = 1"
        using True False p by (intro div_nat_eqI) auto
      ultimately show ?thesis using p by (simp add: max_def)
    next
      case f: False
      then have "unat tot - unat acc + unat period - 1 = (unat tot - unat ?acc + unat period - 1) + unat period"
        using u tb p by simp
      then have "(unat tot - unat acc + unat period - 1) div unat period = n"
        using n p by (simp only: div_add_self2) (simp add: max_def)
      then show ?thesis using p by (simp add: max_def)
    qed
    have d: "min (unat ?acc + i * unat period) (unat tot) = min (unat acc + Suc i * unat period) (unat tot)" for i
      using u tb by (auto simp: min_def)
    have c: "\<not> min acc tot \<ge> tot" "min acc tot = acc" using False by (auto simp: min_def word_le_nat_alt)
    have "dtmf_loop mk tot period sq acc first =
        Some (mk first sq acc # map (\<lambda>i. mk False (sq + 1 + of_nat i) (of_nat (min (unat acc + Suc i * unat period) (unat tot)))) [0..<n],
              sq + 1 + of_nat n)"
      using c l d by (subst dtmf_loop.simps) simp
    moreover have u0: "map f [0..<Suc n] = f 0 # map (\<lambda>i. f (Suc i)) [0..<n]" for f :: "nat \<Rightarrow> rtp_packet"
      by (simp add: upt_conv_Cons map_Suc_upt [symmetric] comp_def del: upt_Suc)
    moreover have "min (unat acc) (unat tot) = unat acc" using False by simp
    ultimately show ?thesis
      by (intro exI [of _ "Suc n"] conjI k) (simp only: u0, simp add: algebra_simps)
  qed
qed

lemma period_pos: "0 < unat (period_units d p) \<or> unat (total_duration_units d) \<le> unat (period_units d p)"
proof (cases "p = 0")
  case False
  then have "(1 :: 16 word) \<le> period_units d p" by (simp add: period_units_def)
  then show ?thesis by (simp add: word_le_nat_alt)
qed (simp add: period_units_def)

section \<open>Properties\<close>

text \<open>One key press becomes this sequence of packets, and the loop that makes it ends: packets
  with growing durations until the whole duration is reached, the first with the marker
  bit, then three copies of the end packet; the sequence numbers are consecutive modulo
  two to the 16 and all packets have the time stamp of the start.\<close>

theorem dtmf_sequence_shape:
  "let t = unat (total_duration_units duration_ms); p = unat (period_units duration_ms period_ms);
       n = (t - p + p - 1) div max 1 p + 1; pkt = dtmf_packet event ts src volume
   in build_dtmf_packet_sequence event start_seq ts src duration_ms period_ms volume =
        Some (map (\<lambda>i. pkt False (i = 0) (start_seq + of_nat i) (of_nat (min (Suc i * p) t))) [0..<n]
              @ map (\<lambda>i. pkt True False (start_seq + of_nat i) (of_nat t)) [n..<n + 3])"
proof -
  let ?tot = "total_duration_units duration_ms" and ?per = "period_units duration_ms period_ms"
  let ?pkt = "dtmf_packet event ts src volume"
  from dtmf_loop_shape [OF period_pos [of duration_ms period_ms], of "?pkt False" start_seq True]
  obtain n where n: "n = (unat ?tot - unat ?per + unat ?per - 1) div max 1 (unat ?per) + 1" and
    l: "dtmf_loop (?pkt False) ?tot ?per start_seq ?per True =
      Some (map (\<lambda>i. ?pkt False (i = 0) (start_seq + of_nat i) (of_nat (min (unat ?per + i * unat ?per) (unat ?tot)))) [0..<n],
            start_seq + of_nat n)" by auto
  have "map (\<lambda>i. ?pkt True False (start_seq + of_nat i) ?tot) [n..<n + 3] =
      map (\<lambda>i. ?pkt True False (start_seq + of_nat n + of_nat i) ?tot) [0..<3]"
    by (rule nth_equalityI) (simp_all add: algebra_simps)
  then show ?thesis
    unfolding build_dtmf_packet_sequence_def Let_def l n [symmetric] by (simp add: algebra_simps)
qed

text \<open>A telephone event that was written is read back, with the volume cut to six bits, also when
  more octets follow; digits and event numbers are inverse to each other on the sixteen
  events of DTMF.\<close>

theorem dtmf_event_roundtrip:
  "from_payload (into_payload te @ rest) = Inr (te\<lparr>te_volume := te_volume te AND 0x3f\<rparr>)
   \<and> (event_to_digit e = Some d \<longrightarrow> digit_to_event d = Some e)
   \<and> ((\<exists>d. digit_to_event d = Some e) \<longleftrightarrow> unat e \<le> 15)"
proof -
  have r: "digit_to_event d' = Some e \<and> unat e \<le> 15" if ed: "event_to_digit e = Some d'" for d'
  proof -
    have star: "char_of k = CHR ''*'' \<longleftrightarrow> k = 42" "char_of k = CHR ''#'' \<longleftrightarrow> k = 35" if "k < 256" for k :: nat
      using that octet_of_inj [of "char_of k" "CHR ''*''"] octet_of_inj [of "char_of k" "CHR ''#''"]
      by (simp_all add: octet_of_char_of) (simp_all add: octet_of_def)
    have e: "(of_nat (unat e) :: octet) = e" by simp
    consider "unat e \<le> 9" "d' = [char_of (48 + unat e)]" | "unat e = 10" "d' = ''*''" | "unat e = 11" "d' = ''#''"
      | "12 \<le> unat e" "unat e \<le> 15" "d' = [char_of (65 + (unat e - 12))]"
      using ed unfolding event_to_digit_def Let_def by (fastforce split: if_splits)
    then show ?thesis
    proof cases
      case 1
      then show ?thesis using e by (simp add: digit_to_event_def octet_of_char_of)
    next
      case 2
      then show ?thesis using e by (simp add: digit_to_event_def octet_of_def)
    next
      case 3
      then show ?thesis using e by (simp add: digit_to_event_def octet_of_def)
    next
      case 4
      then have "(12 :: octet) + of_nat (unat e - 12) = e" using e by (simp add: of_nat_diff)
      with 4 show ?thesis by (simp add: digit_to_event_def octet_of_char_of star)
    qed
  qed
  have "unat e \<le> 15" if de: "digit_to_event d' = Some e" for d'
  proof -
    have small: "unat (of_nat k :: octet) \<le> 15" if "k \<le> 15" for k
      using that by (simp add: unat_of_nat)
    have twelve: "(12 :: octet) + of_nat k = of_nat (12 + k)" for k by simp
    have "\<exists>k \<le> 15. e = of_nat k"
    proof (cases d' rule: remdups_adj.cases)
      case (2 c)
      let ?ks = "[octet_of c - 48, 10, 11, 12 + (octet_of c - 65), 12 + (octet_of c - 97)]"
      from 2 de have "list_ex (\<lambda>k. k \<le> 15 \<and> e = of_nat k) ?ks"
        by (simp add: digit_to_event_def Let_def split: if_splits) auto
      then show ?thesis unfolding list_ex_iff by blast
    qed (use de in \<open>simp_all add: digit_to_event_def\<close>)
    with small show ?thesis by auto
  qed
  moreover have "\<exists>d. event_to_digit e = Some d" if "unat e \<le> 15"
    using that by (simp add: event_to_digit_def Let_def)
  ultimately show ?thesis using r payload_decode by blast
qed

theorem dtmf_event_roundtrip_witness:
  "event_to_digit 11 = Some ''#'' \<and> digit_to_event ''#'' = Some 11"
  using dtmf_event_roundtrip [of undefined "[]" 11 "''#''"] by (simp add: event_to_digit_def)

text \<open>The length of a tone is exact up to 536.87 seconds; one millisecond more and the product
  with the clock rate wraps around in 32 bits, so that the tone has no duration at all.\<close>

lemma dtmf_duration_wraps: "unat (total_duration_units 536870) = 65535" "total_duration_units 536871 = 0"
  using total_exact [of 536870]
  by (simp_all add: total_duration_units_def CLOCK_HZ_def min_def max_def word_le_nat_alt)

lemma str_lines_crlf: "LF \<notin> set a \<Longrightarrow> str_lines (a @ CR # LF # b) = a # str_lines b"
proof -
  assume a: "LF \<notin> set a"
  have "split_char LF (a @ CR # LF # b) = (a @ [CR]) # split_char LF b"
    using split_char_append [of LF "a @ [CR]" b] a by simp
  moreover have "strip_cr (a @ [CR]) = a" by (simp add: strip_cr_def strip_suffix_def)
  ultimately show ?thesis by (simp add: str_lines_def Let_def)
qed

text \<open>A digit and a duration written as a \<^verbatim>\<open>dtmf-relay\<close> body are read back, and a body
  without a duration means 250 milliseconds.\<close>

theorem dtmf_relay_read:
  assumes "graphic c" "n < 2 ^ 32"
  shows "parse_application_dtmf_relay (''Signal='' @ [c] @ crlf @ ''Duration='' @ dec n @ crlf) = Inr ([c], n)
    \<and> parse_application_dtmf_relay (''Signal='' @ [c] @ crlf) = Inr ([c], 250)"
proof -
  let ?a = "''Signal='' @ [c]" and ?b = "''Duration='' @ dec n"
  have g: "list_all graphic ?a" "list_all graphic ?b"
    using assms(1) dec_graphic [of n] by (simp_all add: graphic_def octet_of_def)
  have u: "valid_utf8 (?a @ crlf @ ?b @ crlf)" "valid_utf8 (?a @ crlf)"
    using g by (intro valid_utf8_append graphic_valid_utf8 valid_utf8_all_ascii; simp add: octet_of_def)+
  have nl: "LF \<notin> set ?a" "LF \<notin> set ?b" using g by (auto simp: list_all_iff graphic_def octet_of_def)
  have l: "str_lines (?a @ crlf @ ?b @ crlf) = [?a, ?b]" "str_lines (?a @ crlf) = [?a]"
    using str_lines_crlf [OF nl(1), of "?b @ crlf"] str_lines_crlf [OF nl(2), of "[]"] str_lines_crlf [OF nl(1), of "[]"]
    by (simp_all add: str_lines_def)
  have s: "relay_line ?a (x, m) = (Some [c], m)" for x m
    using trim_graphic [OF g(1)] trim_graphic [of "[c]"] graphic_first [OF assms(1)] assms(1)
    by (simp add: relay_line_def strip_prefix_def)
  have d: "relay_line ?b (x, m) = (x, n)" for x m
    using trim_graphic [OF g(2)] assms(2) by (simp add: relay_line_def strip_prefix_def)
  show ?thesis
    using u l s d unfolding parse_application_dtmf_relay_def by simp
qed

theorem dtmf_relay_read_witness:
  "parse_application_dtmf_relay (''Signal='' @ ''5'' @ crlf @ ''Duration='' @ dec 160 @ crlf) = Inr (''5'', 160)"
  using dtmf_relay_read [of "CHR ''5''" 160] by (simp add: graphic_def octet_of_def)

end
