(* ===== verification/Sdp.thy ===== *)
theory Sdp
  imports Rust_Net Rust_Bytes
begin

text \<open>
  Session descriptions (\<^verbatim>\<open>sdp/mod.rs\<close>), their parser (\<^verbatim>\<open>sdp/parser.rs\<close>) and the
  serialiser (first part of \<^verbatim>\<open>sdp/builder.rs\<close>). Texts are lists of UTF-8 octets. Taking the
  value of a line with \<^verbatim>\<open>&line[2..]\<close> panics when octet 2 is inside a character; the
  panic is an error value of its own.
\<close>

section \<open>Data\<close>

record sdp_origin =
  or_username :: string
  or_session_id :: nat
  or_session_version :: nat
  or_address :: ip_addr

record sdp_timing =
  ti_start :: nat
  ti_stop :: nat

datatype sdp_attribute =
    Property string
  | Attr (attr_name: string) (attr_value: string)

record media_description =
  md_media :: string
  md_port :: nat
  md_protocol :: string
  md_formats :: "string list"
  md_connection :: "ip_addr option"
  md_attributes :: "sdp_attribute list"

record session_description =
  sd_version :: nat
  sd_origin :: sdp_origin
  sd_session_name :: string
  sd_connection :: "ip_addr option"
  sd_timing :: sdp_timing
  sd_attributes :: "sdp_attribute list"
  sd_media :: "media_description list"

record rtp_map =
  rm_payload_type :: nat
  rm_encoding :: string
  rm_clock_rate :: nat
  rm_parameters :: "string option"

datatype sdp_error =
    SdpNotUtf8 | EmptySdpLine | NoEquals | NotTypeValue | SlicePanic
  | BadVersionNumber | FieldCount char | NotInternet char | UnknownAddrType | BadAddress | AddrTypeMismatch
  | BadNumber char | BadPort | EmptyProto | EmptyToken | BadTokenChar | MissingLine char
  | RtpMapError | NoAudio | NoCommonFormat

fun attr_key :: "sdp_attribute \<Rightarrow> string" where
  "attr_key (Property k) = k"
| "attr_key (Attr k _) = k"

fun addrtype_of :: "ip_addr \<Rightarrow> string" where
  "addrtype_of (V4 _ _ _ _) = ''IP4''"
| "addrtype_of (V6 _) = ''IP6''"

subsection \<open>The rtpmap attribute\<close>

text \<open>\<^verbatim>\<open>splitn(2, char::is_whitespace)\<close>: the text before and after the first white space.\<close>

definition split_first_ws :: "string \<Rightarrow> string \<times> string option" where
  "split_first_ws s =
     (let w = take_word s; r = drop (length w) s
      in (w, if r = [] then None else Some (drop (ws_at r) r)))"

definition rtpmap_parse :: "string \<Rightarrow> sdp_error + rtp_map" where
  "rtpmap_parse v =
     (case split_first_ws v of
        (_, None) \<Rightarrow> Inl RtpMapError
      | (pt_str, Some rest0) \<Rightarrow>
          (let rest = trim rest0
           in case parse_uint 8 pt_str of
                None \<Rightarrow> Inl RtpMapError
              | Some pt \<Rightarrow>
                  (case split_char CHR ''/'' rest of
                     enc # clock # ps \<Rightarrow>
                       (case parse_uint 32 clock of
                          None \<Rightarrow> Inl RtpMapError
                        | Some rate \<Rightarrow>
                            Inr \<lparr>rm_payload_type = pt, rm_encoding = enc, rm_clock_rate = rate,
                                 rm_parameters = (case ps of p # _ \<Rightarrow> Some p | [] \<Rightarrow> None)\<rparr>)
                   | _ \<Rightarrow> Inl RtpMapError)))"

fun as_rtpmap :: "sdp_attribute \<Rightarrow> rtp_map option" where
  "as_rtpmap (Property _) = None"
| "as_rtpmap (Attr k v) = (if k \<noteq> ''rtpmap'' then None else res_ok (rtpmap_parse v))"

definition find_rtpmap :: "session_description \<Rightarrow> nat \<Rightarrow> rtp_map option" where
  "find_rtpmap sdp pt =
     find (\<lambda>rm. rm_payload_type rm = pt) (List.map_filter as_rtpmap (concat (map md_attributes (sd_media sdp))))"

section \<open>Serialiser\<close>

definition format_origin :: "sdp_origin \<Rightarrow> string" where
  "format_origin o1 =
     or_username o1 @ '' '' @ dec (or_session_id o1) @ '' '' @ dec (or_session_version o1) @ '' IN ''
     @ addrtype_of (or_address o1) @ '' '' @ ip_display (or_address o1)"

definition format_connection :: "ip_addr \<Rightarrow> string" where
  "format_connection a = ''IN '' @ addrtype_of a @ '' '' @ ip_display a"

definition format_timing :: "sdp_timing \<Rightarrow> string" where
  "format_timing t = dec (ti_start t) @ '' '' @ dec (ti_stop t)"

definition format_media :: "media_description \<Rightarrow> string" where
  "format_media m =
     md_media m @ '' '' @ dec (md_port m) @ '' '' @ md_protocol m @ concat (map (\<lambda>f. SP # f) (md_formats m))"

fun format_attr :: "sdp_attribute \<Rightarrow> string" where
  "format_attr (Property k) = k"
| "format_attr (Attr k v) = k @ '':'' @ v"

definition connection_lines :: "ip_addr option \<Rightarrow> string list" where
  "connection_lines c = (case c of Some a \<Rightarrow> [''c='' @ format_connection a] | None \<Rightarrow> [])"

definition attr_lines :: "sdp_attribute list \<Rightarrow> string list" where
  "attr_lines as = map (\<lambda>a. ''a='' @ format_attr a) as"

definition media_lines :: "media_description \<Rightarrow> string list" where
  "media_lines m = (''m='' @ format_media m) # connection_lines (md_connection m) @ attr_lines (md_attributes m)"

definition serialize_lines :: "session_description \<Rightarrow> string list" where
  "serialize_lines sdp =
     [''v='' @ dec (sd_version sdp), ''o='' @ format_origin (sd_origin sdp), ''s='' @ sd_session_name sdp]
     @ connection_lines (sd_connection sdp)
     @ [''t='' @ format_timing (sd_timing sdp)]
     @ attr_lines (sd_attributes sdp)
     @ concat (map media_lines (sd_media sdp))"

definition serialize :: "session_description \<Rightarrow> string" where
  "serialize sdp = concat (map (\<lambda>l. l @ crlf) (serialize_lines sdp))"

section \<open>Parser\<close>

definition trim_crs :: "string \<Rightarrow> string" where
  "trim_crs l = rev (dropWhile (\<lambda>c. c = CR) (rev l))"

definition sdp_lines :: "string \<Rightarrow> string list" where
  "sdp_lines input = filter (\<lambda>l. l \<noteq> []) (map trim_crs (split_char LF input))"

definition split_type_value :: "string \<Rightarrow> sdp_error + string \<times> string" where
  "split_type_value line =
     (case first_char line of
        None \<Rightarrow> Inl EmptySdpLine
      | Some ty \<Rightarrow>
          (case first_char (drop (length ty) line) of
             None \<Rightarrow> Inl NoEquals
           | Some eq \<Rightarrow>
               if eq \<noteq> ''='' then Inl NotTypeValue
               else if length ty \<le> 2 then Inr (ty, drop 2 line)
               else Inl SlicePanic))"

definition check_addrtype :: "string \<Rightarrow> sdp_error + unit" where
  "check_addrtype at = (if at = ''IP4'' \<or> at = ''IP6'' then Inr () else Inl UnknownAddrType)"

definition sdp_parse_ip :: "string \<Rightarrow> string \<Rightarrow> sdp_error + ip_addr" where
  "sdp_parse_ip s at =
     (case parse_ip s of
        None \<Rightarrow> Inl BadAddress
      | Some ip \<Rightarrow> if addrtype_of ip = at then Inr ip else Inl AddrTypeMismatch)"

definition parse_origin :: "string \<Rightarrow> sdp_error + sdp_origin" where
  "parse_origin v =
     (case split_whitespace v of
        [user, sid, sver, net, at, addr] \<Rightarrow>
          if net \<noteq> ''IN'' then Inl (NotInternet CHR ''o'')
          else res_bind (check_addrtype at) (\<lambda>_.
               res_bind (sdp_parse_ip addr at) (\<lambda>ip.
               res_bind (ok_or (BadNumber CHR ''o'') (parse_uint 64 sid)) (\<lambda>i.
               res_bind (ok_or (BadNumber CHR ''o'') (parse_uint 64 sver)) (\<lambda>n.
                 Inr \<lparr>or_username = user, or_session_id = i, or_session_version = n, or_address = ip\<rparr>))))
      | _ \<Rightarrow> Inl (FieldCount CHR ''o''))"

definition parse_connection :: "string \<Rightarrow> sdp_error + ip_addr" where
  "parse_connection v =
     (case split_whitespace v of
        [net, at, addr] \<Rightarrow>
          if net \<noteq> ''IN'' then Inl (NotInternet CHR ''c'')
          else res_bind (check_addrtype at) (\<lambda>_. sdp_parse_ip (hd (split_char CHR ''/'' addr)) at)
      | _ \<Rightarrow> Inl (FieldCount CHR ''c''))"

definition parse_timing :: "string \<Rightarrow> sdp_error + sdp_timing" where
  "parse_timing v =
     (case split_whitespace v of
        [a, b] \<Rightarrow>
          res_bind (ok_or (BadNumber CHR ''t'') (parse_uint 64 a)) (\<lambda>x.
          res_bind (ok_or (BadNumber CHR ''t'') (parse_uint 64 b)) (\<lambda>y.
            Inr \<lparr>ti_start = x, ti_stop = y\<rparr>))
      | _ \<Rightarrow> Inl (FieldCount CHR ''t''))"

definition is_rfc4566_token_char :: "char \<Rightarrow> bool" where
  "is_rfc4566_token_char ch \<longleftrightarrow>
     (let c = octet_of ch
      in c = 0x21 \<or> 0x23 \<le> c \<and> c \<le> 0x27 \<or> 0x2A \<le> c \<and> c \<le> 0x2B \<or> 0x2D \<le> c \<and> c \<le> 0x2E
         \<or> 0x30 \<le> c \<and> c \<le> 0x39 \<or> 0x41 \<le> c \<and> c \<le> 0x5A \<or> 0x5E \<le> c \<and> c \<le> 0x7E)"

fun validate_tokens :: "string list \<Rightarrow> sdp_error + unit" where
  "validate_tokens [] = Inr ()"
| "validate_tokens (tok # ts) =
     (if tok = [] then Inl EmptyToken
      else if \<not> list_all is_rfc4566_token_char tok then Inl BadTokenChar
      else validate_tokens ts)"

definition validate_proto :: "string \<Rightarrow> sdp_error + string" where
  "validate_proto s =
     (if s = [] then Inl EmptyProto
      else res_bind (validate_tokens (split_char CHR ''/'' s)) (\<lambda>_. Inr s))"

definition parse_media :: "string \<Rightarrow> sdp_error + media_description" where
  "parse_media v =
     (case split_whitespace v of
        media # port # proto # f # fs \<Rightarrow>
          res_bind (ok_or BadPort (parse_uint 16 (hd (split_char CHR ''/'' port)))) (\<lambda>p.
          res_bind (validate_proto proto) (\<lambda>protocol.
            Inr \<lparr>md_media = media, md_port = p, md_protocol = protocol, md_formats = f # fs,
                 md_connection = None, md_attributes = []\<rparr>))
      | _ \<Rightarrow> Inl (FieldCount CHR ''m''))"

definition parse_attribute :: "string \<Rightarrow> sdp_attribute" where
  "parse_attribute v = (case split_once CHR '':'' v of Some (k, w) \<Rightarrow> Attr k w | None \<Rightarrow> Property v)"

text \<open>The variables of the first loop.\<close>

record sdp_acc =
  ac_version :: "nat option"
  ac_origin :: "sdp_origin option"
  ac_name :: "string option"
  ac_connection :: "ip_addr option"
  ac_timing :: "sdp_timing option"
  ac_attributes :: "sdp_attribute list"

definition session_line :: "string \<Rightarrow> string \<Rightarrow> sdp_acc \<Rightarrow> sdp_error + sdp_acc" where
  "session_line ty v ac =
     (if ty = ''v'' then
        res_bind (ok_or BadVersionNumber (parse_uint 32 v)) (\<lambda>n. Inr (ac\<lparr>ac_version := Some n\<rparr>))
      else if ty = ''o'' then res_bind (parse_origin v) (\<lambda>x. Inr (ac\<lparr>ac_origin := Some x\<rparr>))
      else if ty = ''s'' then Inr (ac\<lparr>ac_name := Some v\<rparr>)
      else if ty = ''c'' then res_bind (parse_connection v) (\<lambda>x. Inr (ac\<lparr>ac_connection := Some x\<rparr>))
      else if ty = ''t'' then res_bind (parse_timing v) (\<lambda>x. Inr (ac\<lparr>ac_timing := Some x\<rparr>))
      else if ty = ''a'' then Inr (ac\<lparr>ac_attributes := ac_attributes ac @ [parse_attribute v]\<rparr>)
      else Inr ac)"

fun parse_session_lines :: "string list \<Rightarrow> sdp_acc \<Rightarrow> sdp_error + sdp_acc \<times> string list" where
  "parse_session_lines [] ac = Inr (ac, [])"
| "parse_session_lines (l # ls) ac =
     res_bind (split_type_value l) (\<lambda>(ty, v).
       if ty = ''m'' then Inr (ac, l # ls)
       else res_bind (session_line ty v ac) (\<lambda>ac'. parse_session_lines ls ac'))"

definition media_line :: "string \<Rightarrow> string \<Rightarrow> media_description \<Rightarrow> sdp_error + media_description" where
  "media_line ty v m =
     (if ty = ''c'' then res_bind (parse_connection v) (\<lambda>x. Inr (m\<lparr>md_connection := Some x\<rparr>))
      else if ty = ''a'' then Inr (m\<lparr>md_attributes := md_attributes m @ [parse_attribute v]\<rparr>)
      else Inr m)"

fun parse_media_lines :: "string list \<Rightarrow> media_description \<Rightarrow> sdp_error + media_description \<times> string list" where
  "parse_media_lines [] m = Inr (m, [])"
| "parse_media_lines (l # ls) m =
     res_bind (split_type_value l) (\<lambda>(ty, v).
       if ty = ''m'' then Inr (m, l # ls)
       else res_bind (media_line ty v m) (\<lambda>m'. parse_media_lines ls m'))"

lemma parse_media_lines_length: "parse_media_lines ls m = Inr (m', r) \<Longrightarrow> length r \<le> length ls"
proof (induction ls arbitrary: m)
  case (Cons l ls)
  then show ?case by (fastforce split: if_splits)
qed simp

function parse_media_sections :: "string list \<Rightarrow> media_description list \<Rightarrow> sdp_error + media_description list" where
  "parse_media_sections [] ms = Inr ms"
| "parse_media_sections (l # ls) ms =
     (case split_type_value l of
        Inl e \<Rightarrow> Inl e
      | Inr (ty, v) \<Rightarrow>
          if ty \<noteq> ''m'' then parse_media_sections ls ms
          else (case parse_media v of
                  Inl e \<Rightarrow> Inl e
                | Inr m \<Rightarrow>
                    (case parse_media_lines ls m of
                       Inl e \<Rightarrow> Inl e
                     | Inr (m', r) \<Rightarrow> parse_media_sections r (ms @ [m']))))"
  by pat_completeness auto
termination
  by (relation "measure (\<lambda>(ls, ms). length ls)") (auto dest: parse_media_lines_length)

definition sdp_parse :: "string \<Rightarrow> sdp_error + session_description" where
  "sdp_parse input =
     res_bind (parse_session_lines (sdp_lines input)
         \<lparr>ac_version = None, ac_origin = None, ac_name = None, ac_connection = None, ac_timing = None,
          ac_attributes = []\<rparr>) (\<lambda>(ac, r).
     res_bind (parse_media_sections r []) (\<lambda>media.
     res_bind (ok_or (MissingLine CHR ''v'') (ac_version ac)) (\<lambda>ver.
     res_bind (ok_or (MissingLine CHR ''o'') (ac_origin ac)) (\<lambda>orig.
     res_bind (ok_or (MissingLine CHR ''s'') (ac_name ac)) (\<lambda>name.
     res_bind (ok_or (MissingLine CHR ''t'') (ac_timing ac)) (\<lambda>tim.
       Inr \<lparr>sd_version = ver, sd_origin = orig, sd_session_name = name, sd_connection = ac_connection ac,
            sd_timing = tim, sd_attributes = ac_attributes ac, sd_media = media\<rparr>))))))"

section \<open>Well-formed descriptions\<close>

text \<open>A text that can stand on a line.\<close>

definition sdp_text :: "string \<Rightarrow> bool" where
  "sdp_text v \<longleftrightarrow> LF \<notin> set v \<and> (v = [] \<or> List.last v \<noteq> CR)"

definition wf_attr :: "sdp_attribute \<Rightarrow> bool" where
  "wf_attr a \<longleftrightarrow> CHR '':'' \<notin> set (attr_key a) \<and> sdp_text (format_attr a)"

definition wf_media :: "media_description \<Rightarrow> bool" where
  "wf_media m \<longleftrightarrow>
     is_word (md_media m) \<and> md_port m < 2 ^ 16
     \<and> is_word (md_protocol m) \<and> validate_proto (md_protocol m) = Inr (md_protocol m)
     \<and> md_formats m \<noteq> [] \<and> list_all is_word (md_formats m)
     \<and> pred_option wf_ip (md_connection m) \<and> list_all wf_attr (md_attributes m)"

definition wf_origin :: "sdp_origin \<Rightarrow> bool" where
  "wf_origin x \<longleftrightarrow>
     is_word (or_username x) \<and> or_session_id x < 2 ^ 64 \<and> or_session_version x < 2 ^ 64 \<and> wf_ip (or_address x)"

definition wf_timing :: "sdp_timing \<Rightarrow> bool" where
  "wf_timing t \<longleftrightarrow> ti_start t < 2 ^ 64 \<and> ti_stop t < 2 ^ 64"

definition wf_sdp :: "session_description \<Rightarrow> bool" where
  "wf_sdp s \<longleftrightarrow>
     sd_version s < 2 ^ 32 \<and> wf_origin (sd_origin s) \<and> sdp_text (sd_session_name s)
     \<and> pred_option wf_ip (sd_connection s) \<and> wf_timing (sd_timing s)
     \<and> list_all wf_attr (sd_attributes s) \<and> list_all wf_media (sd_media s)"

section \<open>Lines\<close>

lemma trim_crs_id: "l = [] \<or> List.last l \<noteq> CR \<Longrightarrow> trim_crs l = l"
  by (cases l rule: rev_cases) (auto simp: trim_crs_def)

lemma trim_crs_CR: "trim_crs (l @ [CR]) = trim_crs l"
  by (simp add: trim_crs_def)

lemma trim_crs_last: "trim_crs l = [] \<or> List.last (trim_crs l) \<noteq> CR"
proof (cases "dropWhile (\<lambda>c. c = CR) (rev l)")
  case (Cons c cs)
  then have "c \<noteq> CR" by (metis (mono_tags, lifting) dropWhile_eq_Cons_conv)
  with Cons show ?thesis by (simp add: trim_crs_def)
qed (simp add: trim_crs_def)

lemma trim_crs_set: "set (trim_crs l) \<subseteq> set l"
  unfolding trim_crs_def by (auto dest: set_dropWhileD)

lemma split_lf_lines: "\<forall>l \<in> set ls. LF \<notin> set l \<Longrightarrow>
    split_char LF (concat (map (\<lambda>l. l @ crlf) ls)) = map (\<lambda>l. l @ [CR]) ls @ [[]]"
proof (induction ls)
  case (Cons l ls)
  then have "LF \<notin> set (l @ [CR])" by simp
  from split_char_append [OF this, of "concat (map (\<lambda>l. l @ crlf) ls)"] Cons show ?case by simp
qed simp

lemma sdp_lines_written:
  assumes "\<forall>l \<in> set ls. sdp_text l \<and> l \<noteq> []"
  shows "sdp_lines (concat (map (\<lambda>l. l @ crlf) ls)) = ls"
proof -
  have "map trim_crs ls = ls" using assms unfolding sdp_text_def by (intro map_idI trim_crs_id) blast
  then have m: "map trim_crs (map (\<lambda>l. l @ [CR]) ls @ [[]]) = ls @ [[]]"
    unfolding map_append map_map comp_def trim_crs_CR by (simp add: trim_crs_id)
  have "split_char LF (concat (map (\<lambda>l. l @ crlf) ls)) = map (\<lambda>l. l @ [CR]) ls @ [[]]"
    using assms by (intro split_lf_lines) (simp add: sdp_text_def)
  moreover have "filter (\<lambda>l. l \<noteq> []) ls = ls" using assms by (intro filter_True) blast
  ultimately show ?thesis by (simp only: sdp_lines_def m filter_append) simp
qed

lemma sdp_lines_text: "l \<in> set (sdp_lines input) \<Longrightarrow> sdp_text l"
  using trim_crs_last trim_crs_set split_char_parts by (fastforce simp: sdp_lines_def sdp_text_def)

lemma sdp_text_drop: "sdp_text l \<Longrightarrow> sdp_text (drop n l)"
  by (auto simp: sdp_text_def dest: in_set_dropD)

lemma split_type_value_line: "graphic c \<Longrightarrow> split_type_value (c # CHR ''='' # v) = Inr ([c], v)"
proof -
  assume "graphic c"
  moreover have "graphic CHR ''=''" by (simp add: graphic_def octet_of_def)
  ultimately show ?thesis by (simp add: split_type_value_def graphic_first)
qed

lemma type_chars: "graphic CHR ''v''" "graphic CHR ''o''" "graphic CHR ''s''" "graphic CHR ''c''" "graphic CHR ''t''"
  "graphic CHR ''a''" "graphic CHR ''m''"
  by (simp_all add: graphic_def octet_of_def)

lemma split_type_value_text: "split_type_value l = Inr (ty, v) \<Longrightarrow> sdp_text l \<Longrightarrow> sdp_text v"
  by (auto simp: split_type_value_def sdp_text_drop split: option.splits if_splits)

section \<open>Fields\<close>

lemma ip_word: "wf_ip ip \<Longrightarrow> is_word (ip_display ip)"
proof (rule graphic_word)
  assume a: "wf_ip ip"
  show "list_all graphic (ip_display ip)" by (rule ip_graphic(1))
  have "parse_ip [] = None"
    by (simp add: parse_ip_def read_ipv4_def read_dec_octet_def read_ipv6_def read_groups.simps read_hex_group_def
        read_char_def strip_prefix_def)
  with parse_ip_display [OF a] show "ip_display ip \<noteq> []" by auto
qed

lemma lit_words: "is_word ''IN''" "is_word ''IP4''" "is_word ''IP6''"
  by (intro graphic_word; simp add: graphic_def octet_of_def)+

lemma dec_word: "is_word (dec n)"
  using dec_graphic dec_digits by (intro graphic_word) blast+

lemma addrtype_word: "is_word (addrtype_of ip)"
  by (cases ip) (simp_all add: lit_words)

lemma ip_no_slash: "split_char CHR ''/'' (ip_display ip) = [ip_display ip]"
  using ip_display_chars [of ip]
  by (intro split_char_none) (auto simp: list_all_iff ip_char_def is_digit_def octet_of_def)

lemma sdp_parse_ip_display: "wf_ip ip \<Longrightarrow> sdp_parse_ip (ip_display ip) (addrtype_of ip) = Inr ip"
  by (simp add: sdp_parse_ip_def parse_ip_display)

lemma sdp_parse_ip_wf: "sdp_parse_ip s at = Inr ip \<Longrightarrow> wf_ip ip"
  by (auto simp: sdp_parse_ip_def parse_ip_wf split: option.splits if_splits)

lemma check_addrtype_of: "check_addrtype (addrtype_of ip) = Inr ()"
  by (cases ip) (simp_all add: check_addrtype_def)

lemma parse_format_origin: "wf_origin x \<Longrightarrow> parse_origin (format_origin x) = Inr x"
proof -
  assume w: "wf_origin x"
  let ?ws = "[or_username x, dec (or_session_id x), dec (or_session_version x), ''IN'',
    addrtype_of (or_address x), ip_display (or_address x)]"
  have "split_whitespace (join [SP] ?ws) = ?ws"
    using w by (intro split_whitespace_join) (simp add: wf_origin_def dec_word lit_words addrtype_word ip_word)
  moreover have "format_origin x = join [SP] ?ws" by (simp add: format_origin_def)
  ultimately show ?thesis
    using w by (simp add: parse_origin_def check_addrtype_of sdp_parse_ip_display wf_origin_def)
qed

lemma parse_format_connection: "wf_ip ip \<Longrightarrow> parse_connection (format_connection ip) = Inr ip"
proof -
  assume w: "wf_ip ip"
  let ?ws = "[''IN'', addrtype_of ip, ip_display ip]"
  have "split_whitespace (join [SP] ?ws) = ?ws"
    using w by (intro split_whitespace_join) (simp add: lit_words addrtype_word ip_word)
  moreover have "format_connection ip = join [SP] ?ws" by (simp add: format_connection_def)
  ultimately show ?thesis
    using w by (simp add: parse_connection_def check_addrtype_of sdp_parse_ip_display ip_no_slash)
qed

lemma parse_format_timing: "wf_timing t \<Longrightarrow> parse_timing (format_timing t) = Inr t"
proof -
  assume w: "wf_timing t"
  let ?ws = "[dec (ti_start t), dec (ti_stop t)]"
  have "split_whitespace (join [SP] ?ws) = ?ws" by (intro split_whitespace_join) (simp add: dec_word)
  moreover have "format_timing t = join [SP] ?ws" by (simp add: format_timing_def)
  ultimately show ?thesis using w by (simp add: parse_timing_def wf_timing_def)
qed

lemma dec_no_slash: "split_char CHR ''/'' (dec n) = [dec n]"
  using dec_graphic [of n] dec_digits [of n]
  by (intro split_char_none) (auto simp: list_all_iff is_digit_def octet_of_def)

lemma join_concat: "ws \<noteq> [] \<Longrightarrow> join [SP] (ws @ fs) = join [SP] ws @ concat (map (\<lambda>f. SP # f) fs)"
proof (induction ws)
  case (Cons w ws)
  show ?case
  proof (cases ws)
    case Nil
    have "join [SP] (w # fs) = w @ concat (map (\<lambda>f. SP # f) fs)"
      by (induction fs arbitrary: w) simp_all
    with Nil show ?thesis by simp
  next
    case (Cons v vs)
    with Cons.IH show ?thesis by simp
  qed
qed simp

lemma parse_format_media:
  assumes "wf_media m"
  shows "parse_media (format_media m) = Inr (m\<lparr>md_connection := None, md_attributes := []\<rparr>)"
proof -
  let ?ws = "[md_media m, dec (md_port m), md_protocol m] @ md_formats m"
  have "split_whitespace (join [SP] ?ws) = ?ws"
    using assms by (intro split_whitespace_join) (simp add: wf_media_def dec_word)
  moreover have "format_media m = join [SP] ?ws" by (subst join_concat) (simp_all add: format_media_def)
  ultimately show ?thesis
    using assms by (cases "md_formats m") (auto simp: parse_media_def wf_media_def dec_no_slash)
qed

lemma parse_format_attr: "wf_attr a \<Longrightarrow> parse_attribute (format_attr a) = a"
proof (cases a)
  case (Property k)
  assume "wf_attr a"
  with Property have "split_once CHR '':'' k = None" by (simp add: wf_attr_def split_once_None)
  with Property show ?thesis by (simp add: parse_attribute_def)
qed (simp add: parse_attribute_def wf_attr_def split_once_append)

section \<open>Reading what was written\<close>

lemma parse_attr_lines:
  assumes "list_all wf_attr as"
  shows "parse_session_lines (attr_lines as @ ls) ac =
           parse_session_lines ls (ac\<lparr>ac_attributes := ac_attributes ac @ as\<rparr>)"
    and "parse_media_lines (attr_lines as @ ls) m =
           parse_media_lines ls (m\<lparr>md_attributes := md_attributes m @ as\<rparr>)"
  using assms
proof (induction as arbitrary: ac m)
  case (Cons a as)
  {
    case 1
    then show ?case using Cons.IH(1) by (simp add: attr_lines_def split_type_value_line type_chars session_line_def parse_format_attr)
  next
    case 2
    then show ?case using Cons.IH(2) by (simp add: attr_lines_def split_type_value_line type_chars media_line_def parse_format_attr)
  }
qed (simp_all add: attr_lines_def)

lemma parse_connection_lines:
  assumes "pred_option wf_ip c"
  shows "parse_session_lines (connection_lines c @ ls) ac =
      parse_session_lines ls (case c of Some _ \<Rightarrow> ac\<lparr>ac_connection := c\<rparr> | None \<Rightarrow> ac)"
    and "parse_media_lines (connection_lines c @ ls) m =
      parse_media_lines ls (case c of Some _ \<Rightarrow> m\<lparr>md_connection := c\<rparr> | None \<Rightarrow> m)"
  using assms
  by (cases c; simp add: connection_lines_def split_type_value_line type_chars session_line_def media_line_def
      parse_format_connection)+

text \<open>A block of lines that starts with another media line, or the end.\<close>

definition media_block :: "string list \<Rightarrow> bool" where
  "media_block ls \<longleftrightarrow> ls = [] \<or> (\<exists>v rest. ls = (''m='' @ v) # rest)"

lemma parse_block_end:
  assumes "media_block ls"
  shows "parse_session_lines ls ac = Inr (ac, ls)" "parse_media_lines ls m = Inr (m, ls)"
  using assms by (auto simp: media_block_def split_type_value_line type_chars)

lemma parse_media_written:
  "list_all wf_media ms \<Longrightarrow> parse_media_sections (concat (map media_lines ms)) acc = Inr (acc @ ms)"
proof (induction ms arbitrary: acc)
  case (Cons m ms)
  then have w: "wf_media m" by simp
  let ?rest = "concat (map media_lines ms)"
  let ?m0 = "m\<lparr>md_connection := None, md_attributes := []\<rparr>"
  have b: "media_block ?rest" by (cases ms) (auto simp: media_block_def media_lines_def)
  have "parse_media_lines (connection_lines (md_connection m) @ attr_lines (md_attributes m) @ ?rest) ?m0 = Inr (m, ?rest)"
    using w parse_block_end(2) [OF b]
    by (cases "md_connection m") (simp_all add: parse_connection_lines parse_attr_lines wf_media_def)
  then show ?case
    using Cons w by (simp add: media_lines_def [of m] split_type_value_line type_chars parse_format_media)
qed simp

lemma word_text: "is_word w \<Longrightarrow> sdp_text w"
  using word_no_LF [of w] last_in_set [of w] unfolding sdp_text_def is_word_def by metis

lemma sdp_text_append: "sdp_text v \<Longrightarrow> LF \<notin> set p \<Longrightarrow> p \<noteq> [] \<Longrightarrow> List.last p \<noteq> CR \<Longrightarrow> sdp_text (p @ v)"
  by (auto simp: sdp_text_def last_append)

lemma sdp_text_join: "list_all is_word ws \<Longrightarrow> sdp_text (join [SP] ws)"
proof (induction ws)
  case (Cons w ws)
  show ?case
  proof (cases ws)
    case (Cons v vs)
    have "sdp_text ((w @ [SP]) @ join [SP] (v # vs))"
      using Cons.prems Cons.IH Cons word_no_LF [of w] by (intro sdp_text_append) (auto simp: is_word_def)
    with Cons show ?thesis by simp
  qed (use Cons word_text in simp)
qed (simp add: sdp_text_def)

lemma format_lines_text:
  assumes "wf_sdp sdp"
  shows "\<forall>l \<in> set (serialize_lines sdp). sdp_text l \<and> l \<noteq> []"
proof -
  have p: "sdp_text ([c, CHR ''=''] @ v)" if "sdp_text v" "graphic c" for c v
    using that by (intro sdp_text_append) (auto simp: graphic_def octet_of_def)
  have d: "sdp_text (dec n)" for n using word_text [OF dec_word] .
  have c: "sdp_text (format_connection ip)" if "wf_ip ip" for ip
    using that sdp_text_join [of "[''IN'', addrtype_of ip, ip_display ip]"]
    by (simp add: format_connection_def lit_words addrtype_word ip_word)
  have cl: "\<forall>l \<in> set (connection_lines x). sdp_text l \<and> l \<noteq> []" if "pred_option wf_ip x" for x
    using that p [OF c] type_chars by (cases x) (auto simp: connection_lines_def)
  have al: "\<forall>l \<in> set (attr_lines as). sdp_text l \<and> l \<noteq> []" if "list_all wf_attr as" for as
    using that p type_chars by (fastforce simp: attr_lines_def list_all_iff wf_attr_def)
  have ml: "\<forall>l \<in> set (media_lines m). sdp_text l \<and> l \<noteq> []" if w: "wf_media m" for m
  proof -
    have "format_media m = join [SP] ([md_media m, dec (md_port m), md_protocol m] @ md_formats m)"
      by (subst join_concat) (simp_all add: format_media_def)
    then have "sdp_text (format_media m)"
      using w sdp_text_join [of "[md_media m, dec (md_port m), md_protocol m] @ md_formats m"] by (simp add: wf_media_def dec_word)
    then show ?thesis
      using w cl al p [of "format_media m" "CHR ''m''"] type_chars by (simp add: media_lines_def wf_media_def) blast
  qed
  have "sdp_text (format_origin (sd_origin sdp))"
    using assms sdp_text_join [of "[or_username (sd_origin sdp), dec (or_session_id (sd_origin sdp)),
        dec (or_session_version (sd_origin sdp)), ''IN'', addrtype_of (or_address (sd_origin sdp)), ip_display (or_address (sd_origin sdp))]"]
    by (simp add: wf_sdp_def wf_origin_def format_origin_def lit_words addrtype_word ip_word dec_word)
  moreover have "sdp_text (format_timing (sd_timing sdp))"
    using sdp_text_join [of "[dec (ti_start (sd_timing sdp)), dec (ti_stop (sd_timing sdp))]"]
    by (simp add: format_timing_def dec_word)
  ultimately have "\<forall>l \<in> set [''v='' @ dec (sd_version sdp), ''o='' @ format_origin (sd_origin sdp), ''s='' @ sd_session_name sdp].
      sdp_text l \<and> l \<noteq> []" "\<forall>l \<in> set [''t='' @ format_timing (sd_timing sdp)]. sdp_text l \<and> l \<noteq> []"
    using p [OF d [of "sd_version sdp"] type_chars(1)] p [OF _ type_chars(2)] p [OF _ type_chars(3)] p [OF _ type_chars(5)] assms
    by (simp_all add: wf_sdp_def)
  moreover have "\<forall>l \<in> set (concat (map media_lines (sd_media sdp))). sdp_text l \<and> l \<noteq> []"
    using assms ml unfolding wf_sdp_def list_all_iff set_concat set_map by blast
  moreover have "\<forall>l \<in> set (connection_lines (sd_connection sdp)). sdp_text l \<and> l \<noteq> []"
    "\<forall>l \<in> set (attr_lines (sd_attributes sdp)). sdp_text l \<and> l \<noteq> []"
    using assms cl [of "sd_connection sdp"] al [of "sd_attributes sdp"] unfolding wf_sdp_def by blast+
  ultimately show ?thesis unfolding serialize_lines_def set_append ball_Un by (intro conjI)
qed

lemma parse_serialize:
  assumes "wf_sdp sdp"
  shows "sdp_parse (serialize sdp) = Inr sdp"
proof -
  have l: "sdp_lines (serialize sdp) = serialize_lines sdp"
    unfolding serialize_def using format_lines_text [OF assms] by (rule sdp_lines_written)
  have b: "media_block (concat (map media_lines (sd_media sdp)))"
    by (cases "sd_media sdp") (auto simp: media_block_def media_lines_def)
  have m: "parse_media_sections (concat (map media_lines (sd_media sdp))) [] = Inr (sd_media sdp)"
    using assms parse_media_written [of "sd_media sdp" "[]"] by (simp add: wf_sdp_def)
  show ?thesis
    unfolding sdp_parse_def l using assms m
    by (cases "sd_connection sdp")
      (simp_all add: serialize_lines_def split_type_value_line type_chars session_line_def parse_format_origin
        parse_format_timing parse_connection_lines parse_attr_lines parse_block_end [OF b] wf_sdp_def)
qed

section \<open>What is read is well formed\<close>

lemma list6: "(case xs of [a, b, c, d, e, f] \<Rightarrow> g a b c d e f | _ \<Rightarrow> Inl err) = Inr r \<Longrightarrow>
    \<exists>a b c d e f. xs = [a, b, c, d, e, f] \<and> g a b c d e f = Inr r"
  by (auto split: list.splits)

lemma parse_uint_less: "parse_uint w s = Some n \<Longrightarrow> n < 2 ^ w"
  by (auto simp: parse_uint_def Let_def split: if_splits)

lemma parse_origin_wf: "parse_origin v = Inr x \<Longrightarrow> wf_origin x"
proof -
  assume p: "parse_origin v = Inr x"
  from list6 [OF this [unfolded parse_origin_def]] obtain a b c d e f where
    "split_whitespace v = [a, b, c, d, e, f]" by blast
  moreover from this have "is_word a" using split_whitespace_words [of a v] by simp
  ultimately show ?thesis
    using p by (auto simp: parse_origin_def wf_origin_def sdp_parse_ip_wf dest: parse_uint_less split: if_splits)
qed

lemma parse_connection_wf: "parse_connection v = Inr ip \<Longrightarrow> wf_ip ip"
  by (auto simp: parse_connection_def sdp_parse_ip_wf split: list.splits if_splits)

lemma parse_timing_wf: "parse_timing v = Inr t \<Longrightarrow> wf_timing t"
  by (auto simp: parse_timing_def wf_timing_def dest: parse_uint_less split: list.splits)

lemma parse_media_wf: "parse_media v = Inr m \<Longrightarrow> wf_media m"
proof -
  assume p: "parse_media v = Inr m"
  then obtain a b c f fs where w: "split_whitespace v = a # b # c # f # fs"
    by (auto simp: parse_media_def split: list.splits)
  then have "list_all is_word (a # b # c # f # fs)"
    using split_whitespace_words [of _ v] unfolding list_all_iff by metis
  with p w show ?thesis
    by (auto simp: parse_media_def wf_media_def validate_proto_def dest: parse_uint_less split: if_splits)
qed

lemma parse_attribute_wf: "sdp_text v \<Longrightarrow> wf_attr (parse_attribute v) \<and> format_attr (parse_attribute v) = v"
proof (cases "split_once CHR '':'' v")
  case None
  assume t: "sdp_text v"
  from None have "parse_attribute v = Property v" by (simp add: parse_attribute_def)
  with t None show ?thesis by (simp add: wf_attr_def split_once_None)
next
  case (Some p)
  assume t: "sdp_text v"
  obtain a b where p: "p = (a, b)" by fastforce
  with Some have "v = a @ CHR '':'' # b" "CHR '':'' \<notin> set a" by (simp_all add: split_once_Some)
  with t Some p show ?thesis by (simp add: parse_attribute_def wf_attr_def)
qed

definition wf_acc :: "sdp_acc \<Rightarrow> bool" where
  "wf_acc ac \<longleftrightarrow>
     pred_option (\<lambda>n. n < 2 ^ 32) (ac_version ac) \<and> pred_option wf_origin (ac_origin ac)
     \<and> pred_option sdp_text (ac_name ac) \<and> pred_option wf_ip (ac_connection ac)
     \<and> pred_option wf_timing (ac_timing ac) \<and> list_all wf_attr (ac_attributes ac)"

lemma session_line_wf: "session_line ty v ac = Inr ac' \<Longrightarrow> sdp_text v \<Longrightarrow> wf_acc ac \<Longrightarrow> wf_acc ac'"
  using parse_attribute_wf [of v]
  by (auto simp: session_line_def wf_acc_def parse_origin_wf parse_connection_wf parse_timing_wf dest: parse_uint_less
      split: if_splits)

lemma media_line_wf: "media_line ty v m = Inr m' \<Longrightarrow> sdp_text v \<Longrightarrow> wf_media m \<Longrightarrow> wf_media m'"
  using parse_attribute_wf [of v]
  by (auto simp: media_line_def wf_media_def parse_connection_wf split: if_splits)

lemma parse_session_lines_wf:
  "parse_session_lines ls ac = Inr (ac', r) \<Longrightarrow> list_all sdp_text ls \<Longrightarrow> wf_acc ac \<Longrightarrow> wf_acc ac' \<and> list_all sdp_text r"
proof (induction ls arbitrary: ac)
  case (Cons l ls)
  then show ?case
    by (fastforce split: if_splits dest: session_line_wf split_type_value_text)
qed simp

lemma parse_media_lines_wf:
  "parse_media_lines ls m = Inr (m', r) \<Longrightarrow> list_all sdp_text ls \<Longrightarrow> wf_media m \<Longrightarrow> wf_media m' \<and> list_all sdp_text r"
proof (induction ls arbitrary: m)
  case (Cons l ls)
  then show ?case
    by (fastforce split: if_splits dest: media_line_wf split_type_value_text)
qed simp

lemma parse_media_sections_wf:
  "parse_media_sections ls ms = Inr ms' \<Longrightarrow> list_all sdp_text ls \<Longrightarrow> list_all wf_media ms \<Longrightarrow> list_all wf_media ms'"
proof (induction ls ms rule: parse_media_sections.induct)
  case (2 l ls ms)
  from 2(3) obtain ty v where t: "split_type_value l = Inr (ty, v)" by (auto split: sum.splits)
  show ?case
  proof (cases "ty = ''m''")
    case True
    with 2(3) t obtain m m' r where m: "parse_media v = Inr m" "parse_media_lines ls m = Inr (m', r)"
      by (auto split: sum.splits)
    then have "wf_media m' \<and> list_all sdp_text r"
      using 2(4) parse_media_wf parse_media_lines_wf by auto
    moreover have "parse_media_sections r (ms @ [m']) = Inr ms'" using 2(3) t True m by simp
    ultimately show ?thesis using 2(2) [OF t refl _ m(1) m(2) refl] 2(5) True by simp
  next
    case False
    then show ?thesis using 2(1) [OF t refl False] 2(3,4,5) t by simp
  qed
qed simp

lemma sdp_parse_parts:
  assumes "sdp_parse input = Inr sdp"
  shows "\<exists>ac r. parse_session_lines (sdp_lines input) \<lparr>ac_version = None, ac_origin = None, ac_name = None,
      ac_connection = None, ac_timing = None, ac_attributes = []\<rparr> = Inr (ac, r)
    \<and> parse_media_sections r [] = Inr (sd_media sdp) \<and> ac_version ac = Some (sd_version sdp)
    \<and> ac_origin ac = Some (sd_origin sdp) \<and> ac_name ac = Some (sd_session_name sdp) \<and> ac_timing ac = Some (sd_timing sdp)
    \<and> ac_connection ac = sd_connection sdp \<and> ac_attributes ac = sd_attributes sdp"
  using assms by (auto simp: sdp_parse_def)

lemma sdp_parse_wf: "sdp_parse input = Inr sdp \<Longrightarrow> wf_sdp sdp"
proof -
  assume p: "sdp_parse input = Inr sdp"
  from sdp_parse_parts [OF this] obtain ac r where
    a: "parse_session_lines (sdp_lines input) \<lparr>ac_version = None, ac_origin = None, ac_name = None,
      ac_connection = None, ac_timing = None, ac_attributes = []\<rparr> = Inr (ac, r)"
    "parse_media_sections r [] = Inr (sd_media sdp)" "ac_version ac = Some (sd_version sdp)"
    "ac_origin ac = Some (sd_origin sdp)" "ac_name ac = Some (sd_session_name sdp)" "ac_timing ac = Some (sd_timing sdp)"
    "ac_connection ac = sd_connection sdp" "ac_attributes ac = sd_attributes sdp"
    by blast
  have "list_all sdp_text (sdp_lines input)" using sdp_lines_text by (simp add: list_all_iff)
  then have "wf_acc ac \<and> list_all sdp_text r" using parse_session_lines_wf [OF a(1)] by (simp add: wf_acc_def)
  with parse_media_sections_wf [OF a(2)] a show ?thesis by (simp add: wf_acc_def wf_sdp_def)
qed

section \<open>Panics\<close>

lemma type_value_panic: "split_type_value l = Inl SlicePanic \<Longrightarrow> l \<noteq> [] \<and> 0xE0 \<le> octet_of (hd l)"
proof -
  assume a: "split_type_value l = Inl SlicePanic"
  then have l: "l \<noteq> []" "\<not> length (take (snd (utf8_step l)) l) \<le> 2"
    by (auto simp: split_type_value_def first_char_def split: option.splits if_splits)
  have "snd (utf8_step l) \<le> 2" if "octet_of (l ! 0) < 0xE0"
    using that unfolding utf8_step_def Let_def by (cases "utf8_second (octet_of (l ! 0))") simp
  with l show ?thesis by (force simp: hd_conv_nth)
qed

lemma field_no_panic:
  "session_line ty v ac \<noteq> Inl SlicePanic" "media_line ty v m \<noteq> Inl SlicePanic" "parse_media v \<noteq> Inl SlicePanic"
proof -
  have ip: "sdp_parse_ip x y \<noteq> Inl SlicePanic" "check_addrtype y \<noteq> Inl SlicePanic" for x y
    by (auto simp: sdp_parse_ip_def check_addrtype_def split: option.splits)
  have o1: "parse_origin x \<noteq> Inl SlicePanic" for x
    using ip by (auto simp: parse_origin_def res_bind_Inl_iff split: list.splits)
  have c: "parse_connection x \<noteq> Inl SlicePanic" for x
    using ip by (auto simp: parse_connection_def res_bind_Inl_iff split: list.splits)
  have t: "parse_timing x \<noteq> Inl SlicePanic" for x
    by (auto simp: parse_timing_def res_bind_Inl_iff split: list.splits)
  have k: "validate_tokens ts \<noteq> Inl SlicePanic" for ts by (induction ts) auto
  then show "parse_media v \<noteq> Inl SlicePanic"
    by (auto simp: parse_media_def validate_proto_def res_bind_Inl_iff split: list.splits)
  show "session_line ty v ac \<noteq> Inl SlicePanic" using o1 c t by (auto simp: session_line_def res_bind_Inl_iff)
  show "media_line ty v m \<noteq> Inl SlicePanic" using c by (auto simp: media_line_def res_bind_Inl_iff)
qed

definition ascii_line :: "string \<Rightarrow> bool" where
  "ascii_line l \<longleftrightarrow> l = [] \<or> octet_of (hd l) < 0xE0"

lemma ascii_line_no_panic: "ascii_line l \<Longrightarrow> split_type_value l \<noteq> Inl SlicePanic"
  using type_value_panic [of l] by (auto simp: ascii_line_def)

lemma parse_session_lines_panic:
  "list_all ascii_line ls \<Longrightarrow> parse_session_lines ls ac \<noteq> Inl SlicePanic
     \<and> (\<forall>ac' r. parse_session_lines ls ac = Inr (ac', r) \<longrightarrow> list_all ascii_line r)"
proof (induction ls arbitrary: ac)
  case (Cons l ls)
  then show ?case
    using field_no_panic(1) ascii_line_no_panic [of l] by (fastforce simp: res_bind_Inl_iff split: if_splits)
qed simp

lemma parse_media_lines_panic:
  "list_all ascii_line ls \<Longrightarrow> parse_media_lines ls m \<noteq> Inl SlicePanic
     \<and> (\<forall>m' r. parse_media_lines ls m = Inr (m', r) \<longrightarrow> list_all ascii_line r)"
proof (induction ls arbitrary: m)
  case (Cons l ls)
  then show ?case
    using field_no_panic(2) ascii_line_no_panic [of l] by (fastforce simp: res_bind_Inl_iff split: if_splits)
qed simp

lemma parse_media_sections_panic: "list_all ascii_line ls \<Longrightarrow> parse_media_sections ls ms \<noteq> Inl SlicePanic"
proof (induction ls ms rule: parse_media_sections.induct)
  case (2 l ls ms)
  then have l: "split_type_value l \<noteq> Inl SlicePanic" "list_all ascii_line ls" using ascii_line_no_panic by auto
  show ?case
  proof (cases "split_type_value l")
    case (Inr p)
    obtain ty v where p: "p = (ty, v)" by fastforce
    show ?thesis
    proof (cases "ty = ''m''")
      case True
      show ?thesis
      proof (cases "parse_media v")
        case m: (Inr m)
        show ?thesis
        proof (cases "parse_media_lines ls m")
          case q: (Inr q)
          obtain m' r where q': "q = (m', r)" by fastforce
          then have "list_all ascii_line r" using parse_media_lines_panic [OF l(2), of m] q by simp
          then show ?thesis using 2(2) [OF Inr p [symmetric] _ m q q' [symmetric]] Inr p True m q q' by simp
        qed (use Inr p True m parse_media_lines_panic [OF l(2), of m] in auto)
      qed (use Inr p True field_no_panic(3) [of v] in auto)
    next
      case False
      then show ?thesis using 2(1) [OF Inr p [symmetric] False l(2)] Inr p by simp
    qed
  qed (use l in auto)
qed simp

section \<open>Properties\<close>

text \<open>C23. A session description that was read can be written and read again: the parser gives only
  descriptions that the serialiser writes faithfully, whatever order, line ends, unknown
  lines and extra spaces the input had, for IPv4 and IPv6 addresses alike.\<close>

theorem sdp_relay_stable:
  assumes "sdp_parse input = Inr sdp"
  shows "wf_sdp sdp \<and> sdp_parse (serialize sdp) = Inr sdp"
  using sdp_parse_wf [OF assms] parse_serialize by blast

text \<open>A well-formed description is what the parser makes of its text, and two that are
  different never have the same text.\<close>

theorem sdp_print_parse:
  assumes "wf_sdp a"
  shows "sdp_parse (serialize a) = Inr a \<and> (wf_sdp b \<longrightarrow> serialize a = serialize b \<longrightarrow> a = b)"
  using parse_serialize [OF assms] parse_serialize [of b] by (metis Inr_inject)

definition sdp_ex :: session_description where
  "sdp_ex = \<lparr>sd_version = 0,
     sd_origin = \<lparr>or_username = ''-'', or_session_id = 7, or_session_version = 7, or_address = V6 [0x2001, 0, 0, 0, 0, 0, 0, 1]\<rparr>,
     sd_session_name = ''-'', sd_connection = Some (V4 192 0 2 1), sd_timing = \<lparr>ti_start = 0, ti_stop = 0\<rparr>,
     sd_attributes = [],
     sd_media = [\<lparr>md_media = ''audio'', md_port = 30000, md_protocol = ''RTP/AVP'', md_formats = [''0''], md_connection = None,
       md_attributes = [Attr ''rtpmap'' ''0 PCMU/8000'', Property ''sendrecv'']\<rparr>]\<rparr>"

lemma wf_sdp_ex: "wf_sdp sdp_ex"
proof -
  have w: "is_word ''-''" "is_word ''audio''" "is_word ''RTP/AVP''" "is_word ''0''"
    by (intro graphic_word; simp add: graphic_def octet_of_def)+
  have p: "validate_proto ''RTP/AVP'' = Inr ''RTP/AVP''"
    by (simp add: validate_proto_def is_rfc4566_token_char_def octet_of_def)
  have a: "wf_attr (Attr ''rtpmap'' ''0 PCMU/8000'')" "wf_attr (Property ''sendrecv'')" "sdp_text ''-''"
    by (simp_all add: wf_attr_def sdp_text_def)
  have "wf_origin (sd_origin sdp_ex)" "wf_timing (sd_timing sdp_ex)"
    using w by (simp_all add: sdp_ex_def wf_origin_def wf_timing_def)
  moreover have "list_all wf_media (sd_media sdp_ex)"
    using w p a by (simp add: sdp_ex_def wf_media_def)
  ultimately show ?thesis
    using a unfolding wf_sdp_def by (simp add: sdp_ex_def)
qed

theorem sdp_relay_stable_witness: "sdp_parse (serialize sdp_ex) = Inr sdp_ex"
  using sdp_relay_stable [OF parse_serialize [OF wf_sdp_ex]] by simp

theorem sdp_print_parse_witness: "sdp_parse (serialize sdp_ex) = Inr sdp_ex"
  using sdp_print_parse [OF wf_sdp_ex] by simp

text \<open>C40. The parser panics only on a line that starts with a character of three or four octets,
  and it does panic there: the line with the letter U+3042 before the equals sign
  ends the program instead of being an error.\<close>

theorem sdp_panic_exact:
  "(list_all ascii_line (sdp_lines input) \<longrightarrow> sdp_parse input \<noteq> Inl SlicePanic)
   \<and> sdp_parse [CHR 0xE3, CHR 0x81, CHR 0x82, CHR ''='', CHR ''x''] = Inl SlicePanic"
proof -
  let ?ac = "\<lparr>ac_version = None, ac_origin = None, ac_name = None, ac_connection = None, ac_timing = None, ac_attributes = []\<rparr>"
  have "sdp_parse input \<noteq> Inl SlicePanic" if a: "list_all ascii_line (sdp_lines input)"
    using parse_session_lines_panic [OF a, of ?ac] parse_media_sections_panic
    by (auto simp: sdp_parse_def res_bind_Inl_iff)
  moreover have "sdp_lines [CHR 0xE3, CHR 0x81, CHR 0x82, CHR ''='', CHR ''x''] = [[CHR 0xE3, CHR 0x81, CHR 0x82, CHR ''='', CHR ''x'']]"
    by (simp add: sdp_lines_def trim_crs_def)
  moreover have "split_type_value [CHR 0xE3, CHR 0x81, CHR 0x82, CHR ''='', CHR ''x''] = Inl SlicePanic"
    by (simp add: split_type_value_def first_char_def utf8_step_def utf8_second_def octet_in_def octet_of_def Let_def)
  ultimately show ?thesis by (simp add: sdp_parse_def)
qed

theorem sdp_panic_exact_witness: "sdp_parse ''v=0'' \<noteq> Inl SlicePanic"
  using sdp_panic_exact [of "''v=0''"] by (simp add: sdp_lines_def trim_crs_def ascii_line_def octet_of_def)

end
