(* ===== verification/Sdp_Bytes.thy ===== *)
theory Sdp_Bytes
  imports Sdp
begin

text \<open>
  Descriptions as the bodies of messages: every transformation of \<^verbatim>\<open>sdp/builder.rs\<close> and
  \<^verbatim>\<open>sdp/negotiation.rs\<close> decodes the octets of a body, parses them, changes the
  description and writes it again. This theory holds that frame: the reading with its
  errors, the two ways the code treats an unreadable body (an error, or the body as it was),
  the first audio section, and the interface \<open>sdp_transform\<close> of a change that keeps
  descriptions well formed, through which every transformation can be read back.
\<close>

section \<open>Definitions\<close>

definition read_sdp :: "string \<Rightarrow> sdp_error + session_description" where
  "read_sdp sdp_bytes = (if valid_utf8 sdp_bytes then sdp_parse sdp_bytes else Inl SdpNotUtf8)"

text \<open>The functions that return their input when it cannot be read; a panic of the parser is
  not caught.\<close>

definition best_effort :: "(session_description \<Rightarrow> string) \<Rightarrow> string \<Rightarrow> sdp_error + string" where
  "best_effort f sdp_bytes =
     (case read_sdp sdp_bytes of
        Inl e \<Rightarrow> if e = SlicePanic then Inl SlicePanic else Inr sdp_bytes
      | Inr sdp \<Rightarrow> Inr (f sdp))"

definition is_audio :: "media_description \<Rightarrow> bool" where
  "is_audio m \<longleftrightarrow> md_media m = ''audio''"

definition find_audio :: "session_description \<Rightarrow> media_description option" where
  "find_audio sdp = find is_audio (sd_media sdp)"

definition on_audio :: "(media_description \<Rightarrow> media_description) \<Rightarrow> session_description \<Rightarrow> session_description" where
  "on_audio f sdp = sdp\<lparr>sd_media := on_first is_audio f (sd_media sdp)\<rparr>"

definition retain_attrs :: "(sdp_attribute \<Rightarrow> bool) \<Rightarrow> media_description \<Rightarrow> media_description" where
  "retain_attrs P m = m\<lparr>md_attributes := filter P (md_attributes m)\<rparr>"

definition push_attrs :: "sdp_attribute list \<Rightarrow> media_description \<Rightarrow> media_description" where
  "push_attrs as m = m\<lparr>md_attributes := md_attributes m @ as\<rparr>"

definition is_value :: "string \<Rightarrow> sdp_attribute \<Rightarrow> bool" where
  "is_value k a = (case a of Attr k' _ \<Rightarrow> k' = k | Property _ \<Rightarrow> False)"

section \<open>UTF-8\<close>

lemma valid_utf8_split_char:
  "valid_utf8 s \<Longrightarrow> octet_of d < 0x80 \<Longrightarrow> l \<in> set (split_char d s) \<Longrightarrow> valid_utf8 l"
proof (induction "length s" arbitrary: s rule: less_induct)
  case less
  show ?case
  proof (cases "d \<in> set s")
    case True
    then obtain a b where s: "s = a @ d # b" "d \<notin> set a" by (metis split_list_first)
    then have "valid_utf8 a" "valid_utf8 b" "l = a \<or> l \<in> set (split_char d b)"
      using less.prems by (auto simp: split_char_append valid_utf8_split_ascii)
    then show ?thesis using less.hyps [of b] less.prems(2) s by auto
  qed (use less in \<open>simp add: split_char_none\<close>)
qed

lemma valid_utf8_trim_crs: "valid_utf8 l \<Longrightarrow> valid_utf8 (trim_crs l)"
proof (induction l rule: rev_induct)
  case (snoc c l)
  show ?case
  proof (cases "c = CR")
    case True
    then have "valid_utf8 l" using snoc.prems valid_utf8_split_ascii [of c l "[]"] by (simp add: octet_of_def)
    with snoc True show ?thesis by (simp add: trim_crs_CR)
  qed (use snoc in \<open>simp add: trim_crs_id\<close>)
qed (simp add: trim_crs_def)

lemma sdp_lines_utf8: "valid_utf8 input \<Longrightarrow> l \<in> set (sdp_lines input) \<Longrightarrow> valid_utf8 l"
  using valid_utf8_split_char [of input LF] by (auto simp: sdp_lines_def octet_of_def intro!: valid_utf8_trim_crs)

lemma take_word_rest: "s = take_word s @ r \<Longrightarrow> r = [] \<or> ws_at r \<noteq> 0"
proof (induction s arbitrary: r)
  case (Cons c s)
  then show ?case by (cases "ws_at (c # s) = 0") auto
qed simp

lemma ws_start: "ws_at r \<noteq> 0 \<Longrightarrow> \<exists>c t. r = c # t \<and> \<not> is_cont c"
  by (cases r) (auto simp: ws_at_def ws1_def ws2_def ws3_def is_cont_def split: list.splits if_splits)

lemma take_word_utf8:
  assumes "valid_utf8 s"
  shows "valid_utf8 (take_word s) \<and> valid_utf8 (drop (length (take_word s)) s)"
proof -
  obtain r where r: "s = take_word s @ r" using take_word_prefix by blast
  then consider "r = []" | c t where "r = c # t" "\<not> is_cont c" using take_word_rest ws_start by blast
  then have "valid_utf8 (take_word s) \<and> valid_utf8 r"
  proof cases
    case 2
    then show ?thesis using valid_utf8_cut [of "take_word s" c t] assms r by simp
  qed (use r assms in auto)
  moreover have "drop (length (take_word s)) s = r" using r by (metis append_eq_conv_conj)
  ultimately show ?thesis by simp
qed

lemma split_whitespace_utf8: "valid_utf8 s \<Longrightarrow> w \<in> set (split_whitespace s) \<Longrightarrow> valid_utf8 w"
proof (induction s rule: split_whitespace.induct)
  case (1 s)
  let ?t = "trim_start s"
  have t: "valid_utf8 (take_word ?t)" "valid_utf8 (drop (length (take_word ?t)) ?t)"
    using take_word_utf8 valid_utf8_trim_start 1(2) by blast+
  show ?case
  proof (cases "take_word ?t = []")
    case True
    then show ?thesis using 1(3) by (simp add: split_whitespace.simps [of s])
  next
    case False
    then have "w = take_word ?t \<or> w \<in> set (split_whitespace (drop (length (take_word ?t)) ?t))"
      using 1(3) by (simp add: split_whitespace.simps [of s] Let_def)
    then show ?thesis using 1(1) [OF refl refl False t(2)] t(1) by blast
  qed
qed

lemma split_type_value_utf8: "split_type_value l = Inr (ty, v) \<Longrightarrow> valid_utf8 l \<Longrightarrow> valid_utf8 v"
proof -
  assume a: "split_type_value l = Inr (ty, v)" "valid_utf8 l"
  then have l: "l \<noteq> []" by (auto simp: split_type_value_def first_char_def)
  with a obtain n where n: "utf8_step l = (True, n)" "valid_utf8 (drop n l)" using valid_utf8D by blast
  from a l have ty: "ty = take n l" "length ty \<le> 2" "v = drop 2 l"
    and eq: "first_char (drop (length ty) l) = Some ''=''"
    using n(1) by (auto simp: split_type_value_def first_char_def split: option.splits if_splits)
  obtain x xs where x: "drop (length ty) l = x # xs" using eq by (cases "drop (length ty) l") (auto simp: first_char_def)
  with eq obtain r where r: "drop (length ty) l = CHR ''='' # r"
    by (cases "snd (utf8_step (x # xs))") (auto simp: first_char_def)
  have "length ty < length l" using r by (metis drop_eq_Nil leI list.distinct(1))
  then have "length ty = n" using ty by simp
  with r n(2) have "valid_utf8 (CHR ''='' # r)" by simp
  moreover from this have "valid_utf8 r" by (simp add: valid_utf8_ascii octet_of_def)
  moreover have "0 < n" using n(1) utf8_step_pos [of l] by simp
  ultimately show ?thesis using r ty \<open>length ty = n\<close>
    by (cases "n = 1") (auto simp: numeral_2_eq_2 drop_Suc tl_drop le_Suc_eq)
qed

section \<open>Readable descriptions\<close>

definition good_attr :: "sdp_attribute \<Rightarrow> bool" where
  "good_attr a \<longleftrightarrow> wf_attr a \<and> valid_utf8 (format_attr a)"

definition good_media :: "media_description \<Rightarrow> bool" where
  "good_media m \<longleftrightarrow>
     wf_media m \<and> valid_utf8 (md_media m) \<and> valid_utf8 (md_protocol m) \<and> list_all valid_utf8 (md_formats m)
     \<and> list_all good_attr (md_attributes m)"

definition good_sdp :: "session_description \<Rightarrow> bool" where
  "good_sdp s \<longleftrightarrow>
     wf_sdp s \<and> valid_utf8 (or_username (sd_origin s)) \<and> valid_utf8 (sd_session_name s)
     \<and> list_all good_attr (sd_attributes s) \<and> list_all good_media (sd_media s)"

lemma parse_attribute_good: "valid_utf8 v \<Longrightarrow> sdp_text v \<Longrightarrow> good_attr (parse_attribute v)"
  using parse_attribute_wf [of v] by (simp add: good_attr_def)

lemma parse_media_good: "parse_media v = Inr m \<Longrightarrow> valid_utf8 v \<Longrightarrow> good_media m"
proof -
  assume a: "parse_media v = Inr m" "valid_utf8 v"
  have w: "list_all valid_utf8 (split_whitespace v)" using split_whitespace_utf8 a(2) by (auto simp: list_all_iff)
  obtain media port proto f fs where s: "split_whitespace v = media # port # proto # f # fs"
    and "md_media m = media \<and> md_protocol m = proto \<and> md_formats m = f # fs \<and> md_attributes m = []"
    using a(1) unfolding parse_media_def validate_proto_def by (auto split: list.splits if_splits)
  with w parse_media_wf [OF a(1)] show ?thesis by (simp add: good_media_def)
qed

definition good_line :: "string \<Rightarrow> bool" where
  "good_line l \<longleftrightarrow> sdp_text l \<and> valid_utf8 l"

lemma type_value_good: "split_type_value l = Inr (ty, v) \<Longrightarrow> good_line l \<Longrightarrow> good_line v"
  using split_type_value_text split_type_value_utf8 by (auto simp: good_line_def)

definition good_acc :: "sdp_acc \<Rightarrow> bool" where
  "good_acc ac \<longleftrightarrow>
     wf_acc ac \<and> pred_option (\<lambda>x. valid_utf8 (or_username x)) (ac_origin ac) \<and> pred_option valid_utf8 (ac_name ac)
     \<and> list_all good_attr (ac_attributes ac)"

lemma parse_origin_utf8: "parse_origin v = Inr x \<Longrightarrow> valid_utf8 v \<Longrightarrow> valid_utf8 (or_username x)"
proof -
  assume a: "parse_origin v = Inr x" "valid_utf8 v"
  from list6 [OF a(1) [unfolded parse_origin_def]] obtain u b c d e f where
    "split_whitespace v = [u, b, c, d, e, f]" by blast
  then show ?thesis using a(1) split_whitespace_utf8 [OF a(2), of u] by (auto simp: parse_origin_def split: if_splits)
qed

lemma session_line_good:
  assumes "session_line ty v ac = Inr ac'" "good_line v" "good_acc ac"
  shows "good_acc ac'"
proof -
  have "wf_acc ac'" using session_line_wf assms by (simp add: good_line_def good_acc_def)
  moreover have "pred_option (\<lambda>x. valid_utf8 (or_username x)) (ac_origin ac') \<and> pred_option valid_utf8 (ac_name ac')
     \<and> list_all good_attr (ac_attributes ac')"
    using assms by (auto simp: session_line_def good_acc_def good_line_def parse_origin_utf8 parse_attribute_good split: if_splits)
  ultimately show ?thesis by (simp add: good_acc_def)
qed

lemma media_line_good:
  assumes "media_line ty v m = Inr m'" "good_line v" "good_media m"
  shows "good_media m'"
proof -
  have "wf_media m'" using media_line_wf assms by (simp add: good_line_def good_media_def)
  then show ?thesis
    using assms by (auto simp: media_line_def good_media_def good_line_def parse_attribute_good split: if_splits)
qed

lemma parse_session_lines_good:
  "parse_session_lines ls ac = Inr (ac', r) \<Longrightarrow> list_all good_line ls \<Longrightarrow> good_acc ac \<Longrightarrow> good_acc ac' \<and> list_all good_line r"
proof (induction ls arbitrary: ac)
  case (Cons l ls)
  from Cons.prems(1) obtain ty v where tv: "split_type_value l = Inr (ty, v)" by auto
  then have v: "good_line v" using type_value_good Cons.prems(2) by simp
  show ?case
  proof (cases "ty = ''m''")
    case False
    then obtain ac1 where "session_line ty v ac = Inr ac1" "parse_session_lines ls ac1 = Inr (ac', r)"
      using Cons.prems(1) tv by auto
    then show ?thesis using Cons.IH Cons.prems(2,3) session_line_good v by simp
  qed (use Cons.prems tv in auto)
qed simp

lemma parse_media_lines_good:
  "parse_media_lines ls m = Inr (m', r) \<Longrightarrow> list_all good_line ls \<Longrightarrow> good_media m \<Longrightarrow> good_media m' \<and> list_all good_line r"
proof (induction ls arbitrary: m)
  case (Cons l ls)
  from Cons.prems(1) obtain ty v where tv: "split_type_value l = Inr (ty, v)" by auto
  then have v: "good_line v" using type_value_good Cons.prems(2) by simp
  show ?case
  proof (cases "ty = ''m''")
    case False
    then obtain m1 where "media_line ty v m = Inr m1" "parse_media_lines ls m1 = Inr (m', r)"
      using Cons.prems(1) tv by auto
    then show ?thesis using Cons.IH Cons.prems(2,3) media_line_good v by simp
  qed (use Cons.prems tv in auto)
qed simp

lemma parse_media_sections_good:
  "parse_media_sections ls ms = Inr ms' \<Longrightarrow> list_all good_line ls \<Longrightarrow> list_all good_media ms \<Longrightarrow> list_all good_media ms'"
proof (induction ls ms rule: parse_media_sections.induct)
  case (2 l ls ms)
  from 2(3) obtain ty v where tv: "split_type_value l = Inr (ty, v)" by (cases "split_type_value l") auto
  then have v: "good_line v" using type_value_good 2(4) by simp
  show ?case
  proof (cases "ty = ''m''")
    case True
    with 2(3) tv obtain m m1 r where m: "parse_media v = Inr m" "parse_media_lines ls m = Inr (m1, r)"
      "parse_media_sections r (ms @ [m1]) = Inr ms'"
      by (auto split: sum.splits)
    then have "good_media m1 \<and> list_all good_line r"
      using parse_media_lines_good [OF m(2)] parse_media_good [OF m(1)] v 2(4) by (simp add: good_line_def [of v])
    then show ?thesis using 2(2) [OF tv refl _ m(1) m(2) refl m(3)] True 2(5) by simp
  qed (use 2(1) [OF tv refl] 2(3,4,5) tv in auto)
qed simp

lemma read_sdp_good: "read_sdp b = Inr sdp \<Longrightarrow> good_sdp sdp"
proof -
  assume r: "read_sdp b = Inr sdp"
  from r have v: "valid_utf8 b" and p: "sdp_parse b = Inr sdp" by (simp_all add: read_sdp_def split: if_splits)
  from sdp_parse_parts [OF p] obtain ac r where
    a: "parse_session_lines (sdp_lines b) \<lparr>ac_version = None, ac_origin = None, ac_name = None,
      ac_connection = None, ac_timing = None, ac_attributes = []\<rparr> = Inr (ac, r)"
    "parse_media_sections r [] = Inr (sd_media sdp)" "ac_origin ac = Some (sd_origin sdp)"
    "ac_name ac = Some (sd_session_name sdp)" "ac_attributes ac = sd_attributes sdp"
    by blast
  have "list_all good_line (sdp_lines b)" using sdp_lines_text sdp_lines_utf8 [OF v] unfolding list_all_iff good_line_def by blast
  then have "good_acc ac \<and> list_all good_line r"
    using parse_session_lines_good [OF a(1)] by (simp add: good_acc_def wf_acc_def)
  with parse_media_sections_good [OF a(2)] a sdp_parse_wf [OF p] show ?thesis by (simp add: good_acc_def good_sdp_def)
qed

lemma dec_utf8: "valid_utf8 (dec n)"
  by (rule graphic_valid_utf8 [OF dec_graphic])

lemma ip_utf8: "valid_utf8 (ip_display ip)" "valid_utf8 (addrtype_of ip)"
  using graphic_valid_utf8 [OF ip_graphic(1)] by (simp, cases ip) (simp_all add: valid_utf8_ascii octet_of_def)

lemma valid_utf8_concat: "list_all valid_utf8 xs \<Longrightarrow> valid_utf8 (concat xs)"
  by (induction xs) (simp_all add: valid_utf8_append)

lemma attr_lines_utf8: "list_all good_attr as \<Longrightarrow> list_all valid_utf8 (attr_lines as)"
  by (induction as) (simp_all add: attr_lines_def good_attr_def valid_utf8_ascii octet_of_def)

lemma connection_lines_utf8: "pred_option wf_ip c \<Longrightarrow> list_all valid_utf8 (connection_lines c)"
  by (cases c) (simp_all add: connection_lines_def format_connection_def valid_utf8_ascii octet_of_def valid_utf8_append ip_utf8)

lemma media_lines_utf8: "good_media m \<Longrightarrow> list_all valid_utf8 (media_lines m)"
proof -
  assume g: "good_media m"
  then have "list_all valid_utf8 (map (\<lambda>f. SP # f) (md_formats m))"
    by (auto simp: good_media_def list_all_iff valid_utf8_ascii octet_of_def)
  then have "valid_utf8 (format_media m)"
    using g unfolding format_media_def
    by (intro valid_utf8_append valid_utf8_concat) (simp_all add: good_media_def dec_utf8 valid_utf8_ascii octet_of_def)
  then show ?thesis
    using g attr_lines_utf8 connection_lines_utf8
    by (simp add: media_lines_def good_media_def wf_media_def valid_utf8_ascii octet_of_def)
qed

lemma serialize_utf8: "good_sdp s \<Longrightarrow> valid_utf8 (serialize s)"
proof -
  assume g: "good_sdp s"
  have "valid_utf8 (format_origin (sd_origin s))"
    unfolding format_origin_def using g
    by (intro valid_utf8_append) (simp_all add: good_sdp_def wf_sdp_def wf_origin_def dec_utf8 ip_utf8 valid_utf8_ascii octet_of_def)
  moreover have "valid_utf8 (format_timing (sd_timing s))"
    unfolding format_timing_def by (intro valid_utf8_append) (simp_all add: dec_utf8 valid_utf8_ascii octet_of_def)
  moreover have "list_all valid_utf8 (concat (map media_lines (sd_media s)))"
    using g media_lines_utf8 unfolding good_sdp_def list_all_iff by auto
  ultimately have "list_all valid_utf8 (serialize_lines s)"
    using g attr_lines_utf8 connection_lines_utf8
    by (simp add: serialize_lines_def good_sdp_def wf_sdp_def dec_utf8 valid_utf8_ascii octet_of_def)
  then have "list_all valid_utf8 (map (\<lambda>l. l @ crlf) (serialize_lines s))"
    by (auto simp: list_all_iff valid_utf8_ascii octet_of_def intro!: valid_utf8_append)
  then show ?thesis unfolding serialize_def by (rule valid_utf8_concat)
qed

lemma read_serialize: "good_sdp s \<Longrightarrow> read_sdp (serialize s) = Inr s"
  using serialize_utf8 parse_serialize by (simp add: read_sdp_def good_sdp_def)

section \<open>Interface of a transformation\<close>

text \<open>A change of descriptions that keeps them readable: what it wrote is read back as what it
  computed. Two such changes can be put one after the other on the bytes.\<close>

locale sdp_transform =
  fixes tr :: "session_description \<Rightarrow> session_description"
  assumes tr_good: "good_sdp s \<Longrightarrow> good_sdp (tr s)"
begin

lemma read_transformed: "read_sdp b = Inr s \<Longrightarrow> read_sdp (serialize (tr s)) = Inr (tr s)"
  using read_sdp_good tr_good read_serialize by blast

lemma then_best_effort:
  "read_sdp b = Inr s \<Longrightarrow> best_effort f (serialize (tr s)) = Inr (f (tr s))"
  using read_transformed by (simp add: best_effort_def)

end

text \<open>A change that does nothing the second time.\<close>

locale stable_transform = sdp_transform +
  assumes tr_idem: "good_sdp s \<Longrightarrow> tr (tr s) = tr s"
begin

lemma best_effort_idem:
  assumes "best_effort (\<lambda>s. serialize (tr s)) b = Inr b'"
  shows "best_effort (\<lambda>s. serialize (tr s)) b' = Inr b'"
proof (cases "read_sdp b")
  case (Inl e)
  with assms show ?thesis by (auto simp: best_effort_def split: if_splits)
next
  case (Inr s)
  with assms have "b' = serialize (tr s)" by (simp add: best_effort_def)
  then show ?thesis using then_best_effort [OF Inr] tr_idem [OF read_sdp_good [OF Inr]] by simp
qed

end

section \<open>The first audio section\<close>

lemma on_audio_good: "good_sdp s \<Longrightarrow> (\<And>m. good_media m \<Longrightarrow> is_audio m \<Longrightarrow> good_media (f m)) \<Longrightarrow> good_sdp (on_audio f s)"
proof -
  assume g: "good_sdp s" and f: "\<And>m. good_media m \<Longrightarrow> is_audio m \<Longrightarrow> good_media (f m)"
  then have m: "list_all good_media (sd_media (on_audio f s))"
    using on_first_all [of good_media "sd_media s" is_audio f] by (simp add: on_audio_def good_sdp_def)
  then have "list_all wf_media (sd_media (on_audio f s))" by (simp add: good_media_def list_all_iff)
  with g m show ?thesis by (simp add: good_sdp_def wf_sdp_def on_audio_def)
qed

lemma on_audio_simps [simp]:
  "sd_version (on_audio f s) = sd_version s" "sd_origin (on_audio f s) = sd_origin s"
  "sd_session_name (on_audio f s) = sd_session_name s" "sd_connection (on_audio f s) = sd_connection s"
  "sd_timing (on_audio f s) = sd_timing s" "sd_attributes (on_audio f s) = sd_attributes s"
  by (simp_all add: on_audio_def)

lemma find_on_audio: "(\<And>m. md_media (f m) = md_media m) \<Longrightarrow> find_audio (on_audio f s) = map_option f (find_audio s)"
  unfolding find_audio_def on_audio_def by (simp add: find_on_first is_audio_def)

lemma on_audio_comp: "(\<And>m. md_media (f m) = md_media m) \<Longrightarrow> on_audio g (on_audio f s) = on_audio (g \<circ> f) s"
  unfolding on_audio_def using on_first_comp [of is_audio f g] by (simp add: is_audio_def)

lemma retain_attrs_good: "good_media m \<Longrightarrow> good_media (retain_attrs P m)"
  by (auto simp: good_media_def wf_media_def retain_attrs_def list_all_iff)

lemma push_attrs_good: "good_media m \<Longrightarrow> list_all good_attr as \<Longrightarrow> good_media (push_attrs as m)"
  by (auto simp: good_media_def wf_media_def push_attrs_def list_all_iff good_attr_def)

lemma attrs_simps [simp]:
  "md_media (retain_attrs P m) = md_media m" "md_port (retain_attrs P m) = md_port m"
  "md_protocol (retain_attrs P m) = md_protocol m" "md_formats (retain_attrs P m) = md_formats m"
  "md_connection (retain_attrs P m) = md_connection m" "md_attributes (retain_attrs P m) = filter P (md_attributes m)"
  "md_media (push_attrs as m) = md_media m" "md_port (push_attrs as m) = md_port m"
  "md_protocol (push_attrs as m) = md_protocol m" "md_formats (push_attrs as m) = md_formats m"
  "md_connection (push_attrs as m) = md_connection m" "md_attributes (push_attrs as m) = md_attributes m @ as"
  by (simp_all add: retain_attrs_def push_attrs_def)

lemma graphic_text: "list_all graphic v \<Longrightarrow> sdp_text v"
proof -
  assume v: "list_all graphic v"
  have "\<not> graphic LF" "\<not> graphic CR" by (simp_all add: graphic_def octet_of_def)
  then show ?thesis using v last_in_set [of v] unfolding sdp_text_def list_all_iff by metis
qed

lemma sdp_ex_audio: "find_audio sdp_ex = Some (hd (sd_media sdp_ex))"
  by (simp add: find_audio_def sdp_ex_def is_audio_def)

lemma good_sdp_ex: "good_sdp sdp_ex"
proof -
  have w: "wf_sdp sdp_ex" "list_all wf_media (sd_media sdp_ex)" using wf_sdp_ex by (simp_all add: wf_sdp_def)
  then have a: "list_all wf_attr (md_attributes (hd (sd_media sdp_ex)))" by (simp add: sdp_ex_def wf_media_def)
  have "list_all good_media (sd_media sdp_ex)"
    using w(2) a by (simp add: sdp_ex_def good_media_def good_attr_def valid_utf8_ascii octet_of_def)
  with w(1) show ?thesis unfolding good_sdp_def by (simp add: sdp_ex_def valid_utf8_ascii octet_of_def)
qed

end
