(* ===== verification/Sdp_Negotiation.thy ===== *)
theory Sdp_Negotiation
  imports Sdp_Bytes
begin

text \<open>
  The negotiator (\<^verbatim>\<open>sdp/negotiation.rs\<close>): the restriction of an audio section to the codecs
  the carrier accepts, the removal of the attributes of WebRTC, the attributes the carrier
  needs, and the direction of a call on hold. A port is a number below \<open>2 ^ 16\<close>.

  A negotiator whose codecs fit together is a stable transformation of descriptions; the
  interface \<open>codec_policy\<close> says what that needs, and both negotiators of the program
  provide it.
\<close>

section \<open>Definitions\<close>

record allowed_codec =
  al_payload_type :: nat
  al_rtpmap_value :: string
  al_fmtp_value :: "string option"
  al_required_rate_marker :: "string option"

definition PCMU :: allowed_codec where
  "PCMU = \<lparr>al_payload_type = 0, al_rtpmap_value = ''0 PCMU/8000'', al_fmtp_value = None,
     al_required_rate_marker = Some ''/8000''\<rparr>"

definition DTMF_PAYLOAD_TYPE :: nat where
  "DTMF_PAYLOAD_TYPE = 101"

definition TELEPHONE_EVENT :: allowed_codec where
  "TELEPHONE_EVENT = \<lparr>al_payload_type = DTMF_PAYLOAD_TYPE, al_rtpmap_value = ''101 telephone-event/8000'',
     al_fmtp_value = Some ''101 0-15'', al_required_rate_marker = Some ''/8000''\<rparr>"

record negotiator =
  ng_allowed_audio :: "allowed_codec list"
  ng_strip_webrtc_attrs :: bool
  ng_normalize_for_ngn :: bool

definition for_ngn :: negotiator where
  "for_ngn = \<lparr>ng_allowed_audio = [PCMU], ng_strip_webrtc_attrs = True, ng_normalize_for_ngn = True\<rparr>"

definition for_ngn_with_dtmf :: negotiator where
  "for_ngn_with_dtmf =
     \<lparr>ng_allowed_audio = [PCMU, TELEPHONE_EVENT], ng_strip_webrtc_attrs = True, ng_normalize_for_ngn = True\<rparr>"

definition webrtc_values :: "string list" where
  "webrtc_values =
     [''rtcp-fb'', ''rtcp-xr'', ''fingerprint'', ''setup'', ''ice-ufrag'', ''ice-pwd'', ''ice-options'', ''ice-mismatch'',
      ''candidate'', ''msid'', ''mid'', ''ssrc'', ''ssrc-group'', ''extmap'', ''rtcp-mux'', ''record'']"

definition webrtc_properties :: "string list" where
  "webrtc_properties =
     [''rtcp-mux'', ''ice-lite'', ''rtcp-rsize'', ''extmap-allow-mixed'', ''end-of-candidates'', ''bundle-only'']"

fun is_unsupported_by_ngn :: "sdp_attribute \<Rightarrow> bool" where
  "is_unsupported_by_ngn (Attr k _) \<longleftrightarrow> k \<in> set webrtc_values"
| "is_unsupported_by_ngn (Property p) \<longleftrightarrow> p \<in> set webrtc_properties"

definition pt_of_rtpmap_or_fmtp :: "string \<Rightarrow> nat option" where
  "pt_of_rtpmap_or_fmtp v = (case split_whitespace v of [] \<Rightarrow> None | p # _ \<Rightarrow> parse_uint 8 p)"

definition keep_attr :: "negotiator \<Rightarrow> sdp_attribute \<Rightarrow> bool" where
  "keep_attr ng a =
     (if ng_strip_webrtc_attrs ng \<and> is_unsupported_by_ngn a then False
      else case a of
        Property _ \<Rightarrow> True
      | Attr k v \<Rightarrow>
          if k = ''rtpmap'' then
            (case pt_of_rtpmap_or_fmtp v of
               None \<Rightarrow> False
             | Some pt \<Rightarrow>
                 (case find (\<lambda>c. al_payload_type c = pt) (ng_allowed_audio ng) of
                    None \<Rightarrow> False
                  | Some codec \<Rightarrow>
                      (case al_required_rate_marker codec of
                         Some mk \<Rightarrow> find_str mk v \<noteq> None
                       | None \<Rightarrow> True)))
          else if k = ''fmtp'' then
            (case pt_of_rtpmap_or_fmtp v of
               None \<Rightarrow> False
             | Some pt \<Rightarrow> pt \<in> set (map al_payload_type (ng_allowed_audio ng)))
          else True)"

definition has_pt :: "string \<Rightarrow> nat \<Rightarrow> sdp_attribute list \<Rightarrow> bool" where
  "has_pt key pt as = list_ex (\<lambda>a. case a of Attr k v \<Rightarrow> k = key \<and> pt_of_rtpmap_or_fmtp v = Some pt | Property _ \<Rightarrow> False) as"

text \<open>One turn of the loop that adds what is missing.\<close>

definition complete_codec :: "nat \<Rightarrow> allowed_codec \<Rightarrow> sdp_attribute list \<Rightarrow> sdp_attribute list" where
  "complete_codec idx codec as =
     (let as1 =
        (if has_pt ''rtpmap'' (al_payload_type codec) as then as
         else if idx = 0 then Attr ''rtpmap'' (al_rtpmap_value codec) # as
         else as @ [Attr ''rtpmap'' (al_rtpmap_value codec)])
      in case al_fmtp_value codec of
           None \<Rightarrow> as1
         | Some f \<Rightarrow> if has_pt ''fmtp'' (al_payload_type codec) as1 then as1 else as1 @ [Attr ''fmtp'' f])"

primrec complete_codecs :: "nat \<Rightarrow> allowed_codec list \<Rightarrow> sdp_attribute list \<Rightarrow> sdp_attribute list" where
  "complete_codecs idx [] as = as"
| "complete_codecs idx (c # cs) as = complete_codecs (Suc idx) cs (complete_codec idx c as)"

definition apply_codec_subset :: "negotiator \<Rightarrow> media_description \<Rightarrow> media_description" where
  "apply_codec_subset ng audio =
     audio\<lparr>md_formats := map (\<lambda>c. dec (al_payload_type c)) (ng_allowed_audio ng),
       md_attributes := complete_codecs 0 (ng_allowed_audio ng) (filter (keep_attr ng) (md_attributes audio))\<rparr>"

definition ensure_ptime :: "media_description \<Rightarrow> media_description" where
  "ensure_ptime audio =
     (if list_ex (is_value ''ptime'') (md_attributes audio) then audio else push_attrs [Attr ''ptime'' ''20''] audio)"

definition ensure_a_rtcp :: "media_description \<Rightarrow> media_description" where
  "ensure_a_rtcp audio =
     (if list_ex (is_value ''rtcp'') (md_attributes audio) then audio
      else push_attrs [Attr ''rtcp'' (dec (min (md_port audio + 1) 65535))] audio)"

definition negotiate_audio :: "negotiator \<Rightarrow> media_description \<Rightarrow> media_description" where
  "negotiate_audio ng audio =
     (let m = apply_codec_subset ng audio
      in if ng_normalize_for_ngn ng then ensure_a_rtcp (ensure_ptime m) else m)"

definition negotiate :: "negotiator \<Rightarrow> session_description \<Rightarrow> session_description" where
  "negotiate ng sdp =
     (let s1 = (if ng_strip_webrtc_attrs ng
                then sdp\<lparr>sd_attributes := filter (\<lambda>a. \<not> is_unsupported_by_ngn a) (sd_attributes sdp)\<rparr> else sdp);
          s2 = on_audio (negotiate_audio ng) s1
      in if ng_normalize_for_ngn ng \<and> (sd_session_name s2 = [] \<or> sd_session_name s2 = ''-'')
         then s2\<lparr>sd_session_name := ''sabiden''\<rparr> else s2)"

definition negotiator_apply :: "negotiator \<Rightarrow> string \<Rightarrow> sdp_error + string" where
  "negotiator_apply ng sdp_bytes = best_effort (\<lambda>sdp. serialize (negotiate ng sdp)) sdp_bytes"

definition rewrite_offer :: "negotiator \<Rightarrow> string \<Rightarrow> sdp_error + string" where
  "rewrite_offer ng sdp_bytes = negotiator_apply ng sdp_bytes"

definition rewrite_answer :: "negotiator \<Rightarrow> string \<Rightarrow> string \<Rightarrow> sdp_error + string" where
  "rewrite_answer ng ext_offer ngn_answer = negotiator_apply ng ngn_answer"

text \<open>The aliases in \<^verbatim>\<open>sdp/builder.rs\<close>.\<close>

definition restrict_audio_to_pcmu :: "string \<Rightarrow> sdp_error + string" where
  "restrict_audio_to_pcmu sdp_bytes = rewrite_offer for_ngn sdp_bytes"

definition restrict_audio_to_pcmu_with_dtmf :: "string \<Rightarrow> sdp_error + string" where
  "restrict_audio_to_pcmu_with_dtmf sdp_bytes = rewrite_offer for_ngn_with_dtmf sdp_bytes"

subsection \<open>Directions\<close>

datatype media_direction = SendRecv | SendOnly | RecvOnly | Inactive

fun as_attr_key :: "media_direction \<Rightarrow> string" where
  "as_attr_key SendRecv = ''sendrecv''"
| "as_attr_key SendOnly = ''sendonly''"
| "as_attr_key RecvOnly = ''recvonly''"
| "as_attr_key Inactive = ''inactive''"

definition is_direction :: "sdp_attribute \<Rightarrow> bool" where
  "is_direction a \<longleftrightarrow> attr_key a \<in> {''sendrecv'', ''sendonly'', ''recvonly'', ''inactive''}"

definition set_direction :: "media_direction \<Rightarrow> media_description \<Rightarrow> media_description" where
  "set_direction d audio = push_attrs [Property (as_attr_key d)] (retain_attrs (\<lambda>a. \<not> is_direction a) audio)"

definition apply_audio_direction :: "string \<Rightarrow> media_direction \<Rightarrow> sdp_error + string" where
  "apply_audio_direction sdp_bytes direction = best_effort (\<lambda>sdp. serialize (on_audio (set_direction direction) sdp)) sdp_bytes"

section \<open>Attributes\<close>

lemma attr_good:
  "list_all graphic k \<Longrightarrow> CHR '':'' \<notin> set k \<Longrightarrow> sdp_text v \<Longrightarrow> valid_utf8 v \<Longrightarrow> good_attr (Attr k v)"
  "list_all graphic k \<Longrightarrow> CHR '':'' \<notin> set k \<Longrightarrow> good_attr (Property k)"
proof -
  assume k: "list_all graphic k" "CHR '':'' \<notin> set k"
  have t: "sdp_text k" "valid_utf8 k" "LF \<notin> set k" using k graphic_text graphic_valid_utf8 by (simp_all add: sdp_text_def)
  then show "good_attr (Property k)" using k by (simp add: good_attr_def wf_attr_def)
  assume v: "sdp_text v" "valid_utf8 v"
  have "sdp_text ((k @ '':'') @ v)" using t v by (intro sdp_text_append) auto
  moreover have "valid_utf8 (k @ CHR '':'' # v)" using t v by (simp add: valid_utf8_split_ascii octet_of_def)
  ultimately show "good_attr (Attr k v)" using k by (simp add: good_attr_def wf_attr_def)
qed

lemma attr_dec_good: "list_all graphic k \<Longrightarrow> CHR '':'' \<notin> set k \<Longrightarrow> good_attr (Attr k (dec n))"
  using graphic_text [OF dec_graphic] dec_utf8 by (intro attr_good)

lemma ascii_text_good:
  "\<forall>c \<in> set v. octet_of c < 0x80 \<Longrightarrow> LF \<notin> set v \<Longrightarrow> CR \<notin> set v \<Longrightarrow> sdp_text v \<and> valid_utf8 v"
  using valid_utf8_all_ascii [of v] last_in_set [of v] unfolding sdp_text_def by metis

section \<open>Consistent codecs\<close>

definition codec_ok :: "allowed_codec \<Rightarrow> bool" where
  "codec_ok c \<longleftrightarrow>
     pt_of_rtpmap_or_fmtp (al_rtpmap_value c) = Some (al_payload_type c) \<and> good_attr (Attr ''rtpmap'' (al_rtpmap_value c))
     \<and> pred_option (\<lambda>mk. find_str mk (al_rtpmap_value c) \<noteq> None) (al_required_rate_marker c)
     \<and> pred_option (\<lambda>f. pt_of_rtpmap_or_fmtp f = Some (al_payload_type c) \<and> good_attr (Attr ''fmtp'' f)) (al_fmtp_value c)"

lemma has_pt_simps [simp]:
  "has_pt key pt (as @ bs) \<longleftrightarrow> has_pt key pt as \<or> has_pt key pt bs"
  "has_pt key pt (Attr k v # as) \<longleftrightarrow> k = key \<and> pt_of_rtpmap_or_fmtp v = Some pt \<or> has_pt key pt as"
  "has_pt key pt (Property p # as) \<longleftrightarrow> has_pt key pt as" "\<not> has_pt key pt []"
  by (auto simp: has_pt_def)

definition codec_added :: "allowed_codec \<Rightarrow> sdp_attribute list \<Rightarrow> bool" where
  "codec_added c as \<longleftrightarrow>
     has_pt ''rtpmap'' (al_payload_type c) as
     \<and> pred_option (\<lambda>f. has_pt ''fmtp'' (al_payload_type c) as) (al_fmtp_value c)"

lemma complete_codec_mono: "has_pt k pt as \<Longrightarrow> has_pt k pt (complete_codec i c as)"
  by (auto simp: complete_codec_def Let_def split: option.splits)

lemma complete_codecs_mono: "has_pt k pt as \<Longrightarrow> has_pt k pt (complete_codecs i cs as)"
  by (induction cs arbitrary: i as) (simp_all add: complete_codec_mono)

lemma complete_codec_added: "codec_ok c \<Longrightarrow> codec_added c (complete_codec i c as)"
  by (auto simp: codec_ok_def codec_added_def complete_codec_def Let_def split: option.splits)

lemma complete_codecs_added: "list_all codec_ok cs \<Longrightarrow> c \<in> set cs \<Longrightarrow> codec_added c (complete_codecs i cs as)"
proof (induction cs arbitrary: i as)
  case (Cons d cs)
  show ?case
  proof (cases "c = d")
    case True
    then have "codec_added c (complete_codec i d as)" using Cons.prems complete_codec_added by simp
    then show ?thesis
      using complete_codecs_mono by (auto simp: codec_added_def pred_option_def)
  qed (use Cons in simp)
qed simp

lemma complete_codecs_id: "\<forall>c \<in> set cs. codec_added c as \<Longrightarrow> complete_codecs i cs as = as"
proof (induction cs arbitrary: i)
  case (Cons c cs)
  then have "complete_codec i c as = as"
    by (cases "al_fmtp_value c") (simp_all add: codec_added_def complete_codec_def)
  with Cons show ?case by simp
qed simp

lemma complete_codecs_all:
  assumes "list_all P as" "\<forall>c \<in> set cs. P (Attr ''rtpmap'' (al_rtpmap_value c))
    \<and> pred_option (\<lambda>f. P (Attr ''fmtp'' f)) (al_fmtp_value c)"
  shows "list_all P (complete_codecs i cs as)"
  using assms
proof (induction cs arbitrary: i as)
  case (Cons c cs)
  then have "list_all P (complete_codec i c as)"
    by (auto simp: complete_codec_def Let_def split: option.splits)
  with Cons show ?case by simp
qed simp

section \<open>Policies\<close>

lemma find_distinct_key: "distinct (map f xs) \<Longrightarrow> x \<in> set xs \<Longrightarrow> find (\<lambda>y. f y = f x) xs = Some x"
  by (induction xs) (auto simp: rev_image_eqI)

lemma ensure_simps [simp]:
  "md_media (ensure_ptime m) = md_media m" "md_media (ensure_a_rtcp m) = md_media m"
  "md_port (ensure_ptime m) = md_port m" "md_port (ensure_a_rtcp m) = md_port m"
  "md_protocol (ensure_ptime m) = md_protocol m" "md_protocol (ensure_a_rtcp m) = md_protocol m"
  "md_formats (ensure_ptime m) = md_formats m" "md_formats (ensure_a_rtcp m) = md_formats m"
  "md_connection (ensure_ptime m) = md_connection m" "md_connection (ensure_a_rtcp m) = md_connection m"
  by (simp_all add: ensure_ptime_def ensure_a_rtcp_def)

lemma ensure_attrs:
  "\<exists>x y. md_attributes (ensure_a_rtcp (ensure_ptime m)) = md_attributes m @ x @ y
     \<and> set x \<subseteq> {Attr ''ptime'' ''20''} \<and> set y \<subseteq> {Attr ''rtcp'' (dec (min (md_port m + 1) 65535))}"
proof -
  have "\<exists>y. md_attributes (ensure_a_rtcp n) = md_attributes n @ y \<and> set y \<subseteq> {Attr ''rtcp'' (dec (min (md_port n + 1) 65535))}" for n
    by (cases "list_ex (is_value ''rtcp'') (md_attributes n)") (simp_all add: ensure_a_rtcp_def)
  moreover have "\<exists>x. md_attributes (ensure_ptime m) = md_attributes m @ x \<and> set x \<subseteq> {Attr ''ptime'' ''20''}"
    by (cases "list_ex (is_value ''ptime'') (md_attributes m)") (simp_all add: ensure_ptime_def)
  ultimately show ?thesis by (metis append_assoc ensure_simps(3))
qed

lemma ensure_present:
  "list_ex (is_value ''ptime'') (md_attributes (ensure_a_rtcp (ensure_ptime m)))"
  "list_ex (is_value ''rtcp'') (md_attributes (ensure_a_rtcp (ensure_ptime m)))"
  by (auto simp: ensure_ptime_def ensure_a_rtcp_def is_value_def list_ex_iff)

lemma ensure_id:
  "list_ex (is_value ''ptime'') (md_attributes m) \<Longrightarrow> list_ex (is_value ''rtcp'') (md_attributes m) \<Longrightarrow>
    ensure_a_rtcp (ensure_ptime m) = m"
  by (simp add: ensure_ptime_def ensure_a_rtcp_def)

lemma ensure_good: "good_media m \<Longrightarrow> good_media (ensure_a_rtcp (ensure_ptime m))"
proof -
  assume g: "good_media m"
  have "good_attr (Attr ''ptime'' ''20'')"
    by (intro attr_good) (simp_all add: graphic_def octet_of_def sdp_text_def valid_utf8_ascii)
  then have "good_media (ensure_ptime m)" using g push_attrs_good by (simp add: ensure_ptime_def)
  moreover have "good_attr (Attr ''rtcp'' (dec n))" for n by (intro attr_dec_good) (simp_all add: graphic_def octet_of_def)
  ultimately show ?thesis using push_attrs_good by (simp add: ensure_a_rtcp_def)
qed

text \<open>Codecs that fit together: their numbers differ and the attributes they add are ones the
  filter keeps.\<close>

locale codec_policy =
  fixes ng :: negotiator
  assumes codecs_ne: "ng_allowed_audio ng \<noteq> []"
    and codecs_distinct: "distinct (map al_payload_type (ng_allowed_audio ng))"
    and codecs_ok: "list_all codec_ok (ng_allowed_audio ng)"
begin

lemma find_codec: "c \<in> set (ng_allowed_audio ng) \<Longrightarrow>
    find (\<lambda>d. al_payload_type d = al_payload_type c) (ng_allowed_audio ng) = Some c"
  by (rule find_distinct_key [OF codecs_distinct])

lemma codec_attrs:
  assumes "c \<in> set (ng_allowed_audio ng)"
  shows "keep_attr ng (Attr ''rtpmap'' (al_rtpmap_value c)) \<and> good_attr (Attr ''rtpmap'' (al_rtpmap_value c))"
    "pred_option (\<lambda>f. keep_attr ng (Attr ''fmtp'' f) \<and> good_attr (Attr ''fmtp'' f)) (al_fmtp_value c)"
proof -
  have c: "codec_ok c" using assms codecs_ok by (simp add: list_all_iff)
  show "keep_attr ng (Attr ''rtpmap'' (al_rtpmap_value c)) \<and> good_attr (Attr ''rtpmap'' (al_rtpmap_value c))"
    using c find_codec [OF assms]
    by (cases "al_required_rate_marker c") (simp_all add: keep_attr_def codec_ok_def webrtc_values_def)
  show "pred_option (\<lambda>f. keep_attr ng (Attr ''fmtp'' f) \<and> good_attr (Attr ''fmtp'' f)) (al_fmtp_value c)"
    using c assms by (cases "al_fmtp_value c") (simp_all add: keep_attr_def codec_ok_def webrtc_values_def)
qed

lemma subset_attrs:
  "list_all (keep_attr ng) (md_attributes (apply_codec_subset ng m))"
  "list_all good_attr (md_attributes m) \<Longrightarrow> list_all good_attr (md_attributes (apply_codec_subset ng m))"
proof -
  have c: "\<forall>c \<in> set (ng_allowed_audio ng). P (Attr ''rtpmap'' (al_rtpmap_value c)) \<and> pred_option (\<lambda>f. P (Attr ''fmtp'' f)) (al_fmtp_value c)"
    if P: "P = keep_attr ng \<or> P = good_attr" for P
  proof
    fix c
    assume "c \<in> set (ng_allowed_audio ng)"
    then show "P (Attr ''rtpmap'' (al_rtpmap_value c)) \<and> pred_option (\<lambda>f. P (Attr ''fmtp'' f)) (al_fmtp_value c)"
      using codec_attrs [of c] P by (cases "al_fmtp_value c") auto
  qed
  have "list_all (keep_attr ng) (filter (keep_attr ng) (md_attributes m))" by (simp add: list_all_iff)
  from complete_codecs_all [OF this c [OF disjI1 [OF refl]]]
  show "list_all (keep_attr ng) (md_attributes (apply_codec_subset ng m))" by (simp add: apply_codec_subset_def)
  assume "list_all good_attr (md_attributes m)"
  then have "list_all good_attr (filter (keep_attr ng) (md_attributes m))" by (simp add: list_all_iff)
  from complete_codecs_all [OF this c [OF disjI2 [OF refl]]]
  show "list_all good_attr (md_attributes (apply_codec_subset ng m))" by (simp add: apply_codec_subset_def)
qed

lemma negotiated_attrs: "list_all (keep_attr ng) (md_attributes (negotiate_audio ng m))"
proof -
  let ?m = "apply_codec_subset ng m"
  have "keep_attr ng (Attr ''ptime'' v)" "keep_attr ng (Attr ''rtcp'' v)" for v
    by (simp_all add: keep_attr_def webrtc_values_def)
  moreover obtain x y where "md_attributes (ensure_a_rtcp (ensure_ptime ?m)) = md_attributes ?m @ x @ y"
    "set x \<subseteq> {Attr ''ptime'' ''20''}" "set y \<subseteq> {Attr ''rtcp'' (dec (min (md_port ?m + 1) 65535))}"
    using ensure_attrs by blast
  ultimately have "list_all (keep_attr ng) (md_attributes (ensure_a_rtcp (ensure_ptime ?m)))"
    using subset_attrs(1) [of m] by (auto simp: list_all_iff)
  then show ?thesis using subset_attrs(1) by (simp add: negotiate_audio_def Let_def)
qed

lemma negotiated_codecs: "c \<in> set (ng_allowed_audio ng) \<Longrightarrow> codec_added c (md_attributes (negotiate_audio ng m))"
proof -
  assume "c \<in> set (ng_allowed_audio ng)"
  then have a: "codec_added c (md_attributes (apply_codec_subset ng m))"
    using complete_codecs_added codecs_ok by (simp add: apply_codec_subset_def)
  obtain x where "md_attributes (negotiate_audio ng m) = md_attributes (apply_codec_subset ng m) @ x"
    using ensure_attrs [of "apply_codec_subset ng m"] by (cases "ng_normalize_for_ngn ng") (auto simp: negotiate_audio_def Let_def)
  with a show ?thesis by (simp add: codec_added_def) (auto simp: pred_option_def)
qed

lemma negotiated_formats [simp]:
  "md_formats (negotiate_audio ng m) = map (\<lambda>c. dec (al_payload_type c)) (ng_allowed_audio ng)"
  "md_media (negotiate_audio ng m) = md_media m" "md_port (negotiate_audio ng m) = md_port m"
  "md_protocol (negotiate_audio ng m) = md_protocol m" "md_connection (negotiate_audio ng m) = md_connection m"
  by (simp_all add: negotiate_audio_def Let_def apply_codec_subset_def)

lemma negotiate_audio_idem: "negotiate_audio ng (negotiate_audio ng m) = negotiate_audio ng m"
proof -
  let ?n = "negotiate_audio ng m"
  have "filter (keep_attr ng) (md_attributes ?n) = md_attributes ?n"
    using negotiated_attrs [of m] by (simp add: list_all_iff)
  then have "apply_codec_subset ng ?n = ?n"
    using complete_codecs_id negotiated_codecs by (simp add: apply_codec_subset_def)
  then show ?thesis
    using ensure_id ensure_present by (simp add: negotiate_audio_def [of ng ?n]) (simp add: negotiate_audio_def Let_def)
qed

lemma negotiate_audio_good: "good_media m \<Longrightarrow> good_media (negotiate_audio ng m)"
proof -
  assume g: "good_media m"
  have "is_word (dec n)" "valid_utf8 (dec n)" for n by (rule dec_word, rule dec_utf8)
  then have "good_media (apply_codec_subset ng m)"
    using g subset_attrs(2) [of m] codecs_ne
    by (auto simp: good_media_def wf_media_def apply_codec_subset_def list_all_iff good_attr_def)
  then show ?thesis using ensure_good by (simp add: negotiate_audio_def Let_def)
qed

end

sublocale codec_policy \<subseteq> stable_transform "negotiate ng"
proof
  fix s
  assume g: "good_sdp s"
  let ?s = "s\<lparr>sd_attributes := filter (\<lambda>a. \<not> is_unsupported_by_ngn a) (sd_attributes s)\<rparr>"
  have "good_sdp ?s" using g by (auto simp: good_sdp_def wf_sdp_def list_all_iff)
  then have "good_sdp (on_audio (negotiate_audio ng) ?s)" "good_sdp (on_audio (negotiate_audio ng) s)"
    using on_audio_good negotiate_audio_good g by blast+
  moreover have "good_sdp (t\<lparr>sd_session_name := ''sabiden''\<rparr>)" if "good_sdp t" for t
    using that by (simp add: good_sdp_def wf_sdp_def sdp_text_def valid_utf8_ascii octet_of_def)
  ultimately show "good_sdp (negotiate ng s)" by (simp add: negotiate_def Let_def)
  have i: "on_first is_audio (negotiate_audio ng) (on_first is_audio (negotiate_audio ng) ms) = on_first is_audio (negotiate_audio ng) ms" for ms
    using on_first_comp [of is_audio "negotiate_audio ng"] by (simp add: is_audio_def comp_def negotiate_audio_idem)
  show "negotiate ng (negotiate ng s) = negotiate ng s"
    by (cases "sd_session_name s = []"; cases "sd_session_name s = ''-''") (simp_all add: negotiate_def Let_def on_audio_def i)
qed

lemma pcmu_ok: "codec_ok PCMU"
proof -
  have w: "is_word ''0''" "is_word ''PCMU/8000''" by (intro graphic_word; simp add: graphic_def octet_of_def)+
  have "split_whitespace ''0 PCMU/8000'' = [''0'', ''PCMU/8000'']"
    using split_whitespace_join [of "[''0'', ''PCMU/8000'']"] w by simp
  then have "pt_of_rtpmap_or_fmtp ''0 PCMU/8000'' = Some 0"
    by (simp add: pt_of_rtpmap_or_fmtp_def parse_uint_def digits_value_def is_digit_def octet_of_def)
  moreover have "good_attr (Attr ''rtpmap'' ''0 PCMU/8000'')"
    by (intro attr_good) (simp_all add: graphic_def octet_of_def sdp_text_def valid_utf8_ascii)
  ultimately show ?thesis by (simp add: codec_ok_def PCMU_def starts_with_def)
qed

lemma telephone_event_ok: "codec_ok TELEPHONE_EVENT"
proof -
  have w: "is_word ''101''" "is_word ''telephone-event/8000''" "is_word ''0-15''"
    by (intro graphic_word; simp add: graphic_def octet_of_def)+
  have "split_whitespace ''101 telephone-event/8000'' = [''101'', ''telephone-event/8000'']"
    "split_whitespace ''101 0-15'' = [''101'', ''0-15'']"
    using split_whitespace_join [of "[''101'', ''telephone-event/8000'']"] split_whitespace_join [of "[''101'', ''0-15'']"] w
    by simp_all
  then have "pt_of_rtpmap_or_fmtp ''101 telephone-event/8000'' = Some 101" "pt_of_rtpmap_or_fmtp ''101 0-15'' = Some 101"
    by (simp_all add: pt_of_rtpmap_or_fmtp_def parse_uint_def digits_value_def is_digit_def octet_of_def)
  moreover have "good_attr (Attr ''rtpmap'' ''101 telephone-event/8000'')" "good_attr (Attr ''fmtp'' ''101 0-15'')"
    by (intro attr_good; simp add: graphic_def octet_of_def sdp_text_def valid_utf8_ascii)+
  ultimately show ?thesis by (simp add: codec_ok_def TELEPHONE_EVENT_def DTMF_PAYLOAD_TYPE_def starts_with_def)
qed

interpretation ngn: codec_policy for_ngn
  by unfold_locales (simp_all add: for_ngn_def pcmu_ok)

interpretation ngn_dtmf: codec_policy for_ngn_with_dtmf
proof
  show "distinct (map al_payload_type (ng_allowed_audio for_ngn_with_dtmf))"
    by (simp add: for_ngn_with_dtmf_def PCMU_def TELEPHONE_EVENT_def DTMF_PAYLOAD_TYPE_def)
qed (simp_all add: for_ngn_with_dtmf_def pcmu_ok telephone_event_ok)

lemma set_direction_media [simp]: "md_media (set_direction d m) = md_media m"
  by (simp add: set_direction_def)

interpretation direction: stable_transform "on_audio (set_direction d)"
proof
  fix s
  assume g: "good_sdp s"
  have "good_attr (Property (as_attr_key d))" by (cases d) (intro attr_good; simp add: graphic_def octet_of_def)+
  then show "good_sdp (on_audio (set_direction d) s)"
    using on_audio_good [OF g] push_attrs_good retain_attrs_good by (simp add: set_direction_def)
  have "set_direction d (set_direction d m) = set_direction d m" for m
    by (cases d) (simp_all add: set_direction_def push_attrs_def retain_attrs_def is_direction_def)
  then show "on_audio (set_direction d) (on_audio (set_direction d) s) = on_audio (set_direction d) s"
    by (subst on_audio_comp) (simp_all add: set_direction_media comp_def)
qed

section \<open>Properties\<close>

text \<open>What the carrier accepts of an audio section: only the given codecs, each with its rtpmap,
  no other rtpmap or fmtp, nothing of WebRTC, and a packet time and a port for RTCP.\<close>

definition ngn_audio :: "nat list \<Rightarrow> media_description \<Rightarrow> bool" where
  "ngn_audio pts m \<longleftrightarrow>
     md_formats m = map dec pts
     \<and> list_all (\<lambda>a. \<not> is_unsupported_by_ngn a) (md_attributes m)
     \<and> list_all (\<lambda>a. \<forall>v. (a = Attr ''rtpmap'' v \<longrightarrow> find_str ''/8000'' v \<noteq> None)
          \<and> (a = Attr ''rtpmap'' v \<or> a = Attr ''fmtp'' v \<longrightarrow> (\<exists>pt \<in> set pts. pt_of_rtpmap_or_fmtp v = Some pt)))
          (md_attributes m)
     \<and> list_all (\<lambda>pt. has_pt ''rtpmap'' pt (md_attributes m)) pts
     \<and> list_ex (is_value ''ptime'') (md_attributes m) \<and> list_ex (is_value ''rtcp'') (md_attributes m)"

definition ngn_policy :: "negotiator \<Rightarrow> bool" where
  "ngn_policy ng \<longleftrightarrow> ng = for_ngn \<or> ng = for_ngn_with_dtmf"

definition policy_pts :: "negotiator \<Rightarrow> nat list" where
  "policy_pts ng = map al_payload_type (ng_allowed_audio ng)"

lemma policy_markers:
  assumes "ngn_policy ng"
  shows "ng_strip_webrtc_attrs ng" "ng_normalize_for_ngn ng"
    "c \<in> set (ng_allowed_audio ng) \<Longrightarrow> al_required_rate_marker c = Some ''/8000''" "codec_policy ng"
  using assms ngn.codec_policy_axioms ngn_dtmf.codec_policy_axioms
  by (auto simp: ngn_policy_def for_ngn_def for_ngn_with_dtmf_def PCMU_def TELEPHONE_EVENT_def)

lemma negotiated_ngn_audio: "ngn_policy ng \<Longrightarrow> ngn_audio (policy_pts ng) (negotiate_audio ng m)"
proof -
  assume p: "ngn_policy ng"
  note pol = policy_markers [OF p]
  let ?as = "md_attributes (negotiate_audio ng m)"
  have k: "keep_attr ng a" if "a \<in> set ?as" for a
    using codec_policy.negotiated_attrs [OF pol(4), of m] that by (simp add: list_all_iff)
  have rt: "find_str ''/8000'' v \<noteq> None \<and> (\<exists>pt \<in> set (policy_pts ng). pt_of_rtpmap_or_fmtp v = Some pt)"
    if "Attr ''rtpmap'' v \<in> set ?as" for v
  proof -
    from k [OF that] obtain pt c where c: "pt_of_rtpmap_or_fmtp v = Some pt"
      "find (\<lambda>c. al_payload_type c = pt) (ng_allowed_audio ng) = Some c"
      "case al_required_rate_marker c of Some mk \<Rightarrow> find_str mk v \<noteq> None | None \<Rightarrow> True"
      by (auto simp: keep_attr_def split: if_splits option.splits)
    then have "c \<in> set (ng_allowed_audio ng)" "al_payload_type c = pt" using find_Some_mem by fastforce+
    with c pol(3) [of c] show ?thesis by (auto simp: policy_pts_def)
  qed
  have fm: "\<exists>pt \<in> set (policy_pts ng). pt_of_rtpmap_or_fmtp v = Some pt" if "Attr ''fmtp'' v \<in> set ?as" for v
    using k [OF that] by (auto simp: keep_attr_def policy_pts_def split: if_splits option.splits)
  have "\<not> is_unsupported_by_ngn a" if "a \<in> set ?as" for a
    using k [OF that] pol(1) by (auto simp: keep_attr_def split: if_splits)
  moreover have "has_pt ''rtpmap'' pt ?as" if "pt \<in> set (policy_pts ng)" for pt
    using that codec_policy.negotiated_codecs [OF pol(4)] by (auto simp: policy_pts_def codec_added_def)
  moreover have "list_ex (is_value ''ptime'') ?as" "list_ex (is_value ''rtcp'') ?as"
    using ensure_present pol(2) by (simp_all add: negotiate_audio_def)
  ultimately show ?thesis
    using rt fm codec_policy.negotiated_formats(1) [OF pol(4), of m]
    unfolding ngn_audio_def list_all_iff by (auto simp: policy_pts_def)
qed

text \<open>The description sent to the carrier is one the carrier accepts: for every readable body
  the result is readable again, its audio section offers exactly PCMU, or PCMU and
  telephone events, with their maps at 8000 Hz and nothing of WebRTC, the session has a name,
  and the port, the address, the times and the other sections are those of the body.\<close>

theorem ngn_offer_conforms:
  assumes "ngn_policy ng" "read_sdp b = Inr s"
  shows "\<exists>s'. rewrite_offer ng b = Inr (serialize s') \<and> read_sdp (serialize s') = Inr s'
    \<and> pred_option (ngn_audio (policy_pts ng)) (find_audio s')
    \<and> map_option (\<lambda>m. (md_port m, md_protocol m, md_connection m)) (find_audio s')
        = map_option (\<lambda>m. (md_port m, md_protocol m, md_connection m)) (find_audio s)
    \<and> list_all (\<lambda>a. \<not> is_unsupported_by_ngn a) (sd_attributes s')
    \<and> sd_session_name s' \<noteq> [] \<and> sd_session_name s' \<noteq> ''-''
    \<and> sd_origin s' = sd_origin s \<and> sd_connection s' = sd_connection s \<and> sd_timing s' = sd_timing s
    \<and> filter (\<lambda>m. \<not> is_audio m) (sd_media s') = filter (\<lambda>m. \<not> is_audio m) (sd_media s)"
proof (intro exI conjI)
  let ?s = "negotiate ng s"
  note pol = policy_markers [OF assms(1)]
  have st: "sdp_transform (negotiate ng)"
    using assms(1) ngn.sdp_transform_axioms ngn_dtmf.sdp_transform_axioms by (auto simp: ngn_policy_def)
  show "rewrite_offer ng b = Inr (serialize ?s)"
    using assms(2) by (simp add: rewrite_offer_def negotiator_apply_def best_effort_def)
  show "read_sdp (serialize ?s) = Inr ?s" by (rule sdp_transform.read_transformed [OF st assms(2)])
  have f: "find_audio ?s = map_option (negotiate_audio ng) (find_audio s)"
    using find_on_audio [of "negotiate_audio ng"] codec_policy.negotiated_formats(2) [OF pol(4)]
    by (simp add: negotiate_def Let_def find_audio_def on_audio_def)
  show "pred_option (ngn_audio (policy_pts ng)) (find_audio ?s)"
    unfolding f using negotiated_ngn_audio [OF assms(1)] by (cases "find_audio s") simp_all
  show "map_option (\<lambda>m. (md_port m, md_protocol m, md_connection m)) (find_audio ?s)
        = map_option (\<lambda>m. (md_port m, md_protocol m, md_connection m)) (find_audio s)"
    unfolding f using codec_policy.negotiated_formats [OF pol(4)] by (cases "find_audio s") simp_all
  show "list_all (\<lambda>a. \<not> is_unsupported_by_ngn a) (sd_attributes ?s)"
    using pol(1) by (simp add: negotiate_def Let_def list_all_iff)
  show "sd_session_name ?s \<noteq> []" "sd_session_name ?s \<noteq> ''-''"
    using pol(1,2) by (simp_all add: negotiate_def Let_def)
  show "sd_origin ?s = sd_origin s" "sd_connection ?s = sd_connection s" "sd_timing ?s = sd_timing s"
    by (simp_all add: negotiate_def Let_def)
  have "filter (\<lambda>m. \<not> is_audio m) (on_first is_audio f ms) = filter (\<lambda>m. \<not> is_audio m) ms"
    if "\<And>m. md_media (f m) = md_media m" for f ms
    using that by (induction ms) (auto simp: is_audio_def)
  then show "filter (\<lambda>m. \<not> is_audio m) (sd_media ?s) = filter (\<lambda>m. \<not> is_audio m) (sd_media s)"
    using codec_policy.negotiated_formats(2) [OF pol(4)] by (simp add: negotiate_def Let_def on_audio_def)
qed

theorem ngn_offer_conforms_witness:
  "\<exists>s'. rewrite_offer for_ngn (serialize sdp_ex) = Inr (serialize s') \<and> read_sdp (serialize s') = Inr s'
    \<and> pred_option (ngn_audio [0]) (find_audio s')"
proof -
  have "ngn_policy for_ngn" "policy_pts for_ngn = [0]"
    by (simp_all add: ngn_policy_def policy_pts_def for_ngn_def PCMU_def)
  with ngn_offer_conforms [OF _ read_serialize [OF good_sdp_ex], of for_ngn] show ?thesis by auto
qed

text \<open>Rewriting is stable: a body that was rewritten for the carrier is not changed by
  rewriting it again, also when it could not be read.\<close>

theorem ngn_offer_stable:
  assumes "ngn_policy ng" "rewrite_offer ng b = Inr b'"
  shows "rewrite_offer ng b' = Inr b' \<and> rewrite_answer ng any b' = Inr b'"
proof -
  have "stable_transform (negotiate ng)"
    using assms(1) ngn.stable_transform_axioms ngn_dtmf.stable_transform_axioms
      ngn.sdp_transform_axioms ngn_dtmf.sdp_transform_axioms
    by (auto simp: ngn_policy_def stable_transform_def)
  then have "negotiator_apply ng b' = Inr b'"
    using assms(2) stable_transform.best_effort_idem unfolding rewrite_offer_def negotiator_apply_def by blast
  then show ?thesis by (simp add: rewrite_offer_def rewrite_answer_def)
qed

theorem ngn_offer_stable_witness:
  "\<exists>b'. rewrite_offer for_ngn_with_dtmf (serialize sdp_ex) = Inr b' \<and> rewrite_offer for_ngn_with_dtmf b' = Inr b'"
proof -
  obtain b' where b: "rewrite_offer for_ngn_with_dtmf (serialize sdp_ex) = Inr b'"
    using read_serialize [OF good_sdp_ex] by (simp add: rewrite_offer_def negotiator_apply_def best_effort_def)
  with ngn_offer_stable [OF _ b] show ?thesis by (simp add: ngn_policy_def)
qed

text \<open>Hold and resume set exactly one direction: after \<^verbatim>\<open>apply_audio_direction\<close> the audio
  section of a readable body has the given direction as its only direction, the rest of
  the description is unchanged, and of two changes only the last one counts.\<close>

theorem hold_direction_exact:
  assumes "read_sdp b = Inr s"
  shows "\<exists>b' s'. apply_audio_direction b d = Inr b' \<and> read_sdp b' = Inr s'
    \<and> map_option (\<lambda>m. filter is_direction (md_attributes m)) (find_audio s') = map_option (\<lambda>_. [Property (as_attr_key d)]) (find_audio s)
    \<and> map_option (retain_attrs (\<lambda>a. \<not> is_direction a)) (find_audio s') = map_option (retain_attrs (\<lambda>a. \<not> is_direction a)) (find_audio s)
    \<and> sd_origin s' = sd_origin s \<and> sd_connection s' = sd_connection s \<and> sd_attributes s' = sd_attributes s
    \<and> apply_audio_direction b' d2 = apply_audio_direction b d2"
proof (intro exI conjI)
  let ?s = "on_audio (set_direction d) s"
  show "apply_audio_direction b d = Inr (serialize ?s)" using assms by (simp add: apply_audio_direction_def best_effort_def)
  show "read_sdp (serialize ?s) = Inr ?s" by (rule direction.read_transformed [OF assms])
  have f: "find_audio ?s = map_option (set_direction d) (find_audio s)" by (rule find_on_audio) simp
  have "is_direction (Property (as_attr_key d))" by (cases d) (simp_all add: is_direction_def)
  then show "map_option (\<lambda>m. filter is_direction (md_attributes m)) (find_audio ?s) = map_option (\<lambda>_. [Property (as_attr_key d)]) (find_audio s)"
    "map_option (retain_attrs (\<lambda>a. \<not> is_direction a)) (find_audio ?s) = map_option (retain_attrs (\<lambda>a. \<not> is_direction a)) (find_audio s)"
    unfolding f by (cases "find_audio s"; simp add: set_direction_def push_attrs_def retain_attrs_def)+
  show "sd_origin ?s = sd_origin s" "sd_connection ?s = sd_connection s" "sd_attributes ?s = sd_attributes s" by simp_all
  have "set_direction d2 (set_direction d m) = set_direction d2 m" for m
    by (cases d) (simp_all add: set_direction_def push_attrs_def retain_attrs_def is_direction_def)
  then have "on_audio (set_direction d2) ?s = on_audio (set_direction d2) s" by (subst on_audio_comp) (simp_all add: comp_def)
  then show "apply_audio_direction (serialize ?s) d2 = apply_audio_direction b d2"
    using direction.then_best_effort [OF assms] assms by (simp add: apply_audio_direction_def best_effort_def)
qed

theorem hold_direction_exact_witness:
  "\<exists>b'. apply_audio_direction (serialize sdp_ex) SendOnly = Inr b'
    \<and> apply_audio_direction b' SendRecv = apply_audio_direction (serialize sdp_ex) SendRecv"
  using hold_direction_exact [OF read_serialize [OF good_sdp_ex], of SendOnly SendRecv] by blast

text \<open>The comment on \<^verbatim>\<open>is_unsupported_by_ngn\<close> lists the BUNDLE group among what is removed; it
  is kept.\<close>

lemma bundle_group_kept: "\<not> is_unsupported_by_ngn (Attr ''group'' ''BUNDLE 0'')"
  by (simp add: webrtc_values_def)

end
