(* ===== verification/Sdp_Builder.thy ===== *)
theory Sdp_Builder
  imports Sdp_Negotiation
begin

unbundle bit_operations_syntax

text \<open>
  The transformations of \<^verbatim>\<open>sdp/builder.rs\<close>: conversion between the profile of the carrier
  and that of browsers, the relay's own address and port, packet times, the offers the
  program makes itself, and the answer restricted to what the carrier offered. The clock
  (\<^verbatim>\<open>SystemTime::now\<close>) is an argument in seconds.
\<close>

section \<open>Definitions\<close>

record dtls_ice_params =
  dp_ice_ufrag :: string
  dp_ice_pwd :: string
  dp_fingerprint :: string
  dp_setup :: string
  dp_ssrc :: "32 word option"
  dp_cname :: "string option"
  dp_msid_stream_id :: "string option"
  dp_msid_track_id :: "string option"

definition params_new :: "string \<Rightarrow> string \<Rightarrow> string \<Rightarrow> dtls_ice_params" where
  "params_new ufrag pwd fp =
     \<lparr>dp_ice_ufrag = ufrag, dp_ice_pwd = pwd, dp_fingerprint = fp, dp_setup = ''actpass'', dp_ssrc = None,
      dp_cname = None, dp_msid_stream_id = None, dp_msid_track_id = None\<rparr>"

definition with_ssrc :: "dtls_ice_params \<Rightarrow> 32 word \<Rightarrow> dtls_ice_params" where
  "with_ssrc p s = p\<lparr>dp_ssrc := Some s\<rparr>"

definition with_cname :: "dtls_ice_params \<Rightarrow> string \<Rightarrow> dtls_ice_params" where
  "with_cname p c = p\<lparr>dp_cname := Some c\<rparr>"

definition with_msid :: "dtls_ice_params \<Rightarrow> string \<Rightarrow> string \<Rightarrow> dtls_ice_params" where
  "with_msid p s t = p\<lparr>dp_msid_stream_id := Some s, dp_msid_track_id := Some t\<rparr>"

definition ssrc_or_default :: "dtls_ice_params \<Rightarrow> 64 word \<Rightarrow> 32 word" where
  "ssrc_or_default p seed =
     (case dp_ssrc p of
        Some s \<Rightarrow> s
      | None \<Rightarrow> (let s = ucast (seed XOR drop_bit 32 seed) in if s = 0 then 1 else s))"

definition cname_or_default :: "dtls_ice_params \<Rightarrow> string" where
  "cname_or_default p = (case dp_cname p of Some c \<Rightarrow> c | None \<Rightarrow> ''sabiden'')"

definition msid_stream_id_or_default :: "dtls_ice_params \<Rightarrow> string" where
  "msid_stream_id_or_default p = (case dp_msid_stream_id p of Some c \<Rightarrow> c | None \<Rightarrow> ''sabiden'')"

definition msid_track_id_or_default :: "dtls_ice_params \<Rightarrow> string" where
  "msid_track_id_or_default p = (case dp_msid_track_id p of Some c \<Rightarrow> c | None \<Rightarrow> ''audio0'')"

subsection \<open>Profiles\<close>

definition savpf_session_keys :: "string list" where
  "savpf_session_keys = [''group'', ''msid-semantic'', ''ice-options'', ''fingerprint'']"

definition savpf_media_keys :: "string list" where
  "savpf_media_keys =
     [''rtcp-mux'', ''rtcp'', ''ice-ufrag'', ''ice-pwd'', ''fingerprint'', ''setup'', ''mid'', ''msid'', ''ssrc'', ''ssrc-group'',
      ''candidate'', ''end-of-candidates'']"

definition savpf_session :: "dtls_ice_params \<Rightarrow> session_description \<Rightarrow> session_description" where
  "savpf_session p sdp = sdp\<lparr>sd_attributes :=
     filter (\<lambda>a. attr_key a \<notin> set savpf_session_keys) (sd_attributes sdp)
     @ [Attr ''group'' ''BUNDLE 0'', Attr ''msid-semantic'' ''WMS *'', Attr ''ice-options'' ''trickle'',
        Attr ''fingerprint'' (dp_fingerprint p)]\<rparr>"

definition savpf_audio :: "dtls_ice_params \<Rightarrow> 32 word \<Rightarrow> media_description \<Rightarrow> media_description" where
  "savpf_audio p ssrc audio =
     (let cname = cname_or_default p; stream = msid_stream_id_or_default p; track = msid_track_id_or_default p;
          kept = filter (\<lambda>a. attr_key a \<notin> set savpf_media_keys) (md_attributes audio)
            @ [Property ''rtcp-mux'', Attr ''rtcp'' (dec (md_port audio)), Attr ''ice-ufrag'' (dp_ice_ufrag p),
               Attr ''ice-pwd'' (dp_ice_pwd p), Attr ''fingerprint'' (dp_fingerprint p), Attr ''setup'' (dp_setup p),
               Attr ''mid'' ''0'']
      in audio\<lparr>md_protocol := ''UDP/TLS/RTP/SAVPF'',
           md_attributes := kept @ (if list_ex is_direction kept then [] else [Property ''sendrecv''])
             @ [Attr ''msid'' (stream @ '' '' @ track), Attr ''ssrc'' (dec (unat ssrc) @ '' cname:'' @ cname),
                Attr ''ssrc'' (dec (unat ssrc) @ '' msid:'' @ stream @ '' '' @ track)]\<rparr>)"

definition to_savpf :: "dtls_ice_params \<Rightarrow> session_description \<Rightarrow> session_description" where
  "to_savpf p sdp = on_audio (savpf_audio p (ssrc_or_default p (of_nat (or_session_id (sd_origin sdp))))) (savpf_session p sdp)"

definition convert_avp_to_savpf :: "string \<Rightarrow> dtls_ice_params \<Rightarrow> sdp_error + string" where
  "convert_avp_to_savpf sdp_bytes p =
     res_bind (read_sdp sdp_bytes) (\<lambda>sdp.
       if find_audio sdp = None then Inl NoAudio else Inr (serialize (to_savpf p sdp)))"

definition avp_session_removed :: "string list" where
  "avp_session_removed =
     [''group'', ''msid-semantic'', ''ice-options'', ''ice-ufrag'', ''ice-pwd'', ''fingerprint'', ''setup'']"

definition avp_media_removed :: "string list" where
  "avp_media_removed =
     [''ice-ufrag'', ''ice-pwd'', ''ice-options'', ''fingerprint'', ''setup'', ''rtcp-mux'', ''rtcp'', ''mid'', ''msid'', ''ssrc'',
      ''ssrc-group'', ''extmap'', ''rtcp-fb'', ''candidate'', ''end-of-candidates'', ''bundle-only'', ''rtcp-rsize'']"

definition avp_audio :: "media_description \<Rightarrow> media_description" where
  "avp_audio audio = retain_attrs (\<lambda>a. attr_key a \<notin> set avp_media_removed) (audio\<lparr>md_protocol := ''RTP/AVP''\<rparr>)"

definition to_avp :: "session_description \<Rightarrow> session_description" where
  "to_avp sdp = on_audio avp_audio
     (sdp\<lparr>sd_attributes := filter (\<lambda>a. attr_key a \<notin> set avp_session_removed) (sd_attributes sdp)\<rparr>)"

definition convert_savpf_to_avp :: "string \<Rightarrow> sdp_error + string" where
  "convert_savpf_to_avp sdp_bytes =
     res_bind (read_sdp sdp_bytes) (\<lambda>sdp. if find_audio sdp = None then Inl NoAudio else Inr (serialize (to_avp sdp)))"

subsection \<open>The relay's endpoint\<close>

definition relay_origin :: "nat \<Rightarrow> ip_addr \<Rightarrow> sdp_origin \<Rightarrow> sdp_origin" where
  "relay_origin now_secs addr x =
     \<lparr>or_username = ''-'',
      or_session_id = (if or_session_id x > 2 ^ 32 - 1 then now_secs else or_session_id x),
      or_session_version = (or_session_version x + 1) mod 2 ^ 64, or_address = addr\<rparr>"

definition set_rtcp_port :: "string \<Rightarrow> sdp_attribute \<Rightarrow> sdp_attribute" where
  "set_rtcp_port v a = (case a of Attr k w \<Rightarrow> if k = ''rtcp'' then Attr k v else a | Property _ \<Rightarrow> a)"

definition relay_audio :: "nat \<Rightarrow> media_description \<Rightarrow> media_description" where
  "relay_audio port audio =
     audio\<lparr>md_port := port, md_connection := None,
       md_attributes := map (set_rtcp_port (dec (min (port + 1) 65535))) (md_attributes audio)\<rparr>"

definition relay_endpoint :: "nat \<Rightarrow> ip_addr \<Rightarrow> nat \<Rightarrow> session_description \<Rightarrow> session_description" where
  "relay_endpoint now_secs addr port sdp =
     on_audio (relay_audio port)
       (sdp\<lparr>sd_origin := relay_origin now_secs addr (sd_origin sdp), sd_connection := Some addr\<rparr>)"

definition rewrite_rtp_endpoint :: "nat \<Rightarrow> string \<Rightarrow> ip_addr \<Rightarrow> nat \<Rightarrow> sdp_error + string" where
  "rewrite_rtp_endpoint now_secs sdp_bytes addr port =
     res_bind (read_sdp sdp_bytes) (\<lambda>sdp. Inr (serialize (relay_endpoint now_secs addr port sdp)))"

subsection \<open>Packet times\<close>

definition first_ptime :: "sdp_attribute list \<Rightarrow> nat option" where
  "first_ptime as =
     (case find (is_value ''ptime'') as of Some (Attr k v) \<Rightarrow> parse_uint 32 (trim v) | _ \<Rightarrow> None)"

definition extract_ptime_from_offer :: "string \<Rightarrow> sdp_error + nat option" where
  "extract_ptime_from_offer offer_bytes =
     (case read_sdp offer_bytes of
        Inl e \<Rightarrow> if e = SlicePanic then Inl SlicePanic else Inr None
      | Inr sdp \<Rightarrow> Inr (Option.bind (find_audio sdp) (\<lambda>m. first_ptime (md_attributes m))))"

definition add_ptime :: "nat \<Rightarrow> media_description \<Rightarrow> media_description" where
  "add_ptime ptime_ms audio =
     (if list_ex (is_value ''ptime'') (md_attributes audio) then audio else push_attrs [Attr ''ptime'' (dec ptime_ms)] audio)"

definition ensure_ptime_in_answer :: "string \<Rightarrow> nat \<Rightarrow> sdp_error + string" where
  "ensure_ptime_in_answer answer_bytes ptime_ms =
     best_effort (\<lambda>sdp. if find_audio sdp = None then answer_bytes else serialize (on_audio (add_ptime ptime_ms) sdp)) answer_bytes"

subsection \<open>Offers of the program\<close>

definition pcmu_offer :: "nat \<Rightarrow> ip_addr \<Rightarrow> nat \<Rightarrow> nat \<Rightarrow> session_description" where
  "pcmu_offer now_secs addr port ptime_ms =
     \<lparr>sd_version = 0,
      sd_origin = \<lparr>or_username = ''-'', or_session_id = now_secs, or_session_version = now_secs, or_address = addr\<rparr>,
      sd_session_name = ''-'', sd_connection = Some addr, sd_timing = \<lparr>ti_start = 0, ti_stop = 0\<rparr>, sd_attributes = [],
      sd_media = [\<lparr>md_media = ''audio'', md_port = port, md_protocol = ''RTP/AVP'', md_formats = [''0''], md_connection = None,
        md_attributes = [Attr ''rtpmap'' ''0 PCMU/8000'', Attr ''ptime'' (dec ptime_ms)]\<rparr>]\<rparr>"

definition pcmu_offer_with_dtmf :: "nat \<Rightarrow> ip_addr \<Rightarrow> nat \<Rightarrow> nat \<Rightarrow> session_description" where
  "pcmu_offer_with_dtmf now_secs addr port ptime_ms =
     (let sdp = pcmu_offer now_secs addr port ptime_ms; media = sd_media sdp ! 0
      in sdp\<lparr>sd_media := (sd_media sdp)[0 := media\<lparr>md_formats := md_formats media @ [dec DTMF_PAYLOAD_TYPE],
           md_attributes := md_attributes media
             @ [Attr ''rtpmap'' (dec DTMF_PAYLOAD_TYPE @ '' telephone-event/8000''),
                Attr ''fmtp'' (dec DTMF_PAYLOAD_TYPE @ '' 0-15'')]\<rparr>]\<rparr>)"

subsection \<open>Answers\<close>

text \<open>The table of \<^verbatim>\<open>is_unsupported_by_ngn_answer\<close> is that of the negotiator, and
  \<^verbatim>\<open>pt_of_rtpmap_or_fmtp_value\<close> is its reading of a payload type.\<close>

definition is_unsupported_by_ngn_answer :: "sdp_attribute \<Rightarrow> bool" where
  "is_unsupported_by_ngn_answer a =
     (case a of Attr k _ \<Rightarrow> k \<in> set webrtc_values | Property p \<Rightarrow> p \<in> set webrtc_properties)"

definition pt_of_rtpmap_or_fmtp_value :: "string \<Rightarrow> nat option" where
  "pt_of_rtpmap_or_fmtp_value v = (case split_whitespace v of [] \<Rightarrow> None | p # _ \<Rightarrow> parse_uint 8 p)"

definition keep_answer_attr :: "string list \<Rightarrow> sdp_attribute \<Rightarrow> bool" where
  "keep_answer_attr keep_pts a =
     (if is_unsupported_by_ngn_answer a then False
      else case a of
        Attr k v \<Rightarrow>
          if k = ''rtpmap'' \<or> k = ''fmtp'' then
            (case pt_of_rtpmap_or_fmtp_value v of Some pt \<Rightarrow> dec pt \<in> set keep_pts | None \<Rightarrow> False)
          else True
      | Property _ \<Rightarrow> True)"

definition answer_subset :: "string list \<Rightarrow> session_description \<Rightarrow> session_description" where
  "answer_subset keep_pts sdp =
     on_audio (\<lambda>audio. retain_attrs (keep_answer_attr keep_pts) (audio\<lparr>md_formats := keep_pts\<rparr>))
       (sdp\<lparr>sd_attributes := filter (\<lambda>a. \<not> is_unsupported_by_ngn_answer a) (sd_attributes sdp)\<rparr>)"

definition build_answer_with_format_subset :: "string \<Rightarrow> string list \<Rightarrow> sdp_error + string" where
  "build_answer_with_format_subset ext_answer keep_pts =
     res_bind (read_sdp ext_answer) (\<lambda>sdp.
       if find_audio sdp = None then Inl NoAudio else Inr (serialize (answer_subset keep_pts sdp)))"

definition parse_audio_formats :: "string \<Rightarrow> sdp_error + string list" where
  "parse_audio_formats sdp_bytes =
     res_bind (read_sdp sdp_bytes) (\<lambda>sdp. ok_or NoAudio (map_option md_formats (find_audio sdp)))"

definition restrict_answer_to_ngn_offer_subset :: "string \<Rightarrow> string \<Rightarrow> sdp_error + string" where
  "restrict_answer_to_ngn_offer_subset ngn_offer ext_answer =
     res_bind (parse_audio_formats ngn_offer) (\<lambda>offer_formats.
     res_bind (parse_audio_formats ext_answer) (\<lambda>answer_formats.
       let intersection = filter (\<lambda>pt. pt \<in> set answer_formats) offer_formats
       in if intersection = [] then Inl NoCommonFormat else build_answer_with_format_subset ext_answer intersection))"

section \<open>Readable results\<close>

definition good_text :: "string \<Rightarrow> bool" where
  "good_text v \<longleftrightarrow> sdp_text v \<and> valid_utf8 v"

definition good_params :: "dtls_ice_params \<Rightarrow> bool" where
  "good_params p \<longleftrightarrow>
     list_all good_text [dp_ice_ufrag p, dp_ice_pwd p, dp_fingerprint p, dp_setup p, cname_or_default p,
       msid_stream_id_or_default p, msid_track_id_or_default p]"

lemma good_text_append: "good_text v \<Longrightarrow> good_text w \<Longrightarrow> good_text (v @ w)"
  by (auto simp: good_text_def sdp_text_def valid_utf8_append last_append split: if_splits)

lemma good_text_lit: "\<forall>c \<in> set v. octet_of c < 0x80 \<and> c \<noteq> LF \<and> c \<noteq> CR \<Longrightarrow> good_text v"
  using ascii_text_good [of v] by (auto simp: good_text_def)

lemma good_text_dec: "good_text (dec n)"
  using graphic_text [OF dec_graphic] dec_utf8 by (simp add: good_text_def)

lemma attr_text_good: "good_text v \<Longrightarrow> list_all graphic k \<Longrightarrow> CHR '':'' \<notin> set k \<Longrightarrow> good_attr (Attr k v)"
  using attr_good by (simp add: good_text_def)

lemma protocol_good: "good_media m \<Longrightarrow> is_word pr \<Longrightarrow> validate_proto pr = Inr pr \<Longrightarrow> valid_utf8 pr \<Longrightarrow>
    list_all good_attr as \<Longrightarrow> good_media (m\<lparr>md_protocol := pr, md_attributes := as\<rparr>)"
  by (simp add: good_media_def wf_media_def list_all_iff good_attr_def)

lemma profiles:
  "is_word ''RTP/AVP''" "validate_proto ''RTP/AVP'' = Inr ''RTP/AVP''" "valid_utf8 ''RTP/AVP''"
  "is_word ''UDP/TLS/RTP/SAVPF''" "validate_proto ''UDP/TLS/RTP/SAVPF'' = Inr ''UDP/TLS/RTP/SAVPF''" "valid_utf8 ''UDP/TLS/RTP/SAVPF''"
proof -
  show "is_word ''RTP/AVP''" "is_word ''UDP/TLS/RTP/SAVPF''"
    by (intro graphic_word; simp add: graphic_def octet_of_def)+
  show "validate_proto ''RTP/AVP'' = Inr ''RTP/AVP''" "validate_proto ''UDP/TLS/RTP/SAVPF'' = Inr ''UDP/TLS/RTP/SAVPF''"
    by (simp_all add: validate_proto_def is_rfc4566_token_char_def octet_of_def)
  show "valid_utf8 ''RTP/AVP''" "valid_utf8 ''UDP/TLS/RTP/SAVPF''" by (simp_all add: valid_utf8_ascii octet_of_def)
qed

lemma savpf_audio_good: "good_params p \<Longrightarrow> good_media m \<Longrightarrow> good_media (savpf_audio p ssrc m)"
proof -
  assume p: "good_params p" and m: "good_media m"
  have t: "good_text (dp_ice_ufrag p)" "good_text (dp_ice_pwd p)" "good_text (dp_fingerprint p)" "good_text (dp_setup p)"
    "good_text (cname_or_default p)" "good_text (msid_stream_id_or_default p)" "good_text (msid_track_id_or_default p)"
    using p by (simp_all add: good_params_def)
  have lit: "good_text '' ''" "good_text '' cname:''" "good_text '' msid:''" "good_text ''0''"
    by (intro good_text_lit; simp add: octet_of_def)+
  have keys: "list_all (\<lambda>k. list_all graphic k \<and> CHR '':'' \<notin> set k)
      [''rtcp-mux'', ''rtcp'', ''ice-ufrag'', ''ice-pwd'', ''fingerprint'', ''setup'', ''mid'', ''sendrecv'', ''msid'', ''ssrc'']"
    by (simp add: graphic_def octet_of_def)
  have k: "good_attr (Property ''rtcp-mux'')" "good_attr (Property ''sendrecv'')"
    using keys by (intro attr_good; simp)+
  have a: "good_attr (Attr ''rtcp'' (dec n))" "good_attr (Attr ''ice-ufrag'' (dp_ice_ufrag p))" "good_attr (Attr ''ice-pwd'' (dp_ice_pwd p))"
    "good_attr (Attr ''fingerprint'' (dp_fingerprint p))" "good_attr (Attr ''setup'' (dp_setup p))" "good_attr (Attr ''mid'' ''0'')"
    "good_attr (Attr ''msid'' (msid_stream_id_or_default p @ '' '' @ msid_track_id_or_default p))"
    "good_attr (Attr ''ssrc'' (dec n @ '' cname:'' @ cname_or_default p))"
    "good_attr (Attr ''ssrc'' (dec n @ '' msid:'' @ msid_stream_id_or_default p @ '' '' @ msid_track_id_or_default p))" for n
    using keys by (intro attr_text_good good_text_append good_text_dec t lit; simp)+
  have "list_all good_attr (filter (\<lambda>a. attr_key a \<notin> set savpf_media_keys) (md_attributes m))"
    using m by (simp add: good_media_def list_all_iff)
  then show ?thesis
    unfolding savpf_audio_def Let_def using k a by (intro protocol_good profiles m) simp
qed

interpretation avp: sdp_transform to_avp
proof
  fix s
  assume g: "good_sdp s"
  then have "good_sdp (s\<lparr>sd_attributes := filter (\<lambda>a. attr_key a \<notin> set avp_session_removed) (sd_attributes s)\<rparr>)"
    by (simp add: good_sdp_def wf_sdp_def list_all_iff)
  moreover have "good_media (avp_audio m)" if "good_media m" for m
    unfolding avp_audio_def using that protocol_good [OF that profiles(1-3), of "md_attributes m"]
    by (intro retain_attrs_good) (simp add: good_media_def)
  ultimately show "good_sdp (to_avp s)" unfolding to_avp_def by (intro on_audio_good)
qed

lemma to_savpf_good: "good_params p \<Longrightarrow> good_sdp s \<Longrightarrow> good_sdp (to_savpf p s)"
proof -
  assume p: "good_params p" and g: "good_sdp s"
  have "good_text ''BUNDLE 0''" "good_text ''WMS *''" "good_text ''trickle''" "good_text (dp_fingerprint p)"
    using p by (auto simp: good_params_def octet_of_def intro!: good_text_lit)
  then have a: "good_attr (Attr ''group'' ''BUNDLE 0'')" "good_attr (Attr ''msid-semantic'' ''WMS *'')"
    "good_attr (Attr ''ice-options'' ''trickle'')" "good_attr (Attr ''fingerprint'' (dp_fingerprint p))"
    by (intro attr_text_good; simp add: graphic_def octet_of_def)+
  then have "list_all good_attr (sd_attributes (savpf_session p s))"
    using g by (simp add: savpf_session_def good_sdp_def list_all_iff)
  then have "good_sdp (savpf_session p s)"
    using g by (simp add: savpf_session_def good_sdp_def wf_sdp_def list_all_iff good_attr_def)
  then show ?thesis unfolding to_savpf_def using savpf_audio_good [OF p] by (intro on_audio_good)
qed

section \<open>Properties\<close>

text \<open>What is left of a description that went to a browser and came back.\<close>

definition avp_view :: "session_description \<Rightarrow> session_description" where
  "avp_view s = on_audio
     (\<lambda>m. m\<lparr>md_protocol := ''RTP/AVP'',
        md_attributes := filter (\<lambda>a. attr_key a \<notin> set avp_media_removed) (md_attributes m)
          @ (if list_ex is_direction (md_attributes m) then [] else [Property ''sendrecv''])\<rparr>)
     (s\<lparr>sd_attributes := filter (\<lambda>a. attr_key a \<notin> set avp_session_removed) (sd_attributes s)\<rparr>)"

lemma savpf_avp_audio: "avp_audio (savpf_audio p ssrc m) = m\<lparr>md_protocol := ''RTP/AVP'',
        md_attributes := filter (\<lambda>a. attr_key a \<notin> set avp_media_removed) (md_attributes m)
          @ (if list_ex is_direction (md_attributes m) then [] else [Property ''sendrecv''])\<rparr>"
proof -
  let ?f = "filter (\<lambda>a. attr_key a \<notin> set savpf_media_keys) (md_attributes m)"
  have sub: "set savpf_media_keys \<subseteq> set avp_media_removed" by (simp add: savpf_media_keys_def avp_media_removed_def)
  then have f: "filter (\<lambda>a. attr_key a \<notin> set avp_media_removed) ?f = filter (\<lambda>a. attr_key a \<notin> set avp_media_removed) (md_attributes m)"
    unfolding filter_filter by (intro filter_cong refl) blast
  have "is_direction a \<Longrightarrow> attr_key a \<notin> set savpf_media_keys" for a by (auto simp: is_direction_def savpf_media_keys_def)
  then have "list_ex is_direction ?f = list_ex is_direction (md_attributes m)" by (auto simp: list_ex_iff)
  moreover have "\<not> is_direction (Property ''rtcp-mux'')" "\<not> is_direction (Attr ''rtcp'' v)" "\<not> is_direction (Attr ''ice-ufrag'' v)"
    "\<not> is_direction (Attr ''ice-pwd'' v)" "\<not> is_direction (Attr ''fingerprint'' v)" "\<not> is_direction (Attr ''setup'' v)"
    "\<not> is_direction (Attr ''mid'' v)" for v
    by (simp_all add: is_direction_def)
  moreover have "''sendrecv'' \<notin> set avp_media_removed" "{''rtcp-mux'', ''rtcp'', ''ice-ufrag'', ''ice-pwd'', ''fingerprint'',
      ''setup'', ''mid'', ''msid'', ''ssrc''} \<subseteq> set avp_media_removed"
    by (simp_all add: avp_media_removed_def)
  ultimately show ?thesis using f
    by (simp add: avp_audio_def savpf_audio_def Let_def retain_attrs_def)
qed

lemma find_audio_attrs [simp]: "find_audio (s\<lparr>sd_attributes := as\<rparr>) = find_audio s"
  "find_audio (s\<lparr>sd_origin := og, sd_connection := c\<rparr>) = find_audio s"
  by (simp_all add: find_audio_def)

lemma media_of [simp]:
  "md_media (savpf_audio p ssrc m) = md_media m" "md_media (avp_audio m) = md_media m" "md_media (relay_audio port m) = md_media m"
  "md_media (add_ptime n m) = md_media m"
  by (simp_all add: savpf_audio_def avp_audio_def relay_audio_def add_ptime_def Let_def)

lemma find_to_savpf: "find_audio (to_savpf p s) = map_option (savpf_audio p (ssrc_or_default p (of_nat (or_session_id (sd_origin s))))) (find_audio s)"
  unfolding to_savpf_def by (subst find_on_audio) (simp_all add: savpf_session_def)

lemma savpf_avp: "to_avp (to_savpf p s) = avp_view s"
proof -
  let ?ssrc = "ssrc_or_default p (of_nat (or_session_id (sd_origin s)))"
  let ?s = "s\<lparr>sd_attributes := filter (\<lambda>a. attr_key a \<notin> set avp_session_removed) (sd_attributes s)\<rparr>"
  have sub: "set savpf_session_keys \<subseteq> set avp_session_removed" by (simp add: savpf_session_keys_def avp_session_removed_def)
  have f: "filter (\<lambda>a. attr_key a \<notin> set avp_session_removed) (filter (\<lambda>a. attr_key a \<notin> set savpf_session_keys) as)
      = filter (\<lambda>a. attr_key a \<notin> set avp_session_removed) as" for as
    unfolding filter_filter using sub by (intro filter_cong refl) blast
  have "''group'' \<in> set avp_session_removed" "''msid-semantic'' \<in> set avp_session_removed"
    "''ice-options'' \<in> set avp_session_removed" "''fingerprint'' \<in> set avp_session_removed"
    by (simp_all add: avp_session_removed_def)
  then have "to_avp (to_savpf p s) = on_audio avp_audio (on_audio (savpf_audio p ?ssrc) ?s)"
    by (simp add: to_avp_def to_savpf_def on_audio_def savpf_session_def f [unfolded filter_filter])
  also have "\<dots> = on_audio (avp_audio \<circ> savpf_audio p ?ssrc) ?s" by (rule on_audio_comp) simp
  finally show ?thesis by (simp add: avp_view_def savpf_avp_audio comp_def)
qed



subsection \<open>Endpoint\<close>

lemma set_rtcp_good: "good_attr a \<Longrightarrow> good_attr (set_rtcp_port (dec n) a)"
  using attr_text_good [OF good_text_dec, of "''rtcp''" n] by (cases a) (simp_all add: set_rtcp_port_def graphic_def octet_of_def)

lemma relay_endpoint_good:
  assumes "good_sdp s" "wf_ip addr" "port < 2 ^ 16" "now < 2 ^ 64"
  shows "good_sdp (relay_endpoint now addr port s)"
  unfolding relay_endpoint_def
proof (rule on_audio_good)
  have "is_word ''-''" by (intro graphic_word) (simp_all add: graphic_def octet_of_def)
  moreover have "wf_origin (sd_origin s)" using assms(1) by (simp add: good_sdp_def wf_sdp_def)
  ultimately have "wf_origin (relay_origin now addr (sd_origin s))"
    using assms by (simp add: wf_origin_def relay_origin_def)
  then show "good_sdp (s\<lparr>sd_origin := relay_origin now addr (sd_origin s), sd_connection := Some addr\<rparr>)"
    using assms(1,2) by (simp add: good_sdp_def wf_sdp_def) (simp add: relay_origin_def valid_utf8_ascii octet_of_def)
next
  fix m
  assume m: "good_media m"
  have "list_all good_attr (map (set_rtcp_port (dec (min (port + 1) 65535))) (md_attributes m))"
    using m set_rtcp_good by (auto simp: good_media_def list_all_iff)
  then show "good_media (relay_audio port m)"
    using m assms(3) by (simp add: good_media_def wf_media_def relay_audio_def) (simp add: list_all_iff good_attr_def)
qed

text \<open>After the rewriting both directions of the voice pass the relay: the description has the relay's address
  as origin and as its only connection, the audio section the relay's port and, where it names
  one, the port after it for RTCP; the version counts up by one, and the session number fits 32
  bits when the clock does. Formats, times, other sections and all other attributes stay.\<close>

theorem relay_endpoint_exact:
  assumes "read_sdp b = Inr s" "wf_ip addr" "port < 2 ^ 16" "now_secs < 2 ^ 32"
  shows "\<exists>b' s'. rewrite_rtp_endpoint now_secs b addr port = Inr b' \<and> read_sdp b' = Inr s'
    \<and> sd_connection s' = Some addr \<and> or_address (sd_origin s') = addr
    \<and> or_session_version (sd_origin s') = (or_session_version (sd_origin s) + 1) mod 2 ^ 64
    \<and> or_session_id (sd_origin s') < 2 ^ 32
    \<and> (or_session_id (sd_origin s) < 2 ^ 32 \<longrightarrow> or_session_id (sd_origin s') = or_session_id (sd_origin s))
    \<and> map_option (\<lambda>m. (md_port m, md_connection m)) (find_audio s') = map_option (\<lambda>_. (port, None)) (find_audio s)
    \<and> map_option (\<lambda>m. filter (\<lambda>a. \<not> is_value ''rtcp'' a) (md_attributes m)) (find_audio s')
        = map_option (\<lambda>m. filter (\<lambda>a. \<not> is_value ''rtcp'' a) (md_attributes m)) (find_audio s)
    \<and> pred_option (\<lambda>m. \<forall>v. Attr ''rtcp'' v \<in> set (md_attributes m) \<longrightarrow> v = dec (min (port + 1) 65535)) (find_audio s')
    \<and> map_option md_formats (find_audio s') = map_option md_formats (find_audio s)
    \<and> sd_timing s' = sd_timing s \<and> sd_attributes s' = sd_attributes s"
proof (intro exI conjI)
  let ?s = "relay_endpoint now_secs addr port s"
  show "rewrite_rtp_endpoint now_secs b addr port = Inr (serialize ?s)" using assms(1) by (simp add: rewrite_rtp_endpoint_def)
  show "read_sdp (serialize ?s) = Inr ?s"
    using assms by (intro read_serialize relay_endpoint_good) (simp_all add: read_sdp_good)
  show "sd_connection ?s = Some addr" "or_address (sd_origin ?s) = addr"
    "or_session_version (sd_origin ?s) = (or_session_version (sd_origin s) + 1) mod 2 ^ 64"
    "or_session_id (sd_origin ?s) < 2 ^ 32" "sd_timing ?s = sd_timing s" "sd_attributes ?s = sd_attributes s"
    "or_session_id (sd_origin s) < 2 ^ 32 \<longrightarrow> or_session_id (sd_origin ?s) = or_session_id (sd_origin s)"
    using assms(4) by (simp_all add: relay_endpoint_def relay_origin_def)
  have f: "find_audio ?s = map_option (relay_audio port) (find_audio s)"
    unfolding relay_endpoint_def by (subst find_on_audio) simp_all
  have a: "filter (\<lambda>a. \<not> is_value ''rtcp'' a) (map (set_rtcp_port v) as) = filter (\<lambda>a. \<not> is_value ''rtcp'' a) as" for v as
    by (induction as) (auto simp: set_rtcp_port_def is_value_def split: sdp_attribute.splits)
  have r: "Attr ''rtcp'' w \<in> set (map (set_rtcp_port v) as) \<Longrightarrow> w = v" for v w as
    by (auto simp: set_rtcp_port_def split: sdp_attribute.splits if_splits)
  show "map_option (\<lambda>m. (md_port m, md_connection m)) (find_audio ?s) = map_option (\<lambda>_. (port, None)) (find_audio s)"
    "map_option (\<lambda>m. filter (\<lambda>a. \<not> is_value ''rtcp'' a) (md_attributes m)) (find_audio ?s)
        = map_option (\<lambda>m. filter (\<lambda>a. \<not> is_value ''rtcp'' a) (md_attributes m)) (find_audio s)"
    "map_option md_formats (find_audio ?s) = map_option md_formats (find_audio s)"
    unfolding f by (cases "find_audio s"; simp add: relay_audio_def a)+
  show "pred_option (\<lambda>m. \<forall>v. Attr ''rtcp'' v \<in> set (md_attributes m) \<longrightarrow> v = dec (min (port + 1) 65535)) (find_audio ?s)"
    unfolding f by (cases "find_audio s") (simp_all add: relay_audio_def r del: set_map)
qed

theorem relay_endpoint_exact_witness:
  "\<exists>b' s'. rewrite_rtp_endpoint 100 (serialize sdp_ex) (V4 192 0 2 9) 40000 = Inr b' \<and> read_sdp b' = Inr s'
    \<and> sd_connection s' = Some (V4 192 0 2 9) \<and> or_session_version (sd_origin s') = 8"
proof -
  have "or_session_version (sd_origin sdp_ex) = 7" by (simp add: sdp_ex_def)
  with relay_endpoint_exact [OF read_serialize [OF good_sdp_ex], of "V4 192 0 2 9" 40000 100] show ?thesis by auto
qed

subsection \<open>Answers\<close>

lemma answer_subset_good:
  assumes "good_sdp s" "ks \<noteq> []" "list_all is_word ks" "list_all valid_utf8 ks"
  shows "good_sdp (answer_subset ks s)"
  unfolding answer_subset_def
proof (rule on_audio_good)
  show "good_sdp (s\<lparr>sd_attributes := filter (\<lambda>a. \<not> is_unsupported_by_ngn_answer a) (sd_attributes s)\<rparr>)"
    using assms(1) by (simp add: good_sdp_def wf_sdp_def list_all_iff)
  fix m
  assume "good_media m"
  then show "good_media (retain_attrs (keep_answer_attr ks) (m\<lparr>md_formats := ks\<rparr>))"
    using assms(2-4) by (intro retain_attrs_good) (simp add: good_media_def wf_media_def)
qed

text \<open>C35. The answer sent to the carrier offers exactly the formats both sides have, in the order
  of the carrier's offer, and is refused when there is none; every map and parameter line names
  one of these formats, nothing of WebRTC is left, and port and connection are the answer's.\<close>

theorem answer_intersection_exact:
  assumes "read_sdp ngn_offer = Inr so" "find_audio so = Some mo" "read_sdp ext_answer = Inr sa" "find_audio sa = Some ma"
  defines "common \<equiv> filter (\<lambda>f. f \<in> set (md_formats ma)) (md_formats mo)"
  shows "(common = [] \<longrightarrow> restrict_answer_to_ngn_offer_subset ngn_offer ext_answer = Inl NoCommonFormat)
    \<and> (common \<noteq> [] \<longrightarrow> (\<exists>b' s' m'. restrict_answer_to_ngn_offer_subset ngn_offer ext_answer = Inr b'
        \<and> read_sdp b' = Inr s' \<and> find_audio s' = Some m' \<and> md_formats m' = common
        \<and> md_port m' = md_port ma \<and> md_connection m' = md_connection ma
        \<and> list_all (\<lambda>a. \<not> is_unsupported_by_ngn_answer a) (md_attributes m' @ sd_attributes s')
        \<and> (\<forall>k v. Attr k v \<in> set (md_attributes m') \<longrightarrow> k = ''rtpmap'' \<or> k = ''fmtp'' \<longrightarrow>
             (\<exists>pt. pt_of_rtpmap_or_fmtp_value v = Some pt \<and> dec pt \<in> set common))))"
proof (intro conjI impI)
  have p: "parse_audio_formats ngn_offer = Inr (md_formats mo)" "parse_audio_formats ext_answer = Inr (md_formats ma)"
    using assms(1-4) by (simp_all add: parse_audio_formats_def)
  then show "restrict_answer_to_ngn_offer_subset ngn_offer ext_answer = Inl NoCommonFormat" if "common = []"
    using that by (simp add: restrict_answer_to_ngn_offer_subset_def common_def)
  assume ne: "common \<noteq> []"
  let ?s = "answer_subset common sa"
  let ?m = "retain_attrs (keep_answer_attr common) (ma\<lparr>md_formats := common\<rparr>)"
  have "good_media mo" using read_sdp_good [OF assms(1)] find_Some_mem assms(2)
    by (fastforce simp: good_sdp_def find_audio_def list_all_iff)
  then have "list_all is_word common" "list_all valid_utf8 common" by (auto simp: good_media_def wf_media_def common_def list_all_iff)
  then have r: "read_sdp (serialize ?s) = Inr ?s" using read_sdp_good [OF assms(3)] ne by (intro read_serialize answer_subset_good)
  have "restrict_answer_to_ngn_offer_subset ngn_offer ext_answer = Inr (serialize ?s)"
    using p ne assms(3,4) by (simp add: restrict_answer_to_ngn_offer_subset_def build_answer_with_format_subset_def Let_def common_def)
  moreover have "find_audio ?s = Some ?m"
    unfolding answer_subset_def using assms(4) by (subst find_on_audio) simp_all
  moreover have "list_all (\<lambda>a. \<not> is_unsupported_by_ngn_answer a) (md_attributes ?m @ sd_attributes ?s)"
    by (auto simp: list_all_iff keep_answer_attr_def answer_subset_def)
  moreover have "\<exists>pt. pt_of_rtpmap_or_fmtp_value v = Some pt \<and> dec pt \<in> set common"
    if "Attr k v \<in> set (md_attributes ?m)" "k = ''rtpmap'' \<or> k = ''fmtp''" for k v
    using that by (auto simp: keep_answer_attr_def split: option.splits if_splits)
  moreover have "md_formats ?m = common" "md_port ?m = md_port ma" "md_connection ?m = md_connection ma" by simp_all
  ultimately show "\<exists>b' s' m'. restrict_answer_to_ngn_offer_subset ngn_offer ext_answer = Inr b'
        \<and> read_sdp b' = Inr s' \<and> find_audio s' = Some m' \<and> md_formats m' = common
        \<and> md_port m' = md_port ma \<and> md_connection m' = md_connection ma
        \<and> list_all (\<lambda>a. \<not> is_unsupported_by_ngn_answer a) (md_attributes m' @ sd_attributes s')
        \<and> (\<forall>k v. Attr k v \<in> set (md_attributes m') \<longrightarrow> k = ''rtpmap'' \<or> k = ''fmtp'' \<longrightarrow>
             (\<exists>pt. pt_of_rtpmap_or_fmtp_value v = Some pt \<and> dec pt \<in> set common))"
    using r by blast
qed

theorem answer_intersection_exact_witness:
  "\<exists>b' s' m'. restrict_answer_to_ngn_offer_subset (serialize sdp_ex) (serialize sdp_ex) = Inr b'
    \<and> read_sdp b' = Inr s' \<and> find_audio s' = Some m' \<and> md_formats m' = [''0'']"
proof -
  have "md_formats (hd (sd_media sdp_ex)) = [''0'']" by (simp add: sdp_ex_def)
  with answer_intersection_exact [OF read_serialize [OF good_sdp_ex] sdp_ex_audio read_serialize [OF good_sdp_ex] sdp_ex_audio]
  show ?thesis by auto
qed

subsection \<open>Packet times and own offers\<close>

text \<open>The packet time of an offer is echoed: when the answer had none, it has the one it was
  given, and one it had is kept.\<close>

theorem ptime_echoed:
  assumes "read_sdp b = Inr s" "find_audio s = Some m" "n < 2 ^ 32"
  shows "\<exists>b'. ensure_ptime_in_answer b n = Inr b'
    \<and> extract_ptime_from_offer b' = Inr (if list_ex (is_value ''ptime'') (md_attributes m) then first_ptime (md_attributes m) else Some n)"
proof -
  let ?s = "on_audio (add_ptime n) s"
  have "good_attr (Attr ''ptime'' (dec n))" by (intro attr_text_good good_text_dec) (simp_all add: graphic_def octet_of_def)
  then have "good_sdp ?s"
    using read_sdp_good [OF assms(1)] push_attrs_good by (intro on_audio_good) (simp_all add: add_ptime_def)
  then have r: "read_sdp (serialize ?s) = Inr ?s" by (rule read_serialize)
  have f: "find_audio ?s = Some (add_ptime n m)" using assms(2) by (subst find_on_audio) simp_all
  have t: "trim (dec n) = dec n" using dec_graphic by (rule trim_graphic)
  have "first_ptime (md_attributes (add_ptime n m)) = (if list_ex (is_value ''ptime'') (md_attributes m) then first_ptime (md_attributes m) else Some n)"
  proof (cases "list_ex (is_value ''ptime'') (md_attributes m)")
    case False
    then have "find (is_value ''ptime'') (md_attributes m @ [Attr ''ptime'' (dec n)]) = Some (Attr ''ptime'' (dec n))"
      by (induction "md_attributes m") (auto simp: is_value_def find_Some_filter filter_empty_conv list_ex_iff)
    then show ?thesis using False assms(3) t by (simp add: add_ptime_def first_ptime_def parse_uint_dec)
  qed (simp add: add_ptime_def)
  then show ?thesis using r f assms(1,2)
    by (simp add: ensure_ptime_in_answer_def best_effort_def extract_ptime_from_offer_def)
qed

lemma pcmu_offer_good:
  assumes "wf_ip addr" "port < 2 ^ 16" "now < 2 ^ 64"
  shows "good_sdp (pcmu_offer now addr port ptime)"
proof -
  have w: "is_word ''-''" "is_word ''audio''" "is_word ''0''" by (intro graphic_word; simp add: graphic_def octet_of_def)+
  have "good_attr (Attr ''rtpmap'' ''0 PCMU/8000'')" using pcmu_ok by (simp add: codec_ok_def PCMU_def)
  moreover have "good_attr (Attr ''ptime'' (dec ptime))" by (intro attr_text_good good_text_dec) (simp_all add: graphic_def octet_of_def)
  ultimately have "list_all good_media (sd_media (pcmu_offer now addr port ptime))"
    using w profiles assms(2) by (simp add: pcmu_offer_def good_media_def wf_media_def good_attr_def valid_utf8_ascii octet_of_def)
  moreover from this have "list_all wf_media (sd_media (pcmu_offer now addr port ptime))" by (simp add: list_all_iff good_media_def)
  ultimately show ?thesis using w assms unfolding good_sdp_def wf_sdp_def
    by (simp add: pcmu_offer_def wf_origin_def wf_timing_def sdp_text_def valid_utf8_ascii octet_of_def)
qed

text \<open>The program's own offer is readable and tells its packet time.\<close>

theorem pcmu_offer_read:
  assumes "wf_ip addr" "port < 2 ^ 16" "now < 2 ^ 64" "ptime < 2 ^ 32"
  shows "read_sdp (serialize (pcmu_offer now addr port ptime)) = Inr (pcmu_offer now addr port ptime)
    \<and> extract_ptime_from_offer (serialize (pcmu_offer now addr port ptime)) = Inr (Some ptime)"
proof -
  have r: "read_sdp (serialize (pcmu_offer now addr port ptime)) = Inr (pcmu_offer now addr port ptime)"
    using pcmu_offer_good [OF assms(1-3)] by (rule read_serialize)
  moreover have "find_audio (pcmu_offer now addr port ptime) = Some (hd (sd_media (pcmu_offer now addr port ptime)))"
    by (simp add: find_audio_def pcmu_offer_def is_audio_def)
  moreover have "first_ptime (md_attributes (hd (sd_media (pcmu_offer now addr port ptime)))) = Some ptime"
    using trim_graphic [OF dec_graphic, of ptime] assms(4) by (simp add: pcmu_offer_def first_ptime_def is_value_def parse_uint_dec)
  ultimately show ?thesis by (simp add: extract_ptime_from_offer_def)
qed

end
