(* ===== verification/Call_Manager.thy ===== *)
theory Call_Manager
  imports Sdp_Builder
begin

text \<open>
  The table of calls and the forking of an incoming call (\<^verbatim>\<open>call/manager.rs\<close>, \<^verbatim>\<open>call/mod.rs\<close>).
  A media bridge and a SIP response are type parameters. The workers that call the extensions
  are seen by the loop as the results they send: a list of results with their instants, in the
  order of the channel, and the instant at which the last worker is gone. A result that arrives
  at the deadline itself is too late.
\<close>

section \<open>The table\<close>

datatype call_state = Idle | Ringing | Connected | Terminated

record 'b call_entry =
  cen_id :: "64 word"
  cen_state :: call_state
  cen_bridge :: "'b option"

text \<open>The counter behind \<^verbatim>\<open>CallId::next\<close> is global to the process; the model keeps it with the table.\<close>

record 'b call_manager =
  cm_next_id :: "64 word"
  cm_calls :: "64 word \<rightharpoonup> 'b call_entry"

datatype call_error = UnknownCall "64 word" | NoBridge "64 word"

definition call_manager_new :: "'b call_manager" where
  "call_manager_new = \<lparr>cm_next_id = 1, cm_calls = Map.empty\<rparr>"

definition create_call :: "'b call_manager \<Rightarrow> 64 word \<times> 'b call_manager" where
  "create_call cm =
     (let i = cm_next_id cm
      in (i, cm\<lparr>cm_next_id := i + 1,
               cm_calls := (cm_calls cm)(i \<mapsto> \<lparr>cen_id = i, cen_state = Idle, cen_bridge = None\<rparr>)\<rparr>))"

definition call_transition :: "'b call_manager \<Rightarrow> 64 word \<Rightarrow> call_state \<Rightarrow> call_error + 'b call_manager" where
  "call_transition cm i st =
     (case cm_calls cm i of
        None \<Rightarrow> Inl (UnknownCall i)
      | Some e \<Rightarrow> Inr (cm\<lparr>cm_calls := (cm_calls cm)(i \<mapsto> e\<lparr>cen_state := st\<rparr>)\<rparr>))"

definition attach_media_bridge :: "'b call_manager \<Rightarrow> 64 word \<Rightarrow> 'b \<Rightarrow> call_error + 'b call_manager" where
  "attach_media_bridge cm i b =
     (case cm_calls cm i of
        None \<Rightarrow> Inl (UnknownCall i)
      | Some e \<Rightarrow> Inr (cm\<lparr>cm_calls := (cm_calls cm)(i \<mapsto> e\<lparr>cen_bridge := Some b, cen_state := Connected\<rparr>)\<rparr>))"

text \<open>The first component is the bridge that is stopped.\<close>

definition call_terminate :: "'b call_manager \<Rightarrow> 64 word \<Rightarrow> 'b option \<times> 'b call_manager" where
  "call_terminate cm i =
     (case cm_calls cm i of
        None \<Rightarrow> (None, cm)
      | Some e \<Rightarrow> (cen_bridge e, cm\<lparr>cm_calls := (cm_calls cm)(i := None)\<rparr>))"

text \<open>\<^verbatim>\<open>inject_to_ngn\<close> and \<^verbatim>\<open>inject_to_ext\<close>: the bridge the datagram is given to.\<close>

definition inject_bridge :: "'b call_manager \<Rightarrow> 64 word \<Rightarrow> call_error + 'b" where
  "inject_bridge cm i =
     (case cm_calls cm i of
        None \<Rightarrow> Inl (UnknownCall i)
      | Some e \<Rightarrow> ok_or (NoBridge i) (cen_bridge e))"

definition call_len :: "'b call_manager \<Rightarrow> nat" where
  "call_len cm = card (dom (cm_calls cm))"

definition state_of :: "'b call_manager \<Rightarrow> 64 word \<Rightarrow> call_state option" where
  "state_of cm i = map_option cen_state (cm_calls cm i)"

section \<open>Forking\<close>

datatype 'r leg_outcome = LegEstablished 'r | LegFailed nat | LegErrored

datatype 'r fork_result = ForkAnswered string 'r | AllFailed "nat option" | ForkTimeout

fun fork_loop ::
  "nat \<Rightarrow> nat \<Rightarrow> nat \<Rightarrow> nat \<Rightarrow> nat \<Rightarrow> nat option \<Rightarrow> (nat \<times> string \<times> 'r leg_outcome) list \<Rightarrow> 'r fork_result" where
  "fork_loop deadline closed_at n now received last_status [] =
     (if now \<ge> deadline then ForkTimeout
      else if closed_at < deadline then AllFailed last_status else ForkTimeout)"
| "fork_loop deadline closed_at n now received last_status ((t, uri, outcome) # rest) =
     (if now \<ge> deadline then ForkTimeout
      else if t \<ge> deadline then ForkTimeout
      else
        (case outcome of
           LegEstablished r \<Rightarrow> ForkAnswered uri r
         | LegFailed status \<Rightarrow>
             if received + 1 \<ge> n then AllFailed (Some status)
             else fork_loop deadline closed_at n t (received + 1) (Some status) rest
         | LegErrored \<Rightarrow>
             if received + 1 \<ge> n then AllFailed last_status
             else fork_loop deadline closed_at n t (received + 1) last_status rest))"

definition fork_to_extensions ::
  "string list \<Rightarrow> nat \<Rightarrow> nat \<Rightarrow> (nat \<times> string \<times> 'r leg_outcome) list \<Rightarrow> nat \<Rightarrow> 'r fork_result" where
  "fork_to_extensions targets start overall_timeout results closed_at =
     (if targets = [] then AllFailed None
      else fork_loop (start + overall_timeout) closed_at (length targets) start 0 None results)"

section \<open>Endpoint of the voice\<close>

definition extract_rtp_endpoint :: "string \<Rightarrow> sdp_error + socket_addr" where
  "extract_rtp_endpoint sdp_bytes =
     res_bind (read_sdp sdp_bytes) (\<lambda>sdp.
     res_bind (ok_or NoAudio (find_audio sdp)) (\<lambda>media.
     res_bind (ok_or (MissingLine CHR ''c'')
         (case md_connection media of Some a \<Rightarrow> Some a | None \<Rightarrow> sd_connection sdp)) (\<lambda>ip.
       Inr \<lparr>sa_ip = ip, sa_port = md_port media\<rparr>)))"

section \<open>Runs of the table\<close>

datatype 'b call_event = Create | Transition "64 word" call_state | Attach "64 word" 'b | Terminate "64 word"

text \<open>The second component is the list of the identifiers handed out so far.\<close>

fun manager_step :: "'b call_manager \<times> 64 word list \<Rightarrow> 'b call_event \<Rightarrow> 'b call_manager \<times> 64 word list" where
  "manager_step (cm, ids) Create = (let (i, cm') = create_call cm in (cm', ids @ [i]))"
| "manager_step (cm, ids) (Transition i st) = (case call_transition cm i st of Inr cm' \<Rightarrow> (cm', ids) | Inl _ \<Rightarrow> (cm, ids))"
| "manager_step (cm, ids) (Attach i b) = (case attach_media_bridge cm i b of Inr cm' \<Rightarrow> (cm', ids) | Inl _ \<Rightarrow> (cm, ids))"
| "manager_step (cm, ids) (Terminate i) = (snd (call_terminate cm i), ids)"

definition manager_inv :: "'b call_manager \<times> 64 word list \<Rightarrow> bool" where
  "manager_inv s \<longleftrightarrow>
     (let (cm, ids) = s
      in ids = map (\<lambda>k. of_nat (Suc k)) [0..<length ids] \<and> cm_next_id cm = of_nat (Suc (length ids))
         \<and> dom (cm_calls cm) \<subseteq> set ids
         \<and> (\<forall>i e. cm_calls cm i = Some e \<longrightarrow> cen_id e = i))"

interpretation manager: inv_machine manager_step manager_inv
proof
  fix s :: "'b call_manager \<times> 64 word list" and e
  assume i: "manager_inv s"
  obtain cm ids where s: "s = (cm, ids)" by fastforce
  show "manager_inv (manager_step s e)"
  proof (cases e)
    case Create
    have "ids @ [of_nat (Suc (length ids))] = map (\<lambda>k. of_nat (Suc k)) [0..<length (ids @ [of_nat (Suc (length ids)) :: 64 word])]"
      using i s by (simp add: manager_inv_def)
    then show ?thesis
      using i s Create by (auto simp: manager_inv_def create_call_def Let_def)
  qed (use i s in \<open>auto simp: manager_inv_def call_transition_def attach_media_bridge_def call_terminate_def split: option.splits\<close>)
qed

lemma of_nat_64_inj: "i < 2 ^ 64 \<Longrightarrow> j < 2 ^ 64 \<Longrightarrow> (of_nat i :: 64 word) = of_nat j \<longleftrightarrow> i = j"
  by (simp add: word_of_nat_eq_iff take_bit_nat_eq_self)

lemma ids_distinct:
  assumes "Suc n < 2 ^ 64"
  shows "distinct (map (\<lambda>k. of_nat (Suc k) :: 64 word) [0..<n])"
    and "(of_nat (Suc n) :: 64 word) \<notin> set (map (\<lambda>k. of_nat (Suc k)) [0..<n])"
proof -
  have i: "(of_nat (Suc k) :: 64 word) = of_nat (Suc j) \<longleftrightarrow> k = j" if "k \<le> n" "j \<le> n" for k j
    using that assms of_nat_64_inj [of "Suc k" "Suc j"] by (simp del: of_nat_Suc)
  then have "inj_on (\<lambda>k. of_nat (Suc k) :: 64 word) (set [0..<n])" by (intro inj_onI) (simp del: of_nat_Suc)
  then show "distinct (map (\<lambda>k. of_nat (Suc k) :: 64 word) [0..<n])" unfolding distinct_map by simp
  show "(of_nat (Suc n) :: 64 word) \<notin> set (map (\<lambda>k. of_nat (Suc k)) [0..<n])"
  proof
    assume "(of_nat (Suc n) :: 64 word) \<in> set (map (\<lambda>k. of_nat (Suc k)) [0..<n])"
    then obtain k where "k < n" "(of_nat (Suc n) :: 64 word) = of_nat (Suc k)" by (auto simp del: of_nat_Suc)
    with i [of n k] show False by simp
  qed
qed

section \<open>Properties\<close>

text \<open>Until the counter wraps, no identifier is given to two calls: in every run of the manager the
  identifiers are distinct and the next one was never used, so that creating a call never
  replaces another; every call in the table was created and not terminated.\<close>

theorem call_ids_fresh:
  fixes es :: "'b call_event list"
  assumes "run_steps manager_step (call_manager_new, []) es = (cm, ids)" "length ids + 1 < 2 ^ 64"
  shows "distinct ids \<and> fst (create_call cm) \<notin> set ids \<and> cm_calls cm (fst (create_call cm)) = None
    \<and> dom (cm_calls cm) \<subseteq> set ids
    \<and> call_len (snd (create_call cm)) = Suc (call_len cm)
    \<and> (i \<noteq> fst (create_call cm) \<longrightarrow> cm_calls (snd (create_call cm)) i = cm_calls cm i)"
proof -
  have "manager_inv (run_steps manager_step (call_manager_new, []) es)"
    by (rule manager.run_inv) (simp add: manager_inv_def call_manager_new_def)
  then have i: "ids = map (\<lambda>k. of_nat (Suc k)) [0..<length ids]" "cm_next_id cm = of_nat (Suc (length ids))"
    "dom (cm_calls cm) \<subseteq> set ids"
    unfolding assms(1) manager_inv_def Let_def prod.case by blast+
  have "Suc (length ids) < 2 ^ 64" using assms(2) by simp
  note d = ids_distinct [OF this, folded i(1)]
  have c: "fst (create_call cm) = cm_next_id cm" by (simp add: create_call_def Let_def)
  then have n: "fst (create_call cm) \<notin> set ids" using d(2) i(2) by simp
  then have f: "cm_calls cm (fst (create_call cm)) = None" using i(3) by auto
  moreover have "finite (dom (cm_calls cm))" using i(3) finite_subset by blast
  ultimately have "call_len (snd (create_call cm)) = Suc (call_len cm)"
    by (auto simp: call_len_def create_call_def Let_def domIff)
  then show ?thesis using d(1) n f i(3) by (auto simp: create_call_def Let_def)
qed

theorem call_ids_fresh_witness:
  "let (cm, ids) = run_steps manager_step (call_manager_new, []) [Create, Attach 1 (7 :: nat), Terminate 1]
   in fst (create_call cm) \<notin> set ids"
proof -
  obtain cm ids where r: "run_steps manager_step (call_manager_new, []) [Create, Attach 1 (7 :: nat), Terminate 1] = (cm, ids)"
    by fastforce
  then have "length ids = 1" by (simp add: create_call_def call_manager_new_def attach_media_bridge_def Let_def) auto
  with call_ids_fresh [OF r] r show ?thesis by simp
qed

text \<open>A call with a bridge is connected and gives its datagrams to that bridge until it is terminated, which
  returns the bridge to be stopped; after that the call is unknown.\<close>

theorem bridge_lifecycle:
  assumes "attach_media_bridge cm i b = Inr cm'"
  shows "state_of cm' i = Some Connected \<and> inject_bridge cm' i = Inr b
    \<and> fst (call_terminate cm' i) = Some b \<and> state_of (snd (call_terminate cm' i)) i = None
    \<and> inject_bridge (snd (call_terminate cm' i)) i = Inl (UnknownCall i)
    \<and> call_terminate (snd (call_terminate cm' i)) i = (None, snd (call_terminate cm' i))"
  using assms by (auto simp: attach_media_bridge_def state_of_def inject_bridge_def call_terminate_def split: option.splits)

text \<open>The reference for the loop over the results: of the results before the deadline the first that is
  an answer wins.\<close>

fun leg_status :: "'r leg_outcome \<Rightarrow> nat option" where
  "leg_status (LegFailed s) = Some s"
| "leg_status _ = None"

definition fork_spec :: "nat \<Rightarrow> (nat \<times> string \<times> 'r leg_outcome) list \<Rightarrow> 'r fork_result" where
  "fork_spec deadline results =
     (let seen = takeWhile (\<lambda>(t, _, _). t < deadline) results
      in case find (\<lambda>(_, _, oc). \<exists>r. oc = LegEstablished r) seen of
           Some (t, uri, oc) \<Rightarrow> (case oc of LegEstablished r \<Rightarrow> ForkAnswered uri r | _ \<Rightarrow> ForkTimeout)
         | None \<Rightarrow>
             if seen = results
             then AllFailed (case rev (List.map_filter (\<lambda>(_, _, oc). leg_status oc) seen) of s # _ \<Rightarrow> Some s | [] \<Rightarrow> None)
             else ForkTimeout)"

lemma fork_loop_spec:
  assumes "now < deadline" "results \<noteq> []" "received + length results = n"
  shows "fork_loop deadline closed_at n now received ls results =
    (case fork_spec deadline results of
       AllFailed None \<Rightarrow> AllFailed ls
     | x \<Rightarrow> x)"
  using assms
proof (induction results arbitrary: now received ls)
  case (Cons x rest)
  obtain t uri oc where x: "x = (t, uri, oc)" by (metis prod.exhaust)
  show ?case
  proof (cases "t < deadline")
    case False
    then show ?thesis using Cons.prems x by (simp add: fork_spec_def)
  next
    case t: True
    show ?thesis
    proof (cases "rest = []")
      case True
      then show ?thesis using Cons.prems x t by (cases oc) (simp_all add: fork_spec_def map_filter_simps)
    next
      case False
      then have n: "\<not> received + 1 \<ge> n" using Cons.prems(3) by (cases rest) auto
      have IH: "fork_loop deadline closed_at n t (received + 1) l rest = (case fork_spec deadline rest of AllFailed None \<Rightarrow> AllFailed l | y \<Rightarrow> y)" for l
        using Cons.IH [OF t False] Cons.prems(3) by simp
      show ?thesis
        using Cons.prems x t n IH
        by (cases oc) (auto simp: fork_spec_def Let_def map_filter_simps split: option.splits list.splits leg_outcome.splits fork_result.splits)
    qed
  qed
qed simp

lemma takeWhile_mem: "x \<in> set (takeWhile P xs) \<longleftrightarrow> (\<exists>pre post. xs = pre @ x # post \<and> list_all P pre \<and> P x)"
proof
  assume "x \<in> set (takeWhile P xs)"
  then obtain pre post where p: "takeWhile P xs = pre @ x # post" by (metis split_list)
  then have "list_all P (pre @ [x])" using set_takeWhileD [of _ P xs] by (force simp: list_all_iff)
  moreover have "xs = pre @ x # post @ dropWhile P xs" using takeWhile_dropWhile_id [of P xs] p by simp
  ultimately show "\<exists>pre post. xs = pre @ x # post \<and> list_all P pre \<and> P x" by auto
next
  assume "\<exists>pre post. xs = pre @ x # post \<and> list_all P pre \<and> P x"
  then show "x \<in> set (takeWhile P xs)" by (auto simp: list_all_iff takeWhile_append2)
qed

text \<open>C34. Forking picks the first answer: when every extension reports, the loop over the channel gives what
  the reference says. An answer before the deadline wins unless another one came first; otherwise, when
  all failed in time, the last status that was reported; otherwise a timeout.\<close>

theorem fork_picks_first_answer:
  assumes "targets \<noteq> []" "0 < overall_timeout" "length results = length targets"
  shows "fork_to_extensions targets start overall_timeout results closed_at = fork_spec (start + overall_timeout) results
    \<and> ((\<exists>uri r. fork_to_extensions targets start overall_timeout results closed_at = ForkAnswered uri r)
       \<longleftrightarrow> (\<exists>pre t uri r post. results = pre @ (t, uri, LegEstablished r) # post
            \<and> list_all (\<lambda>(t, _, _). t < start + overall_timeout) pre \<and> t < start + overall_timeout))"
proof -
  let ?d = "start + overall_timeout"
  have "results \<noteq> []" using assms by auto
  then have "fork_to_extensions targets start overall_timeout results closed_at =
      (case fork_spec ?d results of AllFailed None \<Rightarrow> AllFailed None | x \<Rightarrow> x)"
    using fork_loop_spec [of start ?d results 0 "length targets" closed_at None] assms by (simp add: fork_to_extensions_def)
  also have "\<dots> = fork_spec ?d results" by (cases "fork_spec ?d results") (auto split: option.splits)
  finally have e: "fork_to_extensions targets start overall_timeout results closed_at = fork_spec ?d results" .
  have "(\<exists>uri r. fork_spec ?d results = ForkAnswered uri r) \<longleftrightarrow>
      (\<exists>x \<in> set (takeWhile (\<lambda>(t, _, _). t < ?d) results). \<exists>r. snd (snd x) = LegEstablished r)"
    (is "_ \<longleftrightarrow> ?R")
  proof (cases "find (\<lambda>(_, _, oc). \<exists>r. oc = LegEstablished r) (takeWhile (\<lambda>(t, _, _). t < ?d) results)")
    case None
    then have "\<not> ?R" by (fastforce simp: find_None_iff)
    with None show ?thesis by (simp add: fork_spec_def Let_def)
  next
    case (Some x)
    obtain t uri oc where x: "x = (t, uri, oc)" by (metis prod.exhaust)
    from find_Some_mem [OF Some] x obtain r where r: "oc = LegEstablished r" "x \<in> set (takeWhile (\<lambda>(t, _, _). t < ?d) results)" by auto
    then have "?R" using x by force
    then show ?thesis using Some x r by (simp add: fork_spec_def Let_def)
  qed
  also have "?R \<longleftrightarrow> (\<exists>pre t uri r post. results = pre @ (t, uri, LegEstablished r) # post
            \<and> list_all (\<lambda>(t, _, _). t < ?d) pre \<and> t < ?d)"
  proof
    assume ?R
    then obtain t uri oc r where "(t, uri, oc) \<in> set (takeWhile (\<lambda>(t, _, _). t < ?d) results)" "oc = LegEstablished r"
      by fastforce
    then show "\<exists>pre t uri r post. results = pre @ (t, uri, LegEstablished r) # post \<and> list_all (\<lambda>(t, _, _). t < ?d) pre \<and> t < ?d"
      unfolding takeWhile_mem prod.case by blast
  next
    assume "\<exists>pre t uri r post. results = pre @ (t, uri, LegEstablished r) # post \<and> list_all (\<lambda>(t, _, _). t < ?d) pre \<and> t < ?d"
    then obtain t uri r where "(t, uri, LegEstablished r) \<in> set (takeWhile (\<lambda>(t, _, _). t < ?d) results)"
      unfolding takeWhile_mem prod.case by blast
    then show ?R by force
  qed
  finally show ?thesis using e by simp
qed

theorem fork_picks_first_answer_witness:
  "fork_to_extensions [''a'', ''b''] 0 30 [(1, ''b'', LegFailed 486), (2, ''a'', LegEstablished (200 :: nat))] 5 = ForkAnswered ''a'' 200"
  using fork_picks_first_answer [of "[''a'', ''b'']" 30 "[(1, ''b'', LegFailed 486), (2, ''a'', LegEstablished (200 :: nat))]" 0 5]
  by (simp add: fork_spec_def)

text \<open>The endpoint that is read from a rewritten description is the relay's own: whatever addresses the
  body named, the other side will send its voice to the address and port the relay bound.\<close>

theorem relay_endpoint_is_read:
  assumes "read_sdp b = Inr s" "find_audio s = Some m" "wf_ip addr" "port < 2 ^ 16" "now_secs < 2 ^ 64"
  shows "\<exists>b'. rewrite_rtp_endpoint now_secs b addr port = Inr b' \<and> extract_rtp_endpoint b' = Inr \<lparr>sa_ip = addr, sa_port = port\<rparr>"
proof -
  let ?s = "relay_endpoint now_secs addr port s"
  have "read_sdp (serialize ?s) = Inr ?s"
    using assms by (intro read_serialize relay_endpoint_good) (simp_all add: read_sdp_good)
  moreover have "find_audio ?s = Some (relay_audio port m)"
    unfolding relay_endpoint_def using assms(2) by (subst find_on_audio) simp_all
  moreover have "sd_connection ?s = Some addr" by (simp add: relay_endpoint_def)
  ultimately show ?thesis using assms(1)
    by (simp add: rewrite_rtp_endpoint_def extract_rtp_endpoint_def relay_audio_def)
qed

theorem relay_endpoint_is_read_witness:
  "\<exists>b'. rewrite_rtp_endpoint 1 (serialize sdp_ex) (V4 192 0 2 9) 40000 = Inr b'
    \<and> extract_rtp_endpoint b' = Inr \<lparr>sa_ip = V4 192 0 2 9, sa_port = 40000\<rparr>"
  using relay_endpoint_is_read [OF read_serialize [OF good_sdp_ex] sdp_ex_audio, of "V4 192 0 2 9" 40000 1] by simp

end
