(* ===== verification/Call_Logs.thy ===== *)
theory Call_Logs
  imports Sip_Message
begin

text \<open>
  The two bounded logs: messages (\<^verbatim>\<open>call/message_log.rs\<close>) and calls
  (\<^verbatim>\<open>observability/call_log.rs\<close>). An operation holds the lock of the log and is one step;
  the clock is an argument. Instants and durations are milliseconds. Each log refines one that
  keeps everything: it is the window of the newest entries.
\<close>

section \<open>Messages\<close>

datatype log_direction = Inbound | Outbound

record sms_message =
  sm_direction :: log_direction
  sm_from :: string
  sm_to :: string
  sm_body :: string
  sm_timestamp :: nat

definition sms_new_now :: "nat \<Rightarrow> log_direction \<Rightarrow> string \<Rightarrow> string \<Rightarrow> string \<Rightarrow> sms_message" where
  "sms_new_now now d f t b = \<lparr>sm_direction = d, sm_from = f, sm_to = t, sm_body = b, sm_timestamp = now\<rparr>"

definition unwrap_or_empty :: "string option \<Rightarrow> string" where
  "unwrap_or_empty v = (case v of Some s \<Rightarrow> s | None \<Rightarrow> [])"

definition sms_from_inbound_message :: "nat \<Rightarrow> sip_request \<Rightarrow> sms_message option" where
  "sms_from_inbound_message now req =
     (let ct = lower (unwrap_or_empty (hdr_get (req_headers req) ''content-type''))
      in if \<not> starts_with ''text/plain'' ct then None
         else if \<not> valid_utf8 (req_body req) then None
         else Some (sms_new_now now Inbound (unwrap_or_empty (hdr_get (req_headers req) ''from''))
                (unwrap_or_empty (hdr_get (req_headers req) ''to'')) (req_body req)))"

record message_log =
  ml_entries :: "sms_message list"
  ml_max_size :: nat

definition message_log_new :: "nat \<Rightarrow> message_log" where
  "message_log_new max_size = \<lparr>ml_entries = [], ml_max_size = max_size\<rparr>"

definition message_push :: "message_log \<Rightarrow> sms_message \<Rightarrow> message_log" where
  "message_push ml msg =
     (if ml_max_size ml = 0 then ml else ml\<lparr>ml_entries := evict (ml_max_size ml) (ml_entries ml @ [msg])\<rparr>)"

definition message_recent :: "message_log \<Rightarrow> nat \<Rightarrow> sms_message list" where
  "message_recent ml n =
     (if n = 0 then [] else take (min n (length (ml_entries ml))) (rev (ml_entries ml)))"

section \<open>Calls\<close>

datatype call_outcome = Answered | Missed | Failed nat | Cancelled

record call_log_entry =
  ce_direction :: log_direction
  ce_remote_number :: string
  ce_start_time :: nat
  ce_duration :: "nat option"
  ce_outcome :: "call_outcome option"
  ce_call_id :: string

definition new_started :: "nat \<Rightarrow> log_direction \<Rightarrow> string \<Rightarrow> string \<Rightarrow> call_log_entry" where
  "new_started now d remote cid =
     \<lparr>ce_direction = d, ce_remote_number = remote, ce_start_time = now, ce_duration = None, ce_outcome = None, ce_call_id = cid\<rparr>"

record call_log =
  cl_entries :: "call_log_entry list"
  cl_max_size :: nat

definition call_log_new :: "nat \<Rightarrow> call_log" where
  "call_log_new max_size = \<lparr>cl_entries = [], cl_max_size = max_size\<rparr>"

definition record_start :: "nat \<Rightarrow> call_log \<Rightarrow> log_direction \<Rightarrow> string \<Rightarrow> string \<Rightarrow> call_log" where
  "record_start now cl d remote cid =
     (if list_ex (\<lambda>e. ce_call_id e = cid) (cl_entries cl) then cl
      else if cl_max_size cl = 0 then cl
      else cl\<lparr>cl_entries := evict (cl_max_size cl) (cl_entries cl @ [new_started now d remote cid])\<rparr>)"

definition close_entry :: "nat \<Rightarrow> call_outcome \<Rightarrow> call_log_entry \<Rightarrow> call_log_entry" where
  "close_entry now outcome e =
     (let e1 = (if ce_outcome e = None
                then e\<lparr>ce_duration := if ce_start_time e \<le> now then Some (now - ce_start_time e) else None\<rparr> else e)
      in e1\<lparr>ce_outcome := Some outcome\<rparr>)"

definition record_end :: "nat \<Rightarrow> call_log \<Rightarrow> string \<Rightarrow> call_outcome \<Rightarrow> call_log" where
  "record_end now cl cid outcome =
     cl\<lparr>cl_entries := rev (on_first (\<lambda>e. ce_call_id e = cid) (close_entry now outcome) (rev (cl_entries cl)))\<rparr>"

definition call_recent :: "call_log \<Rightarrow> nat \<Rightarrow> call_log_entry list" where
  "call_recent cl n = (if n = 0 then [] else take (min n (length (cl_entries cl))) (rev (cl_entries cl)))"

section \<open>Logs without a bound\<close>

datatype call_event = Start nat log_direction string string | Close nat string call_outcome

fun call_step :: "call_log \<Rightarrow> call_event \<Rightarrow> call_log" where
  "call_step cl (Start now d remote cid) = record_start now cl d remote cid"
| "call_step cl (Close now cid outcome) = record_end now cl cid outcome"

text \<open>The history of all calls: a call that is not among the newest \<open>mx\<close> is new, and only
  these can still be closed.\<close>

fun history_step :: "nat \<Rightarrow> call_log_entry list \<Rightarrow> call_event \<Rightarrow> call_log_entry list" where
  "history_step mx h (Start now d remote cid) =
     (if cid \<in> set (map ce_call_id (last_n mx h)) \<or> mx = 0 then h else h @ [new_started now d remote cid])"
| "history_step mx h (Close now cid outcome) =
     (if cid \<in> set (map ce_call_id (last_n mx h))
      then rev (on_first (\<lambda>e. ce_call_id e = cid) (close_entry now outcome) (rev h)) else h)"

definition call_window :: "nat \<Rightarrow> call_log \<Rightarrow> call_log_entry list \<Rightarrow> bool" where
  "call_window mx cl h \<longleftrightarrow> cl_max_size cl = mx \<and> cl_entries cl = last_n mx h"

interpretation calls: simulation call_step "history_step mx" "call_window mx"
proof
  fix cl h e
  assume r: "call_window mx cl h"
  show "call_window mx (call_step cl e) (history_step mx h e)"
  proof (cases e)
    case (Start now d remote cid)
    then show ?thesis
      using r by (auto simp: call_window_def record_start_def list_ex_iff evict_last_n last_n_append)
  next
    case (Close now cid outcome)
    let ?f = "on_first (\<lambda>e. ce_call_id e = cid) (close_entry now outcome)"
    show ?thesis
    proof (cases "cid \<in> set (map ce_call_id (last_n mx h))")
      case True
      then have "\<exists>x \<in> set (rev (last_n mx h)). ce_call_id x = cid" by auto
      then have f: "?f (rev (last_n mx h) @ ys) = ?f (rev (last_n mx h)) @ ys" for ys by (rule on_first_append)
      have "rev h = rev (last_n mx h) @ rev (take (length h - mx) h)"
        by (metis last_n_suffix rev_append)
      then have "?f (rev h) = ?f (rev (last_n mx h)) @ rev (take (length h - mx) h)" using f by metis
      then have "last_n mx (rev (?f (rev h))) = rev (?f (rev (last_n mx h)))"
        by (simp add: last_n_def)
      with r True Close show ?thesis by (simp add: call_window_def record_end_def)
    next
      case False
      then have "?f (rev (last_n mx h)) = rev (last_n mx h)" by (intro on_first_id) auto
      with r False Close show ?thesis by (simp add: call_window_def record_end_def)
    qed
  qed
qed

lemma close_entry_id [simp]: "ce_call_id (close_entry now outcome e) = ce_call_id e"
  by (simp add: close_entry_def Let_def)

lemma window_ids: "map ce_call_id (cl_entries (record_end now cl cid outcome)) = map ce_call_id (cl_entries cl)"
  by (simp add: record_end_def rev_map [symmetric] on_first_map)

interpretation call_ids: inv_machine call_step "\<lambda>cl. distinct (map ce_call_id (cl_entries cl)) \<and> length (cl_entries cl) \<le> cl_max_size cl"
proof
  fix cl :: call_log and e
  assume i: "distinct (map ce_call_id (cl_entries cl)) \<and> length (cl_entries cl) \<le> cl_max_size cl"
  show "distinct (map ce_call_id (cl_entries (call_step cl e))) \<and> length (cl_entries (call_step cl e)) \<le> cl_max_size (call_step cl e)"
  proof (cases e)
    case (Start now d remote cid)
    have "distinct (map ce_call_id (cl_entries cl @ [new_started now d remote cid]))"
      if "\<not> list_ex (\<lambda>e. ce_call_id e = cid) (cl_entries cl)"
      using i that by (auto simp: list_ex_iff new_started_def)
    then have "distinct (map ce_call_id (last_n (cl_max_size cl) (cl_entries cl @ [new_started now d remote cid])))"
      if "\<not> list_ex (\<lambda>e. ce_call_id e = cid) (cl_entries cl)"
      using that unfolding last_n_def drop_map [symmetric] by (intro distinct_drop) blast
    with Start i show ?thesis by (auto simp: record_start_def evict_last_n length_last_n)
  next
    case (Close now cid outcome)
    with i window_ids [of now cl cid outcome] show ?thesis by (simp add: record_end_def)
  qed
qed

section \<open>Properties\<close>

lemma take_window: "take (min n (min mx (length xs))) xs = take (min n mx) xs"
  by (cases "length xs \<le> min n mx") (auto simp: min_def)

text \<open>C28. The call log is the window of the newest calls: after any sequence of starts and ends it
  holds the newest entries of the history of all calls, with what is recorded of them, no
  call twice and never more than its bound; a listing gives the newest first.\<close>

theorem call_log_refines_history:
  "let cl = run_steps call_step (call_log_new mx) es; h = run_steps (history_step mx) [] es
   in cl_entries cl = last_n mx h \<and> length (cl_entries cl) \<le> mx \<and> distinct (map ce_call_id (cl_entries cl))
      \<and> call_recent cl n = take (min n mx) (rev h)"
proof -
  let ?cl = "run_steps call_step (call_log_new mx) es"
  let ?h = "run_steps (history_step mx) [] es"
  have "call_window mx ?cl ?h" by (rule calls.run_sim) (simp add: call_window_def call_log_new_def last_n_def)
  then have w: "cl_entries ?cl = last_n mx ?h" "cl_max_size ?cl = mx" by (simp_all add: call_window_def)
  have "distinct (map ce_call_id (cl_entries ?cl)) \<and> length (cl_entries ?cl) \<le> cl_max_size ?cl"
    by (rule call_ids.run_inv) (simp add: call_log_new_def)
  moreover have "call_recent ?cl n = take (min n mx) (rev ?h)"
    using take_window [of n mx "rev ?h"] by (auto simp: call_recent_def w(1) rev_last_n length_last_n min.commute min.left_commute)
  ultimately show ?thesis using w by (simp add: Let_def)
qed

text \<open>The duration is recorded for every outcome and only the first time a call is closed; a later
  outcome replaces the first.\<close>

theorem close_twice:
  assumes "ce_start_time e \<le> t1" "ce_outcome e = None"
  shows "ce_duration (close_entry t2 o2 (close_entry t1 o1 e)) = Some (t1 - ce_start_time e)
    \<and> ce_outcome (close_entry t2 o2 (close_entry t1 o1 e)) = Some o2"
  using assms by (simp add: close_entry_def Let_def)

lemma missed_call_has_duration: "ce_duration (close_entry 5 Missed (new_started 2 Inbound n c)) = Some 3"
  by (simp add: close_entry_def new_started_def)

text \<open>The message log keeps the newest messages, and a text message that was received is the
  first of them.\<close>

interpretation messages: simulation message_push "\<lambda>h m. h @ [m]" "\<lambda>ml h. ml_entries ml = last_n (ml_max_size ml) h"
proof
  fix ml :: message_log and h m
  assume "ml_entries ml = last_n (ml_max_size ml) h"
  then show "ml_entries (message_push ml m) = last_n (ml_max_size (message_push ml m)) (h @ [m])"
    by (cases "ml_max_size ml = 0") (simp_all add: message_push_def evict_last_n last_n_append, simp add: last_n_def)
qed

theorem message_log_window:
  assumes "0 < mx" "sms_from_inbound_message now req = Some m"
  shows "let ml = message_push (run_steps message_push (message_log_new mx) ms) m
    in length (ml_entries ml) \<le> mx \<and> message_recent ml (Suc n) = m # take (min n (mx - 1)) (rev ms)
       \<and> sm_body m = req_body req \<and> valid_utf8 (sm_body m)"
proof -
  let ?ml = "run_steps message_push (message_log_new mx) ms"
  have mx: "ml_max_size (run_steps message_push ml xs) = ml_max_size ml" for ml xs
    by (induction xs arbitrary: ml) (simp_all add: message_push_def)
  have "run_steps (\<lambda>h m. h @ [m]) h xs = h @ xs" for h and xs :: "sms_message list"
    by (induction xs arbitrary: h) simp_all
  then have "ml_entries ?ml = last_n mx ms"
    using messages.run_sim [of "message_log_new mx" "[]" ms] mx by (simp add: message_log_new_def last_n_def)
  then have e: "ml_entries (message_push ?ml m) = last_n mx (ms @ [m])"
    using mx assms(1) by (simp add: message_push_def message_log_new_def evict_last_n last_n_append)
  have "message_recent (message_push ?ml m) (Suc n) = take (min (Suc n) mx) (m # rev ms)"
    using take_window [of "Suc n" mx "m # rev ms"]
    by (simp add: message_recent_def e rev_last_n length_last_n min.commute min.left_commute)
  also have "\<dots> = m # take (min n (mx - 1)) (rev ms)" using assms(1) by (cases mx) simp_all
  finally show ?thesis
    using e assms by (auto simp: Let_def length_last_n sms_from_inbound_message_def sms_new_now_def split: if_splits)
qed

end
