(* ===== verification/Registrar.thy ===== *)
theory Registrar
  imports Rust_Net
begin

text \<open>
  The table of registered extensions (\<^verbatim>\<open>sip/registrar.rs\<close>). Every operation holds the lock
  of the table and is one step; the instant it reads is an argument. The objects a WebRTC
  binding carries (peer, socket, pending answers) belong to other components and are a type
  parameter. A hash map has no order, so that a listing is a set here.

  The table refines a log: a lookup gives what the last registration of the address says as
  long as it lasts, and the cleaning of expired entries cannot be seen.
\<close>

section \<open>Definitions\<close>

datatype 'p ext_transport = Sip | WebRtc 'p

record 'p binding =
  bd_contact_uri :: string
  bd_remote :: socket_addr
  bd_expires_at :: nat
  bd_transport :: "'p ext_transport"

type_synonym 'p bindings = "string \<rightharpoonup> 'p binding"

definition is_expired :: "'p binding \<Rightarrow> nat \<Rightarrow> bool" where
  "is_expired b now \<longleftrightarrow> now \<ge> bd_expires_at b"

definition registrar_new :: "'p bindings" where
  "registrar_new = Map.empty"

definition unregister :: "'p bindings \<Rightarrow> string \<Rightarrow> 'p bindings" where
  "unregister tb aor = tb(aor := None)"

definition register_with_transport ::
  "nat \<Rightarrow> 'p bindings \<Rightarrow> string \<Rightarrow> string \<Rightarrow> socket_addr \<Rightarrow> nat \<Rightarrow> 'p ext_transport \<Rightarrow> 'p bindings" where
  "register_with_transport now tb aor contact_uri remote expires transport =
     (if expires = 0 then unregister tb aor
      else tb(aor \<mapsto> \<lparr>bd_contact_uri = contact_uri, bd_remote = remote, bd_expires_at = now + expires, bd_transport = transport\<rparr>))"

definition register_ext :: "nat \<Rightarrow> 'p bindings \<Rightarrow> string \<Rightarrow> string \<Rightarrow> socket_addr \<Rightarrow> nat \<Rightarrow> 'p bindings" where
  "register_ext now tb aor contact_uri remote expires = register_with_transport now tb aor contact_uri remote expires Sip"

definition lookup_ext :: "nat \<Rightarrow> 'p bindings \<Rightarrow> string \<Rightarrow> 'p binding option" where
  "lookup_ext now tb aor = (case tb aor of Some b \<Rightarrow> if \<not> is_expired b now then Some b else None | None \<Rightarrow> None)"

definition ext_snapshot :: "nat \<Rightarrow> 'p bindings \<Rightarrow> (string \<times> 'p binding) set" where
  "ext_snapshot now tb = {(k, b). tb k = Some b \<and> \<not> is_expired b now}"

definition purge_expired_returning_removed :: "nat \<Rightarrow> 'p bindings \<Rightarrow> string set \<times> 'p bindings" where
  "purge_expired_returning_removed now tb =
     ({k. \<exists>b. tb k = Some b \<and> is_expired b now},
      (\<lambda>k. case tb k of Some b \<Rightarrow> if is_expired b now then None else Some b | None \<Rightarrow> None))"

definition purge_expired :: "nat \<Rightarrow> 'p bindings \<Rightarrow> nat \<times> 'p bindings" where
  "purge_expired now tb = (let (removed, tb') = purge_expired_returning_removed now tb in (card removed, tb'))"

section \<open>Runs\<close>

datatype 'p reg_event =
    Reg string string socket_addr nat "'p ext_transport"
  | Unreg string
  | Purge

text \<open>An event with its instant; the log is the list of all of them.\<close>

fun reg_step :: "'p bindings \<Rightarrow> nat \<times> 'p reg_event \<Rightarrow> 'p bindings" where
  "reg_step tb (now, Reg aor c r ex tr) = register_with_transport now tb aor c r ex tr"
| "reg_step tb (now, Unreg aor) = unregister tb aor"
| "reg_step tb (now, Purge) = snd (purge_expired_returning_removed now tb)"

definition about_aor :: "string \<Rightarrow> nat \<times> 'p reg_event \<Rightarrow> bool" where
  "about_aor aor e = (case snd e of Reg a _ _ _ _ \<Rightarrow> a = aor | Unreg a \<Rightarrow> a = aor | Purge \<Rightarrow> False)"

text \<open>What the log says of an address: the binding of the last event about it, unless that
  removed it, as long as it lasts.\<close>

definition log_binding :: "nat \<times> 'p reg_event \<Rightarrow> 'p binding option" where
  "log_binding e =
     (case e of
        (t, Reg a c r ex tr) \<Rightarrow>
          if ex = 0 then None
          else Some \<lparr>bd_contact_uri = c, bd_remote = r, bd_expires_at = t + ex, bd_transport = tr\<rparr>
      | _ \<Rightarrow> None)"

definition log_lookup :: "nat \<Rightarrow> (nat \<times> 'p reg_event) list \<Rightarrow> string \<Rightarrow> 'p binding option" where
  "log_lookup now es aor =
     (case find (about_aor aor) (rev es) of
        None \<Rightarrow> None
      | Some e \<Rightarrow> (case log_binding e of Some b \<Rightarrow> if is_expired b now then None else Some b | None \<Rightarrow> None))"

lemma find_snoc_rev: "find P (rev (xs @ [x])) = (if P x then Some x else find P (rev xs))"
  by simp

lemma reg_run:
  "\<forall>e \<in> set es. fst e \<le> now \<Longrightarrow>
    lookup_ext now (run_steps reg_step registrar_new es) aor = log_lookup now es aor"
proof (induction es rule: rev_induct)
  case Nil
  show ?case by (simp add: lookup_ext_def registrar_new_def log_lookup_def)
next
  case (snoc e es)
  let ?tb = "run_steps reg_step registrar_new es"
  have IH: "lookup_ext now ?tb aor = log_lookup now es aor" using snoc by simp
  obtain t ev where e: "e = (t, ev)" by fastforce
  have t: "t \<le> now" using snoc.prems e by simp
  show ?case
  proof (cases ev)
    case (Reg a c r ex tr)
    then show ?thesis
      using IH e by (cases "a = aor")
        (auto simp: run_steps_append lookup_ext_def log_lookup_def about_aor_def log_binding_def register_with_transport_def
          unregister_def)
  next
    case (Unreg a)
    then show ?thesis
      using IH e by (cases "a = aor")
        (auto simp: run_steps_append lookup_ext_def log_lookup_def about_aor_def log_binding_def unregister_def)
  next
    case Purge
    have "lookup_ext now (snd (purge_expired_returning_removed t ?tb)) aor = lookup_ext now ?tb aor"
      using t by (auto simp: lookup_ext_def purge_expired_returning_removed_def is_expired_def split: option.splits)
    then show ?thesis using IH e Purge by (simp add: run_steps_append log_lookup_def about_aor_def)
  qed
qed

section \<open>Properties\<close>

text \<open>C18. The table refines the log of registrations: with a clock that does not run backwards, a lookup
  gives exactly the binding of the last registration of that address, if it was not removed and
  has not expired; cleaning up cannot be observed, and a listing is the set of all lookups.\<close>

theorem registrar_refines_log:
  assumes "\<forall>e \<in> set es. fst e \<le> now"
  defines "tb \<equiv> run_steps reg_step registrar_new es"
  shows "lookup_ext now tb aor = log_lookup now es aor
    \<and> ext_snapshot now tb = {(k, b). log_lookup now es k = Some b}
    \<and> lookup_ext now (snd (purge_expired_returning_removed now tb)) aor = log_lookup now es aor"
proof -
  have l: "lookup_ext now tb k = log_lookup now es k" for k unfolding tb_def by (rule reg_run [OF assms(1)])
  have "lookup_ext now (run_steps reg_step registrar_new (es @ [(now, Purge)])) aor = log_lookup now (es @ [(now, Purge)]) aor"
    using assms(1) by (intro reg_run) auto
  then have "lookup_ext now (snd (purge_expired_returning_removed now tb)) aor = log_lookup now es aor"
    by (simp add: run_steps_append tb_def log_lookup_def about_aor_def)
  moreover have "ext_snapshot now tb = {(k, b). lookup_ext now tb k = Some b}"
    by (auto simp: ext_snapshot_def lookup_ext_def split: option.splits if_splits)
  ultimately show ?thesis using l by simp
qed

theorem registrar_refines_log_witness:
  "lookup_ext 50 (run_steps reg_step registrar_new
     [(0, Reg ''a'' ''sip:a@x'' \<lparr>sa_ip = V4 1 2 3 4, sa_port = 5060\<rparr> 60 Sip), (10, Purge :: unit reg_event)]) ''a'' \<noteq> None"
  using registrar_refines_log [of "[(0, Reg ''a'' ''sip:a@x'' \<lparr>sa_ip = V4 1 2 3 4, sa_port = 5060\<rparr> 60 Sip), (10, Purge :: unit reg_event)]" 50 "''a''"]
  by (simp add: log_lookup_def about_aor_def log_binding_def is_expired_def)

text \<open>Cleaning removes exactly the expired addresses and reports them.\<close>

theorem purge_exact:
  assumes "finite (dom tb)"
  shows "let (removed, tb') = purge_expired_returning_removed now tb
    in tb' = tb |` (- removed) \<and> (\<forall>k \<in> removed. lookup_ext now tb k = None) \<and> fst (purge_expired now tb) = card removed
       \<and> dom tb' = fst ` ext_snapshot now tb \<and> finite removed"
proof -
  have "{k. \<exists>b. tb k = Some b \<and> is_expired b now} \<subseteq> dom tb" by auto
  then have "finite {k. \<exists>b. tb k = Some b \<and> is_expired b now}" using assms finite_subset by blast
  then show ?thesis
    by (auto simp: purge_expired_returning_removed_def purge_expired_def Let_def lookup_ext_def ext_snapshot_def restrict_map_def
        image_iff fun_eq_iff dom_def split: option.splits if_splits)
qed

end
