(* ===== verification/Intercom.thy ===== *)
theory Intercom
  imports Registrar
begin

text \<open>
  Calls between extensions (\<^verbatim>\<open>call/intercom.rs\<close>): where a dialled number goes, and the
  registry of such calls with its two indices. An operation holds the lock of the registry
  and is one step. The relay of media frames between two browsers is not modelled.
\<close>

section \<open>Definitions\<close>

datatype 'p dial_destination =
    Internal "'p binding" string
  | Ngn string

fun is_internal :: "'p dial_destination \<Rightarrow> bool" where
  "is_internal (Internal _ _) = True"
| "is_internal (Ngn _) = False"

fun internal_aor :: "'p dial_destination \<Rightarrow> string option" where
  "internal_aor (Internal _ aor) = Some aor"
| "internal_aor (Ngn _) = None"

type_synonym extension_aliases = "string \<rightharpoonup> string"

definition alias_resolve :: "extension_aliases \<Rightarrow> string \<Rightarrow> string option" where
  "alias_resolve aliases target = aliases target"

definition classify_dial_target :: "nat \<Rightarrow> string \<Rightarrow> 'p bindings \<Rightarrow> extension_aliases \<Rightarrow> 'p dial_destination" where
  "classify_dial_target now target registrar aliases =
     (let resolved_aor = (case alias_resolve aliases target of Some a \<Rightarrow> a | None \<Rightarrow> target)
      in case lookup_ext now registrar resolved_aor of
           Some b \<Rightarrow> Internal b resolved_aor
         | None \<Rightarrow> Ngn target)"

record internal_call_entry =
  ic_caller_call_id :: string
  ic_callee_call_id :: string
  ic_caller_aor :: string
  ic_callee_aor :: string
  ic_bridge_call_id :: nat

record internal_registry =
  ir_by_caller :: "string \<rightharpoonup> internal_call_entry"
  ir_callee_to_caller :: "string \<rightharpoonup> string"

definition internal_registry_new :: internal_registry where
  "internal_registry_new = \<lparr>ir_by_caller = Map.empty, ir_callee_to_caller = Map.empty\<rparr>"

definition ir_insert :: "internal_registry \<Rightarrow> internal_call_entry \<Rightarrow> internal_registry" where
  "ir_insert r e =
     r\<lparr>ir_callee_to_caller := (ir_callee_to_caller r)(ic_callee_call_id e \<mapsto> ic_caller_call_id e),
       ir_by_caller := (ir_by_caller r)(ic_caller_call_id e \<mapsto> e)\<rparr>"

definition lookup_by_caller :: "internal_registry \<Rightarrow> string \<Rightarrow> internal_call_entry option" where
  "lookup_by_caller r k = ir_by_caller r k"

definition lookup_by_callee :: "internal_registry \<Rightarrow> string \<Rightarrow> internal_call_entry option" where
  "lookup_by_callee r c = Option.bind (ir_callee_to_caller r c) (ir_by_caller r)"

definition remove_by_caller :: "internal_registry \<Rightarrow> string \<Rightarrow> internal_call_entry option \<times> internal_registry" where
  "remove_by_caller r k =
     (case ir_by_caller r k of
        None \<Rightarrow> (None, r)
      | Some e \<Rightarrow> (Some e, r\<lparr>ir_by_caller := (ir_by_caller r)(k := None),
                             ir_callee_to_caller := (ir_callee_to_caller r)(ic_callee_call_id e := None)\<rparr>))"

definition remove_by_callee :: "internal_registry \<Rightarrow> string \<Rightarrow> internal_call_entry option \<times> internal_registry" where
  "remove_by_callee r c =
     (case ir_callee_to_caller r c of
        None \<Rightarrow> (None, r)
      | Some k \<Rightarrow> (ir_by_caller r k, r\<lparr>ir_callee_to_caller := (ir_callee_to_caller r)(c := None),
                             ir_by_caller := (ir_by_caller r)(k := None)\<rparr>))"

definition ir_len :: "internal_registry \<Rightarrow> nat" where
  "ir_len r = card (dom (ir_by_caller r))"

definition can_accept :: "internal_registry \<Rightarrow> nat \<Rightarrow> bool" where
  "can_accept r mx \<longleftrightarrow> ir_len r < mx"

record intercom_config =
  icf_enabled :: bool
  icf_max_concurrent_internal_calls :: nat

definition default_intercom_config :: intercom_config where
  "default_intercom_config = \<lparr>icf_enabled = True, icf_max_concurrent_internal_calls = 4\<rparr>"

datatype intercom_admit_error = Disabled | AtCapacity nat nat

definition try_admit :: "intercom_config \<Rightarrow> internal_registry \<Rightarrow> intercom_admit_error + unit" where
  "try_admit cfg r =
     (if \<not> icf_enabled cfg then Inl Disabled
      else if \<not> can_accept r (icf_max_concurrent_internal_calls cfg)
      then Inl (AtCapacity (ir_len r) (icf_max_concurrent_internal_calls cfg))
      else Inr ())"

section \<open>The two indices\<close>

definition indices_agree :: "internal_registry \<Rightarrow> bool" where
  "indices_agree r \<longleftrightarrow>
     finite (dom (ir_by_caller r))
     \<and> (\<forall>k e. ir_by_caller r k = Some e \<longrightarrow> ic_caller_call_id e = k \<and> ir_callee_to_caller r (ic_callee_call_id e) = Some k)
     \<and> (\<forall>c k. ir_callee_to_caller r c = Some k \<longrightarrow> (\<exists>e. ir_by_caller r k = Some e \<and> ic_callee_call_id e = c))"

datatype registry_event = Insert internal_call_entry | ByCaller string | ByCallee string

text \<open>A call is registered under identifiers that no registered call has; one that is not fresh is
  left out of the run.\<close>

definition fresh_call :: "internal_registry \<Rightarrow> internal_call_entry \<Rightarrow> bool" where
  "fresh_call r e \<longleftrightarrow> ir_by_caller r (ic_caller_call_id e) = None \<and> ir_callee_to_caller r (ic_callee_call_id e) = None"

fun registry_step :: "internal_registry \<Rightarrow> registry_event \<Rightarrow> internal_registry" where
  "registry_step r (Insert e) = (if fresh_call r e then ir_insert r e else r)"
| "registry_step r (ByCaller k) = snd (remove_by_caller r k)"
| "registry_step r (ByCallee c) = snd (remove_by_callee r c)"

lemma insert_agree: "indices_agree r \<Longrightarrow> fresh_call r e \<Longrightarrow> indices_agree (ir_insert r e)"
  unfolding indices_agree_def fresh_call_def ir_insert_def by (auto split: if_splits) (metis option.distinct(1) option.inject)+

lemma remove_by_caller_agree: "indices_agree r \<Longrightarrow> indices_agree (snd (remove_by_caller r k))"
  unfolding indices_agree_def remove_by_caller_def
  by (cases "ir_by_caller r k") (auto split: if_splits, (metis option.distinct(1) option.inject)+)

lemma remove_by_callee_agree: "indices_agree r \<Longrightarrow> indices_agree (snd (remove_by_callee r c))"
  unfolding indices_agree_def remove_by_callee_def
  by (cases "ir_callee_to_caller r c") (auto split: if_splits, (metis option.distinct(1) option.inject)+)

interpretation registry: inv_machine registry_step indices_agree
  by unfold_locales (metis insert_agree remove_by_caller_agree remove_by_callee_agree registry_step.simps registry_event.exhaust)

section \<open>Properties\<close>

text \<open>However calls between extensions come and go under fresh identifiers, the two indices of the registry
  agree: a call is found under its callee exactly when it is found under its caller, removing it from
  either side removes it from both, and the count is the number of calls.\<close>

theorem intercom_indices_agree:
  fixes es :: "registry_event list"
  defines "r \<equiv> run_steps registry_step internal_registry_new es"
  shows "(lookup_by_callee r c = Some e \<longleftrightarrow> lookup_by_caller r (ic_caller_call_id e) = Some e \<and> ic_callee_call_id e = c)
    \<and> (lookup_by_caller r k = Some e \<longrightarrow>
         fst (remove_by_caller r k) = Some e \<and> remove_by_callee r (ic_callee_call_id e) = remove_by_caller r k
         \<and> lookup_by_callee (snd (remove_by_caller r k)) (ic_callee_call_id e) = None
         \<and> Suc (ir_len (snd (remove_by_caller r k))) = ir_len r)"
proof -
  have "indices_agree internal_registry_new" by (simp add: indices_agree_def internal_registry_new_def)
  then have a: "indices_agree r" unfolding r_def by (rule registry.run_inv)
  have "lookup_by_callee r c = Some e \<longleftrightarrow> lookup_by_caller r (ic_caller_call_id e) = Some e \<and> ic_callee_call_id e = c"
  proof
    assume "lookup_by_callee r c = Some e"
    then obtain k where k: "ir_callee_to_caller r c = Some k" "ir_by_caller r k = Some e"
      by (auto simp: lookup_by_callee_def bind_eq_Some_conv)
    from k(1) a obtain e' where "ir_by_caller r k = Some e'" "ic_callee_call_id e' = c"
      unfolding indices_agree_def by blast
    moreover have "ic_caller_call_id e = k" using k(2) a unfolding indices_agree_def by blast
    ultimately show "lookup_by_caller r (ic_caller_call_id e) = Some e \<and> ic_callee_call_id e = c"
      using k(2) by (simp add: lookup_by_caller_def)
  next
    assume e: "lookup_by_caller r (ic_caller_call_id e) = Some e \<and> ic_callee_call_id e = c"
    then have "ir_callee_to_caller r c = Some (ic_caller_call_id e)"
      using a unfolding indices_agree_def lookup_by_caller_def by blast
    with e show "lookup_by_callee r c = Some e" by (simp add: lookup_by_callee_def lookup_by_caller_def)
  qed
  moreover have "fst (remove_by_caller r k) = Some e \<and> remove_by_callee r (ic_callee_call_id e) = remove_by_caller r k
      \<and> lookup_by_callee (snd (remove_by_caller r k)) (ic_callee_call_id e) = None
      \<and> Suc (ir_len (snd (remove_by_caller r k))) = ir_len r"
    if l: "lookup_by_caller r k = Some e"
  proof -
    have e: "ir_by_caller r k = Some e" "ir_callee_to_caller r (ic_callee_call_id e) = Some k" "finite (dom (ir_by_caller r))"
      using a l unfolding indices_agree_def lookup_by_caller_def by blast+
    then have "k \<in> dom (ir_by_caller r)" by auto
    then have "Suc (card (dom (ir_by_caller r) - {k})) = card (dom (ir_by_caller r))" using e(3) card_Suc_Diff1 by metis
    with e show ?thesis
      by (simp add: remove_by_caller_def remove_by_callee_def lookup_by_callee_def ir_len_def)
  qed
  ultimately show ?thesis by blast
qed

theorem intercom_indices_agree_witness:
  "let e = \<lparr>ic_caller_call_id = ''k'', ic_callee_call_id = ''c'', ic_caller_aor = [], ic_callee_aor = [], ic_bridge_call_id = 1\<rparr>;
       r = run_steps registry_step internal_registry_new [Insert e]
   in ir_len (snd (remove_by_caller r ''k'')) = 0"
  using intercom_indices_agree [of "[Insert \<lparr>ic_caller_call_id = ''k'', ic_callee_call_id = ''c'', ic_caller_aor = [],
      ic_callee_aor = [], ic_bridge_call_id = 1\<rparr>]" "''c''" "\<lparr>ic_caller_call_id = ''k'', ic_callee_call_id = ''c'',
      ic_caller_aor = [], ic_callee_aor = [], ic_bridge_call_id = 1\<rparr>" "''k''"]
  by (simp add: fresh_call_def internal_registry_new_def ir_insert_def lookup_by_caller_def ir_len_def Let_def)

text \<open>A caller identifier that is used again leaves the old callee in the index: it then finds the
  new call, and stays when that call is removed.\<close>

lemma stale_callee_index:
  "let e = (\<lambda>c. \<lparr>ic_caller_call_id = ''k'', ic_callee_call_id = c, ic_caller_aor = [], ic_callee_aor = [], ic_bridge_call_id = 1\<rparr>);
       r = ir_insert (ir_insert internal_registry_new (e ''x'')) (e ''y'')
   in lookup_by_callee r ''x'' = Some (e ''y'') \<and> ir_callee_to_caller (snd (remove_by_caller r ''k'')) ''x'' = Some ''k''"
  by (simp add: Let_def ir_insert_def internal_registry_new_def lookup_by_callee_def remove_by_caller_def)

text \<open>A dialled number reaches an extension exactly when the address it stands for is registered and
  has not expired; otherwise the number goes to the carrier as it was dialled.\<close>

theorem dial_target_exact:
  assumes "\<forall>e \<in> set es. fst e \<le> now" "aor = (case aliases target of Some a \<Rightarrow> a | None \<Rightarrow> target)"
  shows "classify_dial_target now target (run_steps reg_step registrar_new es) aliases
    = (case log_lookup now es aor of Some b \<Rightarrow> Internal b aor | None \<Rightarrow> Ngn target)"
  using reg_run [OF assms(1), of aor] by (simp add: classify_dial_target_def alias_resolve_def Let_def flip: assms(2))

theorem dial_target_exact_witness:
  "classify_dial_target 5 ''101'' (run_steps reg_step registrar_new [(0, Unreg ''alice'' :: unit reg_event)]) [''101'' \<mapsto> ''alice''] = Ngn ''101''"
  using dial_target_exact [where es = "[(0, Unreg ''alice'' :: unit reg_event)]" and now = 5 and aor = "''alice''"
      and aliases = "[''101'' \<mapsto> ''alice'']" and target = "''101''"]
  by (simp add: log_lookup_def about_aor_def log_binding_def)

end
