(* ===== verification/Routing.thy ===== *)
theory Routing
  imports Registrar
begin

text \<open>
  Routing rules for incoming calls (\<^verbatim>\<open>call/routing.rs\<close>). The reading of a time of day
  (\<^verbatim>\<open>NaiveTime::parse_from_str\<close> of the chrono crate) is the parameter \<open>parse_hm\<close>; a time of day
  is a number, ordered as the times are. The weekday and the time of the evaluated instant are
  arguments. Slicing a weekday inside a character panics, which is an error value here.
\<close>

section \<open>Definitions\<close>

datatype weekday = Mon | Tue | Wed | Thu | Fri | Sat | Sun

record match_spec =
  ms_weekday :: "string list option"
  ms_time_range :: "string option"
  ms_from_number :: "string list option"

record routing_rule =
  rr_name :: string
  rr_priority :: int
  rr_match :: match_spec
  rr_fork :: "string list"

datatype 'b routing_decision =
    Matched string "(string \<times> 'b) list"
  | NoRule

datatype routing_error = WeekdayPanic | InvalidTimeRange string string | InvalidWeekday string string

definition parse_weekday :: "string \<Rightarrow> routing_error + weekday option" where
  "parse_weekday s =
     (let l = lower (trim s)
      in if 3 < length l \<and> is_cont (l ! 3) then Inl WeekdayPanic
         else let head = take 3 l
              in Inr (if head = ''mon'' then Some Mon else if head = ''tue'' then Some Tue
                      else if head = ''wed'' then Some Wed else if head = ''thu'' then Some Thu
                      else if head = ''fri'' then Some Fri else if head = ''sat'' then Some Sat
                      else if head = ''sun'' then Some Sun else None))"

definition parse_time_range :: "(string \<Rightarrow> nat option) \<Rightarrow> string \<Rightarrow> (nat \<times> nat) option" where
  "parse_time_range parse_hm s =
     Option.bind (split_once CHR ''-'' s) (\<lambda>(a, b).
     Option.bind (parse_hm (trim a)) (\<lambda>start.
     Option.bind (parse_hm (trim b)) (\<lambda>stop. Some (start, stop))))"

definition time_in_range :: "nat \<Rightarrow> nat \<Rightarrow> nat \<Rightarrow> bool" where
  "time_in_range now start stop =
     (if start = stop then False
      else if start < stop then now \<ge> start \<and> now < stop
      else now \<ge> start \<or> now < stop)"

fun any_weekday :: "weekday \<Rightarrow> string list \<Rightarrow> routing_error + bool" where
  "any_weekday today [] = Inr False"
| "any_weekday today (w # ws) =
     res_bind (parse_weekday w) (\<lambda>d. if d = Some today then Inr True else any_weekday today ws)"

definition rule_matches :: "(string \<Rightarrow> nat option) \<Rightarrow> routing_rule \<Rightarrow> weekday \<Rightarrow> nat \<Rightarrow> string \<Rightarrow> routing_error + bool" where
  "rule_matches parse_hm rule today now from_number =
     res_bind (case ms_weekday (rr_match rule) of Some ws \<Rightarrow> any_weekday today ws | None \<Rightarrow> Inr True) (\<lambda>day_ok.
       Inr (day_ok
         \<and> (case ms_time_range (rr_match rule) of
              None \<Rightarrow> True
            | Some r \<Rightarrow> (case parse_time_range parse_hm r of
                           Some (start, stop) \<Rightarrow> time_in_range now start stop
                         | None \<Rightarrow> False))
         \<and> (case ms_from_number (rr_match rule) of None \<Rightarrow> True | Some ns \<Rightarrow> from_number \<in> set ns)))"

fun validate_weekdays :: "string \<Rightarrow> string list \<Rightarrow> routing_error + unit" where
  "validate_weekdays name [] = Inr ()"
| "validate_weekdays name (w # ws) =
     res_bind (parse_weekday w) (\<lambda>d. if d = None then Inl (InvalidWeekday name w) else validate_weekdays name ws)"

definition rule_validate :: "(string \<Rightarrow> nat option) \<Rightarrow> routing_rule \<Rightarrow> routing_error + unit" where
  "rule_validate parse_hm rule =
     res_bind (case ms_time_range (rr_match rule) of
         None \<Rightarrow> Inr ()
       | Some r \<Rightarrow> if parse_time_range parse_hm r = None then Inl (InvalidTimeRange (rr_name rule) r) else Inr ()) (\<lambda>_.
       case ms_weekday (rr_match rule) of None \<Rightarrow> Inr () | Some ws \<Rightarrow> validate_weekdays (rr_name rule) ws)"

fun validate_rules :: "(string \<Rightarrow> nat option) \<Rightarrow> routing_rule list \<Rightarrow> routing_error + unit" where
  "validate_rules parse_hm [] = Inr ()"
| "validate_rules parse_hm (r # rs) = res_bind (rule_validate parse_hm r) (\<lambda>_. validate_rules parse_hm rs)"

definition filter_bindings_by_aor :: "(string \<times> 'b) list \<Rightarrow> string list \<Rightarrow> (string \<times> 'b) list" where
  "filter_bindings_by_aor all wanted = List.map_filter (\<lambda>aor. find (\<lambda>e. fst e = aor) all) wanted"

text \<open>Sorting by descending priority and then by position is the stable sort.\<close>

definition rule_order :: "routing_rule list \<Rightarrow> routing_rule list" where
  "rule_order rules = sort_key (\<lambda>r. - rr_priority r) rules"

fun first_match ::
  "(string \<Rightarrow> nat option) \<Rightarrow> routing_rule list \<Rightarrow> weekday \<Rightarrow> nat \<Rightarrow> string \<Rightarrow> (string \<times> 'b) list \<Rightarrow> routing_error + 'b routing_decision" where
  "first_match parse_hm [] today now from_number all_bindings = Inr NoRule"
| "first_match parse_hm (r # rs) today now from_number all_bindings =
     res_bind (rule_matches parse_hm r today now from_number) (\<lambda>m.
       if m then Inr (Matched (rr_name r) (filter_bindings_by_aor all_bindings (rr_fork r)))
       else first_match parse_hm rs today now from_number all_bindings)"

definition evaluate_rules ::
  "(string \<Rightarrow> nat option) \<Rightarrow> routing_rule list \<Rightarrow> weekday \<Rightarrow> nat \<Rightarrow> string \<Rightarrow> (string \<times> 'b) list \<Rightarrow> routing_error + 'b routing_decision" where
  "evaluate_rules parse_hm rules today now from_number all_bindings =
     (if rules = [] then Inr NoRule
      else first_match parse_hm (rule_order rules) today now from_number all_bindings)"

section \<open>Validated rules\<close>

lemma any_weekday_valid: "validate_weekdays name ws = Inr () \<Longrightarrow>
    any_weekday today ws = Inr (\<exists>w \<in> set ws. parse_weekday w = Inr (Some today))"
proof (induction ws)
  case (Cons w ws)
  then obtain d where d: "parse_weekday w = Inr d" "d \<noteq> None" "validate_weekdays name ws = Inr ()"
    by (auto split: if_splits)
  then show ?case using Cons.IH by (cases "d = Some today") auto
qed simp

text \<open>What a rule asks for, once its fields are readable.\<close>

definition rule_holds :: "(string \<Rightarrow> nat option) \<Rightarrow> routing_rule \<Rightarrow> weekday \<Rightarrow> nat \<Rightarrow> string \<Rightarrow> bool" where
  "rule_holds parse_hm rule today now from_number \<longleftrightarrow>
     pred_option (\<lambda>ws. \<exists>w \<in> set ws. parse_weekday w = Inr (Some today)) (ms_weekday (rr_match rule))
     \<and> pred_option (\<lambda>r. \<exists>start stop. parse_time_range parse_hm r = Some (start, stop) \<and> time_in_range now start stop)
         (ms_time_range (rr_match rule))
     \<and> pred_option (\<lambda>ns. from_number \<in> set ns) (ms_from_number (rr_match rule))"

lemma rule_matches_valid:
  "rule_validate parse_hm rule = Inr () \<Longrightarrow> rule_matches parse_hm rule today now n = Inr (rule_holds parse_hm rule today now n)"
  unfolding rule_validate_def rule_matches_def rule_holds_def
  by (cases "ms_weekday (rr_match rule)"; cases "ms_time_range (rr_match rule)"; cases "ms_from_number (rr_match rule)")
    (auto simp: any_weekday_valid split: option.splits)

lemma validate_rules_all: "validate_rules parse_hm rs = Inr () \<longleftrightarrow> (\<forall>r \<in> set rs. rule_validate parse_hm r = Inr ())"
  by (induction rs) auto

lemma first_match_valid:
  "\<forall>r \<in> set rs. rule_validate parse_hm r = Inr () \<Longrightarrow>
   first_match parse_hm rs today now n bs
     = Inr (case find (\<lambda>r. rule_holds parse_hm r today now n) rs of
              None \<Rightarrow> NoRule
            | Some r \<Rightarrow> Matched (rr_name r) (filter_bindings_by_aor bs (rr_fork r)))"
  by (induction rs) (auto simp: rule_matches_valid)

text \<open>The first rule of the sorted list that holds: of the ones that hold, those with the highest
  priority, and of these the first.\<close>

lemma find_sort_key:
  fixes f :: "'a \<Rightarrow> int"
  shows "find P (sort_key f xs) = (case filter P xs of [] \<Rightarrow> None
     | _ \<Rightarrow> find (\<lambda>x. P x \<and> (\<forall>y \<in> set xs. P y \<longrightarrow> f x \<le> f y)) xs)"
proof (cases "filter P xs = []")
  case True
  then have "find P (sort_key f xs) = None" by (simp add: find_None_iff filter_empty_conv)
  then show ?thesis using True by simp
next
  case False
  let ?ys = "sort_key f (filter P xs)"
  have ne: "?ys \<noteq> []" using False by (metis set_empty set_sort)
  then have ys: "find P (sort_key f xs) = Some (hd ?ys)" "?ys \<noteq> []"
    by (cases ?ys; simp add: find_Some_filter filter_sort)+
  have m: "f (hd ?ys) \<le> f y" if "y \<in> set xs" "P y" for y
  proof -
    have "sorted (map f ?ys)" by simp
    moreover have "y \<in> set ?ys" using that by simp
    ultimately show ?thesis by (cases ?ys) auto
  qed
  let ?k = "f (hd ?ys)"
  have "hd ?ys \<in> set ?ys" using ys(2) by (rule hd_in_set)
  then have h: "hd ?ys \<in> set xs" "P (hd ?ys)" by auto
  have "filter (\<lambda>x. f x = ?k) ?ys = filter (\<lambda>x. f x = ?k) (filter P xs)" by (simp add: sort_key_stable)
  moreover have "hd (filter (\<lambda>x. f x = ?k) ?ys) = hd ?ys" using ys(2) by (cases ?ys) auto
  ultimately have hd: "hd ?ys = hd (filter (\<lambda>x. f x = ?k) (filter P xs))" by simp
  have "filter (\<lambda>x. f x = ?k) (filter P xs) = filter (\<lambda>x. P x \<and> (\<forall>y \<in> set xs. P y \<longrightarrow> f x \<le> f y)) xs"
    unfolding filter_filter using m h by (intro filter_cong refl) (metis order_antisym_conv)
  moreover have "filter (\<lambda>x. f x = ?k) (filter P xs) \<noteq> []" using h by (auto simp: filter_empty_conv)
  ultimately have "find (\<lambda>x. P x \<and> (\<forall>y \<in> set xs. P y \<longrightarrow> f x \<le> f y)) xs = Some (hd ?ys)"
    using hd by (simp add: find_Some_filter split: list.splits)
  then show ?thesis using ys False by (simp split: list.splits)
qed

section \<open>Properties\<close>

lemma filter_bindings_nth: "set (filter_bindings_by_aor bs wanted) \<subseteq> set bs \<and> map fst (filter_bindings_by_aor bs wanted) = filter (\<lambda>a. a \<in> fst ` set bs) wanted"
proof (induction wanted)
  case (Cons a wanted)
  show ?case
  proof (cases "find (\<lambda>e. fst e = a) bs")
    case None
    then have "a \<notin> fst ` set bs" by (auto simp: find_None_iff)
    with None Cons show ?thesis by (simp add: filter_bindings_by_aor_def map_filter_simps)
  next
    case (Some e)
    then have "e \<in> set bs" "fst e = a" using find_Some_mem [OF Some] by simp_all
    with Some Cons show ?thesis by (auto simp: filter_bindings_by_aor_def map_filter_simps)
  qed
qed (simp add: filter_bindings_by_aor_def map_filter_simps)

text \<open>C37. Rules that passed the check at start are applied as they are meant: the decision is that of
  the rule with the highest priority among those that hold, the first one where several have it,
  and its targets are the registered ones it lists, in its order; without a rule that holds the
  decision is left to the caller, and there is no panic.\<close>

theorem routing_picks_best_rule:
  fixes today :: weekday and now :: nat and from_number :: string
  assumes "validate_rules parse_hm rules = Inr ()"
  defines "holds \<equiv> \<lambda>r. rule_holds parse_hm r today now from_number"
  shows "evaluate_rules parse_hm rules today now from_number bs =
      Inr (case find (\<lambda>r. holds r \<and> (\<forall>q \<in> set rules. holds q \<longrightarrow> rr_priority q \<le> rr_priority r)) rules of
             None \<Rightarrow> NoRule
           | Some r \<Rightarrow> Matched (rr_name r) (filter_bindings_by_aor bs (rr_fork r)))
    \<and> ((\<exists>r \<in> set rules. holds r) \<longleftrightarrow> evaluate_rules parse_hm rules today now from_number bs \<noteq> Inr NoRule)
    \<and> map fst (filter_bindings_by_aor bs wanted) = filter (\<lambda>a. a \<in> fst ` set bs) wanted"
proof -
  have v: "\<forall>r \<in> set (rule_order rules). rule_validate parse_hm r = Inr ()"
    using assms(1) by (simp add: validate_rules_all rule_order_def)
  have e: "evaluate_rules parse_hm rules today now from_number bs =
      Inr (case find holds (rule_order rules) of None \<Rightarrow> NoRule
           | Some r \<Rightarrow> Matched (rr_name r) (filter_bindings_by_aor bs (rr_fork r)))"
    using first_match_valid [OF v, of today now from_number bs]
    by (cases "rules = []") (simp_all add: evaluate_rules_def rule_order_def holds_def)
  have f: "find holds (rule_order rules) = find (\<lambda>r. holds r \<and> (\<forall>q \<in> set rules. holds q \<longrightarrow> rr_priority q \<le> rr_priority r)) rules"
  proof (cases "filter holds rules")
    case Nil
    then have "\<not> (holds r \<and> Q r)" if "r \<in> set rules" for r Q using that by (auto simp: filter_empty_conv)
    then have "find (\<lambda>r. holds r \<and> (\<forall>q \<in> set rules. holds q \<longrightarrow> rr_priority q \<le> rr_priority r)) rules = None"
      unfolding find_None_iff by blast
    then show ?thesis using Nil by (simp add: rule_order_def find_sort_key)
  qed (simp add: rule_order_def find_sort_key)
  have "find holds (rule_order rules) = None \<longleftrightarrow> \<not> (\<exists>r \<in> set rules. holds r)"
    by (auto simp: find_None_iff rule_order_def)
  then have "(\<exists>r \<in> set rules. holds r) \<longleftrightarrow> evaluate_rules parse_hm rules today now from_number bs \<noteq> Inr NoRule"
    using e by (cases "find holds (rule_order rules)") auto
  then show ?thesis using e f filter_bindings_nth by metis
qed

definition rule_ex :: "string \<Rightarrow> int \<Rightarrow> string list \<Rightarrow> routing_rule" where
  "rule_ex name pr fork = \<lparr>rr_name = name, rr_priority = pr,
     rr_match = \<lparr>ms_weekday = None, ms_time_range = None, ms_from_number = None\<rparr>, rr_fork = fork\<rparr>"

theorem routing_picks_best_rule_witness:
  "evaluate_rules (\<lambda>_. None) [rule_ex ''low'' 0 [], rule_ex ''high'' 5 [''b'', ''c'', ''a'']] Mon 0 ''117'' [(''a'', 1 :: nat), (''b'', 2)]
     = Inr (Matched ''high'' [(''b'', 2), (''a'', 1)])"
  using routing_picks_best_rule [of "\<lambda>_. None" "[rule_ex ''low'' 0 [], rule_ex ''high'' 5 [''b'', ''c'', ''a'']]" Mon 0 "''117''"
      "[(''a'', 1 :: nat), (''b'', 2)]" "[]"]
  by (simp add: rule_ex_def rule_validate_def rule_holds_def filter_bindings_by_aor_def map_filter_simps)

text \<open>A range of times and its reverse divide the day: every time is in exactly one of them, also when
  one passes midnight; a range without length holds never.\<close>

theorem time_ranges_divide:
  "(start \<noteq> stop \<longrightarrow> time_in_range t start stop \<noteq> time_in_range t stop start) \<and> \<not> time_in_range t start start"
  by (auto simp: time_in_range_def)

text \<open>A weekday whose fourth octet is inside a character panics, also while it is checked.\<close>

lemma weekday_panics: "parse_weekday [CHR ''a'', CHR ''b'', CHR 0xC3, CHR 0xA9] = Inl WeekdayPanic"
proof -
  have "trim [CHR ''a'', CHR ''b'', CHR 0xC3, CHR 0xA9] = [CHR ''a'', CHR ''b'', CHR 0xC3, CHR 0xA9]"
    by (simp add: trim_def trim_start_id trim_end_id ws_eval)
  then show ?thesis by (simp add: parse_weekday_def lower_def ascii_lower_def is_cont_def octet_of_def Let_def)
qed

end
