(* ===== verification/Digest_Auth.thy ===== *)
theory Digest_Auth
  imports Rust_Str Rust_Bytes
begin

unbundle bit_operations_syntax

text \<open>
  Digest authentication (\<^verbatim>\<open>sip/auth.rs\<close>) for the client and the server side. The digest
  (\<^verbatim>\<open>md5::compute\<close> of the md5 crate, printed in hexadecimal) is the parameter \<open>md5\<close>, and the
  random number of a client nonce is an argument. What is used of the digest is that it is
  printed as 32 hexadecimal digits (\<open>hex_digest\<close>).
\<close>

section \<open>Definitions\<close>

record digest_challenge =
  dc_realm :: string
  dc_nonce :: string
  dc_algorithm :: string
  dc_qop :: "string option"
  dc_opaque :: "string option"

record digest_authorization =
  da_username :: string
  da_realm :: string
  da_nonce :: string
  da_uri :: string
  da_response :: string
  da_algorithm :: string
  da_qop :: "string option"
  da_nc :: "string option"
  da_cnonce :: "string option"
  da_opaque :: "string option"

record digest_credentials =
  cr_username :: string
  cr_password :: string

record digest_response =
  dr_header_value :: string
  dr_cnonce :: string
  dr_nc :: "32 word"

datatype auth_error = BadAuthParam | MissingField

function trim_start_matches :: "string \<Rightarrow> string \<Rightarrow> string" where
  "trim_start_matches p s = (if p \<noteq> [] \<and> starts_with p s then trim_start_matches p (drop (length p) s) else s)"
  by pat_completeness auto
termination
  by (relation "measure (\<lambda>(p, s). length s)") (auto simp: starts_with_def, metis diff_less length_greater_0_conv list.size(3) take_Nil)

declare trim_start_matches.simps [simp del]

text \<open>The loop of \<^verbatim>\<open>split_auth_params\<close>; \<open>cur\<close> is what was read since the last comma.\<close>

fun auth_scan :: "bool \<Rightarrow> string \<Rightarrow> string \<Rightarrow> string list" where
  "auth_scan in_quote cur [] = [trim cur]"
| "auth_scan in_quote cur (c # s) =
     (if c = CHR 0x22 then auth_scan (\<not> in_quote) (cur @ [c]) s
      else if c = CHR '','' \<and> \<not> in_quote then trim cur # auth_scan in_quote [] s
      else auth_scan in_quote (cur @ [c]) s)"

definition split_auth_params :: "string \<Rightarrow> string list" where
  "split_auth_params s = auth_scan False [] s"

definition strip_scheme :: "string \<Rightarrow> string" where
  "strip_scheme s = trim_start_matches ''digest '' (trim_start_matches ''Digest '' s)"

definition auth_param :: "string \<Rightarrow> (string \<times> string) option" where
  "auth_param part = map_option (\<lambda>(k, v). (trim k, trim_quotes (trim v))) (split_once CHR ''='' part)"

definition challenge_param :: "string \<Rightarrow> string \<Rightarrow> digest_challenge \<Rightarrow> digest_challenge" where
  "challenge_param k v c =
     (if k = ''realm'' then c\<lparr>dc_realm := v\<rparr>
      else if k = ''nonce'' then c\<lparr>dc_nonce := v\<rparr>
      else if k = ''algorithm'' then c\<lparr>dc_algorithm := v\<rparr>
      else if k = ''qop'' then c\<lparr>dc_qop := Some v\<rparr>
      else if k = ''opaque'' then c\<lparr>dc_opaque := Some v\<rparr>
      else c)"

fun challenge_params :: "string list \<Rightarrow> digest_challenge \<Rightarrow> auth_error + digest_challenge" where
  "challenge_params [] c = Inr c"
| "challenge_params (p # ps) c =
     (case auth_param p of
        None \<Rightarrow> Inl BadAuthParam
      | Some (k, v) \<Rightarrow> challenge_params ps (challenge_param k v c))"

definition challenge_parse :: "string \<Rightarrow> auth_error + digest_challenge" where
  "challenge_parse www_authenticate =
     challenge_params (split_auth_params (strip_scheme www_authenticate))
       \<lparr>dc_realm = [], dc_nonce = [], dc_algorithm = ''MD5'', dc_qop = None, dc_opaque = None\<rparr>"

definition ha1 :: "(string \<Rightarrow> string) \<Rightarrow> string \<Rightarrow> string \<Rightarrow> string \<Rightarrow> string" where
  "ha1 md5 user realm password = md5 (user @ '':'' @ realm @ '':'' @ password)"

definition ha2 :: "(string \<Rightarrow> string) \<Rightarrow> string \<Rightarrow> string \<Rightarrow> string" where
  "ha2 md5 method uri = md5 (method @ '':'' @ uri)"

definition quoted :: "string \<Rightarrow> string" where
  "quoted v = CHR 0x22 # v @ [CHR 0x22]"

definition compute ::
  "(string \<Rightarrow> string) \<Rightarrow> 64 word \<Rightarrow> digest_credentials \<Rightarrow> digest_challenge \<Rightarrow> string \<Rightarrow> string \<Rightarrow> 32 word \<Rightarrow> digest_response" where
  "compute md5 rnd cr ch method uri nc =
     (let cnonce = hex_fixed 16 (unat rnd);
          h1 = ha1 md5 (cr_username cr) (dc_realm ch) (cr_password cr);
          h2 = ha2 md5 method uri;
          nc_str = hex_fixed 8 (unat nc);
          response = (if dc_qop ch = Some ''auth''
                      then md5 (h1 @ '':'' @ dc_nonce ch @ '':'' @ nc_str @ '':'' @ cnonce @ '':auth:'' @ h2)
                      else md5 (h1 @ '':'' @ dc_nonce ch @ '':'' @ h2));
          header = ''Digest username='' @ quoted (cr_username cr) @ '', realm='' @ quoted (dc_realm ch)
            @ '', nonce='' @ quoted (dc_nonce ch) @ '', uri='' @ quoted uri @ '', response='' @ quoted response;
          header1 = header @ (if dc_qop ch = Some ''auth''
                              then '', qop=auth, nc='' @ nc_str @ '', cnonce='' @ quoted cnonce else []);
          header2 = header1 @ (case dc_opaque ch of Some opq \<Rightarrow> '', opaque='' @ quoted opq | None \<Rightarrow> []);
          header3 = header2 @ '', algorithm='' @ dc_algorithm ch
      in \<lparr>dr_header_value = header3, dr_cnonce = cnonce, dr_nc = nc\<rparr>)"

definition authorization_param :: "string \<Rightarrow> string \<Rightarrow> digest_authorization \<Rightarrow> digest_authorization" where
  "authorization_param k v a =
     (if k = ''username'' then a\<lparr>da_username := v\<rparr>
      else if k = ''realm'' then a\<lparr>da_realm := v\<rparr>
      else if k = ''nonce'' then a\<lparr>da_nonce := v\<rparr>
      else if k = ''uri'' then a\<lparr>da_uri := v\<rparr>
      else if k = ''response'' then a\<lparr>da_response := v\<rparr>
      else if k = ''algorithm'' then a\<lparr>da_algorithm := v\<rparr>
      else if k = ''qop'' then a\<lparr>da_qop := Some v\<rparr>
      else if k = ''nc'' then a\<lparr>da_nc := Some v\<rparr>
      else if k = ''cnonce'' then a\<lparr>da_cnonce := Some v\<rparr>
      else if k = ''opaque'' then a\<lparr>da_opaque := Some v\<rparr>
      else a)"

fun authorization_params :: "string list \<Rightarrow> digest_authorization \<Rightarrow> digest_authorization" where
  "authorization_params [] a = a"
| "authorization_params (p # ps) a =
     authorization_params ps (case auth_param p of None \<Rightarrow> a | Some (k, v) \<Rightarrow> authorization_param k v a)"

definition authorization_parse :: "string \<Rightarrow> auth_error + digest_authorization" where
  "authorization_parse authorization =
     (let a = authorization_params (split_auth_params (strip_scheme (trim authorization)))
            \<lparr>da_username = [], da_realm = [], da_nonce = [], da_uri = [], da_response = [], da_algorithm = ''MD5'',
             da_qop = None, da_nc = None, da_cnonce = None, da_opaque = None\<rparr>
      in if da_username a = [] \<or> da_realm a = [] \<or> da_nonce a = [] \<or> da_response a = [] then Inl MissingField
         else Inr a)"

definition constant_time_eq :: "string \<Rightarrow> string \<Rightarrow> bool" where
  "constant_time_eq a b =
     (if length a \<noteq> length b then False
      else foldl (\<lambda>diff (x, y). diff OR ((of_nat (octet_of x) :: octet) XOR of_nat (octet_of y))) 0 (zip a b) = 0)"

definition unwrap_or_empty_str :: "string option \<Rightarrow> string" where
  "unwrap_or_empty_str v = (case v of Some s \<Rightarrow> s | None \<Rightarrow> [])"

definition digest_verify :: "(string \<Rightarrow> string) \<Rightarrow> digest_authorization \<Rightarrow> string \<Rightarrow> string \<Rightarrow> bool" where
  "digest_verify md5 a method password =
     (let h1 = ha1 md5 (da_username a) (da_realm a) password;
          h2 = ha2 md5 method (da_uri a);
          expected = (if da_qop a = Some ''auth''
                      then md5 (h1 @ '':'' @ da_nonce a @ '':'' @ unwrap_or_empty_str (da_nc a) @ '':''
                                @ unwrap_or_empty_str (da_cnonce a) @ '':auth:'' @ h2)
                      else md5 (h1 @ '':'' @ da_nonce a @ '':'' @ h2))
      in constant_time_eq expected (da_response a))"

definition build_authenticate_value :: "string \<Rightarrow> string \<Rightarrow> bool \<Rightarrow> string option \<Rightarrow> string" where
  "build_authenticate_value realm nonce stale opaque =
     ''Digest realm='' @ quoted realm @ '', nonce='' @ quoted nonce @ '', algorithm=MD5, qop='' @ quoted ''auth''
     @ '', stale='' @ (if stale then ''true'' else ''false'')
     @ (case opaque of Some opq \<Rightarrow> '', opaque='' @ quoted opq | None \<Rightarrow> [])"

definition build_www_authenticate :: "string \<Rightarrow> string \<Rightarrow> bool \<Rightarrow> string option \<Rightarrow> string" where
  "build_www_authenticate realm nonce stale opaque = build_authenticate_value realm nonce stale opaque"

definition build_proxy_authenticate :: "string \<Rightarrow> string \<Rightarrow> bool \<Rightarrow> string option \<Rightarrow> string" where
  "build_proxy_authenticate realm nonce stale opaque = build_authenticate_value realm nonce stale opaque"

section \<open>Comparison\<close>

lemma or_zero: "(a OR b = (0 :: octet)) \<longleftrightarrow> a = 0 \<and> b = 0"
  by (rule or_eq_0_iff)

lemma xor_zero: "(a XOR b = (0 :: octet)) \<longleftrightarrow> a = b"
proof
  assume "a XOR b = 0"
  then have "(a XOR b) XOR b = b" by simp
  then show "a = b" by (simp only: xor.assoc xor_self_eq xor.right_neutral)
qed simp

lemma octet_word_inj: "(of_nat (octet_of x) :: octet) = of_nat (octet_of y) \<longleftrightarrow> x = y"
  by (simp add: word_of_nat_eq_iff take_bit_nat_eq_self octet_of_inj)

lemma constant_time_eq_iff: "constant_time_eq a b \<longleftrightarrow> a = b"
proof -
  have "foldl (\<lambda>diff (x, y). diff OR ((of_nat (octet_of x) :: octet) XOR of_nat (octet_of y))) d (zip a b) = 0 \<longleftrightarrow> d = 0 \<and> a = b"
    if "length a = length b" for d
    using that
  proof (induction a b arbitrary: d rule: list_induct2)
    case (Cons x xs y ys)
    have "((of_nat (octet_of x) :: octet) XOR of_nat (octet_of y) = 0) \<longleftrightarrow> x = y"
      unfolding xor_zero octet_word_inj ..
    with Cons show ?case by (simp add: or_zero conj_assoc)
  qed simp
  then show ?thesis by (auto simp: constant_time_eq_def)
qed

section \<open>Parameters as they are written\<close>

text \<open>A parameter: its name, its value and whether the value is quoted.\<close>

type_synonym auth_field = "string \<times> string \<times> bool"

fun render :: "auth_field \<Rightarrow> string" where
  "render (k, v, q) = k @ ''='' @ (if q then quoted v else v)"

definition plain_char :: "char \<Rightarrow> bool" where
  "plain_char c \<longleftrightarrow> graphic c \<and> c \<noteq> CHR 0x22 \<and> c \<noteq> CHR '',''"

definition wf_field :: "auth_field \<Rightarrow> bool" where
  "wf_field f =
     (case f of (k, v, q) \<Rightarrow>
        k \<noteq> [] \<and> list_all plain_char k \<and> CHR ''='' \<notin> set k \<and> CHR 0x22 \<notin> set v \<and> (\<not> q \<longrightarrow> list_all plain_char v))"

lemma auth_scan_plain: "CHR 0x22 \<notin> set s \<Longrightarrow> (q \<or> CHR '','' \<notin> set s) \<Longrightarrow> auth_scan q cur (s @ r) = auth_scan q (cur @ s) r"
  by (induction s arbitrary: cur) auto

lemma plain_no: "list_all plain_char s \<Longrightarrow> CHR 0x22 \<notin> set s \<and> CHR '','' \<notin> set s"
  by (auto simp: list_all_iff plain_char_def)

lemma auth_scan_field: "wf_field f \<Longrightarrow> auth_scan False cur (render f @ r) = auth_scan False (cur @ render f) r"
proof (cases f)
  case (fields k v q)
  assume w: "wf_field f"
  have k: "auth_scan False cur (k @ ''='' @ r) = auth_scan False (cur @ k @ ''='') r" for r
    using w fields plain_no [of k] auth_scan_plain [of "k @ ''=''" False cur r] by (simp add: wf_field_def)
  show ?thesis
  proof (cases q)
    case True
    have "auth_scan True (cur @ k @ ''='' @ [CHR 0x22]) (v @ CHR 0x22 # r) = auth_scan False (cur @ render f) r"
      using w fields True auth_scan_plain [of v True "cur @ k @ ''='' @ [CHR 0x22]" "CHR 0x22 # r"]
      by (simp add: wf_field_def quoted_def)
    then show ?thesis using k [of "quoted v @ r"] fields True by (simp add: quoted_def)
  next
    case False
    then show ?thesis
      using w fields k [of "v @ r"] plain_no [of v] auth_scan_plain [of v False "cur @ k @ ''=''" r] by (simp add: wf_field_def)
  qed
qed

lemma render_ends: "wf_field f \<Longrightarrow> render f \<noteq> [] \<and> graphic (hd (render f)) \<and> graphic (List.last (render f))"
proof (cases f)
  case (fields k v q)
  assume w: "wf_field f"
  have "graphic CHR ''=''" "graphic CHR 0x22" by (simp_all add: graphic_def octet_of_def)
  moreover have "graphic (hd k)" using w fields by (cases k) (auto simp: wf_field_def plain_char_def)
  moreover have "graphic (List.last v)" if "v \<noteq> []" "\<not> q"
    using w fields that last_in_set [of v] by (auto simp: wf_field_def plain_char_def list_all_iff)
  moreover have "k \<noteq> []" using w fields by (simp add: wf_field_def)
  ultimately show ?thesis using fields by (cases q; cases "v = []") (simp_all add: quoted_def)
qed

lemma trim_render: "wf_field f \<Longrightarrow> trim (render f) = render f"
  using render_ends trim_ends by blast

lemma split_rendered: "list_all wf_field fs \<Longrightarrow> fs \<noteq> [] \<Longrightarrow> split_auth_params (join '', '' (map render fs)) = map render fs"
proof -
  have "auth_scan False cur (join '', '' (map render fs)) = map render fs"
    if "list_all wf_field fs" "fs \<noteq> []" "cur = [] \<or> cur = [SP]" for cur fs
    using that
  proof (induction fs arbitrary: cur rule: induct_list012)
    case (2 f)
    then have "auth_scan False cur (render f) = [trim (cur @ render f)]" using auth_scan_field [of f cur "[]"] by simp
    moreover have "trim (cur @ render f) = render f" using 2 trim_render [of f] by auto
    ultimately show ?case by simp
  next
    case (3 f g fs)
    have "auth_scan False cur (render f @ CHR '','' # SP # join '', '' (map render (g # fs)))
        = trim (cur @ render f) # auth_scan False [SP] (join '', '' (map render (g # fs)))"
      using auth_scan_field [of f cur] 3(3) by simp
    moreover have "trim (cur @ render f) = render f" using 3 trim_render [of f] by auto
    moreover have "auth_scan False [SP] (join '', '' (map render (g # fs))) = map render (g # fs)" using 3 by simp
    ultimately show ?case by simp
  qed simp
  then show "list_all wf_field fs \<Longrightarrow> fs \<noteq> [] \<Longrightarrow> split_auth_params (join '', '' (map render fs)) = map render fs"
    by (simp add: split_auth_params_def)
qed

lemma trim_quotes_quoted: "CHR 0x22 \<notin> set v \<Longrightarrow> trim_quotes (quoted v) = v"
  "CHR 0x22 \<notin> set v \<Longrightarrow> trim_quotes v = v"
proof -
  assume v: "CHR 0x22 \<notin> set v"
  have w: "CHR 0x22 \<notin> set w \<Longrightarrow> dropWhile (\<lambda>c. c = CHR 0x22) w = w" for w by (cases w) auto
  have d: "dropWhile (\<lambda>c. c = CHR 0x22) v = v" "dropWhile (\<lambda>c. c = CHR 0x22) (rev v) = rev v"
    using v by (simp_all add: w)
  then show "trim_quotes v = v" by (simp add: trim_quotes_def)
  have "dropWhile (\<lambda>c. c = CHR 0x22) (quoted v) = dropWhile (\<lambda>c. c = CHR 0x22) (v @ [CHR 0x22])" by (simp add: quoted_def)
  also have "\<dots> = (if v = [] then [] else v @ [CHR 0x22])" using v by (cases v) auto
  finally show "trim_quotes (quoted v) = v" using d by (simp add: trim_quotes_def)
qed

lemma auth_param_render: "wf_field (k, v, q) \<Longrightarrow> auth_param (render (k, v, q)) = Some (k, v)"
proof -
  assume w: "wf_field (k, v, q)"
  then have "split_once CHR ''='' (render (k, v, q)) = Some (k, if q then quoted v else v)"
    by (auto simp: split_once_Some wf_field_def)
  moreover have "trim k = k" using w by (intro trim_graphic) (auto simp: wf_field_def list_all_iff plain_char_def)
  moreover have "trim (quoted v) = quoted v" by (intro trim_ends) (simp_all add: quoted_def graphic_def octet_of_def)
  moreover have "\<not> q \<Longrightarrow> trim v = v" using w by (intro trim_graphic) (auto simp: wf_field_def list_all_iff plain_char_def)
  ultimately show ?thesis
    using w trim_quotes_quoted [of v] by (cases q) (simp_all add: auth_param_def wf_field_def)
qed

lemma strip_scheme_Digest: "t \<noteq> [] \<Longrightarrow> hd t \<noteq> CHR ''D'' \<Longrightarrow> hd t \<noteq> CHR ''d'' \<Longrightarrow> strip_scheme (''Digest '' @ t) = t"
proof -
  assume t: "t \<noteq> []" "hd t \<noteq> CHR ''D''" "hd t \<noteq> CHR ''d''"
  then have "\<not> starts_with ''Digest '' t" "\<not> starts_with ''digest '' t" by (cases t; simp add: starts_with_def)+
  then have "trim_start_matches ''Digest '' t = t" "trim_start_matches ''digest '' t = t"
    by (simp_all add: trim_start_matches.simps [of _ t])
  moreover have "trim_start_matches ''Digest '' (''Digest '' @ t) = trim_start_matches ''Digest '' t"
    by (simp add: trim_start_matches.simps [of "''Digest ''" "''Digest '' @ t"] starts_with_def del: append_Cons)
  ultimately show ?thesis by (simp add: strip_scheme_def)
qed

lemma challenge_params_rendered:
  "list_all wf_field fs \<Longrightarrow> challenge_params (map render fs) c = Inr (fold (\<lambda>(k, v, q). challenge_param k v) fs c)"
proof (induction fs arbitrary: c)
  case (Cons f fs)
  then show ?case using auth_param_render by (cases f) (simp del: render.simps)
qed simp

lemma authorization_params_rendered:
  "list_all wf_field fs \<Longrightarrow> authorization_params (map render fs) a = fold (\<lambda>(k, v, q). authorization_param k v) fs a"
proof (induction fs arbitrary: a)
  case (Cons f fs)
  then show ?case using auth_param_render by (cases f) (simp del: render.simps)
qed simp

section \<open>Handshake\<close>

definition hex_digest :: "(string \<Rightarrow> string) \<Rightarrow> bool" where
  "hex_digest md5 \<longleftrightarrow> (\<forall>s. length (md5 s) = 32 \<and> list_all (\<lambda>c. c \<in> set ''0123456789abcdef'') (md5 s))"

definition quotable :: "string \<Rightarrow> bool" where
  "quotable v \<longleftrightarrow> CHR 0x22 \<notin> set v"

definition opaque_fields :: "string option \<Rightarrow> auth_field list" where
  "opaque_fields opq = (case opq of Some v \<Rightarrow> [(''opaque'', v, True)] | None \<Rightarrow> [])"

definition www_fields :: "string \<Rightarrow> string \<Rightarrow> bool \<Rightarrow> string option \<Rightarrow> auth_field list" where
  "www_fields realm nonce stale opaque =
     [(''realm'', realm, True), (''nonce'', nonce, True), (''algorithm'', ''MD5'', False), (''qop'', ''auth'', True),
      (''stale'', if stale then ''true'' else ''false'', False)] @ opaque_fields opaque"

lemma www_rendered: "build_authenticate_value realm nonce stale opaque = ''Digest '' @ join '', '' (map render (www_fields realm nonce stale opaque))"
  by (cases opaque) (simp_all add: build_authenticate_value_def www_fields_def opaque_fields_def)

lemma field_keys:
  "list_all (\<lambda>k. k \<noteq> [] \<and> list_all plain_char k \<and> CHR ''='' \<notin> set k)
     [''realm'', ''nonce'', ''algorithm'', ''qop'', ''stale'', ''opaque'', ''username'', ''uri'', ''response'', ''nc'', ''cnonce'']"
  by (simp add: plain_char_def graphic_def octet_of_def)

lemma plain_words: "list_all plain_char ''MD5''" "list_all plain_char ''auth''" "list_all plain_char ''true''" "list_all plain_char ''false''"
  by (simp_all add: plain_char_def graphic_def octet_of_def)

lemma www_wf:
  assumes "quotable realm" "quotable nonce" "pred_option quotable opaque"
  shows "list_all wf_field (www_fields realm nonce stale opaque)"
  using assms field_keys plain_words
  by (cases opaque) (simp_all add: www_fields_def opaque_fields_def wf_field_def quotable_def)

lemma challenge_read:
  assumes "quotable realm" "quotable nonce" "pred_option quotable opaque"
  shows "challenge_parse (build_www_authenticate realm nonce stale opaque)
    = Inr \<lparr>dc_realm = realm, dc_nonce = nonce, dc_algorithm = ''MD5'', dc_qop = Some ''auth'', dc_opaque = opaque\<rparr>"
proof -
  let ?fs = "www_fields realm nonce stale opaque"
  have w: "list_all wf_field ?fs" "?fs \<noteq> []" using www_wf [OF assms] by (simp_all add: www_fields_def)
  have "hd (join '', '' (map render ?fs)) = CHR ''r''" "join '', '' (map render ?fs) \<noteq> []"
    by (cases opaque; simp add: www_fields_def opaque_fields_def)+
  then have "strip_scheme (build_www_authenticate realm nonce stale opaque) = join '', '' (map render ?fs)"
    unfolding build_www_authenticate_def www_rendered by (intro strip_scheme_Digest) simp_all
  then show ?thesis
    unfolding challenge_parse_def using split_rendered [OF w] challenge_params_rendered [OF w(1)]
    by (cases opaque) (simp_all add: www_fields_def opaque_fields_def challenge_param_def)
qed

definition response_fields ::
  "(string \<Rightarrow> string) \<Rightarrow> 64 word \<Rightarrow> digest_credentials \<Rightarrow> digest_challenge \<Rightarrow> string \<Rightarrow> string \<Rightarrow> 32 word \<Rightarrow> string \<Rightarrow> auth_field list" where
  "response_fields md5 rnd cr ch method uri nc response =
     [(''username'', cr_username cr, True), (''realm'', dc_realm ch, True), (''nonce'', dc_nonce ch, True), (''uri'', uri, True),
      (''response'', response, True)]
     @ (if dc_qop ch = Some ''auth''
        then [(''qop'', ''auth'', False), (''nc'', hex_fixed 8 (unat nc), False), (''cnonce'', hex_fixed 16 (unat rnd), True)] else [])
     @ opaque_fields (dc_opaque ch) @ [(''algorithm'', dc_algorithm ch, False)]"

definition expected_response ::
  "(string \<Rightarrow> string) \<Rightarrow> 64 word \<Rightarrow> digest_credentials \<Rightarrow> digest_challenge \<Rightarrow> string \<Rightarrow> string \<Rightarrow> 32 word \<Rightarrow> string" where
  "expected_response md5 rnd cr ch method uri nc =
     (let h1 = ha1 md5 (cr_username cr) (dc_realm ch) (cr_password cr); h2 = ha2 md5 method uri
      in if dc_qop ch = Some ''auth''
         then md5 (h1 @ '':'' @ dc_nonce ch @ '':'' @ hex_fixed 8 (unat nc) @ '':'' @ hex_fixed 16 (unat rnd) @ '':auth:'' @ h2)
         else md5 (h1 @ '':'' @ dc_nonce ch @ '':'' @ h2))"

lemma compute_rendered:
  "dr_header_value (compute md5 rnd cr ch method uri nc)
     = ''Digest '' @ join '', '' (map render (response_fields md5 rnd cr ch method uri nc (expected_response md5 rnd cr ch method uri nc)))"
  by (cases "dc_opaque ch"; cases "dc_qop ch = Some ''auth''")
    (simp_all add: compute_def response_fields_def opaque_fields_def expected_response_def Let_def)

lemma hex_fixed_plain: "list_all plain_char (hex_fixed n k)"
proof (induction n arbitrary: k)
  case (Suc n)
  have "plain_char (hex_digit d)" if "d < 16" for d
    using that by (auto simp: hex_digit_def plain_char_def graphic_def octet_of_inj [symmetric]) (auto simp: octet_of_def)
  then show ?case using Suc by simp
qed simp

lemma join_snoc: "xs \<noteq> [] \<Longrightarrow> join sep (xs @ [x]) = join sep xs @ sep @ x"
proof (induction xs rule: induct_list012)
  case (3 y z zs)
  then show ?case by simp
qed simp_all

definition good_challenge :: "digest_challenge \<Rightarrow> bool" where
  "good_challenge ch \<longleftrightarrow>
     dc_realm ch \<noteq> [] \<and> dc_nonce ch \<noteq> [] \<and> quotable (dc_realm ch) \<and> quotable (dc_nonce ch)
     \<and> pred_option quotable (dc_opaque ch) \<and> list_all plain_char (dc_algorithm ch)"

lemma response_read:
  assumes "hex_digest md5" "good_challenge ch" "cr_username cr \<noteq> []" "quotable (cr_username cr)" "quotable uri"
  shows "authorization_parse (dr_header_value (compute md5 rnd cr ch method uri nc)) = Inr
    \<lparr>da_username = cr_username cr, da_realm = dc_realm ch, da_nonce = dc_nonce ch, da_uri = uri,
     da_response = expected_response md5 rnd cr ch method uri nc, da_algorithm = dc_algorithm ch,
     da_qop = (if dc_qop ch = Some ''auth'' then Some ''auth'' else None),
     da_nc = (if dc_qop ch = Some ''auth'' then Some (hex_fixed 8 (unat nc)) else None),
     da_cnonce = (if dc_qop ch = Some ''auth'' then Some (hex_fixed 16 (unat rnd)) else None), da_opaque = dc_opaque ch\<rparr>"
proof -
  let ?r = "expected_response md5 rnd cr ch method uri nc"
  let ?fs = "response_fields md5 rnd cr ch method uri nc ?r"
  let ?h = "dr_header_value (compute md5 rnd cr ch method uri nc)"
  obtain x where x: "?r = md5 x" by (cases "dc_qop ch = Some ''auth''") (auto simp: expected_response_def Let_def)
  have "length (md5 x) = 32" "list_all (\<lambda>c. c \<in> set ''0123456789abcdef'') (md5 x)"
    using assms(1) unfolding hex_digest_def by blast+
  moreover have "CHR 0x22 \<notin> set ''0123456789abcdef''" by simp
  ultimately have r: "?r \<noteq> []" "CHR 0x22 \<notin> set ?r" unfolding x list_all_iff by (metis list.size(3) zero_neq_numeral, blast)
  have q: "wf_field (k, v, True)" if "k \<in> {''realm'', ''nonce'', ''opaque'', ''username'', ''uri'', ''response'', ''cnonce''}" "CHR 0x22 \<notin> set v" for k v
    using that field_keys by (auto simp: wf_field_def)
  have u: "wf_field (k, v, False)" if "k \<in> {''algorithm'', ''qop'', ''nc''}" "list_all plain_char v" for k v
    using that field_keys plain_no [of v] by (auto simp: wf_field_def)
  have "wf_field (''cnonce'', hex_fixed 16 (unat rnd), True)" using q plain_no hex_fixed_plain by simp
  moreover have "list_all wf_field (opaque_fields (dc_opaque ch))"
    using assms(2) q by (cases "dc_opaque ch") (simp_all add: opaque_fields_def good_challenge_def quotable_def)
  ultimately have w: "list_all wf_field ?fs" "?fs \<noteq> []"
    using assms(2,4,5) r(2) plain_words hex_fixed_plain
    by (simp_all add: response_fields_def q u quotable_def good_challenge_def)
  have j: "hd (join '', '' (map render ?fs)) = CHR ''u''" "join '', '' (map render ?fs) \<noteq> []"
    by (simp_all add: response_fields_def)
  obtain gs where gs: "?fs = gs @ [(''algorithm'', dc_algorithm ch, False)]" "gs \<noteq> []"
    by (auto simp: response_fields_def)
  have "List.last ?h = List.last (render (''algorithm'', dc_algorithm ch, False))"
    unfolding compute_rendered gs(1) map_append list.map using gs(2) by (simp add: join_snoc)
  moreover have "graphic (List.last (render (''algorithm'', dc_algorithm ch, False)))"
    using render_ends [of "(''algorithm'', dc_algorithm ch, False)"] w(1) unfolding gs(1) list_all_append list.pred_inject by blast
  ultimately have "trim ?h = ?h" by (intro trim_ends) (simp_all add: compute_rendered graphic_def octet_of_def)
  moreover have "hd (join '', '' (map render ?fs)) \<noteq> CHR ''D''" "hd (join '', '' (map render ?fs)) \<noteq> CHR ''d''"
    unfolding j(1) by simp_all
  ultimately have "strip_scheme (trim ?h) = join '', '' (map render ?fs)"
    using strip_scheme_Digest [OF j(2)] unfolding compute_rendered by metis
  then show ?thesis
    unfolding authorization_parse_def using split_rendered [OF w] authorization_params_rendered [OF w(1)] assms r
    by (cases "dc_opaque ch") (simp_all add: response_fields_def opaque_fields_def authorization_param_def good_challenge_def)
qed

section \<open>Properties\<close>

text \<open>The two sides of a digest exchange understand each other: the client reads the challenge the server wrote,
  its answer is read back field by field, echoing realm, nonce and opaque, and the server accepts
  it with the password the client used.\<close>

theorem digest_handshake:
  assumes "hex_digest md5" "realm \<noteq> []" "nonce \<noteq> []" "quotable realm" "quotable nonce" "pred_option quotable opaque"
    and "cr_username cr \<noteq> []" "quotable (cr_username cr)" "quotable uri"
  shows "\<exists>ch a. challenge_parse (build_www_authenticate realm nonce stale opaque) = Inr ch
    \<and> authorization_parse (dr_header_value (compute md5 rnd cr ch meth uri nc)) = Inr a
    \<and> da_username a = cr_username cr \<and> da_realm a = realm \<and> da_nonce a = nonce \<and> da_uri a = uri \<and> da_opaque a = opaque
    \<and> da_qop a = Some ''auth'' \<and> da_nc a = Some (hex_fixed 8 (unat nc))
    \<and> digest_verify md5 a meth (cr_password cr)"
proof -
  let ?ch = "\<lparr>dc_realm = realm, dc_nonce = nonce, dc_algorithm = ''MD5'', dc_qop = Some ''auth'', dc_opaque = opaque\<rparr>"
  have "good_challenge ?ch" using assms plain_words by (simp add: good_challenge_def)
  note r = response_read [OF assms(1) this assms(7-9), of rnd meth nc]
  show ?thesis
    using challenge_read [OF assms(4-6)] r
    by (simp add: digest_verify_def constant_time_eq_iff expected_response_def unwrap_or_empty_str_def Let_def)
qed

definition md5_ex :: "string \<Rightarrow> string" where
  "md5_ex s = replicate 32 CHR ''0''"

lemma hex_digest_ex: "hex_digest md5_ex"
  by (simp add: hex_digest_def md5_ex_def list_all_iff)

theorem digest_handshake_witness:
  "\<exists>ch a. challenge_parse (build_www_authenticate ''sabiden'' ''n1'' False None) = Inr ch
    \<and> authorization_parse (dr_header_value (compute md5_ex 5 \<lparr>cr_username = ''alice'', cr_password = ''pw''\<rparr> ch ''REGISTER'' ''sip:x'' 1)) = Inr a
    \<and> digest_verify md5_ex a ''REGISTER'' ''pw''"
  using digest_handshake [OF hex_digest_ex, of "''sabiden''" "''n1''" None "\<lparr>cr_username = ''alice'', cr_password = ''pw''\<rparr>" "''sip:x''"
      False 5 "''REGISTER''" 1]
  by (auto simp: quotable_def)

text \<open>An answer to a challenge without the auth quality of protection is accepted as well.\<close>

theorem digest_plain_accepted:
  assumes "hex_digest md5" "good_challenge ch" "cr_username cr \<noteq> []" "quotable (cr_username cr)" "quotable uri"
  shows "\<exists>a. authorization_parse (dr_header_value (compute md5 rnd cr ch meth uri nc)) = Inr a
    \<and> digest_verify md5 a meth (cr_password cr)"
  using response_read [OF assms, of rnd meth nc]
  by (simp add: digest_verify_def constant_time_eq_iff expected_response_def unwrap_or_empty_str_def Let_def)

definition collides :: "(string \<Rightarrow> string) \<Rightarrow> string \<Rightarrow> string \<Rightarrow> bool" where
  "collides md5 x y \<longleftrightarrow> x \<noteq> y \<and> md5 x = md5 y"

definition digest_text :: "(string \<Rightarrow> string) \<Rightarrow> digest_authorization \<Rightarrow> string \<Rightarrow> string \<Rightarrow> string" where
  "digest_text md5 a method password =
     ha1 md5 (da_username a) (da_realm a) password @ '':'' @ da_nonce a @ '':''
     @ (if da_qop a = Some ''auth''
        then unwrap_or_empty_str (da_nc a) @ '':'' @ unwrap_or_empty_str (da_cnonce a) @ '':auth:'' else [])
     @ ha2 md5 method (da_uri a)"

text \<open>Two different passwords are accepted for the same answer only if the digest has the same value for
  two different texts that the check itself computes: the two secrets, or the two texts
  built from their digests.\<close>

theorem digest_password_unique:
  assumes "hex_digest md5" "digest_verify md5 a method p1" "digest_verify md5 a method p2" "p1 \<noteq> p2"
  shows "collides md5 (da_username a @ '':'' @ da_realm a @ '':'' @ p1) (da_username a @ '':'' @ da_realm a @ '':'' @ p2)
    \<or> collides md5 (digest_text md5 a method p1) (digest_text md5 a method p2)"
proof -
  have v: "md5 (digest_text md5 a method p) = da_response a" if "digest_verify md5 a method p" for p
    using that by (simp add: digest_verify_def digest_text_def constant_time_eq_iff Let_def split: if_splits)
  have len: "length (ha1 md5 u r p) = 32" for u r p using assms(1) by (simp add: hex_digest_def ha1_def)
  show ?thesis
  proof (cases "digest_text md5 a method p1 = digest_text md5 a method p2")
    case True
    then have "ha1 md5 (da_username a) (da_realm a) p1 = ha1 md5 (da_username a) (da_realm a) p2"
      using len unfolding digest_text_def by (metis append_eq_append_conv)
    then show ?thesis using assms(4) by (simp add: collides_def ha1_def)
  next
    case False
    then show ?thesis using v [OF assms(2)] v [OF assms(3)] by (simp add: collides_def)
  qed
qed

theorem digest_password_unique_witness:
  "let a = \<lparr>da_username = ''u'', da_realm = ''r'', da_nonce = ''n'', da_uri = [], da_response = replicate 32 CHR ''0'',
       da_algorithm = ''MD5'', da_qop = None, da_nc = None, da_cnonce = None, da_opaque = None\<rparr>
   in collides md5_ex ''u:r:p'' ''u:r:q'' \<or> collides md5_ex (digest_text md5_ex a ''M'' ''p'') (digest_text md5_ex a ''M'' ''q'')"
  using digest_password_unique [OF hex_digest_ex, of "\<lparr>da_username = ''u'', da_realm = ''r'', da_nonce = ''n'', da_uri = [],
      da_response = replicate 32 CHR ''0'', da_algorithm = ''MD5'', da_qop = None, da_nc = None, da_cnonce = None, da_opaque = None\<rparr>"
      "''M''" "''p''" "''q''"]
  by (simp add: digest_verify_def constant_time_eq_iff Let_def md5_ex_def)

end
