(* ===== verification/Extension_Uas.thy ===== *)
theory Extension_Uas
  imports Server_Transaction Registrar Digest_Auth Call_Logs
begin

text \<open>
  The user agent server for extensions (\<^verbatim>\<open>sip/uas.rs\<close>): the handle with which a request is
  answered, and one turn of the receive loop for every method. A turn is a function of the
  server, the request and what the turn draws from outside: the instant in milliseconds, the
  wall clock and the random numbers. It gives the datagrams that are sent, the server
  transaction afterwards, the events handed to call control, and the new server. Call
  control is connected or not; an event a gone receiver loses is not distinguished. The gauge of
  registered extensions belongs to the metrics and is left out.

  Every binding in the table stems from a REGISTER whose digest was checked against the
  password of that extension, only such extensions can place calls, and every request is
  answered or handed on.
\<close>

section \<open>Answering\<close>

record uas_env =
  ue_now :: nat
  ue_wall :: nat
  ue_to :: "32 word"
  ue_tag :: "32 word"
  ue_nonce :: "64 word"

definition uas_ensure_to_tag :: "32 word \<Rightarrow> sip_response \<Rightarrow> sip_response" where
  "uas_ensure_to_tag rnd resp =
     (case hdr_get (resp_headers resp) ''to'' of
        Some to_v \<Rightarrow>
          if \<not> has_to_tag to_v
          then resp\<lparr>resp_headers := hdr_set ''To'' (to_v @ '';tag='' @ new_tag rnd) (resp_headers resp)\<rparr> else resp
      | None \<Rightarrow> resp)"

definition quick :: "uas_env \<Rightarrow> server_tx \<Rightarrow> nat \<Rightarrow> string \<Rightarrow> datagram list \<times> server_tx" where
  "quick env tx status reason =
     (let resp = build_response_skeleton (ue_to env) (st_request tx) status reason
      in respond tx (if status \<noteq> 100 then uas_ensure_to_tag (ue_tag env) resp else resp) (ue_now env))"

definition respond_with_body :: "uas_env \<Rightarrow> server_tx \<Rightarrow> nat \<Rightarrow> string \<Rightarrow> string \<Rightarrow> string \<Rightarrow> datagram list \<times> server_tx" where
  "respond_with_body env tx status reason content_type body =
     (let resp = build_response_skeleton (ue_to env) (st_request tx) status reason;
          resp1 = (if body \<noteq> [] then resp\<lparr>resp_headers := hdr_set ''Content-Type'' content_type (resp_headers resp), resp_body := body\<rparr>
                   else resp)
      in respond tx (uas_ensure_to_tag (ue_tag env) resp1) (ue_now env))"

definition quick_with_allow :: "uas_env \<Rightarrow> server_tx \<Rightarrow> nat \<Rightarrow> string \<Rightarrow> string \<Rightarrow> datagram list \<times> server_tx" where
  "quick_with_allow env tx status reason allow =
     (let resp = build_response_skeleton (ue_to env) (st_request tx) status reason;
          resp1 = resp\<lparr>resp_headers := hdr_set ''Allow'' allow (resp_headers resp)\<rparr>
      in respond tx (if status \<noteq> 100 then uas_ensure_to_tag (ue_tag env) resp1 else resp1) (ue_now env))"

definition SUPPORTED_METHODS_ALLOW :: string where
  "SUPPORTED_METHODS_ALLOW = ''INVITE, ACK, BYE, CANCEL, OPTIONS, REFER''"

section \<open>The server\<close>

record 'p uas =
  ua_realm :: string
  ua_max_expires :: nat
  ua_auth_db :: "string \<rightharpoonup> string"
  ua_registrar :: "'p bindings"
  ua_connected :: bool
  ua_message_log :: "message_log option"

datatype uas_event =
    UasInvite string sip_request socket_addr server_tx
  | UasReinvite sip_request socket_addr server_tx
  | UasBye sip_request socket_addr server_tx
  | UasCancel sip_request socket_addr server_tx
  | UasAck sip_request socket_addr
  | UasInfo sip_request socket_addr server_tx
  | UasUnregister string
  | UasRefer sip_request socket_addr server_tx

record 'p uas_turn =
  ut_sent :: "datagram list"
  ut_tx :: server_tx
  ut_events :: "uas_event list"
  ut_uas :: "'p uas"

text \<open>The accounts are collected into a hash map: of two accounts with one name the later one stays.\<close>

definition uas_bind :: "string \<Rightarrow> nat \<Rightarrow> (string \<times> string) list \<Rightarrow> 'p uas" where
  "uas_bind realm max_expires extensions =
     \<lparr>ua_realm = realm, ua_max_expires = max_expires, ua_auth_db = map_of (rev extensions), ua_registrar = registrar_new,
      ua_connected = False, ua_message_log = None\<rparr>"

definition with_handler :: "'p uas \<Rightarrow> 'p uas" where
  "with_handler ua = ua\<lparr>ua_connected := True\<rparr>"

definition with_message_log :: "'p uas \<Rightarrow> message_log \<Rightarrow> 'p uas" where
  "with_message_log ua ml = ua\<lparr>ua_message_log := Some ml\<rparr>"

text \<open>Ways to end a turn: with an answer, or with an event for call control when that is connected.\<close>

definition answered :: "'p uas \<Rightarrow> datagram list \<times> server_tx \<Rightarrow> 'p uas_turn" where
  "answered ua r = \<lparr>ut_sent = fst r, ut_tx = snd r, ut_events = [], ut_uas = ua\<rparr>"

definition handed :: "'p uas \<Rightarrow> datagram list \<Rightarrow> server_tx \<Rightarrow> uas_event \<Rightarrow> 'p uas_turn" where
  "handed ua out tx ev = \<lparr>ut_sent = out, ut_tx = tx, ut_events = [ev], ut_uas = ua\<rparr>"

subsection \<open>REGISTER\<close>

fun first_expires :: "string list \<Rightarrow> nat option" where
  "first_expires [] = None"
| "first_expires (p # ps) =
     (case strip_prefix ''expires='' (trim p) of
        Some v \<Rightarrow> (case parse_uint 32 (trim_quotes v) of Some n \<Rightarrow> Some n | None \<Rightarrow> first_expires ps)
      | None \<Rightarrow> first_expires ps)"

definition parse_register_expires :: "sip_request \<Rightarrow> nat" where
  "parse_register_expires request =
     (case Option.bind (hdr_get (req_headers request) ''contact'') (\<lambda>c. first_expires (split_char CHR '';'' c)) of
        Some n \<Rightarrow> n
      | None \<Rightarrow>
          (case Option.bind (hdr_get (req_headers request) ''expires'') (\<lambda>v. parse_uint 32 (trim v)) of
             Some n \<Rightarrow> n
           | None \<Rightarrow> 3600))"

definition extract_uri_from_contact :: "string \<Rightarrow> string" where
  "extract_uri_from_contact contact =
     (let s = trim contact
      in case Option.bind (split_once CHR ''<'' s) (\<lambda>(_, rest). split_once CHR ''>'' rest) of
           Some (uri, _) \<Rightarrow> uri
         | None \<Rightarrow> trim (hd (split_char CHR '';'' s)))"

definition send_challenge :: "uas_env \<Rightarrow> 'p uas \<Rightarrow> server_tx \<Rightarrow> string \<Rightarrow> datagram list \<times> server_tx" where
  "send_challenge env ua tx reason =
     (let header = build_www_authenticate (ua_realm ua) (new_call_id (ue_nonce env)) False None;
          resp = uas_ensure_to_tag (ue_tag env) (build_response_skeleton (ue_to env) (st_request tx) 401 reason)
      in respond tx (resp\<lparr>resp_headers := hdr_set ''WWW-Authenticate'' header (resp_headers resp)\<rparr>) (ue_now env))"

definition register_ok :: "uas_env \<Rightarrow> sip_request \<Rightarrow> nat \<Rightarrow> sip_response" where
  "register_ok env request expires =
     (let resp = uas_ensure_to_tag (ue_tag env) (build_response_skeleton (ue_to env) request 200 ''OK'');
          hs1 = (case hdr_get (req_headers request) ''contact'' of
                   Some c \<Rightarrow> hdr_set ''Contact'' (c @ '';expires='' @ dec expires) (resp_headers resp)
                 | None \<Rightarrow> resp_headers resp)
      in resp\<lparr>resp_headers := hdr_set ''Expires'' (dec expires) hs1\<rparr>)"

definition handle_register ::
  "(string \<Rightarrow> string) \<Rightarrow> uas_env \<Rightarrow> 'p uas \<Rightarrow> sip_request \<Rightarrow> socket_addr \<Rightarrow> server_tx \<Rightarrow> 'p uas_turn" where
  "handle_register md5 env ua request remote tx =
     (case hdr_get (req_headers request) ''authorization'' of
        None \<Rightarrow> answered ua (send_challenge env ua tx ''Unauthorized'')
      | Some h \<Rightarrow>
          (case authorization_parse h of
             Inl _ \<Rightarrow> answered ua (send_challenge env ua tx ''Bad Authorization'')
           | Inr auth \<Rightarrow>
               (case ua_auth_db ua (da_username auth) of
                  None \<Rightarrow> answered ua (quick env tx 403 ''Forbidden'')
                | Some password \<Rightarrow>
                    if \<not> digest_verify md5 auth ''REGISTER'' password
                    then answered ua (send_challenge env ua tx ''Unauthorized'')
                    else
                      (let aor = da_username auth;
                           contact_uri = (case hdr_get (req_headers request) ''contact'' of
                                            Some c \<Rightarrow> extract_uri_from_contact c
                                          | None \<Rightarrow> ''sip:'' @ aor @ ''@'' @ socket_display remote);
                           expires = min (parse_register_expires request) (ua_max_expires ua);
                           ua1 = ua\<lparr>ua_registrar :=
                                      register_ext (ue_now env) (ua_registrar ua) aor contact_uri remote (expires * 1000)\<rparr>;
                           r = respond tx (register_ok env request expires) (ue_now env)
                       in \<lparr>ut_sent = fst r, ut_tx = snd r,
                           ut_events = (if expires = 0 \<and> ua_connected ua then [UasUnregister aor] else []),
                           ut_uas = ua1\<rparr>))))"

subsection \<open>INVITE and BYE\<close>

definition extract_user_from_addr :: "string \<Rightarrow> string option" where
  "extract_user_from_addr val =
     (let trimmed = trim val;
          uri_part =
            (case split_once CHR ''<'' trimmed of
               Some (_, rest) \<Rightarrow> (case split_once CHR ''>'' rest of Some (u, _) \<Rightarrow> u | None \<Rightarrow> rest)
             | None \<Rightarrow> (case split_once CHR '';'' trimmed of Some (u, _) \<Rightarrow> u | None \<Rightarrow> trimmed));
          after_scheme = (case split_once CHR '':'' uri_part of Some (_, r) \<Rightarrow> r | None \<Rightarrow> uri_part)
      in case split_once CHR ''@'' after_scheme of
           Some (user, _) \<Rightarrow> if user \<noteq> [] then Some user else None
         | None \<Rightarrow> None)"

definition handle_invite :: "uas_env \<Rightarrow> 'p uas \<Rightarrow> sip_request \<Rightarrow> socket_addr \<Rightarrow> server_tx \<Rightarrow> 'p uas_turn" where
  "handle_invite env ua request remote tx =
     (if (case hdr_get (req_headers request) ''to'' of Some t \<Rightarrow> has_to_tag t | None \<Rightarrow> False) then
        (let (out, tx1) = quick env tx 100 ''Trying''
         in if ua_connected ua then handed ua out tx1 (UasReinvite request remote tx1)
            else let (out2, tx2) = quick env tx1 481 ''Call/Transaction Does Not Exist'' in answered ua (out @ out2, tx2))
      else
        (case Option.bind (hdr_get (req_headers request) ''from'') extract_user_from_addr of
           None \<Rightarrow> answered ua (quick env tx 400 ''Bad Request'')
         | Some from_aor \<Rightarrow>
             if lookup_ext (ue_now env) (ua_registrar ua) from_aor = None then answered ua (quick env tx 403 ''Forbidden'')
             else
               (let (out, tx1) = quick env tx 100 ''Trying''
                in if ua_connected ua then handed ua out tx1 (UasInvite from_aor request remote tx1)
                   else let (out2, tx2) = quick env tx1 503 ''Service Unavailable'' in answered ua (out @ out2, tx2))))"

definition handle_bye :: "uas_env \<Rightarrow> 'p uas \<Rightarrow> sip_request \<Rightarrow> socket_addr \<Rightarrow> server_tx \<Rightarrow> 'p uas_turn" where
  "handle_bye env ua request remote tx =
     (if ua_connected ua then handed ua [] tx (UasBye request remote tx) else answered ua (quick env tx 200 ''OK''))"

subsection \<open>Every method\<close>

definition log_message :: "uas_env \<Rightarrow> 'p uas \<Rightarrow> sip_request \<Rightarrow> 'p uas" where
  "log_message env ua request =
     (case ua_message_log ua of
        None \<Rightarrow> ua
      | Some ml \<Rightarrow>
          (case sms_from_inbound_message (ue_wall env) request of
             Some sms \<Rightarrow> ua\<lparr>ua_message_log := Some (message_push ml sms)\<rparr>
           | None \<Rightarrow> ua))"

definition handle_method ::
  "(string \<Rightarrow> string) \<Rightarrow> uas_env \<Rightarrow> 'p uas \<Rightarrow> sip_request \<Rightarrow> socket_addr \<Rightarrow> server_tx \<Rightarrow> 'p uas_turn" where
  "handle_method md5 env ua request remote tx =
     (let allow = (\<lambda>ua' status reason. answered ua' (quick_with_allow env tx status reason SUPPORTED_METHODS_ALLOW))
      in case req_method request of
           Register \<Rightarrow> handle_register md5 env ua request remote tx
         | Invite \<Rightarrow> handle_invite env ua request remote tx
         | Bye \<Rightarrow> handle_bye env ua request remote tx
         | Cancel \<Rightarrow>
             (let (out, tx1) = quick env tx 200 ''OK''
              in if ua_connected ua then handed ua out tx1 (UasCancel request remote tx1) else answered ua (out, tx1))
         | Ack \<Rightarrow> if ua_connected ua then handed ua [] tx (UasAck request remote) else answered ua ([], tx)
         | Options \<Rightarrow> answered ua (quick env tx 200 ''OK'')
         | Info \<Rightarrow>
             if ua_connected ua then handed ua [] tx (UasInfo request remote tx)
             else answered ua (quick env tx 481 ''Call/Transaction Does Not Exist'')
         | Notify \<Rightarrow> allow ua 481 ''Subscription Does Not Exist''
         | Subscribe \<Rightarrow> allow ua 489 ''Bad Event''
         | Prack \<Rightarrow> allow ua 481 ''Call/Transaction Does Not Exist''
         | Publish \<Rightarrow> allow ua 200 ''OK''
         | Update \<Rightarrow> allow ua 481 ''Call/Transaction Does Not Exist''
         | Message \<Rightarrow> allow (log_message env ua request) 200 ''OK''
         | Refer \<Rightarrow>
             if ua_connected ua then handed ua [] tx (UasRefer request remote tx)
             else allow ua 405 ''Method Not Allowed''
         | Other _ \<Rightarrow> allow ua 405 ''Method Not Allowed'')"

text \<open>A request without a usable Via has no transaction and is dropped.\<close>

definition handle_request ::
  "(string \<Rightarrow> string) \<Rightarrow> uas_env \<Rightarrow> 'p uas \<Rightarrow> sip_request \<Rightarrow> socket_addr \<Rightarrow> 'p uas_turn option" where
  "handle_request md5 env ua request remote =
     (case server_new request remote of
        Inl _ \<Rightarrow> None
      | Inr tx \<Rightarrow> Some (handle_method md5 env ua request remote tx))"

text \<open>The task that cleans the table every 30 seconds; the order of its events is that of the hash
  map and left open.\<close>

definition uas_purge :: "nat \<Rightarrow> 'p uas \<Rightarrow> uas_event set \<times> 'p uas" where
  "uas_purge now ua =
     (let (removed, tb) = purge_expired_returning_removed now (ua_registrar ua)
      in (if ua_connected ua then UasUnregister ` removed else {}, ua\<lparr>ua_registrar := tb\<rparr>))"

section \<open>Single turns\<close>

lemma ensure_to_tag_simps [simp]:
  "resp_status (uas_ensure_to_tag r resp) = resp_status resp" "resp_body (uas_ensure_to_tag r resp) = resp_body resp"
  by (simp_all add: uas_ensure_to_tag_def split: option.splits)

lemma skeleton_status [simp]: "resp_status (build_response_skeleton r req status reason) = status"
  by (simp add: build_response_skeleton_def Let_def)

text \<open>All ways to answer go through \<^const>\<open>respond\<close>.\<close>

lemma answers_respond:
  "\<exists>r. quick env tx status reason = respond tx r (ue_now env) \<and> resp_status r = status"
  "\<exists>r. quick_with_allow env tx status reason allow = respond tx r (ue_now env) \<and> resp_status r = status"
  "\<exists>r. send_challenge env ua tx reason = respond tx r (ue_now env) \<and> resp_status r = 401"
  unfolding quick_def quick_with_allow_def send_challenge_def Let_def by (intro exI conjI, rule refl, simp)+

definition settled :: "server_tx \<Rightarrow> datagram list \<times> server_tx \<Rightarrow> bool" where
  "settled tx r \<longleftrightarrow> (\<exists>resp. st_last_response (snd r) = Some resp \<and> 200 \<le> resp_status resp \<and> st_state (snd r) = SrvCompleted
     \<and> fst r \<noteq> [] \<and> List.last (fst r) = (st_response_dest tx, response_to_bytes resp))"

definition to_source :: "server_tx \<Rightarrow> datagram list \<Rightarrow> bool" where
  "to_source tx out \<longleftrightarrow> list_all (\<lambda>d. fst d = st_response_dest tx) out"

definition unsettled :: "server_tx \<Rightarrow> bool" where
  "unsettled tx \<longleftrightarrow> st_state tx = SrvTrying \<or> st_state tx = SrvProceeding"

lemma respond_settles:
  assumes "unsettled tx" "200 \<le> resp_status r" "resp_status r \<le> 699"
  shows "settled tx (respond tx r now)"
  using assms by (auto simp: settled_def unsettled_def respond_def start_completed_timers_def Let_def)

lemma respond_trying:
  assumes "unsettled tx" "resp_status r = 100"
  shows "unsettled (snd (respond tx r now))"
  using assms by (auto simp: unsettled_def respond_def Let_def)

lemma respond_frame:
  "to_source tx (fst (respond tx r now))" "st_response_dest (snd (respond tx r now)) = st_response_dest tx"
  "st_request (snd (respond tx r now)) = st_request tx"
  by (auto simp: to_source_def respond_def start_completed_timers_def Let_def)

lemma quick_settles:
  "unsettled tx \<Longrightarrow> 200 \<le> status \<Longrightarrow> status \<le> 699 \<Longrightarrow> settled tx (quick env tx status reason)"
  "unsettled tx \<Longrightarrow> 200 \<le> status \<Longrightarrow> status \<le> 699 \<Longrightarrow> settled tx (quick_with_allow env tx status reason allow)"
  "unsettled tx \<Longrightarrow> settled tx (send_challenge env ua tx reason)"
  "unsettled tx \<Longrightarrow> unsettled (snd (quick env tx 100 reason))"
  using answers_respond(1) [of env tx status reason] answers_respond(2) [of env tx status reason allow]
    answers_respond(3) [of env ua tx reason] answers_respond(1) [of env tx 100 reason]
  by (auto simp: respond_settles respond_trying)

lemma quick_frame:
  "to_source tx (fst (quick env tx status reason))" "to_source tx (fst (quick_with_allow env tx status reason allow))"
  "to_source tx (fst (send_challenge env ua tx reason))"
  "st_response_dest (snd (quick env tx status reason)) = st_response_dest tx"
  using answers_respond(1) [of env tx status reason] answers_respond(2) [of env tx status reason allow]
    answers_respond(3) [of env ua tx reason] respond_frame
  by metis+

lemma server_new_unsettled: "server_new request remote = Inr tx \<Longrightarrow> unsettled tx \<and> st_request tx = request"
  by (auto simp: server_new_def unsettled_def)

fun event_tx :: "uas_event \<Rightarrow> server_tx option" where
  "event_tx (UasInvite _ _ _ tx) = Some tx"
| "event_tx (UasReinvite _ _ tx) = Some tx"
| "event_tx (UasBye _ _ tx) = Some tx"
| "event_tx (UasCancel _ _ tx) = Some tx"
| "event_tx (UasInfo _ _ tx) = Some tx"
| "event_tx (UasRefer _ _ tx) = Some tx"
| "event_tx (UasAck _ _) = None"
| "event_tx (UasUnregister _) = None"

text \<open>What a turn achieves for a request that is not an ACK: a final response to the source, or an event
  with the open transaction.\<close>

definition turn_done :: "'p uas \<Rightarrow> server_tx \<Rightarrow> 'p uas_turn \<Rightarrow> bool" where
  "turn_done ua tx t \<longleftrightarrow>
     to_source tx (ut_sent t) \<and> (ut_events t \<noteq> [] \<longrightarrow> ua_connected ua)
     \<and> (settled tx (ut_sent t, ut_tx t)
        \<or> (\<exists>ev. ut_events t = [ev] \<and> event_tx ev = Some (ut_tx t) \<and> unsettled (ut_tx t)))"

lemma answered_done: "settled tx r \<Longrightarrow> to_source tx (fst r) \<Longrightarrow> turn_done ua tx (answered ua' r)"
  by (simp add: turn_done_def answered_def)

lemma handed_done:
  "to_source tx out \<Longrightarrow> ua_connected ua \<Longrightarrow> event_tx ev = Some tx1 \<Longrightarrow> unsettled tx1 \<Longrightarrow> turn_done ua tx (handed ua out tx1 ev)"
  by (simp add: turn_done_def handed_def)

lemma settled_append: "settled tx1 r \<Longrightarrow> st_response_dest tx1 = st_response_dest tx \<Longrightarrow> settled tx (out @ fst r, snd r)"
  by (auto simp: settled_def)

lemma to_source_append: "to_source tx (xs @ ys) \<longleftrightarrow> to_source tx xs \<and> to_source tx ys"
  by (auto simp: to_source_def)

lemma to_source_cong: "to_source tx1 xs \<Longrightarrow> st_response_dest tx1 = st_response_dest tx \<Longrightarrow> to_source tx xs"
  by (auto simp: to_source_def)

lemma trying_then:
  assumes "unsettled tx" "200 \<le> status" "status \<le> 699" "\<And>x. event_tx (ev x) = Some x"
  shows "turn_done ua tx (let (out, tx1) = quick env tx 100 ''Trying''
    in if ua_connected ua then handed ua out tx1 (ev tx1)
       else let (out2, tx2) = quick env tx1 status reason in answered ua (out @ out2, tx2))"
proof -
  obtain out tx1 where q: "quick env tx 100 ''Trying'' = (out, tx1)" by fastforce
  obtain out2 tx2 where q2: "quick env tx1 status reason = (out2, tx2)" by fastforce
  have u: "unsettled tx1" "to_source tx out" "st_response_dest tx1 = st_response_dest tx"
    using quick_settles(4) [OF assms(1), of env "''Trying''"] quick_frame(1) [of tx env 100 "''Trying''"] quick_frame(4) [of env tx 100 "''Trying''"] q by simp_all
  have "settled tx1 (out2, tx2)" "to_source tx1 out2"
    using quick_settles(1) [OF u(1) assms(2,3), of env reason] quick_frame(1) [of tx1 env status reason] q2 by simp_all
  then have "turn_done ua tx (answered ua (out @ out2, tx2))"
    using settled_append [of tx1 "(out2, tx2)" tx out] to_source_cong u by (intro answered_done) (simp_all add: to_source_append)
  moreover have "ua_connected ua \<Longrightarrow> turn_done ua tx (handed ua out tx1 (ev tx1))"
    using handed_done u(1,2) assms(4) by blast
  ultimately show ?thesis using q q2 by simp
qed

lemma register_done:
  assumes "unsettled tx" "req_method request = Register"
  shows "turn_done ua tx (handle_register md5 env ua request remote tx)"
proof -
  have "settled tx (respond tx (register_ok env request n) now)" for n now
    using assms(1) by (intro respond_settles) (simp_all add: register_ok_def Let_def split: option.splits)
  then show ?thesis
    using quick_settles [OF assms(1)] quick_frame respond_frame(1)
    by (auto simp: handle_register_def Let_def intro!: answered_done split: option.splits sum.splits)
      (auto simp: turn_done_def)
qed

lemma handle_method_done:
  assumes "unsettled tx" "req_method request \<noteq> Ack"
  shows "turn_done ua tx (handle_method md5 env ua request remote tx)"
proof -
  have [simp]: "to_source tx []" by (simp add: to_source_def)
  have cancel: "turn_done ua tx (let (out, tx1) = quick env tx 200 ''OK''
      in if ua_connected ua then handed ua out tx1 (UasCancel request remote tx1) else answered ua (out, tx1))"
    using quick_settles(1) [OF assms(1), of 200 env "''OK''"] quick_frame(1) [of tx env 200 "''OK''"]
    by (cases "quick env tx 200 ''OK''") (auto simp: turn_done_def handed_def answered_def)
  have invite: "turn_done ua tx (handle_invite env ua request remote tx)"
    using quick_settles(1) [OF assms(1)] quick_frame(1)
      trying_then [OF assms(1), of 481 "\<lambda>x. UasReinvite request remote x" ua env "''Call/Transaction Does Not Exist''"]
      trying_then [OF assms(1), of 503 "\<lambda>x. UasInvite a request remote x" ua env "''Service Unavailable''" for a]
    by (auto simp: handle_invite_def intro!: answered_done split: option.splits)
  show ?thesis
    using assms register_done [OF assms(1)] invite cancel quick_settles(1,2) [OF assms(1)] quick_frame(1,2)
    by (cases "req_method request")
      (auto simp: handle_method_def handle_bye_def Let_def intro!: answered_done handed_done)
qed

section \<open>Who is registered\<close>

text \<open>The check of a REGISTER, and the binding it makes.\<close>

definition authenticated :: "(string \<Rightarrow> string) \<Rightarrow> (string \<rightharpoonup> string) \<Rightarrow> sip_request \<Rightarrow> string \<Rightarrow> bool" where
  "authenticated md5 db request aor \<longleftrightarrow>
     req_method request = Register
     \<and> (\<exists>h a pw. hdr_get (req_headers request) ''authorization'' = Some h \<and> authorization_parse h = Inr a
          \<and> da_username a = aor \<and> db aor = Some pw \<and> digest_verify md5 a ''REGISTER'' pw)"

definition register_contact :: "sip_request \<Rightarrow> string \<Rightarrow> socket_addr \<Rightarrow> string" where
  "register_contact request aor remote =
     (case hdr_get (req_headers request) ''contact'' of
        Some c \<Rightarrow> extract_uri_from_contact c
      | None \<Rightarrow> ''sip:'' @ aor @ ''@'' @ socket_display remote)"

definition lifetime :: "'p uas \<Rightarrow> sip_request \<Rightarrow> nat" where
  "lifetime ua request = 1000 * min (parse_register_expires request) (ua_max_expires ua)"

definition same_accounts :: "'p uas \<Rightarrow> 'p uas \<Rightarrow> bool" where
  "same_accounts ua ua' \<longleftrightarrow> ua_auth_db ua' = ua_auth_db ua \<and> ua_max_expires ua' = ua_max_expires ua
     \<and> ua_realm ua' = ua_realm ua \<and> ua_connected ua' = ua_connected ua"

lemma same_accounts_refl [simp]: "same_accounts ua ua"
  by (simp add: same_accounts_def)

lemma log_message_frame [simp]:
  "same_accounts ua (log_message env ua request)" "ua_registrar (log_message env ua request) = ua_registrar ua"
  by (auto simp: log_message_def same_accounts_def split: option.splits)

lemma turn_simps [simp]:
  "ut_uas (answered ua r) = ua" "ut_events (answered ua r) = []" "ut_uas (handed ua out tx ev) = ua" "ut_events (handed ua out tx ev) = [ev]"
  by (simp_all add: answered_def handed_def)

lemma invite_frame:
  "ut_uas (handle_invite env ua request remote tx) = ua"
  "UasInvite aor r rm x \<in> set (ut_events (handle_invite env ua request remote tx)) \<Longrightarrow>
     r = request \<and> rm = remote \<and> lookup_ext (ue_now env) (ua_registrar ua) aor \<noteq> None"
  by (auto simp: handle_invite_def split: option.splits if_splits prod.splits)

definition registers_as ::
  "(string \<Rightarrow> string) \<Rightarrow> uas_env \<Rightarrow> 'p uas \<Rightarrow> sip_request \<Rightarrow> socket_addr \<Rightarrow> 'p uas \<Rightarrow> bool" where
  "registers_as md5 env ua request remote ua' \<longleftrightarrow>
     same_accounts ua ua'
     \<and> (ua_registrar ua' = ua_registrar ua
        \<or> (\<exists>aor. authenticated md5 (ua_auth_db ua) request aor
             \<and> ua_registrar ua' =
                 register_ext (ue_now env) (ua_registrar ua) aor (register_contact request aor remote) remote (lifetime ua request)))"

lemma registers_as_refl [simp]: "registers_as md5 env ua request remote ua"
  by (simp add: registers_as_def)

lemma register_frame:
  "req_method request = Register \<Longrightarrow> registers_as md5 env ua request remote (ut_uas (handle_register md5 env ua request remote tx))"
  by (auto simp: registers_as_def handle_register_def same_accounts_def authenticated_def register_contact_def lifetime_def
      Let_def mult.commute split: option.splits sum.splits)

lemma register_no_invite: "UasInvite aor r rm x \<notin> set (ut_events (handle_register md5 env ua request remote tx))"
  by (auto simp: handle_register_def Let_def split: option.splits sum.splits)

lemma method_frame:
  "registers_as md5 env ua request remote (ut_uas (handle_method md5 env ua request remote tx))"
  using register_frame [of request md5 env ua remote tx]
  by (cases "req_method request")
    (auto simp: handle_method_def handle_bye_def invite_frame registers_as_def split: prod.splits)

lemma method_invite:
  "UasInvite aor r rm x \<in> set (ut_events (handle_method md5 env ua request remote tx)) \<Longrightarrow>
     r = request \<and> rm = remote \<and> lookup_ext (ue_now env) (ua_registrar ua) aor \<noteq> None"
  using register_no_invite [of aor r rm x md5 env ua request remote tx] invite_frame(2) [of aor r rm x env ua request remote tx]
  by (cases "req_method request") (auto simp: handle_method_def handle_bye_def split: prod.splits if_splits)

section \<open>Runs\<close>

datatype uas_input = Recv uas_env sip_request socket_addr | Tick nat

text \<open>The server and the events its requests gave, in order.\<close>

fun uas_step :: "(string \<Rightarrow> string) \<Rightarrow> 'p uas \<times> uas_event list \<Rightarrow> uas_input \<Rightarrow> 'p uas \<times> uas_event list" where
  "uas_step md5 (ua, evs) (Recv env request remote) =
     (case handle_request md5 env ua request remote of
        None \<Rightarrow> (ua, evs)
      | Some t \<Rightarrow> (ut_uas t, evs @ ut_events t))"
| "uas_step md5 (ua, evs) (Tick now) = (snd (uas_purge now ua), evs)"

definition registered_by ::
  "(string \<Rightarrow> string) \<Rightarrow> 'p uas \<Rightarrow> uas_input list \<Rightarrow> string \<Rightarrow> 'p binding \<Rightarrow> bool" where
  "registered_by md5 ua0 ins aor b \<longleftrightarrow>
     (\<exists>env request remote. Recv env request remote \<in> set ins \<and> authenticated md5 (ua_auth_db ua0) request aor
        \<and> b = \<lparr>bd_contact_uri = register_contact request aor remote, bd_remote = remote,
               bd_expires_at = ue_now env + lifetime ua0 request, bd_transport = Sip\<rparr>)"

definition call_backed :: "(string \<Rightarrow> string) \<Rightarrow> 'p uas \<Rightarrow> uas_input list \<Rightarrow> uas_event \<Rightarrow> bool" where
  "call_backed md5 ua0 ins ev \<longleftrightarrow>
     (\<forall>aor request remote tx. ev = UasInvite aor request remote tx \<longrightarrow>
        (\<exists>pre env post b. ins = pre @ Recv env request remote # post
           \<and> registered_by md5 ua0 pre aor (b :: 'p binding) \<and> ue_now env < bd_expires_at b))"

definition uas_inv ::
  "(string \<Rightarrow> string) \<Rightarrow> 'p uas \<Rightarrow> uas_input list \<Rightarrow> 'p uas \<times> uas_event list \<Rightarrow> bool" where
  "uas_inv md5 ua0 ins s \<longleftrightarrow>
     same_accounts ua0 (fst s)
     \<and> (\<forall>aor b. ua_registrar (fst s) aor = Some b \<longrightarrow> registered_by md5 ua0 ins aor b)
     \<and> (\<forall>ev \<in> set (snd s). call_backed md5 ua0 ins ev)"

lemma registered_by_snoc: "registered_by md5 ua0 ins aor b \<Longrightarrow> registered_by md5 ua0 (ins @ [i]) aor b"
  by (auto simp: registered_by_def)

lemma call_backed_snoc: "call_backed md5 ua0 ins ev \<Longrightarrow> call_backed md5 ua0 (ins @ [i]) ev"
  by (fastforce simp: call_backed_def)

lemma uas_inv_same: "uas_inv md5 ua0 ins s \<Longrightarrow> uas_inv md5 ua0 (ins @ [i]) s"
  by (auto simp: uas_inv_def registered_by_snoc call_backed_snoc)

lemma uas_inv_recv:
  assumes "uas_inv md5 ua0 ins (ua, evs)"
  shows "uas_inv md5 ua0 (ins @ [Recv env request remote]) (uas_step md5 (ua, evs) (Recv env request remote))"
proof (cases "server_new request remote")
  case (Inl e)
  then show ?thesis using uas_inv_same [OF assms] by (simp add: handle_request_def)
next
  case (Inr tx)
  let ?t = "handle_method md5 env ua request remote tx" and ?ins = "ins @ [Recv env request remote]"
  have acc: "same_accounts ua0 ua" "same_accounts ua (ut_uas ?t)" and r: "registers_as md5 env ua request remote (ut_uas ?t)"
    using assms method_frame [of md5 env ua request remote tx] by (auto simp: uas_inv_def registers_as_def)
  have reg: "registered_by md5 ua0 ins k b" if "ua_registrar ua k = Some b" for k b
    using that assms by (simp add: uas_inv_def)
  have "registered_by md5 ua0 ?ins k b" if k: "ua_registrar (ut_uas ?t) k = Some b" for k b
  proof (cases "ua_registrar ua k = Some b")
    case False
    then obtain aor where "authenticated md5 (ua_auth_db ua) request aor"
        "ua_registrar (ut_uas ?t) =
           register_ext (ue_now env) (ua_registrar ua) aor (register_contact request aor remote) remote (lifetime ua request)"
      using r k by (auto simp: registers_as_def)
    moreover from this False k have "aor = k"
      by (auto simp: register_ext_def register_with_transport_def unregister_def split: if_splits)
    ultimately show ?thesis
      using k acc(1) False
      by (auto simp: registered_by_def register_ext_def register_with_transport_def unregister_def same_accounts_def lifetime_def
          split: if_splits)
  qed (simp add: reg registered_by_snoc)
  moreover have "call_backed md5 ua0 ?ins ev" if "ev \<in> set (ut_events ?t)" for ev
  proof -
    have "\<exists>b. registered_by md5 ua0 ins aor b \<and> ue_now env < bd_expires_at (b :: 'a binding)"
      if "UasInvite aor r rm x \<in> set (ut_events ?t)" for aor r rm x
      using method_invite [OF that] reg [of aor]
      by (auto simp: lookup_ext_def is_expired_def split: option.splits if_splits)
    then show ?thesis
      using that method_invite [of _ _ _ _ md5 env ua request remote tx]
      by (fastforce simp: call_backed_def)
  qed
  ultimately show ?thesis
    using assms acc Inr by (auto simp: uas_inv_def handle_request_def same_accounts_def call_backed_snoc)
qed

lemma uas_inv_run:
  assumes "ua_registrar ua0 = registrar_new"
  shows "uas_inv md5 ua0 ins (run_steps (uas_step md5) (ua0, []) ins)"
proof (induction ins rule: rev_induct)
  case Nil
  show ?case using assms by (simp add: uas_inv_def registrar_new_def)
next
  case (snoc i ins)
  obtain ua evs where s: "run_steps (uas_step md5) (ua0, []) ins = (ua, evs)" by fastforce
  show ?case
  proof (cases i)
    case (Recv env request remote)
    then show ?thesis using uas_inv_recv [of md5 ua0 ins ua evs env request remote] snoc s by (simp add: run_steps_append)
  next
    case (Tick now)
    then show ?thesis
      using uas_inv_same [OF snoc, of i] s
      by (auto simp: run_steps_append uas_inv_def uas_purge_def purge_expired_returning_removed_def same_accounts_def
          split: option.splits if_splits)
  qed
qed

section \<open>The exchange of a registration\<close>

lemma response_accepted:
  assumes "hex_digest md5" "good_challenge ch" "cr_username cr \<noteq> []" "quotable (cr_username cr)" "quotable uri"
  shows "\<exists>a. authorization_parse (dr_header_value (compute md5 rnd cr ch meth uri nc)) = Inr a
    \<and> da_username a = cr_username cr \<and> digest_verify md5 a meth (cr_password cr)"
  using response_read [OF assms, of rnd meth nc]
  by (simp add: digest_verify_def constant_time_eq_iff expected_response_def unwrap_or_empty_str_def Let_def)

lemma nonce_quotable: "quotable (new_call_id r)" "new_call_id r \<noteq> []"
  using plain_no [OF hex_fixed_plain [of 16 "unat r"]] by (simp_all add: quotable_def new_call_id_def)

lemma register_accepted:
  assumes "req_method request = Register" "server_new request remote = Inr tx"
    and "hdr_get (req_headers request) ''authorization'' = Some h" "authorization_parse h = Inr a"
    and "ua_auth_db ua (da_username a) = Some pw" "digest_verify md5 a ''REGISTER'' pw"
  shows "handle_request md5 env ua request remote = Some
    \<lparr>ut_sent = fst (respond tx (register_ok env request (lifetime ua request div 1000)) (ue_now env)),
     ut_tx = snd (respond tx (register_ok env request (lifetime ua request div 1000)) (ue_now env)),
     ut_events = (if lifetime ua request = 0 \<and> ua_connected ua then [UasUnregister (da_username a)] else []),
     ut_uas = ua\<lparr>ua_registrar := register_ext (ue_now env) (ua_registrar ua) (da_username a)
       (register_contact request (da_username a) remote) remote (lifetime ua request)\<rparr>\<rparr>"
  using assms
  by (simp add: handle_request_def handle_method_def handle_register_def register_contact_def lifetime_def Let_def mult.commute)

lemma normalize_uas [hdr_simps]:
  "normalize_header_name ''WWW-Authenticate'' = ''www-authenticate''" "normalize_header_name ''www-authenticate'' = ''www-authenticate''"
  "normalize_header_name ''Authorization'' = ''authorization''" "normalize_header_name ''authorization'' = ''authorization''"
  "normalize_header_name ''Expires'' = ''expires''" "normalize_header_name ''expires'' = ''expires''"
  by (simp_all add: normalize_header_name_def compact_forms_def lower_def trim_def trim_start_id trim_end_id ws_eval char_eval)

lemma respond_last:
  "\<exists>resp. st_last_response (snd (respond tx r now)) = Some resp \<and> resp_status resp = resp_status r
    \<and> (\<forall>k. normalize_header_name k \<noteq> ''via'' \<longrightarrow> hdr_get (resp_headers resp) k = hdr_get (resp_headers r) k)"
  by (auto simp: respond_def start_completed_timers_def Let_def hdr_simps)

section \<open>Properties\<close>

text \<open>C15. An extension that knows its password gets registered with two requests: the first REGISTER is
  answered with 401 and changes nothing, the client side can read the challenge, and a second one
  that carries the digest of that challenge is answered with 200 and the granted time, and
  the binding to its contact lasts exactly that long.\<close>

theorem register_handshake:
  assumes "hex_digest md5" "ua_auth_db ua (cr_username cr) = Some (cr_password cr)"
    and "cr_username cr \<noteq> []" "quotable (cr_username cr)" "ua_realm ua \<noteq> []" "quotable (ua_realm ua)" "quotable uri"
    and "req_method request1 = Register" "hdr_get (req_headers request1) ''authorization'' = None"
    and "server_new request1 remote1 = Inr tx1"
    and "req_method request2 = Register" "server_new request2 remote2 = Inr tx2"
  shows "\<exists>t1 resp1 w ch. handle_request md5 env1 ua request1 remote1 = Some t1 \<and> ut_uas t1 = ua \<and> ut_events t1 = []
    \<and> st_last_response (ut_tx t1) = Some resp1 \<and> resp_status resp1 = 401
    \<and> hdr_get (resp_headers resp1) ''www-authenticate'' = Some w \<and> challenge_parse w = Inr ch
    \<and> (hdr_get (req_headers request2) ''authorization'' = Some (dr_header_value (compute md5 rnd cr ch ''REGISTER'' uri nc)) \<longrightarrow>
        (\<exists>t2 resp2. handle_request md5 env2 ua request2 remote2 = Some t2
          \<and> st_last_response (ut_tx t2) = Some resp2 \<and> resp_status resp2 = 200
          \<and> hdr_get (resp_headers resp2) ''expires'' = Some (dec (min (parse_register_expires request2) (ua_max_expires ua)))
          \<and> (\<forall>now. lookup_ext now (ua_registrar (ut_uas t2)) (cr_username cr) =
               (if lifetime ua request2 \<noteq> 0 \<and> now < ue_now env2 + lifetime ua request2
                then Some \<lparr>bd_contact_uri = register_contact request2 (cr_username cr) remote2, bd_remote = remote2,
                           bd_expires_at = ue_now env2 + lifetime ua request2, bd_transport = Sip\<rparr>
                else None))
          \<and> (\<forall>aor. aor \<noteq> cr_username cr \<longrightarrow> ua_registrar (ut_uas t2) aor = ua_registrar ua aor)))"
proof -
  let ?ch = "\<lparr>dc_realm = ua_realm ua, dc_nonce = new_call_id (ue_nonce env1), dc_algorithm = ''MD5'', dc_qop = Some ''auth'', dc_opaque = None\<rparr>"
  let ?w = "build_www_authenticate (ua_realm ua) (new_call_id (ue_nonce env1)) False None"
  have ch: "challenge_parse ?w = Inr ?ch" using challenge_read [of "ua_realm ua" _ None] assms(6) nonce_quotable by simp
  have "good_challenge ?ch" using assms(5,6) nonce_quotable plain_words by (simp add: good_challenge_def)
  from response_accepted [OF assms(1) this assms(3,4,7), of rnd "''REGISTER''" nc] obtain a where
    a: "authorization_parse (dr_header_value (compute md5 rnd cr ?ch ''REGISTER'' uri nc)) = Inr a"
      "da_username a = cr_username cr" "digest_verify md5 a ''REGISTER'' (cr_password cr)" by blast
  let ?t1 = "answered ua (send_challenge env1 ua tx1 ''Unauthorized'')"
  have t1: "handle_request md5 env1 ua request1 remote1 = Some ?t1"
    using assms(8-10) by (simp add: handle_request_def handle_method_def handle_register_def)
  obtain resp1 where "st_last_response (ut_tx ?t1) = Some resp1" "resp_status resp1 = 401"
      "hdr_get (resp_headers resp1) ''www-authenticate'' = Some ?w"
    using respond_last [of tx1 "let resp = uas_ensure_to_tag (ue_tag env1) (build_response_skeleton (ue_to env1) (st_request tx1) 401 ''Unauthorized'')
        in resp\<lparr>resp_headers := hdr_set ''WWW-Authenticate'' ?w (resp_headers resp)\<rparr>" "ue_now env1"]
    by (auto simp: answered_def send_challenge_def Let_def hdr_simps)
  moreover have "\<exists>t2 resp2. handle_request md5 env2 ua request2 remote2 = Some t2
      \<and> st_last_response (ut_tx t2) = Some resp2 \<and> resp_status resp2 = 200
      \<and> hdr_get (resp_headers resp2) ''expires'' = Some (dec (min (parse_register_expires request2) (ua_max_expires ua)))
      \<and> (\<forall>now. lookup_ext now (ua_registrar (ut_uas t2)) (cr_username cr) =
           (if lifetime ua request2 \<noteq> 0 \<and> now < ue_now env2 + lifetime ua request2
            then Some \<lparr>bd_contact_uri = register_contact request2 (cr_username cr) remote2, bd_remote = remote2,
                       bd_expires_at = ue_now env2 + lifetime ua request2, bd_transport = Sip\<rparr>
            else None))
      \<and> (\<forall>aor. aor \<noteq> cr_username cr \<longrightarrow> ua_registrar (ut_uas t2) aor = ua_registrar ua aor)"
    if h: "hdr_get (req_headers request2) ''authorization'' = Some (dr_header_value (compute md5 rnd cr ?ch ''REGISTER'' uri nc))"
    using register_accepted [OF assms(11,12) h a(1) _ a(3), of ua env2] a(2) assms(2)
      respond_last [of tx2 "register_ok env2 request2 (lifetime ua request2 div 1000)" "ue_now env2"]
    by (auto simp: register_ext_def register_with_transport_def unregister_def lookup_ext_def is_expired_def
        register_ok_def Let_def hdr_simps lifetime_def)
  ultimately show ?thesis using t1 ch by fastforce
qed

definition env_ex :: "nat \<Rightarrow> uas_env" where
  "env_ex now = \<lparr>ue_now = now, ue_wall = 0, ue_to = 1, ue_tag = 2, ue_nonce = 3\<rparr>"

definition alice_ex :: digest_credentials where
  "alice_ex = \<lparr>cr_username = ''alice'', cr_password = ''pw''\<rparr>"

definition uas_ex :: "unit uas" where
  "uas_ex = with_handler (uas_bind ''sabiden'' 60 [(''alice'', ''pw'')])"

definition challenge_ex :: digest_challenge where
  "challenge_ex = \<lparr>dc_realm = ''sabiden'', dc_nonce = new_call_id 3, dc_algorithm = ''MD5'', dc_qop = Some ''auth'', dc_opaque = None\<rparr>"

definition register_auth_ex :: sip_request where
  "register_auth_ex = register_ex\<lparr>req_headers := hdr_set ''Authorization''
     (dr_header_value (compute md5_ex 5 alice_ex challenge_ex ''REGISTER'' ''sip:r'' 1)) (req_headers register_ex)\<rparr>"

definition invite_ex :: sip_request where
  "invite_ex = register_ex\<lparr>req_method := Invite, req_headers := hdr_set ''From'' ''<sip:alice@x>'' (req_headers register_ex)\<rparr>"

lemma server_new_ex:
  "server_new register_ex remote_ex \<noteq> Inl e" "server_new register_auth_ex remote_ex \<noteq> Inl e" "server_new invite_ex remote_ex \<noteq> Inl e"
proof -
  have "parse_via via_ex = Inr (''z9hG4bK1'', ''192.0.2.1:5060'')" by (rule parse_via_ex)
  then show "server_new register_ex remote_ex \<noteq> Inl e" "server_new register_auth_ex remote_ex \<noteq> Inl e"
      "server_new invite_ex remote_ex \<noteq> Inl e"
    by (simp_all add: server_new_def id_from_request_def register_auth_ex_def invite_ex_def register_ex_def hdr_simps hdr_get_def
        hdr_set_def)
qed

lemma ex_facts:
  "hdr_get (req_headers register_ex) ''authorization'' = None"
  "hdr_get (req_headers register_auth_ex) ''authorization'' =
     Some (dr_header_value (compute md5_ex 5 alice_ex challenge_ex ''REGISTER'' ''sip:r'' 1))"
  "req_method register_ex = Register" "req_method register_auth_ex = Register" "req_method invite_ex = Invite"
  "hdr_get (req_headers invite_ex) ''from'' = Some ''<sip:alice@x>''" "hdr_get (req_headers invite_ex) ''to'' = Some ''<sip:a>''"
  "hdr_get (req_headers register_auth_ex) ''contact'' = None" "hdr_get (req_headers register_auth_ex) ''expires'' = None"
  by (simp_all add: register_auth_ex_def invite_ex_def hdr_simps) (simp_all add: register_ex_def hdr_get_def hdr_simps)

lemma uas_ex_facts:
  "ua_auth_db uas_ex ''alice'' = Some ''pw''" "ua_realm uas_ex = ''sabiden''" "ua_connected uas_ex" "ua_max_expires uas_ex = 60"
  "ua_registrar uas_ex = registrar_new"
  by (simp_all add: uas_ex_def with_handler_def uas_bind_def)

lemma lifetime_ex: "lifetime uas_ex register_auth_ex = 60000"
  by (simp add: lifetime_def parse_register_expires_def ex_facts uas_ex_facts)

theorem register_handshake_witness:
  "\<exists>t2. handle_request md5_ex (env_ex 7) uas_ex register_auth_ex remote_ex = Some t2
     \<and> lookup_ext 1000 (ua_registrar (ut_uas t2)) ''alice'' \<noteq> None \<and> lookup_ext 60007 (ua_registrar (ut_uas t2)) ''alice'' = None"
proof -
  obtain tx1 where tx1: "server_new register_ex remote_ex = Inr tx1" using server_new_ex(1) by (metis sum.exhaust)
  obtain tx2 where tx2: "server_new register_auth_ex remote_ex = Inr tx2" using server_new_ex(2) by (metis sum.exhaust)
  have ch: "challenge_parse (build_www_authenticate ''sabiden'' (new_call_id 3) False None) = Inr challenge_ex"
    using challenge_read [of "''sabiden''" "new_call_id 3" None False] nonce_quotable by (simp add: quotable_def challenge_ex_def)
  have w: "hdr_get (resp_headers resp) ''www-authenticate'' = Some w \<Longrightarrow>
      w = build_www_authenticate ''sabiden'' (new_call_id 3) False None"
    if "handle_request md5_ex (env_ex 0) uas_ex register_ex remote_ex = Some t" "st_last_response (ut_tx t) = Some resp" for t resp w
    using that tx1 ex_facts respond_last [of tx1 "let resp = uas_ensure_to_tag 2 (build_response_skeleton 1 (st_request tx1) 401 ''Unauthorized'')
        in resp\<lparr>resp_headers := hdr_set ''WWW-Authenticate'' (build_www_authenticate ''sabiden'' (new_call_id 3) False None) (resp_headers resp)\<rparr>" 0]
    by (auto simp: handle_request_def handle_method_def handle_register_def answered_def send_challenge_def Let_def hdr_simps
        env_ex_def uas_ex_facts)
  have c: "cr_username alice_ex = ''alice''" "cr_password alice_ex = ''pw''" "quotable ''alice''" "quotable ''sabiden''" "quotable ''sip:r''"
    by (simp_all add: alice_ex_def quotable_def)
  obtain t1 resp1 w1 ch where o: "handle_request md5_ex (env_ex 0) uas_ex register_ex remote_ex = Some t1"
      "st_last_response (ut_tx t1) = Some resp1" "hdr_get (resp_headers resp1) ''www-authenticate'' = Some w1" "challenge_parse w1 = Inr ch"
      "hdr_get (req_headers register_auth_ex) ''authorization'' = Some (dr_header_value (compute md5_ex 5 alice_ex ch ''REGISTER'' ''sip:r'' 1))
       \<Longrightarrow> \<exists>t2. handle_request md5_ex (env_ex 7) uas_ex register_auth_ex remote_ex = Some t2
           \<and> (\<forall>now. lookup_ext now (ua_registrar (ut_uas t2)) ''alice'' = None \<longleftrightarrow> \<not> now < 7 + 60000)"
    using register_handshake [of md5_ex uas_ex alice_ex "''sip:r''" register_ex remote_ex tx1 register_auth_ex remote_ex tx2
        "env_ex 0" 5 1 "env_ex 7"] hex_digest_ex uas_ex_facts(1,2) c ex_facts(1,3,4) tx1 tx2
    unfolding lifetime_ex c by (auto simp: env_ex_def)
  have "ch = challenge_ex" using w [OF o(1,2,3)] o(4) ch by simp
  from o(5) [unfolded this, OF ex_facts(2)] obtain t2 where
    t2: "handle_request md5_ex (env_ex 7) uas_ex register_auth_ex remote_ex = Some t2"
      "\<And>now. lookup_ext now (ua_registrar (ut_uas t2)) ''alice'' = None \<longleftrightarrow> \<not> now < 7 + 60000" by blast
  show ?thesis using t2(1) t2(2) [of 1000] t2(2) [of 60007] by simp
qed


lemma run_ex:
  obtains ua tx where "run_steps (uas_step md5_ex) (uas_ex, []) [Recv (env_ex 7) register_auth_ex remote_ex, Recv (env_ex 9) invite_ex remote_ex]
    = (ua, [UasInvite ''alice'' invite_ex remote_ex tx])"
proof -
  obtain tx2 where tx2: "server_new register_auth_ex remote_ex = Inr tx2" using server_new_ex(2) by (metis sum.exhaust)
  obtain tx3 where tx3: "server_new invite_ex remote_ex = Inr tx3" using server_new_ex(3) by (metis sum.exhaust)
  have "good_challenge challenge_ex" using nonce_quotable plain_words by (simp add: challenge_ex_def good_challenge_def quotable_def)
  from response_accepted [OF hex_digest_ex this, of alice_ex "''sip:r''" 5 "''REGISTER''" 1] obtain a where
    a: "authorization_parse (dr_header_value (compute md5_ex 5 alice_ex challenge_ex ''REGISTER'' ''sip:r'' 1)) = Inr a"
      "da_username a = ''alice''" "digest_verify md5_ex a ''REGISTER'' ''pw''"
    by (auto simp: alice_ex_def quotable_def)
  note r = register_accepted [OF ex_facts(4) tx2 ex_facts(2) a(1) _ a(3), of uas_ex "env_ex 7", unfolded a(2) lifetime_ex]
  have u: "extract_user_from_addr ''<sip:alice@x>'' = Some ''alice''" "\<not> has_to_tag ''<sip:a>''"
    by (simp_all add: extract_user_from_addr_def Let_def trim_def trim_start_id trim_end_id ws_eval has_to_tag_def)
      (simp add: param_is_nonempty_tag_def)?
  obtain out tx1 where q: "quick (env_ex 9) tx3 100 ''Trying'' = (out, tx1)" by fastforce
  have n: "ue_now (env_ex k) = k" for k by (simp add: env_ex_def)
  show ?thesis
    using r tx3 u ex_facts uas_ex_facts
    by (intro that) (simp add: handle_request_def handle_method_def handle_invite_def register_ext_def register_with_transport_def
        lookup_ext_def is_expired_def n q)
qed


text \<open>C16. No request is forgotten: a request with a usable Via that is not an ACK is answered with a final
  response to where it came from, or, when call control is connected, handed to it in one event with its open transaction;
  an ACK is never answered, and nothing is handed on when call control is not connected.\<close>

theorem request_answered:
  assumes "server_new request remote = Inr tx"
  shows "\<exists>t. handle_request md5 env ua request remote = Some t
    \<and> (if req_method request = Ack then ut_sent t = [] \<and> ut_tx t = tx else turn_done ua tx t)
    \<and> (\<not> ua_connected ua \<longrightarrow> ut_events t = [])"
proof -
  let ?t = "handle_method md5 env ua request remote tx"
  have "turn_done ua tx ?t" if "req_method request \<noteq> Ack"
    using handle_method_done that server_new_unsettled [OF assms] by blast
  moreover have "ut_sent ?t = [] \<and> ut_tx ?t = tx \<and> (\<not> ua_connected ua \<longrightarrow> ut_events ?t = [])" if "req_method request = Ack"
    using that by (simp add: handle_method_def answered_def handed_def)
  ultimately show ?thesis using assms by (auto simp: handle_request_def turn_done_def)
qed

theorem request_answered_witness:
  "\<exists>t resp. handle_request md5_ex (env_ex 0) (uas_ex\<lparr>ua_connected := False\<rparr>) invite_ex remote_ex = Some t
     \<and> st_last_response (ut_tx t) = Some resp \<and> 200 \<le> resp_status resp"
proof -
  obtain tx where tx: "server_new invite_ex remote_ex = Inr tx" using server_new_ex(3) by (metis sum.exhaust)
  from request_answered [OF tx, of md5_ex "env_ex 0" "uas_ex\<lparr>ua_connected := False\<rparr>"]
  show ?thesis by (auto simp: ex_facts turn_done_def settled_def)
qed

text \<open>A REGISTER that was accepted once is accepted again at any time: the nonce is not compared with those
  the server gave out.\<close>

lemma register_replayed:
  assumes "req_method request = Register" "server_new request remote = Inr tx"
    and "hdr_get (req_headers request) ''authorization'' = Some h" "authorization_parse h = Inr a"
    and "ua_auth_db ua (da_username a) = Some pw" "digest_verify md5 a ''REGISTER'' pw" "0 < lifetime ua request"
  shows "\<exists>t. handle_request md5 env ua request remote = Some t
    \<and> lookup_ext (ue_now env) (ua_registrar (ut_uas t)) (da_username a) \<noteq> None"
  using register_accepted [OF assms(1-6), of env] assms(7)
  by (simp add: register_ext_def register_with_transport_def lookup_ext_def is_expired_def)

end
