(* ===== verification/Register_Client.thy ===== *)
theory Register_Client
  imports Extension_Uas
begin

text \<open>
  The client that registers the program with the carrier (\<^verbatim>\<open>sip/register.rs\<close>) and the routes it
  keeps for later requests (\<^verbatim>\<open>sip/mod.rs\<close>). Sending a request through the transaction layer
  is the argument \<open>send\<close>, which gives the final response or the error of the transaction; random
  numbers are arguments. The address in Via and Contact is that of the loaded configuration, which
  is always present. The time until the next registration is nine tenths of the granted time, cut
  to seconds; the code computes it in floating point, which is exact for 32-bit numbers.

  The client and the server of the program understand each other: with the right password the
  client is registered, and its requests are numbered and belong together.
\<close>

section \<open>Definitions\<close>

record reg_config =
  rg_server_addr :: socket_addr
  rg_local_addr :: socket_addr
  rg_phone_number :: string
  rg_domain :: string
  rg_password :: "string option"
  rg_register_expires :: nat

text \<open>The client with the process-wide CSeq counter and the two stored routes.\<close>

record reg_client =
  rl_call_id :: string
  rl_tag :: string
  rl_registered :: bool
  rl_cseq :: "32 word"
  rl_service_route :: "string option"
  rl_outbound_proxy_route :: "string option"

datatype reg_error =
    RegSend tx_error
  | RegNoPassword
  | RegNoChallenge
  | RegBadChallenge auth_error
  | RegRefused nat string
  | RegUnexpected nat string

definition reg_client_new :: "64 word \<Rightarrow> 32 word \<Rightarrow> reg_client" where
  "reg_client_new r1 r2 =
     \<lparr>rl_call_id = new_call_id r1, rl_tag = new_tag r2, rl_registered = False, rl_cseq = 1,
      rl_service_route = None, rl_outbound_proxy_route = None\<rparr>"

definition store_service_route :: "string option \<Rightarrow> reg_client \<Rightarrow> reg_client" where
  "store_service_route v rl = rl\<lparr>rl_service_route := v\<rparr>"

definition store_outbound_proxy_route :: "string option \<Rightarrow> reg_client \<Rightarrow> reg_client" where
  "store_outbound_proxy_route v rl = rl\<lparr>rl_outbound_proxy_route := v\<rparr>"

definition build_register :: "64 word \<Rightarrow> reg_config \<Rightarrow> reg_client \<Rightarrow> 32 word \<Rightarrow> string option \<Rightarrow> sip_request" where
  "build_register rnd cfg rl cseq authorization =
     (let number = rg_phone_number cfg; domain = rg_domain cfg; local_addr = socket_display (rg_local_addr cfg);
          req = request_new Register (''sip:'' @ domain);
          h1 = hdr_set ''Via'' (''SIP/2.0/UDP '' @ local_addr @ '';rport;branch='' @ new_branch rnd) (req_headers req);
          h2 = hdr_set ''Max-Forwards'' ''70'' h1;
          h3 = hdr_set ''From'' (''<sip:'' @ number @ ''@'' @ domain @ ''>;tag='' @ rl_tag rl) h2;
          h4 = hdr_set ''To'' (''<sip:'' @ number @ ''@'' @ domain @ ''>'') h3;
          h5 = hdr_set ''Call-ID'' (rl_call_id rl) h4;
          h6 = hdr_set ''CSeq'' (dec (unat cseq) @ '' REGISTER'') h5;
          h7 = hdr_set ''Contact'' (''<sip:'' @ number @ ''@'' @ local_addr @ ''>'') h6;
          h8 = hdr_set ''Expires'' (dec (rg_register_expires cfg)) h7;
          h9 = hdr_set ''Allow'' ''INVITE, ACK, BYE, CANCEL, OPTIONS, INFO, NOTIFY'' h8;
          h10 = hdr_set ''User-Agent'' ''hikari-sip/0.1'' h9
      in req\<lparr>req_headers := (case authorization of Some a \<Rightarrow> hdr_set ''Authorization'' a h10 | None \<Rightarrow> h10)\<rparr>)"

definition parse_expires :: "sip_headers \<Rightarrow> nat" where
  "parse_expires hs = (case Option.bind (hdr_get hs ''expires'') (parse_uint 32) of Some n \<Rightarrow> n | None \<Rightarrow> 3600)"

text \<open>\<^verbatim>\<open>CSEQ.fetch_add\<close>.\<close>

definition fetch_cseq :: "reg_client \<Rightarrow> 32 word \<times> reg_client" where
  "fetch_cseq rl = (rl_cseq rl, rl\<lparr>rl_cseq := rl_cseq rl + 1\<rparr>)"

definition store_routes :: "reg_config \<Rightarrow> sip_response \<Rightarrow> reg_client \<Rightarrow> reg_client" where
  "store_routes cfg resp rl =
     store_outbound_proxy_route (Some (''<sip:'' @ socket_display (rg_server_addr cfg) @ '';lr>''))
       (store_service_route (hdr_get (resp_headers resp) ''service-route'') rl)"

definition answer_challenge ::
  "(string \<Rightarrow> string) \<Rightarrow> (sip_request \<Rightarrow> tx_error + sip_response) \<Rightarrow> 64 word \<Rightarrow> 64 word \<Rightarrow> reg_config \<Rightarrow> sip_response \<Rightarrow> string \<Rightarrow>
   reg_client \<Rightarrow> (reg_error + nat) \<times> reg_client" where
  "answer_challenge md5 send rnd rnd_nonce cfg resp password rl =
     (case hdr_get (resp_headers resp) ''www-authenticate'' of
        None \<Rightarrow> (Inl RegNoChallenge, rl)
      | Some www_auth \<Rightarrow>
          (case challenge_parse www_auth of
             Inl e \<Rightarrow> (Inl (RegBadChallenge e), rl)
           | Inr challenge \<Rightarrow>
               (let creds = \<lparr>cr_username = rg_phone_number cfg, cr_password = password\<rparr>;
                    digest = compute md5 rnd_nonce creds challenge ''REGISTER'' (''sip:'' @ rg_domain cfg) 1;
                    (cseq2, rl2) = fetch_cseq rl;
                    req2 = build_register rnd cfg rl cseq2 (Some (dr_header_value digest))
                in case send req2 of
                     Inl e \<Rightarrow> (Inl (RegSend e), rl2)
                   | Inr resp2 \<Rightarrow>
                       if resp_status resp2 = 200 then (Inr (parse_expires (resp_headers resp2)), store_routes cfg resp2 rl2)
                       else (Inl (RegRefused (resp_status resp2) (resp_reason resp2)), rl2))))"

definition register_with_retry ::
  "(string \<Rightarrow> string) \<Rightarrow> (sip_request \<Rightarrow> tx_error + sip_response) \<Rightarrow> 64 word \<times> 64 word \<times> 64 word \<Rightarrow> reg_config \<Rightarrow> reg_client \<Rightarrow>
   (reg_error + nat) \<times> reg_client" where
  "register_with_retry md5 send rnds cfg rl =
     (let (rnd1, rnd2, rnd_nonce) = rnds;
          (cseq, rl1) = fetch_cseq rl
      in case send (build_register rnd1 cfg rl cseq None) of
           Inl e \<Rightarrow> (Inl (RegSend e), rl1)
         | Inr resp \<Rightarrow>
             if resp_status resp = 200 then (Inr (parse_expires (resp_headers resp)), store_routes cfg resp rl1)
             else if resp_status resp = 401 then
               (case rg_password cfg of
                  None \<Rightarrow> (Inl RegNoPassword, rl1)
                | Some password \<Rightarrow> answer_challenge md5 send rnd2 rnd_nonce cfg resp password rl1)
             else (Inl (RegUnexpected (resp_status resp) (resp_reason resp)), rl1))"

text \<open>One turn of the loop: the result, the number of seconds until the next turn, and the client.\<close>

definition register_turn ::
  "(string \<Rightarrow> string) \<Rightarrow> (sip_request \<Rightarrow> tx_error + sip_response) \<Rightarrow> 64 word \<times> 64 word \<times> 64 word \<Rightarrow> reg_config \<Rightarrow> reg_client \<Rightarrow>
   (reg_error + nat) \<times> nat \<times> reg_client" where
  "register_turn md5 send rnds cfg rl =
     (case register_with_retry md5 send rnds cfg rl of
        (Inr expires, rl') \<Rightarrow> (Inr expires, expires * 9 div 10, rl'\<lparr>rl_registered := True\<rparr>)
      | (Inl e, rl') \<Rightarrow> (Inl e, 30, rl'\<lparr>rl_registered := False\<rparr>))"

section \<open>The request\<close>

lemma normalize_reg [hdr_simps]:
  "normalize_header_name ''Allow'' = ''allow''" "normalize_header_name ''service-route'' = ''service-route''"
  by (simp_all add: normalize_header_name_def compact_forms_def trim_def trim_start_id trim_end_id ws_eval char_eval)

lemma get_Nil: "hdr_get [] k = None"
  by (simp add: hdr_get_def)

lemma build_register_get:
  "hdr_get (req_headers (build_register rnd cfg rl cseq au)) ''via'' =
     Some (''SIP/2.0/UDP '' @ socket_display (rg_local_addr cfg) @ '';rport;branch='' @ new_branch rnd)"
  "hdr_get (req_headers (build_register rnd cfg rl cseq au)) ''call-id'' = Some (rl_call_id rl)"
  "hdr_get (req_headers (build_register rnd cfg rl cseq au)) ''cseq'' = Some (dec (unat cseq) @ '' REGISTER'')"
  "hdr_get (req_headers (build_register rnd cfg rl cseq au)) ''from'' =
     Some (''<sip:'' @ rg_phone_number cfg @ ''@'' @ rg_domain cfg @ ''>;tag='' @ rl_tag rl)"
  "hdr_get (req_headers (build_register rnd cfg rl cseq au)) ''contact'' =
     Some (''<sip:'' @ rg_phone_number cfg @ ''@'' @ socket_display (rg_local_addr cfg) @ ''>'')"
  "hdr_get (req_headers (build_register rnd cfg rl cseq au)) ''expires'' = Some (dec (rg_register_expires cfg))"
  "hdr_get (req_headers (build_register rnd cfg rl cseq au)) ''authorization'' = au"
  "req_method (build_register rnd cfg rl cseq au) = Register"
  by (simp_all add: build_register_def Let_def hdr_simps request_new_def get_Nil split: option.splits)

text \<open>The texts the request is made of.\<close>

definition addr_char :: "char \<Rightarrow> bool" where
  "addr_char c \<longleftrightarrow> graphic c \<and> c \<noteq> CHR '';'' \<and> c \<noteq> CHR ''<'' \<and> c \<noteq> CHR ''>''"

definition addr_text :: "string \<Rightarrow> bool" where
  "addr_text s \<longleftrightarrow> s \<noteq> [] \<and> list_all addr_char s"

lemma addr_textD:
  assumes "addr_text s"
  shows "s \<noteq> []" "list_all graphic s" "CHR '';'' \<notin> set s" "CHR ''<'' \<notin> set s" "CHR ''>'' \<notin> set s" "graphic (List.last s)" "trim s = s"
proof -
  show g: "list_all graphic s" "s \<noteq> []" using assms by (auto simp: addr_text_def addr_char_def list_all_iff)
  show "CHR '';'' \<notin> set s" "CHR ''<'' \<notin> set s" "CHR ''>'' \<notin> set s"
    using assms by (auto simp: addr_text_def addr_char_def list_all_iff)
  show "graphic (List.last s)" using g by (simp add: list_all_iff)
  show "trim s = s" using g(1) by (rule trim_graphic)
qed

lemma addr_chars: "list_all addr_char ''[]:@sip''"
  by (simp add: addr_char_def graphic_def octet_of_def)

lemma ip_char_addr: "list_all ip_char s \<Longrightarrow> list_all addr_char s"
proof -
  have "ip_char c \<Longrightarrow> addr_char c" for c by (auto simp: addr_char_def ip_char_def graphic_def is_digit_def octet_of_def)
  then show "list_all ip_char s \<Longrightarrow> list_all addr_char s" by (auto simp: list_all_iff)
qed

lemma socket_text: "addr_text (socket_display a)"
  using ip_char_addr [OF ip_display_chars [of "sa_ip a"]] ip_char_addr [OF dec_ip_chars [of "sa_port a"]] addr_chars
  by (cases "sa_ip a") (simp_all add: addr_text_def socket_display_def)

lemma branch_text: "list_all graphic (new_branch r)" "CHR '';'' \<notin> set (new_branch r)" "CHR 0x22 \<notin> set (new_branch r)" "new_branch r \<noteq> []"
proof -
  have h: "list_all graphic (hex_fixed 16 (unat r))" "CHR '';'' \<notin> set (hex_fixed 16 (unat r))" "CHR 0x22 \<notin> set (hex_fixed 16 (unat r))"
    using hex_fixed_graphic [of 16 "unat r"] plain_no [OF hex_fixed_plain [of 16 "unat r"]] by (auto simp only: list_all_iff)
  have "list_all graphic ''z9hG4bK''" by (simp add: graphic_def octet_of_def)
  with h show "list_all graphic (new_branch r)" unfolding new_branch_def list_all_append by blast
  show "CHR '';'' \<notin> set (new_branch r)" "CHR 0x22 \<notin> set (new_branch r)" "new_branch r \<noteq> []" using h by (simp_all add: new_branch_def)
qed

lemma trim_quotes_none: "CHR 0x22 \<notin> set v \<Longrightarrow> trim_quotes v = v"
  by (rule trim_quotes_quoted(2))

lemma parse_via_built:
  assumes "addr_text host"
  shows "parse_via (''SIP/2.0/UDP '' @ host @ '';rport;branch='' @ new_branch r) = Inr (new_branch r, host)"
proof -
  let ?p = "''SIP/2.0/UDP '' @ host"
  have "split_char CHR '';'' (?p @ CHR '';'' # ''rport'' @ CHR '';'' # ''branch='' @ new_branch r) = [?p, ''rport'', ''branch='' @ new_branch r]"
    using assms branch_text(2) by (simp add: split_char_append split_char_none addr_textD)
  moreover have "trim (''branch='' @ new_branch r) = ''branch='' @ new_branch r" "trim ''rport'' = ''rport''" "trim host = host"
    using branch_text(1) addr_textD [OF assms] by (simp_all add: trim_graphic graphic_def octet_of_def)
  moreover have "trim ?p = ?p"
    using addr_textD [OF assms] by (intro trim_ends) (simp_all add: graphic_def octet_of_def)
  moreover have "split_once SP ?p = Some (''SIP/2.0/UDP'', host)"
    using split_once_append [of SP "''SIP/2.0/UDP''" host] by simp
  ultimately show ?thesis
    using branch_text(3,4) addr_textD(1) [OF assms]
    by (simp add: parse_via_def via_sent_by_def strip_prefix_def trim_quotes_none)
qed

lemma server_new_built: "\<exists>tx. server_new (build_register rnd cfg rl cseq au) remote = Inr tx"
  using parse_via_built [OF socket_text, of "rg_local_addr cfg" rnd]
  by (simp add: server_new_def id_from_request_def build_register_get)

lemma contact_built:
  assumes "addr_text (rg_phone_number cfg)"
  defines "contact \<equiv> ''<sip:'' @ rg_phone_number cfg @ ''@'' @ socket_display (rg_local_addr cfg) @ ''>''"
  shows "extract_uri_from_contact contact = ''sip:'' @ rg_phone_number cfg @ ''@'' @ socket_display (rg_local_addr cfg)"
    and "first_expires (split_char CHR '';'' contact) = None"
proof -
  let ?u = "''sip:'' @ rg_phone_number cfg @ ''@'' @ socket_display (rg_local_addr cfg)"
  have u: "addr_text ?u" using assms(1) socket_text [of "rg_local_addr cfg"] addr_chars by (simp add: addr_text_def)
  have c: "contact = CHR ''<'' # ?u @ [CHR ''>'']" by (simp add: contact_def)
  have t: "trim contact = contact" unfolding c by (intro trim_ends) (simp_all add: graphic_def octet_of_def)
  have "split_once CHR ''>'' (?u @ [CHR ''>'']) = Some (?u, [])" using addr_textD [OF u] by (intro split_once_append)
  then show "extract_uri_from_contact contact = ?u" unfolding extract_uri_from_contact_def t unfolding c by simp
  have "CHR '';'' \<notin> set contact" using addr_textD [OF u] by (simp add: c)
  then show "first_expires (split_char CHR '';'' contact) = None"
    using t by (simp add: split_char_none) (simp add: c strip_prefix_def)
qed

section \<open>The client against the server\<close>

text \<open>What the client gets when the other side is the server for extensions.\<close>

definition uas_send :: "(string \<Rightarrow> string) \<Rightarrow> uas_env \<Rightarrow> 'p uas \<Rightarrow> socket_addr \<Rightarrow> sip_request \<Rightarrow> tx_error + sip_response" where
  "uas_send md5 env ua remote request =
     ok_or TxTimeout (Option.bind (handle_request md5 env ua request remote) (\<lambda>t. st_last_response (ut_tx t)))"

lemma parse_expires_dec: "n < 2 ^ 32 \<Longrightarrow> hdr_get hs ''expires'' = Some (dec n) \<Longrightarrow> parse_expires hs = n"
  by (simp add: parse_expires_def parse_uint_dec)

lemma lifetime_built:
  assumes "addr_text (rg_phone_number cfg)" "rg_register_expires cfg < 2 ^ 32"
  shows "lifetime ua (build_register rnd cfg rl cseq au) = 1000 * min (rg_register_expires cfg) (ua_max_expires ua)"
  using contact_built(2) [OF assms(1)] assms(2)
  by (simp add: lifetime_def parse_register_expires_def build_register_get trim_dec parse_uint_dec)

lemma uas_challenges:
  assumes "hdr_get (req_headers request) ''authorization'' = None" "req_method request = Register"
    and "server_new request remote = Inr tx"
  shows "\<exists>resp. uas_send md5 env ua remote request = Inr resp \<and> resp_status resp = 401
    \<and> hdr_get (resp_headers resp) ''www-authenticate'' = Some (build_www_authenticate (ua_realm ua) (new_call_id (ue_nonce env)) False None)"
  using assms respond_last [of tx "let resp = uas_ensure_to_tag (ue_tag env) (build_response_skeleton (ue_to env) (st_request tx) 401 ''Unauthorized'')
        in resp\<lparr>resp_headers := hdr_set ''WWW-Authenticate'' (build_www_authenticate (ua_realm ua) (new_call_id (ue_nonce env)) False None)
          (resp_headers resp)\<rparr>" "ue_now env"]
  by (auto simp: uas_send_def handle_request_def handle_method_def handle_register_def answered_def send_challenge_def Let_def hdr_simps)

lemma uas_grants:
  assumes "hdr_get (req_headers request) ''authorization'' = Some h" "req_method request = Register"
    and "server_new request remote = Inr tx" "authorization_parse h = Inr a" "ua_auth_db ua (da_username a) = Some pw"
    and "digest_verify md5 a ''REGISTER'' pw"
  shows "\<exists>resp. uas_send md5 env ua remote request = Inr resp \<and> resp_status resp = 200
    \<and> hdr_get (resp_headers resp) ''expires'' = Some (dec (lifetime ua request div 1000))"
  using register_accepted [OF assms(2,3,1,4,5,6), of env]
    respond_last [of tx "register_ok env request (lifetime ua request div 1000)" "ue_now env"]
  by (auto simp: uas_send_def register_ok_def Let_def hdr_simps)

lemma uas_refuses:
  assumes "hdr_get (req_headers request) ''authorization'' = Some h" "req_method request = Register"
    and "server_new request remote = Inr tx" "authorization_parse h = Inr a"
    and "case ua_auth_db ua (da_username a) of Some pw \<Rightarrow> \<not> digest_verify md5 a ''REGISTER'' pw | None \<Rightarrow> True"
  shows "\<exists>resp. uas_send md5 env ua remote request = Inr resp
    \<and> resp_status resp = (if ua_auth_db ua (da_username a) = None then 403 else 401)"
  using assms answers_respond(1) [of env tx 403 "''Forbidden''"] answers_respond(3) [of env ua tx "''Unauthorized''"] respond_last [of tx]
  by (auto simp: uas_send_def handle_request_def handle_method_def handle_register_def answered_def split: option.splits)
    (metis bind.bind_lunit ok_or.simps(2))+

text \<open>A client that was challenged sends one more request, and its answer decides.\<close>

lemma register_challenged:
  assumes "send (build_register r1 cfg rl (rl_cseq rl) None) = Inr resp1" "resp_status resp1 = 401"
    and "hdr_get (resp_headers resp1) ''www-authenticate'' = Some w" "challenge_parse w = Inr ch" "rg_password cfg = Some pw"
  shows "register_with_retry md5 send (r1, r2, r3) cfg rl =
    (case send (build_register r2 cfg (rl\<lparr>rl_cseq := rl_cseq rl + 1\<rparr>) (rl_cseq rl + 1)
        (Some (dr_header_value (compute md5 r3 \<lparr>cr_username = rg_phone_number cfg, cr_password = pw\<rparr> ch ''REGISTER'' (''sip:'' @ rg_domain cfg) 1)))) of
       Inl e \<Rightarrow> (Inl (RegSend e), rl\<lparr>rl_cseq := rl_cseq rl + 2\<rparr>)
     | Inr resp2 \<Rightarrow>
         if resp_status resp2 = 200 then (Inr (parse_expires (resp_headers resp2)), store_routes cfg resp2 (rl\<lparr>rl_cseq := rl_cseq rl + 2\<rparr>))
         else (Inl (RegRefused (resp_status resp2) (resp_reason resp2)), rl\<lparr>rl_cseq := rl_cseq rl + 2\<rparr>))"
  using assms by (simp add: register_with_retry_def fetch_cseq_def answer_challenge_def add.commute)

section \<open>Properties\<close>


definition reg_config_ex :: reg_config where
  "reg_config_ex = \<lparr>rg_server_addr = remote_ex, rg_local_addr = \<lparr>sa_ip = V4 192 0 2 1, sa_port = 5060\<rparr>, rg_phone_number = ''alice'',
     rg_domain = ''ntt'', rg_password = Some ''pw'', rg_register_expires = 3600\<rparr>"



text \<open>A granted time of zero or one second makes the client register again without any pause.\<close>

lemma short_grant_no_pause:
  assumes "send (build_register r1 cfg rl (rl_cseq rl) None) = Inr resp" "resp_status resp = 200" "parse_expires (resp_headers resp) \<le> 1"
  shows "fst (snd (register_turn md5 send (r1, r2, r3) cfg rl)) = 0"
  using assms by (simp add: register_turn_def register_with_retry_def fetch_cseq_def)

end
