(* ===== verification/Uac.thy ===== *)
theory Uac
  imports Register_Client Sip_Dialog Transaction_Layer
begin

text \<open>
  The user agent client (\<^verbatim>\<open>sip/uac.rs\<close>): calls to the carrier and to extensions, with the answer
  to a digest challenge, the ACK of a 2xx, CANCEL, instant messages, and the requests inside an
  established call. The transaction layer is the argument \<open>ly\<close>: \<open>ly_send\<close> gives the final response
  of a transaction or its error, \<open>ly_post\<close> sends without waiting. Every operation also returns the
  requests it handed to the layer with their destinations, in order. Random numbers are arguments.
  A CANCEL waits for the progress of its INVITE; what happens in the transaction table meanwhile is
  a list of batches of table events with their times, and the waiting task looks at its receiver
  after each batch.
\<close>

section \<open>Definitions\<close>

definition DEFAULT_SESSION_EXPIRES :: nat where "DEFAULT_SESSION_EXPIRES = 300"
definition MIN_SE :: nat where "MIN_SE = 90"
definition CANCEL_PROVISIONAL_WAIT :: nat where "CANCEL_PROVISIONAL_WAIT = 32000"

record uac_config =
  uc_local_uri :: string
  uc_domain :: string
  uc_local_addr :: socket_addr
  uc_user_agent :: string
  uc_auth_username :: "string option"
  uc_auth_password :: "string option"

record uac =
  ua_config :: uac_config
  ua_server_addr :: socket_addr

record invite_plan =
  ip_request :: sip_request
  ip_cseq :: "32 word"
  ip_target_uri :: string
  ip_session_expires :: nat

record message_plan =
  mp_request :: sip_request
  mp_cseq :: "32 word"
  mp_target_uri :: string
  mp_call_id :: string

record uac_dialog =
  ud_inner :: dialog
  ud_invite_cseq :: "32 word"
  ud_session_expires :: nat
  ud_fallback_peer :: socket_addr

record established_call =
  ec_dialog :: uac_dialog
  ec_response :: sip_response

datatype invite_outcome = Established established_call | InviteFailed sip_response

datatype cancel_outcome = CancelSent sip_response | CancelNotSent

datatype uac_error =
    UacTx tx_error
  | UacDialogError dialog_error
  | UacCSeqEmpty
  | UacCSeqBad string
  | CancelWaitTimeout
  | CancelInconsistent

text \<open>The transaction layer as its user sees it, and the requests handed to it.\<close>

record sip_layer =
  ly_send :: "sip_request \<Rightarrow> socket_addr \<Rightarrow> tx_error + sip_response"
  ly_post :: "sip_request \<Rightarrow> socket_addr \<Rightarrow> tx_error option"

type_synonym handed_requests = "(sip_request \<times> socket_addr) list"

text \<open>The random numbers of a new request.\<close>

record uac_rnd =
  ur_call_id :: "64 word"
  ur_tag :: "32 word"
  ur_branch :: "64 word"

subsection \<open>Texts\<close>

definition extract_user :: "string \<Rightarrow> string option" where
  "extract_user uri =
     (let after_scheme = (case split_once CHR '':'' uri of Some (_, r) \<Rightarrow> r | None \<Rightarrow> uri)
      in map_option fst (split_once CHR ''@'' after_scheme))"

definition contact_uri :: "uac_config \<Rightarrow> string" where
  "contact_uri cfg =
     (let user = (case extract_user (uc_local_uri cfg) of Some u \<Rightarrow> u | None \<Rightarrow> ''anonymous'')
      in ''sip:'' @ user @ ''@'' @ socket_display (uc_local_addr cfg))"

definition sent_by :: "uac_config \<Rightarrow> string" where
  "sent_by cfg = socket_display (uc_local_addr cfg)"

definition strip_port_from_sip_uri :: "string \<Rightarrow> string" where
  "strip_port_from_sip_uri target_uri =
     (case split_once CHR ''@'' target_uri of
        None \<Rightarrow> target_uri
      | Some (user, host_part) \<Rightarrow>
          (let (host_with_optional_port, params) =
                 (case split_once CHR '';'' host_part of Some (h, ps) \<Rightarrow> (h, CHR '';'' # ps) | None \<Rightarrow> (host_part, []));
               host_no_port = hd (split_char CHR '':'' host_with_optional_port)
           in (user @ ''@'') @ host_no_port @ params))"

definition uac_parse_cseq_number :: "string \<Rightarrow> uac_error + 32 word" where
  "uac_parse_cseq_number val =
     (case split_whitespace val of
        [] \<Rightarrow> Inl UacCSeqEmpty
      | num # _ \<Rightarrow> (case parse_uint 32 num of None \<Rightarrow> Inl (UacCSeqBad val) | Some n \<Rightarrow> Inr (of_nat n)))"

definition build_via_with_new_branch :: "64 word \<Rightarrow> string \<Rightarrow> sip_request \<Rightarrow> string" where
  "build_via_with_new_branch rnd by original =
     (let original_via = (case hdr_get (req_headers original) ''via'' of Some v \<Rightarrow> v | None \<Rightarrow> []);
          rport = (if find_str '';rport'' original_via \<noteq> None then '';rport'' else [])
      in ''SIP/2.0/UDP '' @ by @ rport @ '';branch='' @ new_branch rnd)"

subsection \<open>New requests\<close>

definition current_service_route :: "reg_client \<Rightarrow> string option" where
  "current_service_route rl = rl_service_route rl"

definition current_outbound_proxy_route :: "reg_client \<Rightarrow> string option" where
  "current_outbound_proxy_route rl = rl_outbound_proxy_route rl"

definition route_value :: "reg_client \<Rightarrow> string option" where
  "route_value rl =
     (case current_outbound_proxy_route rl of Some r \<Rightarrow> Some r | None \<Rightarrow> current_service_route rl)"

definition set_route :: "string option \<Rightarrow> sip_headers \<Rightarrow> sip_headers" where
  "set_route r hs = (case r of Some route \<Rightarrow> hdr_set ''Route'' route hs | None \<Rightarrow> hs)"

definition build_invite ::
  "reg_client \<Rightarrow> uac_rnd \<Rightarrow> uac \<Rightarrow> string \<Rightarrow> string option \<Rightarrow> nat option \<Rightarrow> invite_plan" where
  "build_invite rl rnd u target_uri sdp_offer session_expires_secs =
     (let cfg = ua_config u;
          cseq = 1;
          call_id = new_call_id (ur_call_id rnd);
          local_tag = new_tag (ur_tag rnd);
          branch = new_branch (ur_branch rnd);
          session_expires = (case session_expires_secs of Some n \<Rightarrow> n | None \<Rightarrow> DEFAULT_SESSION_EXPIRES);
          req = request_new Invite target_uri;
          h1 = hdr_set ''Via'' (''SIP/2.0/UDP '' @ sent_by cfg @ '';rport;branch='' @ branch) (req_headers req);
          h2 = hdr_set ''Max-Forwards'' ''70'' h1;
          h3 = hdr_set ''From'' ([DQ] @ ''Anonymous'' @ [DQ] @ '' <'' @ uc_local_uri cfg @ ''>;tag='' @ local_tag) h2;
          h4 = hdr_set ''To'' (''<'' @ strip_port_from_sip_uri target_uri @ ''>'') h3;
          h5 = hdr_set ''Call-ID'' call_id h4;
          h6 = hdr_set ''CSeq'' (dec (unat cseq) @ '' INVITE'') h5;
          h7 = hdr_set ''Contact'' (''<'' @ contact_uri cfg @ ''>'') h6;
          h8 = hdr_set ''Allow'' ''INVITE, ACK, BYE, CANCEL, OPTIONS'' h7;
          h9 = hdr_set ''Supported'' ''100rel, timer'' h8;
          h10 = hdr_set ''Session-Expires'' (dec session_expires @ '';refresher=uac'') h9;
          h11 = hdr_set ''Min-SE'' (dec MIN_SE) h10;
          h12 = set_route (route_value rl) h11;
          h13 = hdr_set ''User-Agent'' (uc_user_agent cfg) h12;
          req' = (case sdp_offer of
                    Some body \<Rightarrow> req\<lparr>req_headers := hdr_set ''Content-Type'' ''application/sdp'' h13, req_body := body\<rparr>
                  | None \<Rightarrow> req\<lparr>req_headers := h13\<rparr>)
      in \<lparr>ip_request = req', ip_cseq = cseq, ip_target_uri = target_uri, ip_session_expires = session_expires\<rparr>)"

definition build_message :: "reg_client \<Rightarrow> uac_rnd \<Rightarrow> uac \<Rightarrow> string \<Rightarrow> string \<Rightarrow> message_plan" where
  "build_message rl rnd u target_uri body =
     (let cfg = ua_config u;
          cseq = 1;
          call_id = new_call_id (ur_call_id rnd);
          local_tag = new_tag (ur_tag rnd);
          branch = new_branch (ur_branch rnd);
          req = request_new Message target_uri;
          h1 = hdr_set ''Via'' (''SIP/2.0/UDP '' @ sent_by cfg @ '';rport;branch='' @ branch) (req_headers req);
          h2 = hdr_set ''Max-Forwards'' ''70'' h1;
          h3 = hdr_set ''From'' ([DQ] @ ''Anonymous'' @ [DQ] @ '' <'' @ uc_local_uri cfg @ ''>;tag='' @ local_tag) h2;
          h4 = hdr_set ''To'' (''<'' @ strip_port_from_sip_uri target_uri @ ''>'') h3;
          h5 = hdr_set ''Call-ID'' call_id h4;
          h6 = hdr_set ''CSeq'' (dec (unat cseq) @ '' MESSAGE'') h5;
          h7 = hdr_set ''Contact'' (''<'' @ contact_uri cfg @ ''>'') h6;
          h8 = hdr_set ''Allow'' ''INVITE, ACK, BYE, CANCEL, OPTIONS, MESSAGE'' h7;
          h9 = set_route (route_value rl) h8;
          h10 = hdr_set ''User-Agent'' (uc_user_agent cfg) h9;
          h11 = hdr_set ''Content-Type'' ''text/plain;charset=utf-8'' h10
      in \<lparr>mp_request = req\<lparr>req_headers := h11, req_body := body\<rparr>, mp_cseq = cseq, mp_target_uri = target_uri,
          mp_call_id = call_id\<rparr>)"

definition send_message :: "sip_layer \<Rightarrow> uac \<Rightarrow> message_plan \<Rightarrow> (uac_error + sip_response) \<times> handed_requests" where
  "send_message ly u plan =
     (map_sum UacTx id (ly_send ly (mp_request plan) (ua_server_addr u)), [(mp_request plan, ua_server_addr u)])"

subsection \<open>Calls\<close>

definition resolve_next_hop_addr :: "dialog \<Rightarrow> socket_addr \<Rightarrow> socket_addr" where
  "resolve_next_hop_addr d fallback = next_hop_socket d fallback"

text \<open>\<^verbatim>\<open>finalize_2xx_to\<close>; \<^verbatim>\<open>finalize_2xx\<close> is the same code with the address of the server.\<close>

definition finalize_2xx_to ::
  "sip_layer \<Rightarrow> 64 word \<Rightarrow> uac \<Rightarrow> invite_plan \<Rightarrow> socket_addr \<Rightarrow> sip_response \<Rightarrow>
   (uac_error + invite_outcome) \<times> handed_requests" where
  "finalize_2xx_to ly rnd u plan dest_addr response =
     (let cfg = ua_config u;
          dialog_cfg = \<lparr>cfg_local_uri = uc_local_uri cfg, cfg_remote_uri = ip_target_uri plan,
                        cfg_local_contact = contact_uri cfg, cfg_sent_by = sent_by cfg\<rparr>
      in case from_uac_response (ip_request plan) response dialog_cfg of
           Inl e \<Rightarrow> (Inl (UacDialogError e), [])
         | Inr d \<Rightarrow>
             (let ack = build_ack_for_2xx d rnd (ip_cseq plan);
                  next_hop = resolve_next_hop_addr d dest_addr
              in case ly_post ly ack next_hop of
                   Some e \<Rightarrow> (Inl (UacTx e), [(ack, next_hop)])
                 | None \<Rightarrow>
                     (Inr (Established
                        \<lparr>ec_dialog = \<lparr>ud_inner = d, ud_invite_cseq = ip_cseq plan,
                           ud_session_expires = ip_session_expires plan, ud_fallback_peer = dest_addr\<rparr>,
                         ec_response = response\<rparr>), [(ack, next_hop)])))"

definition finalize_2xx ::
  "sip_layer \<Rightarrow> 64 word \<Rightarrow> uac \<Rightarrow> invite_plan \<Rightarrow> sip_response \<Rightarrow> (uac_error + invite_outcome) \<times> handed_requests" where
  "finalize_2xx ly rnd u plan response = finalize_2xx_to ly rnd u plan (ua_server_addr u) response"

text \<open>The plan of the repeated INVITE, when the challenge can be answered.\<close>

definition retry_plan ::
  "(string \<Rightarrow> string) \<Rightarrow> 64 word \<Rightarrow> 64 word \<Rightarrow> uac \<Rightarrow> invite_plan \<Rightarrow> sip_response \<Rightarrow> invite_plan option" where
  "retry_plan md5 rnd rnd_nonce u plan response =
     Option.bind (uc_auth_username (ua_config u)) (\<lambda>username.
     Option.bind (uc_auth_password (ua_config u)) (\<lambda>password.
       let code = resp_status response;
           (challenge_header_name, auth_header_name) =
             (if code = 401 then (''www-authenticate'', ''Authorization'')
              else (''proxy-authenticate'', ''Proxy-Authorization''))
       in Option.bind (hdr_get (resp_headers response) challenge_header_name) (\<lambda>raw_challenge.
          case challenge_parse raw_challenge of
            Inl _ \<Rightarrow> None
          | Inr challenge \<Rightarrow>
              (let creds = \<lparr>cr_username = username, cr_password = password\<rparr>;
                   digest = compute md5 rnd_nonce creds challenge ''INVITE'' (req_uri (ip_request plan)) 1;
                   req2 = ip_request plan;
                   new_via = build_via_with_new_branch rnd (sent_by (ua_config u)) req2;
                   h1 = hdr_set ''Via'' new_via (req_headers req2);
                   new_cseq = sat_add (ip_cseq plan) 1;
                   h2 = hdr_set ''CSeq'' (dec (unat new_cseq) @ '' INVITE'') h1;
                   h3 = hdr_set auth_header_name (dr_header_value digest) h2
               in Some \<lparr>ip_request = req2\<lparr>req_headers := h3\<rparr>, ip_cseq = new_cseq, ip_target_uri = ip_target_uri plan,
                        ip_session_expires = ip_session_expires plan\<rparr>))))"

definition retry_invite_with_auth ::
  "(string \<Rightarrow> string) \<Rightarrow> sip_layer \<Rightarrow> 64 word \<Rightarrow> 64 word \<Rightarrow> uac \<Rightarrow> invite_plan \<Rightarrow> sip_response \<Rightarrow>
   (uac_error + (invite_plan \<times> sip_response) option) \<times> handed_requests" where
  "retry_invite_with_auth md5 ly rnd rnd_nonce u plan response =
     (case retry_plan md5 rnd rnd_nonce u plan response of
        None \<Rightarrow> (Inr None, [])
      | Some updated_plan \<Rightarrow>
          (case ly_send ly (ip_request updated_plan) (ua_server_addr u) of
             Inl e \<Rightarrow> (Inl (UacTx e), [(ip_request updated_plan, ua_server_addr u)])
           | Inr resp2 \<Rightarrow> (Inr (Some (updated_plan, resp2)), [(ip_request updated_plan, ua_server_addr u)])))"

definition is_2xx :: "sip_response \<Rightarrow> bool" where
  "is_2xx resp \<longleftrightarrow> 200 \<le> resp_status resp \<and> resp_status resp < 300"

definition invite ::
  "(string \<Rightarrow> string) \<Rightarrow> sip_layer \<Rightarrow> 64 word \<times> 64 word \<times> 64 word \<Rightarrow> uac \<Rightarrow> invite_plan \<Rightarrow>
   (uac_error + invite_outcome) \<times> handed_requests" where
  "invite md5 ly rnds u plan =
     (let (rnd_ack, rnd_retry, rnd_nonce) = rnds;
          first = [(ip_request plan, ua_server_addr u)]
      in case ly_send ly (ip_request plan) (ua_server_addr u) of
           Inl e \<Rightarrow> (Inl (UacTx e), first)
         | Inr response \<Rightarrow>
             if is_2xx response then
               (let (r, out) = finalize_2xx ly rnd_ack u plan response in (r, first @ out))
             else if (resp_status response = 401 \<or> resp_status response = 407)
                 \<and> uc_auth_username (ua_config u) \<noteq> None \<and> uc_auth_password (ua_config u) \<noteq> None then
               (case retry_invite_with_auth md5 ly rnd_retry rnd_nonce u plan response of
                  (Inl e, out) \<Rightarrow> (Inl e, first @ out)
                | (Inr (Some (plan2, retry_resp)), out) \<Rightarrow>
                    if is_2xx retry_resp then
                      (let (r, out2) = finalize_2xx ly rnd_ack u plan2 retry_resp in (r, first @ out @ out2))
                    else (Inr (InviteFailed retry_resp), first @ out)
                | (Inr None, out) \<Rightarrow> (Inr (InviteFailed response), first @ out))
             else (Inr (InviteFailed response), first))"

definition invite_to ::
  "sip_layer \<Rightarrow> 64 word \<Rightarrow> uac \<Rightarrow> invite_plan \<Rightarrow> socket_addr \<Rightarrow> (uac_error + invite_outcome) \<times> handed_requests" where
  "invite_to ly rnd_ack u plan dest_addr =
     (let first = [(ip_request plan, dest_addr)]
      in case ly_send ly (ip_request plan) dest_addr of
           Inl e \<Rightarrow> (Inl (UacTx e), first)
         | Inr response \<Rightarrow>
             if is_2xx response then
               (let (r, out) = finalize_2xx_to ly rnd_ack u plan dest_addr response in (r, first @ out))
             else (Inr (InviteFailed response), first))"

subsection \<open>CANCEL\<close>

definition build_cancel :: "sip_request \<Rightarrow> 32 word \<Rightarrow> sip_request" where
  "build_cancel original invite_cseq =
     (let rq = req_headers original;
          h1 = copy_header ''via'' ''Via'' rq [];
          h2 = hdr_set ''Max-Forwards'' ''70'' h1;
          h3 = copy_header ''from'' ''From'' rq h2;
          h4 = copy_header ''to'' ''To'' rq h3;
          h5 = copy_header ''call-id'' ''Call-ID'' rq h4;
          h6 = hdr_set ''CSeq'' (dec (unat invite_cseq) @ '' CANCEL'') h5;
          h7 = fold (hdr_add ''Route'') (hdr_get_all rq ''route'') h6;
          h8 = hdr_set ''User-Agent'' ''hikari-sip/0.1'' h7
      in (request_new Cancel (req_uri original))\<lparr>req_headers := h8\<rparr>)"

text \<open>The receiver of the progress: the last value it was sent, and whether the sender is gone
  (the entry was removed, or replaced by a new transaction of the same name).\<close>

fun rx_step :: "transaction_id \<Rightarrow> tx_table \<times> progress \<times> bool \<Rightarrow> table_event \<Rightarrow> tx_table \<times> progress \<times> bool" where
  "rx_step i (tb, p, closed) e =
     (let tb' = table_step tb e;
          renewed = (case e of Create req \<Rightarrow> id_from_request req = Inr i | _ \<Rightarrow> False);
          closed' = (closed \<or> renewed \<or> provisional_watch tb' i = None)
      in (tb', (if closed' then p else the (provisional_watch tb' i)), closed'))"

datatype wait_result = Reached progress | SenderGone | WaitElapsed

fun await_progress :: "transaction_id \<Rightarrow> tx_table \<times> progress \<times> bool \<Rightarrow> (nat \<times> table_event list) list \<Rightarrow> wait_result" where
  "await_progress i st [] = WaitElapsed"
| "await_progress i st ((t, es) # batches) =
     (if CANCEL_PROVISIONAL_WAIT \<le> t then WaitElapsed
      else case run_steps (rx_step i) st es of
             (tb, p, closed) \<Rightarrow>
               if p \<noteq> Pending then Reached p
               else if closed then SenderGone
               else await_progress i (tb, p, closed) batches)"

definition cancel_pending ::
  "sip_layer \<Rightarrow> tx_table \<Rightarrow> (nat \<times> table_event list) list \<Rightarrow> uac \<Rightarrow> invite_plan \<Rightarrow>
   (uac_error + cancel_outcome) \<times> handed_requests" where
  "cancel_pending ly tb batches u plan =
     (case id_from_request (ip_request plan) of
        Inl e \<Rightarrow> (Inl (UacTx e), [])
      | Inr invite_id \<Rightarrow>
          (case provisional_watch tb invite_id of
             None \<Rightarrow> (Inr CancelNotSent, [])
           | Some initial \<Rightarrow>
               (case (if initial = Pending then await_progress invite_id (tb, Pending, False) batches else Reached initial) of
                  SenderGone \<Rightarrow> (Inr CancelNotSent, [])
                | WaitElapsed \<Rightarrow> (Inl CancelWaitTimeout, [])
                | Reached Provisional \<Rightarrow>
                    (let cancel = build_cancel (ip_request plan) (ip_cseq plan)
                     in (map_sum UacTx CancelSent (ly_send ly cancel (ua_server_addr u)), [(cancel, ua_server_addr u)]))
                | Reached Final \<Rightarrow> (Inr CancelNotSent, [])
                | Reached Pending \<Rightarrow> (Inl CancelInconsistent, []))))"

subsection \<open>An established call\<close>

definition ud_next_hop_socket :: "uac_dialog \<Rightarrow> socket_addr" where
  "ud_next_hop_socket ud = next_hop_socket (ud_inner ud) (ud_fallback_peer ud)"

definition send_bye ::
  "sip_layer \<Rightarrow> 64 word \<Rightarrow> uac_dialog \<Rightarrow> (uac_error + sip_response) \<times> uac_dialog \<times> handed_requests" where
  "send_bye ly rnd ud =
     (let (bye, d) = build_bye (ud_inner ud) rnd;
          ud1 = ud\<lparr>ud_inner := d\<rparr>;
          peer = ud_next_hop_socket ud1
      in case ly_send ly bye peer of
           Inl e \<Rightarrow> (Inl (UacTx e), ud1, [(bye, peer)])
         | Inr resp \<Rightarrow> (Inr resp, ud1\<lparr>ud_inner := terminate d\<rparr>, [(bye, peer)]))"

definition updated_session_expires :: "sip_response \<Rightarrow> nat \<Rightarrow> nat" where
  "updated_session_expires resp old =
     (case hdr_get (resp_headers resp) ''session-expires'' of
        Some se \<Rightarrow> (case parse_uint 32 (trim (hd (split_char CHR '';'' se))) of Some num \<Rightarrow> num | None \<Rightarrow> old)
      | None \<Rightarrow> old)"

definition send_reinvite ::
  "sip_layer \<Rightarrow> 64 word \<Rightarrow> 64 word \<Rightarrow> string option \<Rightarrow> uac_dialog \<Rightarrow>
   (uac_error + sip_response) \<times> uac_dialog \<times> handed_requests" where
  "send_reinvite ly rnd rnd_ack sdp_body ud =
     (let (reinv, d) = build_reinvite (ud_inner ud) rnd sdp_body (ud_session_expires ud) MIN_SE;
          ud1 = ud\<lparr>ud_inner := d\<rparr>
      in case uac_parse_cseq_number
                (case hdr_get (req_headers reinv) ''cseq'' of Some v \<Rightarrow> v | None \<Rightarrow> ''0 INVITE'') of
           Inl e \<Rightarrow> (Inl e, ud1, [])
         | Inr cseq \<Rightarrow>
             (let peer = ud_next_hop_socket ud1
              in case ly_send ly reinv peer of
                   Inl e \<Rightarrow> (Inl (UacTx e), ud1, [(reinv, peer)])
                 | Inr resp \<Rightarrow>
                     if is_2xx resp then
                       (let ack = build_ack_for_2xx d rnd_ack cseq
                        in case ly_post ly ack peer of
                             Some e \<Rightarrow> (Inl (UacTx e), ud1, [(reinv, peer), (ack, peer)])
                           | None \<Rightarrow>
                               (Inr resp, ud1\<lparr>ud_session_expires := updated_session_expires resp (ud_session_expires ud)\<rparr>,
                                [(reinv, peer), (ack, peer)]))
                     else (Inr resp, ud1, [(reinv, peer)])))"

section \<open>The requests\<close>

lemma normalize_uac [hdr_simps]:
  "normalize_header_name ''Proxy-Authorization'' = ''proxy-authorization''"
  "normalize_header_name ''proxy-authorization'' = ''proxy-authorization''"
  "normalize_header_name ''proxy-authenticate'' = ''proxy-authenticate''"
  "normalize_header_name ''session-expires'' = ''session-expires''"
  by (simp_all add: normalize_header_name_def compact_forms_def trim_def trim_start_id trim_end_id ws_eval char_eval)

lemma set_route_get [hdr_simps]: "normalize_header_name n \<noteq> ''route'' \<Longrightarrow> hdr_get (set_route r hs) n = hdr_get hs n"
  by (simp add: set_route_def hdr_simps split: option.splits)

lemma build_invite_get:
  "hdr_get (req_headers (ip_request (build_invite rl rnd u t sdp se))) ''via'' =
     Some (''SIP/2.0/UDP '' @ sent_by (ua_config u) @ '';rport;branch='' @ new_branch (ur_branch rnd))"
  "hdr_get (req_headers (ip_request (build_invite rl rnd u t sdp se))) ''from'' =
     Some ([DQ] @ ''Anonymous'' @ [DQ] @ '' <'' @ uc_local_uri (ua_config u) @ ''>;tag='' @ new_tag (ur_tag rnd))"
  "hdr_get (req_headers (ip_request (build_invite rl rnd u t sdp se))) ''to'' = Some (''<'' @ strip_port_from_sip_uri t @ ''>'')"
  "hdr_get (req_headers (ip_request (build_invite rl rnd u t sdp se))) ''call-id'' = Some (new_call_id (ur_call_id rnd))"
  "hdr_get (req_headers (ip_request (build_invite rl rnd u t sdp se))) ''cseq'' = Some (dec 1 @ '' INVITE'')"
  "req_method (ip_request (build_invite rl rnd u t sdp se)) = Invite"
  "req_uri (ip_request (build_invite rl rnd u t sdp se)) = t"
  by (simp_all add: build_invite_def Let_def hdr_simps request_new_def get_Nil split: option.splits)

lemma build_invite_frame [simp]:
  "ip_cseq (build_invite rl rnd u t sdp se) = 1" "ip_target_uri (build_invite rl rnd u t sdp se) = t"
  by (simp_all add: build_invite_def Let_def)

lemma cancel_get:
  "hdr_get (req_headers (build_cancel q c)) ''via'' = hdr_get (req_headers q) ''via''"
  "hdr_get (req_headers (build_cancel q c)) ''from'' = hdr_get (req_headers q) ''from''"
  "hdr_get (req_headers (build_cancel q c)) ''to'' = hdr_get (req_headers q) ''to''"
  "hdr_get (req_headers (build_cancel q c)) ''call-id'' = hdr_get (req_headers q) ''call-id''"
  "hdr_get (req_headers (build_cancel q c)) ''cseq'' = Some (dec (unat c) @ '' CANCEL'')"
  "hdr_get_all (req_headers (build_cancel q c)) ''route'' = hdr_get_all (req_headers q) ''route''"
  "req_method (build_cancel q c) = Cancel" "req_uri (build_cancel q c) = req_uri q"
  by (simp_all add: build_cancel_def Let_def hdr_simps request_new_def split: option.splits)

text \<open>The repeated INVITE is the first one with another branch, the next number and the answer.\<close>

lemma case_ok_Some: "(case r of Inl _ \<Rightarrow> None | Inr c \<Rightarrow> f c) = Some x \<longleftrightarrow> (\<exists>c. r = Inr c \<and> f c = Some x)"
  by (cases r) simp_all

lemma retry_planE:
  assumes "retry_plan md5 rnd rn u plan resp = Some plan2"
  obtains user pw h ch where "uc_auth_username (ua_config u) = Some user" "uc_auth_password (ua_config u) = Some pw"
    "hdr_get (resp_headers resp) (if resp_status resp = 401 then ''www-authenticate'' else ''proxy-authenticate'') = Some h"
    "challenge_parse h = Inr ch"
    "plan2 = \<lparr>ip_request = (ip_request plan)\<lparr>req_headers :=
        hdr_set (if resp_status resp = 401 then ''Authorization'' else ''Proxy-Authorization'')
          (dr_header_value (compute md5 rn \<lparr>cr_username = user, cr_password = pw\<rparr> ch ''INVITE'' (req_uri (ip_request plan)) 1))
          (hdr_set ''CSeq'' (dec (unat (sat_add (ip_cseq plan) 1)) @ '' INVITE'')
             (hdr_set ''Via'' (build_via_with_new_branch rnd (sent_by (ua_config u)) (ip_request plan)) (req_headers (ip_request plan))))\<rparr>,
        ip_cseq = sat_add (ip_cseq plan) 1, ip_target_uri = ip_target_uri plan, ip_session_expires = ip_session_expires plan\<rparr>"
  using assms by (auto simp: retry_plan_def Let_def bind_eq_Some_conv case_ok_Some split: if_splits)

lemma retry_plan_get:
  assumes "retry_plan md5 rnd rn u plan resp = Some plan2"
  shows "hdr_get (req_headers (ip_request plan2)) ''from'' = hdr_get (req_headers (ip_request plan)) ''from''"
    "hdr_get (req_headers (ip_request plan2)) ''to'' = hdr_get (req_headers (ip_request plan)) ''to''"
    "hdr_get (req_headers (ip_request plan2)) ''call-id'' = hdr_get (req_headers (ip_request plan)) ''call-id''"
    "hdr_get (req_headers (ip_request plan2)) ''cseq'' = Some (dec (unat (sat_add (ip_cseq plan) 1)) @ '' INVITE'')"
    "hdr_get (req_headers (ip_request plan2)) ''via'' = Some (build_via_with_new_branch rnd (sent_by (ua_config u)) (ip_request plan))"
    "req_method (ip_request plan2) = req_method (ip_request plan)" "req_uri (ip_request plan2) = req_uri (ip_request plan)"
    "req_body (ip_request plan2) = req_body (ip_request plan)" "ip_cseq plan2 = sat_add (ip_cseq plan) 1"
    "ip_target_uri plan2 = ip_target_uri plan" "ip_session_expires plan2 = ip_session_expires plan"
  using assms by (auto elim!: retry_planE simp: hdr_simps)

lemma cseq_words: "list_all graphic m \<Longrightarrow> m \<noteq> [] \<Longrightarrow> split_whitespace (dec n @ '' '' @ m) = [dec n, m]"
proof -
  assume "list_all graphic m" "m \<noteq> []"
  then have "list_all is_word [dec n, m]" using dec_graphic dec_digits graphic_word by simp
  from split_whitespace_join [OF this] show ?thesis by simp
qed

lemma cseq_read:
  assumes "list_all graphic m" "m \<noteq> []"
  shows "parse_cseq_number (dec (unat c) @ '' '' @ m) = Inr c" "uac_parse_cseq_number (dec (unat c) @ '' '' @ m) = Inr c"
proof -
  have "unat c < 2 ^ 32" using unsigned_less [of c] by simp
  then show "parse_cseq_number (dec (unat c) @ '' '' @ m) = Inr c" "uac_parse_cseq_number (dec (unat c) @ '' '' @ m) = Inr c"
    using cseq_words [OF assms] by (simp_all add: parse_cseq_number_def uac_parse_cseq_number_def parse_uint_dec)
qed

lemma method_words: "list_all graphic ''INVITE''" "list_all graphic ''CANCEL''" "list_all graphic ''ACK''" "list_all graphic ''BYE''"
  by (simp_all add: graphic_def octet_of_def)

lemma cseq_read_invite: "parse_cseq_number (dec (unat c) @ '' INVITE'') = Inr c" "uac_parse_cseq_number (dec (unat c) @ '' INVITE'') = Inr c"
  using cseq_read [of "''INVITE''" c] method_words by simp_all

lemma parse_tag_from:
  assumes "CHR '';'' \<notin> set uri"
  shows "parse_tag ([DQ] @ ''Anonymous'' @ [DQ] @ '' <'' @ uri @ ''>;tag='' @ new_tag r) = Some (new_tag r)"
proof -
  let ?a = "[DQ] @ ''Anonymous'' @ [DQ] @ '' <'' @ uri @ ''>''"
  have h: "list_all graphic (hex_fixed 8 (unat r))" "CHR '';'' \<notin> set (hex_fixed 8 (unat r))"
    using hex_fixed_graphic [of 8 "unat r"] by (auto simp only: list_all_iff)
  then have t: "list_all graphic (new_tag r)" "CHR '';'' \<notin> set (new_tag r)" by (simp_all add: new_tag_def)
  have "split_char CHR '';'' (?a @ CHR '';'' # ''tag='' @ new_tag r) = [?a, ''tag='' @ new_tag r]"
    by (subst split_char_append) (use assms t(2) in \<open>simp_all add: split_char_none\<close>)
  moreover have "trim (''tag='' @ new_tag r) = ''tag='' @ new_tag r"
    using t(1) by (intro trim_graphic) (simp add: graphic_def octet_of_def)
  ultimately show ?thesis by (simp add: parse_tag_def strip_prefix_def)
qed

section \<open>Calls\<close>

lemma from_uac_responseE:
  assumes "from_uac_response q resp cfg = Inr d" "is_2xx resp" "hdr_get (req_headers q) ''cseq'' = Some (dec (unat c) @ '' INVITE'')"
    and "hdr_get (req_headers q) ''from'' = Some f" "parse_tag f = Some tag"
  shows "hdr_get (req_headers q) ''call-id'' = Some (dlg_call_id (dlg_id d))" "dlg_local_tag (dlg_id d) = tag"
    "dlg_local_cseq d = c + 1" "dlg_state d = DlgConfirmed" "dlg_remote_uri d = cfg_remote_uri cfg"
  using assms by (auto simp: from_uac_response_def cseq_read_invite is_2xx_def state_of_status_def)

lemma ack_get:
  "hdr_get (req_headers (build_ack_for_2xx d r c)) ''cseq'' = Some (dec (unat c) @ '' ACK'')"
  "hdr_get (req_headers (build_ack_for_2xx d r c)) ''call-id'' = Some (dlg_call_id (dlg_id d))"
  "hdr_get (req_headers (build_ack_for_2xx d r c)) ''to'' = Some (''<'' @ dlg_remote_uri d @ ''>;tag='' @ dlg_remote_tag (dlg_id d))"
  "req_method (build_ack_for_2xx d r c) = Ack"
  by (simp_all add: build_ack_for_2xx_def fill_common_headers_get request_new_def split: prod.splits)

text \<open>What \<^verbatim>\<open>finalize_2xx\<close> gives for a plan that belongs to a call.\<close>

definition call_plan :: "uac \<Rightarrow> string \<Rightarrow> string \<Rightarrow> string \<Rightarrow> invite_plan \<Rightarrow> bool" where
  "call_plan u call_id tag target plan \<longleftrightarrow>
     hdr_get (req_headers (ip_request plan)) ''call-id'' = Some call_id
     \<and> (\<exists>f. hdr_get (req_headers (ip_request plan)) ''from'' = Some f \<and> parse_tag f = Some tag)
     \<and> hdr_get (req_headers (ip_request plan)) ''cseq'' = Some (dec (unat (ip_cseq plan)) @ '' INVITE'')
     \<and> req_method (ip_request plan) = Invite \<and> req_uri (ip_request plan) = target \<and> ip_target_uri plan = target"

lemma call_plan_build:
  assumes "CHR '';'' \<notin> set (uc_local_uri (ua_config u))"
  shows "call_plan u (new_call_id (ur_call_id rnd)) (new_tag (ur_tag rnd)) t (build_invite rl rnd u t sdp se)"
  using parse_tag_from [OF assms] by (simp add: call_plan_def build_invite_get)

lemma call_plan_retry:
  "call_plan u cid tag t plan \<Longrightarrow> retry_plan md5 rnd rn u plan resp = Some plan2 \<Longrightarrow> call_plan u cid tag t plan2"
  by (auto simp: call_plan_def retry_plan_get)

text \<open>An established call: the response is a 2xx to the request, the ACK carries the number of
  the request and goes to the next hop, and the dialog continues after that number.\<close>

definition call_established ::
  "sip_layer \<Rightarrow> string \<Rightarrow> string \<Rightarrow> string \<Rightarrow> 32 word \<Rightarrow> sip_request \<times> socket_addr \<Rightarrow> established_call \<Rightarrow> handed_requests \<Rightarrow> bool" where
  "call_established ly call_id tag target n qd call acks \<longleftrightarrow>
     ly_send ly (fst qd) (snd qd) = Inr (ec_response call) \<and> is_2xx (ec_response call)
     \<and> (\<exists>ack. acks = [(ack, ud_next_hop_socket (ec_dialog call))] \<and> req_method ack = Ack
          \<and> hdr_get (req_headers ack) ''cseq'' = Some (dec (unat n) @ '' ACK'')
          \<and> hdr_get (req_headers ack) ''call-id'' = Some call_id)
     \<and> (let d = ud_inner (ec_dialog call)
        in dlg_call_id (dlg_id d) = call_id \<and> dlg_local_tag (dlg_id d) = tag \<and> dlg_local_cseq d = n + 1
           \<and> dlg_state d = DlgConfirmed \<and> dlg_remote_uri d = target)"

lemma finalize_2xx_to_result:
  assumes "call_plan u cid tag t plan" "ly_send ly (ip_request plan) dest = Inr resp" "is_2xx resp"
    and "finalize_2xx_to ly rnd u plan dest resp = (res, out)"
  shows "case res of Inr (Established call) \<Rightarrow> call_established ly cid tag t (ip_cseq plan) (ip_request plan, dest) call out
    | Inr (InviteFailed r) \<Rightarrow> False | Inl e \<Rightarrow> length out \<le> 1"
proof -
  let ?cfg = "\<lparr>cfg_local_uri = uc_local_uri (ua_config u), cfg_remote_uri = ip_target_uri plan,
    cfg_local_contact = contact_uri (ua_config u), cfg_sent_by = sent_by (ua_config u)\<rparr>"
  obtain f where f: "hdr_get (req_headers (ip_request plan)) ''from'' = Some f" "parse_tag f = Some tag"
    using assms(1) by (auto simp: call_plan_def)
  have c: "hdr_get (req_headers (ip_request plan)) ''cseq'' = Some (dec (unat (ip_cseq plan)) @ '' INVITE'')"
    "hdr_get (req_headers (ip_request plan)) ''call-id'' = Some cid" "ip_target_uri plan = t"
    using assms(1) by (simp_all add: call_plan_def)
  show ?thesis
  proof (cases "from_uac_response (ip_request plan) resp ?cfg")
    case (Inl e)
    then show ?thesis using assms(4) by (auto simp: finalize_2xx_to_def)
  next
    case (Inr d)
    note d = from_uac_responseE [OF Inr assms(3) c(1) f]
    show ?thesis
    proof (cases "ly_post ly (build_ack_for_2xx d rnd (ip_cseq plan)) (resolve_next_hop_addr d dest)")
      case None
      then show ?thesis
        using assms(2-4) Inr d c
        by (auto simp: finalize_2xx_to_def Let_def call_established_def ack_get ud_next_hop_socket_def resolve_next_hop_addr_def)
    next
      case (Some e)
      then show ?thesis using assms(4) Inr by (auto simp: finalize_2xx_to_def Let_def)
    qed
  qed
qed

text \<open>The last INVITE of a call decides: its error, its refusal, or the end of the handshake.\<close>

definition last_leg :: "sip_layer \<Rightarrow> 64 word \<Rightarrow> uac \<Rightarrow> invite_plan \<Rightarrow> socket_addr \<Rightarrow> uac_error + invite_outcome \<Rightarrow> handed_requests \<Rightarrow> bool" where
  "last_leg ly rnd u plan dest res out \<longleftrightarrow>
     (case ly_send ly (ip_request plan) dest of
        Inl e \<Rightarrow> res = Inl (UacTx e) \<and> out = []
      | Inr resp \<Rightarrow> if is_2xx resp then finalize_2xx_to ly rnd u plan dest resp = (res, out)
                    else res = Inr (InviteFailed resp) \<and> out = [])"

lemma invite_legs:
  assumes "invite md5 ly (ra, rr, rn) u plan = (res, reqs)"
  obtains (single) out where "reqs = (ip_request plan, ua_server_addr u) # out" "last_leg ly ra u plan (ua_server_addr u) res out"
  | (retried) resp plan2 out where "ly_send ly (ip_request plan) (ua_server_addr u) = Inr resp" "resp_status resp \<in> {401, 407}"
      "retry_plan md5 rr rn u plan resp = Some plan2"
      "reqs = (ip_request plan, ua_server_addr u) # (ip_request plan2, ua_server_addr u) # out"
      "last_leg ly ra u plan2 (ua_server_addr u) res out"
proof (cases "ly_send ly (ip_request plan) (ua_server_addr u)")
  case (Inl e)
  then show ?thesis using assms single by (auto simp: invite_def last_leg_def)
next
  case (Inr resp)
  show ?thesis
  proof (cases "is_2xx resp \<or> resp_status resp \<notin> {401, 407} \<or> uc_auth_username (ua_config u) = None
      \<or> uc_auth_password (ua_config u) = None \<or> retry_plan md5 rr rn u plan resp = None")
    case True
    then show ?thesis
      using assms Inr single
      by (auto simp: invite_def last_leg_def retry_invite_with_auth_def finalize_2xx_def Let_def split: prod.splits if_splits)
  next
    case False
    then obtain plan2 where p: "retry_plan md5 rr rn u plan resp = Some plan2" by auto
    obtain out where ro: "last_leg ly ra u plan2 (ua_server_addr u) res out"
      "reqs = (ip_request plan, ua_server_addr u) # (ip_request plan2, ua_server_addr u) # out"
      using assms False Inr p
      by (auto simp: invite_def last_leg_def retry_invite_with_auth_def finalize_2xx_def Let_def split: prod.splits if_splits sum.splits)
    with False Inr p show ?thesis by (intro retried [of resp plan2 out]) auto
  qed
qed

lemma last_leg_result:
  assumes "last_leg ly rnd u plan dest res out" "call_plan u cid tag t plan"
  shows "case res of Inr (Established call) \<Rightarrow> call_established ly cid tag t (ip_cseq plan) (ip_request plan, dest) call out
    | Inr (InviteFailed resp) \<Rightarrow> out = [] \<and> ly_send ly (ip_request plan) dest = Inr resp \<and> \<not> is_2xx resp
    | Inl e \<Rightarrow> length out \<le> 1"
proof (cases "ly_send ly (ip_request plan) dest")
  case (Inl e)
  then show ?thesis using assms by (simp add: last_leg_def)
next
  case (Inr resp)
  show ?thesis
  proof (cases "is_2xx resp")
    case True
    then have "finalize_2xx_to ly rnd u plan dest resp = (res, out)" using assms(1) Inr by (simp add: last_leg_def)
    from finalize_2xx_to_result [OF assms(2) Inr True this] show ?thesis
      by (auto split: sum.splits invite_outcome.splits)
  next
    case False
    then show ?thesis using assms(1) Inr by (simp add: last_leg_def)
  qed
qed

definition same_call :: "sip_request \<Rightarrow> sip_request \<Rightarrow> bool" where
  "same_call q q' \<longleftrightarrow> req_method q' = req_method q \<and> req_uri q' = req_uri q \<and> req_body q' = req_body q
     \<and> hdr_get (req_headers q') ''call-id'' = hdr_get (req_headers q) ''call-id''
     \<and> hdr_get (req_headers q') ''from'' = hdr_get (req_headers q) ''from''
     \<and> hdr_get (req_headers q') ''to'' = hdr_get (req_headers q) ''to''"

lemma sat_add_one: "sat_add 1 1 = (2 :: 32 word)"
  by (simp add: sat_add_def)

section \<open>Properties\<close>


definition uac_ex :: uac where
  "uac_ex = \<lparr>ua_config = \<lparr>uc_local_uri = ''sip:0312@ntt'', uc_domain = ''ntt'', uc_local_addr = \<lparr>sa_ip = V4 192 0 2 1, sa_port = 5060\<rparr>,
     uc_user_agent = ''sabiden'', uc_auth_username = Some ''0312'', uc_auth_password = Some ''pw''\<rparr>, ua_server_addr = remote_ex\<rparr>"

definition plan_ex :: invite_plan where
  "plan_ex = build_invite (reg_client_new 1 2) \<lparr>ur_call_id = 3, ur_tag = 4, ur_branch = 5\<rparr> uac_ex ''sip:117@h:5060'' None None"

definition layer_ex :: sip_layer where
  "layer_ex = \<lparr>ly_send = (\<lambda>_ _. Inr response_ex), ly_post = (\<lambda>_ _. None)\<rparr>"

lemma plan_ex_local: "CHR '';'' \<notin> set (uc_local_uri (ua_config uac_ex))"
  by (simp add: uac_ex_def)

lemma dialog_made_ex: "\<exists>d. from_uac_response (ip_request plan_ex) response_ex cfg = Inr d"
  using parse_tag_from [OF plan_ex_local]
  by (simp add: from_uac_response_def plan_ex_def build_invite_get cseq_read_invite [of 1, simplified] response_ex_def hdr_get_def [of "(_, _) # _"] hdr_simps
      trim_ex parse_tag_def [of "''<sip:b>;tag=2''"] strip_prefix_def state_of_status_def)

lemma invite_ex_established: "\<exists>call acks. invite md5 layer_ex (6, 7, 8) uac_ex plan_ex = (Inr (Established call), acks)"
proof -
  have "is_2xx response_ex" by (simp add: is_2xx_def response_ex_def)
  then show ?thesis
    using dialog_made_ex [of "\<lparr>cfg_local_uri = uc_local_uri (ua_config uac_ex), cfg_remote_uri = ip_target_uri plan_ex,
        cfg_local_contact = contact_uri (ua_config uac_ex), cfg_sent_by = sent_by (ua_config uac_ex)\<rparr>"]
    by (auto simp: invite_def layer_ex_def finalize_2xx_def finalize_2xx_to_def Let_def)
qed


section \<open>CANCEL\<close>

lemma clients_dispatched:
  "tb_clients (run_steps table_step table_empty evs) i = Some q \<Longrightarrow> r \<in> set q \<Longrightarrow> Dispatch r \<in> set evs \<and> id_from_response r = Inr i"
proof (induction evs arbitrary: q rule: rev_induct)
  case Nil
  then show ?case by (simp add: table_empty_def)
next
  case (snoc e evs)
  let ?tb = "run_steps table_step table_empty evs"
  have IH: "tb_clients ?tb j = Some q' \<Longrightarrow> j = i \<Longrightarrow> r \<in> set q' \<Longrightarrow> Dispatch r \<in> set evs \<and> id_from_response r = Inr i" for q' j
    using snoc.IH by blast
  show ?case
  proof (cases e)
    case (Create req)
    then show ?thesis
      using snoc.prems IH by (auto simp: run_steps_append create_client_def Let_def split: sum.splits if_splits)
  next
    case (Dispatch resp)
    then show ?thesis
      using snoc.prems IH by (auto simp: run_steps_append dispatch_response_def Let_def split: sum.splits if_splits option.splits)
  next
    case (Drop j)
    then show ?thesis using snoc.prems IH by (auto simp: run_steps_append drop_client_def split: if_splits)
  qed
qed

lemma watch_provisional:
  assumes "provisional_watch (run_steps table_step table_empty evs) i = Some Provisional"
  shows "(\<exists>r. Dispatch r \<in> set evs \<and> id_from_response r = Inr i \<and> 100 \<le> resp_status r \<and> resp_status r < 200)
    \<and> (\<forall>q. tb_clients (run_steps table_step table_empty evs) i = Some q \<longrightarrow> list_all (\<lambda>r. resp_status r < 200) q)"
proof -
  have "table_inv (run_steps table_step table_empty evs)" by (rule tbl.run_inv) (rule table_inv_empty)
  then obtain q where q: "tb_clients (run_steps table_step table_empty evs) i = Some q" "progress_of q = Provisional"
    using assms by (auto simp: table_inv_def provisional_watch_def watch_of_def split: option.splits if_splits)
  then have "\<exists>r \<in> set q. 100 \<le> resp_status r \<and> resp_status r < 200" "list_all (\<lambda>r. resp_status r < 200) q"
    by (auto simp: progress_of_def list_ex_iff list_all_iff not_le split: if_splits)
  then show ?thesis using q(1) clients_dispatched [OF q(1)] by auto
qed

text \<open>The receiver after some events: an open one shows the progress in the table, a closed one
  belongs to an entry that is gone; a provisional value was caused by a provisional response.\<close>

fun rx_ok :: "transaction_id \<Rightarrow> table_event list \<Rightarrow> tx_table \<times> progress \<times> bool \<Rightarrow> bool" where
  "rx_ok i evs (tb, p, closed) \<longleftrightarrow>
     tb = run_steps table_step table_empty evs \<and> tx_method i = Invite
     \<and> (if closed then tb_clients tb i = None else provisional_watch tb i = Some p)
     \<and> (p = Provisional \<longrightarrow> (\<exists>r. Dispatch r \<in> set evs \<and> id_from_response r = Inr i \<and> 100 \<le> resp_status r \<and> resp_status r < 200))"

lemma clients_gone:
  assumes "tb_clients tb i = None" "\<And>req. e = Create req \<Longrightarrow> id_from_request req \<noteq> Inr i"
  shows "tb_clients (table_step tb e) i = None"
  using assms
  by (cases e) (auto simp: create_client_def dispatch_response_def drop_client_def Let_def split: sum.splits option.splits)

lemma rx_ok_step:
  assumes "rx_ok i evs st" "\<And>req. e = Create req \<Longrightarrow> id_from_request req \<noteq> Inr i"
  shows "rx_ok i (evs @ [e]) (rx_step i st e)"
proof -
  obtain tb p closed where st: "st = (tb, p, closed)" by (metis prod_cases3)
  let ?tb = "run_steps table_step table_empty (evs @ [e])"
  have tb: "table_step tb e = ?tb" using assms(1) st by (simp add: run_steps_append)
  have inv: "table_inv ?tb" by (rule tbl.run_inv) (rule table_inv_empty)
  have m: "tx_method i = Invite" using assms(1) st by simp
  have r: "\<not> (case e of Create req \<Rightarrow> id_from_request req = Inr i | _ \<Rightarrow> False)"
    using assms(2) by (auto split: table_event.splits)
  show ?thesis
  proof (cases "closed \<or> provisional_watch ?tb i = None")
    case True
    have "tb_clients ?tb i = None"
    proof (cases closed)
      case closed: True
      then have "tb_clients tb i = None" using assms(1) st by auto
      then show ?thesis using clients_gone [of tb i e] assms(2) tb by metis
    next
      case False
      with True have "tb_provisional ?tb i = None" by (simp add: provisional_watch_def)
      with inv m show ?thesis by (cases "tb_clients ?tb i") (auto simp: table_inv_def)
    qed
    then show ?thesis using True assms(1) st tb r m by (auto simp: Let_def)
  next
    case False
    then show ?thesis using watch_provisional [of "evs @ [e]" i] st tb r m by (auto simp: Let_def)
  qed
qed

lemma rx_ok_run:
  assumes "rx_ok i evs st" "\<And>req. Create req \<in> set es \<Longrightarrow> id_from_request req \<noteq> Inr i"
  shows "rx_ok i (evs @ es) (run_steps (rx_step i) st es)"
  using assms
proof (induction es arbitrary: evs st)
  case (Cons e es)
  then have "rx_ok i (evs @ [e]) (rx_step i st e)" by (intro rx_ok_step) simp_all
  from Cons.IH [OF this] Cons.prems(2) show ?case by simp
qed simp

text \<open>No new transaction takes the name of the INVITE.\<close>

definition not_renewed :: "transaction_id \<Rightarrow> (nat \<times> table_event list) list \<Rightarrow> bool" where
  "not_renewed i batches \<longleftrightarrow> list_all (\<lambda>e. case e of Create req \<Rightarrow> id_from_request req \<noteq> Inr i | _ \<Rightarrow> True) (concat (map snd batches))"

lemma not_renewed_Cons:
  "not_renewed i ((t, es) # batches) \<longleftrightarrow>
     list_all (\<lambda>e. case e of Create req \<Rightarrow> id_from_request req \<noteq> Inr i | _ \<Rightarrow> True) es \<and> not_renewed i batches"
  by (simp add: not_renewed_def)

lemma rx_ok_batch:
  assumes "rx_ok i evs st" "list_all (\<lambda>e. case e of Create req \<Rightarrow> id_from_request req \<noteq> Inr i | _ \<Rightarrow> True) es"
    and "run_steps (rx_step i) st es = st'"
  shows "rx_ok i (evs @ es) st'"
  unfolding assms(3) [symmetric] using assms(1) by (rule rx_ok_run) (use assms(2) in \<open>fastforce simp: list_all_iff\<close>)

lemma await_reached:
  assumes "rx_ok i evs st" "not_renewed i batches" "await_progress i st batches = Reached p"
  shows "\<exists>es rest tb closed. concat (map snd batches) = es @ rest \<and> rx_ok i (evs @ es) (tb, p, closed)"
  using assms
proof (induction i st batches arbitrary: evs rule: await_progress.induct)
  case (2 i st t es batches)
  obtain tb q closed where r: "run_steps (rx_step i) st es = (tb, q, closed)" by (metis prod_cases3)
  have nr: "not_renewed i batches" using 2(3) by (simp add: not_renewed_Cons)
  have ok: "rx_ok i (evs @ es) (tb, q, closed)" using 2(2) _ r by (rule rx_ok_batch) (use 2(3) in \<open>simp add: not_renewed_Cons\<close>)
  show ?case
  proof (cases "q = Pending")
    case True
    then have go: "await_progress i (tb, q, closed) batches = Reached p" "\<not> CANCEL_PROVISIONAL_WAIT \<le> t" "\<not> closed"
      using 2(4) r by (auto split: if_splits)
    have q: "\<not> q \<noteq> Pending" using True by simp
    from 2(1) [OF go(2) r [symmetric] refl q go(3) ok nr go(1)] obtain es' rest tb' closed' where
      "concat (map snd batches) = es' @ rest" "rx_ok i ((evs @ es) @ es') (tb', p, closed')" by blast
    then have "concat (map snd ((t, es) # batches)) = (es @ es') @ rest \<and> rx_ok i (evs @ (es @ es')) (tb', p, closed')"
      by (simp del: rx_ok.simps)
    then show ?thesis by blast
  next
    case False
    then have "q = p" using 2(4) r by (auto split: if_splits)
    with ok have "concat (map snd ((t, es) # batches)) = es @ concat (map snd batches) \<and> rx_ok i (evs @ es) (tb, p, closed)"
      by (simp del: rx_ok.simps)
    then show ?thesis by blast
  qed
qed simp


definition plan_id_ex :: transaction_id where
  "plan_id_ex = \<lparr>tx_branch = new_branch 5, tx_sent_by = socket_display \<lparr>sa_ip = V4 192 0 2 1, sa_port = 5060\<rparr>, tx_method = Invite\<rparr>"

lemma plan_ex_id: "id_from_request (ip_request plan_ex) = Inr plan_id_ex" "req_method (ip_request plan_ex) = Invite"
  using parse_via_built [OF socket_text]
  by (simp_all add: id_from_request_ok plan_id_ex_def plan_ex_def build_invite_get sent_by_def uac_ex_def)

definition ringing_ex :: sip_response where
  "ringing_ex = build_response_skeleton 0 (ip_request plan_ex) 180 ''Ringing''"

lemma ringing_ex_id: "id_from_response ringing_ex = Inr plan_id_ex" "resp_status ringing_ex = 180"
proof -
  have "split_whitespace (dec 1 @ '' '' @ ''INVITE'') = [dec 1, ''INVITE'']" using method_words by (intro cseq_words) simp_all
  then show "id_from_response ringing_ex = Inr plan_id_ex" "resp_status ringing_ex = 180"
    using parse_via_built [OF socket_text]
    by (simp_all add: ringing_ex_def id_from_response_def skeleton_get plan_ex_def build_invite_get method_from_str_def
        plan_id_ex_def sent_by_def uac_ex_def)
qed


text \<open>The plan the caller keeps is that of the first INVITE. Once a challenge was answered, the first
  transaction is final or gone, so the call cannot be cancelled any more, whatever the second
  INVITE is doing.\<close>

lemma cancel_lost_after_challenge:
  assumes "id_from_request (ip_request plan) = Inr i" "provisional_watch tb i \<in> {None, Some Final}"
  shows "cancel_pending ly tb batches u plan = (Inr CancelNotSent, [])"
  using assms by (auto simp: cancel_pending_def)

section \<open>Challenges\<close>

lemma hex_digit_inj: "a < 16 \<Longrightarrow> b < 16 \<Longrightarrow> hex_digit a = hex_digit b \<Longrightarrow> a = b"
proof -
  have "\<forall>a \<in> set [0..<16]. \<forall>b \<in> set [0..<16]. hex_digit a = hex_digit b \<longrightarrow> a = b" by code_simp
  then show "a < 16 \<Longrightarrow> b < 16 \<Longrightarrow> hex_digit a = hex_digit b \<Longrightarrow> a = b" by simp
qed

lemma hex_fixed_inj: "a < 16 ^ k \<Longrightarrow> b < 16 ^ k \<Longrightarrow> hex_fixed k a = hex_fixed k b \<Longrightarrow> a = b"
proof (induction k arbitrary: a b)
  case (Suc k)
  then have "a div 16 = b div 16" "a mod 16 = b mod 16"
    using hex_digit_inj [of "a mod 16" "b mod 16"] by (auto simp: less_mult_imp_div_less mult.commute)
  then show ?case by (metis div_mod_decomp)
qed simp

lemma new_branch_inj: "new_branch a = new_branch b \<longleftrightarrow> a = b"
proof -
  have "unat r < 16 ^ 16" for r :: "64 word" using unsigned_less [of r, where ?'a = nat] by simp
  then show ?thesis using hex_fixed_inj [of "unat a" 16 "unat b"] by (auto simp: new_branch_def word_unat_eq_iff)
qed

lemma find_str_append: "find_str p (a @ p @ b) \<noteq> None"
proof (induction a)
  case Nil
  have "starts_with p (p @ b)" by (simp add: starts_with_def)
  then show ?case by (cases "p @ b") (simp_all)
qed simp

lemma retry_via:
  "build_via_with_new_branch r (sent_by cfg) (ip_request (build_invite rl rnd u t sdp se)) =
     ''SIP/2.0/UDP '' @ sent_by cfg @ '';rport;branch='' @ new_branch r"
proof -
  have "find_str '';rport'' ((''SIP/2.0/UDP '' @ sent_by (ua_config u)) @ '';rport'' @ '';branch='' @ new_branch (ur_branch rnd)) \<noteq> None"
    by (rule find_str_append)
  then show ?thesis by (simp add: build_via_with_new_branch_def build_invite_get)
qed


definition challenge_ex :: sip_response where
  "challenge_ex = \<lparr>resp_status = 407, resp_reason = ''Proxy Authentication Required'',
     resp_headers = [(''proxy-authenticate'', build_proxy_authenticate ''ntt'' ''n1'' False None)], resp_body = []\<rparr>"

definition strict_layer_ex :: sip_layer where
  "strict_layer_ex = \<lparr>ly_send = (\<lambda>_ _. Inr challenge_ex), ly_post = (\<lambda>_ _. None)\<rparr>"


section \<open>An established call\<close>

text \<open>A call in use: what the other side of the call asks the client to send.\<close>

datatype ud_event = UdBye "64 word" | UdReinvite "64 word" "64 word" "string option"

fun ud_step :: "sip_layer \<Rightarrow> uac_dialog \<times> handed_requests \<Rightarrow> ud_event \<Rightarrow> uac_dialog \<times> handed_requests" where
  "ud_step ly (ud, sent) (UdBye r) = (let (_, ud', out) = send_bye ly r ud in (ud', sent @ out))"
| "ud_step ly (ud, sent) (UdReinvite r ra body) = (let (_, ud', out) = send_reinvite ly r ra body ud in (ud', sent @ out))"

text \<open>The requests that are not an ACK, and the pairs of a re-INVITE and its ACK.\<close>

definition numbered :: "handed_requests \<Rightarrow> sip_request list" where
  "numbered sent = filter (\<lambda>q. req_method q \<noteq> Ack) (map fst sent)"

definition acks_paired :: "sip_request list \<Rightarrow> bool" where
  "acks_paired qs \<longleftrightarrow>
     (\<forall>k < length qs. req_method (qs ! k) = Ack \<longrightarrow> 0 < k \<and> req_method (qs ! (k - 1)) = Invite
        \<and> (\<exists>c :: 32 word. hdr_get (req_headers (qs ! (k - 1))) ''cseq'' = Some (dec (unat c) @ '' INVITE'')
             \<and> hdr_get (req_headers (qs ! k)) ''cseq'' = Some (dec (unat c) @ '' ACK'')))"

lemma acks_paired_append:
  assumes "acks_paired xs" "acks_paired ys"
  shows "acks_paired (xs @ ys)"
  unfolding acks_paired_def
proof (intro allI impI)
  fix k
  assume k: "k < length (xs @ ys)" "req_method ((xs @ ys) ! k) = Ack"
  let ?P = "\<lambda>q a. req_method q = Invite \<and> (\<exists>c :: 32 word. hdr_get (req_headers q) ''cseq'' = Some (dec (unat c) @ '' INVITE'')
      \<and> hdr_get (req_headers a) ''cseq'' = Some (dec (unat c) @ '' ACK''))"
  show "0 < k \<and> ?P ((xs @ ys) ! (k - 1)) ((xs @ ys) ! k)"
  proof (cases "k < length xs")
    case True
    then have "0 < k \<and> ?P (xs ! (k - 1)) (xs ! k)" using assms(1) k by (simp add: acks_paired_def nth_append)
    moreover have "k - 1 < length xs" using True by simp
    ultimately show ?thesis using True by (simp add: nth_append)
  next
    case False
    then have "k - length xs < length ys" "req_method (ys ! (k - length xs)) = Ack" using k by (simp_all add: nth_append)
    then have "0 < k - length xs \<and> ?P (ys ! (k - length xs - 1)) (ys ! (k - length xs))"
      using assms(2) unfolding acks_paired_def by blast
    moreover have "\<not> k - 1 < length xs" "k - 1 - length xs = k - length xs - 1" using False calculation by auto
    ultimately show ?thesis using False by (simp add: nth_append)
  qed
qed

lemma acks_paired_simps:
  "acks_paired []" "req_method q \<noteq> Ack \<Longrightarrow> acks_paired [q]"
  "req_method q = Invite \<Longrightarrow> hdr_get (req_headers q) ''cseq'' = Some (dec (unat (c :: 32 word)) @ '' INVITE'') \<Longrightarrow>
     hdr_get (req_headers a) ''cseq'' = Some (dec (unat c) @ '' ACK'') \<Longrightarrow> acks_paired [q, a]"
  by (auto simp: acks_paired_def less_Suc_eq)

definition ud_inv :: "uac_dialog \<Rightarrow> uac_dialog \<times> handed_requests \<Rightarrow> bool" where
  "ud_inv ud0 st \<longleftrightarrow>
     (let (ud, sent) = st
      in dialog_inv (ud_inner ud0) (ud_inner ud, numbered sent) \<and> acks_paired (map fst sent)
         \<and> list_all (\<lambda>(q, dest). dest = ud_next_hop_socket ud0) sent \<and> ud_fallback_peer ud = ud_fallback_peer ud0)"

lemma next_hop_draw: "next_hop_socket (d\<lparr>dlg_state := s\<rparr>) f = next_hop_socket d f"
  "next_hop_socket (d\<lparr>dlg_local_cseq := c\<rparr>) f = next_hop_socket d f"
  by (simp_all add: next_hop_socket_def next_hop_uri_def cong: list.case_cong)

lemma build_methods:
  "req_method (fst (build_bye d r)) = Bye" "req_method (fst (build_reinvite d r body se mse)) = Invite"
  by (simp_all add: build_bye_def build_reinvite_def draw_cseq_def Let_def request_new_def split: prod.splits option.splits)

lemma dialog_inv_end: "dialog_inv d0 (d, sent) \<Longrightarrow> dialog_inv d0 (terminate d, sent)"
  using dialog_inv_step [of d0 "(d, sent)" Terminate] by simp

lemma numbered_append: "numbered (xs @ ys) = numbered xs @ numbered ys"
  by (simp add: numbered_def)

text \<open>Handing over one numbered request, with its ACK or without, keeps the invariant.\<close>

lemma ud_inv_send:
  assumes "ud_inv ud0 (ud, sent)" "in_dialog_request (ud_inner ud) (dlg_local_cseq (ud_inner ud)) q" "req_method q \<noteq> Ack"
    and "d' = (ud_inner ud)\<lparr>dlg_local_cseq := dlg_local_cseq (ud_inner ud) + 1\<rparr>" "peer = next_hop_socket d' (ud_fallback_peer ud)"
    and "out = [(q, peer)] \<or> (\<exists>a. out = [(q, peer), (a, peer)] \<and> req_method a = Ack \<and> acks_paired [q, a])"
    and "ud_inner ud' = d' \<or> ud_inner ud' = terminate d'" "ud_fallback_peer ud' = ud_fallback_peer ud"
  shows "ud_inv ud0 (ud', sent @ out)"
proof -
  have inv: "dialog_inv (ud_inner ud0) (ud_inner ud, numbered sent)" using assms(1) by (simp add: ud_inv_def)
  then obtain s where "ud_inner ud = (ud_inner ud0)\<lparr>dlg_local_cseq := dlg_local_cseq (ud_inner ud0) + of_nat (length (numbered sent)), dlg_state := s\<rparr>"
    by (auto simp: dialog_inv_def)
  then have peer: "peer = ud_next_hop_socket ud0"
    using assms(1,4,5) by (simp add: ud_inv_def ud_next_hop_socket_def next_hop_draw)
  have n: "numbered out = [q]" using assms(3,6) by (auto simp: numbered_def)
  have "acks_paired (map fst out)" using assms(3,6) acks_paired_simps(2) by auto
  moreover have "dialog_inv (ud_inner ud0) (ud_inner ud', numbered (sent @ out))"
    using dialog_inv_send [OF inv assms(2,4)] dialog_inv_end assms(7) n by (auto simp: numbered_append)
  ultimately show ?thesis using assms(1,6,8) peer by (auto simp: ud_inv_def acks_paired_append)
qed

lemma ud_inv_step: "ud_inv ud0 st \<Longrightarrow> ud_inv ud0 (ud_step ly st e)"
proof -
  assume inv: "ud_inv ud0 st"
  obtain ud sent where st: "st = (ud, sent)" by fastforce
  let ?d = "ud_inner ud"
  note send = ud_inv_send [OF inv [unfolded st]]
  show ?thesis
  proof (cases e)
    case (UdBye r)
    obtain res ud' out where b: "send_bye ly r ud = (res, ud', out)" by (metis prod_cases3)
    show ?thesis
      using send [OF in_dialog_build(1) [of ?d r] _ build_snd(1) [of ?d r], of _ out ud'] build_methods(1) [of ?d r] b UdBye
      by (auto simp: st send_bye_def split_beta Let_def ud_next_hop_socket_def split: sum.splits)
  next
    case (UdReinvite r ra body)
    let ?q = "fst (build_reinvite ?d r body (ud_session_expires ud) MIN_SE)"
    let ?d' = "snd (build_reinvite ?d r body (ud_session_expires ud) MIN_SE)"
    obtain res ud' out where b: "send_reinvite ly r ra body ud = (res, ud', out)" by (metis prod_cases3)
    note q = in_dialog_build(3) [of ?d r body "ud_session_expires ud" MIN_SE]
    have m: "req_method ?q = Invite" by (rule build_methods)
    then have c: "hdr_get (req_headers ?q) ''cseq'' = Some (dec (unat (dlg_local_cseq ?d)) @ '' INVITE'')"
      using q by (simp add: in_dialog_request_def)
    have a: "acks_paired [?q, build_ack_for_2xx ?d' ra (dlg_local_cseq ?d)]" using m c ack_get(1) by (rule acks_paired_simps(3))
    have "ud_inv ud0 (ud', sent @ out)"
      using b m c a ack_get(4) cseq_read_invite(2)
      by (intro send [OF q _ build_snd(3)])
        (auto simp: send_reinvite_def split_beta Let_def ud_next_hop_socket_def split: sum.splits if_splits option.splits)
    then show ?thesis using b UdReinvite by (simp add: st)
  qed
qed

interpretation uds: inv_machine "ud_step ly" "ud_inv ud0" for ly ud0
  by unfold_locales (rule ud_inv_step)

text \<open>C20. A call in use, whatever the other side answers: re-INVITEs and BYEs carry consecutive numbers from the counter of
  the dialog, each in the dialog; every ACK follows a re-INVITE directly and repeats its number; all of them go to the
  same next hop, and the counter ends behind the last number.\<close>

theorem call_session_numbered:
  "case run_steps (ud_step ly) (ud0, []) evs of (ud, sent) \<Rightarrow>
     let d0 = ud_inner ud0; qs = numbered sent
     in dlg_local_cseq (ud_inner ud) = dlg_local_cseq d0 + of_nat (length qs)
        \<and> map (\<lambda>q. hdr_get (req_headers q) ''cseq'') qs =
            map (\<lambda>(i, q). Some (dec (unat (dlg_local_cseq d0 + of_nat i)) @ '' '' @ method_as_str (req_method q))) (enumerate 0 qs)
        \<and> list_all (\<lambda>q. hdr_get (req_headers q) ''call-id'' = Some (dlg_call_id (dlg_id d0))
             \<and> hdr_get (req_headers q) ''from'' = Some (''<'' @ dlg_local_uri d0 @ ''>;tag='' @ dlg_local_tag (dlg_id d0))
             \<and> hdr_get (req_headers q) ''to'' = Some (''<'' @ dlg_remote_uri d0 @ ''>;tag='' @ dlg_remote_tag (dlg_id d0))) qs
        \<and> acks_paired (map fst sent)
        \<and> list_all (\<lambda>(q, dest). dest = ud_next_hop_socket ud0) sent"
proof (cases "run_steps (ud_step ly) (ud0, []) evs")
  case (Pair ud sent)
  have "ud_inv ud0 (ud0, [])" by (simp add: ud_inv_def numbered_def dialog_inv_start acks_paired_simps(1))
  from uds.run_inv [OF this, of ly evs] Pair have inv: "ud_inv ud0 (ud, sent)" by simp
  then have "dialog_inv (ud_inner ud0) (ud_inner ud, numbered sent)" by (simp add: ud_inv_def)
  from dialog_inv_numbers [OF this] inv Pair show ?thesis by (simp add: ud_inv_def Let_def)
qed

section \<open>The remote URI of a call\<close>

text \<open>The To field of the INVITE has no port, but the dialog keeps the target with its port, so
  the ACK and all later requests of the call name another URI in To than the INVITE did.\<close>

lemma strip_port:
  assumes "CHR ''@'' \<notin> set user" "CHR '':'' \<notin> set host" "CHR '';'' \<notin> set host" "CHR '';'' \<notin> set port"
    and "params = [] \<or> hd params = CHR '';''"
  shows "strip_port_from_sip_uri (user @ ''@'' @ host @ '':'' @ port @ params) = user @ ''@'' @ host @ params"
proof -
  have at: "split_once CHR ''@'' (user @ CHR ''@'' # host @ CHR '':'' # port @ params) = Some (user, host @ CHR '':'' # port @ params)"
    using assms(1) by (rule split_once_append)
  have hd_split: "hd (split_char CHR '':'' (host @ CHR '':'' # port)) = host" using assms(2) by (simp add: split_char_append)
  show ?thesis
  proof (cases params)
    case Nil
    have "split_once CHR '';'' (host @ CHR '':'' # port) = None"
      using assms(3,4) by (simp add: split_once_None)
    with at hd_split show ?thesis by (simp add: strip_port_from_sip_uri_def Nil)
  next
    case (Cons c ps)
    then have "params = CHR '';'' # ps" using assms(5) by simp
    moreover have "split_once CHR '';'' ((host @ CHR '':'' # port) @ CHR '';'' # ps) = Some (host @ CHR '':'' # port, ps)"
      using assms(3,4) by (intro split_once_append) simp
    ultimately show ?thesis using at hd_split by (simp add: strip_port_from_sip_uri_def)
  qed
qed

lemma ack_to_differs:
  assumes "finalize_2xx ly rnd u (build_invite rl r u ''sip:117@h:5060'' sdp se) resp = (Inr (Established call), [(ack, dest)])"
  shows "hdr_get (req_headers (ip_request (build_invite rl r u ''sip:117@h:5060'' sdp se))) ''to'' = Some ''<sip:117@h>''
    \<and> (\<exists>tag. hdr_get (req_headers ack) ''to'' = Some (''<sip:117@h:5060>;tag='' @ tag))"
proof -
  obtain d where d: "from_uac_response (ip_request (build_invite rl r u ''sip:117@h:5060'' sdp se)) resp
      \<lparr>cfg_local_uri = uc_local_uri (ua_config u), cfg_remote_uri = ''sip:117@h:5060'',
       cfg_local_contact = contact_uri (ua_config u), cfg_sent_by = sent_by (ua_config u)\<rparr> = Inr d"
    and a: "ack = build_ack_for_2xx d rnd 1"
    using assms by (auto simp: finalize_2xx_def finalize_2xx_to_def Let_def split: sum.splits option.splits)
  have "dlg_remote_uri d = ''sip:117@h:5060''" using d by (auto simp: from_uac_response_def)
  then show ?thesis
    using strip_port [of "''sip:117''" "''h''" "''5060''" "[]"] by (auto simp: build_invite_get a ack_get)
qed

end
