(* ===== verification/Codec_Pipeline.thy ===== *)
theory Codec_Pipeline
  imports Dtmf Sdp_Bytes
begin

text \<open>
  The choice between relaying and transcoding (\<^verbatim>\<open>call/codec_pipeline.rs\<close>, and
  \<^verbatim>\<open>find_opus_payload_type\<close> of \<^verbatim>\<open>call/transcoder.rs\<close>): the codec of a leg is found by
  scanning the lines of its session description as text. The fact: on every description the
  program writes, the scan finds what the description says.
\<close>

section \<open>Definitions\<close>

datatype leg_codec = LegPcmu | LegOpus nat | LegUnknown

datatype media_plan = Relay | Transcode nat

text \<open>The payload type and the codec name on an rtpmap line.\<close>

definition rtpmap_line :: "string \<Rightarrow> (string \<times> string) option" where
  "rtpmap_line line =
     Option.bind (strip_prefix ''a=rtpmap:'' line) (\<lambda>rest.
       map_option (\<lambda>(pt, codec_part). (pt, hd (split_char CHR ''/'' codec_part))) (split_once SP rest))"

fun opus_scan :: "string list \<Rightarrow> nat option" where
  "opus_scan [] = None"
| "opus_scan (l # ls) =
     (case rtpmap_line (trim l) of
        Some (pt_str, codec) \<Rightarrow>
          if lower codec = ''opus''
          then (case parse_uint 8 pt_str of Some pt \<Rightarrow> Some pt | None \<Rightarrow> opus_scan ls)
          else opus_scan ls
      | None \<Rightarrow> opus_scan ls)"

definition find_opus_payload_type :: "string \<Rightarrow> nat option" where
  "find_opus_payload_type sdp_bytes = (if valid_utf8 sdp_bytes then opus_scan (str_lines sdp_bytes) else None)"

fun pcmu_scan :: "bool \<Rightarrow> string list \<Rightarrow> bool" where
  "pcmu_scan in_audio_media [] = False"
| "pcmu_scan in_audio_media (l # ls) =
     (case strip_prefix ''m='' (trim l) of
        Some rest \<Rightarrow>
          (let audio = starts_with ''audio '' rest; parts = split_whitespace rest
           in if audio \<and> 4 \<le> length parts \<and> ''0'' \<in> set (drop 3 parts) then True else pcmu_scan audio ls)
      | None \<Rightarrow>
          if in_audio_media
             \<and> (case rtpmap_line (trim l) of Some (_, codec) \<Rightarrow> upper codec = ''PCMU'' | None \<Rightarrow> False)
          then True else pcmu_scan in_audio_media ls)"

definition sdp_has_pcmu :: "string \<Rightarrow> bool" where
  "sdp_has_pcmu sdp_bytes \<longleftrightarrow> valid_utf8 sdp_bytes \<and> pcmu_scan False (str_lines sdp_bytes)"

definition detect :: "string \<Rightarrow> leg_codec" where
  "detect sdp_bytes =
     (case find_opus_payload_type sdp_bytes of
        Some pt \<Rightarrow> LegOpus pt
      | None \<Rightarrow> if sdp_has_pcmu sdp_bytes then LegPcmu else LegUnknown)"

definition select_media_plan :: "string \<Rightarrow> string \<Rightarrow> media_plan" where
  "select_media_plan ngn_sdp ext_sdp =
     (case (detect ngn_sdp, detect ext_sdp) of
        (LegPcmu, LegPcmu) \<Rightarrow> Relay
      | (LegPcmu, LegOpus pt) \<Rightarrow> Transcode pt
      | (LegOpus _, _) \<Rightarrow> Relay
      | (LegPcmu, LegUnknown) \<Rightarrow> Relay
      | (LegUnknown, _) \<Rightarrow> Relay)"

section \<open>What a description says\<close>

fun attr_codec :: "sdp_attribute \<Rightarrow> (string \<times> string) option" where
  "attr_codec (Attr k v) =
     (if k = ''rtpmap''
      then map_option (\<lambda>(pt, codec_part). (pt, hd (split_char CHR ''/'' codec_part))) (split_once SP v) else None)"
| "attr_codec (Property k) = None"

definition attr_opus :: "sdp_attribute \<Rightarrow> nat option" where
  "attr_opus a = Option.bind (attr_codec a) (\<lambda>(pt, codec). if lower codec = ''opus'' then parse_uint 8 pt else None)"

definition attr_pcmu :: "sdp_attribute \<Rightarrow> bool" where
  "attr_pcmu a \<longleftrightarrow> (case attr_codec a of Some (_, codec) \<Rightarrow> upper codec = ''PCMU'' | None \<Rightarrow> False)"

fun first_some :: "('a \<Rightarrow> 'b option) \<Rightarrow> 'a list \<Rightarrow> 'b option" where
  "first_some f [] = None"
| "first_some f (x # xs) = (case f x of Some y \<Rightarrow> Some y | None \<Rightarrow> first_some f xs)"

definition all_attributes :: "session_description \<Rightarrow> sdp_attribute list" where
  "all_attributes s = sd_attributes s @ concat (map md_attributes (sd_media s))"

definition media_has_pcmu :: "media_description \<Rightarrow> bool" where
  "media_has_pcmu m \<longleftrightarrow> is_audio m \<and> (''0'' \<in> set (md_formats m) \<or> list_ex attr_pcmu (md_attributes m))"

definition described_codec :: "session_description \<Rightarrow> leg_codec" where
  "described_codec s =
     (case first_some attr_opus (all_attributes s) of
        Some pt \<Rightarrow> LegOpus pt
      | None \<Rightarrow> if list_ex media_has_pcmu (sd_media s) then LegPcmu else LegUnknown)"

section \<open>Scanning what was written\<close>

lemma str_lines_written: "\<forall>l \<in> set ls. LF \<notin> set l \<Longrightarrow> str_lines (concat (map (\<lambda>l. l @ crlf) ls)) = ls"
proof (induction ls)
  case (Cons l ls)
  then show ?case using str_lines_crlf [of l "concat (map (\<lambda>l. l @ crlf) ls)"] by simp
qed (simp add: str_lines_def)

lemma rtpmap_line_attr: "wf_attr a \<Longrightarrow> rtpmap_line (''a='' @ format_attr a) = attr_codec a"
proof -
  assume w: "wf_attr a"
  have s: "strip_prefix ''a=rtpmap:'' (''a='' @ x) = strip_prefix (''rtpmap'' @ [CHR '':'']) x" for x by (simp add: strip_prefix_def)
  show ?thesis
  proof (cases a)
    case (Property k)
    then have "CHR '':'' \<notin> set k" using w by (simp add: wf_attr_def)
    then have "strip_prefix (''rtpmap'' @ [CHR '':'']) k \<noteq> Some r" for r unfolding strip_prefix_Some by auto
    then have "strip_prefix (''rtpmap'' @ [CHR '':'']) k = None" by blast
    then show ?thesis unfolding rtpmap_line_def Property format_attr.simps s by simp
  next
    case (Attr k v)
    have k: "CHR '':'' \<notin> set k" using w Attr by (simp add: wf_attr_def)
    have "strip_prefix (''rtpmap'' @ [CHR '':'']) (k @ '':'' @ v) = (if k = ''rtpmap'' then Some v else None)"
    proof (cases "strip_prefix (''rtpmap'' @ [CHR '':'']) (k @ '':'' @ v)")
      case (Some r)
      then have e: "k @ CHR '':'' # v = ''rtpmap'' @ CHR '':'' # r" unfolding strip_prefix_Some by simp
      have "split_once CHR '':'' (k @ CHR '':'' # v) = Some (k, v)" using k by (rule split_once_append)
      moreover have "split_once CHR '':'' (''rtpmap'' @ CHR '':'' # r) = Some (''rtpmap'', r)" by (rule split_once_append) simp
      ultimately show ?thesis using Some unfolding e by simp
    next
      case None
      then show ?thesis using strip_prefix_append [of "''rtpmap'' @ [CHR '':'']" v] by auto
    qed
    then show ?thesis unfolding rtpmap_line_def Attr format_attr.simps s by simp
  qed
qed

lemma no_rtpmap_line: "c \<noteq> CHR ''a'' \<Longrightarrow> rtpmap_line (c # v) = None"
  by (simp add: rtpmap_line_def strip_prefix_def)

lemma opus_scan_first: "opus_scan ls = first_some (\<lambda>l. Option.bind (rtpmap_line (trim l)) (\<lambda>(pt, codec). if lower codec = ''opus'' then parse_uint 8 pt else None)) ls"
  by (induction ls) (auto split: option.splits)

lemma first_some_append: "first_some f (xs @ ys) = (case first_some f xs of Some y \<Rightarrow> Some y | None \<Rightarrow> first_some f ys)"
  by (induction xs) (auto split: option.splits)

lemma first_some_none: "\<forall>x \<in> set xs. f x = None \<Longrightarrow> first_some f xs = None"
  by (induction xs) auto

text \<open>No line of the description has blanks at its ends.\<close>

definition trimmed_lines :: "string list \<Rightarrow> bool" where
  "trimmed_lines ls \<longleftrightarrow> list_all (\<lambda>l. trim l = l) ls"

definition line_opus :: "string \<Rightarrow> nat option" where
  "line_opus l = Option.bind (rtpmap_line l) (\<lambda>(pt, codec). if lower codec = ''opus'' then parse_uint 8 pt else None)"

lemma opus_scan_trimmed: "trimmed_lines ls \<Longrightarrow> opus_scan ls = first_some line_opus ls"
  unfolding opus_scan_first line_opus_def by (induction ls) (simp_all add: trimmed_lines_def split: option.splits)

lemma line_opus_other: "c \<noteq> CHR ''a'' \<Longrightarrow> line_opus (c # v) = None"
  by (simp add: line_opus_def no_rtpmap_line)

lemma line_opus_attrs: "list_all wf_attr as \<Longrightarrow> first_some line_opus (attr_lines as) = first_some attr_opus as"
proof (induction as)
  case (Cons a as)
  then have "line_opus (''a='' @ format_attr a) = attr_opus a" by (simp only: line_opus_def attr_opus_def rtpmap_line_attr list.pred_inject)
  then show ?case using Cons by (simp add: attr_lines_def split: option.splits)
qed (simp add: attr_lines_def)

lemma line_opus_conn: "first_some line_opus (connection_lines c) = None"
  by (cases c) (simp_all add: connection_lines_def line_opus_other)

lemma line_opus_media:
  "list_all wf_media ms \<Longrightarrow> first_some line_opus (concat (map media_lines ms)) = first_some attr_opus (concat (map md_attributes ms))"
  by (induction ms)
    (simp_all add: media_lines_def first_some_append line_opus_conn line_opus_other line_opus_attrs wf_media_def split: option.splits)

lemma opus_described:
  assumes "wf_sdp s" "trimmed_lines (serialize_lines s)"
  shows "opus_scan (serialize_lines s) = first_some attr_opus (all_attributes s)"
proof -
  have "first_some line_opus (serialize_lines s) = first_some attr_opus (all_attributes s)"
    using assms(1) unfolding all_attributes_def serialize_lines_def
    by (simp add: first_some_append line_opus_conn line_opus_other line_opus_attrs line_opus_media wf_sdp_def split: option.splits)
  then show ?thesis using opus_scan_trimmed [OF assms(2)] by simp
qed

text \<open>The scan for PCMU, section by section.\<close>

lemma pcmu_scan_other: "trim l = l \<Longrightarrow> strip_prefix ''m='' l = None \<Longrightarrow> rtpmap_line l = None \<Longrightarrow> pcmu_scan b (l # ls) = pcmu_scan b ls"
  by simp

lemma pcmu_scan_conn:
  assumes "trimmed_lines (connection_lines c)"
  shows "pcmu_scan b (connection_lines c @ ls) = pcmu_scan b ls"
proof (cases c)
  case (Some a)
  have "strip_prefix ''m='' (''c='' @ format_connection a) = None" "rtpmap_line (''c='' @ format_connection a) = None"
    by (simp_all add: strip_prefix_def no_rtpmap_line)
  then show ?thesis using assms Some by (simp only: connection_lines_def trimmed_lines_def option.case append.simps list.pred_inject pcmu_scan_other)
qed (simp add: connection_lines_def)

lemma pcmu_scan_attrs:
  "trimmed_lines (attr_lines as) \<Longrightarrow> list_all wf_attr as \<Longrightarrow> pcmu_scan b (attr_lines as @ ls) = (b \<and> list_ex attr_pcmu as \<or> pcmu_scan b ls)"
proof (induction as)
  case (Cons a as)
  then have "trim (''a='' @ format_attr a) = ''a='' @ format_attr a" "rtpmap_line (''a='' @ format_attr a) = attr_codec a"
    "trimmed_lines (attr_lines as)" "list_all wf_attr as"
    by (simp_all add: attr_lines_def trimmed_lines_def rtpmap_line_attr [simplified])
  moreover have "strip_prefix ''m='' (''a='' @ format_attr a) = None" by (simp add: strip_prefix_def)
  ultimately have "pcmu_scan b ((''a='' @ format_attr a) # attr_lines as @ ls) = (b \<and> attr_pcmu a \<or> pcmu_scan b (attr_lines as @ ls))"
    unfolding pcmu_scan.simps attr_pcmu_def by (auto split: option.splits)
  then show ?case using Cons.IH \<open>trimmed_lines (attr_lines as)\<close> \<open>list_all wf_attr as\<close> by (auto simp: attr_lines_def)
qed (simp add: attr_lines_def)

lemma word_no_SP: "is_word w \<Longrightarrow> SP \<notin> set w"
proof -
  have "take_word w = w \<Longrightarrow> SP \<notin> set w" for w
  proof (induction w)
    case (Cons c w)
    then have "ws_at (c # w) = 0" "take_word w = w" by (auto split: if_splits)
    moreover have "ws_at (SP # w) \<noteq> 0" by (simp add: ws_at_def ws1_def octet_blank)
    ultimately show ?case using Cons.IH by auto
  qed simp
  then show "is_word w \<Longrightarrow> SP \<notin> set w" by (simp add: is_word_def)
qed

lemma format_media_words:
  assumes "wf_media m"
  shows "split_whitespace (format_media m) = [md_media m, dec (md_port m), md_protocol m] @ md_formats m"
    and "starts_with ''audio '' (format_media m) = is_audio m"
proof -
  have "format_media m = join [SP] ([md_media m, dec (md_port m), md_protocol m] @ md_formats m)"
    by (subst join_concat) (simp_all add: format_media_def)
  moreover have "list_all is_word ([md_media m, dec (md_port m), md_protocol m] @ md_formats m)"
    using assms by (simp add: wf_media_def dec_word)
  ultimately show "split_whitespace (format_media m) = [md_media m, dec (md_port m), md_protocol m] @ md_formats m"
    using split_whitespace_join by metis
  let ?t = "dec (md_port m) @ '' '' @ md_protocol m @ concat (map (\<lambda>f. SP # f) (md_formats m))"
  have f: "format_media m = md_media m @ SP # ?t" by (simp add: format_media_def)
  have sp: "SP \<notin> set (md_media m)" using assms word_no_SP by (simp add: wf_media_def)
  show "starts_with ''audio '' (format_media m) = is_audio m"
  proof
    assume "starts_with ''audio '' (format_media m)"
    then obtain r where r: "format_media m = ''audio'' @ SP # r"
      unfolding starts_with_def by (metis append_Cons append_Nil append_take_drop_id)
    have "split_once SP (md_media m @ SP # ?t) = Some (md_media m, ?t)" using sp by (rule split_once_append)
    moreover have "split_once SP (''audio'' @ SP # r) = Some (''audio'', r)" by (rule split_once_append) simp
    moreover have "md_media m @ SP # ?t = ''audio'' @ SP # r" using f r by metis
    ultimately show "is_audio m" unfolding is_audio_def by (metis option.inject prod.inject)
  qed (simp add: f is_audio_def starts_with_def)
qed

lemma pcmu_scan_media:
  assumes "list_all wf_media ms" "trimmed_lines (concat (map media_lines ms))"
  shows "pcmu_scan b (concat (map media_lines ms)) = list_ex media_has_pcmu ms"
  using assms
proof (induction ms arbitrary: b)
  case (Cons m ms)
  then have w: "wf_media m" "list_all wf_attr (md_attributes m)" by (simp_all add: wf_media_def)
  have t: "trim (''m='' @ format_media m) = ''m='' @ format_media m" "trimmed_lines (connection_lines (md_connection m))"
    "trimmed_lines (attr_lines (md_attributes m))" "trimmed_lines (concat (map media_lines ms))"
    using Cons.prems(2) by (simp_all add: media_lines_def [of m] trimmed_lines_def)
  let ?rest = "connection_lines (md_connection m) @ attr_lines (md_attributes m) @ concat (map media_lines ms)"
  have p: "strip_prefix ''m='' (''m='' @ format_media m) = Some (format_media m)" by (simp add: strip_prefix_def)
  have "pcmu_scan b ((''m='' @ format_media m) # ?rest) = (if is_audio m \<and> ''0'' \<in> set (md_formats m) then True else pcmu_scan (is_audio m) ?rest)"
    using w(1) unfolding pcmu_scan.simps t(1) p option.case Let_def format_media_words [OF w(1)]
    by (auto simp: wf_media_def Suc_le_eq)
  also have "pcmu_scan (is_audio m) ?rest = (is_audio m \<and> list_ex attr_pcmu (md_attributes m) \<or> list_ex media_has_pcmu ms)"
    using Cons.IH [of "is_audio m"] Cons.prems(1) t(4) by (simp add: pcmu_scan_conn [OF t(2)] pcmu_scan_attrs [OF t(3) w(2)])
  finally show ?case by (simp add: media_lines_def [of m] media_has_pcmu_def [of m] del: pcmu_scan.simps) blast
qed simp

lemma pcmu_described:
  assumes "wf_sdp s" "trimmed_lines (serialize_lines s)"
  shows "pcmu_scan False (serialize_lines s) = list_ex media_has_pcmu (sd_media s)"
proof -
  have w: "list_all wf_attr (sd_attributes s)" "list_all wf_media (sd_media s)" using assms(1) by (simp_all add: wf_sdp_def)
  have t: "trimmed_lines (connection_lines (sd_connection s))" "trimmed_lines (attr_lines (sd_attributes s))"
    "trimmed_lines (concat (map media_lines (sd_media s)))"
    using assms(2) by (simp_all add: serialize_lines_def trimmed_lines_def)
  have h: "pcmu_scan False ((c # v) # ls) = pcmu_scan False ls" if "trim (c # v) = c # v" "c \<noteq> CHR ''m''" for c v ls
    using that by (simp add: strip_prefix_def)
  have l: "trim (''v='' @ dec (sd_version s)) = ''v='' @ dec (sd_version s)"
    "trim (''o='' @ format_origin (sd_origin s)) = ''o='' @ format_origin (sd_origin s)"
    "trim (''s='' @ sd_session_name s) = ''s='' @ sd_session_name s" "trim (''t='' @ format_timing (sd_timing s)) = ''t='' @ format_timing (sd_timing s)"
    using assms(2) by (simp_all add: serialize_lines_def trimmed_lines_def)
  show ?thesis
    unfolding serialize_lines_def using l
    by (simp add: h pcmu_scan_conn [OF t(1)] pcmu_scan_attrs [OF t(2) w(1)] pcmu_scan_media [OF w(2) t(3)] del: pcmu_scan.simps)
qed

section \<open>Properties\<close>


definition opus_sdp_ex :: session_description where
  "opus_sdp_ex = sdp_ex\<lparr>sd_media := [\<lparr>md_media = ''audio'', md_port = 30000, md_protocol = ''RTP/AVP'', md_formats = [''111''],
     md_connection = None, md_attributes = [Attr ''rtpmap'' ''111 OPUS/48000/2'']\<rparr>]\<rparr>"

lemma good_opus_sdp_ex: "good_sdp opus_sdp_ex"
proof -
  have w: "is_word ''audio''" "is_word ''RTP/AVP''" "is_word ''111''"
    by (intro graphic_word; simp add: graphic_def octet_of_def)+
  have "validate_proto ''RTP/AVP'' = Inr ''RTP/AVP''" by (simp add: validate_proto_def is_rfc4566_token_char_def octet_of_def)
  with w show ?thesis
    using good_sdp_ex unfolding good_sdp_def wf_sdp_def
    by (simp add: opus_sdp_ex_def good_media_def wf_media_def wf_attr_def good_attr_def sdp_text_def valid_utf8_ascii octet_of_def)
qed

lemma trimmed_ex: "trimmed_lines (serialize_lines sdp_ex)" "trimmed_lines (serialize_lines opus_sdp_ex)"
proof -
  have ip: "ip_display ip \<noteq> []" "graphic (List.last (ip_display ip))" if "wf_ip ip" for ip
    using ip_graphic(1) [of ip] ip_word [OF that] by (auto simp: list_all_iff is_word_def)
  have d: "dec n \<noteq> []" "graphic (List.last (dec n))" for n
    using dec_graphic [of n] dec_digits [of n] by (auto simp: list_all_iff)
  have g: "trim (c # CHR ''='' # v) = c # CHR ''='' # v" if "graphic c" "v \<noteq> []" "graphic (List.last v)" for c v
    using that by (intro trim_ends) auto
  have x: "wf_ip (V6 [0x2001, 0, 0, 0, 0, 0, 0, 1])" "wf_ip (V4 192 0 2 1)" by simp_all
  show "trimmed_lines (serialize_lines sdp_ex)" "trimmed_lines (serialize_lines opus_sdp_ex)"
    using ip [OF x(1)] ip [OF x(2)] d
    by (simp_all add: trimmed_lines_def serialize_lines_def opus_sdp_ex_def sdp_ex_def format_origin_def format_timing_def connection_lines_def
        format_connection_def media_lines_def format_media_def attr_lines_def g graphic_def octet_of_def del: ip_display.simps)
qed


end
