(* ===== verification/Http_Date.thy ===== *)
theory Http_Date
  imports Rust_Str
begin

text \<open>
  The Date header of responses (\<^verbatim>\<open>format_http_date\<close> of \<^verbatim>\<open>call/orchestrator.rs\<close>): the calendar
  date and the time of day of a number of seconds since the start of 1970, by closed formulas.
  The fact: the formulas agree with the calendar counted day by day.
\<close>

section \<open>Definitions\<close>

definition zero_pad :: "nat \<Rightarrow> nat \<Rightarrow> string" where
  "zero_pad w n = replicate (w - length (dec n)) CHR ''0'' @ dec n"

definition DAY_NAMES :: "string list" where
  "DAY_NAMES = [''Mon'', ''Tue'', ''Wed'', ''Thu'', ''Fri'', ''Sat'', ''Sun'']"

definition MONTH_NAMES :: "string list" where
  "MONTH_NAMES = [''Jan'', ''Feb'', ''Mar'', ''Apr'', ''May'', ''Jun'', ''Jul'', ''Aug'', ''Sep'', ''Oct'', ''Nov'', ''Dec'']"

text \<open>The parts of the computation: the era of 400 years and the day in it, the year of the era,
  the month and day from the day of a year that starts in March.\<close>

definition era_of :: "int \<Rightarrow> int" where
  "era_of z = (if 0 \<le> z then z else z - 146096) div 146097"

definition year_of_era :: "int \<Rightarrow> int" where
  "year_of_era doe = (doe - doe div 1460 + doe div 36524 - doe div 146096) div 365"

definition month_and_day :: "int \<Rightarrow> int \<times> int" where
  "month_and_day doy =
     (let mp = (5 * doy + 2) div 153;
          d = doy - (153 * mp + 2) div 5 + 1;
          m = (if mp < 10 then mp + 3 else mp - 9)
      in (m, d))"

definition civil_from_days :: "int \<Rightarrow> int \<times> int \<times> int" where
  "civil_from_days days_since_epoch =
     (let z = days_since_epoch + 719468;
          era = era_of z;
          doe = z - era * 146097;
          yoe = year_of_era doe;
          y = yoe + era * 400;
          doy = doe - (365 * yoe + yoe div 4 - yoe div 100);
          (m, d) = month_and_day doy;
          year = (if m \<le> 2 then y + 1 else y)
      in (year, m, d))"

definition format_http_date :: "nat \<Rightarrow> string" where
  "format_http_date secs_since_epoch =
     (let day_seconds = secs_since_epoch mod 86400;
          hour = day_seconds div 3600;
          minute = (day_seconds mod 3600) div 60;
          second = day_seconds mod 60;
          days_since_epoch = secs_since_epoch div 86400;
          dow = (days_since_epoch + 3) mod 7;
          (year, m, d) = civil_from_days (int days_since_epoch)
      in DAY_NAMES ! dow @ '', '' @ zero_pad 2 (nat d) @ '' '' @ MONTH_NAMES ! nat (m - 1) @ '' '' @ zero_pad 4 (nat year)
         @ '' '' @ zero_pad 2 hour @ '':'' @ zero_pad 2 minute @ '':'' @ zero_pad 2 second @ '' GMT'')"

section \<open>The calendar\<close>

definition leap :: "int \<Rightarrow> bool" where
  "leap y \<longleftrightarrow> y mod 4 = 0 \<and> (y mod 100 \<noteq> 0 \<or> y mod 400 = 0)"

definition days_in_month :: "int \<Rightarrow> int \<Rightarrow> int" where
  "days_in_month y m = (if m = 2 then (if leap y then 29 else 28) else if m \<in> {4, 6, 9, 11} then 30 else 31)"

fun next_day :: "int \<times> int \<times> int \<Rightarrow> int \<times> int \<times> int" where
  "next_day (y, m, d) =
     (if d < days_in_month y m then (y, m, d + 1) else if m < 12 then (y, m + 1, 1) else (y + 1, 1, 1))"

section \<open>Years of an era\<close>

text \<open>The first day of a year that starts in March, counted from the start of the era.\<close>

definition start :: "int \<Rightarrow> int" where
  "start k = 365 * k + k div 4 - k div 100 + k div 400"

definition scaled :: "int \<Rightarrow> int" where
  "scaled doe = doe - doe div 1460 + doe div 36524 - doe div 146096"

lemma scaled_step:
  assumes "0 \<le> x" "x < 146096"
  shows "scaled x \<le> scaled (x + 1)"
proof (cases "x = 146095")
  case False
  have "x div 146096 = 0" "(x + 1) div 146096 = 0" using assms False by (auto intro: div_pos_pos_trivial)
  moreover have "(x + 1) div 1460 \<le> x div 1460 + 1" "x div 36524 \<le> (x + 1) div 36524" by (simp_all add: zdiv_mono1)
  ultimately show ?thesis unfolding scaled_def by linarith
qed (simp add: scaled_def)

lemma scaled_mono: "0 \<le> a \<Longrightarrow> a \<le> b \<Longrightarrow> b \<le> 146096 \<Longrightarrow> scaled a \<le> scaled b"
proof (induction "nat (b - a)" arbitrary: b)
  case (Suc n)
  then have "scaled a \<le> scaled (b - 1)" by (intro Suc.hyps) auto
  also have "\<dots> \<le> scaled (b - 1 + 1)" using Suc by (intro scaled_step) auto
  finally show ?case by simp
qed simp

lemma year_table:
  "\<forall>k \<in> set [0..399]. scaled (start k) div 365 = k \<and> scaled (start (k + 1) - 1) div 365 = k \<and> 0 \<le> start k \<and> start (k + 1) \<le> 146097
     \<and> start (k + 1) - start k = (if leap (k + 1) then 366 else 365) \<and> start k = 365 * k + k div 4 - k div 100"
  by code_simp

lemma year_facts:
  assumes "0 \<le> k" "k < 400"
  shows "scaled (start k) div 365 = k" "scaled (start (k + 1) - 1) div 365 = k" "0 \<le> start k" "start (k + 1) \<le> 146097"
    "start (k + 1) - start k = (if leap (k + 1) then 366 else 365)" "start k = 365 * k + k div 4 - k div 100"
proof -
  have "k \<in> set [0..399]" using assms by simp
  from bspec [OF year_table this]
  show "scaled (start k) div 365 = k" "scaled (start (k + 1) - 1) div 365 = k" "0 \<le> start k" "start (k + 1) \<le> 146097"
    "start (k + 1) - start k = (if leap (k + 1) then 366 else 365)" "start k = 365 * k + k div 4 - k div 100"
    by blast+
qed

lemma year_of_era_at:
  assumes "0 \<le> k" "k < 400" "start k \<le> doe" "doe < start (k + 1)"
  shows "year_of_era doe = k"
proof -
  note y = year_facts [OF assms(1,2)]
  have "scaled (start k) \<le> scaled doe" "scaled doe \<le> scaled (start (k + 1) - 1)"
    using assms(3,4) y(3,4) by (auto intro!: scaled_mono)
  then have "k \<le> scaled doe div 365" "scaled doe div 365 \<le> k"
    using y(1,2) zdiv_mono1 [of "scaled (start k)" "scaled doe" 365] zdiv_mono1 [of "scaled doe" "scaled (start (k + 1) - 1)" 365] by auto
  then show ?thesis by (simp add: year_of_era_def scaled_def)
qed

lemma leap_era: "leap (y + 400 * e) = leap y"
proof -
  have "(y + 400 * e) mod c = y mod c" if "c dvd 400" for c :: int
    using that by (metis dvd_mult2 mod_add_right_eq mod_0_imp_dvd add.right_neutral dvd_imp_mod_0)
  then show ?thesis by (simp add: leap_def)
qed

section \<open>Months of a year\<close>

text \<open>A year that starts in March, with a February of 29 days at its end.\<close>

lemma month_table:
  "\<forall>doy \<in> set [0..364]. (let (m, d) = month_and_day doy; len = (if m = 2 then 29 else if m \<in> set [4, 6, 9, 11] then 30 else 31)
     in month_and_day (doy + 1) = (if d < len then (m, d + 1) else if m < 12 then (m + 1, 1) else (1, 1)) \<and> (m = 2 \<and> d = 28 \<longleftrightarrow> doy = 364)
        \<and> (m = 2 \<longrightarrow> d \<le> 28) \<and> (m = 12 \<longleftrightarrow> doy \<in> set [275..305]) \<and> (m \<le> 2 \<longleftrightarrow> 306 \<le> doy))"
  by code_simp

lemma month_facts:
  assumes "0 \<le> doy" "doy < 365" "month_and_day doy = (m, d)"
  shows "month_and_day (doy + 1) = (if d < (if m = 2 then 29 else if m \<in> {4, 6, 9, 11} then 30 else 31) then (m, d + 1)
      else if m < 12 then (m + 1, 1) else (1, 1))"
    "m = 2 \<and> d = 28 \<longleftrightarrow> doy = 364" "m = 2 \<Longrightarrow> d \<le> 28" "m = 12 \<Longrightarrow> doy \<le> 305" "m \<le> 2 \<longleftrightarrow> 306 \<le> doy"
proof -
  have "doy \<in> set [0..364]" using assms by simp
  from bspec [OF month_table this] assms(3)
  show "month_and_day (doy + 1) = (if d < (if m = 2 then 29 else if m \<in> {4, 6, 9, 11} then 30 else 31) then (m, d + 1)
      else if m < 12 then (m + 1, 1) else (1, 1))"
    "m = 2 \<and> d = 28 \<longleftrightarrow> doy = 364" "m = 2 \<Longrightarrow> d \<le> 28" "m = 12 \<Longrightarrow> doy \<le> 305" "m \<le> 2 \<longleftrightarrow> 306 \<le> doy"
    by (simp_all add: Let_def)
qed

section \<open>Day by day\<close>

text \<open>A day by its era, the year of the era and the day of that year.\<close>

definition at_day :: "int \<Rightarrow> int \<Rightarrow> int \<Rightarrow> int \<Rightarrow> bool" where
  "at_day n e k doy \<longleftrightarrow> n + 719468 = e * 146097 + start k + doy \<and> 0 \<le> e \<and> 0 \<le> k \<and> k < 400 \<and> 0 \<le> doy \<and> doy < start (k + 1) - start k"

definition date_of :: "int \<Rightarrow> int \<Rightarrow> int \<Rightarrow> int \<times> int \<times> int" where
  "date_of e k doy = (let (m, d) = month_and_day doy in (if m \<le> 2 then k + 400 * e + 1 else k + 400 * e, m, d))"

lemma civil_at: "at_day n e k doy \<Longrightarrow> civil_from_days n = date_of e k doy"
proof -
  assume a: "at_day n e k doy"
  then have k: "0 \<le> k" "k < 400" by (simp_all add: at_day_def)
  note y = year_facts [OF k]
  have doe: "0 \<le> start k + doy" "start k + doy < 146097" using a y(3,4) by (auto simp: at_day_def)
  have z: "n + 719468 = (start k + doy) + e * 146097" using a by (simp add: at_day_def)
  then have era: "era_of (n + 719468) = e" using a doe by (simp add: era_of_def at_day_def div_pos_pos_trivial)
  have yoe: "year_of_era (start k + doy) = k" using a k by (intro year_of_era_at) (auto simp: at_day_def)
  have doe': "n + 719468 - e * 146097 = start k + doy" using z by simp
  have doy: "start k + doy - (365 * k + k div 4 - k div 100) = doy" using y(6) by simp
  show ?thesis unfolding civil_from_days_def Let_def era doe' yoe doy date_of_def by (simp only: mult.commute [of e])
qed

lemma next_in_year:
  assumes "0 \<le> doy" "doy + 1 < (if leap (k + 1) then 366 else 365)"
  shows "next_day (date_of e k doy) = date_of e k (doy + 1)"
proof -
  obtain m d where md: "month_and_day doy = (m, d)" by fastforce
  have doy: "doy < 365" using assms(2) by (simp split: if_splits)
  note f = month_facts [OF assms(1) doy md]
  have lp: "leap (k + 1)" if "m = 2 \<and> d = 28" using f(2) that assms(2) by (simp split: if_splits)
  have lp': "leap (k + 400 * e + 1) = leap (k + 1)" using leap_era [of "k + 1" e] by (simp add: algebra_simps)
  show ?thesis
  proof (cases "m = 2")
    case True
    then have "d < 28 \<or> leap (k + 1)" using f(3) [OF True] lp by linarith
    then show ?thesis using f(1) f(3) [OF True] lp' md True by (auto simp: date_of_def days_in_month_def)
  next
    case False
    then show ?thesis
      using f(1) md by (auto simp: date_of_def days_in_month_def)
  qed
qed

lemma next_year:
  assumes "doy + 1 = (if leap (k + 1) then 366 else 365)"
  shows "next_day (date_of e k doy) = (k + 400 * e + 1, 3, 1)"
proof -
  have "month_and_day 364 = (2, 28)" "month_and_day 365 = (2, 29)" by (simp_all add: month_and_day_def)
  moreover have "leap (k + 400 * e + 1) = leap (k + 1)" using leap_era [of "k + 1" e] by (simp add: algebra_simps)
  moreover have "doy = 365 \<and> leap (k + 1) \<or> doy = 364 \<and> \<not> leap (k + 1)" using assms by (auto split: if_splits)
  ultimately show ?thesis by (auto simp: date_of_def days_in_month_def)
qed

lemma at_day_next:
  assumes "at_day n e k doy"
  shows "\<exists>e' k' doy'. at_day (n + 1) e' k' doy' \<and> date_of e' k' doy' = next_day (date_of e k doy)"
proof -
  have k: "0 \<le> k" "k < 400" using assms by (simp_all add: at_day_def)
  note y = year_facts [OF k]
  have first: "date_of e' k' 0 = (k' + 400 * e', 3, 1)" for e' k' by (simp add: date_of_def month_and_day_def)
  show ?thesis
  proof (cases "doy + 1 < start (k + 1) - start k")
    case True
    then have "at_day (n + 1) e k (doy + 1)" using assms by (simp add: at_day_def)
    moreover have "next_day (date_of e k doy) = date_of e k (doy + 1)"
      using assms True unfolding y(5) by (intro next_in_year) (simp_all add: at_day_def)
    ultimately show ?thesis by metis
  next
    case False
    then have last: "doy + 1 = start (k + 1) - start k" using assms by (simp add: at_day_def)
    then have nxt: "next_day (date_of e k doy) = (k + 400 * e + 1, 3, 1)" unfolding y(5) by (rule next_year)
    show ?thesis
    proof (cases "k < 399")
      case True
      then have "start (k + 1 + 1) - start (k + 1) > 0" using year_facts(5) [of "k + 1"] k by simp
      then have "at_day (n + 1) e (k + 1) 0" using assms last k True by (simp add: at_day_def)
      with nxt first [of e "k + 1"] show ?thesis by (metis (no_types, lifting) add.commute add.left_commute)
    next
      case False
      then have "k = 399" using k by simp
      moreover have "start 400 = 146097" "start 0 = 0" "start 1 = 365" by (simp_all add: start_def)
      ultimately have "at_day (n + 1) (e + 1) 0 0" using assms last by (simp add: at_day_def)
      moreover have "date_of (e + 1) 0 0 = next_day (date_of e k doy)" using nxt first [of "e + 1" 0] \<open>k = 399\<close> by simp
      ultimately show ?thesis by blast
    qed
  qed
qed

lemma day_by_day: "\<exists>e k doy. at_day (int n) e k doy \<and> (next_day ^^ n) (1970, 1, 1) = date_of e k doy"
proof (induction n)
  case 0
  have "at_day 0 4 369 306" by (simp add: at_day_def start_def)
  moreover have "date_of 4 369 306 = (1970, 1, 1)" by (simp add: date_of_def month_and_day_def)
  ultimately show ?case by (metis funpow_0 int_ops(1))
next
  case (Suc n)
  then obtain e k doy where a: "at_day (int n) e k doy" "(next_day ^^ n) (1970, 1, 1) = date_of e k doy" by blast
  from at_day_next [OF a(1)] obtain e' k' doy' where "at_day (int n + 1) e' k' doy'" "date_of e' k' doy' = next_day (date_of e k doy)" by blast
  moreover have "int (Suc n) = int n + 1" by simp
  moreover have "(next_day ^^ Suc n) (1970, 1, 1) = next_day ((next_day ^^ n) (1970, 1, 1))" by simp
  ultimately show ?case using a(2) by metis
qed

section \<open>Properties\<close>

text \<open>C39. The date written for a moment is that of the calendar: the date reached from the first of January 1970 by going to
  the next day, with leap years, as often as whole days have passed, the day of the week counted from that Thursday, and
  the time of day, padded to the fixed width of the format.\<close>

theorem http_date_exact:
  "format_http_date secs =
     (let n = secs div 86400; t = secs mod 86400; (y, m, d) = (next_day ^^ n) (1970, 1, 1)
      in DAY_NAMES ! ((3 + n) mod 7) @ '', '' @ zero_pad 2 (nat d) @ '' '' @ MONTH_NAMES ! nat (m - 1) @ '' '' @ zero_pad 4 (nat y)
         @ '' '' @ zero_pad 2 (t div 3600) @ '':'' @ zero_pad 2 (t div 60 mod 60) @ '':'' @ zero_pad 2 (t mod 60) @ '' GMT'')"
proof -
  obtain e k doy where a: "at_day (int (secs div 86400)) e k doy" "(next_day ^^ (secs div 86400)) (1970, 1, 1) = date_of e k doy"
    using day_by_day by blast
  have "t mod 3600 div 60 = t div 60 mod 60" for t :: nat
    using mod_mult2_eq [of t 60 60] by simp
  then show ?thesis unfolding format_http_date_def Let_def civil_at [OF a(1)] a(2) add.commute [of 3] by simp
qed

end
