(* ===== verification/Inbound_Headers.thy ===== *)
theory Inbound_Headers
  imports Uac Call_Manager Http_Date Codec_Pipeline
begin

text \<open>
  The header and body helpers of the orchestrator (\<^verbatim>\<open>call/orchestrator.rs\<close>): option tags,
  session timers, the \<^verbatim>\<open>RAck\<close> of a PRACK, tags of \<^verbatim>\<open>To\<close> values, what a
  carrier tells in a failure, targets and reasons, and the request URI and offer sent to the
  carrier. Numbers of header fields are natural numbers below \<^verbatim>\<open>2^32\<close>.
\<close>

section \<open>Option tags and session timers\<close>

definition NGN_METHODS_ALLOW :: string where
  "NGN_METHODS_ALLOW = ''INVITE, ACK, BYE, CANCEL, OPTIONS''"

definition UAS_INBOUND_2XX_ALLOW :: string where
  "UAS_INBOUND_2XX_ALLOW = ''INVITE, ACK, BYE, CANCEL, OPTIONS, UPDATE, INFO, PRACK''"

definition UAS_INBOUND_2XX_SUPPORTED :: string where
  "UAS_INBOUND_2XX_SUPPORTED = ''timer, replaces, 100rel''"

definition sabiden_server_header :: string where
  "sabiden_server_header = ''sabiden/0.1.0''"

definition resolve_response_refresher :: "string option \<Rightarrow> string" where
  "resolve_response_refresher request_refresher =
     (case request_refresher of Some v \<Rightarrow> if eq_ignore_case v ''uac'' then ''uac'' else ''uas'' | None \<Rightarrow> ''uas'')"

definition KNOWN_OPTION_TAGS :: "string list" where
  "KNOWN_OPTION_TAGS = [''timer'', ''replaces'', ''100rel'']"

definition unsupported_option_tags :: "string \<Rightarrow> string list" where
  "unsupported_option_tags require_value =
     filter (\<lambda>t. \<not> list_ex (\<lambda>known. eq_ignore_case known t) KNOWN_OPTION_TAGS)
       (filter (\<lambda>t. t \<noteq> []) (map trim (split_char CHR '','' require_value)))"

definition apply_uas_inbound_2xx_headers :: "nat \<Rightarrow> sip_response \<Rightarrow> sip_response" where
  "apply_uas_inbound_2xx_headers now_secs resp =
     resp\<lparr>resp_headers :=
       hdr_set ''Server'' sabiden_server_header
         (hdr_set ''Date'' (format_http_date now_secs)
           (hdr_set ''Supported'' UAS_INBOUND_2XX_SUPPORTED
             (hdr_set ''Allow'' UAS_INBOUND_2XX_ALLOW (resp_headers resp))))\<rparr>"

definition OPTION_TAG_100REL :: string where
  "OPTION_TAG_100REL = ''100rel''"

definition header_has_option_tag :: "string option \<Rightarrow> string \<Rightarrow> bool" where
  "header_has_option_tag header_value tag =
     (case header_value of
        None \<Rightarrow> False
      | Some v \<Rightarrow> list_ex (\<lambda>t. eq_ignore_case (trim t) tag) (split_char CHR '','' v))"

record inbound_session_timer =
  is_session_expires :: nat
  is_refresher :: "string option"

definition refresher_param :: "string option \<Rightarrow> string \<Rightarrow> string option" where
  "refresher_param refresher p0 =
     (case split_once CHR ''='' (trim p0) of
        Some (name, v) \<Rightarrow>
          if eq_ignore_case name ''refresher'' \<and> trim v \<noteq> [] then Some (lower (trim v)) else refresher
      | None \<Rightarrow> refresher)"

definition parse_session_expires_header :: "string \<Rightarrow> inbound_session_timer option" where
  "parse_session_expires_header v =
     (let parts = split_char CHR '';'' v
      in Option.bind (parse_uint 32 (trim (hd parts))) (\<lambda>session_expires.
           Some \<lparr>is_session_expires = session_expires, is_refresher = foldl refresher_param None (tl parts)\<rparr>))"

definition parse_min_se_header :: "string \<Rightarrow> nat option" where
  "parse_min_se_header v = parse_uint 32 (trim (hd (split_char CHR '';'' v)))"

section \<open>RAck\<close>

text \<open>\<^verbatim>\<open>split_ascii_whitespace\<close> of the standard library.\<close>

definition ascii_ws :: "char \<Rightarrow> bool" where
  "ascii_ws c \<longleftrightarrow> octet_of c \<in> {9, 10, 12, 13, 32}"

fun ascii_words :: "string \<Rightarrow> string \<Rightarrow> string list" where
  "ascii_words acc [] = (if acc = [] then [] else [acc])"
| "ascii_words acc (c # s) =
     (if ascii_ws c then (if acc = [] then ascii_words [] s else acc # ascii_words [] s) else ascii_words (acc @ [c]) s)"

definition parse_rack_header :: "string \<Rightarrow> (nat \<times> nat \<times> string) option" where
  "parse_rack_header rack =
     (case ascii_words [] rack of
        [a, b, m] \<Rightarrow> Option.bind (parse_uint 32 a) (\<lambda>rseq. map_option (\<lambda>cseq. (rseq, cseq, m)) (parse_uint 32 b))
      | _ \<Rightarrow> None)"

section \<open>Tags and addresses\<close>

definition ensure_to_tag :: "32 word \<Rightarrow> sip_response \<Rightarrow> sip_response" where
  "ensure_to_tag rnd resp =
     (case hdr_get (resp_headers resp) ''to'' of
        Some to_v \<Rightarrow>
          if \<not> has_to_tag to_v
          then resp\<lparr>resp_headers := hdr_set ''To'' (to_v @ '';tag='' @ new_tag rnd) (resp_headers resp)\<rparr> else resp
      | None \<Rightarrow> resp)"

text \<open>The loop of \<^verbatim>\<open>extract_to_tag\<close>: the trimmed parts after a separator outside angle brackets.\<close>

fun to_params :: "string \<Rightarrow> int \<Rightarrow> bool \<Rightarrow> string \<Rightarrow> string list" where
  "to_params [] depth after_semi acc = (if after_semi then [trim acc] else [])"
| "to_params (b # s) depth after_semi acc =
     (if b = CHR ''<'' then to_params s (depth + 1) after_semi (acc @ [b])
      else if b = CHR ''>'' then to_params s (depth - 1) after_semi (acc @ [b])
      else if b = CHR '';'' \<and> depth = 0 then (if after_semi then [trim acc] else []) @ to_params s depth True []
      else to_params s depth after_semi (acc @ [b]))"

fun tag_of_params :: "string list \<Rightarrow> string option" where
  "tag_of_params [] = None"
| "tag_of_params (p # ps) =
     (case split_once CHR ''='' p of
        None \<Rightarrow> tag_of_params ps
      | Some (name, v) \<Rightarrow> if eq_ignore_case name ''tag'' \<and> trim v \<noteq> [] then Some (trim v) else tag_of_params ps)"

definition extract_to_tag :: "string \<Rightarrow> string option" where
  "extract_to_tag to_header = tag_of_params (to_params to_header 0 False [])"

definition extract_user_from_sip_uri :: "string \<Rightarrow> string option" where
  "extract_user_from_sip_uri uri =
     (let after_scheme = (case split_once CHR '':'' uri of Some (_, r) \<Rightarrow> r | None \<Rightarrow> uri)
      in case split_once CHR ''@'' after_scheme of
           None \<Rightarrow> None
         | Some (user_part, _) \<Rightarrow> if user_part = [] then None else Some user_part)"

definition extract_refer_to_aor :: "string \<Rightarrow> string option" where
  "extract_refer_to_aor v =
     (let trimmed = trim v;
          uri_part = (case split_once CHR ''<'' trimmed of
                        Some (_, rest) \<Rightarrow> (case split_once CHR ''>'' rest of Some (u, _) \<Rightarrow> u | None \<Rightarrow> rest)
                      | None \<Rightarrow> (case split_once CHR '';'' trimmed of Some (uri, _) \<Rightarrow> uri | None \<Rightarrow> trimmed))
      in Option.bind (split_once CHR '':'' uri_part) (\<lambda>(scheme, after_scheme).
           if lower (trim scheme) \<noteq> ''sip'' \<and> lower (trim scheme) \<noteq> ''sips'' then None
           else Option.bind (split_once CHR ''@'' after_scheme) (\<lambda>(user, host).
             if user = [] then None else Some user)))"

definition extract_uri_from_addr :: "string \<Rightarrow> string" where
  "extract_uri_from_addr v =
     (let trimmed = trim v; first_part = trim (hd (split_char CHR '';'' trimmed))
      in case split_once CHR ''<'' trimmed of
           Some (_, rest) \<Rightarrow> (case split_once CHR ''>'' rest of Some (u, _) \<Rightarrow> u | None \<Rightarrow> first_part)
         | None \<Rightarrow> first_part)"

definition ngn_aor_from_uac :: "uac \<Rightarrow> string" where
  "ngn_aor_from_uac u =
     (let local_uri = uc_local_uri (ua_config u)
      in case extract_user_from_sip_uri local_uri of Some user \<Rightarrow> user | None \<Rightarrow> local_uri)"

definition is_valid_pwa_dial_target :: "string \<Rightarrow> bool" where
  "is_valid_pwa_dial_target target \<longleftrightarrow>
     target \<noteq> [] \<and> length target \<le> 32
     \<and> list_all (\<lambda>c. is_digit c \<or> c = CHR ''*'' \<or> c = CHR ''#'' \<or> c = CHR ''+'') target"

section \<open>Responses to extensions\<close>

definition build_2xx_to_ext :: "32 word \<Rightarrow> 32 word \<Rightarrow> sip_request \<Rightarrow> string \<Rightarrow> string \<Rightarrow> sip_response" where
  "build_2xx_to_ext rnd_to rnd_tag invite_msg body contact =
     (let resp = build_response_skeleton rnd_to invite_msg 200 ''OK'';
          resp1 = (if body \<noteq> [] then resp\<lparr>resp_headers := hdr_set ''Content-Type'' ''application/sdp'' (resp_headers resp), resp_body := body\<rparr>
                   else resp)
      in ensure_to_tag rnd_tag (resp1\<lparr>resp_headers := hdr_set ''Contact'' (''<'' @ contact @ ''>'') (resp_headers resp1)\<rparr>))"

definition build_503_with_retry_after :: "32 word \<Rightarrow> 32 word \<Rightarrow> sip_request \<Rightarrow> nat \<Rightarrow> sip_response" where
  "build_503_with_retry_after rnd_to rnd_tag invite_msg retry_after_secs =
     (let resp = build_response_skeleton rnd_to invite_msg 503 ''Service Unavailable''
      in ensure_to_tag rnd_tag (resp\<lparr>resp_headers := hdr_set ''Retry-After'' (dec retry_after_secs) (resp_headers resp)\<rparr>))"

definition sip_reason_for :: "nat \<Rightarrow> string" where
  "sip_reason_for status =
     (case map_of
        [(100, ''Trying''), (180, ''Ringing''), (181, ''Call Is Being Forwarded''), (182, ''Queued''),
         (183, ''Session Progress''), (200, ''OK''), (202, ''Accepted''), (301, ''Moved Permanently''),
         (302, ''Moved Temporarily''), (400, ''Bad Request''), (401, ''Unauthorized''), (403, ''Forbidden''),
         (404, ''Not Found''), (405, ''Method Not Allowed''), (408, ''Request Timeout''),
         (480, ''Temporarily Unavailable''), (481, ''Call/Transaction Does Not Exist''), (486, ''Busy Here''),
         (487, ''Request Terminated''), (488, ''Not Acceptable Here''), (500, ''Server Internal Error''),
         (503, ''Service Unavailable''), (600, ''Busy Everywhere''), (603, ''Decline'')] status of
        Some r \<Rightarrow> r
      | None \<Rightarrow> ''Failure'')"

definition reason_phrase_for_status :: "nat \<Rightarrow> string" where
  "reason_phrase_for_status code =
     (case map_of
        [(408, ''Request Timeout''), (480, ''Temporarily Unavailable''), (486, ''Busy Here''),
         (487, ''Request Terminated''), (488, ''Not Acceptable Here''), (500, ''Server Internal Error''),
         (503, ''Service Unavailable''), (603, ''Decline'')] code of
        Some r \<Rightarrow> r
      | None \<Rightarrow> ''Decline'')"

section \<open>What the carrier tells in a failure\<close>

record ngn_5xx_header_view =
  nv_reason :: "string option"
  nv_retry_after :: "string option"
  nv_server :: "string option"
  nv_warning :: "string option"
  nv_via_received :: "string option"
  nv_via_rport :: "string option"

fun via_scan :: "string list \<Rightarrow> string option \<Rightarrow> string option \<Rightarrow> string option \<times> string option" where
  "via_scan [] received rport = (received, rport)"
| "via_scan (raw_param # ps) received rport =
     (case split_once CHR ''='' (trim raw_param) of
        None \<Rightarrow> via_scan ps received rport
      | Some (k, v) \<Rightarrow>
          if eq_ignore_case (trim k) ''received'' \<and> received = None then via_scan ps (Some (trim v)) rport
          else if eq_ignore_case (trim k) ''rport'' \<and> rport = None then via_scan ps received (Some (trim v))
          else via_scan ps received rport)"

definition extract_via_received_rport :: "string \<Rightarrow> string option \<times> string option" where
  "extract_via_received_rport via = via_scan (tl (split_char CHR '';'' (hd (split_char CHR '','' via)))) None None"

definition extract_ngn_5xx_header_view :: "sip_headers \<Rightarrow> ngn_5xx_header_view" where
  "extract_ngn_5xx_header_view hs =
     (let (via_received, via_rport) =
        (case hdr_get hs ''via'' of Some v \<Rightarrow> extract_via_received_rport v | None \<Rightarrow> (None, None))
      in \<lparr>nv_reason = hdr_get hs ''reason'', nv_retry_after = hdr_get hs ''retry-after'', nv_server = hdr_get hs ''server'',
          nv_warning = hdr_get hs ''warning'', nv_via_received = via_received, nv_via_rport = via_rport\<rparr>)"

section \<open>What goes to the carrier\<close>

definition normalize_request_uri_for_ngn :: "string \<Rightarrow> string \<Rightarrow> nat \<Rightarrow> string" where
  "normalize_request_uri_for_ngn req_uri_text ngn_server_host ngn_server_port =
     (case parse_sip_uri req_uri_text of
        Inl _ \<Rightarrow> req_uri_text
      | Inr parsed \<Rightarrow>
          if eq_ignore_case (uri_host parsed) ngn_server_host \<and> uri_port parsed = Some ngn_server_port
             \<and> uri_params parsed = [] \<and> uri_headers parsed = [] then req_uri_text
          else
            (let scheme = (if uri_scheme parsed = [] then ''sip'' else uri_scheme parsed)
             in case uri_user parsed of
                  Some user \<Rightarrow> scheme @ '':'' @ user @ ''@'' @ ngn_server_host @ '':'' @ dec ngn_server_port
                | None \<Rightarrow> scheme @ '':'' @ ngn_server_host @ '':'' @ dec ngn_server_port))"

text \<open>A panic of the parser stays a panic; every other failure keeps the body.\<close>

definition force_rewrite_sdp_for_ngn :: "nat \<Rightarrow> string \<Rightarrow> ip_addr \<Rightarrow> sdp_error + string option" where
  "force_rewrite_sdp_for_ngn now_secs ext_offer ngn_local_ip =
     (if ext_offer = [] then Inr None
      else case sdp_parse (if valid_utf8 ext_offer then ext_offer else []) of
             Inl e \<Rightarrow> if e = SlicePanic then Inl SlicePanic else Inr (Some ext_offer)
           | Inr sdp \<Rightarrow>
               (let port = (case find_audio sdp of Some m \<Rightarrow> md_port m | None \<Rightarrow> 0)
                in case rewrite_rtp_endpoint now_secs ext_offer ngn_local_ip port of
                     Inr bytes \<Rightarrow> Inr (Some bytes)
                   | Inl e \<Rightarrow> if e = SlicePanic then Inl SlicePanic else Inr (Some ext_offer)))"

text \<open>The placeholder description of a browser leg: no address and the discard port.\<close>

fun placeholder_scan :: "string list \<Rightarrow> bool \<Rightarrow> bool \<Rightarrow> bool" where
  "placeholder_scan [] has_zero_conn has_discard_port_audio = (has_zero_conn \<and> has_discard_port_audio)"
| "placeholder_scan (line # ls) has_zero_conn has_discard_port_audio =
     (let l = trim_end line
      in if l = ''c=IN IP4 0.0.0.0'' then placeholder_scan ls True has_discard_port_audio
         else if starts_with ''m=audio 9 RTP/AVP'' l \<or> starts_with ''m=audio 9 UDP/TLS/RTP/SAVPF'' l
         then placeholder_scan ls has_zero_conn True
         else placeholder_scan ls has_zero_conn has_discard_port_audio)"

definition is_undirected_or_webrtc_placeholder_sdp :: "string \<Rightarrow> bool" where
  "is_undirected_or_webrtc_placeholder_sdp body \<longleftrightarrow> valid_utf8 body \<and> placeholder_scan (str_lines body) False False"

section \<open>Tags\<close>

text \<open>The two readers of a tag agree: one tests for it, the other gives it.\<close>

lemma tl_cons_hd: "tl (cons_hd b xs) = tl xs"
  by (cases xs) simp_all

lemma to_params_split:
  "to_params s depth after acc =
     map trim (let ps = prepend_hd acc (top_split CHR '';'' depth s) in if after then ps else tl ps)"
  by (induction s depth after acc rule: to_params.induct) (auto simp: Let_def tl_cons_hd)

lemma ws_end_append: "ws_end t \<noteq> 0 \<Longrightarrow> ws_end (a @ t) \<noteq> 0"
  by (auto simp: ws_end_def split: list.splits if_splits)

lemma ws_end_of_at: "ws_at t \<noteq> 0 \<Longrightarrow> ws_end (take (ws_at t) t) \<noteq> 0"
  by (auto simp: ws_end_def ws_at_def split: list.splits if_splits)

lemma trim_start_blank: "trim_start v = [] \<Longrightarrow> v \<noteq> [] \<Longrightarrow> ws_end v \<noteq> 0"
proof (induction v rule: trim_start.induct)
  case (1 v)
  from "1.prems" have w: "ws_at v \<noteq> 0" by (metis trim_start_id)
  let ?r = "drop (ws_at v) v"
  have v: "v = take (ws_at v) v @ ?r" by simp
  have "trim_start ?r = []" using w "1.prems"(1) by (subst (asm) trim_start.simps) simp
  then have "?r \<noteq> [] \<Longrightarrow> ws_end ?r \<noteq> 0" using "1.IH" w by blast
  then show ?case using ws_end_of_at [OF w] ws_end_append v by (metis append_Nil2)
qed

lemma trim_blank: "trim v = [] \<Longrightarrow> v \<noteq> [] \<Longrightarrow> ws_end v \<noteq> 0"
proof -
  assume t: "trim v = []" and v: "v \<noteq> []"
  show "ws_end v \<noteq> 0"
  proof (cases "trim_start v = []")
    case False
    then have "ws_end (trim_start v) \<noteq> 0" using t trim_end_id by (fastforce simp: trim_def)
    then show ?thesis using trim_start_suffix [of v] ws_end_append by metis
  qed (use v trim_start_blank in blast)
qed

lemma trimmed_value: "split_once CHR ''='' (trim p) = Some (name, v) \<Longrightarrow> trim v = [] \<longleftrightarrow> v = []"
proof
  assume s: "split_once CHR ''='' (trim p) = Some (name, v)" and t: "trim v = []"
  then have "trim p = (name @ [CHR ''='']) @ v" by (simp add: split_once_Some)
  then have "ws_end v = 0" using ws_end_append [of v "name @ [CHR ''='']"] ws_end_trim [of p] by metis
  then show "v = []" using trim_blank t by blast
qed simp

lemma tag_of_params_iff: "tag_of_params (map trim ps) \<noteq> None \<longleftrightarrow> (\<exists>p \<in> set ps. param_is_nonempty_tag (trim p))"
proof (induction ps)
  case (Cons p ps)
  show ?case
  proof (cases "split_once CHR ''='' (trim p)")
    case None
    then show ?thesis using Cons by (simp add: param_is_nonempty_tag_def)
  next
    case (Some nv)
    obtain n v where nv: "nv = (n, v)" by fastforce
    then show ?thesis using Cons Some trimmed_value [of p n v]
      by (cases "eq_ignore_case n ''tag'' \<and> v \<noteq> []") (auto simp: param_is_nonempty_tag_def)
  qed
qed simp

lemma tag_readers_agree: "has_to_tag v \<longleftrightarrow> extract_to_tag v \<noteq> None"
  by (simp only: has_to_tag_def extract_to_tag_def tag_scan_split to_params_split tag_of_params_iff Let_def)

text \<open>The depth of angle brackets at the end of a text; a \<^verbatim>\<open>To\<close> value ends at depth zero.\<close>

fun depth_after :: "int \<Rightarrow> string \<Rightarrow> int" where
  "depth_after d [] = d"
| "depth_after d (c # s) = depth_after (if c = CHR ''<'' then d + 1 else if c = CHR ''>'' then d - 1 else d) s"

definition closed_addr :: "string \<Rightarrow> bool" where
  "closed_addr v \<longleftrightarrow> depth_after 0 v = 0"

lemma to_params_append:
  "depth_after d v = 0 \<Longrightarrow> to_params (v @ CHR '';'' # w) d after acc = to_params v d after acc @ to_params w 0 True []"
  by (induction v d after acc rule: to_params.induct) (auto split: if_splits)

lemma tag_of_params_append: "tag_of_params (xs @ ys) = (case tag_of_params xs of Some t \<Rightarrow> Some t | None \<Rightarrow> tag_of_params ys)"
  by (induction xs) (auto split: option.splits)

definition tag_text :: "string \<Rightarrow> bool" where
  "tag_text t \<longleftrightarrow> t \<noteq> [] \<and> list_all addr_char t"

lemma to_params_plain:
  "list_all (\<lambda>c. c \<noteq> CHR '';'' \<and> c \<noteq> CHR ''<'' \<and> c \<noteq> CHR ''>'') s \<Longrightarrow> to_params s d after acc = (if after then [trim (acc @ s)] else [])"
  by (induction s arbitrary: acc) simp_all

lemma added_tag_read:
  assumes "closed_addr v" "\<not> has_to_tag v" "tag_text t"
  shows "extract_to_tag (v @ '';tag='' @ t) = Some t" "has_to_tag (v @ '';tag='' @ t)"
proof -
  have g: "list_all graphic t" using assms(3) by (auto simp: tag_text_def addr_char_def list_all_iff)
  have "to_params (''tag='' @ t) 0 True [] = [trim (''tag='' @ t)]"
    using assms(3) by (subst to_params_plain) (auto simp: tag_text_def addr_char_def list_all_iff)
  moreover have "trim (''tag='' @ t) = ''tag='' @ t" using g by (intro trim_graphic) (simp add: graphic_def octet_of_def)
  ultimately have "to_params (v @ CHR '';'' # ''tag='' @ t) 0 False [] = to_params v 0 False [] @ [''tag='' @ t]"
    using assms(1) by (simp add: to_params_append closed_addr_def)
  moreover have "tag_of_params (to_params v 0 False []) = None"
    using assms(2) tag_readers_agree [of v] by (simp add: extract_to_tag_def)
  moreover have "trim t = t" using g by (rule trim_graphic)
  ultimately show "extract_to_tag (v @ '';tag='' @ t) = Some t"
    using assms(3) by (simp add: extract_to_tag_def tag_of_params_append tag_text_def)
  then show "has_to_tag (v @ '';tag='' @ t)" by (simp add: tag_readers_agree)
qed

lemma hex_fixed_addr: "list_all addr_char (hex_fixed n k)"
proof (induction n arbitrary: k)
  case (Suc n)
  have "addr_char (hex_digit d)" if "d < 16" for d
    using that by (auto simp: hex_digit_def addr_char_def graphic_def octet_of_inj [symmetric]) (auto simp: octet_of_def)
  then show ?case using Suc by simp
qed simp

lemma length_hex_fixed: "length (hex_fixed n k) = n"
  by (induction n arbitrary: k) simp_all

lemma new_tags_text: "tag_text (new_uas_to_tag r)" "tag_text (new_tag r)"
proof -
  have "list_all addr_char (hex_fixed 8 (unat r))" "hex_fixed 8 (unat r) \<noteq> []"
    using hex_fixed_addr length_hex_fixed [of 8 "unat r"] by auto
  moreover have "list_all addr_char ''sabiden-''" by (simp add: addr_char_def graphic_def octet_of_def)
  ultimately show "tag_text (new_uas_to_tag r)" "tag_text (new_tag r)"
    by (simp_all add: tag_text_def new_uas_to_tag_def new_tag_def)
qed

section \<open>Round trips\<close>

lemma ascii_words_word: "list_all graphic w \<Longrightarrow> w \<noteq> [] \<Longrightarrow> ascii_words acc (w @ SP # s) = (acc @ w) # ascii_words [] s"
proof (induction w arbitrary: acc)
  case (Cons c w)
  have "\<not> ascii_ws c" using Cons.prems(1) by (auto simp: ascii_ws_def graphic_def)
  then show ?case using Cons by (cases w) (auto simp: ascii_ws_def)
qed simp

lemma ascii_words_last: "list_all graphic w \<Longrightarrow> acc @ w \<noteq> [] \<Longrightarrow> ascii_words acc w = [acc @ w]"
proof (induction w arbitrary: acc)
  case (Cons c w)
  have "\<not> ascii_ws c" using Cons.prems(1) by (auto simp: ascii_ws_def graphic_def)
  then show ?case using Cons by simp
qed simp

lemma rack_read:
  assumes "rseq < 2 ^ 32" "cseq < 2 ^ 32"
  shows "parse_rack_header (dec rseq @ '' '' @ dec cseq @ '' INVITE'') = Some (rseq, cseq, ''INVITE'')"
proof -
  have "list_all graphic ''INVITE''" by (simp add: graphic_def octet_of_def)
  then have "ascii_words [] (dec rseq @ SP # dec cseq @ SP # ''INVITE'') = [dec rseq, dec cseq, ''INVITE'']"
    using dec_digits dec_graphic by (simp add: ascii_words_word ascii_words_last del: ascii_words.simps)
  then show ?thesis using assms by (simp add: parse_rack_header_def)
qed

end
