(* ===== verification/Extension_Fork.thy ===== *)
theory Extension_Fork
  imports Inbound_Headers
begin

text \<open>
  Calling the registered extensions in parallel (\<^verbatim>\<open>fork_to_bindings\<close> and
  \<^verbatim>\<open>run_webrtc_leg\<close> of \<^verbatim>\<open>call/orchestrator.rs\<close>), the waiters for answers of
  browsers (\<^verbatim>\<open>PendingAnswers\<close> of \<^verbatim>\<open>webrtc/signaling.rs\<close>) and the ports of
  the relay. The loop sees the legs as the results they send, with their instants, in the
  order of the channel. What a browser connection is (\<^verbatim>\<open>WsSink\<close>) is a type parameter whose
  equality is \<^verbatim>\<open>same_channel\<close>; what the media backend and the browser answer is an
  argument.
\<close>

section \<open>Waiters for answers of browsers\<close>

datatype answer_outcome = AnswerSdp string | AnswerDecline nat

text \<open>A waiter is a number; the table has the sender of its channel. An operation gives the waiter that is
  woken and with what; a sender that is dropped wakes its waiter with nothing.\<close>

type_synonym pending_answers = "string \<rightharpoonup> nat"

definition pa_register :: "nat \<Rightarrow> string \<Rightarrow> pending_answers \<Rightarrow> (nat \<times> answer_outcome option) list \<times> pending_answers" where
  "pa_register waiter call_id pa =
     ((case pa call_id of Some w \<Rightarrow> [(w, None)] | None \<Rightarrow> []), pa(call_id \<mapsto> waiter))"

definition pa_cancel :: "string \<Rightarrow> pending_answers \<Rightarrow> (nat \<times> answer_outcome option) list \<times> pending_answers" where
  "pa_cancel call_id pa = ((case pa call_id of Some w \<Rightarrow> [(w, None)] | None \<Rightarrow> []), pa(call_id := None))"

definition pa_settle :: "string \<Rightarrow> answer_outcome \<Rightarrow> pending_answers \<Rightarrow> (nat \<times> answer_outcome option) list \<times> pending_answers" where
  "pa_settle call_id oc pa = ((case pa call_id of Some w \<Rightarrow> [(w, Some oc)] | None \<Rightarrow> []), pa(call_id := None))"

definition pa_deliver :: "string \<Rightarrow> string \<Rightarrow> pending_answers \<Rightarrow> (nat \<times> answer_outcome option) list \<times> pending_answers" where
  "pa_deliver call_id sdp pa = pa_settle call_id (AnswerSdp sdp) pa"

definition pa_decline :: "string \<Rightarrow> nat \<Rightarrow> pending_answers \<Rightarrow> (nat \<times> answer_outcome option) list \<times> pending_answers" where
  "pa_decline call_id status pa = pa_settle call_id (AnswerDecline status) pa"

text \<open>The end of a browser session: the number of waiters that are woken with nothing.\<close>

definition pa_cancel_all :: "pending_answers \<Rightarrow> nat \<times> pending_answers" where
  "pa_cancel_all pa = (card (dom pa), Map.empty)"

section \<open>Legs of browsers\<close>

record 'w leg_handle =
  lh_ws :: 'w
  lh_call_id :: string

record 'w leg_registry =
  lr_legs :: "'w leg_handle list"
  lr_closed :: bool

definition leg_registry_new :: "'w leg_registry" where
  "leg_registry_new = \<lparr>lr_legs = [], lr_closed = False\<rparr>"

definition try_register_webrtc_leg :: "'w leg_registry \<Rightarrow> 'w leg_handle \<Rightarrow> bool \<times> 'w leg_registry" where
  "try_register_webrtc_leg reg h =
     (if lr_closed reg then (False, reg) else (True, reg\<lparr>lr_legs := lr_legs reg @ [h]\<rparr>))"

definition close_and_drain_webrtc_legs :: "'w leg_registry \<Rightarrow> 'w leg_handle list \<times> 'w leg_registry" where
  "close_and_drain_webrtc_legs reg = (lr_legs reg, \<lparr>lr_legs = [], lr_closed = True\<rparr>)"

text \<open>The legs that are told to stop ringing when the fork has its result.\<close>

definition legs_to_cancel :: "'w option \<Rightarrow> 'w leg_handle list \<Rightarrow> 'w leg_handle list" where
  "legs_to_cancel winner_ws drained =
     filter (\<lambda>leg. case winner_ws of Some w \<Rightarrow> lh_ws leg \<noteq> w | None \<Rightarrow> True) drained"

section \<open>Results\<close>

record 'w fork_answer =
  fa_response :: sip_response
  fa_opus_pt :: "nat option"
  fa_ws :: "'w option"

text \<open>\<^verbatim>\<open>fa_opus_pt\<close> stands for the artifacts of a browser leg: there are some, with this payload type.\<close>

datatype 'w leg_result = BindEstablished string "'w fork_answer" | BindFailed nat | BindErrored

definition DEFAULT_OPUS_PT :: nat where
  "DEFAULT_OPUS_PT = 111"

section \<open>One browser leg\<close>

text \<open>What the backend and the browser do: the offer made, whether the connection takes a message, what
  wakes the waiter in time (nothing: the sender is gone), whether the answer is accepted, and
  whether the stream of media can be taken.\<close>

datatype leg_answer = InTime answer_outcome | SenderDropped | TooLate

record leg_env =
  le_offer :: "string option"
  le_ws_ok :: bool
  le_answer :: leg_answer
  le_accepts :: bool
  le_media :: bool

datatype ws_message = WsOffer string string | WsCancel string | WsBye

text \<open>The turn up to the push of the offer: the messages taken by the connection, the registry, the table of
  waiters, and whether the leg waits for an answer.\<close>

definition webrtc_leg_offer ::
  "leg_env \<Rightarrow> string \<Rightarrow> 'w \<Rightarrow> nat \<Rightarrow> 'w leg_registry \<Rightarrow> pending_answers \<Rightarrow>
   ws_message list \<times> 'w leg_registry \<times> pending_answers \<times> bool" where
  "webrtc_leg_offer env call_id ws waiter reg pa =
     (case le_offer env of
        None \<Rightarrow> ([], reg, pa, False)
      | Some sdp \<Rightarrow>
          (let pa1 = snd (pa_register waiter call_id pa); pa2 = snd (pa_cancel call_id pa1)
           in case try_register_webrtc_leg reg \<lparr>lh_ws = ws, lh_call_id = call_id\<rparr> of
                (False, reg') \<Rightarrow> (if le_ws_ok env then [WsCancel call_id] else [], reg', pa2, False)
              | (True, reg') \<Rightarrow>
                  if le_ws_ok env then ([WsOffer call_id sdp], reg', pa1, True) else ([], reg', pa2, False)))"

definition webrtc_response :: "string \<Rightarrow> string \<Rightarrow> string \<Rightarrow> string \<Rightarrow> sip_response" where
  "webrtc_response aor target_uri call_id body =
     \<lparr>resp_status = 200, resp_reason = ''OK'',
      resp_headers =
        hdr_set ''Content-Type'' ''application/sdp''
          (hdr_set ''CSeq'' ''1 INVITE''
            (hdr_set ''Call-ID'' call_id
              (hdr_set ''To'' (''<'' @ target_uri @ ''>;tag=webrtc-'' @ aor)
                (hdr_set ''From'' ''<sip:webrtc>;tag=webrtc''
                  (hdr_set ''Via'' ''SIP/2.0/WS webrtc.peer;branch=z9hG4bKwebrtc'' []))))),
      resp_body = body\<rparr>"

text \<open>The turn after the wait: the result of the leg, whether the backend is closed, and the table of waiters.
  The conversion of the answer panics when the parser does.\<close>

definition webrtc_leg_answer ::
  "leg_env \<Rightarrow> string \<Rightarrow> string \<Rightarrow> string \<Rightarrow> 'w \<Rightarrow> pending_answers \<Rightarrow> sdp_error + 'w leg_result \<times> bool \<times> pending_answers" where
  "webrtc_leg_answer env aor target_uri call_id ws pa =
     (case le_answer env of
        InTime (AnswerDecline status) \<Rightarrow> Inr (BindFailed status, False, pa)
      | SenderDropped \<Rightarrow> Inr (BindErrored, False, pa)
      | TooLate \<Rightarrow> Inr (BindFailed 408, False, snd (pa_cancel call_id pa))
      | InTime (AnswerSdp answer) \<Rightarrow>
          if \<not> le_accepts env then Inr (BindErrored, True, pa)
          else
            (let opus_pt = (case find_opus_payload_type answer of Some pt \<Rightarrow> pt | None \<Rightarrow> DEFAULT_OPUS_PT);
                 finish = (\<lambda>body. Inr (BindEstablished target_uri
                   \<lparr>fa_response = webrtc_response aor target_uri call_id body,
                    fa_opus_pt = (if le_media env then Some opus_pt else None), fa_ws = Some ws\<rparr>, False, pa))
             in case convert_savpf_to_avp answer of
                  Inr body \<Rightarrow> finish body
                | Inl e \<Rightarrow> if e = SlicePanic then Inl SlicePanic else finish answer))"

section \<open>The fork\<close>

definition final_response_class_rank :: "nat \<Rightarrow> nat" where
  "final_response_class_rank code =
     (if 600 \<le> code \<and> code \<le> 699 then 4
      else if 400 \<le> code \<and> code \<le> 499 then 3
      else if 500 \<le> code \<and> code \<le> 599 then 2
      else if 300 \<le> code \<and> code \<le> 399 then 1 else 0)"

definition should_replace_status :: "nat option \<Rightarrow> nat \<Rightarrow> bool" where
  "should_replace_status current new =
     (case current of None \<Rightarrow> True | Some cur \<Rightarrow> final_response_class_rank cur < final_response_class_rank new)"

definition keep_status :: "nat option \<Rightarrow> nat \<Rightarrow> nat option" where
  "keep_status current status = (if should_replace_status current status then Some status else current)"

fun bind_loop ::
  "nat \<Rightarrow> nat \<Rightarrow> nat \<Rightarrow> nat \<Rightarrow> nat \<Rightarrow> nat option \<Rightarrow> (nat \<times> 'w leg_result) list \<Rightarrow> 'w fork_answer fork_result" where
  "bind_loop deadline closed_at n now received last_status [] =
     (if now \<ge> deadline then ForkTimeout
      else if closed_at < deadline then AllFailed last_status else ForkTimeout)"
| "bind_loop deadline closed_at n now received last_status ((t, leg) # rest) =
     (if now \<ge> deadline then ForkTimeout
      else if t \<ge> deadline then ForkTimeout
      else
        (case leg of
           BindEstablished uri a \<Rightarrow> ForkAnswered uri a
         | BindFailed status \<Rightarrow>
             (let ls = keep_status last_status status
              in if 600 \<le> status \<and> status \<le> 699 then AllFailed ls
                 else if received + 1 \<ge> n then AllFailed ls
                 else bind_loop deadline closed_at n t (received + 1) ls rest)
         | BindErrored \<Rightarrow>
             if received + 1 \<ge> n then AllFailed last_status
             else bind_loop deadline closed_at n t (received + 1) last_status rest))"

definition fork_winner_ws :: "'w fork_answer fork_result \<Rightarrow> 'w option" where
  "fork_winner_ws r = (case r of ForkAnswered _ a \<Rightarrow> fa_ws a | _ \<Rightarrow> None)"

text \<open>The result, the browser legs that are cancelled, and the registry afterwards.\<close>

definition fork_to_bindings ::
  "'b list \<Rightarrow> nat \<Rightarrow> nat \<Rightarrow> (nat \<times> 'w leg_result) list \<Rightarrow> nat \<Rightarrow> 'w leg_registry \<Rightarrow>
   'w fork_answer fork_result \<times> 'w leg_handle list \<times> 'w leg_registry" where
  "fork_to_bindings bindings now overall_timeout results closed_at reg =
     (if bindings = [] then (AllFailed None, [], reg)
      else
        (let result = bind_loop (now + overall_timeout) closed_at (length bindings) now 0 None results;
             (drained, reg') = close_and_drain_webrtc_legs reg
         in (result, legs_to_cancel (fork_winner_ws result) drained, reg')))"

section \<open>Ports of the relay\<close>

definition NGN_RTP_PORT_MIN :: nat where "NGN_RTP_PORT_MIN = 30000"
definition NGN_RTP_PORT_MAX :: nat where "NGN_RTP_PORT_MAX = 30998"

definition rtp_port_of :: "32 word \<Rightarrow> nat" where
  "rtp_port_of raw =
     (let span = NGN_RTP_PORT_MAX - NGN_RTP_PORT_MIN + 2; off = unat raw mod span
      in NGN_RTP_PORT_MIN + (off - off mod 2))"

text \<open>The counter, the ports that can be bound, and the ports the system gives: the port of the socket and
  the counter afterwards. A system port that cannot be had ends the search.\<close>

fun rtp_allocate :: "nat \<Rightarrow> (nat \<Rightarrow> bool) \<Rightarrow> 32 word \<Rightarrow> nat option \<times> 32 word" where
  "rtp_allocate 0 free counter = (None, counter)"
| "rtp_allocate (Suc n) free counter =
     (if free (rtp_port_of counter) then (Some (rtp_port_of counter), counter + 2) else rtp_allocate n free (counter + 2))"

fun rtp_ephemeral :: "nat \<Rightarrow> nat option list \<Rightarrow> nat option" where
  "rtp_ephemeral 0 ports = None"
| "rtp_ephemeral (Suc n) [] = None"
| "rtp_ephemeral (Suc n) (None # ports) = None"
| "rtp_ephemeral (Suc n) (Some p # ports) = (if p mod 2 = 0 then Some p else rtp_ephemeral n ports)"

definition bind_ngn_rtp_socket :: "(nat \<Rightarrow> bool) \<Rightarrow> nat option list \<Rightarrow> 32 word \<Rightarrow> nat option \<times> 32 word" where
  "bind_ngn_rtp_socket free system_ports counter =
     (case rtp_allocate 500 free counter of
        (Some p, counter') \<Rightarrow> (Some p, counter')
      | (None, counter') \<Rightarrow> (rtp_ephemeral 50 system_ports, counter'))"

section \<open>The best failure\<close>

text \<open>Of the failures the first one of the highest rank.\<close>

definition best_status :: "nat list \<Rightarrow> nat option" where
  "best_status ss =
     find (\<lambda>s. list_all (\<lambda>s'. final_response_class_rank s' \<le> final_response_class_rank s) ss) ss"

lemma find_append: "find P (xs @ ys) = (case find P xs of Some x \<Rightarrow> Some x | None \<Rightarrow> find P ys)"
  by (induction xs) simp_all

lemma best_status_snoc: "best_status (ss @ [s]) = keep_status (best_status ss) s"
proof (cases "\<forall>s' \<in> set ss. final_response_class_rank s' < final_response_class_rank s")
  case True
  then have "find (\<lambda>x. list_all (\<lambda>s'. final_response_class_rank s' \<le> final_response_class_rank x) (ss @ [s])) ss = None"
    by (fastforce simp: find_None_iff)
  moreover have "best_status ss = None \<or> (\<exists>b \<in> set ss. best_status ss = Some b)"
    using find_Some_mem [of _ ss] by (cases "best_status ss") (fastforce simp: best_status_def)+
  ultimately show ?thesis using True
    by (auto simp: best_status_def [of "ss @ [s]"] find_append keep_status_def should_replace_status_def list_all_iff less_imp_le)
next
  case False
  then obtain b where b: "b \<in> set ss" "final_response_class_rank s \<le> final_response_class_rank b" by (auto simp: not_less)
  obtain m where m: "m \<in> set ss" "\<forall>s' \<in> set ss. final_response_class_rank s' \<le> final_response_class_rank m"
  proof -
    have ne: "final_response_class_rank ` set ss \<noteq> {}" using b(1) by auto
    then obtain m where "m \<in> set ss" "final_response_class_rank m = Max (final_response_class_rank ` set ss)"
      using Max_in [OF _ ne] by force
    then show ?thesis using that by simp
  qed
  then obtain c where c: "best_status ss = Some c"
    by (cases "best_status ss") (auto simp: best_status_def find_None_iff list_all_iff)
  then have "c \<in> set ss" "\<forall>s' \<in> set ss. final_response_class_rank s' \<le> final_response_class_rank c"
    using find_Some_mem [of _ ss c] by (auto simp: best_status_def list_all_iff)
  then have le: "final_response_class_rank s \<le> final_response_class_rank c" using b by force
  have "find (\<lambda>x. list_all (\<lambda>s'. final_response_class_rank s' \<le> final_response_class_rank x) (ss @ [s])) ss = Some c"
  proof -
    have "final_response_class_rank s \<le> final_response_class_rank x"
      if "x \<in> set ss" "list_all (\<lambda>s'. final_response_class_rank s' \<le> final_response_class_rank x) ss" for x
      using that b by (force simp: list_all_iff)
    then have "find (\<lambda>x. list_all (\<lambda>s'. final_response_class_rank s' \<le> final_response_class_rank x) (ss @ [s])) ss = best_status ss"
      unfolding best_status_def by (intro find_cong) (auto simp: list_all_iff)
    then show ?thesis using c by simp
  qed
  then show ?thesis using c le
    by (simp add: best_status_def [of "ss @ [s]"] find_append keep_status_def should_replace_status_def)
qed

text \<open>A result that ends the fork at once.\<close>

fun decisive :: "'w leg_result \<Rightarrow> bool" where
  "decisive (BindEstablished _ _) = True"
| "decisive (BindFailed status) = (600 \<le> status \<and> status \<le> 699)"
| "decisive BindErrored = False"

fun failure_of :: "'w leg_result \<Rightarrow> nat option" where
  "failure_of (BindFailed status) = Some status"
| "failure_of _ = None"

definition failures :: "(nat \<times> 'w leg_result) list \<Rightarrow> nat list" where
  "failures results = List.map_filter (\<lambda>r. failure_of (snd r)) results"

text \<open>The reference: of the results in time the first decisive one counts; without one all must have
  failed in time, and the best failure is told.\<close>

definition bind_spec :: "nat \<Rightarrow> (nat \<times> 'w leg_result) list \<Rightarrow> 'w fork_answer fork_result" where
  "bind_spec deadline results =
     (let seen = takeWhile (\<lambda>r. fst r < deadline) results
      in case find (\<lambda>r. decisive (snd r)) seen of
           Some (_, BindEstablished uri a) \<Rightarrow> ForkAnswered uri a
         | Some (_, BindFailed status) \<Rightarrow> AllFailed (Some status)
         | _ \<Rightarrow> if seen = results then AllFailed (best_status (failures results)) else ForkTimeout)"

lemma failures_simps:
  "failures [] = []" "failures (r # rs) = (case failure_of (snd r) of Some s \<Rightarrow> s # failures rs | None \<Rightarrow> failures rs)"
  "failures (xs @ ys) = failures xs @ failures ys"
  by (simp_all add: failures_def map_filter_simps map_filter_def split: option.splits)

definition undecided :: "nat \<Rightarrow> (nat \<times> 'w leg_result) list \<Rightarrow> bool" where
  "undecided deadline pre \<longleftrightarrow> list_all (\<lambda>r. fst r < deadline \<and> \<not> decisive (snd r)) pre"

lemma keep_global_failure:
  assumes "undecided deadline pre" "600 \<le> status" "status \<le> 699"
  shows "keep_status (best_status (failures pre)) status = Some status"
proof (cases "best_status (failures pre)")
  case (Some b)
  then have "b \<in> set (failures pre)" using find_Some_mem [of _ "failures pre"] by (fastforce simp: best_status_def)
  then obtain r where "r \<in> set pre" "failure_of (snd r) = Some b" by (auto simp: failures_def map_filter_def)
  then have "\<not> (600 \<le> b \<and> b \<le> 699)" using assms(1) by (cases "snd r") (auto simp: undecided_def list_all_iff)
  then show ?thesis using Some assms(2,3) by (auto simp: keep_status_def should_replace_status_def final_response_class_rank_def)
qed (simp add: keep_status_def should_replace_status_def)

lemma bind_spec_undecided:
  assumes "undecided deadline pre"
  shows "bind_spec deadline (pre @ (t, leg) # rest) =
    (if t < deadline then
       (case leg of BindEstablished uri a \<Rightarrow> ForkAnswered uri a
        | _ \<Rightarrow> if decisive leg then AllFailed (failure_of leg) else bind_spec deadline ((pre @ [(t, leg)]) @ rest))
     else ForkTimeout)"
proof -
  have tw: "takeWhile (\<lambda>r. fst r < deadline) (pre @ (t, l) # rest) =
      (if t < deadline then pre @ (t, l) # takeWhile (\<lambda>r. fst r < deadline) rest else pre)" for l
    using assms by (subst takeWhile_append2) (auto simp: undecided_def list_all_iff)
  have fn: "find (\<lambda>r. decisive (snd r)) pre = None" using assms by (auto simp: find_None_iff undecided_def list_all_iff)
  show ?thesis
    by (cases "t < deadline"; cases leg) (simp_all add: bind_spec_def Let_def tw find_append fn)
qed

lemma bind_loop_spec:
  assumes "undecided deadline pre" "now < deadline" "results \<noteq> []" "length pre + length results = n"
  shows "bind_loop deadline closed_at n now (length pre) (best_status (failures pre)) results = bind_spec deadline (pre @ results)"
  using assms
proof (induction results arbitrary: now pre)
  case (Cons x rest)
  obtain t leg where x: "x = (t, leg)" by fastforce
  have last: "bind_spec deadline (pre @ [(t, leg)]) = AllFailed (best_status (failures (pre @ [(t, leg)])))"
    if "t < deadline" "\<not> decisive leg"
  proof -
    have "undecided deadline (pre @ [(t, leg)])" using Cons.prems(1) that by (simp add: undecided_def)
    then have "takeWhile (\<lambda>r. fst r < deadline) (pre @ [(t, leg)]) = pre @ [(t, leg)]"
      "find (\<lambda>r. decisive (snd r)) (pre @ [(t, leg)]) = None"
      by (auto simp: undecided_def list_all_iff find_None_iff takeWhile_eq_all_conv)
    then show ?thesis by (simp add: bind_spec_def)
  qed
  have IH: "bind_loop deadline closed_at n t (Suc (length pre)) (best_status (failures (pre @ [(t, leg)]))) rest
      = bind_spec deadline ((pre @ [(t, leg)]) @ rest)" if "t < deadline" "\<not> decisive leg" "rest \<noteq> []"
  proof -
    have "undecided deadline (pre @ [(t, leg)])" using Cons.prems(1) that by (simp add: undecided_def)
    from Cons.IH [OF this that(1,3)] show ?thesis using Cons.prems(4) by simp
  qed
  have n: "n \<le> Suc (length pre) \<longleftrightarrow> rest = []" using Cons.prems(4) by auto
  note step = x bind_spec_undecided [OF Cons.prems(1)] failures_simps
  show ?case
  proof (cases "t < deadline")
    case False
    then show ?thesis using Cons.prems(2) by (simp add: step)
  next
    case t: True
    show ?thesis
    proof (cases leg)
      case (BindEstablished uri a)
      then show ?thesis using Cons.prems(2) t by (simp add: step)
    next
      case (BindFailed status)
      have k: "failures (pre @ [(t, BindFailed status)]) = failures pre @ [status]" by (simp add: failures_simps)
      show ?thesis
      proof (cases "600 \<le> status \<and> status \<le> 699")
        case True
        then show ?thesis using Cons.prems(2) t BindFailed keep_global_failure [OF Cons.prems(1), of status] by (simp add: step)
      next
        case False
        then have d: "\<not> decisive leg" using BindFailed by simp
        show ?thesis
          using Cons.prems(2) n t False last [OF t d] IH [OF t d] BindFailed
          by (cases "rest = []") (auto simp: x k best_status_snoc Let_def)
      qed
    next
      case BindErrored
      then have d: "\<not> decisive leg" by simp
      have k: "failures (pre @ [(t, BindErrored)]) = failures pre" by (simp add: failures_simps)
      show ?thesis
        using Cons.prems(2) n t last [OF t d] IH [OF t d] BindErrored by (cases "rest = []") (simp_all add: x k)
    qed
  qed
qed simp

text \<open>C32. Calling the extensions gives the best result: when every leg reports, the loop over the channel
  gives what the reference says. The first answer in time wins, unless a global failure came
  before it; otherwise, when all failed in time, the first failure of the best class is told,
  global failures before request failures before server failures before redirections.\<close>

theorem fork_best_response:
  assumes "bindings \<noteq> []" "0 < overall_timeout" "length results = length bindings"
  shows "fst (fork_to_bindings bindings now overall_timeout results closed_at reg) = bind_spec (now + overall_timeout) results"
proof -
  have "results \<noteq> []" using assms by auto
  then show ?thesis
    using bind_loop_spec [of "now + overall_timeout" "[]" now results "length bindings" closed_at] assms
    by (simp add: fork_to_bindings_def undecided_def failures_simps best_status_def Let_def close_and_drain_webrtc_legs_def)
qed

theorem fork_best_response_witness:
  "fst (fork_to_bindings [''a'', ''b'', ''c''] 0 30
      [(1, BindFailed 503), (2, BindFailed 486), (3, BindFailed 404 :: nat leg_result)] 5 leg_registry_new) = AllFailed (Some 486)"
  using fork_best_response [of "[''a'', ''b'', ''c'']" 30 "[(1, BindFailed 503), (2, BindFailed 486), (3, BindFailed 404 :: nat leg_result)]" 0 5 leg_registry_new]
  by (simp add: bind_spec_def failures_simps best_status_def final_response_class_rank_def)

section \<open>Ringing browsers\<close>

text \<open>Legs that come to their offer, in any order; the messages each connection takes.\<close>

record 'w offered =
  of_env :: leg_env
  of_call_id :: string
  of_ws :: 'w
  of_waiter :: nat

fun offer_step ::
  "'w leg_registry \<times> pending_answers \<times> ('w \<times> ws_message) list \<Rightarrow> 'w offered \<Rightarrow>
   'w leg_registry \<times> pending_answers \<times> ('w \<times> ws_message) list" where
  "offer_step (reg, pa, sent) leg =
     (case webrtc_leg_offer (of_env leg) (of_call_id leg) (of_ws leg) (of_waiter leg) reg pa of
        (msgs, reg', pa', _) \<Rightarrow> (reg', pa', sent @ map (Pair (of_ws leg)) msgs))"

fun is_offer :: "ws_message \<Rightarrow> bool" where
  "is_offer (WsOffer _ _) = True"
| "is_offer _ = False"

text \<open>While the fork is open every offer that was pushed is in the registry; when it is closed none is pushed.\<close>

definition offers_known :: "'w leg_registry \<times> pending_answers \<times> ('w \<times> ws_message) list \<Rightarrow> bool" where
  "offers_known s \<longleftrightarrow>
     (let (reg, pa, sent) = s
      in \<not> lr_closed reg
         \<and> (\<forall>ws call_id sdp. (ws, WsOffer call_id sdp) \<in> set sent \<longrightarrow> \<lparr>lh_ws = ws, lh_call_id = call_id\<rparr> \<in> set (lr_legs reg)))"

definition offers_over :: "('w \<times> ws_message) list \<Rightarrow> 'w leg_registry \<times> pending_answers \<times> ('w \<times> ws_message) list \<Rightarrow> bool" where
  "offers_over before s \<longleftrightarrow>
     (let (reg, pa, sent) = s
      in lr_closed reg \<and> lr_legs reg = [] \<and> filter (\<lambda>m. is_offer (snd m)) sent = filter (\<lambda>m. is_offer (snd m)) before)"

interpretation open_fork: inv_machine offer_step offers_known
  by unfold_locales
    (auto simp: offers_known_def webrtc_leg_offer_def try_register_webrtc_leg_def Let_def split: option.splits prod.splits if_splits)

interpretation closed_fork: inv_machine offer_step "offers_over before" for before
  by unfold_locales
    (auto simp: offers_over_def webrtc_leg_offer_def try_register_webrtc_leg_def Let_def split: option.splits prod.splits if_splits)


definition offered_ex :: "nat \<Rightarrow> nat offered" where
  "offered_ex ws = \<lparr>of_env = \<lparr>le_offer = Some ''v=0'', le_ws_ok = True, le_answer = TooLate, le_accepts = True, le_media = True\<rparr>,
     of_call_id = ''c1'', of_ws = ws, of_waiter = ws\<rparr>"


section \<open>Ports\<close>

lemma rtp_port_even: "even (rtp_port_of c)" "NGN_RTP_PORT_MIN \<le> rtp_port_of c" "rtp_port_of c \<le> NGN_RTP_PORT_MAX"
proof -
  define m where "m = unat c mod 1000"
  have m: "m - m mod 2 = 2 * (m div 2)" by (simp add: minus_mod_eq_mult_div)
  have "m < 1000" by (simp add: m_def)
  then have "2 * (m div 2) \<le> 998" by simp
  then have "m - m mod 2 \<le> 998" "even (m - m mod 2)" unfolding m by simp_all
  then show "even (rtp_port_of c)" "NGN_RTP_PORT_MIN \<le> rtp_port_of c" "rtp_port_of c \<le> NGN_RTP_PORT_MAX"
    by (simp_all add: rtp_port_of_def NGN_RTP_PORT_MIN_def NGN_RTP_PORT_MAX_def Let_def m_def [symmetric])
qed

lemma rtp_allocate_ok:
  "rtp_allocate n free c = (Some p, c') \<Longrightarrow> free p \<and> even p \<and> NGN_RTP_PORT_MIN \<le> p \<and> p \<le> NGN_RTP_PORT_MAX"
  by (induction n free c rule: rtp_allocate.induct) (auto simp: rtp_port_even split: if_splits)

lemma rtp_ephemeral_ok: "rtp_ephemeral n ports = Some p \<Longrightarrow> even p \<and> Some p \<in> set ports"
  by (induction n ports rule: rtp_ephemeral.induct) (auto split: if_splits)

lemma rtp_allocate_tries:
  "fst (rtp_allocate n free c) = None \<Longrightarrow> k < n \<Longrightarrow> \<not> free (rtp_port_of (c + 2 * of_nat k))"
proof (induction n free c arbitrary: k rule: rtp_allocate.induct)
  case (2 n free c)
  from "2.prems"(1) have f: "\<not> free (rtp_port_of c)" "fst (rtp_allocate n free (c + 2)) = None" by (auto split: if_splits)
  show ?case
  proof (cases k)
    case (Suc j)
    then have "\<not> free (rtp_port_of (c + 2 + 2 * of_nat j))" using "2.IH" [OF f] "2.prems"(2) by simp
    then show ?thesis using Suc by (simp add: algebra_simps)
  qed (use f in simp)
qed simp

text \<open>Before the counter wraps, 500 attempts go through all even ports of the range.\<close>

lemma rtp_port_covered:
  assumes "even (unat c)" "unat c + 1000 \<le> 2 ^ 32" "even p" "NGN_RTP_PORT_MIN \<le> p" "p \<le> NGN_RTP_PORT_MAX"
  shows "\<exists>k < 500. rtp_port_of (c + 2 * of_nat k) = p"
proof -
  define q where "q = p - 30000"
  have q: "p = 30000 + q" "q \<le> 998" "even q" using assms(3-5) by (auto simp: q_def NGN_RTP_PORT_MIN_def NGN_RTP_PORT_MAX_def)
  define m where "m = unat c mod 1000"
  have m: "even m" "m < 1000" using assms(1) by (simp_all add: m_def dvd_mod_iff)
  define k where "k = (if m \<le> q then (q - m) div 2 else (q + 1000 - m) div 2)"
  have kq: "2 * k = (if m \<le> q then q - m else q + 1000 - m)" using q(3) m(1) by (auto simp: k_def)
  then have k: "k < 500" using q(2) by (auto split: if_splits)
  have "(unat c + 2 * k) mod 1000 = (m + 2 * k) mod 1000" by (simp add: m_def mod_add_left_eq)
  also have "\<dots> = q"
  proof (cases "m \<le> q")
    case False
    then have "m + 2 * k = q + 1000" using kq m(2) by simp
    then show ?thesis using q(2) by simp
  qed (use kq q(2) in simp)
  finally have "(unat c + 2 * k) mod 1000 = q" .
  moreover have "unat (c + 2 * of_nat k :: 32 word) = unat c + 2 * k"
  proof -
    have "unat (of_nat (2 * k) :: 32 word) = 2 * k mod 2 ^ LENGTH(32)" by (rule unat_of_nat)
    then have "unat (2 * of_nat k :: 32 word) = 2 * k" using k by simp
    then show ?thesis using k assms(2) by (simp add: unat_word_ariths)
  qed
  ultimately have "rtp_port_of (c + 2 * of_nat k) = p" using q
    by (simp add: rtp_port_of_def NGN_RTP_PORT_MIN_def NGN_RTP_PORT_MAX_def Let_def)
  then show ?thesis using k by blast
qed

text \<open>C26. The port of the relay towards the carrier is even, as the carrier demands: it is a port of the
  range that can be bound, or an even port of the system; and before the counter wraps a port of
  the range is given whenever one can be bound.\<close>

theorem relay_port_even:
  assumes "even (unat counter)" "unat counter + 1000 \<le> 2 ^ 32"
  shows "case fst (bind_ngn_rtp_socket free system_ports counter) of
      Some p \<Rightarrow> even p \<and> (free p \<and> NGN_RTP_PORT_MIN \<le> p \<and> p \<le> NGN_RTP_PORT_MAX \<or> Some p \<in> set system_ports)
    | None \<Rightarrow> \<forall>p. even p \<and> NGN_RTP_PORT_MIN \<le> p \<and> p \<le> NGN_RTP_PORT_MAX \<longrightarrow> \<not> free p"
proof (cases "fst (rtp_allocate 500 free counter)")
  case None
  have "\<not> free p" if "even p" "NGN_RTP_PORT_MIN \<le> p" "p \<le> NGN_RTP_PORT_MAX" for p
    using rtp_port_covered [OF assms that] rtp_allocate_tries [OF None] by blast
  then show ?thesis using None rtp_ephemeral_ok [of 50 system_ports]
    by (cases "rtp_allocate 500 free counter") (auto simp: bind_ngn_rtp_socket_def split: option.split)
next
  case (Some p)
  then show ?thesis using rtp_allocate_ok [of 500 free counter p]
    by (cases "rtp_allocate 500 free counter") (auto simp: bind_ngn_rtp_socket_def)
qed

theorem relay_port_even_witness:
  "fst (bind_ngn_rtp_socket (\<lambda>p. p = 30004) [] 0) = Some 30004"
proof -
  define r where "r = fst (bind_ngn_rtp_socket (\<lambda>p. p = 30004) [] 0)"
  have e: "even (unat (0 :: 32 word))" "unat (0 :: 32 word) + 1000 \<le> 2 ^ 32" by simp_all
  have c: "case r of Some p \<Rightarrow> even p \<and> (p = 30004 \<and> NGN_RTP_PORT_MIN \<le> p \<and> p \<le> NGN_RTP_PORT_MAX \<or> Some p \<in> set [])
      | None \<Rightarrow> \<forall>p. even p \<and> NGN_RTP_PORT_MIN \<le> p \<and> p \<le> NGN_RTP_PORT_MAX \<longrightarrow> \<not> p = 30004"
    using relay_port_even [OF e, of "\<lambda>p. p = 30004" "[]"] unfolding r_def .
  have "r = Some 30004"
  proof (cases r)
    case None
    then have "\<forall>p. even p \<and> NGN_RTP_PORT_MIN \<le> p \<and> p \<le> NGN_RTP_PORT_MAX \<longrightarrow> \<not> p = 30004" using c by simp
    from spec [OF this, of 30004] show ?thesis by (simp add: NGN_RTP_PORT_MIN_def NGN_RTP_PORT_MAX_def)
  qed (use c in simp)
  then show ?thesis by (simp add: r_def)
qed

end
