(* ===== verification/Ngn_Inbound.thy ===== *)
theory Ngn_Inbound
  imports Extension_Fork Routing Intercom
begin

text \<open>
  The handler of requests from the carrier (\<^verbatim>\<open>NgnInboundHandler\<close> of
  \<^verbatim>\<open>call/orchestrator.rs\<close>). Every request runs in a task of its own; the work of a task between
  two waits is one step, and the tables the tasks share are the fields of one record. An
  INVITE waits for the fork (or a CANCEL) and then, where the carrier asked for reliable
  provisional responses, for its PRACK; it is known by a number, as is its server transaction, to
  which the table of pending calls refers as well. A panic of a parser ends the task and
  leaves the tables as they are. The draws of a step (clock, random numbers, sockets that can be
  had, the registered extensions, what the forwarder of outgoing calls does) are its environment.
  Push notifications, recording and the counters of other components are left out.
\<close>

section \<open>Configuration and state\<close>

record ngn_config =
  nc_fork_timeout :: nat
  nc_bridge_ngn_bind_ip :: "ip_addr option"
  nc_bridge_ext_bind_ip :: "ip_addr option"
  nc_ngn_local_addr :: "socket_addr option"
  nc_voicemail :: bool
  nc_routing_rules :: "routing_rule list"
  nc_parse_hm :: "string \<Rightarrow> nat option"
  nc_socket_addr :: socket_addr
  nc_layer :: bool

text \<open>The last two are the address of the SIP socket and whether a transaction layer is attached;
  \<^verbatim>\<open>nc_parse_hm\<close> reads times of day for the rules.\<close>

text \<open>The task that repeats a reliable response.\<close>

record rel_timer =
  rl_dest :: socket_addr
  rl_bytes :: string
  rl_started :: nat
  rl_interval :: nat
  rl_at :: nat

record rc100rel_state =
  rc_rseq :: nat
  rc_invite_cseq :: nat
  rc_waiter :: "nat option"
  rc_retransmit :: "rel_timer option"

text \<open>\<^verbatim>\<open>rc_waiter\<close> is the task that took the receiver of the channel.\<close>

datatype prack_outcome = Received | PrackTimeout | NoState

datatype invite_result = InviteAnswered | InviteBusy | InviteTimeout | InviteError

datatype invite_side = NgnSide | ExtensionSide

record 'w webrtc_inbound_entry =
  wi_uas_dialog :: "dialog option"
  wi_layer :: bool
  wi_fallback_peer :: socket_addr
  wi_ws :: 'w
  wi_task :: nat

text \<open>\<^verbatim>\<open>wi_task\<close> is the task that made the entry; it stands for the identity of the shared object.\<close>

record 'w webrtc_outbound_entry =
  wo_ngn_dialog :: uac_dialog
  wo_ws :: 'w
  wo_bridge_call_id :: "64 word"
  wo_last_ngn_offer_sdp :: string
  wo_hold_state :: bool

datatype inbound_bridge =
    BrowserAudio nat socket_addr nat
  | SipRelay nat socket_addr socket_addr
  | SipTranscode nat socket_addr socket_addr nat

text \<open>A task forks until its result is there (with whether a CANCEL has notified it), or waits for the PRACK
  until the given instant (with what woke it).\<close>

datatype 'w invite_phase =
    Forking nat bool
  | AwaitPrack nat "'w fork_answer fork_result" "prack_outcome option"

record ('b, 'w) invite_task =
  it_request :: sip_request
  it_remote :: socket_addr
  it_call_id :: string
  it_bindings :: "(string \<times> 'b) list"
  it_wants_100rel :: bool
  it_timer :: "inbound_session_timer option"
  it_to_tag :: "string option"
  it_phase :: "'w invite_phase"

record ('b, 'w) ngn =
  ns_next :: nat
  ns_txs :: "nat \<rightharpoonup> server_tx"
  ns_tasks :: "nat \<rightharpoonup> ('b, 'w) invite_task"
  ns_pending :: "string \<rightharpoonup> nat"
  ns_in_flight :: "string \<rightharpoonup> nat"
  ns_rc100rel :: "string \<rightharpoonup> rc100rel_state"
  ns_active :: "string \<rightharpoonup> 64 word option"
  ns_webrtc :: "string \<rightharpoonup> 'w webrtc_inbound_entry"
  ns_closing :: "(string \<times> 'w webrtc_inbound_entry) set"
  ns_bye_sent :: "(string \<times> 'w webrtc_inbound_entry) set"
  ns_outbound :: "string \<rightharpoonup> 'w webrtc_outbound_entry"
  ns_voicemail :: "string set"
  ns_manager :: "inbound_bridge call_manager option"
  ns_rtp_counter :: "32 word"
  ns_call_log :: "call_log option"
  ns_message_log :: "message_log option"
  ns_call_active :: nat
  ns_invites :: "(invite_side \<times> invite_result) list"
  ns_out :: "datagram list"
  ns_requests :: "(sip_request \<times> socket_addr) list"
  ns_pushed :: "('w \<times> ws_message) list"
  ns_panicked :: "nat set"

record 'b ngn_env =
  en_now :: nat
  en_wall :: nat
  en_to :: "32 word"
  en_tag :: "32 word"
  en_rseq :: nat
  en_branch :: "64 word"
  en_weekday :: weekday
  en_clock :: nat
  en_snapshot :: "(string \<times> 'b) list"
  en_reinvite :: "sip_response list option"
  en_bye_taken :: bool
  en_free :: "nat \<Rightarrow> bool"
  en_system_ports :: "nat option list"
  en_ext_socket :: "ip_addr \<Rightarrow> bool"
  en_bridge_ok :: bool

text \<open>\<^verbatim>\<open>en_now\<close> and \<^verbatim>\<open>en_wall\<close> are milliseconds. \<^verbatim>\<open>en_reinvite\<close> are the responses the forwarder gives to
  a request inside an outgoing call, when it takes it.\<close>

definition wall_secs :: "'b ngn_env \<Rightarrow> nat" where
  "wall_secs env = en_wall env div 1000"

definition ngn_contact_addr :: "ngn_config \<Rightarrow> socket_addr" where
  "ngn_contact_addr cfg = (case nc_ngn_local_addr cfg of Some a \<Rightarrow> a | None \<Rightarrow> nc_socket_addr cfg)"

definition ip_unspecified :: "ip_addr \<Rightarrow> bool" where
  "ip_unspecified ip = (case ip of V4 a b c d \<Rightarrow> a = 0 \<and> b = 0 \<and> c = 0 \<and> d = 0 | V6 s \<Rightarrow> list_all (\<lambda>g. g = 0) s)"

definition bridge_ngn_ip :: "ngn_config \<Rightarrow> ip_addr" where
  "bridge_ngn_ip cfg =
     (case nc_bridge_ngn_bind_ip cfg of
        Some ip \<Rightarrow> ip
      | None \<Rightarrow>
          if \<not> ip_unspecified (sa_ip (nc_socket_addr cfg)) then sa_ip (nc_socket_addr cfg) else V4 127 0 0 1)"

definition bridge_ext_ip :: "ngn_config \<Rightarrow> ip_addr" where
  "bridge_ext_ip cfg = (case nc_bridge_ext_bind_ip cfg of Some ip \<Rightarrow> ip | None \<Rightarrow> bridge_ngn_ip cfg)"

section \<open>Answers\<close>

text \<open>A response through the transaction of a call.\<close>

definition send_on :: "nat \<Rightarrow> nat \<Rightarrow> sip_response \<Rightarrow> ('b, 'w) ngn \<Rightarrow> ('b, 'w) ngn" where
  "send_on now k resp s =
     (case ns_txs s k of
        Some tx \<Rightarrow> s\<lparr>ns_out := ns_out s @ fst (respond tx resp now), ns_txs := (ns_txs s)(k \<mapsto> snd (respond tx resp now))\<rparr>
      | None \<Rightarrow> s)"

definition ngn_respond :: "'b ngn_env \<Rightarrow> nat \<Rightarrow> sip_request \<Rightarrow> nat \<Rightarrow> string \<Rightarrow> ('b, 'w) ngn \<Rightarrow> ('b, 'w) ngn" where
  "ngn_respond env k request status reason s =
     send_on (en_now env) k (ensure_to_tag (en_tag env) (build_response_skeleton (en_to env) request status reason)) s"

text \<open>A request that is answered at once, in a transaction of its own; there is none without a usable Via.\<close>

definition answer_once ::
  "'b ngn_env \<Rightarrow> sip_request \<Rightarrow> socket_addr \<Rightarrow> (sip_response \<Rightarrow> sip_response) \<Rightarrow> nat \<Rightarrow> string \<Rightarrow> ('b, 'w) ngn \<Rightarrow> ('b, 'w) ngn option" where
  "answer_once env request remote change status reason s =
     (case server_new request remote of
        Inl _ \<Rightarrow> None
      | Inr tx \<Rightarrow>
          Some (s\<lparr>ns_out := ns_out s
                   @ fst (respond tx (change (build_response_skeleton (en_to env) (st_request tx) status reason)) (en_now env))\<rparr>))"

definition with_allow :: "sip_response \<Rightarrow> sip_response" where
  "with_allow resp = resp\<lparr>resp_headers := hdr_set ''Allow'' NGN_METHODS_ALLOW (resp_headers resp)\<rparr>"

definition answer_allow :: "'b ngn_env \<Rightarrow> sip_request \<Rightarrow> socket_addr \<Rightarrow> nat \<Rightarrow> string \<Rightarrow> ('b, 'w) ngn \<Rightarrow> ('b, 'w) ngn" where
  "answer_allow env request remote status reason s =
     (case answer_once env request remote with_allow status reason s of Some s' \<Rightarrow> s' | None \<Rightarrow> s)"

section \<open>Books\<close>

definition log_start :: "'b ngn_env \<Rightarrow> string \<Rightarrow> string \<Rightarrow> ('b, 'w) ngn \<Rightarrow> ('b, 'w) ngn" where
  "log_start env number cid s =
     s\<lparr>ns_call_log := map_option (\<lambda>cl. record_start (en_wall env) cl Inbound number cid) (ns_call_log s)\<rparr>"

definition log_end :: "'b ngn_env \<Rightarrow> string \<Rightarrow> call_outcome \<Rightarrow> ('b, 'w) ngn \<Rightarrow> ('b, 'w) ngn" where
  "log_end env cid outcome s =
     s\<lparr>ns_call_log := map_option (\<lambda>cl. record_end (en_wall env) cl cid outcome) (ns_call_log s)\<rparr>"

definition forget_pending :: "string \<Rightarrow> ('b, 'w) ngn \<Rightarrow> ('b, 'w) ngn" where
  "forget_pending cid s = s\<lparr>ns_pending := (ns_pending s)(cid := None)\<rparr>"

definition count_invites :: "(invite_side \<times> invite_result) list \<Rightarrow> ('b, 'w) ngn \<Rightarrow> ('b, 'w) ngn" where
  "count_invites rs s = s\<lparr>ns_invites := ns_invites s @ rs\<rparr>"

definition inc_call_active :: "('b, 'w) ngn \<Rightarrow> ('b, 'w) ngn" where
  "inc_call_active s = s\<lparr>ns_call_active := ns_call_active s + 1\<rparr>"

definition dec_call_active :: "('b, 'w) ngn \<Rightarrow> ('b, 'w) ngn" where
  "dec_call_active s = s\<lparr>ns_call_active := ns_call_active s - 1\<rparr>"

text \<open>The end of a task: it returns or panics.\<close>

definition task_panics :: "nat \<Rightarrow> ('b, 'w) ngn \<Rightarrow> ('b, 'w) ngn" where
  "task_panics k s = s\<lparr>ns_panicked := insert k (ns_panicked s)\<rparr>"

definition end_task :: "nat \<Rightarrow> ('b, 'w) ngn \<Rightarrow> ('b, 'w) ngn" where
  "end_task k s = s\<lparr>ns_tasks := (ns_tasks s)(k := None)\<rparr>"

definition stop_call :: "64 word option option \<Rightarrow> ('b, 'w) ngn \<Rightarrow> ('b, 'w) ngn" where
  "stop_call removed s =
     (case (removed, ns_manager s) of
        (Some (Some i), Some mgr) \<Rightarrow> s\<lparr>ns_manager := Some (snd (call_terminate mgr i))\<rparr>
      | _ \<Rightarrow> s)"

section \<open>Reliable provisional responses\<close>

text \<open>What the channel of a state gives the task that waits on it.\<close>

definition wake :: "prack_outcome \<Rightarrow> rc100rel_state \<Rightarrow> ('b, 'w) ngn \<Rightarrow> ('b, 'w) ngn" where
  "wake outcome st s =
     (case rc_waiter st of
        None \<Rightarrow> s
      | Some k \<Rightarrow>
          (case ns_tasks s k of
             Some t \<Rightarrow>
               (case it_phase t of
                  AwaitPrack d result None \<Rightarrow> s\<lparr>ns_tasks := (ns_tasks s)(k \<mapsto> t\<lparr>it_phase := AwaitPrack d result (Some outcome)\<rparr>)\<rparr>
                | _ \<Rightarrow> s)
           | None \<Rightarrow> s))"

definition remove_rc100rel :: "prack_outcome \<Rightarrow> string \<Rightarrow> ('b, 'w) ngn \<Rightarrow> ('b, 'w) ngn" where
  "remove_rc100rel outcome cid s =
     (case ns_rc100rel s cid of
        None \<Rightarrow> s
      | Some st \<Rightarrow> wake outcome st (s\<lparr>ns_rc100rel := (ns_rc100rel s)(cid := None)\<rparr>))"

definition cleanup_rc100rel :: "string \<Rightarrow> ('b, 'w) ngn \<Rightarrow> ('b, 'w) ngn" where
  "cleanup_rc100rel cid s = remove_rc100rel NoState cid s"

definition insert_rc100rel :: "string \<Rightarrow> rc100rel_state \<Rightarrow> ('b, 'w) ngn \<Rightarrow> ('b, 'w) ngn" where
  "insert_rc100rel cid st s =
     (let s1 = remove_rc100rel NoState cid s in s1\<lparr>ns_rc100rel := (ns_rc100rel s1)(cid \<mapsto> st)\<rparr>)"

definition rack_matches :: "rc100rel_state \<Rightarrow> nat \<times> nat \<times> string \<Rightarrow> bool" where
  "rack_matches st r \<longleftrightarrow>
     (let (rseq, cseq_num, method) = r
      in rseq = rc_rseq st \<and> cseq_num = rc_invite_cseq st \<and> eq_ignore_case method ''INVITE'')"

definition handle_prack :: "'b ngn_env \<Rightarrow> sip_request \<Rightarrow> socket_addr \<Rightarrow> ('b, 'w) ngn \<Rightarrow> ('b, 'w) ngn" where
  "handle_prack env request remote s =
     (let refuse = answer_allow env request remote 481 ''Call/Transaction Does Not Exist'' s
      in case (hdr_get (req_headers request) ''call-id'', hdr_get (req_headers request) ''rack'') of
           (Some cid, Some rack_header) \<Rightarrow>
             (case (ns_rc100rel s cid, parse_rack_header rack_header) of
                (Some st, Some r) \<Rightarrow>
                  if rack_matches st r
                  then (case answer_once env request remote id 200 ''OK'' s of
                          Some s1 \<Rightarrow> remove_rc100rel Received cid s1
                        | None \<Rightarrow> s)
                  else refuse
              | _ \<Rightarrow> refuse)
         | _ \<Rightarrow> refuse)"

text \<open>Repeating a reliable response: with doubled pauses, for half a minute.\<close>

definition spawn_retransmit :: "nat \<Rightarrow> socket_addr \<Rightarrow> string \<Rightarrow> rel_timer" where
  "spawn_retransmit now dest bytes =
     \<lparr>rl_dest = dest, rl_bytes = bytes, rl_started = now, rl_interval = 500, rl_at = now + 500\<rparr>"

definition retransmit_tick :: "nat \<Rightarrow> rel_timer \<Rightarrow> datagram list \<times> rel_timer option" where
  "retransmit_tick now rl =
     (if now - rl_started rl \<ge> 32000 then ([], None)
      else
        (let interval = min (rl_interval rl * 2) 4000
         in ([(rl_dest rl, rl_bytes rl)], Some (rl\<lparr>rl_interval := interval, rl_at := now + interval\<rparr>))))"

definition rel_timer_fires :: "nat \<Rightarrow> string \<Rightarrow> ('b, 'w) ngn \<Rightarrow> ('b, 'w) ngn" where
  "rel_timer_fires now cid s =
     (case ns_rc100rel s cid of
        None \<Rightarrow> s
      | Some st \<Rightarrow>
          (case rc_retransmit st of
             None \<Rightarrow> s
           | Some rl \<Rightarrow>
               if now < rl_at rl then s
               else
                 (let (out, rl') = retransmit_tick now rl
                  in s\<lparr>ns_rc100rel := (ns_rc100rel s)(cid \<mapsto> st\<lparr>rc_retransmit := rl'\<rparr>), ns_out := ns_out s @ out\<rparr>)))"

text \<open>The start of the wait: the state of the Call-ID gives its receiver away once.\<close>

definition PRACK_TIMER :: nat where "PRACK_TIMER = 32000"

definition wait_for_prack ::
  "nat \<Rightarrow> nat \<Rightarrow> ('b, 'w) invite_task \<Rightarrow> 'w fork_answer fork_result \<Rightarrow> ('b, 'w) ngn \<Rightarrow> ('b, 'w) ngn option" where
  "wait_for_prack now k t result s =
     (case ns_rc100rel s (it_call_id t) of
        None \<Rightarrow> None
      | Some st \<Rightarrow>
          if rc_waiter st \<noteq> None then None
          else Some (s\<lparr>ns_rc100rel := (ns_rc100rel s)(it_call_id t \<mapsto> st\<lparr>rc_waiter := Some k\<rparr>),
                       ns_tasks := (ns_tasks s)(k \<mapsto> t\<lparr>it_phase := AwaitPrack (now + PRACK_TIMER) result None\<rparr>)\<rparr>))"

section \<open>The bridge of an answered call\<close>

datatype bridge_error = BridgePanic | BridgeFailed

definition bridge_res :: "sdp_error + 'a \<Rightarrow> bridge_error + 'a" where
  "bridge_res r = (case r of Inl e \<Rightarrow> Inl (if e = SlicePanic then BridgePanic else BridgeFailed) | Inr x \<Rightarrow> Inr x)"

text \<open>The description for the carrier: the formats both sides have, pointed at the relay.\<close>

definition body_to_ngn :: "nat \<Rightarrow> string \<Rightarrow> string \<Rightarrow> ip_addr \<Rightarrow> nat \<Rightarrow> bridge_error + string" where
  "body_to_ngn now_secs ngn_offer ext_answer ip port =
     bridge_res (res_bind (restrict_answer_to_ngn_offer_subset ngn_offer ext_answer)
       (\<lambda>pcmu_only. rewrite_rtp_endpoint now_secs pcmu_only ip port))"

definition bridge_plan ::
  "ngn_config \<Rightarrow> 'b ngn_env \<Rightarrow> string \<Rightarrow> string \<Rightarrow> socket_addr \<Rightarrow> nat option \<Rightarrow> nat option \<Rightarrow> bridge_error + string \<times> inbound_bridge" where
  "bridge_plan cfg env ngn_offer ext_answer ngn_peer opus_pt port =
     res_bind (ok_or BridgeFailed port) (\<lambda>ngn_port.
       let body = body_to_ngn (wall_secs env) ngn_offer ext_answer (bridge_ngn_ip cfg) ngn_port
       in case opus_pt of
            Some pt \<Rightarrow> res_bind body (\<lambda>b. Inr (b, BrowserAudio ngn_port ngn_peer pt))
          | None \<Rightarrow>
              res_bind (bridge_res (extract_rtp_endpoint ext_answer)) (\<lambda>ext_peer.
                if \<not> en_ext_socket env (bridge_ext_ip cfg) then Inl BridgeFailed
                else res_bind body (\<lambda>b.
                  if \<not> en_bridge_ok env then Inl BridgeFailed
                  else Inr (b, case select_media_plan ngn_offer ext_answer of
                                 Relay \<Rightarrow> SipRelay ngn_port ngn_peer ext_peer
                               | Transcode pt \<Rightarrow> SipTranscode ngn_port ngn_peer ext_peer pt))))"

definition bind_relay :: "'b ngn_env \<Rightarrow> ('b, 'w) ngn \<Rightarrow> nat option \<times> ('b, 'w) ngn" where
  "bind_relay env s =
     (case bind_ngn_rtp_socket (en_free env) (en_system_ports env) (ns_rtp_counter s) of
        (port, counter) \<Rightarrow> (port, s\<lparr>ns_rtp_counter := counter\<rparr>))"

definition start_bridge_for_inbound ::
  "ngn_config \<Rightarrow> 'b ngn_env \<Rightarrow> string \<Rightarrow> string \<Rightarrow> string \<Rightarrow> nat option \<Rightarrow> ('b, 'w) ngn \<Rightarrow> (bridge_error + string) \<times> ('b, 'w) ngn" where
  "start_bridge_for_inbound cfg env ngn_offer ext_answer cid opus_pt s =
     (case ns_manager s of
        None \<Rightarrow> (Inl BridgeFailed, s)
      | Some mgr \<Rightarrow>
          if ngn_offer = [] \<or> ext_answer = [] then (Inl BridgeFailed, s)
          else
            (case bridge_res (extract_rtp_endpoint ngn_offer) of
               Inl e \<Rightarrow> (Inl e, s)
             | Inr ngn_peer \<Rightarrow>
                 (let (port, s1) = bind_relay env s
                  in case bridge_plan cfg env ngn_offer ext_answer ngn_peer opus_pt port of
                       Inl e \<Rightarrow> (Inl e, s1)
                     | Inr (body, bridge) \<Rightarrow>
                         (let (i, mgr1) = create_call mgr
                          in case attach_media_bridge mgr1 i bridge of
                               Inl _ \<Rightarrow> (Inl BridgeFailed, s1\<lparr>ns_manager := Some mgr1\<rparr>)
                             | Inr mgr2 \<Rightarrow>
                                 (Inr body, s1\<lparr>ns_manager := Some mgr2, ns_active := (ns_active s1)(cid \<mapsto> Some i)\<rparr>)))))"

text \<open>The packet time of the offer is repeated in the answer.\<close>

definition echo_ptime :: "string \<Rightarrow> string \<Rightarrow> bridge_error + string" where
  "echo_ptime ngn_offer body =
     (if body = [] then Inr body
      else bridge_res (res_bind (extract_ptime_from_offer ngn_offer) (\<lambda>p.
             case p of Some ptime \<Rightarrow> ensure_ptime_in_answer body ptime | None \<Rightarrow> Inr body)))"

section \<open>Voicemail\<close>

definition set_contact :: "ngn_config \<Rightarrow> sip_response \<Rightarrow> sip_response" where
  "set_contact cfg resp =
     resp\<lparr>resp_headers := hdr_set ''Contact'' (''<sip:sabiden@'' @ socket_display (ngn_contact_addr cfg) @ ''>'') (resp_headers resp)\<rparr>"

definition set_sdp :: "string \<Rightarrow> sip_response \<Rightarrow> sip_response" where
  "set_sdp body resp =
     resp\<lparr>resp_body := body, resp_headers := hdr_set ''Content-Type'' ''application/sdp'' (resp_headers resp)\<rparr>"

text \<open>Whether the call was answered for the recorder; an error is a panic.\<close>

definition try_start_voicemail ::
  "ngn_config \<Rightarrow> 'b ngn_env \<Rightarrow> nat \<Rightarrow> sip_request \<Rightarrow> string \<Rightarrow> ('b, 'w) ngn \<Rightarrow> (bridge_error + bool) \<times> ('b, 'w) ngn" where
  "try_start_voicemail cfg env k request cid s =
     (if \<not> nc_voicemail cfg \<or> req_body request = [] then (Inr False, s)
      else
        (case bind_relay env s of
           (None, s1) \<Rightarrow> (Inr False, s1)
         | (Some port, s1) \<Rightarrow>
             (case bridge_res (rewrite_rtp_endpoint (wall_secs env) (req_body request) (bridge_ngn_ip cfg) port) of
                Inl BridgePanic \<Rightarrow> (Inl BridgePanic, s1)
              | Inl BridgeFailed \<Rightarrow> (Inr False, s1)
              | Inr rewritten \<Rightarrow>
                  (let resp = ensure_to_tag (en_tag env) (set_sdp rewritten (build_response_skeleton (en_to env) request 200 ''OK''));
                       s2 = send_on (en_now env) k (set_contact cfg (apply_uas_inbound_2xx_headers (wall_secs env) resp)) s1
                   in (Inr True, s2\<lparr>ns_voicemail := insert cid (ns_voicemail s2)\<rparr>)))))"

section \<open>An INVITE arrives\<close>

definition remote_number_of :: "sip_request \<Rightarrow> string" where
  "remote_number_of request =
     (case hdr_get (req_headers request) ''from'' of
        Some f \<Rightarrow> (let uri = extract_uri_from_addr f in case extract_user_from_sip_uri uri of Some u \<Rightarrow> u | None \<Rightarrow> uri)
      | None \<Rightarrow> ''unknown'')"

definition from_number_of :: "sip_request \<Rightarrow> string" where
  "from_number_of request =
     (case Option.bind (hdr_get (req_headers request) ''from'') (\<lambda>f. extract_user_from_sip_uri (extract_uri_from_addr f)) of
        Some u \<Rightarrow> u
      | None \<Rightarrow> ''unknown'')"

definition invite_cseq_of :: "sip_request \<Rightarrow> nat" where
  "invite_cseq_of request =
     (case Option.bind (hdr_get (req_headers request) ''cseq'') (\<lambda>v.
             case split_whitespace v of n # _ \<Rightarrow> parse_uint 32 n | [] \<Rightarrow> None) of
        Some n \<Rightarrow> n
      | None \<Rightarrow> 0)"

definition wants_100rel :: "sip_request \<Rightarrow> bool" where
  "wants_100rel request \<longleftrightarrow>
     header_has_option_tag (hdr_get (req_headers request) ''supported'') OPTION_TAG_100REL
     \<or> header_has_option_tag (hdr_get (req_headers request) ''require'') OPTION_TAG_100REL"

definition invite_timer :: "sip_request \<Rightarrow> inbound_session_timer option" where
  "invite_timer request = Option.bind (hdr_get (req_headers request) ''session-expires'') parse_session_expires_header"

definition invite_min_se :: "sip_request \<Rightarrow> nat" where
  "invite_min_se request =
     max (case Option.bind (hdr_get (req_headers request) ''min-se'') parse_min_se_header of Some m \<Rightarrow> m | None \<Rightarrow> MIN_SE) MIN_SE"

definition in_dialog :: "sip_request \<Rightarrow> bool" where
  "in_dialog request \<longleftrightarrow> (case hdr_get (req_headers request) ''to'' of Some v \<Rightarrow> has_to_tag v | None \<Rightarrow> False)"

text \<open>The two refusals that come with a header field.\<close>

definition bad_extension :: "'b ngn_env \<Rightarrow> nat \<Rightarrow> sip_request \<Rightarrow> string list \<Rightarrow> string \<Rightarrow> ('b, 'w) ngn \<Rightarrow> ('b, 'w) ngn" where
  "bad_extension env k request unsupported cid s =
     (let resp = build_response_skeleton (en_to env) request 420 ''Bad Extension'';
          resp1 = resp\<lparr>resp_headers := hdr_set ''Unsupported'' (join '', '' unsupported) (resp_headers resp)\<rparr>
      in log_end env cid (Failed 420) (count_invites [(NgnSide, InviteError)]
           (forget_pending cid (send_on (en_now env) k (ensure_to_tag (en_tag env) resp1) s))))"

definition interval_too_small :: "'b ngn_env \<Rightarrow> nat \<Rightarrow> sip_request \<Rightarrow> string \<Rightarrow> ('b, 'w) ngn \<Rightarrow> ('b, 'w) ngn" where
  "interval_too_small env k request cid s =
     (let resp = build_response_skeleton (en_to env) request 422 ''Session Interval Too Small'';
          resp1 = resp\<lparr>resp_headers := hdr_set ''Min-SE'' (dec (invite_min_se request)) (resp_headers resp)\<rparr>
      in log_end env cid (Failed 422) (forget_pending cid (send_on (en_now env) k (ensure_to_tag (en_tag env) resp1) s)))"

text \<open>A request inside a call: the forwarder's responses, or a refusal.\<close>

definition inbound_reinvite :: "'b ngn_env \<Rightarrow> nat \<Rightarrow> sip_request \<Rightarrow> string \<Rightarrow> ('b, 'w) ngn \<Rightarrow> ('b, 'w) ngn" where
  "inbound_reinvite env k request cid s =
     (case en_reinvite env of
        Some resps \<Rightarrow> fold (send_on (en_now env) k) resps s
      | None \<Rightarrow>
          log_end env cid (Failed 481) (forget_pending cid
            (ngn_respond env k request 481 ''Call/Transaction Does Not Exist'' s)))"

text \<open>No extension is there to be called.\<close>

definition nobody_home :: "ngn_config \<Rightarrow> 'b ngn_env \<Rightarrow> nat \<Rightarrow> sip_request \<Rightarrow> string \<Rightarrow> ('b, 'w) ngn \<Rightarrow> ('b, 'w) ngn" where
  "nobody_home cfg env k request cid s =
     (case try_start_voicemail cfg env k request cid s of
        (Inl _, s1) \<Rightarrow> task_panics k s1
      | (Inr True, s1) \<Rightarrow> inc_call_active s1
      | (Inr False, s1) \<Rightarrow>
          log_end env cid Missed (count_invites [(NgnSide, InviteError)] (forget_pending cid
            (ngn_respond env k request 480 ''Temporarily Unavailable'' s1))))"

text \<open>The ringing response, and what a reliable one adds to it. Its Via is set by the transaction.\<close>

definition ringing_response :: "ngn_config \<Rightarrow> 'b ngn_env \<Rightarrow> sip_request \<Rightarrow> sip_response" where
  "ringing_response cfg env request =
     ensure_to_tag (en_tag env) (apply_uas_inbound_2xx_headers (wall_secs env)
       (set_contact cfg (build_response_skeleton (en_to env) request 180 ''Ringing'')))"

definition reliable_ringing :: "nat \<Rightarrow> string \<Rightarrow> sip_response \<Rightarrow> sip_response" where
  "reliable_ringing rseq resp_via resp =
     resp\<lparr>resp_headers := hdr_set ''Via'' resp_via
       (hdr_set ''RSeq'' (dec rseq) (hdr_set ''Require'' OPTION_TAG_100REL (resp_headers resp)))\<rparr>"

definition start_ringing ::
  "ngn_config \<Rightarrow> 'b ngn_env \<Rightarrow> nat \<Rightarrow> server_tx \<Rightarrow> sip_request \<Rightarrow> socket_addr \<Rightarrow> string \<Rightarrow> (string \<times> 'b) list \<Rightarrow>
   ('b, 'w) ngn \<Rightarrow> ('b, 'w) ngn" where
  "start_ringing cfg env k tx request remote cid bindings s =
     (let rel = wants_100rel request;
          ringing0 = ringing_response cfg env request;
          ringing = (if rel then reliable_ringing (en_rseq env) (st_response_via tx) ringing0 else ringing0);
          s1 = (if rel then insert_rc100rel cid
                  \<lparr>rc_rseq = en_rseq env, rc_invite_cseq = invite_cseq_of request, rc_waiter = None,
                   rc_retransmit = Some (spawn_retransmit (en_now env) (st_response_dest tx) (response_to_bytes ringing))\<rparr> s
                else s);
          tag = Option.bind (hdr_get (resp_headers ringing) ''to'') extract_to_tag;
          s2 = send_on (en_now env) k ringing s1
      in s2\<lparr>ns_in_flight := (ns_in_flight s2)(cid \<mapsto> k),
            ns_tasks := (ns_tasks s2)(k \<mapsto>
              \<lparr>it_request = request, it_remote = remote, it_call_id = cid, it_bindings = bindings, it_wants_100rel = rel,
               it_timer = invite_timer request, it_to_tag = tag, it_phase = Forking (en_now env) False\<rparr>)\<rparr>)"

definition ngn_handle_invite :: "ngn_config \<Rightarrow> 'b ngn_env \<Rightarrow> sip_request \<Rightarrow> socket_addr \<Rightarrow> ('b, 'w) ngn \<Rightarrow> ('b, 'w) ngn" where
  "ngn_handle_invite cfg env request remote s =
     (case (hdr_get (req_headers request) ''call-id'', server_new request remote) of
        (Some cid, Inr tx) \<Rightarrow>
          (let k = ns_next s;
               s1 = s\<lparr>ns_next := k + 1, ns_txs := (ns_txs s)(k \<mapsto> tx), ns_pending := (ns_pending s)(cid \<mapsto> k)\<rparr>;
               s2 = send_on (en_now env) k (build_response_skeleton (en_to env) request 100 ''Trying'') s1;
               s3 = log_start env (remote_number_of request) cid s2;
               unsupported = (case hdr_get (req_headers request) ''require'' of
                                Some r \<Rightarrow> unsupported_option_tags r | None \<Rightarrow> [])
           in if unsupported \<noteq> [] then bad_extension env k request unsupported cid s3
              else if \<not> in_dialog request
                \<and> (case invite_timer request of Some t \<Rightarrow> is_session_expires t < invite_min_se request | None \<Rightarrow> False)
              then interval_too_small env k request cid s3
              else if in_dialog request then inbound_reinvite env k request cid s3
              else
                (case evaluate_rules (nc_parse_hm cfg) (nc_routing_rules cfg) (en_weekday env) (en_clock env)
                        (from_number_of request) (en_snapshot env) of
                   Inl _ \<Rightarrow> task_panics k s3
                 | Inr decision \<Rightarrow>
                     (let bindings = (case decision of Matched _ filtered \<Rightarrow> filtered | NoRule \<Rightarrow> en_snapshot env)
                      in if bindings = [] then nobody_home cfg env k request cid s3
                         else start_ringing cfg env k tx request remote cid bindings s3)))
      | _ \<Rightarrow> s)"

section \<open>The end of the wait\<close>

text \<open>The 200 to the carrier: it keeps the tag of the ringing response.\<close>

definition keep_to_tag :: "string option \<Rightarrow> 32 word \<Rightarrow> sip_request \<Rightarrow> sip_response \<Rightarrow> sip_response" where
  "keep_to_tag dialog_to_tag rnd request resp =
     (case dialog_to_tag of
        None \<Rightarrow> ensure_to_tag rnd resp
      | Some tag \<Rightarrow>
          (case hdr_get (req_headers request) ''to'' of
             None \<Rightarrow> resp
           | Some orig_to \<Rightarrow>
               resp\<lparr>resp_headers :=
                 hdr_set ''To'' (if has_to_tag orig_to then orig_to else orig_to @ '';tag='' @ tag) (resp_headers resp)\<rparr>))"

definition echo_timer :: "inbound_session_timer option \<Rightarrow> sip_response \<Rightarrow> sip_response" where
  "echo_timer timer resp =
     (case timer of
        None \<Rightarrow> resp
      | Some t \<Rightarrow>
          resp\<lparr>resp_headers := hdr_set ''Require'' ''timer''
            (hdr_set ''Session-Expires''
              (dec (max (is_session_expires t) MIN_SE) @ '';refresher='' @ resolve_response_refresher (is_refresher t))
              (resp_headers resp))\<rparr>)"

definition answer_to_ngn :: "ngn_config \<Rightarrow> 'b ngn_env \<Rightarrow> ('b, 'w) invite_task \<Rightarrow> string \<Rightarrow> sip_response" where
  "answer_to_ngn cfg env t body =
     (let resp = build_response_skeleton (en_to env) (it_request t) 200 ''OK'';
          resp1 = (if body \<noteq> [] then set_sdp body resp else resp);
          resp2 = keep_to_tag (it_to_tag t) (en_tag env) (it_request t) resp1
      in set_contact cfg (apply_uas_inbound_2xx_headers (wall_secs env) (echo_timer (it_timer t) resp2)))"

definition inbound_dialog :: "ngn_config \<Rightarrow> sip_request \<Rightarrow> sip_response \<Rightarrow> dialog option" where
  "inbound_dialog cfg request resp =
     (let contact_addr = socket_display (ngn_contact_addr cfg); contact_uri = ''sip:sabiden@'' @ contact_addr
      in res_ok (from_uas_invite request resp
           \<lparr>cfg_local_uri = (case hdr_get (req_headers request) ''to'' of Some v \<Rightarrow> extract_uri v | None \<Rightarrow> contact_uri),
            cfg_remote_uri = (case hdr_get (req_headers request) ''from'' of Some v \<Rightarrow> extract_uri v | None \<Rightarrow> ''sip:unknown@unknown''),
            cfg_local_contact = contact_uri, cfg_sent_by = contact_addr\<rparr>))"

text \<open>The bridge of an answered call could not be had: the call is given up, or the answer passed on as it is.\<close>

definition bad_gateway :: "'b ngn_env \<Rightarrow> nat \<Rightarrow> ('b, 'w) invite_task \<Rightarrow> 'w option \<Rightarrow> ('b, 'w) ngn \<Rightarrow> ('b, 'w) ngn" where
  "bad_gateway env k t ws s =
     (let cid = it_call_id t;
          s1 = (case ws of Some w \<Rightarrow> s\<lparr>ns_pushed := ns_pushed s @ [(w, WsCancel cid)]\<rparr> | None \<Rightarrow> s)
      in count_invites [(ExtensionSide, InviteError), (NgnSide, InviteError)] (forget_pending cid
           (ngn_respond env k (it_request t) 502 ''Bad Gateway'' (cleanup_rc100rel cid s1))))"

definition establish ::
  "ngn_config \<Rightarrow> 'b ngn_env \<Rightarrow> nat \<Rightarrow> ('b, 'w) invite_task \<Rightarrow> string \<Rightarrow> 'w option \<Rightarrow> ('b, 'w) ngn \<Rightarrow> ('b, 'w) ngn" where
  "establish cfg env k t body ws s =
     (let cid = it_call_id t;
          resp = answer_to_ngn cfg env t body;
          s1 = count_invites [(NgnSide, InviteAnswered), (ExtensionSide, InviteAnswered)] (send_on (en_now env) k resp s);
          s2 = s1\<lparr>ns_active := (ns_active s1)(cid \<mapsto> (case ns_active s1 cid of Some b \<Rightarrow> b | None \<Rightarrow> None))\<rparr>;
          s3 = (case ws of
                  None \<Rightarrow> s2
                | Some w \<Rightarrow> s2\<lparr>ns_webrtc := (ns_webrtc s2)(cid \<mapsto>
                    \<lparr>wi_uas_dialog = inbound_dialog cfg (it_request t) resp, wi_layer = nc_layer cfg,
                     wi_fallback_peer = it_remote t, wi_ws = w, wi_task = k\<rparr>)\<rparr>)
      in inc_call_active s3)"

definition call_answered ::
  "ngn_config \<Rightarrow> 'b ngn_env \<Rightarrow> nat \<Rightarrow> ('b, 'w) invite_task \<Rightarrow> 'w fork_answer \<Rightarrow> ('b, 'w) ngn \<Rightarrow> ('b, 'w) ngn" where
  "call_answered cfg env k t a s =
     (let offer = req_body (it_request t); answer = resp_body (fa_response a);
          (r, s1) = start_bridge_for_inbound cfg env offer answer (it_call_id t) (fa_opus_pt a) s;
          settle = (\<lambda>body. case echo_ptime offer body of
                      Inl _ \<Rightarrow> task_panics k s1
                    | Inr b \<Rightarrow> cleanup_rc100rel (it_call_id t) (establish cfg env k t b (fa_ws a) s1))
      in case r of
           Inl BridgePanic \<Rightarrow> task_panics k s1
         | Inl BridgeFailed \<Rightarrow>
             if ns_manager s \<noteq> None \<or> is_undirected_or_webrtc_placeholder_sdp answer
             then bad_gateway env k t (fa_ws a) s1 else settle answer
         | Inr body \<Rightarrow> settle body)"

text \<open>Nobody answered: the recorder takes the call, or it is refused with the status.\<close>

definition call_failed ::
  "ngn_config \<Rightarrow> 'b ngn_env \<Rightarrow> nat \<Rightarrow> ('b, 'w) invite_task \<Rightarrow> nat \<Rightarrow> string \<Rightarrow> invite_result \<Rightarrow> ('b, 'w) ngn \<Rightarrow> ('b, 'w) ngn" where
  "call_failed cfg env k t code reason result s =
     (let cid = it_call_id t
      in case try_start_voicemail cfg env k (it_request t) cid s of
           (Inl _, s1) \<Rightarrow> task_panics k s1
         | (Inr True, s1) \<Rightarrow> cleanup_rc100rel cid (inc_call_active s1)
         | (Inr False, s1) \<Rightarrow>
             cleanup_rc100rel cid (log_end env cid Missed
               (count_invites [(ExtensionSide, result), (NgnSide, result)] (forget_pending cid
                 (ngn_respond env k (it_request t) code reason s1)))))"

definition conclude ::
  "ngn_config \<Rightarrow> 'b ngn_env \<Rightarrow> nat \<Rightarrow> ('b, 'w) invite_task \<Rightarrow> 'w fork_answer fork_result \<Rightarrow> ('b, 'w) ngn \<Rightarrow> ('b, 'w) ngn" where
  "conclude cfg env k t result s =
     end_task k
       (case result of
          ForkAnswered winner_uri a \<Rightarrow> call_answered cfg env k t a s
        | AllFailed last_status \<Rightarrow>
            (let code = (case last_status of Some c \<Rightarrow> c | None \<Rightarrow> 486)
             in call_failed cfg env k t code (reason_phrase_for_status code)
                  (if code = 486 then InviteBusy else InviteError) s)
        | ForkTimeout \<Rightarrow> call_failed cfg env k t 408 ''Request Timeout'' InviteTimeout s)"

text \<open>The three ways out of the waits. A CANCEL that has notified the task comes first.\<close>

definition call_cancelled :: "'b ngn_env \<Rightarrow> nat \<Rightarrow> ('b, 'w) ngn \<Rightarrow> ('b, 'w) ngn" where
  "call_cancelled env k s =
     (case ns_tasks s k of
        Some t \<Rightarrow>
          (case it_phase t of
             Forking started True \<Rightarrow>
               (let cid = it_call_id t;
                    s1 = forget_pending cid (ngn_respond env k (it_request t) 487 ''Request Terminated'' (cleanup_rc100rel cid s))
                in end_task k (log_end env cid Missed
                     (count_invites [(ExtensionSide, InviteError), (NgnSide, InviteError)]
                       (s1\<lparr>ns_in_flight := (ns_in_flight s1)(cid := None)\<rparr>))))
           | _ \<Rightarrow> s)
      | None \<Rightarrow> s)"

definition cancel_browsers :: "'w leg_handle list \<Rightarrow> ('b, 'w) ngn \<Rightarrow> ('b, 'w) ngn" where
  "cancel_browsers legs s = s\<lparr>ns_pushed := ns_pushed s @ map (\<lambda>leg. (lh_ws leg, WsCancel (lh_call_id leg))) legs\<rparr>"

definition fork_finished ::
  "ngn_config \<Rightarrow> 'b ngn_env \<Rightarrow> nat \<Rightarrow> (nat \<times> 'w leg_result) list \<Rightarrow> nat \<Rightarrow> 'w leg_registry \<Rightarrow> ('b, 'w) ngn \<Rightarrow> ('b, 'w) ngn" where
  "fork_finished cfg env k results closed_at reg s =
     (case ns_tasks s k of
        Some t \<Rightarrow>
          (case it_phase t of
             Forking started False \<Rightarrow>
               (let (result, cancelled, _) = fork_to_bindings (it_bindings t) started (nc_fork_timeout cfg) results closed_at reg;
                    s1 = cancel_browsers cancelled s;
                    s2 = s1\<lparr>ns_in_flight := (ns_in_flight s1)(it_call_id t := None)\<rparr>
                in if it_wants_100rel t
                   then (case wait_for_prack (en_now env) k t result s2 of
                           Some s3 \<Rightarrow> s3
                         | None \<Rightarrow> conclude cfg env k t result s2)
                   else conclude cfg env k t result s2)
           | _ \<Rightarrow> s)
      | None \<Rightarrow> s)"

definition prack_finished :: "ngn_config \<Rightarrow> 'b ngn_env \<Rightarrow> nat \<Rightarrow> ('b, 'w) ngn \<Rightarrow> ('b, 'w) ngn" where
  "prack_finished cfg env k s =
     (case ns_tasks s k of
        Some t \<Rightarrow>
          (case it_phase t of
             AwaitPrack deadline result (Some outcome) \<Rightarrow> conclude cfg env k t result s
           | AwaitPrack deadline result None \<Rightarrow>
               if en_now env < deadline then s
               else
                 (let cid = it_call_id t
                  in end_task k (log_end env cid (Failed 408)
                       (count_invites [(ExtensionSide, InviteTimeout), (NgnSide, InviteTimeout)] (forget_pending cid
                         (ngn_respond env k (it_request t) 408 ''Request Timeout'' (cleanup_rc100rel cid s))))))
           | _ \<Rightarrow> s)
      | None \<Rightarrow> s)"

section \<open>CANCEL, BYE and closed browsers\<close>

definition notify_cancel :: "string \<Rightarrow> ('b, 'w) ngn \<Rightarrow> ('b, 'w) ngn" where
  "notify_cancel cid s =
     (case ns_in_flight s cid of
        None \<Rightarrow> s
      | Some k \<Rightarrow>
          (case ns_tasks s k of
             Some t \<Rightarrow>
               (case it_phase t of
                  Forking started _ \<Rightarrow> s\<lparr>ns_tasks := (ns_tasks s)(k \<mapsto> t\<lparr>it_phase := Forking started True\<rparr>)\<rparr>
                | _ \<Rightarrow> s)
           | None \<Rightarrow> s))"

definition handle_cancel :: "'b ngn_env \<Rightarrow> sip_request \<Rightarrow> socket_addr \<Rightarrow> ('b, 'w) ngn \<Rightarrow> ('b, 'w) ngn" where
  "handle_cancel env request remote s =
     (case answer_once env request remote id 200 ''OK'' s of
        None \<Rightarrow> s
      | Some s1 \<Rightarrow> (case hdr_get (req_headers request) ''call-id'' of Some cid \<Rightarrow> notify_cancel cid s1 | None \<Rightarrow> s1))"

text \<open>The BYE of a call a browser made.\<close>

definition bye_outbound :: "'b ngn_env \<Rightarrow> string \<Rightarrow> 'w webrtc_outbound_entry \<Rightarrow> ('b, 'w) ngn \<Rightarrow> ('b, 'w) ngn" where
  "bye_outbound env cid entry s =
     (let s1 = stop_call (Some (Some (wo_bridge_call_id entry))) (s\<lparr>ns_outbound := (ns_outbound s)(cid := None)\<rparr>);
          s2 = log_end env cid Answered (dec_call_active s1)
      in s2\<lparr>ns_pushed := ns_pushed s2 @ [(wo_ws entry, WsBye)]\<rparr>)"

text \<open>The BYE of an incoming call; the recorder, when it has the call, is stopped.\<close>

definition bye_inbound :: "'b ngn_env \<Rightarrow> string \<Rightarrow> ('b, 'w) ngn \<Rightarrow> ('b, 'w) ngn" where
  "bye_inbound env cid s =
     (let s1 = forget_pending cid s;
          removed = ns_active s1 cid;
          s2 = s1\<lparr>ns_active := (ns_active s1)(cid := None)\<rparr>;
          s3 = (if removed \<noteq> None then log_end env cid Answered (dec_call_active s2) else s2);
          recorded = cid \<in> ns_voicemail s3;
          s4 = s3\<lparr>ns_voicemail := ns_voicemail s3 - {cid}\<rparr>;
          s5 = (if recorded then log_end env cid Answered (dec_call_active s4) else s4);
          s6 = stop_call removed s5
      in case ns_webrtc s6 cid of
           None \<Rightarrow> s6
         | Some entry \<Rightarrow>
             s6\<lparr>ns_webrtc := (ns_webrtc s6)(cid := None), ns_pushed := ns_pushed s6 @ [(wi_ws entry, WsBye)]\<rparr>)"

definition ngn_handle_bye :: "'b ngn_env \<Rightarrow> sip_request \<Rightarrow> socket_addr \<Rightarrow> ('b, 'w) ngn \<Rightarrow> ('b, 'w) ngn" where
  "ngn_handle_bye env request remote s =
     (case answer_once env request remote id 200 ''OK'' s of
        None \<Rightarrow> s
      | Some s1 \<Rightarrow>
          (case hdr_get (req_headers request) ''call-id'' of
             None \<Rightarrow> s1
           | Some cid \<Rightarrow>
               (case ns_outbound s1 cid of
                  Some entry \<Rightarrow> bye_outbound env cid entry s1
                | None \<Rightarrow> if en_bye_taken env then s1 else bye_inbound env cid s1)))"

text \<open>A browser is gone: its calls leave the table at once, and each is ended towards the carrier in turn.\<close>

definition browser_gone :: "'w \<Rightarrow> ('b, 'w) ngn \<Rightarrow> ('b, 'w) ngn" where
  "browser_gone ws s =
     (let mine = {cid. case ns_webrtc s cid of Some e \<Rightarrow> wi_ws e = ws | None \<Rightarrow> False}
      in s\<lparr>ns_webrtc := (ns_webrtc s) |` (- mine),
            ns_closing := ns_closing s \<union> {(cid, e). ns_webrtc s cid = Some e \<and> wi_ws e = ws}\<rparr>)"

definition send_inbound_bye :: "'b ngn_env \<Rightarrow> 'w webrtc_inbound_entry \<Rightarrow> (sip_request \<times> socket_addr) list" where
  "send_inbound_bye env entry =
     (case wi_uas_dialog entry of
        None \<Rightarrow> []
      | Some dlg \<Rightarrow>
          if \<not> wi_layer entry then []
          else (let (bye, d) = build_bye dlg (en_branch env) in [(bye, next_hop_socket d (wi_fallback_peer entry))]))"

definition close_inbound :: "'b ngn_env \<Rightarrow> string \<Rightarrow> 'w webrtc_inbound_entry \<Rightarrow> ('b, 'w) ngn \<Rightarrow> ('b, 'w) ngn" where
  "close_inbound env cid entry s =
     (if (cid, entry) \<in> ns_closing s
      then s\<lparr>ns_requests := ns_requests s @ send_inbound_bye env entry, ns_closing := ns_closing s - {(cid, entry)},
             ns_bye_sent := insert (cid, entry) (ns_bye_sent s)\<rparr>
      else s)"

text \<open>The BYE has its response, or had to be left out.\<close>

definition inbound_closed :: "'b ngn_env \<Rightarrow> string \<Rightarrow> 'w webrtc_inbound_entry \<Rightarrow> ('b, 'w) ngn \<Rightarrow> ('b, 'w) ngn" where
  "inbound_closed env cid entry s =
     (if (cid, entry) \<in> ns_bye_sent s
      then
        (let removed = ns_active s cid;
             s1 = s\<lparr>ns_bye_sent := ns_bye_sent s - {(cid, entry)}, ns_active := (ns_active s)(cid := None)\<rparr>
         in log_end env cid Answered (dec_call_active (forget_pending cid (stop_call removed s1))))
      else s)"

definition sweep_webrtc_active :: "('w \<Rightarrow> bool) \<Rightarrow> ('b, 'w) ngn \<Rightarrow> ('b, 'w) ngn" where
  "sweep_webrtc_active closed s =
     s\<lparr>ns_webrtc := (ns_webrtc s) |` {cid. case ns_webrtc s cid of Some e \<Rightarrow> \<not> closed (wi_ws e) | None \<Rightarrow> False}\<rparr>"

section \<open>Every request\<close>

definition log_inbound_message :: "'b ngn_env \<Rightarrow> sip_request \<Rightarrow> ('b, 'w) ngn \<Rightarrow> ('b, 'w) ngn" where
  "log_inbound_message env request s =
     (case (ns_message_log s, sms_from_inbound_message (en_wall env) request) of
        (Some ml, Some sms) \<Rightarrow> s\<lparr>ns_message_log := Some (message_push ml sms)\<rparr>
      | _ \<Rightarrow> s)"

definition handle_inbound :: "ngn_config \<Rightarrow> 'b ngn_env \<Rightarrow> sip_request \<Rightarrow> socket_addr \<Rightarrow> ('b, 'w) ngn \<Rightarrow> ('b, 'w) ngn" where
  "handle_inbound cfg env request remote s =
     (let allow = (\<lambda>status reason. answer_allow env request remote status reason s)
      in case req_method request of
           Invite \<Rightarrow> ngn_handle_invite cfg env request remote s
         | Bye \<Rightarrow> ngn_handle_bye env request remote s
         | Ack \<Rightarrow> (case hdr_get (req_headers request) ''call-id'' of Some cid \<Rightarrow> forget_pending cid s | None \<Rightarrow> s)
         | Cancel \<Rightarrow> handle_cancel env request remote s
         | Options \<Rightarrow> allow 200 ''OK''
         | Notify \<Rightarrow> allow 481 ''Subscription Does Not Exist''
         | Subscribe \<Rightarrow> allow 489 ''Bad Event''
         | Prack \<Rightarrow> handle_prack env request remote s
         | Publish \<Rightarrow> allow 489 ''Bad Event''
         | Update \<Rightarrow> allow 481 ''Call/Transaction Does Not Exist''
         | Info \<Rightarrow> allow 481 ''Call/Transaction Does Not Exist''
         | Message \<Rightarrow> answer_allow env request remote 200 ''OK'' (log_inbound_message env request s)
         | Refer \<Rightarrow> allow 405 ''Method Not Allowed''
         | Register \<Rightarrow> allow 405 ''Method Not Allowed''
         | Other _ \<Rightarrow> allow 405 ''Method Not Allowed'')"

section \<open>The machine\<close>

datatype ('b, 'w) ngn_event =
    Incoming "'b ngn_env" sip_request socket_addr
  | CancelWins "'b ngn_env" nat
  | ForkDone "'b ngn_env" nat "(nat \<times> 'w leg_result) list" nat "'w leg_registry"
  | PrackDone "'b ngn_env" nat
  | RelTimer nat string
  | BrowserGone 'w
  | CloseNext "'b ngn_env" string "'w webrtc_inbound_entry"
  | CloseDone "'b ngn_env" string "'w webrtc_inbound_entry"
  | Sweep "'w \<Rightarrow> bool"
  | OutgoingUp string "'w webrtc_outbound_entry"

text \<open>\<^const>\<open>OutgoingUp\<close> is the entry another component makes for a call of a browser.\<close>

definition outgoing_up :: "string \<Rightarrow> 'w webrtc_outbound_entry \<Rightarrow> ('b, 'w) ngn \<Rightarrow> ('b, 'w) ngn" where
  "outgoing_up cid entry s = inc_call_active (s\<lparr>ns_outbound := (ns_outbound s)(cid \<mapsto> entry)\<rparr>)"

definition ngn_start ::
  "inbound_bridge call_manager option \<Rightarrow> 32 word \<Rightarrow> call_log option \<Rightarrow> message_log option \<Rightarrow> ('b, 'w) ngn" where
  "ngn_start mgr counter cl ml =
     \<lparr>ns_next = 0, ns_txs = Map.empty, ns_tasks = Map.empty, ns_pending = Map.empty, ns_in_flight = Map.empty,
      ns_rc100rel = Map.empty, ns_active = Map.empty, ns_webrtc = Map.empty, ns_closing = {}, ns_bye_sent = {}, ns_outbound = Map.empty,
      ns_voicemail = {}, ns_manager = mgr, ns_rtp_counter = counter, ns_call_log = cl, ns_message_log = ml,
      ns_call_active = 0, ns_invites = [], ns_out = [], ns_requests = [], ns_pushed = [], ns_panicked = {}\<rparr>"

fun ngn_step :: "ngn_config \<Rightarrow> ('b, 'w) ngn \<Rightarrow> ('b, 'w) ngn_event \<Rightarrow> ('b, 'w) ngn" where
  "ngn_step cfg s (Incoming env request remote) = handle_inbound cfg env request remote s"
| "ngn_step cfg s (CancelWins env k) = call_cancelled env k s"
| "ngn_step cfg s (ForkDone env k results closed_at reg) = fork_finished cfg env k results closed_at reg s"
| "ngn_step cfg s (PrackDone env k) = prack_finished cfg env k s"
| "ngn_step cfg s (RelTimer now cid) = rel_timer_fires now cid s"
| "ngn_step cfg s (BrowserGone ws) = browser_gone ws s"
| "ngn_step cfg s (CloseNext env cid entry) = close_inbound env cid entry s"
| "ngn_step cfg s (CloseDone env cid entry) = inbound_closed env cid entry s"
| "ngn_step cfg s (Sweep closed) = sweep_webrtc_active closed s"
| "ngn_step cfg s (OutgoingUp cid entry) = outgoing_up cid entry s"

end
