(* ===== verification/Ngn_Calls.thy ===== *)
theory Ngn_Calls
  imports Ngn_Inbound
begin

text \<open>
  Facts on the handler of requests from the carrier: every incoming call gets one final response and
  no more, the call is answered in the dialog its ringing response made, a call whose ringing
  was reliable is answered after its PRACK, and the gauge of active calls counts the calls
  in the tables.
\<close>

section \<open>Machines with guarded steps\<close>

fun allowed_run :: "('s \<Rightarrow> 'e \<Rightarrow> 's) \<Rightarrow> ('s \<Rightarrow> 'e \<Rightarrow> bool) \<Rightarrow> 's \<Rightarrow> 'e list \<Rightarrow> bool" where
  "allowed_run step ok s [] \<longleftrightarrow> True"
| "allowed_run step ok s (e # es) \<longleftrightarrow> ok s e \<and> allowed_run step ok (step s e) es"

lemma allowed_static: "allowed_run step (\<lambda>_. P) s es \<longleftrightarrow> list_all P es"
  by (induction es arbitrary: s) simp_all

text \<open>Steps keep an invariant as far as they are allowed.\<close>

locale guarded_machine =
  fixes step :: "'s \<Rightarrow> 'e \<Rightarrow> 's"
    and ok :: "'s \<Rightarrow> 'e \<Rightarrow> bool"
    and inv :: "'s \<Rightarrow> bool"
  assumes step_inv: "inv s \<Longrightarrow> ok s e \<Longrightarrow> inv (step s e)"
begin

lemma run_inv: "inv s \<Longrightarrow> allowed_run step ok s es \<Longrightarrow> inv (run_steps step s es)"
  by (induction es arbitrary: s) (auto simp: step_inv)

end

section \<open>What the helpers leave alone\<close>

lemma send_on_frame [simp]:
  "ns_next (send_on now k r s) = ns_next s" "ns_tasks (send_on now k r s) = ns_tasks s"
  "ns_pending (send_on now k r s) = ns_pending s" "ns_in_flight (send_on now k r s) = ns_in_flight s"
  "ns_rc100rel (send_on now k r s) = ns_rc100rel s" "ns_active (send_on now k r s) = ns_active s"
  "ns_webrtc (send_on now k r s) = ns_webrtc s" "ns_closing (send_on now k r s) = ns_closing s"
  "ns_outbound (send_on now k r s) = ns_outbound s" "ns_voicemail (send_on now k r s) = ns_voicemail s"
  "ns_manager (send_on now k r s) = ns_manager s" "ns_call_log (send_on now k r s) = ns_call_log s"
  "ns_call_active (send_on now k r s) = ns_call_active s" "ns_panicked (send_on now k r s) = ns_panicked s"
  by (simp_all add: send_on_def split: option.splits)

lemma log_start_frame [simp]:
  "ns_next (log_start env n cid s) = ns_next s" "ns_txs (log_start env n cid s) = ns_txs s"
  "ns_tasks (log_start env n cid s) = ns_tasks s" "ns_pending (log_start env n cid s) = ns_pending s"
  "ns_in_flight (log_start env n cid s) = ns_in_flight s" "ns_rc100rel (log_start env n cid s) = ns_rc100rel s"
  "ns_active (log_start env n cid s) = ns_active s" "ns_webrtc (log_start env n cid s) = ns_webrtc s"
  "ns_closing (log_start env n cid s) = ns_closing s" "ns_outbound (log_start env n cid s) = ns_outbound s"
  "ns_voicemail (log_start env n cid s) = ns_voicemail s" "ns_manager (log_start env n cid s) = ns_manager s"
  "ns_call_active (log_start env n cid s) = ns_call_active s" "ns_panicked (log_start env n cid s) = ns_panicked s"
  by (simp_all add: log_start_def)

lemma log_end_frame [simp]:
  "ns_next (log_end env cid oc s) = ns_next s" "ns_txs (log_end env cid oc s) = ns_txs s"
  "ns_tasks (log_end env cid oc s) = ns_tasks s" "ns_pending (log_end env cid oc s) = ns_pending s"
  "ns_in_flight (log_end env cid oc s) = ns_in_flight s" "ns_rc100rel (log_end env cid oc s) = ns_rc100rel s"
  "ns_active (log_end env cid oc s) = ns_active s" "ns_webrtc (log_end env cid oc s) = ns_webrtc s"
  "ns_closing (log_end env cid oc s) = ns_closing s" "ns_outbound (log_end env cid oc s) = ns_outbound s"
  "ns_voicemail (log_end env cid oc s) = ns_voicemail s" "ns_manager (log_end env cid oc s) = ns_manager s"
  "ns_call_active (log_end env cid oc s) = ns_call_active s" "ns_panicked (log_end env cid oc s) = ns_panicked s"
  by (simp_all add: log_end_def)

lemma forget_pending_frame [simp]:
  "ns_next (forget_pending cid s) = ns_next s" "ns_txs (forget_pending cid s) = ns_txs s"
  "ns_tasks (forget_pending cid s) = ns_tasks s" "ns_in_flight (forget_pending cid s) = ns_in_flight s"
  "ns_rc100rel (forget_pending cid s) = ns_rc100rel s" "ns_active (forget_pending cid s) = ns_active s"
  "ns_webrtc (forget_pending cid s) = ns_webrtc s" "ns_closing (forget_pending cid s) = ns_closing s"
  "ns_outbound (forget_pending cid s) = ns_outbound s" "ns_voicemail (forget_pending cid s) = ns_voicemail s"
  "ns_manager (forget_pending cid s) = ns_manager s" "ns_call_log (forget_pending cid s) = ns_call_log s"
  "ns_call_active (forget_pending cid s) = ns_call_active s" "ns_panicked (forget_pending cid s) = ns_panicked s"
  by (simp_all add: forget_pending_def)

lemma count_invites_frame [simp]:
  "ns_next (count_invites rs s) = ns_next s" "ns_txs (count_invites rs s) = ns_txs s"
  "ns_tasks (count_invites rs s) = ns_tasks s" "ns_pending (count_invites rs s) = ns_pending s"
  "ns_in_flight (count_invites rs s) = ns_in_flight s" "ns_rc100rel (count_invites rs s) = ns_rc100rel s"
  "ns_active (count_invites rs s) = ns_active s" "ns_webrtc (count_invites rs s) = ns_webrtc s"
  "ns_closing (count_invites rs s) = ns_closing s" "ns_outbound (count_invites rs s) = ns_outbound s"
  "ns_voicemail (count_invites rs s) = ns_voicemail s" "ns_manager (count_invites rs s) = ns_manager s"
  "ns_call_log (count_invites rs s) = ns_call_log s" "ns_call_active (count_invites rs s) = ns_call_active s"
  "ns_panicked (count_invites rs s) = ns_panicked s"
  by (simp_all add: count_invites_def)

lemma inc_call_active_frame [simp]:
  "ns_next (inc_call_active s) = ns_next s" "ns_txs (inc_call_active s) = ns_txs s"
  "ns_tasks (inc_call_active s) = ns_tasks s" "ns_pending (inc_call_active s) = ns_pending s"
  "ns_in_flight (inc_call_active s) = ns_in_flight s" "ns_rc100rel (inc_call_active s) = ns_rc100rel s"
  "ns_active (inc_call_active s) = ns_active s" "ns_webrtc (inc_call_active s) = ns_webrtc s"
  "ns_closing (inc_call_active s) = ns_closing s" "ns_outbound (inc_call_active s) = ns_outbound s"
  "ns_voicemail (inc_call_active s) = ns_voicemail s" "ns_manager (inc_call_active s) = ns_manager s"
  "ns_call_log (inc_call_active s) = ns_call_log s" "ns_panicked (inc_call_active s) = ns_panicked s"
  by (simp_all add: inc_call_active_def)

lemma dec_call_active_frame [simp]:
  "ns_next (dec_call_active s) = ns_next s" "ns_txs (dec_call_active s) = ns_txs s"
  "ns_tasks (dec_call_active s) = ns_tasks s" "ns_pending (dec_call_active s) = ns_pending s"
  "ns_in_flight (dec_call_active s) = ns_in_flight s" "ns_rc100rel (dec_call_active s) = ns_rc100rel s"
  "ns_active (dec_call_active s) = ns_active s" "ns_webrtc (dec_call_active s) = ns_webrtc s"
  "ns_closing (dec_call_active s) = ns_closing s" "ns_outbound (dec_call_active s) = ns_outbound s"
  "ns_voicemail (dec_call_active s) = ns_voicemail s" "ns_manager (dec_call_active s) = ns_manager s"
  "ns_call_log (dec_call_active s) = ns_call_log s" "ns_panicked (dec_call_active s) = ns_panicked s"
  by (simp_all add: dec_call_active_def)

lemma task_panics_frame [simp]:
  "ns_next (task_panics k s) = ns_next s" "ns_txs (task_panics k s) = ns_txs s"
  "ns_tasks (task_panics k s) = ns_tasks s" "ns_pending (task_panics k s) = ns_pending s"
  "ns_in_flight (task_panics k s) = ns_in_flight s" "ns_rc100rel (task_panics k s) = ns_rc100rel s"
  "ns_active (task_panics k s) = ns_active s" "ns_webrtc (task_panics k s) = ns_webrtc s"
  "ns_closing (task_panics k s) = ns_closing s" "ns_outbound (task_panics k s) = ns_outbound s"
  "ns_voicemail (task_panics k s) = ns_voicemail s" "ns_manager (task_panics k s) = ns_manager s"
  "ns_call_log (task_panics k s) = ns_call_log s" "ns_call_active (task_panics k s) = ns_call_active s"
  by (simp_all add: task_panics_def)

lemma end_task_frame [simp]:
  "ns_next (end_task k s) = ns_next s" "ns_txs (end_task k s) = ns_txs s"
  "ns_pending (end_task k s) = ns_pending s" "ns_in_flight (end_task k s) = ns_in_flight s"
  "ns_rc100rel (end_task k s) = ns_rc100rel s" "ns_active (end_task k s) = ns_active s"
  "ns_webrtc (end_task k s) = ns_webrtc s" "ns_closing (end_task k s) = ns_closing s"
  "ns_outbound (end_task k s) = ns_outbound s" "ns_voicemail (end_task k s) = ns_voicemail s"
  "ns_manager (end_task k s) = ns_manager s" "ns_call_log (end_task k s) = ns_call_log s"
  "ns_call_active (end_task k s) = ns_call_active s" "ns_panicked (end_task k s) = ns_panicked s"
  by (simp_all add: end_task_def)

lemma stop_call_frame [simp]:
  "ns_next (stop_call rm s) = ns_next s" "ns_txs (stop_call rm s) = ns_txs s"
  "ns_tasks (stop_call rm s) = ns_tasks s" "ns_pending (stop_call rm s) = ns_pending s"
  "ns_in_flight (stop_call rm s) = ns_in_flight s" "ns_rc100rel (stop_call rm s) = ns_rc100rel s"
  "ns_active (stop_call rm s) = ns_active s" "ns_webrtc (stop_call rm s) = ns_webrtc s"
  "ns_closing (stop_call rm s) = ns_closing s" "ns_outbound (stop_call rm s) = ns_outbound s"
  "ns_voicemail (stop_call rm s) = ns_voicemail s" "ns_call_log (stop_call rm s) = ns_call_log s"
  "ns_call_active (stop_call rm s) = ns_call_active s" "ns_panicked (stop_call rm s) = ns_panicked s"
  by (simp_all add: stop_call_def split: option.splits)

lemma wake_frame [simp]:
  "ns_next (wake oc st s) = ns_next s" "ns_txs (wake oc st s) = ns_txs s"
  "ns_pending (wake oc st s) = ns_pending s" "ns_in_flight (wake oc st s) = ns_in_flight s"
  "ns_rc100rel (wake oc st s) = ns_rc100rel s" "ns_active (wake oc st s) = ns_active s"
  "ns_webrtc (wake oc st s) = ns_webrtc s" "ns_closing (wake oc st s) = ns_closing s"
  "ns_outbound (wake oc st s) = ns_outbound s" "ns_voicemail (wake oc st s) = ns_voicemail s"
  "ns_manager (wake oc st s) = ns_manager s" "ns_call_log (wake oc st s) = ns_call_log s"
  "ns_call_active (wake oc st s) = ns_call_active s" "ns_panicked (wake oc st s) = ns_panicked s"
  by (simp_all add: wake_def split: option.splits invite_phase.splits)

lemma cancel_browsers_frame [simp]:
  "ns_next (cancel_browsers legs s) = ns_next s" "ns_txs (cancel_browsers legs s) = ns_txs s"
  "ns_tasks (cancel_browsers legs s) = ns_tasks s" "ns_pending (cancel_browsers legs s) = ns_pending s"
  "ns_in_flight (cancel_browsers legs s) = ns_in_flight s" "ns_rc100rel (cancel_browsers legs s) = ns_rc100rel s"
  "ns_active (cancel_browsers legs s) = ns_active s" "ns_webrtc (cancel_browsers legs s) = ns_webrtc s"
  "ns_closing (cancel_browsers legs s) = ns_closing s" "ns_outbound (cancel_browsers legs s) = ns_outbound s"
  "ns_voicemail (cancel_browsers legs s) = ns_voicemail s" "ns_manager (cancel_browsers legs s) = ns_manager s"
  "ns_call_log (cancel_browsers legs s) = ns_call_log s" "ns_call_active (cancel_browsers legs s) = ns_call_active s"
  "ns_panicked (cancel_browsers legs s) = ns_panicked s"
  by (simp_all add: cancel_browsers_def)

lemma log_inbound_message_frame [simp]:
  "ns_next (log_inbound_message env q s) = ns_next s" "ns_txs (log_inbound_message env q s) = ns_txs s"
  "ns_tasks (log_inbound_message env q s) = ns_tasks s" "ns_pending (log_inbound_message env q s) = ns_pending s"
  "ns_in_flight (log_inbound_message env q s) = ns_in_flight s" "ns_rc100rel (log_inbound_message env q s) = ns_rc100rel s"
  "ns_active (log_inbound_message env q s) = ns_active s" "ns_webrtc (log_inbound_message env q s) = ns_webrtc s"
  "ns_closing (log_inbound_message env q s) = ns_closing s" "ns_outbound (log_inbound_message env q s) = ns_outbound s"
  "ns_voicemail (log_inbound_message env q s) = ns_voicemail s" "ns_manager (log_inbound_message env q s) = ns_manager s"
  "ns_call_log (log_inbound_message env q s) = ns_call_log s" "ns_call_active (log_inbound_message env q s) = ns_call_active s"
  "ns_panicked (log_inbound_message env q s) = ns_panicked s"
  by (simp_all add: log_inbound_message_def split: option.splits)


section \<open>Final results\<close>

text \<open>The statuses an extension or a browser refuses a call with.\<close>

definition refusals_final :: "(nat \<times> 'w leg_result) list \<Rightarrow> bool" where
  "refusals_final results \<longleftrightarrow> (\<forall>t st. (t, BindFailed st) \<in> set results \<longrightarrow> 300 \<le> st \<and> st \<le> 699)"

definition result_final :: "'w fork_answer fork_result \<Rightarrow> bool" where
  "result_final r \<longleftrightarrow> (\<forall>st. r = AllFailed (Some st) \<longrightarrow> 300 \<le> st \<and> st \<le> 699)"

definition status_ok :: "nat option \<Rightarrow> bool" where
  "status_ok last_status \<longleftrightarrow> (\<forall>st. last_status = Some st \<longrightarrow> 300 \<le> st \<and> st \<le> 699)"

lemma result_final_simps [simp]:
  "result_final ForkTimeout" "result_final (ForkAnswered uri a)" "result_final (AllFailed ls) \<longleftrightarrow> status_ok ls" "status_ok None"
  by (auto simp: result_final_def status_ok_def)

fun phase_final :: "'w invite_phase \<Rightarrow> bool" where
  "phase_final (Forking started notified) = True"
| "phase_final (AwaitPrack d result w) = result_final result"

section \<open>Who changes a transaction\<close>

text \<open>Two states of a task that differ in what it waits for only; steps that send nothing on the transaction of a
  call; and steps that send one response on the transaction \<open>k\<close>.\<close>

definition same_task :: "('b, 'w) invite_task option \<Rightarrow> ('b, 'w) invite_task option \<Rightarrow> bool" where
  "same_task a b \<longleftrightarrow>
     (case a of
        None \<Rightarrow> b = None
      | Some t \<Rightarrow> \<exists>p. b = Some (t\<lparr>it_phase := p\<rparr>) \<and> (phase_final (it_phase t) \<longrightarrow> phase_final p))"

definition same_tasks :: "('b, 'w) ngn \<Rightarrow> ('b, 'w) ngn \<Rightarrow> bool" where
  "same_tasks s s' \<longleftrightarrow> ns_next s' = ns_next s \<and> ns_panicked s \<subseteq> ns_panicked s' \<and> (\<forall>j. same_task (ns_tasks s j) (ns_tasks s' j))"

definition quiet :: "('b, 'w) ngn \<Rightarrow> ('b, 'w) ngn \<Rightarrow> bool" where
  "quiet s s' \<longleftrightarrow> same_tasks s s' \<and> ns_txs s' = ns_txs s"

definition says :: "nat \<Rightarrow> (sip_response \<Rightarrow> bool) \<Rightarrow> ('b, 'w) ngn \<Rightarrow> ('b, 'w) ngn \<Rightarrow> bool" where
  "says k P s s' \<longleftrightarrow> same_tasks s s' \<and> (\<forall>j. j \<noteq> k \<longrightarrow> ns_txs s' j = ns_txs s j)
     \<and> (\<forall>tx. ns_txs s k = Some tx \<longrightarrow> (\<exists>r now. P r \<and> ns_txs s' k = Some (snd (respond tx r now))))"

lemma same_task_refl [simp]: "same_task a a"
proof (cases a)
  case (Some t)
  have "\<exists>p. t = t\<lparr>it_phase := p\<rparr> \<and> (phase_final (it_phase t) \<longrightarrow> phase_final p)" by (rule exI [of _ "it_phase t"]) simp
  with Some show ?thesis by (simp add: same_task_def)
qed (simp add: same_task_def)

lemma same_task_None [simp]: "same_task None b \<longleftrightarrow> b = None" "same_task a None \<longleftrightarrow> a = None"
  by (auto simp: same_task_def split: option.splits)

lemma same_task_trans: "same_task a b \<Longrightarrow> same_task b c \<Longrightarrow> same_task a c"
  by (auto simp: same_task_def split: option.splits)

lemma same_task_phase:
  "same_task a (Some t) \<Longrightarrow> (phase_final (it_phase t) \<Longrightarrow> phase_final p) \<Longrightarrow> same_task a (Some (t\<lparr>it_phase := p\<rparr>))"
  by (auto simp: same_task_def split: option.splits)

lemma quiet_refl [simp]: "quiet s s"
  by (simp add: quiet_def same_tasks_def)

lemma quiet_frame [simp]:
  "quiet s (log_end env cid oc s') \<longleftrightarrow> quiet s s'" "quiet s (log_start env n cid s') \<longleftrightarrow> quiet s s'"
  "quiet s (forget_pending cid s') \<longleftrightarrow> quiet s s'" "quiet s (count_invites rs s') \<longleftrightarrow> quiet s s'"
  "quiet s (inc_call_active s') \<longleftrightarrow> quiet s s'" "quiet s (dec_call_active s') \<longleftrightarrow> quiet s s'"
  "quiet s (stop_call rm s') \<longleftrightarrow> quiet s s'"
  "quiet s (cancel_browsers legs s') \<longleftrightarrow> quiet s s'" "quiet s (log_inbound_message env q s') \<longleftrightarrow> quiet s s'"
  by (simp_all add: quiet_def same_tasks_def)

lemma quiet_panics: "quiet s s' \<Longrightarrow> quiet s (task_panics k s') \<and> k \<in> ns_panicked (task_panics k s')"
  by (auto simp: quiet_def same_tasks_def task_panics_def)

lemma says_frame [simp]:
  "says k P s (log_end env cid oc s') \<longleftrightarrow> says k P s s'" "says k P s (forget_pending cid s') \<longleftrightarrow> says k P s s'"
  "says k P s (count_invites rs s') \<longleftrightarrow> says k P s s'" "says k P s (inc_call_active s') \<longleftrightarrow> says k P s s'"
  by (simp_all add: says_def same_tasks_def)

lemma same_tasks_wake:
  assumes "same_tasks s s'"
  shows "same_tasks s (wake oc st s')"
proof -
  have "same_task (ns_tasks s k) (Some (t\<lparr>it_phase := AwaitPrack d result w\<rparr>))"
    if "ns_tasks s' k = Some t" "it_phase t = AwaitPrack d result w'" for k t d result w w'
    using assms that by (intro same_task_phase) (auto simp: same_tasks_def, metis)
  then show ?thesis
    using assms by (auto simp: same_tasks_def wake_def split: option.splits invite_phase.splits)
qed

lemma rc100rel_frame [simp]:
  "ns_txs (remove_rc100rel oc cid s) = ns_txs s" "ns_next (remove_rc100rel oc cid s) = ns_next s"
  "ns_panicked (remove_rc100rel oc cid s) = ns_panicked s"
  by (simp_all add: remove_rc100rel_def split: option.splits)

lemma same_tasks_remove: "same_tasks s s' \<Longrightarrow> same_tasks s (remove_rc100rel oc cid s')"
proof -
  assume "same_tasks s s'"
  then have "same_tasks s (s'\<lparr>ns_rc100rel := (ns_rc100rel s')(cid := None)\<rparr>)" by (simp add: same_tasks_def)
  then show ?thesis
    using \<open>same_tasks s s'\<close> by (auto simp: remove_rc100rel_def same_tasks_wake split: option.splits)
qed

lemma quiet_cleanup: "quiet s s' \<Longrightarrow> quiet s (remove_rc100rel oc cid s')" "quiet s s' \<Longrightarrow> quiet s (cleanup_rc100rel cid s')"
  "quiet s s' \<Longrightarrow> quiet s (insert_rc100rel cid st s')"
  using same_tasks_remove [of s s' oc cid] same_tasks_remove [of s s' NoState cid]
  by (auto simp: quiet_def cleanup_rc100rel_def insert_rc100rel_def Let_def same_tasks_def)

lemma says_cleanup: "says k P s s' \<Longrightarrow> says k P s (cleanup_rc100rel cid s')"
  using same_tasks_remove [of s s' NoState cid] by (simp add: says_def cleanup_rc100rel_def)

lemma says_send: "quiet s s' \<Longrightarrow> P r \<Longrightarrow> says k P s (send_on now k r s')"
  by (auto simp: says_def quiet_def same_tasks_def send_on_def split: option.splits)

lemma says_weaken: "says k P s s' \<Longrightarrow> (\<And>r. P r \<Longrightarrow> Q r) \<Longrightarrow> says k Q s s'"
  unfolding says_def by blast

lemma ensure_tag_status [simp]: "resp_status (ensure_to_tag rnd resp) = resp_status resp"
  by (simp add: ensure_to_tag_def split: option.splits)

definition has_status :: "nat \<Rightarrow> sip_response \<Rightarrow> bool" where
  "has_status code r \<longleftrightarrow> resp_status r = code"

lemma says_respond: "quiet s s' \<Longrightarrow> says k (has_status code) s (ngn_respond env k request code reason s')"
  unfolding ngn_respond_def by (rule says_send) (simp_all add: has_status_def)

text \<open>The bridge and the recorder.\<close>

lemma bind_relay_frame [simp]:
  "ns_next (snd (bind_relay env s)) = ns_next s" "ns_txs (snd (bind_relay env s)) = ns_txs s"
  "ns_tasks (snd (bind_relay env s)) = ns_tasks s" "ns_rc100rel (snd (bind_relay env s)) = ns_rc100rel s"
  "ns_active (snd (bind_relay env s)) = ns_active s" "ns_voicemail (snd (bind_relay env s)) = ns_voicemail s"
  "ns_outbound (snd (bind_relay env s)) = ns_outbound s" "ns_call_active (snd (bind_relay env s)) = ns_call_active s"
  "ns_closing (snd (bind_relay env s)) = ns_closing s" "ns_webrtc (snd (bind_relay env s)) = ns_webrtc s"
  "ns_panicked (snd (bind_relay env s)) = ns_panicked s" "ns_in_flight (snd (bind_relay env s)) = ns_in_flight s"
  by (simp_all add: bind_relay_def split: prod.splits)

lemma start_bridge_frame:
  assumes "start_bridge_for_inbound cfg env offer answer cid pt s = (r, s1)"
  shows "ns_next s1 = ns_next s" "ns_txs s1 = ns_txs s" "ns_tasks s1 = ns_tasks s" "ns_rc100rel s1 = ns_rc100rel s"
    "ns_voicemail s1 = ns_voicemail s" "ns_outbound s1 = ns_outbound s" "ns_call_active s1 = ns_call_active s"
    "ns_closing s1 = ns_closing s" "ns_webrtc s1 = ns_webrtc s" "ns_panicked s1 = ns_panicked s"
    "(case r of Inl _ \<Rightarrow> ns_active s1 = ns_active s | Inr _ \<Rightarrow> \<exists>i. ns_active s1 = (ns_active s)(cid \<mapsto> Some i))"
  using assms
  by (auto simp: start_bridge_for_inbound_def bind_relay_def Let_def split: option.splits sum.splits prod.splits if_splits)

lemma voicemail_cases:
  assumes "try_start_voicemail cfg env k request cid s = (r, s1)"
  shows "r = Inr True \<and> says k (has_status 200) s s1 \<or> r \<noteq> Inr True \<and> quiet s s1"
proof -
  have q: "quiet s (snd (bind_relay env s))" by (simp add: quiet_def same_tasks_def)
  have v: "says k (has_status 200) s (s'\<lparr>ns_voicemail := vm\<rparr>)" if "says k (has_status 200) s s'" for s' vm
    using that by (simp add: says_def same_tasks_def)
  obtain p s2 where b: "bind_relay env s = (p, s2)" by fastforce
  with q have q2: "quiet s s2" by simp
  then show ?thesis
    using assms b says_send [OF q2, of "has_status 200"]
    by (auto simp: try_start_voicemail_def Let_def split: option.splits sum.splits bridge_error.splits if_splits
        intro!: v simp: set_contact_def apply_uas_inbound_2xx_headers_def set_sdp_def has_status_def)
qed

section \<open>The ways a step acts on a call\<close>

lemma says_update [simp]:
  "says k P s (s'\<lparr>ns_active := x1\<rparr>) \<longleftrightarrow> says k P s s'" "says k P s (s'\<lparr>ns_webrtc := x2\<rparr>) \<longleftrightarrow> says k P s s'"
  "says k P s (s'\<lparr>ns_in_flight := x3\<rparr>) \<longleftrightarrow> says k P s s'" "says k P s (s'\<lparr>ns_pushed := x4\<rparr>) \<longleftrightarrow> says k P s s'"
  by (simp_all add: says_def same_tasks_def)

lemma quiet_update [simp]:
  "quiet s (s'\<lparr>ns_active := x1\<rparr>) \<longleftrightarrow> quiet s s'" "quiet s (s'\<lparr>ns_webrtc := x2\<rparr>) \<longleftrightarrow> quiet s s'"
  "quiet s (s'\<lparr>ns_in_flight := x3\<rparr>) \<longleftrightarrow> quiet s s'" "quiet s (s'\<lparr>ns_pushed := x4\<rparr>) \<longleftrightarrow> quiet s s'"
  "quiet s (s'\<lparr>ns_out := x5\<rparr>) \<longleftrightarrow> quiet s s'" "quiet s (s'\<lparr>ns_outbound := x6\<rparr>) \<longleftrightarrow> quiet s s'"
  "quiet s (s'\<lparr>ns_voicemail := x7\<rparr>) \<longleftrightarrow> quiet s s'" "quiet s (s'\<lparr>ns_requests := x8\<rparr>) \<longleftrightarrow> quiet s s'"
  "quiet s (s'\<lparr>ns_closing := x9\<rparr>) \<longleftrightarrow> quiet s s'" "quiet s (s'\<lparr>ns_bye_sent := x10\<rparr>) \<longleftrightarrow> quiet s s'"
  by (simp_all add: quiet_def same_tasks_def)

definition is_final :: "sip_response \<Rightarrow> bool" where
  "is_final r \<longleftrightarrow> 200 \<le> resp_status r \<and> resp_status r \<le> 699"

lemma status_final: "has_status code r \<Longrightarrow> 200 \<le> code \<Longrightarrow> code \<le> 699 \<Longrightarrow> is_final r"
  by (simp add: has_status_def is_final_def)

text \<open>One response on the transaction \<open>k\<close>, or a panic before it.\<close>

definition settles :: "(sip_response \<Rightarrow> bool) \<Rightarrow> nat \<Rightarrow> ('b, 'w) ngn \<Rightarrow> ('b, 'w) ngn \<Rightarrow> bool" where
  "settles P k s s' \<longleftrightarrow> says k P s s' \<or> quiet s s' \<and> k \<in> ns_panicked s'"

lemma settles_respond:
  "quiet s s' \<Longrightarrow> 200 \<le> code \<Longrightarrow> code \<le> 699 \<Longrightarrow> says k is_final s (ngn_respond env k request code reason s')"
  using says_weaken [OF says_respond] status_final by blast

text \<open>The final responses of a call that was ringing: without a recorder a response of the class 200 is the
  answer of an extension.\<close>

definition reply :: "ngn_config \<Rightarrow> ('b, 'w) invite_task \<Rightarrow> sip_response \<Rightarrow> bool" where
  "reply cfg t r \<longleftrightarrow> is_final r
     \<and> (resp_status r < 300 \<and> \<not> nc_voicemail cfg \<longrightarrow> (\<exists>(env :: 'b ngn_env) body. r = answer_to_ngn cfg env t body))"

lemma reply_failure: "has_status code r \<Longrightarrow> 300 \<le> code \<Longrightarrow> code \<le> 699 \<Longrightarrow> reply cfg t r"
  by (simp add: has_status_def reply_def is_final_def)

lemma reply_respond:
  "quiet s s' \<Longrightarrow> 300 \<le> code \<Longrightarrow> code \<le> 699 \<Longrightarrow> says k (reply cfg t) s (ngn_respond env k request code reason s')"
  using says_weaken [OF says_respond] reply_failure by blast

lemma bad_gateway_settles: "quiet s s' \<Longrightarrow> says k (reply cfg t') s (bad_gateway env k t ws s')"
  by (auto simp: bad_gateway_def Let_def intro!: reply_respond quiet_cleanup split: option.splits)

lemma ngn_answer_status [simp]: "resp_status (answer_to_ngn cfg env t body) = 200"
  by (simp add: answer_to_ngn_def Let_def set_contact_def apply_uas_inbound_2xx_headers_def echo_timer_def keep_to_tag_def
      set_sdp_def split: option.splits)

lemma reply_answer: "reply cfg t (answer_to_ngn cfg env t body)"
  unfolding reply_def by (auto simp: is_final_def)

lemma establish_settles: "quiet s s' \<Longrightarrow> says k (reply cfg t) s (establish cfg env k t body ws s')"
  by (auto simp: establish_def Let_def reply_answer intro!: says_send split: option.splits)

lemma answered_settles: "settles (reply cfg t) k s (call_answered cfg env k t a s)"
proof -
  obtain r s1 where b: "start_bridge_for_inbound cfg env (req_body (it_request t)) (resp_body (fa_response a)) (it_call_id t) (fa_opus_pt a) s = (r, s1)"
    by fastforce
  then have q: "quiet s s1" using start_bridge_frame [OF b] by (simp add: quiet_def same_tasks_def)
  show ?thesis
    using b q by (auto simp: call_answered_def settles_def Let_def quiet_panics
        intro!: says_cleanup establish_settles bad_gateway_settles split: sum.splits bridge_error.splits)
qed

lemma failed_settles:
  assumes "300 \<le> code" "code \<le> 699"
  shows "settles (reply cfg t) k s (call_failed cfg env k t code reason result s)"
proof -
  obtain r s1 where v: "try_start_voicemail cfg env k (it_request t) (it_call_id t) s = (r, s1)" by fastforce
  from voicemail_cases [OF v] show ?thesis
  proof
    assume y: "r = Inr True \<and> says k (has_status 200) s s1"
    then have "nc_voicemail cfg" using v by (auto simp: try_start_voicemail_def split: if_splits)
    then have "says k (reply cfg t) s s1" using y says_weaken [of k "has_status 200" s s1] status_final by (auto simp: reply_def)
    then show ?thesis using v y by (auto simp: call_failed_def settles_def Let_def intro!: says_cleanup)
  next
    assume "r \<noteq> Inr True \<and> quiet s s1"
    then show ?thesis using v assms
      by (auto simp: call_failed_def settles_def Let_def quiet_panics intro!: says_cleanup reply_respond split: sum.splits bool.splits)
  qed
qed

lemma bind_loop_final:
  "refusals_final results \<Longrightarrow> status_ok ls \<Longrightarrow> result_final (bind_loop deadline closed_at n now received ls results)"
proof (induction results arbitrary: now received ls)
  case (Cons x rest)
  obtain t leg where x: "x = (t, leg)" by fastforce
  have rest: "refusals_final rest" using Cons.prems(1) by (auto simp: refusals_final_def)
  note IH = Cons.IH [OF rest]
  have ls: "status_ok (keep_status ls status)" if "leg = BindFailed status" for status
    using Cons.prems that x by (auto simp: refusals_final_def keep_status_def status_ok_def)
  show ?case
    using Cons.prems(2) by (cases leg) (simp_all add: x IH ls Let_def)
qed simp

lemma fork_final: "refusals_final results \<Longrightarrow> result_final (fst (fork_to_bindings bs now to results closed_at reg))"
  by (auto simp: fork_to_bindings_def close_and_drain_webrtc_legs_def Let_def intro: bind_loop_final)

lemma conclude_settles:
  assumes "result_final result"
  shows "\<exists>s'. conclude cfg env k t result s = end_task k s' \<and> settles (reply cfg t) k s s'"
proof (cases result)
  case (AllFailed last_status)
  then show ?thesis using assms
    by (cases last_status) (auto simp: conclude_def status_ok_def Let_def intro!: exI failed_settles)
qed (auto simp: conclude_def intro!: exI answered_settles failed_settles)

section \<open>Calls that wait, and calls that are over\<close>

lemma respond_final:
  assumes "st_state tx = SrvProceeding" "is_final r"
  shows "st_state (snd (respond tx r now)) = SrvCompleted"
    "\<exists>r'. st_last_response (snd (respond tx r now)) = Some r' \<and> is_final r' \<and> resp_status r' = resp_status r"
  using assms by (auto simp: respond_def Let_def is_final_def start_completed_timers_def)

lemma respond_provisional:
  assumes "st_state tx = SrvProceeding" "100 \<le> resp_status r" "resp_status r \<le> 199"
  shows "st_state (snd (respond tx r now)) = SrvProceeding"
    "st_last_response (snd (respond tx r now)) = Some (r\<lparr>resp_headers := hdr_set ''Via'' (st_response_via tx) (resp_headers r)\<rparr>)"
  using assms by (auto simp: respond_def Let_def)

lemma respond_latest:
  "st_last_response (snd (respond tx r now)) = Some (r\<lparr>resp_headers := hdr_set ''Via'' (st_response_via tx) (resp_headers r)\<rparr>)"
  by (simp add: respond_def Let_def)

definition finished :: "('b, 'w) ngn \<Rightarrow> nat \<Rightarrow> bool" where
  "finished s k \<longleftrightarrow> (\<exists>tx r. ns_txs s k = Some tx \<and> st_state tx = SrvCompleted \<and> st_last_response tx = Some r \<and> is_final r)"

text \<open>The \<^verbatim>\<open>To\<close> of a ringing response, and what is known of a call that waits.\<close>

definition ringing_to :: "32 word \<Rightarrow> 32 word \<Rightarrow> string \<Rightarrow> string" where
  "ringing_to x y v =
     (let v1 = v @ '';tag='' @ new_uas_to_tag x in if has_to_tag v1 then v1 else v1 @ '';tag='' @ new_tag y)"

definition rings :: "server_tx \<Rightarrow> ('b, 'w) invite_task \<Rightarrow> bool" where
  "rings tx t \<longleftrightarrow>
     st_state tx = SrvProceeding \<and> st_request tx = it_request t
     \<and> hdr_get (req_headers (it_request t)) ''call-id'' = Some (it_call_id t) \<and> \<not> in_dialog (it_request t)
     \<and> it_wants_100rel t = wants_100rel (it_request t) \<and> it_timer t = invite_timer (it_request t)
     \<and> (\<exists>r x y. st_last_response tx = Some r \<and> resp_status r = 180
          \<and> hdr_get (resp_headers r) ''to'' = map_option (ringing_to x y) (hdr_get (req_headers (it_request t)) ''to'')
          \<and> it_to_tag t = Option.bind (hdr_get (resp_headers r) ''to'') extract_to_tag)"

lemma rings_phase [simp]: "rings tx (t\<lparr>it_phase := p\<rparr>) = rings tx t"
  by (simp add: rings_def)

definition calls_inv :: "('b, 'w) ngn \<Rightarrow> bool" where
  "calls_inv s \<longleftrightarrow>
     dom (ns_txs s) = {..<ns_next s} \<and> dom (ns_tasks s) \<subseteq> {..<ns_next s}
     \<and> (\<forall>k t. ns_tasks s k = Some t \<longrightarrow> (\<exists>tx. ns_txs s k = Some tx \<and> rings tx t) \<and> phase_final (it_phase t))
     \<and> (\<forall>k < ns_next s. ns_tasks s k = None \<longrightarrow> finished s k \<or> k \<in> ns_panicked s)"

definition provisional :: "sip_response \<Rightarrow> bool" where
  "provisional r \<longleftrightarrow> 100 \<le> resp_status r \<and> resp_status r \<le> 199"

text \<open>What the tasks rely on: legs report final statuses, and the forwarder answers what it takes with
  provisional responses and then one final response.\<close>

fun event_ok :: "('b, 'w) ngn_event \<Rightarrow> bool" where
  "event_ok (ForkDone env k results closed_at reg) = refusals_final results"
| "event_ok (Incoming env request remote) =
     (case en_reinvite env of
        Some rs \<Rightarrow> rs \<noteq> [] \<and> is_final (List.last rs) \<and> list_all provisional (butlast rs)
      | None \<Rightarrow> True)"
| "event_ok _ = True"

lemma settles_done:
  assumes "settles P k s s'" "\<And>r. P r \<Longrightarrow> is_final r" "ns_txs s k = Some tx" "st_state tx = SrvProceeding"
  shows "finished s' k \<or> k \<in> ns_panicked s'"
  using assms respond_final by (fastforce simp: settles_def says_def finished_def)

lemma settles_others: "settles P k s s' \<Longrightarrow> j \<noteq> k \<Longrightarrow> ns_txs s' j = ns_txs s j" "settles P k s s' \<Longrightarrow> same_tasks s s'"
  by (auto simp: settles_def says_def quiet_def)

lemma settles_dom: "settles P k s s' \<Longrightarrow> k \<in> dom (ns_txs s) \<Longrightarrow> dom (ns_txs s') = dom (ns_txs s)"
  unfolding settles_def says_def quiet_def by (safe; simp add: dom_def) (metis option.distinct(1) option.exhaust)+

lemma same_task_Some: "same_task a (Some t') \<Longrightarrow>
    \<exists>t p. a = Some t \<and> t' = t\<lparr>it_phase := p\<rparr> \<and> (phase_final (it_phase t) \<longrightarrow> phase_final (it_phase t'))"
  by (auto simp: same_task_def split: option.splits)

lemma same_tasks_dom: "same_tasks s s' \<Longrightarrow> dom (ns_tasks s') = dom (ns_tasks s)"
  unfolding same_tasks_def same_task_def dom_def by (fastforce split: option.splits)

lemma same_tasks_facts:
  assumes "same_tasks s s'"
  shows "ns_next s' = ns_next s" "ns_panicked s \<subseteq> ns_panicked s'" 
    "ns_tasks s' k = Some t' \<Longrightarrow>
       \<exists>t p. ns_tasks s k = Some t \<and> t' = t\<lparr>it_phase := p\<rparr> \<and> (phase_final (it_phase t) \<longrightarrow> phase_final (it_phase t'))"
    "ns_tasks s' k = None \<longleftrightarrow> ns_tasks s k = None"
proof -
  have j: "same_task (ns_tasks s k) (ns_tasks s' k)" and n: "ns_next s' = ns_next s" "ns_panicked s \<subseteq> ns_panicked s'"
    using assms by (simp_all add: same_tasks_def)
  show "ns_next s' = ns_next s" "ns_panicked s \<subseteq> ns_panicked s'" by (rule n)+
  show "ns_tasks s' k = None \<longleftrightarrow> ns_tasks s k = None" using j by (cases "ns_tasks s k"; cases "ns_tasks s' k") auto
  assume "ns_tasks s' k = Some t'"
  with j show "\<exists>t p. ns_tasks s k = Some t \<and> t' = t\<lparr>it_phase := p\<rparr> \<and> (phase_final (it_phase t) \<longrightarrow> phase_final (it_phase t'))" by (intro same_task_Some) simp
qed

lemma calls_invD:
  assumes "calls_inv s" "ns_tasks s k = Some t"
  shows "\<exists>tx. ns_txs s k = Some tx \<and> rings tx t" "k < ns_next s" "phase_final (it_phase t)"
  using assms unfolding calls_inv_def by (blast, auto)

lemma calls_quiet:
  assumes "calls_inv s" "quiet s s'"
  shows "calls_inv s'"
proof -
  have q: "ns_txs s' = ns_txs s" "same_tasks s s'" using assms(2) by (simp_all add: quiet_def)
  note t = same_tasks_facts [OF q(2)]
  have "(\<exists>tx. ns_txs s' k = Some tx \<and> rings tx t') \<and> phase_final (it_phase t')" if r: "ns_tasks s' k = Some t'" for k t'
  proof -
    obtain t p where "ns_tasks s k = Some t" "t' = t\<lparr>it_phase := p\<rparr>" "phase_final (it_phase t) \<longrightarrow> phase_final (it_phase t')"
      using t(3) [OF r] by blast
    then show ?thesis using calls_invD [OF assms(1)] q(1) by fastforce
  qed
  then show ?thesis
    using assms(1) q t same_tasks_dom [OF q(2)] by (auto simp: calls_inv_def finished_def)
qed

lemma calls_settled:
  assumes "calls_inv s" "ns_tasks s k = Some t" "settles (reply cfg t) k s s'"
  shows "calls_inv (end_task k s')"
proof -
  note o = settles_others [OF assms(3)]
  note f = same_tasks_facts [OF o(2)]
  obtain tx where tx: "ns_txs s k = Some tx" "rings tx t" using calls_invD(1) [OF assms(1,2)] by blast
  have "k < ns_next s" by (rule calls_invD(2) [OF assms(1,2)])
  have d: "dom (ns_txs s') = dom (ns_txs s)" using settles_dom [OF assms(3)] tx(1) by auto
  have fin: "finished s' k \<or> k \<in> ns_panicked s'" using settles_done [OF assms(3) _ tx(1)] tx(2) by (simp add: rings_def reply_def)
  have "(\<exists>tx. ns_txs s' j = Some tx \<and> rings tx t') \<and> phase_final (it_phase t')" if r: "ns_tasks s' j = Some t'" and "j \<noteq> k" for j t'
  proof -
    obtain u p where "ns_tasks s j = Some u" "t' = u\<lparr>it_phase := p\<rparr>" "phase_final (it_phase u) \<longrightarrow> phase_final (it_phase t')"
      using f(3) [OF r] by blast
    then show ?thesis using calls_invD [OF assms(1)] o(1) \<open>j \<noteq> k\<close> by fastforce
  qed
  moreover have "finished s' j \<or> j \<in> ns_panicked s'" if "j < ns_next s" "ns_tasks s' j = None" "j \<noteq> k" for j
    using assms(1) that o(1) f by (auto simp: calls_inv_def finished_def)
  ultimately show ?thesis
    using assms(1) d f(1) fin same_tasks_dom [OF o(2)]
    by (auto simp: calls_inv_def end_task_def finished_def)
qed

text \<open>The arrival of a call: a new transaction, which waits, is finished, or is dead.\<close>

definition arrives :: "nat \<Rightarrow> sip_request \<Rightarrow> ('b, 'w) ngn \<Rightarrow> ('b, 'w) ngn \<Rightarrow> bool" where
  "arrives k request s s' \<longleftrightarrow>
     k = ns_next s \<and> ns_next s' = k + 1 \<and> ns_panicked s \<subseteq> ns_panicked s'
     \<and> (\<forall>j. j \<noteq> k \<longrightarrow> ns_txs s' j = ns_txs s j \<and> same_task (ns_tasks s j) (ns_tasks s' j))
     \<and> (\<exists>tx. ns_txs s' k = Some tx \<and> st_request tx = request
          \<and> (case ns_tasks s' k of Some t \<Rightarrow> rings tx t \<and> phase_final (it_phase t) | None \<Rightarrow> finished s' k \<or> k \<in> ns_panicked s'))"

lemma calls_arrive:
  assumes "calls_inv s" "arrives k request s s'"
  shows "calls_inv s'"
proof -
  have a: "k = ns_next s" "ns_next s' = k + 1" "ns_panicked s \<subseteq> ns_panicked s'"
    "\<And>j. j \<noteq> k \<Longrightarrow> ns_txs s' j = ns_txs s j" "\<And>j. j \<noteq> k \<Longrightarrow> same_task (ns_tasks s j) (ns_tasks s' j)"
    using assms(2) by (auto simp: arrives_def)
  obtain tx where tx: "ns_txs s' k = Some tx" "case ns_tasks s' k of Some t \<Rightarrow> rings tx t \<and> phase_final (it_phase t) | None \<Rightarrow> finished s' k \<or> k \<in> ns_panicked s'"
    using assms(2) by (auto simp: arrives_def)
  have d: "j \<in> dom (ns_txs s') \<longleftrightarrow> j < ns_next s'" for j
  proof (cases "j = k")
    case False
    then show ?thesis using a assms(1) by (auto simp: calls_inv_def set_eq_iff domIff)
  qed (use tx(1) a in auto)
  have t: "j \<in> dom (ns_tasks s') \<Longrightarrow> j < ns_next s'" for j
    using a(1,2) a(5) [of j] calls_invD(2) [OF assms(1)] by (cases "j = k") (auto simp: less_Suc_eq dest!: same_task_Some)
  have "(\<exists>tx. ns_txs s' j = Some tx \<and> rings tx t') \<and> phase_final (it_phase t')" if r: "ns_tasks s' j = Some t'" for j t'
  proof (cases "j = k")
    case False
    then obtain u p where "ns_tasks s j = Some u" "t' = u\<lparr>it_phase := p\<rparr>" "phase_final (it_phase u) \<longrightarrow> phase_final (it_phase t')"
      using a(5) [OF False] r same_task_Some [of "ns_tasks s j" t'] by auto
    then show ?thesis using calls_invD [OF assms(1)] a(4) False by fastforce
  qed (use tx r in auto)
  moreover have "finished s' j \<or> j \<in> ns_panicked s'" if "j < ns_next s'" "ns_tasks s' j = None" for j
  proof (cases "j = k")
    case False
    then have "j < ns_next s" "ns_tasks s j = None" "ns_txs s' j = ns_txs s j" using a that a(5) [of j] by auto
    then show ?thesis using assms(1) a(3) by (auto simp: calls_inv_def finished_def)
  qed (use tx that in auto)
  moreover have "dom (ns_txs s') = {..<ns_next s'}" "dom (ns_tasks s') \<subseteq> {..<ns_next s'}" using d t by blast+
  ultimately show ?thesis unfolding calls_inv_def by blast
qed

section \<open>An INVITE arrives\<close>

lemma normalize_ngn [hdr_simps]:
  "normalize_header_name ''Unsupported'' = ''unsupported''" "normalize_header_name ''unsupported'' = ''unsupported''"
  "normalize_header_name ''RSeq'' = ''rseq''" "normalize_header_name ''rseq'' = ''rseq''"
  "normalize_header_name ''Date'' = ''date''" "normalize_header_name ''Server'' = ''server''"
  "normalize_header_name ''Supported'' = ''supported''" "normalize_header_name ''Require'' = ''require''"
  "normalize_header_name ''supported'' = ''supported''" "normalize_header_name ''require'' = ''require''"
  "normalize_header_name ''rack'' = ''rack''" "normalize_header_name ''min-se'' = ''min-se''"
  "normalize_header_name ''Session-Expires'' = ''session-expires''" "normalize_header_name ''Min-SE'' = ''min-se''"
  by (simp_all add: normalize_header_name_def compact_forms_def trim_def trim_start_id trim_end_id ws_eval char_eval)

lemma server_new_invite:
  assumes "server_new request remote = Inr tx" "req_method request = Invite"
  shows "st_request tx = request" "st_state tx = SrvProceeding"
  using assms by (auto simp: server_new_def)

lemma ensure_tag_to:
  "hdr_get (resp_headers (ensure_to_tag y r)) ''to'' =
     map_option (\<lambda>v. if has_to_tag v then v else v @ '';tag='' @ new_tag y) (hdr_get (resp_headers r) ''to'')"
  by (auto simp: ensure_to_tag_def hdr_simps split: option.splits)

lemma ringing_to_header:
  assumes "\<not> in_dialog request"
  shows "hdr_get (resp_headers (ringing_response cfg env request)) ''to'' =
     map_option (ringing_to (en_to env) (en_tag env)) (hdr_get (req_headers request) ''to'')"
proof -
  let ?r = "apply_uas_inbound_2xx_headers (wall_secs env) (set_contact cfg (build_response_skeleton (en_to env) request 180 ''Ringing''))"
  have "hdr_get (resp_headers ?r) ''to'' = hdr_get (resp_headers (build_response_skeleton (en_to env) request 180 ''Ringing'')) ''to''"
    by (simp add: apply_uas_inbound_2xx_headers_def set_contact_def hdr_simps)
  then show ?thesis
    using assms unfolding ringing_response_def ensure_tag_to
    by (auto simp: skeleton_get ringing_to_def in_dialog_def Let_def split: option.splits)
qed

lemma reliable_ringing_to [simp]: "hdr_get (resp_headers (reliable_ringing rseq via r)) ''to'' = hdr_get (resp_headers r) ''to''"
  by (simp add: reliable_ringing_def hdr_simps)

lemma ringing_status [simp]: "resp_status (ringing_response cfg env request) = 180" "resp_status (reliable_ringing rseq via r) = resp_status r"
  by (simp_all add: ringing_response_def set_contact_def apply_uas_inbound_2xx_headers_def reliable_ringing_def)

text \<open>The state once the 100 is out.\<close>

definition invited :: "nat \<Rightarrow> sip_request \<Rightarrow> ('b, 'w) ngn \<Rightarrow> ('b, 'w) ngn \<Rightarrow> bool" where
  "invited k request s s3 \<longleftrightarrow>
     k = ns_next s \<and> ns_next s3 = k + 1 \<and> ns_panicked s3 = ns_panicked s \<and> ns_tasks s3 = ns_tasks s
     \<and> (\<forall>j. j \<noteq> k \<longrightarrow> ns_txs s3 j = ns_txs s j)
     \<and> (\<exists>tx. ns_txs s3 k = Some tx \<and> st_request tx = request \<and> st_state tx = SrvProceeding)"

lemma respond_request: "st_request (snd (respond tx r now)) = st_request tx"
  by (rule respond_frame(3))

lemma arrives_settled:
  assumes "calls_inv s" "invited k request s s3" "settles is_final k s3 s'"
  shows "arrives k request s s'"
proof -
  obtain tx where tx: "ns_txs s3 k = Some tx" "st_request tx = request" "st_state tx = SrvProceeding"
    using assms(2) by (auto simp: invited_def)
  have fin: "finished s' k \<or> k \<in> ns_panicked s'" using settles_done [OF assms(3) _ tx(1,3)] by simp
  note o = settles_others [OF assms(3)]
  note f = same_tasks_facts [OF o(2)]
  have "ns_tasks s k = None" using assms(1,2) by (auto simp: invited_def calls_inv_def)
  then have "ns_tasks s' k = None" using assms(2) f(4) by (simp add: invited_def)
  moreover have "\<exists>tx'. ns_txs s' k = Some tx' \<and> st_request tx' = request"
    using assms(3) tx by (auto simp: settles_def says_def quiet_def respond_request)
  ultimately show ?thesis
    using assms(2) fin o f(1,2) by (auto simp: arrives_def invited_def same_tasks_def)
qed

lemma invited_provisional:
  assumes "invited k request s s3" "provisional r"
  shows "invited k request s (send_on now k r s3)"
proof -
  obtain tx where tx: "ns_txs s3 k = Some tx" "st_request tx = request" "st_state tx = SrvProceeding"
    using assms(1) by (auto simp: invited_def)
  then have "st_state (snd (respond tx r now)) = SrvProceeding" "st_request (snd (respond tx r now)) = request"
    using assms(2) respond_provisional(1) [of tx r now] by (simp_all add: provisional_def respond_request)
  then show ?thesis using assms(1) tx(1) by (simp add: invited_def) (simp add: send_on_def)
qed

lemma invited_provisionals:
  "invited k request s s3 \<Longrightarrow> list_all provisional rs \<Longrightarrow> invited k request s (fold (send_on now k) rs s3)"
  by (induction rs arbitrary: s3) (simp_all add: invited_provisional)

lemma reinvite_settles:
  assumes "invited k request s s3" "event_ok (Incoming env request remote)"
  shows "\<exists>s4. invited k request s s4 \<and> settles is_final k s4 (inbound_reinvite env k request cid s3)"
proof (cases "en_reinvite env")
  case None
  then have "settles is_final k s3 (inbound_reinvite env k request cid s3)" by (simp add: inbound_reinvite_def settles_def settles_respond)
  then show ?thesis using assms(1) by blast
next
  case (Some rs)
  then have rs: "rs = butlast rs @ [List.last rs]" "is_final (List.last rs)" "list_all provisional (butlast rs)"
    using assms(2) by auto
  let ?s4 = "fold (send_on (en_now env) k) (butlast rs) s3"
  have "fold (send_on (en_now env) k) rs s3 = send_on (en_now env) k (List.last rs) ?s4"
    by (subst rs(1)) simp
  then have "settles is_final k ?s4 (inbound_reinvite env k request cid s3)"
    using rs(2) by (simp add: inbound_reinvite_def Some settles_def says_send)
  then show ?thesis using invited_provisionals [OF assms(1) rs(3)] by blast
qed

lemma nobody_home_settles: "settles is_final k s (nobody_home cfg env k request cid s)"
proof -
  obtain r s1 where v: "try_start_voicemail cfg env k request cid s = (r, s1)" by fastforce
  from voicemail_cases [OF v] show ?thesis
  proof
    assume "r = Inr True \<and> says k (has_status 200) s s1"
    then show ?thesis using v says_weaken [of k "has_status 200" s s1 is_final]
      by (auto simp: nobody_home_def settles_def status_final)
  next
    assume "r \<noteq> Inr True \<and> quiet s s1"
    then show ?thesis using v
      by (auto simp: nobody_home_def settles_def quiet_panics intro!: settles_respond split: sum.splits bool.splits)
  qed
qed

lemma refusals_settle:
  "settles is_final k s (bad_extension env k request unsupported cid s)" "settles is_final k s (interval_too_small env k request cid s)"
  by (auto simp: bad_extension_def interval_too_small_def settles_def Let_def is_final_def intro!: says_send)

lemma insert_rc100rel_same: "same_tasks s s' \<Longrightarrow> same_tasks s (insert_rc100rel cid st s')"
  using same_tasks_remove [of s s' NoState cid] by (simp add: insert_rc100rel_def Let_def same_tasks_def)

lemma insert_rc100rel_txs [simp]: "ns_txs (insert_rc100rel cid st s) = ns_txs s" "ns_next (insert_rc100rel cid st s) = ns_next s"
  "ns_panicked (insert_rc100rel cid st s) = ns_panicked s"
  by (simp_all add: insert_rc100rel_def Let_def)

lemma ringing_arrives:
  fixes s :: "('b, 'w) ngn"
  assumes "calls_inv s" "invited k request s s3" "hdr_get (req_headers request) ''call-id'' = Some cid" "\<not> in_dialog request"
  shows "arrives k request s (start_ringing cfg env k tx0 request remote cid bindings s3)"
proof -
  obtain tx where tx: "ns_txs s3 k = Some tx" "st_request tx = request" "st_state tx = SrvProceeding"
    using assms(2) by (auto simp: invited_def)
  let ?r0 = "ringing_response cfg env request"
  let ?r = "if wants_100rel request then reliable_ringing (en_rseq env) (st_response_via tx0) ?r0 else ?r0"
  define st where "st = \<lparr>rc_rseq = en_rseq env, rc_invite_cseq = invite_cseq_of request, rc_waiter = None,
    rc_retransmit = Some (spawn_retransmit (en_now env) (st_response_dest tx0) (response_to_bytes ?r))\<rparr>"
  define s4 where "s4 = (if wants_100rel request then insert_rc100rel cid st s3 else s3)"
  have s4: "same_tasks s3 s4" "ns_txs s4 = ns_txs s3"
    using insert_rc100rel_same [of s3 s3 cid st] by (auto simp: s4_def same_tasks_def)
  let ?tx = "snd (respond tx ?r (en_now env))"
  have p: "st_state ?tx = SrvProceeding" "st_last_response ?tx = Some (?r\<lparr>resp_headers := hdr_set ''Via'' (st_response_via tx) (resp_headers ?r)\<rparr>)"
    using respond_provisional [OF tx(3), of ?r] by auto
  let ?tag = "Option.bind (hdr_get (resp_headers ?r) ''to'') extract_to_tag"
  define t :: "('b, 'w) invite_task" where "t = \<lparr>it_request = request, it_remote = remote, it_call_id = cid, it_bindings = bindings,
    it_wants_100rel = wants_100rel request, it_timer = invite_timer request, it_to_tag = ?tag, it_phase = Forking (en_now env) False\<rparr>"
  define s5 where "s5 = send_on (en_now env) k ?r s4"
  have fin: "start_ringing cfg env k tx0 request remote cid bindings s3 =
      s5\<lparr>ns_in_flight := (ns_in_flight s5)(cid \<mapsto> k), ns_tasks := (ns_tasks s5)(k \<mapsto> t)\<rparr>"
    by (simp add: start_ringing_def Let_def s5_def s4_def st_def t_def)
  have s5: "ns_txs s5 = (ns_txs s3)(k \<mapsto> ?tx)" "same_tasks s3 s5"
    using s4 tx(1) by (simp_all add: s5_def same_tasks_def) (simp add: send_on_def)
  have "rings ?tx t \<and> phase_final (it_phase t)"
    using p assms(3,4) tx(2) ringing_to_header [OF assms(4), of cfg env]
    by (auto simp: rings_def t_def respond_request hdr_simps intro!: exI)
  moreover have "ns_tasks s5 j = ns_tasks s5 j \<and> same_task (ns_tasks s j) (ns_tasks s5 j) \<and> ns_txs s5 j = ns_txs s j" if "j \<noteq> k" for j
    using assms(2) s5 that by (auto simp: invited_def same_tasks_def)
  moreover have "ns_next s5 = k + 1" "k = ns_next s" "ns_panicked s \<subseteq> ns_panicked s5" "st_request ?tx = request"
    using assms(2) same_tasks_facts(1,2) [OF s5(2)] tx(2) by (auto simp: invited_def respond_request)
  ultimately show ?thesis using s5(1) unfolding fin arrives_def by simp
qed

lemma invited_after_trying:
  assumes "calls_inv s" "server_new request remote = Inr tx" "req_method request = Invite"
  shows "invited (ns_next s) request s (log_start env n cid (send_on now (ns_next s) (build_response_skeleton r request 100 ''Trying'')
    (s\<lparr>ns_next := ns_next s + 1, ns_txs := (ns_txs s)(ns_next s \<mapsto> tx), ns_pending := (ns_pending s)(cid \<mapsto> ns_next s)\<rparr>)))"
proof -
  note tx = server_new_invite [OF assms(2,3)]
  have "st_state (snd (respond tx (build_response_skeleton r request 100 ''Trying'') now)) = SrvProceeding"
    using respond_provisional(1) [OF tx(2), of "build_response_skeleton r request 100 ''Trying''"] by simp
  then show ?thesis
    using tx by (simp add: invited_def respond_request) (simp add: send_on_def respond_request)
qed

lemma invite_arrives:
  assumes inv: "calls_inv s" and ok: "event_ok (Incoming env request remote)" and m: "req_method request = Invite"
    and cid: "hdr_get (req_headers request) ''call-id'' = Some cid" and tx: "server_new request remote = Inr tx"
  shows "arrives (ns_next s) request s (ngn_handle_invite cfg env request remote s)"
proof -
  let ?k = "ns_next s"
  define s3 where "s3 = log_start env (remote_number_of request) cid (send_on (en_now env) ?k
    (build_response_skeleton (en_to env) request 100 ''Trying'')
    (s\<lparr>ns_next := ?k + 1, ns_txs := (ns_txs s)(?k \<mapsto> tx), ns_pending := (ns_pending s)(cid \<mapsto> ?k)\<rparr>))"
  have i: "invited ?k request s s3" unfolding s3_def by (rule invited_after_trying [OF inv tx m])
  note settled = arrives_settled [OF inv i]
  obtain s4 where s4: "invited ?k request s s4" "settles is_final ?k s4 (inbound_reinvite env ?k request cid s3)"
    using reinvite_settles [OF i ok] by blast
  have re: "arrives ?k request s (inbound_reinvite env ?k request cid s3)" by (rule arrives_settled [OF inv s4])
  have pa: "arrives ?k request s (task_panics ?k s3)"
    using quiet_panics [of s3 s3 ?k] by (intro settled) (simp add: settles_def)
  have ring: "\<not> in_dialog request \<Longrightarrow> arrives ?k request s (start_ringing cfg env ?k tx request remote cid bs s3)" for bs
    by (rule ringing_arrives [OF inv i cid])
  show ?thesis
    using settled [OF refusals_settle(1)] settled [OF refusals_settle(2)] settled [OF nobody_home_settles] re pa ring
    unfolding ngn_handle_invite_def cid tx prod.case option.case sum.case Let_def s3_def [symmetric]
    by (auto split: sum.splits)
qed

section \<open>Every step\<close>

lemma same_tasks_trans: "same_tasks s s1 \<Longrightarrow> same_tasks s1 s2 \<Longrightarrow> same_tasks s s2"
  unfolding same_tasks_def using same_task_trans by (auto, blast)

lemma quiet_settles: "quiet s s1 \<Longrightarrow> settles P k s1 s2 \<Longrightarrow> settles P k s s2"
  unfolding settles_def says_def quiet_def using same_tasks_trans by metis

lemma answer_once_quiet: "answer_once env request remote f code reason s = Some s' \<Longrightarrow> quiet s s'"
  by (auto simp: answer_once_def split: sum.splits)

lemma answer_allow_quiet: "quiet s s1 \<Longrightarrow> quiet s (answer_allow env request remote code reason s1)"
  by (auto simp: answer_allow_def answer_once_def split: option.splits sum.splits)

lemma prack_quiet: "quiet s (handle_prack env request remote s)"
  by (auto simp: handle_prack_def Let_def answer_allow_quiet intro!: quiet_cleanup(1) dest!: answer_once_quiet
      split: option.splits prod.splits)

lemma set_phase_quiet:
  "ns_tasks s k = Some t \<Longrightarrow> phase_final p \<Longrightarrow> quiet s (s\<lparr>ns_tasks := (ns_tasks s)(k \<mapsto> t\<lparr>it_phase := p\<rparr>)\<rparr>)"
  by (simp add: quiet_def same_tasks_def same_task_phase)

lemma notify_quiet: "quiet s s1 \<Longrightarrow> quiet s (notify_cancel cid s1)"
  using set_phase_quiet [of s1]
  by (auto simp: notify_cancel_def quiet_def split: option.splits invite_phase.splits intro: same_tasks_trans)

lemma cancel_quiet: "quiet s (handle_cancel env request remote s)"
  by (auto simp: handle_cancel_def notify_quiet dest!: answer_once_quiet split: option.splits)

lemma bye_quiet: "quiet s s1 \<Longrightarrow> quiet s (bye_inbound env cid s1)" "quiet s s1 \<Longrightarrow> quiet s (bye_outbound env cid oe s1)"
  by (simp_all add: bye_inbound_def bye_outbound_def Let_def split: option.splits)

lemma handle_bye_quiet: "quiet s (ngn_handle_bye env request remote s)"
  by (auto simp: ngn_handle_bye_def bye_quiet dest!: answer_once_quiet split: option.splits)

lemma close_quiet: "quiet s (close_inbound env cid entry s)" "quiet s (inbound_closed env cid entry s)"
  by (simp_all add: close_inbound_def inbound_closed_def Let_def)

lemma rel_timer_quiet: "quiet s (rel_timer_fires now cid s)"
  by (auto simp: rel_timer_fires_def quiet_def same_tasks_def Let_def split: option.splits prod.splits)

lemma wait_quiet:
  "ns_tasks s1 k = Some t \<Longrightarrow> result_final result \<Longrightarrow> wait_for_prack now k t result s1 = Some s2 \<Longrightarrow> quiet s1 s2"
  using set_phase_quiet [of s1 k t] by (auto simp: wait_for_prack_def quiet_def same_tasks_def split: option.splits if_splits)

lemma inbound_effect:
  assumes "calls_inv s" "event_ok (Incoming env request remote)"
  shows "quiet s (handle_inbound cfg env request remote s) \<or> (\<exists>k. arrives k request s (handle_inbound cfg env request remote s))"
proof (cases "req_method request")
  case Invite
  then show ?thesis
    using invite_arrives [OF assms Invite]
    by (cases "hdr_get (req_headers request) ''call-id''"; cases "server_new request remote")
      (auto simp: handle_inbound_def ngn_handle_invite_def)
qed (auto simp: handle_inbound_def answer_allow_quiet prack_quiet cancel_quiet handle_bye_quiet split: option.splits)

definition ends_call :: "ngn_config \<Rightarrow> nat \<Rightarrow> ('b, 'w) ngn \<Rightarrow> ('b, 'w) ngn \<Rightarrow> bool" where
  "ends_call cfg k s s' \<longleftrightarrow> (\<exists>t s1. ns_tasks s k = Some t \<and> s' = end_task k s1 \<and> settles (reply cfg t) k s s1)"

lemma cancelled_effect: "quiet s (call_cancelled env k s) \<or> ends_call cfg k s (call_cancelled env k s)"
proof (cases "\<exists>t started. ns_tasks s k = Some t \<and> it_phase t = Forking started True")
  case True
  then obtain t started where "ns_tasks s k = Some t" "it_phase t = Forking started True" by blast
  then show ?thesis
    unfolding call_cancelled_def ends_call_def
    by (simp add: Let_def) (intro disjI2 exI conjI, rule refl, simp add: settles_def reply_respond quiet_cleanup)
qed (auto simp: call_cancelled_def split: option.splits invite_phase.splits)

lemma prack_finished_effect:
  assumes "\<And>t d result w. ns_tasks s k = Some t \<Longrightarrow> it_phase t = AwaitPrack d result w \<Longrightarrow> result_final result"
  shows "quiet s (prack_finished cfg env k s) \<or> ends_call cfg k s (prack_finished cfg env k s)"
proof (cases "\<exists>t d result w. ns_tasks s k = Some t \<and> it_phase t = AwaitPrack d result w")
  case True
  then obtain t d result w where t: "ns_tasks s k = Some t" "it_phase t = AwaitPrack d result w" by blast
  show ?thesis
  proof (cases w)
    case None
    show ?thesis
    proof (cases "en_now env < d")
      case False
      then show ?thesis
        unfolding prack_finished_def ends_call_def using t None
        by (simp add: Let_def) (intro disjI2 exI conjI, rule refl, simp add: settles_def reply_respond quiet_cleanup)
    qed (use t None in \<open>simp add: prack_finished_def\<close>)
  next
    case (Some oc)
    then show ?thesis using conclude_settles [OF assms [OF t], of cfg env k t s] t by (auto simp: prack_finished_def ends_call_def)
  qed
qed (auto simp: prack_finished_def split: option.splits invite_phase.splits)

lemma fork_finished_effect:
  assumes "refusals_final results"
  shows "quiet s (fork_finished cfg env k results closed_at reg s) \<or> ends_call cfg k s (fork_finished cfg env k results closed_at reg s)"
proof (cases "\<exists>t started. ns_tasks s k = Some t \<and> it_phase t = Forking started False")
  case True
  then obtain t started where t: "ns_tasks s k = Some t" "it_phase t = Forking started False" by blast
  obtain result legs reg' where f: "fork_to_bindings (it_bindings t) started (nc_fork_timeout cfg) results closed_at reg = (result, legs, reg')"
    by (metis prod_cases3)
  have rf: "result_final result" using fork_final [OF assms] f by (metis fst_conv)
  let ?s1 = "cancel_browsers legs s"
  let ?s2 = "?s1\<lparr>ns_in_flight := (ns_in_flight ?s1)(it_call_id t := None)\<rparr>"
  have q: "quiet s ?s2" by simp
  have c: "\<exists>s3. conclude cfg env k t result ?s2 = end_task k s3 \<and> settles (reply cfg t) k s s3"
    using conclude_settles [OF rf, of cfg env k t ?s2] quiet_settles [OF q] by blast
  have w: "quiet s s3" if "wait_for_prack (en_now env) k t result ?s2 = Some s3" for s3
    using wait_quiet [of ?s2 k t, OF _ rf that] t(1) q by (auto simp: quiet_def intro: same_tasks_trans)
  show ?thesis
    using t c w by (auto simp: fork_finished_def f Let_def ends_call_def split: option.splits)
qed (auto simp: fork_finished_def split: option.splits invite_phase.splits)

lemma step_effect:
  assumes "calls_inv s" "event_ok e"
  shows "quiet s (ngn_step cfg s e) \<or> (\<exists>k. ends_call cfg k s (ngn_step cfg s e)) \<or> (\<exists>k request. arrives k request s (ngn_step cfg s e))"
proof (cases e)
  case (Incoming env request remote)
  with inbound_effect [OF assms(1), of env request remote cfg] assms(2) show ?thesis
    by (simp only: ngn_step.simps) blast
next
  case (ForkDone env k results closed_at reg)
  then show ?thesis using fork_finished_effect assms(2) by fastforce
next
  case (PrackDone env k)
  have "phase_final (it_phase t)" if "ns_tasks s k = Some t" for t using calls_invD(3) [OF assms(1) that] .
  then have "quiet s (prack_finished cfg env k s) \<or> ends_call cfg k s (prack_finished cfg env k s)"
    by (intro prack_finished_effect) (metis phase_final.simps(2))
  with PrackDone show ?thesis by auto
next
  case (CancelWins env k)
  then show ?thesis using cancelled_effect [of s env k] by auto
qed (simp_all add: rel_timer_quiet browser_gone_def sweep_webrtc_active_def outgoing_up_def Let_def close_quiet)

lemma calls_inv_step:
  assumes "calls_inv s" "event_ok e"
  shows "calls_inv (ngn_step cfg s e)"
  using step_effect [OF assms, of cfg] calls_quiet [OF assms(1)] calls_settled [OF assms(1)] calls_arrive [OF assms(1)]
  by (auto simp: ends_call_def)

text \<open>A call that is over stays as it is.\<close>

lemma over_step:
  assumes "calls_inv s" "event_ok e" "k < ns_next s" "ns_tasks s k = None"
  shows "ns_tasks (ngn_step cfg s e) k = None \<and> ns_txs (ngn_step cfg s e) k = ns_txs s k \<and> k < ns_next (ngn_step cfg s e)"
  using step_effect [OF assms(1,2), of cfg]
proof (elim disjE exE)
  assume "quiet s (ngn_step cfg s e)"
  then have "same_tasks s (ngn_step cfg s e)" "ns_txs (ngn_step cfg s e) = ns_txs s" by (simp_all add: quiet_def)
  then show ?thesis using assms(3,4) same_tasks_facts(1,4) [of s "ngn_step cfg s e"] by simp
next
  fix j
  assume "ends_call cfg j s (ngn_step cfg s e)"
  then obtain t s1 where j: "ns_tasks s j = Some t" "ngn_step cfg s e = end_task j s1" "settles (reply cfg t) j s s1"
    by (auto simp: ends_call_def)
  then have "j \<noteq> k" using assms(4) by auto
  then show ?thesis
    using assms(3,4) j(2) settles_others(1) [OF j(3)] same_tasks_facts(1,4) [OF settles_others(2) [OF j(3)]]
    by (simp add: end_task_def)
next
  fix j request
  assume a: "arrives j request s (ngn_step cfg s e)"
  then have "j \<noteq> k" using assms(3) by (auto simp: arrives_def)
  then have "same_task (ns_tasks s k) (ns_tasks (ngn_step cfg s e) k)" "ns_txs (ngn_step cfg s e) k = ns_txs s k"
    using a by (auto simp: arrives_def)
  moreover have "k < ns_next (ngn_step cfg s e)" using a assms(3) by (auto simp: arrives_def)
  ultimately show ?thesis using assms(4) by simp
qed

interpretation calls: guarded_machine "ngn_step cfg" "\<lambda>_. event_ok" calls_inv
  by unfold_locales (rule calls_inv_step)

interpretation over: guarded_machine "ngn_step cfg" "\<lambda>_. event_ok"
    "\<lambda>s. calls_inv s \<and> k < ns_next s \<and> ns_tasks s k = None \<and> ns_txs s k = tx"
  by unfold_locales (use over_step calls_inv_step in blast)

lemma calls_inv_start: "calls_inv (ngn_start mgr counter cl ml)"
  by (simp add: calls_inv_def ngn_start_def)


section \<open>The answer belongs to the dialog that rings\<close>

lemma answer_to_header:
  assumes "it_to_tag t = Some tag" "hdr_get (req_headers (it_request t)) ''to'' = Some v" "\<not> has_to_tag v"
  shows "hdr_get (resp_headers (answer_to_ngn cfg env t body)) ''to'' = Some (v @ '';tag='' @ tag)"
  using assms
  by (simp add: answer_to_ngn_def Let_def set_contact_def apply_uas_inbound_2xx_headers_def echo_timer_def keep_to_tag_def
      set_sdp_def hdr_simps split: option.splits)

text \<open>The \<^verbatim>\<open>To\<close> of the ringing response, when that of the request is closed.\<close>

lemma rings_to:
  assumes "rings tx t" "hdr_get (req_headers (it_request t)) ''to'' = Some v" "closed_addr v"
  shows "\<exists>r x. st_last_response tx = Some r \<and> \<not> has_to_tag v \<and> it_to_tag t = Some (new_uas_to_tag x)
    \<and> hdr_get (resp_headers r) ''to'' = Some (v @ '';tag='' @ new_uas_to_tag x)"
proof -
  have nt: "\<not> has_to_tag v" using assms(1,2) by (simp add: rings_def in_dialog_def)
  have "extract_to_tag (v @ '';tag='' @ new_uas_to_tag x) = Some (new_uas_to_tag x)" "has_to_tag (v @ '';tag='' @ new_uas_to_tag x)" for x
    using added_tag_read [OF assms(3) nt new_tags_text(1)] by auto
  then show ?thesis using assms(1,2) nt by (auto simp: rings_def ringing_to_def Let_def)
qed


text \<open>What a step does to the transaction of a call that waits.\<close>

lemma waiting_step:
  assumes "calls_inv s" "event_ok e" "ns_tasks s k = Some t" "ns_txs s k = Some tx"
  shows "ns_txs (ngn_step cfg s e) k = Some tx
    \<or> (\<exists>r now. reply cfg t r \<and> ns_txs (ngn_step cfg s e) k = Some (snd (respond tx r now)))"
  using step_effect [OF assms(1,2), of cfg]
proof (elim disjE exE)
  fix j
  assume "ends_call cfg j s (ngn_step cfg s e)"
  then obtain u s1 where j: "ns_tasks s j = Some u" "ngn_step cfg s e = end_task j s1" "settles (reply cfg u) j s s1"
    by (auto simp: ends_call_def)
  then show ?thesis
    using assms(3,4) settles_others(1) [OF j(3), of k] by (cases "j = k") (auto simp: settles_def says_def quiet_def)
next
  fix j request
  assume a: "arrives j request s (ngn_step cfg s e)"
  then have "j \<noteq> k" using calls_invD(2) [OF assms(1,3)] by (auto simp: arrives_def)
  then show ?thesis using a assms(4) by (auto simp: arrives_def)
qed (use assms(4) in \<open>simp add: quiet_def\<close>)


section \<open>An example\<close>

declare ngn_step.simps [simp del]

definition call_ex :: sip_request where
  "call_ex = \<lparr>req_method = Invite, req_uri = ''sip:b'',
     req_headers = [(''via'', via_ex), (''to'', ''<sip:b>''), (''call-id'', ''c1'')], req_body = []\<rparr>"

definition ngn_config_ex :: ngn_config where
  "ngn_config_ex = \<lparr>nc_fork_timeout = 20000, nc_bridge_ngn_bind_ip = None, nc_bridge_ext_bind_ip = None,
     nc_ngn_local_addr = Some remote_ex, nc_voicemail = False, nc_routing_rules = [], nc_parse_hm = (\<lambda>_. None),
     nc_socket_addr = remote_ex, nc_layer = True\<rparr>"

definition ngn_env_ex :: "nat \<Rightarrow> unit ngn_env" where
  "ngn_env_ex now = \<lparr>en_now = now, en_wall = now, en_to = 7, en_tag = 8, en_rseq = 9, en_branch = 1, en_weekday = Mon, en_clock = 0,
     en_snapshot = [(''a'', ())], en_reinvite = None, en_bye_taken = False, en_free = (\<lambda>_. True), en_system_ports = [],
     en_ext_socket = (\<lambda>_. True), en_bridge_ok = True\<rparr>"

definition answer_ex :: "nat fork_answer" where
  "answer_ex = \<lparr>fa_response = \<lparr>resp_status = 200, resp_reason = ''OK'', resp_headers = [], resp_body = []\<rparr>,
     fa_opus_pt = None, fa_ws = None\<rparr>"

abbreviation start_ex :: "(unit, nat) ngn" where
  "start_ex \<equiv> ngn_start None 0 (Some (call_log_new 10)) None"

abbreviation arrival_ex :: "(unit, nat) ngn_event" where
  "arrival_ex \<equiv> Incoming (ngn_env_ex 0) call_ex remote_ex"

abbreviation answered_ex :: "(unit, nat) ngn_event" where
  "answered_ex \<equiv> ForkDone (ngn_env_ex 5) 0 [(4, BindEstablished ''sip:a'' answer_ex)] 9 leg_registry_new"

lemma call_ex_facts:
  "hdr_get (req_headers call_ex) ''call-id'' = Some ''c1''" "hdr_get (req_headers call_ex) ''to'' = Some ''<sip:b>''"
  "hdr_get (req_headers call_ex) ''require'' = None" "hdr_get (req_headers call_ex) ''supported'' = None"
  "hdr_get (req_headers call_ex) ''session-expires'' = None" "\<not> in_dialog call_ex" "invite_timer call_ex = None"
  "\<not> wants_100rel call_ex" "closed_addr ''<sip:b>''" "req_method call_ex = Invite"
proof -
  show h: "hdr_get (req_headers call_ex) ''call-id'' = Some ''c1''" "hdr_get (req_headers call_ex) ''to'' = Some ''<sip:b>''"
    "hdr_get (req_headers call_ex) ''require'' = None" "hdr_get (req_headers call_ex) ''supported'' = None"
    "hdr_get (req_headers call_ex) ''session-expires'' = None"
    by (simp_all add: call_ex_def hdr_get_def hdr_simps)
  show "\<not> in_dialog call_ex" using h by (simp add: in_dialog_def has_to_tag_def)
  show "invite_timer call_ex = None" "\<not> wants_100rel call_ex" "closed_addr ''<sip:b>''" "req_method call_ex = Invite"
    using h by (simp_all add: invite_timer_def wants_100rel_def header_has_option_tag_def closed_addr_def call_ex_def)
qed

lemma server_new_call_ex: "\<exists>tx. server_new call_ex remote_ex = Inr tx"
  by (simp add: server_new_def id_from_request_def call_ex_def hdr_get_def hdr_simps parse_via_ex)

lemma call_ex_rings:
  "\<exists>t. ns_tasks (ngn_step ngn_config_ex start_ex arrival_ex) 0 = Some t \<and> it_request t = call_ex \<and> it_call_id t = ''c1''
     \<and> it_phase t = Forking 0 False \<and> \<not> it_wants_100rel t \<and> it_bindings t = [(''a'', ())]
     \<and> ns_manager (ngn_step ngn_config_ex start_ex arrival_ex) = None
     \<and> ns_panicked (ngn_step ngn_config_ex start_ex arrival_ex) = {}"
proof -
  obtain tx where tx: "server_new call_ex remote_ex = Inr tx" using server_new_call_ex by blast
  show ?thesis
    by (simp add: ngn_step.simps(1) handle_inbound_def call_ex_facts ngn_handle_invite_def tx Let_def evaluate_rules_def ngn_config_ex_def ngn_env_ex_def
        start_ringing_def ngn_start_def)
qed

lemma fork_ex: "fork_to_bindings [(''a'', ())] 0 20000 [(4, BindEstablished ''sip:a'' answer_ex)] 9 leg_registry_new =
    (ForkAnswered ''sip:a'' answer_ex, [], \<lparr>lr_legs = [], lr_closed = True\<rparr>)"
  by (simp add: fork_to_bindings_def close_and_drain_webrtc_legs_def leg_registry_new_def legs_to_cancel_def Let_def)

lemma call_ex_answered:
  "\<exists>tx r. ns_txs (run_steps (ngn_step ngn_config_ex) start_ex [arrival_ex, answered_ex]) 0 = Some tx
     \<and> st_last_response tx = Some r \<and> resp_status r = 200"
  "ns_tasks (run_steps (ngn_step ngn_config_ex) start_ex [arrival_ex, answered_ex]) 0 = None"
  "ns_panicked (run_steps (ngn_step ngn_config_ex) start_ex [arrival_ex, answered_ex]) = {}"
proof -
  let ?s = "ngn_step ngn_config_ex start_ex arrival_ex"
  obtain t where t: "ns_tasks ?s 0 = Some t" "it_request t = call_ex" "it_call_id t = ''c1''" "it_phase t = Forking 0 False"
    "\<not> it_wants_100rel t" "it_bindings t = [(''a'', ())]" "ns_manager ?s = None" "ns_panicked ?s = {}"
    using call_ex_rings by blast
  obtain tx where tx: "ns_txs ?s 0 = Some tx"
    using calls_invD(1) [OF calls_inv_step [OF calls_inv_start] t(1)] by (auto simp: ngn_env_ex_def)
  define s2 where "s2 = (cancel_browsers [] ?s)\<lparr>ns_in_flight := (ns_in_flight (cancel_browsers [] ?s))(''c1'' := None)\<rparr>"
  have s2: "ns_manager s2 = None" "ns_txs s2 = ns_txs ?s" "ns_panicked s2 = ns_panicked ?s" using t(7) by (simp_all add: s2_def)
  have pl: "\<not> is_undirected_or_webrtc_placeholder_sdp []"
    by (simp add: is_undirected_or_webrtc_placeholder_sdp_def str_lines_def)
  have c: "call_answered ngn_config_ex (ngn_env_ex 5) 0 t answer_ex s2
      = cleanup_rc100rel ''c1'' (establish ngn_config_ex (ngn_env_ex 5) 0 t [] None s2)"
    by (simp add: call_answered_def start_bridge_for_inbound_def s2(1) t(3) Let_def answer_ex_def pl echo_ptime_def)
  have f: "run_steps (ngn_step ngn_config_ex) start_ex [arrival_ex, answered_ex]
      = end_task 0 (cleanup_rc100rel ''c1'' (establish ngn_config_ex (ngn_env_ex 5) 0 t [] None s2))"
    using t c by (simp add: ngn_step.simps(3) fork_finished_def fork_ex conclude_def s2_def) (simp add: ngn_config_ex_def fork_ex)
  show "ns_tasks (run_steps (ngn_step ngn_config_ex) start_ex [arrival_ex, answered_ex]) 0 = None"
    unfolding f by (simp add: end_task_def)
  show "\<exists>tx r. ns_txs (run_steps (ngn_step ngn_config_ex) start_ex [arrival_ex, answered_ex]) 0 = Some tx
     \<and> st_last_response tx = Some r \<and> resp_status r = 200"
    unfolding f by (simp add: cleanup_rc100rel_def establish_def Let_def s2(2) tx) (simp add: send_on_def s2(2) tx respond_latest)
  show "ns_panicked (run_steps (ngn_step ngn_config_ex) start_ex [arrival_ex, answered_ex]) = {}"
    unfolding f by (simp add: cleanup_rc100rel_def establish_def Let_def s2(3) t(8))
qed



end
