(* ===== verification/Ngn_Prack.thy ===== *)
theory Ngn_Prack
  imports Ngn_Calls
begin

text \<open>
  Reliable ringing (RFC 3262) in the handler of requests from the carrier: when new calls come with
  new Call-IDs, a call whose ringing response was reliable is answered only after a PRACK that
  names this response.
\<close>

section \<open>What concerns the waits for a PRACK\<close>

text \<open>The states of reliable responses and the tasks: a step acts on the Call-ID of one call only.\<close>

definition rc_same :: "('b, 'w) ngn \<Rightarrow> ('b, 'w) ngn \<Rightarrow> bool" where
  "rc_same s s' \<longleftrightarrow> ns_next s \<le> ns_next s' \<and> ns_rc100rel s' = ns_rc100rel s \<and> ns_tasks s' = ns_tasks s"

lemma rc_same_refl [simp]: "rc_same s s"
  by (simp add: rc_same_def)

lemma rc_same_frame [simp]:
  "rc_same s (log_end env cid oc s') \<longleftrightarrow> rc_same s s'" "rc_same s (log_start env n cid s') \<longleftrightarrow> rc_same s s'"
  "rc_same s (forget_pending cid s') \<longleftrightarrow> rc_same s s'" "rc_same s (count_invites rs s') \<longleftrightarrow> rc_same s s'"
  "rc_same s (inc_call_active s') \<longleftrightarrow> rc_same s s'" "rc_same s (dec_call_active s') \<longleftrightarrow> rc_same s s'"
  "rc_same s (task_panics k s') \<longleftrightarrow> rc_same s s'" "rc_same s (stop_call rm s') \<longleftrightarrow> rc_same s s'"
  "rc_same s (cancel_browsers legs s') \<longleftrightarrow> rc_same s s'" "rc_same s (log_inbound_message env q s') \<longleftrightarrow> rc_same s s'"
  "rc_same s (send_on now k r s') \<longleftrightarrow> rc_same s s'" "rc_same s (ngn_respond env k request code reason s') \<longleftrightarrow> rc_same s s'"
  by (simp_all add: rc_same_def ngn_respond_def)

lemma rc_same_update [simp]:
  "rc_same s (s'\<lparr>ns_active := x1\<rparr>) \<longleftrightarrow> rc_same s s'" "rc_same s (s'\<lparr>ns_webrtc := x2\<rparr>) \<longleftrightarrow> rc_same s s'"
  "rc_same s (s'\<lparr>ns_in_flight := x3\<rparr>) \<longleftrightarrow> rc_same s s'" "rc_same s (s'\<lparr>ns_pushed := x4\<rparr>) \<longleftrightarrow> rc_same s s'"
  "rc_same s (s'\<lparr>ns_out := x5\<rparr>) \<longleftrightarrow> rc_same s s'" "rc_same s (s'\<lparr>ns_outbound := x6\<rparr>) \<longleftrightarrow> rc_same s s'"
  "rc_same s (s'\<lparr>ns_voicemail := x7\<rparr>) \<longleftrightarrow> rc_same s s'" "rc_same s (s'\<lparr>ns_requests := x8\<rparr>) \<longleftrightarrow> rc_same s s'"
  "rc_same s (s'\<lparr>ns_closing := x9\<rparr>) \<longleftrightarrow> rc_same s s'" "rc_same s (s'\<lparr>ns_bye_sent := x10\<rparr>) \<longleftrightarrow> rc_same s s'"
  by (simp_all add: rc_same_def)

lemma rc_same_trans: "rc_same s s1 \<Longrightarrow> rc_same s1 s2 \<Longrightarrow> rc_same s s2"
  by (simp add: rc_same_def)

text \<open>The receiver of a state is with a task of the same Call-ID.\<close>

definition waiters_ok :: "('b, 'w) ngn \<Rightarrow> bool" where
  "waiters_ok s \<longleftrightarrow>
     (\<forall>cid st k. ns_rc100rel s cid = Some st \<and> rc_waiter st = Some k \<longrightarrow>
        k < ns_next s \<and> (\<forall>t. ns_tasks s k = Some t \<longrightarrow> it_call_id t = cid))"

text \<open>What of a task never changes.\<close>

definition same_call :: "('b, 'w) invite_task \<Rightarrow> ('b, 'w) invite_task \<Rightarrow> bool" where
  "same_call t t' \<longleftrightarrow> it_call_id t' = it_call_id t \<and> it_request t' = it_request t \<and> it_wants_100rel t' = it_wants_100rel t"

lemma same_call_refl [simp]: "same_call t t"
  by (simp add: same_call_def)

text \<open>A step on the Call-ID \<open>cid\<close>: the states and the tasks of the others stay.\<close>

definition on_call :: "string \<Rightarrow> ('b, 'w) ngn \<Rightarrow> ('b, 'w) ngn \<Rightarrow> bool" where
  "on_call cid s s' \<longleftrightarrow>
     ns_next s \<le> ns_next s'
     \<and> (\<forall>c. c \<noteq> cid \<longrightarrow> ns_rc100rel s' c = ns_rc100rel s c)
     \<and> (\<forall>j t'. ns_tasks s' j = Some t' \<longrightarrow> (\<exists>t. ns_tasks s j = Some t \<and> same_call t t' \<and> (it_call_id t \<noteq> cid \<longrightarrow> t' = t)))"

lemma on_callD:
  assumes "on_call cid s s'" "ns_tasks s' j = Some t'"
  shows "\<exists>t. ns_tasks s j = Some t \<and> same_call t t' \<and> (it_call_id t \<noteq> cid \<longrightarrow> t' = t)"
  using assms by (simp add: on_call_def)

lemma on_call_waiter:
  assumes "on_call cid s s'" "waiters_ok s" "ns_rc100rel s c = Some st" "rc_waiter st = Some k"
  shows "k < ns_next s \<and> (\<forall>t'. ns_tasks s' k = Some t' \<longrightarrow> it_call_id t' = c)"
proof -
  have w: "k < ns_next s" "\<And>t. ns_tasks s k = Some t \<Longrightarrow> it_call_id t = c" using assms(2-4) by (auto simp: waiters_ok_def)
  have "it_call_id t' = c" if t': "ns_tasks s' k = Some t'" for t'
    using on_callD [OF assms(1) t'] w(2) by (auto simp: same_call_def)
  with w(1) show ?thesis by blast
qed

lemma on_call_same: "rc_same s s' \<Longrightarrow> on_call cid s s'"
  by (auto simp: on_call_def rc_same_def)

lemma on_call_end: "on_call cid s s' \<Longrightarrow> on_call cid s (end_task k s')"
  by (simp add: on_call_def end_task_def)

lemma on_call_then: "on_call cid s s1 \<Longrightarrow> rc_same s1 s' \<Longrightarrow> on_call cid s s'"
  by (simp add: on_call_def rc_same_def)

lemma wake_on_call:
  assumes "\<And>k t. rc_waiter st = Some k \<Longrightarrow> ns_tasks s k = Some t \<Longrightarrow> it_call_id t = cid"
  shows "on_call cid s (wake oc st s)"
  using assms by (auto simp: on_call_def wake_def same_call_def split: option.splits invite_phase.splits)

lemma remove_on_call:
  assumes "waiters_ok s"
  shows "on_call cid s (remove_rc100rel oc cid s)" "ns_rc100rel (remove_rc100rel oc cid s) cid = None"
proof -
  have "on_call cid s (wake oc st (s\<lparr>ns_rc100rel := (ns_rc100rel s)(cid := None)\<rparr>))" if "ns_rc100rel s cid = Some st" for st
  proof -
    have "on_call cid (s\<lparr>ns_rc100rel := (ns_rc100rel s)(cid := None)\<rparr>) (wake oc st (s\<lparr>ns_rc100rel := (ns_rc100rel s)(cid := None)\<rparr>))"
      using assms that by (intro wake_on_call) (auto simp: waiters_ok_def)
    then show ?thesis by (auto simp: on_call_def)
  qed
  then show "on_call cid s (remove_rc100rel oc cid s)" by (auto simp: remove_rc100rel_def on_call_same split: option.splits)
  show "ns_rc100rel (remove_rc100rel oc cid s) cid = None" by (auto simp: remove_rc100rel_def split: option.splits)
qed

lemma rc_same_remove: "rc_same s s' \<Longrightarrow> rc_same (remove_rc100rel oc cid s) (remove_rc100rel oc cid s')"
  by (auto simp: rc_same_def remove_rc100rel_def wake_def split: option.splits invite_phase.splits)

lemma rc_same_cleanup: "rc_same s s' \<Longrightarrow> rc_same (cleanup_rc100rel cid s) (cleanup_rc100rel cid s')"
  unfolding cleanup_rc100rel_def by (rule rc_same_remove)

text \<open>The end of a call, in these terms.\<close>

definition rc_ends :: "string \<Rightarrow> ('b, 'w) ngn \<Rightarrow> ('b, 'w) ngn \<Rightarrow> bool" where
  "rc_ends cid s s' \<longleftrightarrow> rc_same s s' \<or> rc_same (cleanup_rc100rel cid s) s'"

lemma bind_relay_same: "bind_relay env s = (p, s1) \<Longrightarrow> rc_same s s1"
  using bind_relay_frame(1,3,4) [of env s] by (simp add: rc_same_def)

lemma voicemail_same: "try_start_voicemail cfg env k request cid s = (r, s1) \<Longrightarrow> rc_same s s1"
  by (auto simp: try_start_voicemail_def Let_def dest!: bind_relay_same split: if_splits prod.splits option.splits sum.splits bridge_error.splits)

lemma failed_rc: "rc_ends (it_call_id t) s (call_failed cfg env k t code reason result s)"
proof -
  obtain r s1 where v: "try_start_voicemail cfg env k (it_request t) (it_call_id t) s = (r, s1)" by fastforce
  note q = voicemail_same [OF v]
  then show ?thesis using v
    by (auto simp: call_failed_def rc_ends_def Let_def intro!: rc_same_cleanup split: sum.splits bool.splits)
qed

lemma answered_rc: "rc_ends (it_call_id t) s (call_answered cfg env k t a s)"
proof -
  obtain r s1 where b: "start_bridge_for_inbound cfg env (req_body (it_request t)) (resp_body (fa_response a)) (it_call_id t) (fa_opus_pt a) s = (r, s1)"
    by fastforce
  then have q: "rc_same s s1" using start_bridge_frame(1,3,4) [OF b] by (simp add: rc_same_def)
  have e: "rc_same s (establish cfg env k t body ws s1)" for body ws
    using q by (simp add: establish_def Let_def split: option.splits)
  have g: "rc_same (cleanup_rc100rel (it_call_id t) s) (bad_gateway env k t ws s1)" for ws
    using q by (auto simp: bad_gateway_def Let_def intro!: rc_same_cleanup split: option.splits)
  show ?thesis
    using b q e g by (auto simp: call_answered_def rc_ends_def Let_def intro!: rc_same_cleanup split: sum.splits bridge_error.splits)
qed

lemma conclude_rc: "\<exists>s1. conclude cfg env k t result s = end_task k s1 \<and> rc_ends (it_call_id t) s s1"
  by (cases result) (auto simp: conclude_def Let_def intro!: exI answered_rc failed_rc)

lemma rc_ends_on_call:
  assumes "waiters_ok s" "rc_ends cid s s1"
  shows "on_call cid s (end_task k s1)" "ns_rc100rel s1 cid = None \<or> ns_rc100rel s1 cid = ns_rc100rel s cid"
proof -
  note r = remove_on_call [OF assms(1), where cid = cid and oc = NoState]
  have "on_call cid s s1"
    using assms(2) on_call_same [of s s1 cid] on_call_then [OF r(1), of s1] by (auto simp: rc_ends_def cleanup_rc100rel_def)
  then show "on_call cid s (end_task k s1)" by (rule on_call_end)
  show "ns_rc100rel s1 cid = None \<or> ns_rc100rel s1 cid = ns_rc100rel s cid"
    using assms(2) r(2) by (auto simp: rc_ends_def cleanup_rc100rel_def rc_same_def)
qed

section \<open>The invariant\<close>

text \<open>A PRACK for the reliable response to \<open>request\<close> came after the request: its \<^verbatim>\<open>RAck\<close> names the number
  that was drawn when the request arrived, and the request.\<close>

definition acknowledged :: "('b, 'w) ngn_event list \<Rightarrow> sip_request \<Rightarrow> bool" where
  "acknowledged h request \<longleftrightarrow>
     (\<exists>h1 h2 env prack remote rack env0 remote0 m.
        h = h1 @ Incoming env prack remote # h2 \<and> Incoming env0 request remote0 \<in> set h1 \<and> req_method prack = Prack
        \<and> hdr_get (req_headers prack) ''call-id'' = hdr_get (req_headers request) ''call-id''
        \<and> hdr_get (req_headers prack) ''rack'' = Some rack
        \<and> parse_rack_header rack = Some (en_rseq env0, invite_cseq_of request, m) \<and> eq_ignore_case m ''INVITE'')"

definition announced :: "('b, 'w) ngn \<Rightarrow> ('b, 'w) ngn_event list \<Rightarrow> nat \<Rightarrow> ('b, 'w) invite_task \<Rightarrow> bool" where
  "announced s h k t \<longleftrightarrow>
     (\<exists>st env0 remote0. ns_rc100rel s (it_call_id t) = Some st
        \<and> Incoming env0 (it_request t) remote0 \<in> set h \<and> rc_rseq st = en_rseq env0
        \<and> rc_invite_cseq st = invite_cseq_of (it_request t)
        \<and> (case it_phase t of
             Forking started notified \<Rightarrow> rc_waiter st = None
           | AwaitPrack d result w \<Rightarrow> rc_waiter st = Some k \<and> w = None))"

definition distinct_calls :: "('b, 'w) ngn \<Rightarrow> bool" where
  "distinct_calls s \<longleftrightarrow>
     (\<forall>j k t u. ns_tasks s j = Some t \<and> ns_tasks s k = Some u \<and> it_call_id t = it_call_id u \<longrightarrow> j = k)"

definition prack_inv :: "('b, 'w) ngn \<times> ('b, 'w) ngn_event list \<Rightarrow> bool" where
  "prack_inv p \<longleftrightarrow>
     (let (s, h) = p
      in calls_inv s \<and> waiters_ok s \<and> distinct_calls s
         \<and> (\<forall>k t. ns_tasks s k = Some t \<and> it_wants_100rel t \<longrightarrow> announced s h k t \<or> acknowledged h (it_request t)))"

text \<open>New calls come with new Call-IDs.\<close>

definition fresh_event :: "('b, 'w) ngn \<Rightarrow> ('b, 'w) ngn_event \<Rightarrow> bool" where
  "fresh_event s e \<longleftrightarrow>
     (case e of
        Incoming env request remote \<Rightarrow>
          req_method request = Invite \<and> \<not> in_dialog request \<longrightarrow>
            (\<forall>k < ns_next s. case ns_txs s k of
               Some tx \<Rightarrow> in_dialog (st_request tx)
                 \<or> hdr_get (req_headers (st_request tx)) ''call-id'' \<noteq> hdr_get (req_headers request) ''call-id''
             | None \<Rightarrow> True)
      | _ \<Rightarrow> True)"

definition recorded_step ::
  "ngn_config \<Rightarrow> ('b, 'w) ngn \<times> ('b, 'w) ngn_event list \<Rightarrow> ('b, 'w) ngn_event \<Rightarrow> ('b, 'w) ngn \<times> ('b, 'w) ngn_event list" where
  "recorded_step cfg p e = (ngn_step cfg (fst p) e, snd p @ [e])"

lemma acknowledged_more: "acknowledged h request \<Longrightarrow> acknowledged (h @ l) request"
  unfolding acknowledged_def by (metis append_assoc append_Cons)

lemma announced_more: "announced s h k t \<Longrightarrow> announced s (h @ l) k t"
  unfolding announced_def by (metis UnI1 set_append)

lemma prack_inv_more: "prack_inv (s, h) \<Longrightarrow> prack_inv (s, h @ l)"
  unfolding prack_inv_def Let_def prod.case using acknowledged_more announced_more by metis

lemma announced_cong:
  "announced s h k t \<Longrightarrow> ns_rc100rel s' (it_call_id t) = ns_rc100rel s (it_call_id t) \<Longrightarrow> announced s' h k t"
  by (simp add: announced_def)

lemma on_call_inv:
  assumes "prack_inv (s, h)" "on_call cid s s'" "calls_inv s'"
    and own: "\<And>j t t'. ns_tasks s j = Some t \<Longrightarrow> ns_tasks s' j = Some t' \<Longrightarrow> same_call t t' \<Longrightarrow> it_call_id t = cid \<Longrightarrow> it_wants_100rel t \<Longrightarrow>
        announced s h j t \<Longrightarrow> announced s' (h @ l) j t' \<or> acknowledged (h @ l) (it_request t)"
    and wait: "\<And>st k. ns_rc100rel s' cid = Some st \<Longrightarrow> rc_waiter st = Some k \<Longrightarrow>
        k < ns_next s \<and> (\<forall>t. ns_tasks s' k = Some t \<longrightarrow> it_call_id t = cid)"
  shows "prack_inv (s', h @ l)"
proof -
  have inv: "waiters_ok s" "distinct_calls s"
    "\<And>k t. ns_tasks s k = Some t \<Longrightarrow> it_wants_100rel t \<Longrightarrow> announced s h k t \<or> acknowledged h (it_request t)"
    using assms(1) by (auto simp: prack_inv_def)
  have prior: "\<exists>t. ns_tasks s j = Some t \<and> same_call t t' \<and> (it_call_id t \<noteq> cid \<longrightarrow> t' = t)" if "ns_tasks s' j = Some t'" for j t'
    using assms(2) that by (auto simp: on_call_def)
  have rc: "ns_rc100rel s' c = ns_rc100rel s c" if "c \<noteq> cid" for c using assms(2) that by (auto simp: on_call_def)
  have "announced s' (h @ l) k t' \<or> acknowledged (h @ l) (it_request t')"
    if t': "ns_tasks s' k = Some t'" "it_wants_100rel t'" for k t'
  proof -
    obtain t where t: "ns_tasks s k = Some t" "same_call t t'" "it_call_id t \<noteq> cid \<longrightarrow> t' = t" using prior [OF t'(1)] by blast
    then have w: "it_wants_100rel t" "it_request t' = it_request t" using t'(2) by (simp_all add: same_call_def)
    show ?thesis
    proof (cases "it_call_id t = cid")
      case True
      then show ?thesis using own [OF t(1) t'(1) t(2) True w(1)] inv(3) [OF t(1) w(1)] acknowledged_more w(2) by auto
    next
      case False
      then have "t' = t" using t(3) by simp
      then show ?thesis
        using inv(3) [OF t(1) w(1)] acknowledged_more announced_more announced_cong rc [OF False] by metis
    qed
  qed
  moreover have "waiters_ok s'"
    unfolding waiters_ok_def
  proof (intro allI impI)
    fix c st k
    assume a: "ns_rc100rel s' c = Some st \<and> rc_waiter st = Some k"
    have n: "ns_next s \<le> ns_next s'" using assms(2) by (simp add: on_call_def)
    show "k < ns_next s' \<and> (\<forall>t. ns_tasks s' k = Some t \<longrightarrow> it_call_id t = c)"
    proof (cases "c = cid")
      case True
      with wait a n show ?thesis by (meson less_le_trans)
    next
      case False
      then have "ns_rc100rel s c = Some st" using a rc [OF False] by simp
      then show ?thesis using on_call_waiter [OF assms(2) inv(1), of c st k] a n by (meson less_le_trans)
    qed
  qed
  moreover have "distinct_calls s'"
    using inv(2) prior unfolding distinct_calls_def same_call_def by metis
  ultimately show ?thesis using assms(3) by (auto simp: prack_inv_def)
qed

lemmas on_call_inv0 = on_call_inv [where l = "[]", unfolded append_Nil2]

section \<open>The steps\<close>

lemma same_inv:
  assumes "prack_inv (s, h)" "rc_same s s'" "calls_inv s'"
  shows "prack_inv (s', h)"
proof (rule on_call_inv0 [OF assms(1) on_call_same [OF assms(2)] assms(3)])
  fix j t t'
  assume "ns_tasks s j = Some t" "ns_tasks s' j = Some t'" "announced s h j t"
  then show "announced s' h j t' \<or> acknowledged h (it_request t)"
    using announced_cong [of s h j t s'] assms(2) by (auto simp: rc_same_def)
next
  fix st k
  assume "ns_rc100rel s' '''' = Some st" "rc_waiter st = Some k"
  then show "k < ns_next s \<and> (\<forall>t. ns_tasks s' k = Some t \<longrightarrow> it_call_id t = '''')"
    using assms(1,2) by (auto simp: rc_same_def prack_inv_def waiters_ok_def)
qed

lemma rel_timer_inv:
  assumes "prack_inv (s, h)" "calls_inv (rel_timer_fires now cid s)"
  shows "prack_inv (rel_timer_fires now cid s, h)"
proof -
  let ?s = "rel_timer_fires now cid s"
  have keep: "\<exists>rt. st = st\<lparr>rc_retransmit := rt\<rparr>" for st :: rc100rel_state by (rule exI [of _ "rc_retransmit st"]) simp
  have f: "ns_tasks ?s = ns_tasks s" "\<And>c. c \<noteq> cid \<Longrightarrow> ns_rc100rel ?s c = ns_rc100rel s c"
    "\<And>st. ns_rc100rel s cid = Some st \<Longrightarrow> \<exists>rt. ns_rc100rel ?s cid = Some (st\<lparr>rc_retransmit := rt\<rparr>)"
    "ns_rc100rel s cid = None \<Longrightarrow> ns_rc100rel ?s cid = None"
    by (auto simp: rel_timer_fires_def Let_def keep split: option.splits prod.splits)
  have "ns_next ?s = ns_next s" by (auto simp: rel_timer_fires_def Let_def split: option.splits prod.splits)
  then have "on_call cid s ?s" using f(1,2) by (simp add: on_call_def)
  then show ?thesis
  proof (rule on_call_inv0 [OF assms(1) _ assms(2)])
    fix j t t'
    assume t: "ns_tasks s j = Some t" "ns_tasks ?s j = Some t'" "it_call_id t = cid" "announced s h j t"
    then obtain st env0 remote0 where st: "ns_rc100rel s cid = Some st" "Incoming env0 (it_request t) remote0 \<in> set h"
      "rc_rseq st = en_rseq env0" "rc_invite_cseq st = invite_cseq_of (it_request t)"
      "case it_phase t of Forking started notified \<Rightarrow> rc_waiter st = None | AwaitPrack d result w \<Rightarrow> rc_waiter st = Some j \<and> w = None"
      by (auto simp: announced_def)
    obtain rt where rt: "ns_rc100rel ?s cid = Some (st\<lparr>rc_retransmit := rt\<rparr>)" using f(3) [OF st(1)] by blast
    have "t' = t" using t(1,2) f(1) by simp
    then have "announced ?s h j t'"
      unfolding announced_def t(3) using rt st(2,3,4,5)
      by (intro exI [of _ "st\<lparr>rc_retransmit := rt\<rparr>"] exI [of _ env0] exI [of _ remote0]) (simp add: t(3) split: invite_phase.splits)
    then show "announced ?s h j t' \<or> acknowledged h (it_request t)" by blast
  next
    fix st k
    assume a: "ns_rc100rel ?s cid = Some st" "rc_waiter st = Some k"
    then obtain st0 where "ns_rc100rel s cid = Some st0" "rc_waiter st0 = Some k"
      using f(3,4) by (cases "ns_rc100rel s cid") fastforce+
    then show "k < ns_next s \<and> (\<forall>t. ns_tasks ?s k = Some t \<longrightarrow> it_call_id t = cid)"
      using assms(1) f(1) by (auto simp: prack_inv_def waiters_ok_def)
  qed
qed

lemma end_inv:
  assumes "prack_inv (s, h)" "ns_tasks s k = Some t" "rc_ends (it_call_id t) s s1" "calls_inv (end_task k s1)"
  shows "prack_inv (end_task k s1, h)"
proof -
  have w: "waiters_ok s" "distinct_calls s" using assms(1) by (simp_all add: prack_inv_def)
  note r = rc_ends_on_call [OF w(1) assms(3)]
  show ?thesis
  proof (rule on_call_inv0 [OF assms(1) r(1) assms(4)])
    fix j u u'
    assume "ns_tasks s j = Some u" "ns_tasks (end_task k s1) j = Some u'" "it_call_id u = it_call_id t"
    then show "announced (end_task k s1) h j u' \<or> acknowledged h (it_request u)"
      using w(2) assms(2) by (auto simp: distinct_calls_def end_task_def split: if_splits)
  next
    fix st j
    assume a: "ns_rc100rel (end_task k s1) (it_call_id t) = Some st" "rc_waiter st = Some j"
    then have "ns_rc100rel s (it_call_id t) = Some st" using r(2) by simp
    then show "j < ns_next s \<and> (\<forall>u. ns_tasks (end_task k s1) j = Some u \<longrightarrow> it_call_id u = it_call_id t)"
      using on_call_waiter [OF r(1) w(1) _ a(2)] by blast
  qed
qed

lemma prack_received_inv:
  assumes "prack_inv (s, h)" "calls_inv (handle_prack env request remote s)" "req_method request = Prack"
  shows "prack_inv (handle_prack env request remote s, h @ [Incoming env request remote])"
proof -
  let ?s = "handle_prack env request remote s" and ?h = "h @ [Incoming env request remote]"
  have once: "rc_same s s'" if "answer_once env request remote f code reason s = Some s'" for f code reason s'
    using that by (auto simp: answer_once_def split: sum.splits)
  have refuse: "rc_same s (answer_allow env request remote code reason s)" for code reason
    using once by (auto simp: answer_allow_def split: option.splits)
  consider "rc_same s ?s" | cid rack st r s1 where "hdr_get (req_headers request) ''call-id'' = Some cid"
      "hdr_get (req_headers request) ''rack'' = Some rack" "ns_rc100rel s cid = Some st" "parse_rack_header rack = Some r"
      "rack_matches st r" "rc_same s s1" "?s = remove_rc100rel Received cid s1"
  proof (cases "\<exists>cid rack st r. hdr_get (req_headers request) ''call-id'' = Some cid
      \<and> hdr_get (req_headers request) ''rack'' = Some rack \<and> ns_rc100rel s cid = Some st \<and> parse_rack_header rack = Some r
      \<and> rack_matches st r")
    case True
    then obtain cid rack st r where c: "hdr_get (req_headers request) ''call-id'' = Some cid"
      "hdr_get (req_headers request) ''rack'' = Some rack" "ns_rc100rel s cid = Some st" "parse_rack_header rack = Some r"
      "rack_matches st r" by blast
    show ?thesis
    proof (cases "answer_once env request remote id 200 ''OK'' s")
      case None
      then show ?thesis using c that(1) by (simp add: handle_prack_def)
    next
      case (Some s1)
      then show ?thesis using c that(2) [OF c once [OF Some]] by (simp add: handle_prack_def)
    qed
  next
    case False
    then show ?thesis using that(1) refuse by (auto simp: handle_prack_def Let_def split: option.splits)
  qed
  then show ?thesis
  proof cases
    case 1
    then show ?thesis by (intro prack_inv_more same_inv [OF assms(1) _ assms(2)])
  next
    case 2
    have w: "waiters_ok s" using assms(1) by (simp add: prack_inv_def)
    note rem = remove_on_call [OF w, where cid = cid and oc = Received]
    have rs: "rc_same (remove_rc100rel Received cid s) ?s" unfolding 2(7) by (rule rc_same_remove [OF 2(6)])
    have oc: "on_call cid s ?s" by (rule on_call_then [OF rem(1) rs])
    show ?thesis
    proof (rule on_call_inv [OF assms(1) oc assms(2)])
      fix j t t'
      assume t: "ns_tasks s j = Some t" "it_call_id t = cid" "announced s h j t"
      then obtain env0 remote0 where a: "Incoming env0 (it_request t) remote0 \<in> set h" "rc_rseq st = en_rseq env0"
        "rc_invite_cseq st = invite_cseq_of (it_request t)"
        using 2(3) by (auto simp: announced_def)
      obtain rseq cs m where "r = (rseq, cs, m)" by (cases r)
      then have r: "parse_rack_header rack = Some (en_rseq env0, invite_cseq_of (it_request t), m)" "eq_ignore_case m ''INVITE''"
        using 2(4,5) a(2,3) by (auto simp: rack_matches_def)
      obtain tx where "rings tx t" using calls_invD(1) [of s j t] assms(1) t(1) by (auto simp: prack_inv_def)
      then have "hdr_get (req_headers (it_request t)) ''call-id'' = Some cid" using t(2) by (simp add: rings_def)
      then have "acknowledged ?h (it_request t)"
        unfolding acknowledged_def using 2(1,2) a(1) r assms(3)
        by (intro exI [of _ h] exI [of _ "[]"] exI [of _ env] exI [of _ request] exI [of _ remote] exI [of _ rack] exI [of _ env0]
            exI [of _ remote0] exI [of _ m]) simp
      then show "announced ?s ?h j t' \<or> acknowledged ?h (it_request t)" by blast
    qed (use rem(2) rs in \<open>simp add: rc_same_def\<close>)
  qed
qed


text \<open>A CANCEL notifies a task that forks; its wait for a PRACK has not begun.\<close>

lemma notify_inv:
  assumes "prack_inv (s, h)"
  shows "prack_inv (notify_cancel cid s, h)"
proof -
  have c: "calls_inv s" and w: "waiters_ok s" "distinct_calls s" using assms by (simp_all add: prack_inv_def)
  have n: "calls_inv (notify_cancel cid s)" by (rule calls_quiet [OF c notify_quiet]) simp
  show ?thesis
  proof (cases "\<exists>k t started b. ns_in_flight s cid = Some k \<and> ns_tasks s k = Some t \<and> it_phase t = Forking started b")
    case True
    then obtain k t started b where k: "ns_in_flight s cid = Some k" "ns_tasks s k = Some t" "it_phase t = Forking started b" by blast
    let ?t = "t\<lparr>it_phase := Forking started True\<rparr>"
    have f: "notify_cancel cid s = s\<lparr>ns_tasks := (ns_tasks s)(k \<mapsto> ?t)\<rparr>" using k by (simp add: notify_cancel_def)
    have oc: "on_call (it_call_id t) s (notify_cancel cid s)" unfolding f using k(2) by (simp add: on_call_def same_call_def)
    show ?thesis
    proof (rule on_call_inv0 [OF assms oc n])
      fix j u u'
      assume u: "ns_tasks s j = Some u" "ns_tasks (notify_cancel cid s) j = Some u'" "it_call_id u = it_call_id t" "announced s h j u"
      then have "j = k" using w(2) k(2) by (auto simp: distinct_calls_def)
      then have "u = t" "u' = ?t" using u(1,2) k(2) f by auto
      then have "announced (notify_cancel cid s) h j u'" using u(4) k(3) f by (simp add: announced_def)
      then show "announced (notify_cancel cid s) h j u' \<or> acknowledged h (it_request u)" ..
    next
      fix st j
      assume "ns_rc100rel (notify_cancel cid s) (it_call_id t) = Some st" "rc_waiter st = Some j"
      then show "j < ns_next s \<and> (\<forall>u. ns_tasks (notify_cancel cid s) j = Some u \<longrightarrow> it_call_id u = it_call_id t)"
        using on_call_waiter [OF oc w(1)] f by simp
    qed
  next
    case False
    then have "notify_cancel cid s = s" by (auto simp: notify_cancel_def split: option.splits invite_phase.splits)
    then show ?thesis using assms by simp
  qed
qed

lemma answer_once_inv:
  assumes "prack_inv (s, h)" "answer_once env request remote f code reason s = Some s'"
  shows "prack_inv (s', h)"
proof -
  have "rc_same s s'" using assms(2) by (auto simp: answer_once_def split: sum.splits)
  moreover have "calls_inv s'" using calls_quiet [OF _ answer_once_quiet [OF assms(2)]] assms(1) by (simp add: prack_inv_def)
  ultimately show ?thesis by (rule same_inv [OF assms(1)])
qed

lemma cancel_inv:
  assumes "prack_inv (s, h)"
  shows "prack_inv (handle_cancel env request remote s, h)"
  using assms by (auto simp: handle_cancel_def notify_inv dest: answer_once_inv split: option.splits)

text \<open>The ends of a call.\<close>

lemma cancelled_inv:
  assumes "prack_inv (s, h)" "calls_inv (call_cancelled env k s)"
  shows "prack_inv (call_cancelled env k s, h)"
proof (cases "\<exists>t started. ns_tasks s k = Some t \<and> it_phase t = Forking started True")
  case True
  then obtain t started where t: "ns_tasks s k = Some t" "it_phase t = Forking started True" by blast
  obtain s1 where "call_cancelled env k s = end_task k s1" "rc_ends (it_call_id t) s s1"
    using t by (simp add: call_cancelled_def Let_def rc_ends_def)
  then show ?thesis using end_inv [OF assms(1) t(1)] assms(2) by simp
next
  case False
  then have "call_cancelled env k s = s" by (auto simp: call_cancelled_def split: option.splits invite_phase.splits)
  then show ?thesis using assms(1) by simp
qed

lemma conclude_inv:
  assumes "prack_inv (s, h)" "ns_tasks s k = Some t" "calls_inv (conclude cfg env k t result s)"
  shows "prack_inv (conclude cfg env k t result s, h)"
  using conclude_rc [of cfg env k t result s] end_inv [OF assms(1,2)] assms(3) by auto

lemma prack_finished_inv:
  assumes "prack_inv (s, h)" "calls_inv (prack_finished cfg env k s)"
  shows "prack_inv (prack_finished cfg env k s, h)"
proof (cases "\<exists>t d result w. ns_tasks s k = Some t \<and> it_phase t = AwaitPrack d result w \<and> (w \<noteq> None \<or> d \<le> en_now env)")
  case True
  then obtain t d result w where t: "ns_tasks s k = Some t" "it_phase t = AwaitPrack d result w" "w \<noteq> None \<or> d \<le> en_now env" by blast
  show ?thesis
  proof (cases w)
    case None
    obtain s1 where "prack_finished cfg env k s = end_task k s1" "rc_ends (it_call_id t) s s1"
      using t None by (simp add: prack_finished_def Let_def rc_ends_def)
    then show ?thesis using end_inv [OF assms(1) t(1)] assms(2) by simp
  next
    case (Some oc)
    then have "prack_finished cfg env k s = conclude cfg env k t result s" using t(1,2) by (simp add: prack_finished_def)
    then show ?thesis using conclude_inv [OF assms(1) t(1)] assms(2) by simp
  qed
next
  case False
  then have "prack_finished cfg env k s = s"
    by (auto simp: prack_finished_def split: option.splits invite_phase.splits)
  then show ?thesis using assms(1) by simp
qed

text \<open>The start of the wait.\<close>

lemma wait_inv:
  assumes "prack_inv (s, h)" "ns_tasks s k = Some t" "it_phase t = Forking started b"
    and "wait_for_prack now k t result s = Some s'" "calls_inv s'"
  shows "prack_inv (s', h)"
proof -
  have w: "waiters_ok s" "distinct_calls s" using assms(1) by (simp_all add: prack_inv_def)
  have k: "k < ns_next s" using calls_invD(2) [OF _ assms(2)] assms(1) by (simp add: prack_inv_def)
  let ?t = "t\<lparr>it_phase := AwaitPrack (now + PRACK_TIMER) result None\<rparr>"
  obtain st where st: "ns_rc100rel s (it_call_id t) = Some st" "rc_waiter st = None"
    and s': "s' = s\<lparr>ns_rc100rel := (ns_rc100rel s)(it_call_id t \<mapsto> st\<lparr>rc_waiter := Some k\<rparr>), ns_tasks := (ns_tasks s)(k \<mapsto> ?t)\<rparr>"
    using assms(4) by (auto simp: wait_for_prack_def split: option.splits if_splits)
  have oc: "on_call (it_call_id t) s s'" unfolding s' using assms(2) by (simp add: on_call_def same_call_def)
  show ?thesis
  proof (rule on_call_inv0 [OF assms(1) oc assms(5)])
    fix j u u'
    assume u: "ns_tasks s j = Some u" "ns_tasks s' j = Some u'" "it_call_id u = it_call_id t" "announced s h j u"
    then have j: "j = k" using w(2) assms(2) by (auto simp: distinct_calls_def)
    then have t: "u = t" "u' = ?t" using u(1,2) assms(2) s' by auto
    from u(4) obtain env0 remote0 where "Incoming env0 (it_request t) remote0 \<in> set h" "rc_rseq st = en_rseq env0"
      "rc_invite_cseq st = invite_cseq_of (it_request t)"
      using st(1) t(1) by (auto simp: announced_def)
    then have "announced s' h j u'" using j t(2) s' by (auto simp: announced_def)
    then show "announced s' h j u' \<or> acknowledged h (it_request u)" ..
  next
    fix st' j
    assume "ns_rc100rel s' (it_call_id t) = Some st'" "rc_waiter st' = Some j"
    then show "j < ns_next s \<and> (\<forall>u. ns_tasks s' j = Some u \<longrightarrow> it_call_id u = it_call_id t)" using k s' by auto
  qed
qed

lemma fork_finished_inv:
  assumes "prack_inv (s, h)" "calls_inv (fork_finished cfg env k results closed_at reg s)"
  shows "prack_inv (fork_finished cfg env k results closed_at reg s, h)"
proof (cases "\<exists>t started. ns_tasks s k = Some t \<and> it_phase t = Forking started False")
  case True
  then obtain t started where t: "ns_tasks s k = Some t" "it_phase t = Forking started False" by blast
  obtain result legs reg' where f: "fork_to_bindings (it_bindings t) started (nc_fork_timeout cfg) results closed_at reg = (result, legs, reg')"
    by (metis prod_cases3)
  define s2 where "s2 = (cancel_browsers legs s)\<lparr>ns_in_flight := (ns_in_flight (cancel_browsers legs s))(it_call_id t := None)\<rparr>"
  have e: "fork_finished cfg env k results closed_at reg s =
      (if it_wants_100rel t
       then case wait_for_prack (en_now env) k t result s2 of Some s3 \<Rightarrow> s3 | None \<Rightarrow> conclude cfg env k t result s2
       else conclude cfg env k t result s2)"
    using t unfolding s2_def by (simp add: fork_finished_def f Let_def split: option.splits)
  have "calls_inv s2" using calls_quiet [of s s2] assms(1) by (simp add: prack_inv_def s2_def)
  then have p: "prack_inv (s2, h)" by (intro same_inv [OF assms(1)]) (simp_all add: s2_def)
  have k: "ns_tasks s2 k = Some t" using t(1) by (simp add: s2_def)
  show ?thesis
    using e assms(2) wait_inv [OF p k t(2)] conclude_inv [OF p k] by (auto split: option.splits if_splits)
next
  case False
  then have "fork_finished cfg env k results closed_at reg s = s"
    by (auto simp: fork_finished_def split: option.splits invite_phase.splits)
  then show ?thesis using assms(1) by simp
qed


section \<open>A call arrives\<close>

lemma insert_rc_facts:
  assumes "waiters_ok s" "rc_same s s3"
  shows "on_call cid s (insert_rc100rel cid st s3)" "ns_rc100rel (insert_rc100rel cid st s3) cid = Some st"
proof -
  have "on_call cid s (remove_rc100rel NoState cid s3)"
    by (rule on_call_then [OF remove_on_call(1) [OF assms(1)] rc_same_remove [OF assms(2)]])
  then show "on_call cid s (insert_rc100rel cid st s3)" by (simp add: insert_rc100rel_def Let_def on_call_def)
  show "ns_rc100rel (insert_rc100rel cid st s3) cid = Some st" by (simp add: insert_rc100rel_def Let_def)
qed

text \<open>What a ringing call adds to the tables.\<close>

definition rings_new :: "'b ngn_env \<Rightarrow> nat \<Rightarrow> sip_request \<Rightarrow> string \<Rightarrow> ('b, 'w) ngn \<Rightarrow> ('b, 'w) ngn \<Rightarrow> bool" where
  "rings_new env k request cid s s' \<longleftrightarrow>
     (\<exists>s4 t. on_call cid s s4 \<and> ns_next s' = ns_next s4 \<and> ns_rc100rel s' = ns_rc100rel s4
        \<and> ns_tasks s' = (ns_tasks s4)(k \<mapsto> t) \<and> it_request t = request \<and> it_call_id t = cid
        \<and> (\<exists>started. it_phase t = Forking started False)
        \<and> (if it_wants_100rel t
           then \<exists>st. ns_rc100rel s4 cid = Some st \<and> rc_rseq st = en_rseq env \<and> rc_invite_cseq st = invite_cseq_of request
                  \<and> rc_waiter st = None
           else ns_rc100rel s4 = ns_rc100rel s))"

lemma ringing_new:
  assumes "waiters_ok s" "rc_same s s3"
  shows "rings_new env k request cid s (start_ringing cfg env k tx request remote cid bindings s3)"
proof -
  let ?ringing = "if wants_100rel request then reliable_ringing (en_rseq env) (st_response_via tx) (ringing_response cfg env request)
    else ringing_response cfg env request"
  define st where "st = \<lparr>rc_rseq = en_rseq env, rc_invite_cseq = invite_cseq_of request, rc_waiter = None,
    rc_retransmit = Some (spawn_retransmit (en_now env) (st_response_dest tx) (response_to_bytes ?ringing))\<rparr>"
  define s4 where "s4 = (if wants_100rel request then insert_rc100rel cid st s3 else s3)"
  note i = insert_rc_facts [OF assms, of cid st]
  have "on_call cid s s4" using i(1) on_call_same [OF assms(2)] by (simp add: s4_def)
  moreover have "if wants_100rel request then ns_rc100rel s4 cid = Some st else ns_rc100rel s4 = ns_rc100rel s"
    using i(2) assms(2) by (simp add: s4_def rc_same_def)
  ultimately show ?thesis
    unfolding rings_new_def start_ringing_def Let_def
    by (intro exI [of _ s4] exI conjI) (auto simp: s4_def st_def)
qed

lemma new_call_inv:
  assumes "prack_inv (s, h)" "rings_new env (ns_next s) request cid s s'" "calls_inv s'" "Incoming env request remote \<in> set h"
    and fresh: "\<And>j t. ns_tasks s j = Some t \<Longrightarrow> it_call_id t \<noteq> cid"
  shows "prack_inv (s', h)"
proof -
  let ?k = "ns_next s"
  obtain s4 t where oc: "on_call cid s s4" and s': "ns_next s' = ns_next s4" "ns_rc100rel s' = ns_rc100rel s4"
    "ns_tasks s' = (ns_tasks s4)(?k \<mapsto> t)"
    and t: "it_request t = request" "it_call_id t = cid" "\<exists>started. it_phase t = Forking started False"
    and rc: "if it_wants_100rel t
           then \<exists>st. ns_rc100rel s4 cid = Some st \<and> rc_rseq st = en_rseq env \<and> rc_invite_cseq st = invite_cseq_of request
                  \<and> rc_waiter st = None
           else ns_rc100rel s4 = ns_rc100rel s"
    using assms(2) unfolding rings_new_def by blast
  have p: "waiters_ok s" "distinct_calls s"
    "\<And>k u. ns_tasks s k = Some u \<Longrightarrow> it_wants_100rel u \<Longrightarrow> announced s h k u \<or> acknowledged h (it_request u)"
    using assms(1) by (auto simp: prack_inv_def)
  have old: "ns_tasks s j = Some u \<and> it_call_id u \<noteq> cid" if "ns_tasks s4 j = Some u" for j u
  proof -
    obtain v where "ns_tasks s j = Some v" "it_call_id v \<noteq> cid \<longrightarrow> u = v" using on_callD [OF oc \<open>ns_tasks s4 j = Some u\<close>] by blast
    then show ?thesis using fresh by blast
  qed
  have same: "ns_rc100rel s4 c = ns_rc100rel s c" if "c \<noteq> cid" for c using oc that by (simp add: on_call_def)
  have a: "announced s' h j u \<or> acknowledged h (it_request u)" if u: "ns_tasks s' j = Some u" "it_wants_100rel u" for j u
  proof (cases "j = ?k")
    case True
    then have "u = t" using u(1) s'(3) by simp
    then have "announced s' h j u" using rc u(2) t assms(4) s'(2) by (auto simp: announced_def intro!: exI [of _ env])
    then show ?thesis ..
  next
    case False
    then have o: "ns_tasks s j = Some u" "it_call_id u \<noteq> cid" using old u(1) s'(3) by simp_all
    then show ?thesis using p(3) [OF o(1) u(2)] announced_cong [of s h j u s'] same s'(2) by auto
  qed
  have d: "distinct_calls s'"
    using p(2) old t(2) s'(3) unfolding distinct_calls_def by (auto split: if_splits) blast+
  have w: "waiters_ok s'"
    unfolding waiters_ok_def
  proof (intro allI impI)
    fix c st j
    assume x: "ns_rc100rel s' c = Some st \<and> rc_waiter st = Some j"
    then have "ns_rc100rel s c = Some st" using rc s'(2) same by (cases "c = cid") (auto split: if_splits)
    then have j: "j < ns_next s" "\<forall>u. ns_tasks s4 j = Some u \<longrightarrow> it_call_id u = c"
      using on_call_waiter [OF oc p(1)] x by blast+
    then show "j < ns_next s' \<and> (\<forall>u. ns_tasks s' j = Some u \<longrightarrow> it_call_id u = c)" using s'(1,3) oc by (auto simp: on_call_def)
  qed
  show ?thesis using a d w assms(3) unfolding prack_inv_def by simp
qed

lemma invite_inv:
  assumes p: "prack_inv (s, h)" and c: "calls_inv (ngn_handle_invite cfg env request remote s)"
    and m: "req_method request = Invite" and f: "fresh_event s (Incoming env request remote)"
    and i: "Incoming env request remote \<in> set h"
  shows "prack_inv (ngn_handle_invite cfg env request remote s, h)"
proof (cases "\<exists>cid tx. hdr_get (req_headers request) ''call-id'' = Some cid \<and> server_new request remote = Inr tx")
  case True
  then obtain cid tx where cid: "hdr_get (req_headers request) ''call-id'' = Some cid" and tx: "server_new request remote = Inr tx" by blast
  let ?k = "ns_next s"
  define s3 where "s3 = log_start env (remote_number_of request) cid (send_on (en_now env) ?k
    (build_response_skeleton (en_to env) request 100 ''Trying'')
    (s\<lparr>ns_next := ?k + 1, ns_txs := (ns_txs s)(?k \<mapsto> tx), ns_pending := (ns_pending s)(cid \<mapsto> ?k)\<rparr>))"
  have q: "rc_same s s3" by (simp add: s3_def rc_same_def)
  have ci: "calls_inv s" and w: "waiters_ok s" using p by (simp_all add: prack_inv_def)
  have sends: "rc_same s' (fold (send_on now k) rs s'')" if "rc_same s' s''" for s' s'' :: "('a, 'b) ngn" and now k rs
    using that by (induction rs arbitrary: s'') simp_all
  have nobody: "rc_same s (nobody_home cfg env ?k request cid s3)"
  proof -
    obtain r s1 where v: "try_start_voicemail cfg env ?k request cid s3 = (r, s1)" by fastforce
    have "rc_same s s1" by (rule rc_same_trans [OF q voicemail_same [OF v]])
    then show ?thesis using v by (simp add: nobody_home_def split: sum.splits bool.splits)
  qed
  have re: "rc_same s (inbound_reinvite env ?k request cid s3)" using q sends by (simp add: inbound_reinvite_def split: option.splits)
  have bad: "rc_same s (bad_extension env ?k request un cid s3)" "rc_same s (interval_too_small env ?k request cid s3)"
    "rc_same s (task_panics ?k s3)" for un
    using q by (simp_all add: bad_extension_def interval_too_small_def Let_def)
  have ring: "rings_new env ?k request cid s (start_ringing cfg env ?k tx request remote cid bs s3)" for bs
    by (rule ringing_new [OF w q])
  have "it_call_id t \<noteq> cid" if n: "\<not> in_dialog request" and t: "ns_tasks s j = Some t" for j t
  proof -
    obtain tx' where tx': "ns_txs s j = Some tx'" "rings tx' t" using calls_invD(1) [OF ci t] by blast
    then show ?thesis using f m n cid calls_invD(2) [OF ci t] by (auto simp: fresh_event_def rings_def)
  qed
  then have new: "prack_inv (start_ringing cfg env ?k tx request remote cid bs s3, h)"
    if "\<not> in_dialog request" "calls_inv (start_ringing cfg env ?k tx request remote cid bs s3)" for bs
    using new_call_inv [OF p ring _ i] that by blast
  show ?thesis
    using c same_inv [OF p bad(1)] same_inv [OF p bad(2)] same_inv [OF p bad(3)] same_inv [OF p re] same_inv [OF p nobody] new
    unfolding ngn_handle_invite_def cid tx prod.case option.case sum.case Let_def s3_def [symmetric]
    by (auto split: sum.splits if_splits)
next
  case False
  then have "ngn_handle_invite cfg env request remote s = s" by (auto simp: ngn_handle_invite_def split: option.splits sum.splits)
  then show ?thesis using p by simp
qed


section \<open>Every step\<close>

declare ngn_step.simps [simp]

lemma bye_same: "rc_same s s1 \<Longrightarrow> rc_same s (bye_inbound env cid s1)" "rc_same s s1 \<Longrightarrow> rc_same s (bye_outbound env cid oe s1)"
  by (simp_all add: bye_inbound_def bye_outbound_def Let_def split: option.splits)

lemma answer_once_same: "answer_once env request remote f code reason s = Some s' \<Longrightarrow> rc_same s s'"
  by (auto simp: answer_once_def split: sum.splits)

lemma handle_bye_same: "rc_same s (ngn_handle_bye env request remote s)"
  by (auto simp: ngn_handle_bye_def bye_same dest!: answer_once_same split: option.splits)

lemma answer_allow_same: "rc_same s s1 \<Longrightarrow> rc_same s (answer_allow env request remote code reason s1)"
  by (auto simp: answer_allow_def answer_once_def split: option.splits sum.splits)

lemma close_same: "rc_same s (close_inbound env cid entry s)" "rc_same s (inbound_closed env cid entry s)"
  by (simp_all add: close_inbound_def inbound_closed_def Let_def)

lemma inbound_inv:
  fixes s :: "('b, 'w) ngn"
  assumes p: "prack_inv (s, h)" and ok: "event_ok (Incoming env request remote :: ('b, 'w) ngn_event)"
    and f: "fresh_event s (Incoming env request remote)"
  shows "prack_inv (handle_inbound cfg env request remote s, h @ [Incoming env request remote])"
proof -
  let ?h = "h @ [Incoming env request remote]"
  have p': "prack_inv (s, ?h)" by (rule prack_inv_more [OF p])
  have "calls_inv (ngn_step cfg s (Incoming env request remote))" using calls_inv_step [OF _ ok] p by (simp add: prack_inv_def)
  then have c: "calls_inv (handle_inbound cfg env request remote s)" by simp
  show ?thesis
  proof (cases "req_method request")
    case Invite
    then have "handle_inbound cfg env request remote s = ngn_handle_invite cfg env request remote s" by (simp add: handle_inbound_def)
    then show ?thesis using invite_inv [OF p' _ Invite f, of cfg] c by simp
  next
    case Prack
    then have "handle_inbound cfg env request remote s = handle_prack env request remote s" by (simp add: handle_inbound_def)
    then show ?thesis using prack_received_inv [OF p _ Prack] c by simp
  next
    case Cancel
    then show ?thesis using cancel_inv [OF p'] by (simp add: handle_inbound_def)
  qed (use same_inv [OF p' _ c] in \<open>simp add: handle_inbound_def answer_allow_same handle_bye_same split: option.splits\<close>)+
qed

lemma prack_step:
  assumes "prack_inv p" "event_ok e \<and> fresh_event (fst p) e"
  shows "prack_inv (recorded_step cfg p e)"
proof -
  obtain s h where p: "p = (s, h)" by fastforce
  have i: "prack_inv (s, h)" and ok: "event_ok e" and f: "fresh_event s e" using assms p by simp_all
  have c: "calls_inv (ngn_step cfg s e)" using calls_inv_step [OF _ ok] i by (simp add: prack_inv_def)
  note m = prack_inv_more [OF i, of "[e]"]
  have "prack_inv (ngn_step cfg s e, h @ [e])"
  proof (cases e)
    case (Incoming env request remote)
    then show ?thesis using inbound_inv [of s h env request remote cfg] i ok f by simp
  next
    case (CancelWins env k)
    then show ?thesis using cancelled_inv [OF m] c by simp
  next
    case (ForkDone env k results closed_at reg)
    then show ?thesis using fork_finished_inv [OF m] c by simp
  next
    case (PrackDone env k)
    then show ?thesis using prack_finished_inv [OF m] c by simp
  next
    case (RelTimer now cid)
    then show ?thesis using rel_timer_inv [OF m] c by simp
  qed (use same_inv [OF m _ c] in \<open>simp add: browser_gone_def sweep_webrtc_active_def outgoing_up_def Let_def close_same\<close>)+
  then show ?thesis by (simp add: p recorded_step_def)
qed

interpretation pracks: guarded_machine "recorded_step cfg" "\<lambda>p e. event_ok e \<and> fresh_event (fst p) e" prack_inv
  by unfold_locales (rule prack_step)

lemma recorded_run: "run_steps (recorded_step cfg) (s, h) es = (run_steps (ngn_step cfg) s es, h @ es)"
  by (induction es arbitrary: s h) (simp_all add: recorded_step_def)

lemma recorded_allowed:
  "allowed_run (recorded_step cfg) (\<lambda>p e. event_ok e \<and> fresh_event (fst p) e) (s, h) es
   \<longleftrightarrow> list_all event_ok es \<and> allowed_run (ngn_step cfg) fresh_event s es"
  by (induction es arbitrary: s h) (auto simp: recorded_step_def)

lemma prack_start: "prack_inv (ngn_start mgr counter cl ml, [])"
  by (simp add: prack_inv_def calls_inv_start) (simp add: waiters_ok_def distinct_calls_def ngn_start_def)

lemma prack_run:
  assumes "list_all event_ok es" "allowed_run (ngn_step cfg) fresh_event (ngn_start mgr counter cl ml) es"
  shows "prack_inv (run_steps (ngn_step cfg) (ngn_start mgr counter cl ml) es, es)"
  using pracks.run_inv [OF prack_start, where es = es] assms by (simp add: recorded_run recorded_allowed)


text \<open>A step that answers with success: its task has not been waiting for a PRACK that is still missing.\<close>

lemma unacknowledged_fork:
  assumes "announced s h k t" "ns_tasks s k = Some t" "it_wants_100rel t"
  shows "ns_txs (fork_finished cfg env k results closed_at reg s) = ns_txs s"
proof (cases "\<exists>started. it_phase t = Forking started False")
  case True
  then obtain started where t: "it_phase t = Forking started False" by blast
  obtain result legs reg' where f: "fork_to_bindings (it_bindings t) started (nc_fork_timeout cfg) results closed_at reg = (result, legs, reg')"
    by (metis prod_cases3)
  obtain st where "ns_rc100rel s (it_call_id t) = Some st" "rc_waiter st = None" using assms(1) t by (auto simp: announced_def)
  then show ?thesis using assms(2,3) t by (simp add: fork_finished_def f Let_def wait_for_prack_def)
next
  case False
  then have "fork_finished cfg env k results closed_at reg s = s"
    using assms(2) by (cases "it_phase t") (auto simp: fork_finished_def)
  then show ?thesis by simp
qed

lemma unacknowledged_prack:
  assumes "announced s h k t" "ns_tasks s k = Some t"
  shows "prack_finished cfg env k s = s \<or> (\<exists>s1. prack_finished cfg env k s = end_task k s1 \<and> says k (has_status 408) s s1)"
proof (cases "\<exists>d result. it_phase t = AwaitPrack d result None \<and> d \<le> en_now env")
  case True
  then show ?thesis
    unfolding prack_finished_def using assms(2)
    by (auto simp: Let_def intro!: exI says_respond quiet_cleanup)
next
  case False
  moreover have "w = None" if "it_phase t = AwaitPrack d result w" for d result w using assms(1) that by (auto simp: announced_def)
  ultimately have "prack_finished cfg env k s = s"
    using assms(2) by (cases "it_phase t") (auto simp: prack_finished_def not_le split: option.splits)
  then show ?thesis by simp
qed

lemma cancelled_says:
  assumes "ns_tasks s k = Some t"
  shows "call_cancelled env k s = s \<or> (\<exists>s1. call_cancelled env k s = end_task k s1 \<and> says k (has_status 487) s s1)"
  unfolding call_cancelled_def using assms
  by (auto simp: Let_def intro!: exI says_respond quiet_cleanup split: invite_phase.splits bool.splits)


lemma unacknowledged_says:
  assumes "announced s h k t" "ns_tasks s k = Some t" "it_wants_100rel t" "calls_inv s" "event_ok e"
    "ns_txs s k = Some tx" "ns_txs (ngn_step cfg s e) k = Some tx'"
  shows "tx' = tx \<or> (\<exists>r now. tx' = snd (respond tx r now) \<and> 400 \<le> resp_status r)"
proof -
  have quiet: ?thesis if "ns_txs (ngn_step cfg s e) k = ns_txs s k" using that assms(6,7) by simp
  have says: ?thesis if "says k (has_status code) s s1" "ngn_step cfg s e = end_task k s1" "400 \<le> code" for s1 code
    using that assms(6,7) by (auto simp: says_def has_status_def)
  have other: ?thesis if "quiet s (ngn_step cfg s e) \<or> ends_call cfg j s (ngn_step cfg s e)" "j \<noteq> k" for j
    using that quiet settles_others(1) by (fastforce simp: ends_call_def quiet_def)
  show ?thesis
  proof (cases e)
    case (Incoming env request remote)
    have "quiet s (ngn_step cfg s e) \<or> (\<exists>j. arrives j request s (ngn_step cfg s e))"
      using inbound_effect [OF assms(4), of env request remote cfg] assms(5) Incoming by simp
    then have "ns_txs (ngn_step cfg s e) k = ns_txs s k"
      using calls_invD(2) [OF assms(4,2)] by (auto simp: quiet_def arrives_def)
    then show ?thesis by (rule quiet)
  next
    case (CancelWins env j)
    then show ?thesis
      using cancelled_says [OF assms(2), of env] says [of 487] quiet other [of j] cancelled_effect [of s env j cfg]
      by (cases "j = k") auto
  next
    case (ForkDone env j results closed_at reg)
    then show ?thesis
      using unacknowledged_fork [OF assms(1-3)] quiet other [of j] fork_finished_effect [where s = s and k = j] assms(5) by (cases "j = k") auto
  next
    case (PrackDone env j)
    have "phase_final (it_phase u)" if "ns_tasks s j = Some u" for u using calls_invD(3) [OF assms(4) that] .
    then have "quiet s (prack_finished cfg env j s) \<or> ends_call cfg j s (prack_finished cfg env j s)"
      by (intro prack_finished_effect) (metis phase_final.simps(2))
    then show ?thesis
      using PrackDone unacknowledged_prack [OF assms(1,2), of cfg env] says [of 408] quiet other [of j] by (cases "j = k") auto
  next
    case (RelTimer now cid)
    then show ?thesis using quiet rel_timer_quiet [of s now cid] by (simp add: quiet_def)
  next
    case (CloseNext env cid entry)
    then show ?thesis using quiet by (simp add: close_inbound_def)
  next
    case (CloseDone env cid entry)
    then show ?thesis using quiet by (simp add: inbound_closed_def Let_def)
  qed (use quiet in \<open>simp_all add: browser_gone_def sweep_webrtc_active_def outgoing_up_def Let_def\<close>)
qed

text \<open>C4. Reliable ringing is acknowledged before the answer: in any run where new calls come with new
  Call-IDs, a step that puts a response of the class 200 on the transaction of a waiting call whose INVITE allows reliable
  provisional responses comes after a PRACK of the same Call-ID whose \<^verbatim>\<open>RAck\<close> names the \<^verbatim>\<open>RSeq\<close> drawn for that INVITE,
  its sequence number and its method.\<close>

theorem prack_before_answer:
  assumes "list_all event_ok es" "event_ok e" "allowed_run (ngn_step cfg) fresh_event (ngn_start mgr counter cl ml) es"
    and "s = run_steps (ngn_step cfg) (ngn_start mgr counter cl ml) es"
    and "ns_tasks s k = Some t" "wants_100rel (it_request t)"
    and "ns_txs (ngn_step cfg s e) k = Some tx'" "st_last_response tx' = Some r'" "resp_status r' div 100 = 2"
  shows "acknowledged es (it_request t)"
proof (rule ccontr)
  assume na: "\<not> acknowledged es (it_request t)"
  have p: "prack_inv (s, es)" using prack_run [OF assms(1,3)] assms(4) by simp
  then have c: "calls_inv s" by (simp add: prack_inv_def)
  obtain tx where tx: "ns_txs s k = Some tx" "rings tx t" using calls_invD(1) [OF c assms(5)] by blast
  then have w: "it_wants_100rel t" using assms(6) by (simp add: rings_def)
  then have a: "announced s es k t" using p assms(5) na by (auto simp: prack_inv_def)
  have "st_last_response tx = Some r \<Longrightarrow> resp_status r = 180" for r using tx(2) by (auto simp: rings_def)
  then have "tx' \<noteq> tx" using assms(8,9) by fastforce
  then obtain r now where "tx' = snd (respond tx r now)" "400 \<le> resp_status r"
    using unacknowledged_says [OF a assms(5) w c assms(2) tx(1) assms(7)] by blast
  then show False using assms(8,9) by (auto simp: respond_latest)
qed


section \<open>An example\<close>

declare ngn_step.simps [simp del]

definition reliable_ex :: sip_request where
  "reliable_ex = \<lparr>req_method = Invite, req_uri = ''sip:b'',
     req_headers = [(''via'', via_ex), (''to'', ''<sip:b>''), (''call-id'', ''c1''), (''cseq'', ''1 INVITE''), (''supported'', ''100rel'')],
     req_body = []\<rparr>"

definition prack_ex :: sip_request where
  "prack_ex = \<lparr>req_method = Prack, req_uri = ''sip:b'',
     req_headers = [(''via'', via_ex), (''call-id'', ''c1''), (''rack'', ''9 1 INVITE'')], req_body = []\<rparr>"

abbreviation reliable_arrival_ex :: "(unit, nat) ngn_event" where
  "reliable_arrival_ex \<equiv> Incoming (ngn_env_ex 0) reliable_ex remote_ex"

abbreviation prack_arrival_ex :: "(unit, nat) ngn_event" where
  "prack_arrival_ex \<equiv> Incoming (ngn_env_ex 2) prack_ex remote_ex"

lemma reliable_ex_facts:
  "hdr_get (req_headers reliable_ex) ''call-id'' = Some ''c1''" "hdr_get (req_headers reliable_ex) ''to'' = Some ''<sip:b>''"
  "hdr_get (req_headers reliable_ex) ''require'' = None" "hdr_get (req_headers reliable_ex) ''supported'' = Some ''100rel''"
  "hdr_get (req_headers reliable_ex) ''session-expires'' = None" "\<not> in_dialog reliable_ex" "invite_timer reliable_ex = None"
  "wants_100rel reliable_ex" "req_method reliable_ex = Invite" "invite_cseq_of reliable_ex = 1"
proof -
  show h: "hdr_get (req_headers reliable_ex) ''call-id'' = Some ''c1''" "hdr_get (req_headers reliable_ex) ''to'' = Some ''<sip:b>''"
    "hdr_get (req_headers reliable_ex) ''require'' = None" "hdr_get (req_headers reliable_ex) ''supported'' = Some ''100rel''"
    "hdr_get (req_headers reliable_ex) ''session-expires'' = None"
    by (simp_all add: reliable_ex_def hdr_get_def hdr_simps)
  have c: "hdr_get (req_headers reliable_ex) ''cseq'' = Some ''1 INVITE''" by (simp add: reliable_ex_def hdr_get_def hdr_simps)
  show "\<not> in_dialog reliable_ex" using h by (simp add: in_dialog_def has_to_tag_def)
  show "invite_timer reliable_ex = None" "req_method reliable_ex = Invite"
    using h by (simp_all add: invite_timer_def reliable_ex_def)
  have "header_has_option_tag (Some ''100rel'') OPTION_TAG_100REL"
    by (simp add: header_has_option_tag_def OPTION_TAG_100REL_def trim_def trim_start_id trim_end_id ws_eval char_eval eq_ignore_case_def)
  then show "wants_100rel reliable_ex" using h by (simp add: wants_100rel_def)
  have "split_whitespace ''1 INVITE'' = [''1'', ''INVITE'']"
    using split_whitespace_join [of "[''1'', ''INVITE'']"] by (simp add: is_word_def ws_eval)
  then show "invite_cseq_of reliable_ex = 1"
    unfolding invite_cseq_of_def c by (simp add: parse_uint_def is_digit_def digits_value_def octet_of_def)
qed

lemma prack_ex_facts:
  "hdr_get (req_headers prack_ex) ''call-id'' = Some ''c1''" "hdr_get (req_headers prack_ex) ''rack'' = Some ''9 1 INVITE''"
  "req_method prack_ex = Prack" "parse_rack_header ''9 1 INVITE'' = Some (9, 1, ''INVITE'')" "eq_ignore_case ''INVITE'' ''INVITE''"
proof -
  show "hdr_get (req_headers prack_ex) ''call-id'' = Some ''c1''" "hdr_get (req_headers prack_ex) ''rack'' = Some ''9 1 INVITE''"
    "req_method prack_ex = Prack"
    by (simp_all add: prack_ex_def hdr_get_def hdr_simps)
  show "parse_rack_header ''9 1 INVITE'' = Some (9, 1, ''INVITE'')"
    by (simp add: parse_rack_header_def ascii_ws_def parse_uint_def is_digit_def digits_value_def octet_of_def)
  show "eq_ignore_case ''INVITE'' ''INVITE''" by (simp add: eq_ignore_case_def)
qed


lemma server_new_reliable_ex: "\<exists>tx. server_new reliable_ex remote_ex = Inr tx"
  by (simp add: server_new_def id_from_request_def reliable_ex_def hdr_get_def hdr_simps parse_via_ex)

lemma server_new_prack_ex: "\<exists>tx. server_new prack_ex remote_ex = Inr tx"
  by (simp add: server_new_def id_from_request_def prack_ex_def hdr_get_def hdr_simps parse_via_ex)

lemma reliable_rings:
  "\<exists>t st. ns_tasks (ngn_step ngn_config_ex start_ex reliable_arrival_ex) 0 = Some t \<and> it_request t = reliable_ex \<and> it_call_id t = ''c1''
     \<and> it_phase t = Forking 0 False \<and> it_wants_100rel t \<and> it_bindings t = [(''a'', ())]
     \<and> ns_manager (ngn_step ngn_config_ex start_ex reliable_arrival_ex) = None
     \<and> ns_rc100rel (ngn_step ngn_config_ex start_ex reliable_arrival_ex) ''c1'' = Some st
     \<and> rc_rseq st = 9 \<and> rc_invite_cseq st = 1 \<and> rc_waiter st = None"
proof -
  obtain tx where tx: "server_new reliable_ex remote_ex = Inr tx" using server_new_reliable_ex by blast
  show ?thesis
    by (simp add: ngn_step.simps(1) handle_inbound_def reliable_ex_facts ngn_handle_invite_def tx Let_def evaluate_rules_def ngn_config_ex_def
        ngn_env_ex_def start_ringing_def ngn_start_def insert_rc100rel_def remove_rc100rel_def)
qed

lemma reliable_acknowledged:
  "\<exists>t. ns_tasks (run_steps (ngn_step ngn_config_ex) start_ex [reliable_arrival_ex, prack_arrival_ex]) 0 = Some t
     \<and> it_request t = reliable_ex \<and> it_call_id t = ''c1'' \<and> it_phase t = Forking 0 False \<and> it_wants_100rel t \<and> it_bindings t = [(''a'', ())]
     \<and> ns_manager (run_steps (ngn_step ngn_config_ex) start_ex [reliable_arrival_ex, prack_arrival_ex]) = None
     \<and> ns_rc100rel (run_steps (ngn_step ngn_config_ex) start_ex [reliable_arrival_ex, prack_arrival_ex]) ''c1'' = None"
proof -
  obtain tx where tx: "server_new prack_ex remote_ex = Inr tx" using server_new_prack_ex by blast
  obtain t st where t: "ns_tasks (ngn_step ngn_config_ex start_ex reliable_arrival_ex) 0 = Some t" "it_request t = reliable_ex"
    "it_call_id t = ''c1''" "it_phase t = Forking 0 False" "it_wants_100rel t" "it_bindings t = [(''a'', ())]"
    "ns_manager (ngn_step ngn_config_ex start_ex reliable_arrival_ex) = None"
    "ns_rc100rel (ngn_step ngn_config_ex start_ex reliable_arrival_ex) ''c1'' = Some st"
    "rc_rseq st = 9" "rc_invite_cseq st = 1" "rc_waiter st = None"
    using reliable_rings by blast
  then show ?thesis
    by (simp add: ngn_step.simps(1) [of ngn_config_ex _ "ngn_env_ex 2"] handle_inbound_def prack_ex_facts handle_prack_def rack_matches_def
        answer_once_def tx remove_rc100rel_def wake_def)
qed

lemma reliable_answered:
  "\<exists>tx r. ns_txs (ngn_step ngn_config_ex (run_steps (ngn_step ngn_config_ex) start_ex [reliable_arrival_ex, prack_arrival_ex]) answered_ex) 0 = Some tx
     \<and> st_last_response tx = Some r \<and> resp_status r = 200"
proof -
  define s where "s = run_steps (ngn_step ngn_config_ex) start_ex [reliable_arrival_ex, prack_arrival_ex]"
  obtain t where t: "ns_tasks s 0 = Some t" "it_request t = reliable_ex" "it_call_id t = ''c1''" "it_phase t = Forking 0 False"
    "it_wants_100rel t" "it_bindings t = [(''a'', ())]" "ns_manager s = None" "ns_rc100rel s ''c1'' = None"
    using reliable_acknowledged s_def by blast
  have "list_all event_ok [reliable_arrival_ex, prack_arrival_ex]" by (simp add: ngn_env_ex_def)
  then have "calls_inv s" unfolding s_def by (intro calls.run_inv [OF calls_inv_start]) (simp only: allowed_static)
  then obtain tx where tx: "ns_txs s 0 = Some tx" using calls_invD(1) t(1) by blast
  define s2 where "s2 = (cancel_browsers [] s)\<lparr>ns_in_flight := (ns_in_flight (cancel_browsers [] s))(''c1'' := None)\<rparr>"
  have s2: "ns_manager s2 = None" "ns_txs s2 = ns_txs s" "ns_rc100rel s2 ''c1'' = None" using t(7,8) by (simp_all add: s2_def)
  have pl: "\<not> is_undirected_or_webrtc_placeholder_sdp []"
    by (simp add: is_undirected_or_webrtc_placeholder_sdp_def str_lines_def)
  have c: "call_answered ngn_config_ex (ngn_env_ex 5) 0 t answer_ex s2
      = cleanup_rc100rel ''c1'' (establish ngn_config_ex (ngn_env_ex 5) 0 t [] None s2)"
    by (simp add: call_answered_def start_bridge_for_inbound_def s2(1) t(3) Let_def answer_ex_def pl echo_ptime_def)
  have w: "wait_for_prack now 0 t result s2 = None" for now result using s2(3) t(3) by (simp add: wait_for_prack_def)
  have "ngn_step ngn_config_ex s answered_ex = end_task 0 (call_answered ngn_config_ex (ngn_env_ex 5) 0 t answer_ex s2)"
    using t w by (simp add: ngn_step.simps(3) fork_finished_def fork_ex conclude_def s2_def) (simp add: ngn_config_ex_def fork_ex conclude_def)
  then have f: "ngn_step ngn_config_ex s answered_ex = end_task 0 (cleanup_rc100rel ''c1'' (establish ngn_config_ex (ngn_env_ex 5) 0 t [] None s2))"
    using c by simp
  show ?thesis
    unfolding s_def [symmetric] f
    by (simp add: cleanup_rc100rel_def establish_def Let_def s2(2) tx) (simp add: send_on_def s2(2) tx respond_latest)
qed

theorem prack_before_answer_witness:
  "acknowledged [reliable_arrival_ex, prack_arrival_ex] reliable_ex"
proof -
  let ?s = "run_steps (ngn_step ngn_config_ex) start_ex [reliable_arrival_ex, prack_arrival_ex]"
  have ok: "list_all event_ok [reliable_arrival_ex, prack_arrival_ex]" "event_ok answered_ex"
    by (simp_all add: ngn_env_ex_def refusals_final_def)
  have f: "allowed_run (ngn_step ngn_config_ex) fresh_event start_ex [reliable_arrival_ex, prack_arrival_ex]"
    by (simp add: fresh_event_def prack_ex_facts) (simp add: ngn_start_def)
  obtain t where t: "ns_tasks ?s 0 = Some t" "it_request t = reliable_ex" using reliable_acknowledged by blast
  obtain tx' r' where a: "ns_txs (ngn_step ngn_config_ex ?s answered_ex) 0 = Some tx'" "st_last_response tx' = Some r'" "resp_status r' = 200"
    using reliable_answered by blast
  have w: "wants_100rel (it_request t)" using t(2) reliable_ex_facts(8) by simp
  have "resp_status r' div 100 = 2" using a(3) by simp
  from prack_before_answer [OF ok f refl t(1) w a(1,2) this] show ?thesis using t(2) by simp
qed

end
