(* ===== verification/Outbound_Registry.thy ===== *)
theory Outbound_Registry
  imports Prelude
begin

text \<open>
  The registry of the calls of the extensions (\<^verbatim>\<open>OutboundCallRegistry\<close> of
  \<^verbatim>\<open>call/orchestrator.rs\<close>): calls that are being placed, by the Call-ID of the extension, and
  confirmed calls, by the Call-IDs of both legs. Every operation holds the lock and is one step. A
  call that is being placed is known by the number of its task; the dialogs of a confirmed call,
  which its users share, are found under its number.
\<close>

section \<open>Operations\<close>

record 'a out_entry =
  oc_ext_call_id :: string
  oc_ngn_call_id :: string
  oc_from_aor :: string
  oc_id :: nat
  oc_ext_remote :: 'a
  oc_bridge :: "64 word option"

record 'a out_registry =
  or_by_ext :: "string \<rightharpoonup> 'a out_entry"
  or_ngn_to_ext :: "string \<rightharpoonup> string"
  or_pending :: "string \<rightharpoonup> nat"

definition out_registry_new :: "'a out_registry" where
  "out_registry_new = \<lparr>or_by_ext = Map.empty, or_ngn_to_ext = Map.empty, or_pending = Map.empty\<rparr>"

definition insert_pending :: "'a out_registry \<Rightarrow> string \<Rightarrow> nat \<Rightarrow> 'a out_registry" where
  "insert_pending r ext_call_id k = r\<lparr>or_pending := (or_pending r)(ext_call_id \<mapsto> k)\<rparr>"

definition take_pending :: "'a out_registry \<Rightarrow> string \<Rightarrow> nat option \<times> 'a out_registry" where
  "take_pending r ext_call_id = (or_pending r ext_call_id, r\<lparr>or_pending := (or_pending r)(ext_call_id := None)\<rparr>)"

definition get_pending :: "'a out_registry \<Rightarrow> string \<Rightarrow> nat option" where
  "get_pending r ext_call_id = or_pending r ext_call_id"

definition insert_confirmed :: "'a out_registry \<Rightarrow> 'a out_entry \<Rightarrow> 'a out_registry" where
  "insert_confirmed r e =
     r\<lparr>or_ngn_to_ext := (or_ngn_to_ext r)(oc_ngn_call_id e \<mapsto> oc_ext_call_id e),
       or_by_ext := (or_by_ext r)(oc_ext_call_id e \<mapsto> e)\<rparr>"

definition lookup_by_ext :: "'a out_registry \<Rightarrow> string \<Rightarrow> 'a out_entry option" where
  "lookup_by_ext r ext_call_id = or_by_ext r ext_call_id"

definition lookup_by_ngn :: "'a out_registry \<Rightarrow> string \<Rightarrow> 'a out_entry option" where
  "lookup_by_ngn r ngn_call_id = Option.bind (or_ngn_to_ext r ngn_call_id) (or_by_ext r)"

definition remove_by_ext :: "'a out_registry \<Rightarrow> string \<Rightarrow> 'a out_entry option \<times> 'a out_registry" where
  "remove_by_ext r ext_call_id =
     (case or_by_ext r ext_call_id of
        None \<Rightarrow> (None, r)
      | Some e \<Rightarrow>
          (Some e, r\<lparr>or_by_ext := (or_by_ext r)(ext_call_id := None),
                     or_ngn_to_ext := (or_ngn_to_ext r)(oc_ngn_call_id e := None)\<rparr>))"

definition remove_by_ngn :: "'a out_registry \<Rightarrow> string \<Rightarrow> 'a out_entry option \<times> 'a out_registry" where
  "remove_by_ngn r ngn_call_id =
     (case or_ngn_to_ext r ngn_call_id of
        None \<Rightarrow> (None, r)
      | Some ext_id \<Rightarrow>
          (or_by_ext r ext_id, r\<lparr>or_ngn_to_ext := (or_ngn_to_ext r)(ngn_call_id := None),
                                 or_by_ext := (or_by_ext r)(ext_id := None)\<rparr>))"

text \<open>The calls of an address of record; \<open>order\<close> is the order in which the hash map lists its keys.\<close>

fun drain_ids :: "string list \<Rightarrow> 'a out_registry \<Rightarrow> 'a out_entry list \<times> 'a out_registry" where
  "drain_ids [] r = ([], r)"
| "drain_ids (x # xs) r =
     (case remove_by_ext r x of
        (Some e, r1) \<Rightarrow> (let (es, r2) = drain_ids xs r1 in (e # es, r2))
      | (None, _) \<Rightarrow> drain_ids xs r)"

definition drain_by_aor :: "string list \<Rightarrow> string \<Rightarrow> 'a out_registry \<Rightarrow> 'a out_entry list \<times> 'a out_registry" where
  "drain_by_aor order aor r =
     drain_ids (filter (\<lambda>k. case or_by_ext r k of Some e \<Rightarrow> oc_from_aor e = aor | None \<Rightarrow> False) order) r"

section \<open>The two indices\<close>

definition calls_agree :: "'a out_registry \<Rightarrow> bool" where
  "calls_agree r \<longleftrightarrow>
     finite (dom (or_by_ext r))
     \<and> (\<forall>k e. or_by_ext r k = Some e \<longrightarrow> oc_ext_call_id e = k \<and> or_ngn_to_ext r (oc_ngn_call_id e) = Some k)
     \<and> (\<forall>c k. or_ngn_to_ext r c = Some k \<longrightarrow> (\<exists>e. or_by_ext r k = Some e \<and> oc_ngn_call_id e = c))"

lemma calls_agreeD:
  assumes "calls_agree r"
  shows "or_by_ext r k = Some e \<Longrightarrow> oc_ext_call_id e = k" "or_by_ext r k = Some e \<Longrightarrow> or_ngn_to_ext r (oc_ngn_call_id e) = Some k"
    "or_ngn_to_ext r c = Some k \<Longrightarrow> \<exists>e. or_by_ext r k = Some e \<and> oc_ngn_call_id e = c" "finite (dom (or_by_ext r))"
  using assms by (auto simp: calls_agree_def)

lemma calls_agree_new: "calls_agree out_registry_new"
  by (simp add: calls_agree_def out_registry_new_def)

lemma calls_agree_pending: "calls_agree (r\<lparr>or_pending := p\<rparr>) \<longleftrightarrow> calls_agree r"
  by (simp add: calls_agree_def)

lemma insert_confirmed_agree:
  assumes "calls_agree r" "or_by_ext r (oc_ext_call_id e) = None" "or_ngn_to_ext r (oc_ngn_call_id e) = None"
  shows "calls_agree (insert_confirmed r e)"
  using assms unfolding calls_agree_def insert_confirmed_def
  by (auto split: if_splits) (metis option.distinct(1) option.inject)+

text \<open>One call leaves both indices.\<close>

definition without_call :: "'a out_registry \<Rightarrow> 'a out_entry \<Rightarrow> 'a out_registry" where
  "without_call r e =
     r\<lparr>or_by_ext := (or_by_ext r)(oc_ext_call_id e := None), or_ngn_to_ext := (or_ngn_to_ext r)(oc_ngn_call_id e := None)\<rparr>"

lemma without_call_agree:
  assumes "calls_agree r" "or_by_ext r (oc_ext_call_id e) = Some e"
  shows "calls_agree (without_call r e)"
proof -
  note d = calls_agreeD [OF assms(1)]
  have "oc_ext_call_id x = k \<and> or_ngn_to_ext (without_call r e) (oc_ngn_call_id x) = Some k"
    if "or_by_ext (without_call r e) k = Some x" for k x
  proof -
    have x: "k \<noteq> oc_ext_call_id e" "or_by_ext r k = Some x" using that by (auto simp: without_call_def split: if_splits)
    then have "oc_ngn_call_id x \<noteq> oc_ngn_call_id e" using d(2) [OF x(2)] d(2) [OF assms(2)] by auto
    then show ?thesis using d(1,2) [OF x(2)] by (simp add: without_call_def)
  qed
  moreover have "\<exists>x. or_by_ext (without_call r e) k = Some x \<and> oc_ngn_call_id x = c"
    if "or_ngn_to_ext (without_call r e) c = Some k" for c k
  proof -
    have c: "c \<noteq> oc_ngn_call_id e" "or_ngn_to_ext r c = Some k" using that by (auto simp: without_call_def split: if_splits)
    then obtain x where "or_by_ext r k = Some x" "oc_ngn_call_id x = c" using d(3) by blast
    then show ?thesis using c(1) assms(2) by (auto simp: without_call_def)
  qed
  moreover have "finite (dom (or_by_ext (without_call r e)))" using d(4) by (simp add: without_call_def)
  ultimately show ?thesis unfolding calls_agree_def by blast
qed

lemma remove_by_ext_eq:
  assumes "calls_agree r"
  shows "remove_by_ext r k = (case or_by_ext r k of Some e \<Rightarrow> (Some e, without_call r e) | None \<Rightarrow> (None, r))"
  using calls_agreeD(1) [OF assms] by (auto simp: remove_by_ext_def without_call_def split: option.splits)

lemma remove_by_ngn_eq:
  assumes "calls_agree r"
  shows "remove_by_ngn r c = (case lookup_by_ngn r c of Some e \<Rightarrow> (Some e, without_call r e) | None \<Rightarrow> (None, r))"
proof (cases "or_ngn_to_ext r c")
  case (Some k)
  then obtain e where "or_by_ext r k = Some e" "oc_ngn_call_id e = c" "oc_ext_call_id e = k"
    using calls_agreeD(1,3) [OF assms] by metis
  then show ?thesis using Some by (simp add: remove_by_ngn_def lookup_by_ngn_def without_call_def fun_upd_twist)
qed (simp add: remove_by_ngn_def lookup_by_ngn_def)

lemma remove_agree:
  assumes "calls_agree r"
  shows "calls_agree (snd (remove_by_ext r k))" "calls_agree (snd (remove_by_ngn r c))"
proof -
  show "calls_agree (snd (remove_by_ext r k))"
    using without_call_agree [OF assms] calls_agreeD(1) [OF assms] assms by (auto simp: remove_by_ext_eq [OF assms] split: option.splits)
  have "or_by_ext r (oc_ext_call_id e) = Some e" if "lookup_by_ngn r c = Some e" for e
    using that calls_agreeD(1) [OF assms] by (auto simp: lookup_by_ngn_def bind_eq_Some_conv)
  then show "calls_agree (snd (remove_by_ngn r c))"
    using without_call_agree [OF assms] assms by (auto simp: remove_by_ngn_eq [OF assms] split: option.splits)
qed

lemma lookup_by_ngn_iff:
  assumes "calls_agree r"
  shows "lookup_by_ngn r c = Some e \<longleftrightarrow> or_by_ext r (oc_ext_call_id e) = Some e \<and> oc_ngn_call_id e = c"
  using calls_agreeD [OF assms] unfolding lookup_by_ngn_def bind_eq_Some_conv by (metis option.inject)

end
