(* ===== verification/Ext_Outbound.thy ===== *)
theory Ext_Outbound
  imports Outbound_Registry Ngn_Inbound Extension_Uas Uac Rate_Limiter Carrier_Retry Dtmf
begin

text \<open>
  The handler of what the extensions do (\<^verbatim>\<open>UasEventHandler\<close> of
  \<^verbatim>\<open>call/orchestrator.rs\<close>): calls to the carrier, with the limiter, the repeated attempt and the
  CANCEL; hanging up from either side; renegotiation from either side; transfer; key presses; and
  extensions that go away. As in the handler of the carrier's requests, every event runs in a task
  of its own, the work of a task between two waits is one step, and the tables are one record. A
  task has a number, under which the server transaction of its request is found; it is also the
  number of the dialogs of the call it makes. A request that is sent while a dialog is locked is
  one step with its response. Calls between extensions are handed to another part of
  the program, and so is the recording of calls.
\<close>

section \<open>Configuration and state\<close>

record out_config =
  oh_uac :: uac
  oh_md5 :: "string \<Rightarrow> string"
  oh_layer :: bool
  oh_layer_addr :: "socket_addr option"
  oh_ext_addr :: "socket_addr option"
  oh_ngn_bind_ip :: "ip_addr option"
  oh_ext_bind_ip :: "ip_addr option"
  oh_intercom :: "bool option"
  oh_registrar :: bool
  oh_inviter :: bool
  oh_aliases :: extension_aliases

text \<open>\<^verbatim>\<open>oh_layer\<close> tells whether a transaction layer towards the extensions is attached,
  \<^verbatim>\<open>oh_intercom\<close> whether calls between extensions are served, when that part is attached.\<close>

record out_bridge_ctx =
  bc_ngn_port :: nat
  bc_ext_addr :: socket_addr
  bc_ext_peer :: socket_addr

record out_job =
  oj_aor :: string
  oj_request :: sip_request
  oj_remote :: socket_addr
  oj_call_id :: string
  oj_target :: string
  oj_offer :: string
  oj_sdp :: "string option"
  oj_bridge :: "out_bridge_ctx option"
  oj_plan :: invite_plan
  oj_cancelled :: bool

datatype refer_stage = ReferTrying | ReferInviting string | ReferAnswered | ReferClosing | ReferOver

type_synonym ext_entry = "socket_addr out_entry"

text \<open>What a task waits for. A pausing call has its deadline, whether a CANCEL has come during the pause, and the
  failure; a transfer has the call, the Call-ID of the request and the extension that is called.\<close>

datatype out_task =
    Placing out_job
  | Pausing out_job nat bool sip_response
  | Replacing out_job invite_plan
  | Unplacing out_job
  | Cancelling nat invite_plan
  | HangingUp ext_entry string
  | HungUp ext_entry
  | Unregistering "ext_entry list"
  | Reinviting sip_request "uac_error + sip_response"
  | ForwardingReinvite sip_request ext_entry sip_request
  | Referring ext_entry string string refer_stage

datatype retry_outcome = RetryAbortedByCancel | RetriedSucceeded | RetriedFailed | NotRetried

record outgoing =
  os_next :: nat
  os_txs :: "nat \<rightharpoonup> server_tx"
  os_tasks :: "nat \<rightharpoonup> out_task"
  os_registry :: "socket_addr out_registry"
  os_ext_dialogs :: "nat \<rightharpoonup> dialog"
  os_ngn_dialogs :: "nat \<rightharpoonup> uac_dialog"
  os_limiter :: rate_limiter
  os_manager :: "inbound_bridge call_manager option"
  os_rtp_counter :: "32 word"
  os_call_log :: "call_log option"
  os_call_active :: nat
  os_invites :: "(invite_side \<times> invite_result) list"
  os_retries :: "retry_outcome list"
  os_5xx :: "nat list"
  os_blocked :: nat
  os_intervals :: "nat list"
  os_out :: "datagram list"
  os_to_ngn :: handed_requests
  os_to_ext :: handed_requests
  os_forwarded :: "(nat \<times> sip_response) list"
  os_internal :: "(nat \<times> string \<times> sip_request \<times> socket_addr \<times> string) list"
  os_transfers :: "string list"
  os_injected :: "(64 word \<times> octet list) list"
  os_panicked :: "nat set"

text \<open>\<^verbatim>\<open>oe_layer\<close> is what the carrier, and \<^verbatim>\<open>oe_ext_layer\<close> what the
  extensions answer in this step; \<^verbatim>\<open>oe_leg\<close> is the outcome of the call a transfer makes.\<close>

record 'p out_env =
  oe_uas :: uas_env
  oe_instant :: nat
  oe_rnd :: uac_rnd
  oe_invite_rnds :: "64 word \<times> 64 word \<times> 64 word"
  oe_branch :: "64 word"
  oe_branch2 :: "64 word"
  oe_jitter :: "64 word"
  oe_routes :: reg_client
  oe_layer :: sip_layer
  oe_ext_layer :: sip_layer
  oe_table :: tx_table
  oe_batches :: "(nat \<times> table_event list) list"
  oe_bindings :: "'p bindings"
  oe_free :: "nat \<Rightarrow> bool"
  oe_system_ports :: "nat option list"
  oe_ext_port :: "ip_addr \<Rightarrow> nat option"
  oe_bridge_ok :: bool
  oe_order :: "string list"
  oe_leg :: "sip_response leg_outcome"

definition out_wall_secs :: "'p out_env \<Rightarrow> nat" where
  "out_wall_secs env = ue_wall (oe_uas env) div 1000"

section \<open>Helpers\<close>

definition ext_respond :: "nat \<Rightarrow> nat \<Rightarrow> sip_response \<Rightarrow> outgoing \<Rightarrow> outgoing" where
  "ext_respond now k resp s =
     (case os_txs s k of
        Some tx \<Rightarrow> s\<lparr>os_out := os_out s @ fst (respond tx resp now), os_txs := (os_txs s)(k \<mapsto> snd (respond tx resp now))\<rparr>
      | None \<Rightarrow> s)"

definition ext_quick :: "'p out_env \<Rightarrow> nat \<Rightarrow> nat \<Rightarrow> string \<Rightarrow> outgoing \<Rightarrow> outgoing" where
  "ext_quick env k status reason s =
     (case os_txs s k of
        Some tx \<Rightarrow>
          s\<lparr>os_out := os_out s @ fst (quick (oe_uas env) tx status reason),
            os_txs := (os_txs s)(k \<mapsto> snd (quick (oe_uas env) tx status reason))\<rparr>
      | None \<Rightarrow> s)"

definition out_count :: "(invite_side \<times> invite_result) list \<Rightarrow> outgoing \<Rightarrow> outgoing" where
  "out_count rs s = s\<lparr>os_invites := os_invites s @ rs\<rparr>"

definition out_dec_active :: "outgoing \<Rightarrow> outgoing" where
  "out_dec_active s = s\<lparr>os_call_active := os_call_active s - 1\<rparr>"

definition out_log_start :: "'p out_env \<Rightarrow> string \<Rightarrow> string \<Rightarrow> outgoing \<Rightarrow> outgoing" where
  "out_log_start env number cid s =
     s\<lparr>os_call_log := map_option (\<lambda>cl. record_start (ue_wall (oe_uas env)) cl Outbound number cid) (os_call_log s)\<rparr>"

definition out_log_end :: "'p out_env \<Rightarrow> string \<Rightarrow> call_outcome \<Rightarrow> outgoing \<Rightarrow> outgoing" where
  "out_log_end env cid outcome s =
     s\<lparr>os_call_log := map_option (\<lambda>cl. record_end (ue_wall (oe_uas env)) cl cid outcome) (os_call_log s)\<rparr>"

definition end_out_task :: "nat \<Rightarrow> outgoing \<Rightarrow> outgoing" where
  "end_out_task k s = s\<lparr>os_tasks := (os_tasks s)(k := None)\<rparr>"

definition set_out_task :: "nat \<Rightarrow> out_task \<Rightarrow> outgoing \<Rightarrow> outgoing" where
  "set_out_task k t s = s\<lparr>os_tasks := (os_tasks s)(k \<mapsto> t)\<rparr>"

definition out_task_panics :: "nat \<Rightarrow> outgoing \<Rightarrow> outgoing" where
  "out_task_panics k s = (end_out_task k s)\<lparr>os_panicked := insert k (os_panicked s)\<rparr>"

definition out_stop_call :: "64 word option \<Rightarrow> outgoing \<Rightarrow> outgoing" where
  "out_stop_call bridge s =
     (case (bridge, os_manager s) of
        (Some i, Some mgr) \<Rightarrow> s\<lparr>os_manager := Some (snd (call_terminate mgr i))\<rparr>
      | _ \<Rightarrow> s)"

definition hand_to_ngn :: "handed_requests \<Rightarrow> outgoing \<Rightarrow> outgoing" where
  "hand_to_ngn rs s = s\<lparr>os_to_ngn := os_to_ngn s @ rs\<rparr>"

definition hand_to_ext :: "handed_requests \<Rightarrow> outgoing \<Rightarrow> outgoing" where
  "hand_to_ext rs s = s\<lparr>os_to_ext := os_to_ext s @ rs\<rparr>"

text \<open>A BYE in the dialog with the carrier.\<close>

definition bye_ngn :: "'p out_env \<Rightarrow> nat \<Rightarrow> outgoing \<Rightarrow> outgoing" where
  "bye_ngn env i s =
     (case os_ngn_dialogs s i of
        None \<Rightarrow> s
      | Some ud \<Rightarrow>
          (let (_, ud', handed_over) = send_bye (oe_layer env) (oe_branch env) ud
           in hand_to_ngn handed_over (s\<lparr>os_ngn_dialogs := (os_ngn_dialogs s)(i \<mapsto> ud')\<rparr>)))"

definition ext_contact_uri :: "out_config \<Rightarrow> string" where
  "ext_contact_uri cfg =
     (let host = (case oh_ext_addr cfg of
                    Some a \<Rightarrow> socket_display a
                  | None \<Rightarrow>
                      (case (if oh_layer cfg then oh_layer_addr cfg else None) of
                         Some a \<Rightarrow> socket_display a
                       | None \<Rightarrow> socket_display (uc_local_addr (ua_config (oh_uac cfg)))))
      in ''sip:sabiden@'' @ host)"

definition build_ext_dialog_cfg :: "out_config \<Rightarrow> sip_request \<Rightarrow> dialog_config" where
  "build_ext_dialog_cfg cfg request =
     (let by = (case oh_ext_addr cfg of
                  Some a \<Rightarrow> socket_display a
                | None \<Rightarrow>
                    (case (if oh_layer cfg then oh_layer_addr cfg else None) of
                       Some a \<Rightarrow> socket_display a | None \<Rightarrow> ''0.0.0.0:0''))
      in \<lparr>cfg_local_uri = (case hdr_get (req_headers request) ''to'' of Some v \<Rightarrow> extract_uri_from_addr v | None \<Rightarrow> ''sip:sabiden''),
          cfg_remote_uri = (case hdr_get (req_headers request) ''from'' of
                              Some v \<Rightarrow> extract_uri_from_addr v | None \<Rightarrow> ''sip:unknown@sabiden''),
          cfg_local_contact = ''sip:sabiden@'' @ by, cfg_sent_by = by\<rparr>)"

definition request_call_id :: "string \<Rightarrow> sip_request \<Rightarrow> string" where
  "request_call_id missing request = (case hdr_get (req_headers request) ''call-id'' of Some c \<Rightarrow> c | None \<Rightarrow> missing)"

section \<open>The bridge of an outgoing call\<close>

definition out_bind_relay :: "'p out_env \<Rightarrow> outgoing \<Rightarrow> nat option \<times> outgoing" where
  "out_bind_relay env s =
     (case bind_ngn_rtp_socket (oe_free env) (oe_system_ports env) (os_rtp_counter s) of
        (port, counter) \<Rightarrow> (port, s\<lparr>os_rtp_counter := counter\<rparr>))"

definition prepare_outbound_bridge ::
  "out_config \<Rightarrow> 'p out_env \<Rightarrow> string \<Rightarrow> outgoing \<Rightarrow> (bridge_error + (out_bridge_ctx \<times> string) option) \<times> outgoing" where
  "prepare_outbound_bridge cfg env offer s =
     (if os_manager s = None \<or> offer = [] then (Inr None, s)
      else
        (case bridge_res (extract_rtp_endpoint offer) of
           Inl e \<Rightarrow> (Inl e, s)
         | Inr ext_peer \<Rightarrow>
             (let ngn_ip = (case oh_ngn_bind_ip cfg of Some ip \<Rightarrow> ip | None \<Rightarrow> V4 127 0 0 1);
                  ext_ip = (case oh_ext_bind_ip cfg of Some ip \<Rightarrow> ip | None \<Rightarrow> ngn_ip);
                  (port, s1) = out_bind_relay env s
              in case (port, oe_ext_port env ext_ip) of
                   (Some p, Some q) \<Rightarrow>
                     (case bridge_res (rewrite_rtp_endpoint (out_wall_secs env) offer ngn_ip p) of
                        Inl e \<Rightarrow> (Inl e, s1)
                      | Inr body \<Rightarrow>
                          (Inr (Some (\<lparr>bc_ngn_port = p, bc_ext_addr = \<lparr>sa_ip = ext_ip, sa_port = q\<rparr>, bc_ext_peer = ext_peer\<rparr>, body)), s1))
                 | _ \<Rightarrow> (Inl BridgeFailed, s1))))"

text \<open>The offer for the carrier: pointed at the relay where there is one, else at the address of the program, and then
  restricted to what the carrier takes. An error is a panic.\<close>

definition offer_to_ngn ::
  "out_config \<Rightarrow> 'p out_env \<Rightarrow> string \<Rightarrow> outgoing \<Rightarrow> (sdp_error + out_bridge_ctx option \<times> string option) \<times> outgoing" where
  "offer_to_ngn cfg env offer s =
     (let (r, s1) = prepare_outbound_bridge cfg env offer s;
          forced = map_sum id (Pair None)
                     (force_rewrite_sdp_for_ngn (out_wall_secs env) offer (sa_ip (uc_local_addr (ua_config (oh_uac cfg)))));
          base = (case r of
                    Inl BridgePanic \<Rightarrow> Inl SlicePanic
                  | Inr (Some (ctx, body)) \<Rightarrow> Inr (Some ctx, Some body)
                  | _ \<Rightarrow> forced)
      in (res_bind base (\<lambda>(ctx, body). case body of
              None \<Rightarrow> Inr (ctx, None)
            | Some b \<Rightarrow> map_sum id (\<lambda>b'. (ctx, Some b')) (rewrite_offer for_ngn_with_dtmf b)), s1))"

definition finalize_outbound_bridge ::
  "'p out_env \<Rightarrow> out_bridge_ctx option \<Rightarrow> string \<Rightarrow> string \<Rightarrow> outgoing \<Rightarrow>
   (bridge_error + string \<times> 64 word option) \<times> outgoing" where
  "finalize_outbound_bridge env ctx offer answer s =
     (case (ctx, os_manager s) of
        (Some c, Some mgr) \<Rightarrow>
          if answer = [] then (Inl BridgeFailed, s)
          else
            (case res_bind (bridge_res (extract_rtp_endpoint answer)) (\<lambda>ngn_peer.
                    map_sum id (Pair ngn_peer)
                      (bridge_res (rewrite_rtp_endpoint (out_wall_secs env) offer (sa_ip (bc_ext_addr c)) (sa_port (bc_ext_addr c))))) of
               Inl e \<Rightarrow> (Inl e, s)
             | Inr (ngn_peer, body) \<Rightarrow>
                 if \<not> oe_bridge_ok env then (Inl BridgeFailed, s)
                 else
                   (let bridge = (case select_media_plan answer offer of
                                    Relay \<Rightarrow> SipRelay (bc_ngn_port c) ngn_peer (bc_ext_peer c)
                                  | Transcode pt \<Rightarrow> SipTranscode (bc_ngn_port c) ngn_peer (bc_ext_peer c) pt);
                        (i, mgr1) = create_call mgr
                    in case attach_media_bridge mgr1 i bridge of
                         Inl _ \<Rightarrow> (Inl BridgeFailed, s\<lparr>os_manager := Some mgr1\<rparr>)
                       | Inr mgr2 \<Rightarrow> (Inr (body, Some i), s\<lparr>os_manager := Some mgr2\<rparr>)))
      | _ \<Rightarrow> (Inr (answer, None), s))"


section \<open>A call to the carrier\<close>

text \<open>Where a call goes that stays inside: refused at once, handed on, or none of both.\<close>

datatype internal_route = RefusedInside | HandedInside string | Outside

definition route_inside :: "out_config \<Rightarrow> 'p out_env \<Rightarrow> string \<Rightarrow> sip_request \<Rightarrow> internal_route" where
  "route_inside cfg env from_aor request =
     (case (oh_intercom cfg, oh_registrar cfg, extract_user_from_sip_uri (req_uri request)) of
        (Some enabled, True, Some target_user) \<Rightarrow>
          (let resolved = (case alias_resolve (oh_aliases cfg) target_user of Some a \<Rightarrow> a | None \<Rightarrow> target_user)
           in if resolved = from_aor \<or> target_user = from_aor then RefusedInside
              else
                (case classify_dial_target (ue_now (oe_uas env)) target_user (oe_bindings env) (oh_aliases cfg) of
                   Internal b callee_aor \<Rightarrow> if enabled then HandedInside callee_aor else RefusedInside
                 | Ngn _ \<Rightarrow> Outside))
      | _ \<Rightarrow> Outside)"

text \<open>The call is refused by the limiter.\<close>

definition call_denied :: "'p out_env \<Rightarrow> nat \<Rightarrow> sip_request \<Rightarrow> nat \<Rightarrow> outgoing \<Rightarrow> outgoing" where
  "call_denied env k request wait s =
     ext_respond (ue_now (oe_uas env)) k
       (build_503_with_retry_after (ue_to (oe_uas env)) (ue_tag (oe_uas env)) request (wait div SEC))
       (out_count [(ExtensionSide, InviteError)] (s\<lparr>os_blocked := os_blocked s + 1\<rparr>))"

definition ngn_target :: "out_config \<Rightarrow> sip_request \<Rightarrow> string" where
  "ngn_target cfg request =
     normalize_request_uri_for_ngn (req_uri request) (ip_display (sa_ip (ua_server_addr (oh_uac cfg))))
       (sa_port (ua_server_addr (oh_uac cfg)))"

definition start_call ::
  "out_config \<Rightarrow> 'p out_env \<Rightarrow> nat \<Rightarrow> string \<Rightarrow> sip_request \<Rightarrow> socket_addr \<Rightarrow> outgoing \<Rightarrow> outgoing" where
  "start_call cfg env k from_aor request remote s =
     (let cid = request_call_id ''<no-call-id>'' request; target = ngn_target cfg request
      in case offer_to_ngn cfg env (req_body request) s of
           (Inl _, s1) \<Rightarrow> out_task_panics k s1
         | (Inr (ctx, sdp), s1) \<Rightarrow>
             (let plan = build_invite (oe_routes env) (oe_rnd env) (oh_uac cfg) target sdp None;
                  number = (case extract_user_from_sip_uri target of Some u \<Rightarrow> u | None \<Rightarrow> target);
                  s2 = out_log_start env number cid s1;
                  s3 = (if cid \<noteq> [] \<and> cid \<noteq> ''<no-call-id>''
                        then s2\<lparr>os_registry := insert_pending (os_registry s2) cid k\<rparr> else s2)
              in set_out_task k
                   (Placing \<lparr>oj_aor = from_aor, oj_request = request, oj_remote = remote, oj_call_id = cid, oj_target = target,
                      oj_offer = req_body request, oj_sdp = sdp, oj_bridge = ctx, oj_plan = plan, oj_cancelled = False\<rparr>)
                   (hand_to_ngn [(ip_request plan, ua_server_addr (oh_uac cfg))] s3)))"

definition ext_invite ::
  "out_config \<Rightarrow> 'p out_env \<Rightarrow> nat \<Rightarrow> string \<Rightarrow> sip_request \<Rightarrow> socket_addr \<Rightarrow> outgoing \<Rightarrow> outgoing" where
  "ext_invite cfg env k from_aor request remote s =
     (case route_inside cfg env from_aor request of
        RefusedInside \<Rightarrow> out_count [(ExtensionSide, InviteError)] (ext_quick env k 480 ''Temporarily Unavailable'' s)
      | HandedInside callee_aor \<Rightarrow> s\<lparr>os_internal := os_internal s @ [(k, from_aor, request, remote, callee_aor)]\<rparr>
      | Outside \<Rightarrow>
          (case check_and_record_at (os_limiter s) from_aor (oe_instant env) of
             (Deny wait, lim) \<Rightarrow> call_denied env k request wait (s\<lparr>os_limiter := lim\<rparr>)
           | (Allow previous, lim) \<Rightarrow>
               start_call cfg env k from_aor request remote
                 (s\<lparr>os_limiter := lim,
                    os_intervals := os_intervals s @ (case previous of Some d \<Rightarrow> [min (d div 10 ^ 6) (2 ^ 64 - 1)] | None \<Rightarrow> [])\<rparr>)))"

subsection \<open>The outcome\<close>

text \<open>The call is up: towards the extension, and in the registry.\<close>

definition register_call ::
  "out_config \<Rightarrow> nat \<Rightarrow> out_job \<Rightarrow> sip_response \<Rightarrow> uac_dialog \<Rightarrow> 64 word option \<Rightarrow> outgoing \<Rightarrow> outgoing" where
  "register_call cfg k job resp ud bridge s =
     (case from_uas_invite (oj_request job) resp (build_ext_dialog_cfg cfg (oj_request job)) of
        Inl _ \<Rightarrow> s
      | Inr d \<Rightarrow>
          if \<not> oh_layer cfg then s
          else
            s\<lparr>os_ext_dialogs := (os_ext_dialogs s)(k \<mapsto> d), os_ngn_dialogs := (os_ngn_dialogs s)(k \<mapsto> ud),
              os_registry := insert_confirmed (os_registry s)
                \<lparr>oc_ext_call_id = oj_call_id job, oc_ngn_call_id = dlg_call_id (dlg_id (ud_inner ud)), oc_from_aor = oj_aor job,
                 oc_id = k, oc_ext_remote = oj_remote job, oc_bridge = bridge\<rparr>\<rparr>)"

definition call_up :: "out_config \<Rightarrow> 'p out_env \<Rightarrow> nat \<Rightarrow> out_job \<Rightarrow> established_call \<Rightarrow> outgoing \<Rightarrow> outgoing" where
  "call_up cfg env k job call s =
     (let answer = resp_body (ec_response call);
          (r, s1) = finalize_outbound_bridge env (oj_bridge job) (oj_offer job) answer s
      in case r of
           Inl BridgePanic \<Rightarrow> out_task_panics k s1
         | _ \<Rightarrow>
             (let (body, bridge) = (case r of Inr x \<Rightarrow> x | Inl _ \<Rightarrow> (answer, None));
                  resp = build_2xx_to_ext (ue_to (oe_uas env)) (ue_tag (oe_uas env)) (oj_request job) body (ext_contact_uri cfg);
                  s2 = out_count [(NgnSide, InviteAnswered), (ExtensionSide, InviteAnswered)]
                         (ext_respond (ue_now (oe_uas env)) k resp s1)
              in end_out_task k (register_call cfg k job resp (ec_dialog call) bridge
                   (s2\<lparr>os_call_active := os_call_active s2 + 1\<rparr>))))"

definition call_refused :: "'p out_env \<Rightarrow> nat \<Rightarrow> out_job \<Rightarrow> sip_response \<Rightarrow> outgoing \<Rightarrow> outgoing" where
  "call_refused env k job response s =
     (let status = resp_status response;
          s1 = (if 500 \<le> status \<and> status < 600 then s\<lparr>os_5xx := os_5xx s @ [status]\<rparr> else s);
          s2 = out_log_end env (oj_call_id job) (Failed status)
                 (out_count [(NgnSide, if status = 486 then InviteBusy else InviteError)] s1);
          retry_secs = Option.bind (hdr_get (resp_headers response) ''retry-after'') parse_retry_after;
          s3 = s2\<lparr>os_limiter := record_failure_at (os_limiter s2) (oj_aor job) status retry_secs (oe_instant env)\<rparr>
      in case retry_secs of
           Some secs \<Rightarrow>
             (let resp = build_response_skeleton (ue_to (oe_uas env)) (oj_request job) status (resp_reason response)
              in ext_respond (ue_now (oe_uas env)) k
                   (ensure_to_tag (ue_tag (oe_uas env))
                     (resp\<lparr>resp_headers := hdr_set ''Retry-After'' (dec secs) (resp_headers resp)\<rparr>)) s3)
         | None \<Rightarrow> ext_quick env k status (resp_reason response) s3)"

definition call_lost :: "'p out_env \<Rightarrow> nat \<Rightarrow> out_job \<Rightarrow> outgoing \<Rightarrow> outgoing" where
  "call_lost env k job s =
     (if oj_cancelled job then out_log_end env (oj_call_id job) Cancelled s
      else
        (let s1 = out_log_end env (oj_call_id job) (Failed 503) (out_count [(NgnSide, InviteTimeout)] s);
             s2 = s1\<lparr>os_limiter := record_failure_at (os_limiter s1) (oj_aor job) 503 None (oe_instant env)\<rparr>
         in ext_quick env k 503 ''Service Unavailable'' s2))"

text \<open>The call leaves the table of those being placed, and its outcome is told. An answer that comes after a CANCEL is ended
  with a BYE.\<close>

definition leave_pending :: "out_job \<Rightarrow> outgoing \<Rightarrow> outgoing" where
  "leave_pending job s =
     (if oj_call_id job \<noteq> [] \<and> oj_call_id job \<noteq> ''<no-call-id>''
      then s\<lparr>os_registry := snd (take_pending (os_registry s) (oj_call_id job))\<rparr> else s)"

definition settle_call ::
  "out_config \<Rightarrow> 'p out_env \<Rightarrow> nat \<Rightarrow> out_job \<Rightarrow> uac_error + invite_outcome \<Rightarrow> outgoing \<Rightarrow> outgoing" where
  "settle_call cfg env k job outcome s =
     (let s0 = leave_pending job s
      in case outcome of
           Inr (Established call) \<Rightarrow>
             (let s1 = s0\<lparr>os_limiter := record_success (os_limiter s0) (oj_aor job)\<rparr>
              in if oj_cancelled job
                 then (let (_, _, handed_over) = send_bye (oe_layer env) (oe_branch env) (ec_dialog call)
                       in set_out_task k (Unplacing job) (hand_to_ngn handed_over s1))
                 else call_up cfg env k job call s1)
         | Inr (InviteFailed response) \<Rightarrow> end_out_task k (call_refused env k job response s0)
         | Inl _ \<Rightarrow> end_out_task k (call_lost env k job s0))"

definition call_unplaced :: "'p out_env \<Rightarrow> nat \<Rightarrow> out_job \<Rightarrow> outgoing \<Rightarrow> outgoing" where
  "call_unplaced env k job s = end_out_task k (out_log_end env (oj_call_id job) Cancelled (out_count [(NgnSide, InviteError)] s))"

definition count_retry :: "retry_outcome \<Rightarrow> outgoing \<Rightarrow> outgoing" where
  "count_retry r s = s\<lparr>os_retries := os_retries s @ [r]\<rparr>"

text \<open>The first attempt is over: it is repeated after a pause, or that was it. The requests of the attempt other
  than its first are the repeated INVITE with credentials and the ACK.\<close>

definition first_attempt :: "out_config \<Rightarrow> 'p out_env \<Rightarrow> nat \<Rightarrow> out_job \<Rightarrow> outgoing \<Rightarrow> outgoing" where
  "first_attempt cfg env k job s =
     (let (outcome, handed_over) = invite (oh_md5 cfg) (oe_layer env) (oe_invite_rnds env) (oh_uac cfg) (oj_plan job);
          s1 = hand_to_ngn (tl handed_over) s;
          give_up = settle_call cfg env k job outcome (count_retry NotRetried s1)
      in case outcome of
           Inr (InviteFailed response) \<Rightarrow>
             (case decide_retry (resp_status response) (resp_headers response) default_retry_config
                     (random_jitter_offset_ms (oe_jitter env) (cr_jitter default_retry_config)) of
                Retry wait _ \<Rightarrow> set_out_task k (Pausing job (ue_now (oe_uas env) + wait) False response) s1
              | NoRetry _ \<Rightarrow> give_up)
         | _ \<Rightarrow> give_up)"

definition pause_over :: "out_config \<Rightarrow> 'p out_env \<Rightarrow> nat \<Rightarrow> out_job \<Rightarrow> nat \<Rightarrow> bool \<Rightarrow> sip_response \<Rightarrow> outgoing \<Rightarrow> outgoing" where
  "pause_over cfg env k job deadline notified response s =
     (if \<not> notified \<and> ue_now (oe_uas env) < deadline then s
      else if notified \<or> oj_cancelled job
      then settle_call cfg env k job (Inr (InviteFailed response)) (count_retry RetryAbortedByCancel s)
      else
        (let plan = build_invite (oe_routes env) (oe_rnd env) (oh_uac cfg) (oj_target job) (oj_sdp job) None
         in set_out_task k (Replacing job plan) (hand_to_ngn [(ip_request plan, ua_server_addr (oh_uac cfg))] s)))"

definition second_attempt :: "out_config \<Rightarrow> 'p out_env \<Rightarrow> nat \<Rightarrow> out_job \<Rightarrow> invite_plan \<Rightarrow> outgoing \<Rightarrow> outgoing" where
  "second_attempt cfg env k job plan s =
     (let (outcome, handed_over) = invite (oh_md5 cfg) (oe_layer env) (oe_invite_rnds env) (oh_uac cfg) plan;
          succeeded = (case outcome of Inr (Established _) \<Rightarrow> True | _ \<Rightarrow> False)
      in settle_call cfg env k job outcome
           (count_retry (if succeeded then RetriedSucceeded else RetriedFailed) (hand_to_ngn (tl handed_over) s)))"

section \<open>CANCEL\<close>

text \<open>A CANCEL marks the call and wakes its pause; towards the carrier it waits as \<^const>\<open>cancel_pending\<close> does.\<close>

fun cancel_job :: "out_task \<Rightarrow> out_task" where
  "cancel_job (Placing job) = Placing (job\<lparr>oj_cancelled := True\<rparr>)"
| "cancel_job (Pausing job deadline notified response) = Pausing (job\<lparr>oj_cancelled := True\<rparr>) deadline True response"
| "cancel_job (Replacing job plan) = Replacing (job\<lparr>oj_cancelled := True\<rparr>) plan"
| "cancel_job t = t"

fun job_of :: "out_task \<Rightarrow> out_job option" where
  "job_of (Placing job) = Some job"
| "job_of (Pausing job deadline notified response) = Some job"
| "job_of (Replacing job plan) = Some job"
| "job_of (Unplacing job) = Some job"
| "job_of t = None"

definition ext_cancel :: "nat \<Rightarrow> sip_request \<Rightarrow> outgoing \<Rightarrow> outgoing" where
  "ext_cancel k request s =
     (case hdr_get (req_headers request) ''call-id'' of
        None \<Rightarrow> s
      | Some cid \<Rightarrow>
          (case get_pending (os_registry s) cid of
             None \<Rightarrow> s
           | Some j \<Rightarrow>
               (case Option.bind (os_tasks s j) job_of of
                  None \<Rightarrow> s
                | Some job \<Rightarrow>
                    set_out_task k (Cancelling j (oj_plan job)) (s\<lparr>os_tasks := (os_tasks s)(j := map_option cancel_job (os_tasks s j))\<rparr>))))"

definition cancel_finished :: "out_config \<Rightarrow> 'p out_env \<Rightarrow> nat \<Rightarrow> nat \<Rightarrow> invite_plan \<Rightarrow> outgoing \<Rightarrow> outgoing" where
  "cancel_finished cfg env k j plan s =
     (let (_, handed_over) = cancel_pending (oe_layer env) (oe_table env) (oe_batches env) (oh_uac cfg) plan
      in end_out_task k (out_count [(NgnSide, InviteError)]
           (ext_quick env j 487 ''Request Terminated'' (hand_to_ngn handed_over s))))"


section \<open>Hanging up\<close>

definition ext_bye :: "out_config \<Rightarrow> 'p out_env \<Rightarrow> nat \<Rightarrow> sip_request \<Rightarrow> outgoing \<Rightarrow> outgoing" where
  "ext_bye cfg env k request s =
     (let s1 = ext_quick env k 200 ''OK'' s
      in case hdr_get (req_headers request) ''call-id'' of
           None \<Rightarrow> s1
         | Some cid \<Rightarrow>
             (case remove_by_ext (os_registry s1) cid of
                (None, _) \<Rightarrow> s1
              | (Some entry, reg) \<Rightarrow> set_out_task k (HangingUp entry cid) (bye_ngn env (oc_id entry) (s1\<lparr>os_registry := reg\<rparr>))))"

definition bye_finished :: "'p out_env \<Rightarrow> nat \<Rightarrow> ext_entry \<Rightarrow> string \<Rightarrow> outgoing \<Rightarrow> outgoing" where
  "bye_finished env k entry cid s =
     end_out_task k (out_stop_call (oc_bridge entry) (out_log_end env cid Answered (out_dec_active s)))"

text \<open>The carrier hangs up; \<^verbatim>\<open>None\<close> when it is not a call of an extension.\<close>

definition forward_bye :: "'p out_env \<Rightarrow> nat \<Rightarrow> string \<Rightarrow> outgoing \<Rightarrow> outgoing option" where
  "forward_bye env k ngn_call_id s =
     (case lookup_by_ngn (os_registry s) ngn_call_id of
        None \<Rightarrow> None
      | Some _ \<Rightarrow>
          (case remove_by_ngn (os_registry s) ngn_call_id of
             (None, reg) \<Rightarrow> Some (s\<lparr>os_registry := reg\<rparr>)
           | (Some entry, reg) \<Rightarrow>
               (case os_ext_dialogs s (oc_id entry) of
                  None \<Rightarrow> Some (s\<lparr>os_registry := reg\<rparr>)
                | Some d \<Rightarrow>
                    (let (bye, d1) = build_bye d (oe_branch env)
                     in Some (set_out_task k (HungUp entry)
                          (hand_to_ext [(bye, oc_ext_remote entry)]
                            (s\<lparr>os_registry := reg, os_ext_dialogs := (os_ext_dialogs s)(oc_id entry \<mapsto> terminate d1)\<rparr>)))))))"

definition hung_up :: "nat \<Rightarrow> ext_entry \<Rightarrow> outgoing \<Rightarrow> outgoing" where
  "hung_up k entry s = end_out_task k (out_stop_call (oc_bridge entry) (out_dec_active s))"

text \<open>An extension goes away: its calls are ended towards the carrier, one after the other.\<close>

definition next_unregistered :: "'p out_env \<Rightarrow> nat \<Rightarrow> ext_entry list \<Rightarrow> outgoing \<Rightarrow> outgoing" where
  "next_unregistered env k entries s =
     (case entries of
        [] \<Rightarrow> end_out_task k s
      | entry # _ \<Rightarrow> set_out_task k (Unregistering entries) (bye_ngn env (oc_id entry) s))"

definition ext_unregister :: "'p out_env \<Rightarrow> nat \<Rightarrow> string \<Rightarrow> outgoing \<Rightarrow> outgoing" where
  "ext_unregister env k aor s =
     (let (drained, reg) = drain_by_aor (oe_order env) aor (os_registry s)
      in next_unregistered env k drained (s\<lparr>os_registry := reg\<rparr>))"

definition unregistered :: "'p out_env \<Rightarrow> nat \<Rightarrow> ext_entry \<Rightarrow> ext_entry list \<Rightarrow> outgoing \<Rightarrow> outgoing" where
  "unregistered env k entry rest s =
     next_unregistered env k rest (out_stop_call (oc_bridge entry) (out_dec_active
       (s\<lparr>os_ext_dialogs := (os_ext_dialogs s)(oc_id entry := map_option terminate (os_ext_dialogs s (oc_id entry)))\<rparr>)))"

section \<open>Renegotiation\<close>

definition requires_timer :: "sip_headers \<Rightarrow> bool" where
  "requires_timer hs =
     (case hdr_get hs ''require'' of
        None \<Rightarrow> False
      | Some v \<Rightarrow> list_ex (\<lambda>t. eq_ignore_case (trim t) ''timer'') (split_char CHR '','' v))"

text \<open>The session timer of an answer is passed on.\<close>

definition relay_timer :: "sip_response \<Rightarrow> sip_response \<Rightarrow> sip_response" where
  "relay_timer from resp =
     (let h1 = (case hdr_get (resp_headers from) ''session-expires'' of
                  Some se \<Rightarrow> hdr_set ''Session-Expires'' se (resp_headers resp) | None \<Rightarrow> resp_headers resp)
      in resp\<lparr>resp_headers := if requires_timer (resp_headers from) then hdr_set ''Require'' ''timer'' h1 else h1\<rparr>)"

text \<open>A refusal is passed on with its status and what it says of timers and retries.\<close>

definition relay_refusal :: "uas_env \<Rightarrow> sip_request \<Rightarrow> sip_response \<Rightarrow> sip_response" where
  "relay_refusal ue request from =
     (let resp = build_response_skeleton (ue_to ue) request (resp_status from) (resp_reason from);
          h1 = (case hdr_get (resp_headers from) ''min-se'' of
                  Some m \<Rightarrow> hdr_set ''Min-SE'' m (resp_headers resp) | None \<Rightarrow> resp_headers resp);
          h2 = (case hdr_get (resp_headers from) ''retry-after'' of Some ra \<Rightarrow> hdr_set ''Retry-After'' ra h1 | None \<Rightarrow> h1)
      in ensure_to_tag (ue_tag ue) (resp\<lparr>resp_headers := h2\<rparr>))"

definition reinvite_offer :: "out_config \<Rightarrow> 'p out_env \<Rightarrow> string \<Rightarrow> sdp_error + string option" where
  "reinvite_offer cfg env body =
     (if body = [] then Inr None
      else res_bind (force_rewrite_sdp_for_ngn (out_wall_secs env) body (sa_ip (uc_local_addr (ua_config (oh_uac cfg)))))
        (\<lambda>b. case b of None \<Rightarrow> Inr None | Some b \<Rightarrow> map_sum id Some (rewrite_offer for_ngn_with_dtmf b)))"

definition ext_reinvite :: "out_config \<Rightarrow> 'p out_env \<Rightarrow> nat \<Rightarrow> sip_request \<Rightarrow> outgoing \<Rightarrow> outgoing" where
  "ext_reinvite cfg env k request s =
     (let cid = request_call_id [] request
      in case lookup_by_ext (os_registry s) cid of
           None \<Rightarrow>
             if get_pending (os_registry s) cid \<noteq> None then ext_quick env k 491 ''Request Pending'' s
             else ext_quick env k 481 ''Call/Transaction Does Not Exist'' s
         | Some entry \<Rightarrow>
             (case (reinvite_offer cfg env (req_body request), os_ngn_dialogs s (oc_id entry)) of
                (Inl _, _) \<Rightarrow> out_task_panics k s
              | (Inr offer, Some ud) \<Rightarrow>
                  (let (r, ud', handed_over) = send_reinvite (oe_layer env) (oe_branch env) (oe_branch2 env) offer ud
                   in set_out_task k (Reinviting request r)
                        (hand_to_ngn handed_over (s\<lparr>os_ngn_dialogs := (os_ngn_dialogs s)(oc_id entry \<mapsto> ud')\<rparr>)))
              | (Inr offer, None) \<Rightarrow> s))"

definition reinvite_answered ::
  "out_config \<Rightarrow> 'p out_env \<Rightarrow> nat \<Rightarrow> sip_request \<Rightarrow> uac_error + sip_response \<Rightarrow> outgoing \<Rightarrow> outgoing" where
  "reinvite_answered cfg env k request r s =
     end_out_task k
       (case r of
          Inl _ \<Rightarrow> ext_quick env k 500 ''Server Internal Error'' s
        | Inr resp \<Rightarrow>
            if is_2xx resp
            then ext_respond (ue_now (oe_uas env)) k
                   (relay_timer resp (build_2xx_to_ext (ue_to (oe_uas env)) (ue_tag (oe_uas env)) request (resp_body resp)
                     (ext_contact_uri cfg))) s
            else ext_respond (ue_now (oe_uas env)) k (relay_refusal (oe_uas env) request resp) s)"

text \<open>The carrier renegotiates: its description goes to the extension as it is.\<close>

definition forward_reinvite :: "'p out_env \<Rightarrow> nat \<Rightarrow> sip_request \<Rightarrow> outgoing \<Rightarrow> outgoing option" where
  "forward_reinvite env k request s =
     (case Option.bind (hdr_get (req_headers request) ''call-id'') (lookup_by_ngn (os_registry s)) of
        None \<Rightarrow> None
      | Some entry \<Rightarrow>
          (case os_ext_dialogs s (oc_id entry) of
             None \<Rightarrow> Some s
           | Some d \<Rightarrow>
               (let (req, d1) = build_reinvite d (oe_branch env)
                      (if req_body request = [] then None else Some (req_body request)) 300 MIN_SE
                in Some (set_out_task k (ForwardingReinvite request entry req)
                     (hand_to_ext [(req, oc_ext_remote entry)]
                       (s\<lparr>os_ext_dialogs := (os_ext_dialogs s)(oc_id entry \<mapsto> d1)\<rparr>))))))"

definition classify_ext_reinvite_send_error :: "tx_error \<Rightarrow> nat \<times> string" where
  "classify_ext_reinvite_send_error e = (if e = TxTimeout then (408, ''Request Timeout'') else (500, ''Server Internal Error''))"

definition answer_to_reinvite :: "'p out_env \<Rightarrow> sip_request \<Rightarrow> string option \<Rightarrow> tx_error + sip_response \<Rightarrow> sip_response" where
  "answer_to_reinvite env request contact r =
     (case r of
        Inl e \<Rightarrow>
          (let (code, reason) = classify_ext_reinvite_send_error e
           in ensure_to_tag (ue_tag (oe_uas env)) (build_response_skeleton (ue_to (oe_uas env)) request code reason))
      | Inr resp \<Rightarrow>
          if is_2xx resp
          then
            (let ok = build_response_skeleton (ue_to (oe_uas env)) request 200 ''OK'';
                 ok1 = (if resp_body resp \<noteq> [] then set_sdp (resp_body resp) ok else ok);
                 ok2 = (case contact of
                          Some c \<Rightarrow> ok1\<lparr>resp_headers := hdr_set ''Contact'' (''<'' @ c @ ''>'') (resp_headers ok1)\<rparr> | None \<Rightarrow> ok1)
             in ensure_to_tag (ue_tag (oe_uas env)) (relay_timer resp ok2))
          else relay_refusal (oe_uas env) request resp)"

definition reinvite_forwarded ::
  "'p out_env \<Rightarrow> nat \<Rightarrow> sip_request \<Rightarrow> ext_entry \<Rightarrow> tx_error + sip_response \<Rightarrow> outgoing \<Rightarrow> outgoing" where
  "reinvite_forwarded env k request entry r s =
     (let contact = map_option (\<lambda>ud. dlg_local_contact (ud_inner ud)) (os_ngn_dialogs s (oc_id entry))
      in end_out_task k (s\<lparr>os_forwarded := os_forwarded s @ [(k, answer_to_reinvite env request contact r)]\<rparr>))"


section \<open>Transfer\<close>

definition send_refer_notify :: "'p out_env \<Rightarrow> ext_entry \<Rightarrow> string \<Rightarrow> string \<Rightarrow> outgoing \<Rightarrow> outgoing" where
  "send_refer_notify env entry sipfrag_status_line subscription_state s =
     (case os_ext_dialogs s (oc_id entry) of
        None \<Rightarrow> s
      | Some d \<Rightarrow>
          (let (notify, d1) = build_notify_refer_sipfrag d (oe_branch env) sipfrag_status_line subscription_state
           in hand_to_ext [(notify, next_hop_socket d1 (oc_ext_remote entry))]
                (s\<lparr>os_ext_dialogs := (os_ext_dialogs s)(oc_id entry \<mapsto> d1)\<rparr>)))"

definition refer_over :: "'p out_env \<Rightarrow> nat \<Rightarrow> ext_entry \<Rightarrow> string \<Rightarrow> string \<Rightarrow> string \<Rightarrow> refer_stage \<Rightarrow> outgoing \<Rightarrow> outgoing" where
  "refer_over env k entry cid target status_line stage s =
     set_out_task k (Referring entry cid target stage)
       (send_refer_notify env entry status_line ''terminated;reason=noresource'' s)"

definition ext_refer :: "out_config \<Rightarrow> 'p out_env \<Rightarrow> nat \<Rightarrow> sip_request \<Rightarrow> outgoing \<Rightarrow> outgoing" where
  "ext_refer cfg env k request s =
     (if \<not> (oh_inviter cfg \<and> oh_registrar cfg \<and> oh_layer cfg) then ext_quick env k 503 ''Service Unavailable'' s
      else
        (let cid = request_call_id [] request
         in case lookup_by_ext (os_registry s) cid of
              None \<Rightarrow> ext_quick env k 481 ''Call/Transaction Does Not Exist'' s
            | Some entry \<Rightarrow>
                (case Option.bind (hdr_get (req_headers request) ''refer-to'') extract_refer_to_aor of
                   None \<Rightarrow> ext_quick env k 400 ''Bad Request'' s
                 | Some target_aor \<Rightarrow>
                     set_out_task k (Referring entry cid target_aor ReferTrying)
                       (send_refer_notify env entry ''SIP/2.0 100 Trying'' ''active;expires=60''
                         (ext_quick env k 202 ''Accepted'' s)))))"

text \<open>The old call is ended on both legs, first towards the carrier.\<close>

definition teardown_transferred :: "'p out_env \<Rightarrow> ext_entry \<Rightarrow> outgoing \<Rightarrow> outgoing" where
  "teardown_transferred env entry s =
     (let s1 = (case os_ext_dialogs s (oc_id entry) of
                  None \<Rightarrow> s
                | Some d \<Rightarrow>
                    (let (bye, d1) = build_bye d (oe_branch env)
                     in hand_to_ext [(bye, next_hop_socket d1 (oc_ext_remote entry))]
                          (s\<lparr>os_ext_dialogs := (os_ext_dialogs s)(oc_id entry \<mapsto> terminate d1)\<rparr>)))
      in out_stop_call (oc_bridge entry) s1)"

definition refer_step :: "'p out_env \<Rightarrow> nat \<Rightarrow> ext_entry \<Rightarrow> string \<Rightarrow> string \<Rightarrow> refer_stage \<Rightarrow> outgoing \<Rightarrow> outgoing" where
  "refer_step env k entry cid target stage s =
     (case stage of
        ReferTrying \<Rightarrow>
          (case lookup_ext (ue_now (oe_uas env)) (oe_bindings env) target of
             None \<Rightarrow> refer_over env k entry cid target ''SIP/2.0 404 Not Found'' ReferOver s
           | Some b \<Rightarrow>
               set_out_task k (Referring entry cid target (ReferInviting (bd_contact_uri b)))
                 (s\<lparr>os_transfers := os_transfers s @ [bd_contact_uri b]\<rparr>))
      | ReferInviting uri \<Rightarrow>
          (case oe_leg env of
             LegEstablished response \<Rightarrow>
               refer_over env k entry cid target (''SIP/2.0 '' @ dec (resp_status response) @ '' '' @ resp_reason response) ReferAnswered s
           | LegFailed status \<Rightarrow>
               refer_over env k entry cid target (''SIP/2.0 '' @ dec status @ '' '' @ sip_reason_for status) ReferOver s
           | LegErrored \<Rightarrow> refer_over env k entry cid target ''SIP/2.0 503 Service Unavailable'' ReferOver s)
      | ReferAnswered \<Rightarrow> set_out_task k (Referring entry cid target ReferClosing) (bye_ngn env (oc_id entry) s)
      | ReferClosing \<Rightarrow>
          (let s1 = teardown_transferred env entry s;
               s2 = s1\<lparr>os_registry := snd (remove_by_ext (os_registry s1) cid)\<rparr>
           in end_out_task k (out_log_end env cid Answered (out_dec_active s2)))
      | ReferOver \<Rightarrow> end_out_task k s)"

section \<open>Key presses\<close>

definition contains :: "string \<Rightarrow> string \<Rightarrow> bool" where
  "contains pat text \<longleftrightarrow> find_str pat text \<noteq> None"

definition info_digit :: "sip_request \<Rightarrow> string option" where
  "info_digit request =
     (let content_type = lower (case hdr_get (req_headers request) ''content-type'' of Some v \<Rightarrow> v | None \<Rightarrow> [])
      in if contains ''application/dtmf-relay'' content_type
         then map_option fst (res_ok (parse_application_dtmf_relay (req_body request)))
         else if contains ''application/dtmf'' content_type then res_ok (parse_application_dtmf (req_body request))
         else None)"

text \<open>The source identifier is a hash of the Call-ID.\<close>

definition dtmf_source :: "string \<Rightarrow> 32 word" where
  "dtmf_source call_id =
     (let h = fold (\<lambda>b h. (h XOR word_of_nat (octet_of b)) * 0x01000193) call_id (0x811c9dc5 :: 32 word)
      in if h = 0 then 0xCAFEBABE else h)"

definition inject_dtmf_event_to_ngn :: "nat \<Rightarrow> 64 word \<Rightarrow> string \<Rightarrow> octet \<Rightarrow> outgoing \<Rightarrow> outgoing" where
  "inject_dtmf_event_to_ngn wall bridge_id call_id event s =
     (let now_ts = (word_of_nat (wall mod 2 ^ 32) :: 32 word);
          start_seq = (ucast now_ts :: 16 word)
      in case (os_manager s, build_dtmf_packet_sequence event start_seq now_ts (dtmf_source call_id) 100 50 10) of
           (Some mgr, Some packets) \<Rightarrow>
             (case inject_bridge mgr bridge_id of
                Inl _ \<Rightarrow> s
              | Inr bridge \<Rightarrow> s\<lparr>os_injected := os_injected s @ map (\<lambda>p. (bridge_id, rtp_to_bytes p)) packets\<rparr>)
         | _ \<Rightarrow> s)"

definition ext_info :: "'p out_env \<Rightarrow> nat \<Rightarrow> sip_request \<Rightarrow> outgoing \<Rightarrow> outgoing" where
  "ext_info env k request s =
     (let cid = request_call_id [] request
      in case info_digit request of
           None \<Rightarrow> ext_quick env k 415 ''Unsupported Media Type'' s
         | Some digit \<Rightarrow>
             (let s1 = ext_quick env k 200 ''OK'' s
              in case (digit_to_event digit, Option.bind (lookup_by_ext (os_registry s1) cid) oc_bridge) of
                   (Some event, Some bridge_id) \<Rightarrow> inject_dtmf_event_to_ngn (ue_wall (oe_uas env)) bridge_id cid event s1
                 | _ \<Rightarrow> s1))"

section \<open>The machine\<close>

text \<open>An event of an extension gets the next number; so does a request of the carrier that is forwarded.\<close>

datatype 'p out_event =
    ExtEvent "'p out_env" uas_event
  | NgnBye "'p out_env" string
  | NgnReinvite "'p out_env" sip_request
  | Resume "'p out_env" nat

definition arrives_out :: "server_tx option \<Rightarrow> outgoing \<Rightarrow> outgoing" where
  "arrives_out tx s =
     s\<lparr>os_next := os_next s + 1,
       os_txs := (case tx of Some t \<Rightarrow> (os_txs s)(os_next s \<mapsto> t) | None \<Rightarrow> os_txs s)\<rparr>"

definition handle_event :: "out_config \<Rightarrow> 'p out_env \<Rightarrow> uas_event \<Rightarrow> outgoing \<Rightarrow> outgoing" where
  "handle_event cfg env ev s =
     (let k = os_next s
      in case ev of
           UasInvite from_aor request remote tx \<Rightarrow> ext_invite cfg env k from_aor request remote (arrives_out (Some tx) s)
         | UasReinvite request remote tx \<Rightarrow> ext_reinvite cfg env k request (arrives_out (Some tx) s)
         | UasBye request remote tx \<Rightarrow> ext_bye cfg env k request (arrives_out (Some tx) s)
         | UasCancel request remote tx \<Rightarrow> ext_cancel k request (arrives_out (Some tx) s)
         | UasAck request remote \<Rightarrow> s
         | UasInfo request remote tx \<Rightarrow> ext_info env k request (arrives_out (Some tx) s)
         | UasUnregister aor \<Rightarrow> ext_unregister env k aor (arrives_out None s)
         | UasRefer request remote tx \<Rightarrow> ext_refer cfg env k request (arrives_out (Some tx) s))"

definition resume_task :: "out_config \<Rightarrow> 'p out_env \<Rightarrow> nat \<Rightarrow> out_task \<Rightarrow> outgoing \<Rightarrow> outgoing" where
  "resume_task cfg env k t s =
     (case t of
        Placing job \<Rightarrow> first_attempt cfg env k job s
      | Pausing job deadline notified response \<Rightarrow> pause_over cfg env k job deadline notified response s
      | Replacing job plan \<Rightarrow> second_attempt cfg env k job plan s
      | Unplacing job \<Rightarrow> call_unplaced env k job s
      | Cancelling j plan \<Rightarrow> cancel_finished cfg env k j plan s
      | HangingUp entry cid \<Rightarrow> bye_finished env k entry cid s
      | HungUp entry \<Rightarrow> hung_up k entry s
      | Unregistering entries \<Rightarrow>
          (case entries of [] \<Rightarrow> end_out_task k s | entry # rest \<Rightarrow> unregistered env k entry rest s)
      | Reinviting request r \<Rightarrow> reinvite_answered cfg env k request r s
      | ForwardingReinvite request entry req \<Rightarrow>
          reinvite_forwarded env k request entry (ly_send (oe_ext_layer env) req (oc_ext_remote entry)) s
      | Referring entry cid target stage \<Rightarrow> refer_step env k entry cid target stage s)"

definition out_start :: "rate_limiter \<Rightarrow> inbound_bridge call_manager option \<Rightarrow> 32 word \<Rightarrow> call_log option \<Rightarrow> outgoing" where
  "out_start lim mgr counter cl =
     \<lparr>os_next = 0, os_txs = Map.empty, os_tasks = Map.empty, os_registry = out_registry_new, os_ext_dialogs = Map.empty,
      os_ngn_dialogs = Map.empty, os_limiter = lim, os_manager = mgr, os_rtp_counter = counter, os_call_log = cl,
      os_call_active = 0, os_invites = [], os_retries = [], os_5xx = [], os_blocked = 0, os_intervals = [], os_out = [],
      os_to_ngn = [], os_to_ext = [], os_forwarded = [], os_internal = [], os_transfers = [], os_injected = [],
      os_panicked = {}\<rparr>"

fun out_step :: "out_config \<Rightarrow> outgoing \<Rightarrow> 'p out_event \<Rightarrow> outgoing" where
  "out_step cfg s (ExtEvent env ev) = handle_event cfg env ev s"
| "out_step cfg s (NgnBye env cid) =
     (case forward_bye env (os_next s) cid (arrives_out None s) of Some s' \<Rightarrow> s' | None \<Rightarrow> s)"
| "out_step cfg s (NgnReinvite env request) =
     (case forward_reinvite env (os_next s) request (arrives_out None s) of Some s' \<Rightarrow> s' | None \<Rightarrow> s)"
| "out_step cfg s (Resume env k) = (case os_tasks s k of Some t \<Rightarrow> resume_task cfg env k t s | None \<Rightarrow> s)"

end
