(* ===== verification/Ext_Calls.thy ===== *)
theory Ext_Calls
  imports Ext_Outbound Ngn_Calls
begin

text \<open>
  Facts on the handler of what the extensions do: the calls of one extension are placed no closer
  than the limiter allows, and every INVITE for the carrier carries a description the carrier takes.
\<close>

section \<open>What the helpers leave alone\<close>

text \<open>Steps that leave the limiter, the requests for the carrier, the transactions or the tasks as they are.\<close>

lemma ext_respond_frame [simp]:
  "os_next (ext_respond now k r s) = os_next s" "os_tasks (ext_respond now k r s) = os_tasks s"
  "os_registry (ext_respond now k r s) = os_registry s" "os_limiter (ext_respond now k r s) = os_limiter s"
  "os_to_ngn (ext_respond now k r s) = os_to_ngn s" "os_panicked (ext_respond now k r s) = os_panicked s"
  "os_ext_dialogs (ext_respond now k r s) = os_ext_dialogs s" "os_ngn_dialogs (ext_respond now k r s) = os_ngn_dialogs s"
  "os_internal (ext_respond now k r s) = os_internal s"
  by (simp_all add: ext_respond_def split: option.splits)

lemma ext_quick_frame [simp]:
  "os_next (ext_quick env k c w s) = os_next s" "os_tasks (ext_quick env k c w s) = os_tasks s"
  "os_registry (ext_quick env k c w s) = os_registry s" "os_limiter (ext_quick env k c w s) = os_limiter s"
  "os_to_ngn (ext_quick env k c w s) = os_to_ngn s" "os_panicked (ext_quick env k c w s) = os_panicked s"
  "os_ext_dialogs (ext_quick env k c w s) = os_ext_dialogs s" "os_ngn_dialogs (ext_quick env k c w s) = os_ngn_dialogs s"
  "os_internal (ext_quick env k c w s) = os_internal s"
  by (simp_all add: ext_quick_def split: option.splits)

lemma out_books_frame [simp]:
  "os_next (out_count rs s) = os_next s" "os_txs (out_count rs s) = os_txs s" "os_tasks (out_count rs s) = os_tasks s"
  "os_registry (out_count rs s) = os_registry s" "os_limiter (out_count rs s) = os_limiter s"
  "os_to_ngn (out_count rs s) = os_to_ngn s" "os_panicked (out_count rs s) = os_panicked s" "os_internal (out_count rs s) = os_internal s"
  "os_next (count_retry ro s) = os_next s" "os_txs (count_retry ro s) = os_txs s" "os_tasks (count_retry ro s) = os_tasks s"
  "os_registry (count_retry ro s) = os_registry s" "os_limiter (count_retry ro s) = os_limiter s"
  "os_to_ngn (count_retry ro s) = os_to_ngn s" "os_panicked (count_retry ro s) = os_panicked s" "os_internal (count_retry ro s) = os_internal s"
  "os_next (out_dec_active s) = os_next s" "os_txs (out_dec_active s) = os_txs s" "os_tasks (out_dec_active s) = os_tasks s"
  "os_registry (out_dec_active s) = os_registry s" "os_limiter (out_dec_active s) = os_limiter s"
  "os_to_ngn (out_dec_active s) = os_to_ngn s" "os_panicked (out_dec_active s) = os_panicked s" "os_internal (out_dec_active s) = os_internal s"
  by (simp_all add: out_count_def count_retry_def out_dec_active_def)

lemma out_log_frame [simp]:
  "os_next (out_log_start env n cid s) = os_next s" "os_txs (out_log_start env n cid s) = os_txs s"
  "os_tasks (out_log_start env n cid s) = os_tasks s" "os_registry (out_log_start env n cid s) = os_registry s"
  "os_limiter (out_log_start env n cid s) = os_limiter s" "os_to_ngn (out_log_start env n cid s) = os_to_ngn s"
  "os_panicked (out_log_start env n cid s) = os_panicked s" "os_internal (out_log_start env n cid s) = os_internal s"
  "os_next (out_log_end env cid oc s) = os_next s" "os_txs (out_log_end env cid oc s) = os_txs s"
  "os_tasks (out_log_end env cid oc s) = os_tasks s" "os_registry (out_log_end env cid oc s) = os_registry s"
  "os_limiter (out_log_end env cid oc s) = os_limiter s" "os_to_ngn (out_log_end env cid oc s) = os_to_ngn s"
  "os_panicked (out_log_end env cid oc s) = os_panicked s" "os_internal (out_log_end env cid oc s) = os_internal s"
  by (simp_all add: out_log_start_def out_log_end_def)

lemma out_stop_frame [simp]:
  "os_next (out_stop_call b s) = os_next s" "os_txs (out_stop_call b s) = os_txs s" "os_tasks (out_stop_call b s) = os_tasks s"
  "os_registry (out_stop_call b s) = os_registry s" "os_limiter (out_stop_call b s) = os_limiter s"
  "os_to_ngn (out_stop_call b s) = os_to_ngn s" "os_panicked (out_stop_call b s) = os_panicked s"
  "os_internal (out_stop_call b s) = os_internal s"
  by (simp_all add: out_stop_call_def split: option.splits)

lemma out_tasks_frame [simp]:
  "os_next (end_out_task k s) = os_next s" "os_txs (end_out_task k s) = os_txs s" "os_registry (end_out_task k s) = os_registry s"
  "os_limiter (end_out_task k s) = os_limiter s" "os_to_ngn (end_out_task k s) = os_to_ngn s"
  "os_panicked (end_out_task k s) = os_panicked s" "os_tasks (end_out_task k s) = (os_tasks s)(k := None)"
  "os_internal (end_out_task k s) = os_internal s"
  "os_next (set_out_task k t s) = os_next s" "os_txs (set_out_task k t s) = os_txs s" "os_registry (set_out_task k t s) = os_registry s"
  "os_limiter (set_out_task k t s) = os_limiter s" "os_to_ngn (set_out_task k t s) = os_to_ngn s"
  "os_panicked (set_out_task k t s) = os_panicked s" "os_tasks (set_out_task k t s) = (os_tasks s)(k \<mapsto> t)"
  "os_internal (set_out_task k t s) = os_internal s"
  "os_next (out_task_panics k s) = os_next s" "os_txs (out_task_panics k s) = os_txs s" "os_registry (out_task_panics k s) = os_registry s"
  "os_limiter (out_task_panics k s) = os_limiter s" "os_to_ngn (out_task_panics k s) = os_to_ngn s"
  "os_panicked (out_task_panics k s) = insert k (os_panicked s)" "os_tasks (out_task_panics k s) = (os_tasks s)(k := None)"
  "os_internal (out_task_panics k s) = os_internal s"
  by (simp_all add: end_out_task_def set_out_task_def out_task_panics_def)

lemma out_hand_frame [simp]:
  "os_next (hand_to_ngn rs s) = os_next s" "os_txs (hand_to_ngn rs s) = os_txs s" "os_tasks (hand_to_ngn rs s) = os_tasks s"
  "os_registry (hand_to_ngn rs s) = os_registry s" "os_limiter (hand_to_ngn rs s) = os_limiter s"
  "os_panicked (hand_to_ngn rs s) = os_panicked s" "os_to_ngn (hand_to_ngn rs s) = os_to_ngn s @ rs"
  "os_internal (hand_to_ngn rs s) = os_internal s"
  "os_next (hand_to_ext rs s) = os_next s" "os_txs (hand_to_ext rs s) = os_txs s" "os_tasks (hand_to_ext rs s) = os_tasks s"
  "os_registry (hand_to_ext rs s) = os_registry s" "os_limiter (hand_to_ext rs s) = os_limiter s"
  "os_panicked (hand_to_ext rs s) = os_panicked s" "os_to_ngn (hand_to_ext rs s) = os_to_ngn s"
  "os_internal (hand_to_ext rs s) = os_internal s"
  by (simp_all add: hand_to_ngn_def hand_to_ext_def)

lemma bye_ngn_frame [simp]:
  "os_next (bye_ngn env i s) = os_next s" "os_txs (bye_ngn env i s) = os_txs s" "os_tasks (bye_ngn env i s) = os_tasks s"
  "os_registry (bye_ngn env i s) = os_registry s" "os_limiter (bye_ngn env i s) = os_limiter s"
  "os_panicked (bye_ngn env i s) = os_panicked s" "os_internal (bye_ngn env i s) = os_internal s"
  by (simp_all add: bye_ngn_def split: option.splits prod.splits)

lemma notify_frame [simp]:
  "os_next (send_refer_notify env entry a b s) = os_next s" "os_txs (send_refer_notify env entry a b s) = os_txs s"
  "os_tasks (send_refer_notify env entry a b s) = os_tasks s" "os_registry (send_refer_notify env entry a b s) = os_registry s"
  "os_limiter (send_refer_notify env entry a b s) = os_limiter s" "os_to_ngn (send_refer_notify env entry a b s) = os_to_ngn s"
  "os_panicked (send_refer_notify env entry a b s) = os_panicked s" "os_internal (send_refer_notify env entry a b s) = os_internal s"
  by (simp_all add: send_refer_notify_def split: option.splits prod.splits)

lemma teardown_frame [simp]:
  "os_next (teardown_transferred env entry s) = os_next s" "os_txs (teardown_transferred env entry s) = os_txs s"
  "os_tasks (teardown_transferred env entry s) = os_tasks s" "os_registry (teardown_transferred env entry s) = os_registry s"
  "os_limiter (teardown_transferred env entry s) = os_limiter s" "os_to_ngn (teardown_transferred env entry s) = os_to_ngn s"
  "os_panicked (teardown_transferred env entry s) = os_panicked s" "os_internal (teardown_transferred env entry s) = os_internal s"
  by (simp_all add: teardown_transferred_def Let_def split: option.splits prod.splits)

lemma arrives_out_frame [simp]:
  "os_next (arrives_out tx s) = os_next s + 1" "os_tasks (arrives_out tx s) = os_tasks s" "os_registry (arrives_out tx s) = os_registry s"
  "os_limiter (arrives_out tx s) = os_limiter s" "os_to_ngn (arrives_out tx s) = os_to_ngn s"
  "os_panicked (arrives_out tx s) = os_panicked s" "os_internal (arrives_out tx s) = os_internal s"
  by (simp_all add: arrives_out_def)

lemma leave_pending_frame [simp]:
  "os_next (leave_pending job s) = os_next s" "os_txs (leave_pending job s) = os_txs s" "os_tasks (leave_pending job s) = os_tasks s"
  "os_limiter (leave_pending job s) = os_limiter s" "os_to_ngn (leave_pending job s) = os_to_ngn s"
  "os_panicked (leave_pending job s) = os_panicked s" "os_internal (leave_pending job s) = os_internal s"
  by (simp_all add: leave_pending_def)

text \<open>The bridge: only the ports and the manager of calls change.\<close>

definition same_but_media :: "outgoing \<Rightarrow> outgoing \<Rightarrow> bool" where
  "same_but_media s s' \<longleftrightarrow>
     os_next s' = os_next s \<and> os_txs s' = os_txs s \<and> os_tasks s' = os_tasks s \<and> os_registry s' = os_registry s
     \<and> os_limiter s' = os_limiter s \<and> os_to_ngn s' = os_to_ngn s \<and> os_panicked s' = os_panicked s \<and> os_internal s' = os_internal s"

lemma prepare_media: "prepare_outbound_bridge cfg env offer s = (r, s1) \<Longrightarrow> same_but_media s s1"
  by (auto simp: prepare_outbound_bridge_def out_bind_relay_def same_but_media_def Let_def split: if_splits sum.splits prod.splits option.splits)

lemma offer_media: "offer_to_ngn cfg env offer s = (r, s1) \<Longrightarrow> same_but_media s s1"
  by (auto simp: offer_to_ngn_def Let_def dest!: prepare_media split: prod.splits)

lemma finalize_media: "finalize_outbound_bridge env ctx offer answer s = (r, s1) \<Longrightarrow> same_but_media s s1"
  by (auto simp: finalize_outbound_bridge_def same_but_media_def Let_def split: if_splits sum.splits prod.splits option.splits)

section \<open>The limiter\<close>

text \<open>What a step does to the limiter: it asks once, tells an outcome, or leaves it alone.\<close>

definition limiter_told :: "rate_limiter \<Rightarrow> rate_limiter \<Rightarrow> bool" where
  "limiter_told rl rl' \<longleftrightarrow>
     rl' = rl \<or> (\<exists>aor status secs now. rl' = record_failure_at rl aor status secs now) \<or> (\<exists>aor. rl' = record_success rl aor)"

lemma limiter_told_refl [simp]: "limiter_told rl rl"
  by (simp add: limiter_told_def)

lemma refused_told: "limiter_told (os_limiter s) (os_limiter (call_refused env k job response s))"
  unfolding call_refused_def Let_def by (auto simp: limiter_told_def split: option.splits)

lemma lost_told: "limiter_told (os_limiter s) (os_limiter (call_lost env k job s))"
  unfolding call_lost_def Let_def by (auto simp: limiter_told_def)

lemma call_up_limiter: "os_limiter (call_up cfg env k job call s) = os_limiter s"
proof -
  obtain r s1 where f: "finalize_outbound_bridge env (oj_bridge job) (oj_offer job) (resp_body (ec_response call)) s = (r, s1)"
    by fastforce
  then have "os_limiter s1 = os_limiter s" using finalize_media [OF f] by (simp add: same_but_media_def)
  then show ?thesis using f by (auto simp: call_up_def register_call_def Let_def split: sum.splits bridge_error.splits prod.splits)
qed

lemma settle_told: "limiter_told (os_limiter s) (os_limiter (settle_call cfg env k job outcome s))"
proof -
  let ?s0 = "leave_pending job s"
  have l: "os_limiter ?s0 = os_limiter s" by simp
  show ?thesis
  proof (cases outcome)
    case (Inl e)
    then show ?thesis using lost_told [of ?s0 env k job] unfolding l by (simp add: settle_call_def Let_def)
  next
    case (Inr o1)
    show ?thesis
    proof (cases o1)
      case (Established call)
      then show ?thesis
        using Inr by (simp add: settle_call_def Let_def call_up_limiter split: prod.splits) (simp add: limiter_told_def, metis)
    next
      case (InviteFailed response)
      then show ?thesis using Inr refused_told [of ?s0 env k job response] unfolding l by (simp add: settle_call_def Let_def)
    qed
  qed
qed


section \<open>The limiter over a session\<close>

lemma attempt_told:
  "limiter_told (os_limiter s) (os_limiter (first_attempt cfg env k job s))"
  "limiter_told (os_limiter s) (os_limiter (second_attempt cfg env k job plan s))"
  "limiter_told (os_limiter s) (os_limiter (pause_over cfg env k job deadline notified response s))"
proof -
  have t: "limiter_told (os_limiter s) (os_limiter (settle_call cfg env k job r s1))" if "os_limiter s1 = os_limiter s" for r s1
    using settle_told [of s1 cfg env k job r] that by simp
  show "limiter_told (os_limiter s) (os_limiter (first_attempt cfg env k job s))"
    by (auto simp: first_attempt_def Let_def intro!: t split: prod.splits sum.splits invite_outcome.splits retry_decision.splits)
  show "limiter_told (os_limiter s) (os_limiter (second_attempt cfg env k job plan s))"
    by (auto simp: second_attempt_def Let_def intro!: t split: prod.splits)
  show "limiter_told (os_limiter s) (os_limiter (pause_over cfg env k job deadline notified response s))"
    by (auto simp: pause_over_def Let_def intro!: t)
qed

lemma hang_up_limiter [simp]:
  "os_limiter (ext_cancel k request s) = os_limiter s" "os_limiter (cancel_finished cfg env k j plan s) = os_limiter s"
  "os_limiter (ext_bye cfg env k request s) = os_limiter s" "os_limiter (bye_finished env k entry cid s) = os_limiter s"
  "os_limiter (hung_up k entry s) = os_limiter s" "os_limiter (next_unregistered env k entries s) = os_limiter s"
  "os_limiter (ext_unregister env k aor s) = os_limiter s" "os_limiter (unregistered env k entry rest s) = os_limiter s"
  "os_limiter (call_unplaced env k job s) = os_limiter s"
  by (simp_all add: ext_cancel_def cancel_finished_def ext_bye_def bye_finished_def hung_up_def next_unregistered_def
      ext_unregister_def unregistered_def call_unplaced_def Let_def split: option.splits prod.splits list.splits)

lemma in_call_limiter [simp]:
  "os_limiter (ext_reinvite cfg env k request s) = os_limiter s" "os_limiter (reinvite_answered cfg env k request r s) = os_limiter s"
  "os_limiter (reinvite_forwarded env k request entry r' s) = os_limiter s" "os_limiter (ext_refer cfg env k request s) = os_limiter s"
  "os_limiter (refer_step env k entry cid target stage s) = os_limiter s" "os_limiter (ext_info env k request s) = os_limiter s"
  by (simp_all add: ext_reinvite_def reinvite_answered_def reinvite_forwarded_def ext_refer_def refer_step_def refer_over_def
      ext_info_def inject_dtmf_event_to_ngn_def Let_def
      split: option.splits prod.splits sum.splits refer_stage.splits leg_outcome.splits)

lemma forward_limiter:
  "forward_bye env k cid s = Some s' \<Longrightarrow> os_limiter s' = os_limiter s"
  "forward_reinvite env k request s = Some s' \<Longrightarrow> os_limiter s' = os_limiter s"
  by (auto simp: forward_bye_def forward_reinvite_def Let_def split: option.splits prod.splits)

lemma resume_told: "limiter_told (os_limiter s) (os_limiter (resume_task cfg env k t s))"
  by (simp add: resume_task_def attempt_told split: out_task.split list.split)

lemma start_call_limiter [simp]: "os_limiter (start_call cfg env k aor request remote s) = os_limiter s"
proof -
  obtain r s1 where f: "offer_to_ngn cfg env (req_body request) s = (r, s1)" by fastforce
  with offer_media [OF f] show ?thesis by (auto simp: start_call_def Let_def same_but_media_def split: sum.splits prod.splits)
qed

text \<open>An INVITE of an extension asks the limiter at most once, and nothing goes to the carrier when it denies.\<close>

lemma ext_invite_limiter:
  "(os_limiter (ext_invite cfg env k aor request remote s) = os_limiter s
    \<and> os_to_ngn (ext_invite cfg env k aor request remote s) = os_to_ngn s)
   \<or> (\<exists>p. check_and_record_at (os_limiter s) aor (oe_instant env)
        = (Allow p, os_limiter (ext_invite cfg env k aor request remote s)))"
  by (auto simp: ext_invite_def call_denied_def check_Deny split: internal_route.split prod.split rate_limit_decision.split)

text \<open>A session with the log of the calls that were placed: an INVITE of an extension after which something went to the
  carrier.\<close>

fun placed_step :: "out_config \<Rightarrow> outgoing \<times> allow_log \<Rightarrow> 'p out_event \<Rightarrow> outgoing \<times> allow_log" where
  "placed_step cfg (s, lg) e =
     (out_step cfg s e,
      case e of
        ExtEvent env (UasInvite aor request remote tx) \<Rightarrow>
          if os_to_ngn (out_step cfg s e) = os_to_ngn s then lg else lg @ [(aor, oe_instant env)]
      | _ \<Rightarrow> lg)"

definition placed_inv :: "rate_limiter_config \<Rightarrow> outgoing \<times> allow_log \<Rightarrow> bool" where
  "placed_inv rc st \<longleftrightarrow> limiter_inv rc (os_limiter (fst st), snd st)"

lemma limiter_inv_less: "limiter_inv rc (rl, lg @ [x]) \<Longrightarrow> limiter_inv rc (rl, lg)"
  by (cases x) (auto simp: limiter_inv_def sorted_wrt_append split: if_splits)

lemma limiter_inv_told: "limiter_inv rc (rl, lg) \<Longrightarrow> limiter_told rl rl' \<Longrightarrow> limiter_inv rc (rl', lg)"
  using limiter_inv_step [of rc "(rl, lg)" "Failure a c t n" for a c t n] limiter_inv_step [of rc "(rl, lg)" "Success a" for a]
  by (auto simp: limiter_told_def)

lemma event_told:
  assumes "\<nexists>aor request remote tx. ev = UasInvite aor request remote tx"
  shows "os_limiter (handle_event cfg env ev s) = os_limiter s"
  using assms by (cases ev) (auto simp: handle_event_def Let_def)

lemma placed_inv_step:
  assumes i: "placed_inv rc st"
  shows "placed_inv rc (placed_step cfg st e)"
proof -
  obtain s lg where st: "st = (s, lg)" by fastforce
  have l: "limiter_inv rc (os_limiter s, lg)" using i st by (simp add: placed_inv_def)
  show ?thesis
  proof (cases e)
    case (ExtEvent env ev)
    show ?thesis
    proof (cases "\<exists>aor request remote tx. ev = UasInvite aor request remote tx")
      case True
      then obtain aor request remote tx where ev: "ev = UasInvite aor request remote tx" by blast
      let ?s = "arrives_out (Some tx) s"
      let ?s' = "ext_invite cfg env (os_next s) aor request remote ?s"
      have e': "out_step cfg s e = ?s'" using ExtEvent ev by (simp add: handle_event_def)
      consider "os_limiter ?s' = os_limiter s" "os_to_ngn ?s' = os_to_ngn s"
        | p where "check_and_record_at (os_limiter s) aor (oe_instant env) = (Allow p, os_limiter ?s')"
        using ext_invite_limiter [of cfg env "os_next s" aor request remote ?s] by auto
      then show ?thesis
      proof cases
        case 1
        then show ?thesis using l st ExtEvent ev e' by (simp add: placed_inv_def)
      next
        case 2
        from limiter_inv_allow [OF l this] show ?thesis
          using limiter_inv_less st ExtEvent ev e' by (auto simp: placed_inv_def)
      qed
    next
      case False
      then have "os_limiter (handle_event cfg env ev s) = os_limiter s" using event_told by blast
      then show ?thesis using l st ExtEvent False by (cases ev) (simp_all add: placed_inv_def)
    qed
  next
    case (NgnBye env cid)
    then show ?thesis using l st by (auto simp: placed_inv_def dest: forward_limiter split: option.splits)
  next
    case (NgnReinvite env request)
    then show ?thesis using l st by (auto simp: placed_inv_def dest: forward_limiter split: option.splits)
  next
    case (Resume env k)
    then show ?thesis
      using l st limiter_inv_told [OF l resume_told] by (auto simp: placed_inv_def split: option.splits)
  qed
qed

interpretation plm: inv_machine "placed_step cfg" "placed_inv rc" for cfg rc
  by unfold_locales (rule placed_inv_step)

section \<open>What goes to the carrier\<close>

definition carrier_body :: "string \<Rightarrow> bool" where
  "carrier_body b \<longleftrightarrow> b = [] \<or> (\<exists>offer. rewrite_offer for_ngn_with_dtmf offer = Inr b)"

definition carrier_sent :: "handed_requests \<Rightarrow> bool" where
  "carrier_sent rs \<longleftrightarrow> (\<forall>r d. (r, d) \<in> set rs \<longrightarrow> req_method r = Invite \<longrightarrow> carrier_body (req_body r))"

lemma carrier_sent_simps [simp]:
  "carrier_sent []" "carrier_sent ((r, d) # rs) \<longleftrightarrow> (req_method r = Invite \<longrightarrow> carrier_body (req_body r)) \<and> carrier_sent rs"
  "carrier_sent (rs @ qs) \<longleftrightarrow> carrier_sent rs \<and> carrier_sent qs"
  by (auto simp: carrier_sent_def)

definition job_fits :: "out_job \<Rightarrow> bool" where
  "job_fits job \<longleftrightarrow> carrier_body (req_body (ip_request (oj_plan job))) \<and> pred_option carrier_body (oj_sdp job)"

fun task_fits :: "out_task \<Rightarrow> bool" where
  "task_fits (Placing job) = job_fits job"
| "task_fits (Pausing job deadline notified response) = job_fits job"
| "task_fits (Replacing job plan) = (job_fits job \<and> carrier_body (req_body (ip_request plan)))"
| "task_fits t = True"

definition carrier_inv :: "outgoing \<Rightarrow> bool" where
  "carrier_inv s \<longleftrightarrow> carrier_sent (os_to_ngn s) \<and> (\<forall>k. pred_option task_fits (os_tasks s k))"

lemma build_invite_body: "req_body (ip_request (build_invite rl rnd u target sdp n)) = (case sdp of Some b \<Rightarrow> b | None \<Rightarrow> [])"
  by (simp add: build_invite_def Let_def request_new_def split: option.splits)

lemma plan_body: "pred_option carrier_body sdp \<Longrightarrow> carrier_body (req_body (ip_request (build_invite rl rnd u target sdp n)))"
  by (cases sdp) (simp_all add: build_invite_body carrier_body_def)

lemma map_Inr_iff: "map_sum id f r = Inr y \<longleftrightarrow> (\<exists>x. r = Inr x \<and> y = f x)"
  by (cases r) auto

lemma offer_fits:
  assumes "offer_to_ngn cfg env offer s = (Inr (ctx, sdp), s1)"
  shows "pred_option carrier_body sdp"
proof -
  from assms obtain b where "fst b = ctx" "(case b of (ctx', None) \<Rightarrow> Inr (ctx', None)
      | (ctx', Some b) \<Rightarrow> map_sum id (\<lambda>b'. (ctx', Some b')) (rewrite_offer for_ngn_with_dtmf b)) = Inr (ctx, sdp)"
    unfolding offer_to_ngn_def Let_def by (fastforce simp: map_Inr_iff split: prod.splits option.splits)
  then show ?thesis by (auto simp: carrier_body_def map_Inr_iff split: prod.splits option.splits)
qed

lemma reinvite_offer_fits: "reinvite_offer cfg env b = Inr offer \<Longrightarrow> pred_option carrier_body offer"
  by (auto simp: reinvite_offer_def carrier_body_def map_Inr_iff split: if_splits option.splits)

lemma handed_methods:
  "req_method (build_ack_for_2xx d rnd n) = Ack" "req_method (build_cancel q n) = Cancel"
  "req_body (fst (build_reinvite d rnd sdp se mse)) = (case sdp of Some b \<Rightarrow> b | None \<Rightarrow> [])"
  by (simp_all add: build_ack_for_2xx_def build_cancel_def build_reinvite_def fill_common_headers_def request_new_def draw_cseq_def Let_def
      split: prod.splits option.splits)

lemma invite_sent: "carrier_body (req_body (ip_request plan)) \<Longrightarrow> carrier_sent (snd (invite md5 ly rnds u plan))"
  by (auto simp: invite_def finalize_2xx_def finalize_2xx_to_def retry_invite_with_auth_def Let_def handed_methods retry_plan_get
      split: prod.splits sum.splits option.splits)

lemma tl_sent: "carrier_sent rs \<Longrightarrow> carrier_sent (tl rs)"
  by (cases rs) (auto simp: carrier_sent_def)

lemma bye_sent: "carrier_sent (snd (snd (send_bye ly rnd ud)))"
  using build_methods(1) [of "ud_inner ud" rnd] by (auto simp: send_bye_def Let_def split: prod.splits sum.splits)

lemma reinvite_sent: "pred_option carrier_body offer \<Longrightarrow> carrier_sent (snd (snd (send_reinvite ly r1 r2 offer ud)))"
proof -
  assume f: "pred_option carrier_body offer"
  obtain q d where b: "build_reinvite (ud_inner ud) r1 offer (ud_session_expires ud) MIN_SE = (q, d)" by fastforce
  then have "req_body q = (case offer of Some b \<Rightarrow> b | None \<Rightarrow> [])"
    using handed_methods(3) [of "ud_inner ud" r1 offer "ud_session_expires ud" MIN_SE] by simp
  then have "carrier_body (req_body q)" using f by (cases offer) (simp_all add: carrier_body_def)
  then show ?thesis using b by (auto simp: send_reinvite_def handed_methods Let_def split: sum.splits option.splits)
qed

lemma cancel_sent: "carrier_sent (snd (cancel_pending ly tb bs u plan))"
  by (simp add: cancel_pending_def Let_def handed_methods split: sum.splits option.splits wait_result.splits progress.splits)

text \<open>What a step hands to the carrier, and what it leaves in its own task.\<close>

definition fits_step :: "nat \<Rightarrow> outgoing \<Rightarrow> outgoing \<Rightarrow> bool" where
  "fits_step k s s' \<longleftrightarrow>
     (\<forall>j. j \<noteq> k \<longrightarrow> os_tasks s' j = os_tasks s j) \<and> (os_tasks s' k = os_tasks s k \<or> pred_option task_fits (os_tasks s' k))
     \<and> (\<exists>rs. os_to_ngn s' = os_to_ngn s @ rs \<and> carrier_sent rs)"

lemma fits_step_inv: "fits_step k s s' \<Longrightarrow> carrier_inv s \<Longrightarrow> carrier_inv s'"
  unfolding fits_step_def carrier_inv_def by (metis carrier_sent_simps(3))

lemma fits_step_refl [simp]: "fits_step k s s"
  by (simp add: fits_step_def exI [of _ "[]"])

lemma fits_step_trans: "fits_step k s s1 \<Longrightarrow> fits_step k s1 s2 \<Longrightarrow> fits_step k s s2"
  unfolding fits_step_def by (metis append_assoc carrier_sent_simps(3))

lemma fits_helpers [simp]:
  "fits_step k s (ext_respond now j r s') \<longleftrightarrow> fits_step k s s'" "fits_step k s (ext_quick env j c w s') \<longleftrightarrow> fits_step k s s'"
  "fits_step k s (out_count rs s') \<longleftrightarrow> fits_step k s s'" "fits_step k s (count_retry ro s') \<longleftrightarrow> fits_step k s s'"
  "fits_step k s (out_dec_active s') \<longleftrightarrow> fits_step k s s'" "fits_step k s (out_log_start env n cid s') \<longleftrightarrow> fits_step k s s'"
  "fits_step k s (out_log_end env cid oc s') \<longleftrightarrow> fits_step k s s'" "fits_step k s (out_stop_call b s') \<longleftrightarrow> fits_step k s s'"
  "fits_step k s (hand_to_ext qs s') \<longleftrightarrow> fits_step k s s'" "fits_step k s (teardown_transferred env entry s') \<longleftrightarrow> fits_step k s s'"
  "fits_step k s (send_refer_notify env entry l1 l2 s') \<longleftrightarrow> fits_step k s s'"
  "fits_step k s (leave_pending job s') \<longleftrightarrow> fits_step k s s'" "fits_step k s (arrives_out tx s') \<longleftrightarrow> fits_step k s s'"
  "fits_step k (arrives_out tx s) s' \<longleftrightarrow> fits_step k s s'"
  by (simp_all add: fits_step_def)

lemma fits_update [simp]:
  "fits_step k s (s'\<lparr>os_registry := x1\<rparr>) \<longleftrightarrow> fits_step k s s'" "fits_step k s (s'\<lparr>os_limiter := x2\<rparr>) \<longleftrightarrow> fits_step k s s'"
  "fits_step k s (s'\<lparr>os_ext_dialogs := x3\<rparr>) \<longleftrightarrow> fits_step k s s'" "fits_step k s (s'\<lparr>os_ngn_dialogs := x4\<rparr>) \<longleftrightarrow> fits_step k s s'"
  "fits_step k s (s'\<lparr>os_blocked := x5\<rparr>) \<longleftrightarrow> fits_step k s s'" "fits_step k s (s'\<lparr>os_intervals := x6\<rparr>) \<longleftrightarrow> fits_step k s s'"
  "fits_step k s (s'\<lparr>os_5xx := x7\<rparr>) \<longleftrightarrow> fits_step k s s'" "fits_step k s (s'\<lparr>os_internal := x8\<rparr>) \<longleftrightarrow> fits_step k s s'"
  "fits_step k s (s'\<lparr>os_transfers := x9\<rparr>) \<longleftrightarrow> fits_step k s s'" "fits_step k s (s'\<lparr>os_forwarded := x10\<rparr>) \<longleftrightarrow> fits_step k s s'"
  "fits_step k s (s'\<lparr>os_call_active := x11\<rparr>) \<longleftrightarrow> fits_step k s s'" "fits_step k s (s'\<lparr>os_injected := x12\<rparr>) \<longleftrightarrow> fits_step k s s'"
  by (simp_all add: fits_step_def)

text \<open>The steps that do change what the relation speaks of.\<close>

lemma fits_intros [intro!]:
  "fits_step k s s' \<Longrightarrow> fits_step k s (end_out_task k s')"
  "task_fits t \<Longrightarrow> fits_step k s s' \<Longrightarrow> fits_step k s (set_out_task k t s')"
  "fits_step k s s' \<Longrightarrow> fits_step k s (out_task_panics k s')"
  "carrier_sent rs \<Longrightarrow> fits_step k s s' \<Longrightarrow> fits_step k s (hand_to_ngn rs s')"
  by (auto simp: fits_step_def)

lemma fits_media: "same_but_media s s1 \<Longrightarrow> fits_step k s s1"
  by (simp add: fits_step_def same_but_media_def exI [of _ "[]"])

lemma bye_ngn_fits: "fits_step k s s' \<Longrightarrow> fits_step k s (bye_ngn env i s')"
proof (cases "os_ngn_dialogs s' i")
  case (Some ud)
  assume "fits_step k s s'"
  then show ?thesis
    using Some bye_sent [of "oe_layer env" "oe_branch env" ud] by (auto simp: bye_ngn_def Let_def split: prod.splits)
qed (simp add: bye_ngn_def)

lemma start_call_fits: "fits_step k s (start_call cfg env k aor request remote s)"
proof -
  obtain r s1 where f: "offer_to_ngn cfg env (req_body request) s = (r, s1)" by fastforce
  note m = fits_media [OF offer_media [OF f], of k]
  show ?thesis
  proof (cases r)
    case (Inr x)
    obtain ctx sdp where x: "x = (ctx, sdp)" by fastforce
    with f Inr have "pred_option carrier_body sdp" by (auto dest: offer_fits)
    then show ?thesis using f m Inr x by (auto simp: start_call_def Let_def job_fits_def intro: plan_body)
  qed (use f m in \<open>auto simp: start_call_def Let_def\<close>)
qed

lemma ext_invite_fits: "fits_step k s (ext_invite cfg env k aor request remote s)"
  by (auto simp: ext_invite_def call_denied_def intro: fits_step_trans [OF _ start_call_fits]
      split: internal_route.splits prod.splits rate_limit_decision.splits)

lemma call_up_fits: "fits_step k s (call_up cfg env k job call s)"
proof -
  obtain r s1 where f: "finalize_outbound_bridge env (oj_bridge job) (oj_offer job) (resp_body (ec_response call)) s = (r, s1)"
    by fastforce
  note m = fits_media [OF finalize_media [OF f], of k]
  show ?thesis using f m by (auto simp: call_up_def register_call_def Let_def split: sum.splits bridge_error.splits prod.splits)
qed

lemma call_over_fits: "fits_step k s (call_refused env k job response s)" "fits_step k s (call_lost env k job s)"
  by (auto simp: call_refused_def call_lost_def Let_def split: option.splits)

lemmas fits_parts = fits_step_trans [OF _ call_over_fits(1)] fits_step_trans [OF _ call_over_fits(2)] fits_step_trans [OF _ call_up_fits]

lemma settle_fits: "fits_step k s (settle_call cfg env k job outcome s)"
proof -
  have b: "carrier_sent rs" if "send_bye ly rnd ud = (r, ud', rs)" for ly rnd ud r ud' rs
    using bye_sent [of ly rnd ud] that by simp
  show ?thesis
    by (auto simp: settle_call_def Let_def intro!: fits_parts b split: sum.splits invite_outcome.splits prod.splits)
qed

lemmas fits_settle = fits_step_trans [OF _ settle_fits]

lemma invite_tl_sent:
  "invite md5 ly rnds u plan = (r, rs) \<Longrightarrow> carrier_body (req_body (ip_request plan)) \<Longrightarrow> carrier_sent (tl rs)"
  using invite_sent [of plan md5 ly rnds u] tl_sent [of rs] by simp

lemma attempt_fits:
  "job_fits job \<Longrightarrow> fits_step k s (first_attempt cfg env k job s)"
  "carrier_body (req_body (ip_request plan)) \<Longrightarrow> fits_step k s (second_attempt cfg env k job plan s)"
  "job_fits job \<Longrightarrow> fits_step k s (pause_over cfg env k job deadline notified response s)"
proof -
  show "job_fits job \<Longrightarrow> fits_step k s (first_attempt cfg env k job s)"
    by (auto simp: first_attempt_def Let_def job_fits_def intro!: fits_settle
        dest: invite_tl_sent split: prod.splits sum.splits invite_outcome.splits retry_decision.splits)
  show "carrier_body (req_body (ip_request plan)) \<Longrightarrow> fits_step k s (second_attempt cfg env k job plan s)"
    by (auto simp: second_attempt_def Let_def intro!: fits_settle dest: invite_tl_sent split: prod.splits)
  show "job_fits job \<Longrightarrow> fits_step k s (pause_over cfg env k job deadline notified response s)"
    by (auto simp: pause_over_def Let_def job_fits_def intro!: fits_settle plan_body)
qed

lemma hang_up_fits:
  "fits_step k s (ext_bye cfg env k request s)" "fits_step k s (bye_finished env k entry cid s)" "fits_step k s (hung_up k entry s)"
  "fits_step k s (ext_unregister env k aor s)" "fits_step k s (unregistered env k entry rest s)"
  "fits_step k s (call_unplaced env k job s)" "fits_step k s (cancel_finished cfg env k j plan s)"
proof -
  have n: "fits_step k s (next_unregistered env k entries s')" if "fits_step k s s'" for entries s'
    using that by (auto simp: next_unregistered_def intro: bye_ngn_fits split: list.split)
  have c: "carrier_sent rs" if "cancel_pending ly tb bs u p = (r, rs)" for ly tb bs u p r rs
    using cancel_sent [of ly tb bs u p] that by simp
  show "fits_step k s (ext_bye cfg env k request s)"
    by (auto simp: ext_bye_def Let_def intro!: bye_ngn_fits split: option.splits prod.splits)
  show "fits_step k s (bye_finished env k entry cid s)" "fits_step k s (hung_up k entry s)" "fits_step k s (call_unplaced env k job s)"
    by (auto simp: bye_finished_def hung_up_def call_unplaced_def)
  show "fits_step k s (ext_unregister env k aor s)" "fits_step k s (unregistered env k entry rest s)"
    by (auto simp: ext_unregister_def unregistered_def Let_def intro!: n split: prod.splits)
  show "fits_step k s (cancel_finished cfg env k j plan s)"
    by (auto simp: cancel_finished_def Let_def intro!: c split: prod.splits)
qed

lemma in_call_fits:
  "fits_step k s (ext_reinvite cfg env k request s)" "fits_step k s (reinvite_answered cfg env k request r s)"
  "fits_step k s (reinvite_forwarded env k request entry r' s)" "fits_step k s (ext_refer cfg env k request s)"
  "fits_step k s (refer_step env k entry cid target stage s)" "fits_step k s (ext_info env k request s)"
proof -
  have r: "carrier_sent rs" if "send_reinvite ly r1 r2 offer ud = (r, ud', rs)" "reinvite_offer cfg env b = Inr offer"
    for ly r1 r2 offer ud r ud' rs b
    using reinvite_sent [OF reinvite_offer_fits [OF that(2)], of ly r1 r2 ud] that(1) by simp
  show "fits_step k s (ext_reinvite cfg env k request s)"
    by (auto simp: ext_reinvite_def Let_def dest: r split: option.splits prod.splits sum.splits)
  show "fits_step k s (reinvite_answered cfg env k request r s)" "fits_step k s (reinvite_forwarded env k request entry r' s)"
    "fits_step k s (ext_refer cfg env k request s)" "fits_step k s (ext_info env k request s)"
    by (auto simp: reinvite_answered_def reinvite_forwarded_def ext_refer_def ext_info_def inject_dtmf_event_to_ngn_def Let_def
        split: option.splits prod.splits sum.splits)
  show "fits_step k s (refer_step env k entry cid target stage s)"
    by (auto simp: refer_step_def refer_over_def Let_def intro!: bye_ngn_fits split: refer_stage.splits option.splits leg_outcome.splits)
qed

lemma forward_fits:
  "forward_bye env k cid s = Some s' \<Longrightarrow> fits_step k s s'"
  "forward_reinvite env k request s = Some s' \<Longrightarrow> fits_step k s s'"
  by (auto simp: forward_bye_def forward_reinvite_def Let_def split: option.splits prod.splits)

lemma forward_inv:
  "carrier_inv s \<Longrightarrow> forward_bye env k cid (arrives_out tx s) = Some s' \<Longrightarrow> carrier_inv s'"
  "carrier_inv s \<Longrightarrow> forward_reinvite env k request (arrives_out tx s) = Some s' \<Longrightarrow> carrier_inv s'"
  by (frule forward_fits, erule fits_step_inv, simp add: carrier_inv_def)+

lemma cancel_job_fits: "pred_option task_fits t \<Longrightarrow> pred_option (task_fits \<circ> cancel_job) t"
proof -
  have "task_fits u \<Longrightarrow> task_fits (cancel_job u)" for u by (cases u) (simp_all add: job_fits_def)
  then show "pred_option task_fits t \<Longrightarrow> pred_option (task_fits \<circ> cancel_job) t" by (cases t) simp_all
qed

lemma ext_cancel_inv: "carrier_inv s \<Longrightarrow> carrier_inv (ext_cancel k request s)"
  by (auto simp: ext_cancel_def carrier_inv_def option.pred_map intro: cancel_job_fits split: option.splits)

lemma resume_fits: "task_fits t \<Longrightarrow> fits_step k s (resume_task cfg env k t s)"
  by (cases t) (auto simp: resume_task_def attempt_fits hang_up_fits in_call_fits split: list.splits)

lemma handle_inv:
  assumes i: "carrier_inv s"
  shows "carrier_inv (handle_event cfg env ev s)"
proof -
  have a: "carrier_inv (f (arrives_out tx s))" if "\<And>s. fits_step (os_next s') s (f s)" for f tx s'
    using that [of "arrives_out tx s"] fits_step_inv [OF _ i] by simp
  have "carrier_inv (arrives_out tx s)" for tx using i by (simp add: carrier_inv_def)
  then show ?thesis
    using i by (cases ev)
      (simp_all add: handle_event_def Let_def a [where s' = s] ext_invite_fits hang_up_fits in_call_fits ext_cancel_inv)
qed

lemma carrier_inv_step: "carrier_inv s \<Longrightarrow> carrier_inv (out_step cfg s e)"
proof (cases e)
  case (Resume env k)
  assume i: "carrier_inv s"
  show ?thesis
  proof (cases "os_tasks s k")
    case (Some t)
    then have "task_fits t" using i by (auto simp: carrier_inv_def option.pred_set)
    from fits_step_inv [OF resume_fits [OF this] i] show ?thesis using Resume Some by simp
  qed (use Resume i in simp)
next
  case (NgnBye env cid)
  assume "carrier_inv s"
  then show ?thesis using NgnBye forward_inv(1) [of s env] by (auto split: option.splits)
next
  case (NgnReinvite env request)
  assume "carrier_inv s"
  then show ?thesis using NgnReinvite forward_inv(2) [of s env] by (auto split: option.splits)
qed (simp add: handle_inv)

interpretation cam: inv_machine "out_step cfg" carrier_inv for cfg
  by unfold_locales (rule carrier_inv_step)

section \<open>An example\<close>

definition out_config_ex :: out_config where
  "out_config_ex = \<lparr>oh_uac = uac_ex, oh_md5 = id, oh_layer = True, oh_layer_addr = None, oh_ext_addr = None, oh_ngn_bind_ip = None,
     oh_ext_bind_ip = None, oh_intercom = None, oh_registrar = False, oh_inviter = False, oh_aliases = Map.empty\<rparr>"

definition out_env_ex :: "nat \<Rightarrow> unit out_env" where
  "out_env_ex now = \<lparr>oe_uas = env_ex now, oe_instant = now, oe_rnd = \<lparr>ur_call_id = 3, ur_tag = 4, ur_branch = 5\<rparr>,
     oe_invite_rnds = (6, 7, 8), oe_branch = 9, oe_branch2 = 10, oe_jitter = 0, oe_routes = reg_client_new 1 2,
     oe_layer = layer_ex, oe_ext_layer = layer_ex, oe_table = table_empty, oe_batches = [], oe_bindings = registrar_new,
     oe_free = (\<lambda>_. True), oe_system_ports = [], oe_ext_port = (\<lambda>_. None), oe_bridge_ok = True, oe_order = [],
     oe_leg = LegErrored\<rparr>"

definition ext_call_ex :: sip_request where
  "ext_call_ex = \<lparr>req_method = Invite, req_uri = ''sip:117@h'',
     req_headers = [(''via'', via_ex), (''call-id'', ''c1'')], req_body = serialize sdp_ex\<rparr>"

definition ext_tx_ex :: server_tx where
  "ext_tx_ex = \<lparr>st_id = plan_id_ex, st_request = ext_call_ex, st_response_dest = remote_ex, st_response_via = via_ex,
     st_state = SrvProceeding, st_last_response = None, st_timer = None\<rparr>"

abbreviation out_start_ex :: outgoing where
  "out_start_ex \<equiv> out_start limiter_new None 0 None"

abbreviation placed_ex :: "unit out_event" where
  "placed_ex \<equiv> ExtEvent (out_env_ex 0) (UasInvite ''a'' ext_call_ex remote_ex ext_tx_ex)"

lemma offer_ex:
  assumes "os_manager s = None"
  shows "\<exists>b. offer_to_ngn out_config_ex (out_env_ex now) (serialize sdp_ex) s = (Inr (None, Some b), s) \<and> b \<noteq> []"
proof -
  have r: "read_sdp (serialize sdp_ex) = Inr sdp_ex" by (rule read_serialize [OF good_sdp_ex])
  then have p: "sdp_parse (if valid_utf8 (serialize sdp_ex) then serialize sdp_ex else []) = Inr sdp_ex"
    by (simp add: read_sdp_def split: if_splits)
  have ne: "serialize d \<noteq> []" for d by (simp add: serialize_def serialize_lines_def)
  let ?ip = "sa_ip (uc_local_addr (ua_config uac_ex))"
  have "\<exists>b1 s1. rewrite_rtp_endpoint 0 (serialize sdp_ex) ?ip 30000 = Inr b1 \<and> read_sdp b1 = Inr s1"
    using relay_endpoint_exact [OF r, of ?ip 30000 0] by (auto simp: uac_ex_def)
  then obtain b1 s1 where b1: "rewrite_rtp_endpoint 0 (serialize sdp_ex) ?ip 30000 = Inr b1" "read_sdp b1 = Inr s1" by blast
  then have f: "force_rewrite_sdp_for_ngn 0 (serialize sdp_ex) ?ip = Inr (Some b1)"
    using ne p by (simp add: force_rewrite_sdp_for_ngn_def sdp_ex_audio Let_def) (simp add: sdp_ex_def)
  have "rewrite_offer for_ngn_with_dtmf b1 = Inr (serialize (negotiate for_ngn_with_dtmf s1))"
    using b1(2) by (simp add: rewrite_offer_def negotiator_apply_def best_effort_def)
  then show ?thesis
    using f ne assms
    by (simp add: offer_to_ngn_def prepare_outbound_bridge_def out_config_ex_def out_env_ex_def out_wall_secs_def env_ex_def Let_def)
qed

lemma call_placed_ex:
  "\<exists>job. os_tasks (out_step out_config_ex out_start_ex placed_ex) 0 = Some (Placing job)
     \<and> get_pending (os_registry (out_step out_config_ex out_start_ex placed_ex)) ''c1'' = Some 0
     \<and> os_next (out_step out_config_ex out_start_ex placed_ex) = 1
     \<and> os_to_ngn (out_step out_config_ex out_start_ex placed_ex) = [(ip_request (oj_plan job), remote_ex)]
     \<and> req_method (ip_request (oj_plan job)) = Invite \<and> req_body (ip_request (oj_plan job)) \<noteq> []"
proof -
  have c: "request_call_id ''<no-call-id>'' ext_call_ex = ''c1''" "req_body ext_call_ex = serialize sdp_ex"
    by (simp_all add: request_call_id_def ext_call_ex_def hdr_get_def hdr_simps)
  have u: "ua_server_addr (oh_uac out_config_ex) = remote_ex" by (simp add: out_config_ex_def uac_ex_def)
  have route: "route_inside out_config_ex (out_env_ex 0) ''a'' ext_call_ex = Outside"
    by (simp add: route_inside_def out_config_ex_def)
  obtain l1 where lim: "check_and_record_at limiter_new ''a'' 0 = (Allow None, l1)"
    by (simp add: check_and_record_at_def limiter_new_def with_config_def)
  let ?s = "(arrives_out (Some ext_tx_ex) out_start_ex)\<lparr>os_limiter := l1, os_intervals := []\<rparr>"
  obtain b where b: "offer_to_ngn out_config_ex (out_env_ex 0) (serialize sdp_ex) ?s = (Inr (None, Some b), ?s)" "b \<noteq> []"
    using offer_ex [of ?s 0] by (auto simp: arrives_out_def out_start_def)
  have f: "os_next out_start_ex = 0" "os_limiter (arrives_out (Some ext_tx_ex) out_start_ex) = limiter_new"
    "os_intervals (arrives_out (Some ext_tx_ex) out_start_ex) = []" "oe_instant (out_env_ex 0) = 0"
    by (simp_all add: out_start_def arrives_out_def out_env_ex_def)
  have e: "out_step out_config_ex out_start_ex placed_ex
      = start_call out_config_ex (out_env_ex 0) 0 ''a'' ext_call_ex remote_ex ?s"
    by (subst out_step.simps, simp only: handle_event_def f(1) Let_def uas_event.case, simp only: ext_invite_def route f lim)
      (simp only: f prod.case internal_route.case rate_limit_decision.case option.case append.simps)
  have g: "os_next ?s = 1" "os_to_ngn ?s = []" "os_registry ?s = out_registry_new" by (simp_all add: out_start_def)
  show ?thesis
    unfolding e using b g by (simp add: start_call_def c u Let_def build_invite_get build_invite_body insert_pending_def get_pending_def)
qed

section \<open>Properties\<close>

text \<open>C8. Whatever the extensions and the carrier do, two calls that the program places towards the
  carrier for the same extension are at least the minimal interval of the limiter apart: the
  limiter is asked before anything is sent, and no other step makes it forget a call.\<close>

theorem outgoing_calls_spaced:
  "sorted_wrt (\<lambda>a b. a + rc_min_interval rc \<le> b)
     (allows aor (snd (run_steps (placed_step cfg) (out_start (with_config rc) mgr counter cl, []) evs)))"
proof -
  have "placed_inv rc (out_start (with_config rc) mgr counter cl, [])"
    by (simp add: placed_inv_def limiter_inv_def with_config_def out_start_def)
  from plm.run_inv [OF this, of cfg evs] show ?thesis by (auto simp: placed_inv_def limiter_inv_def)
qed



end
