(* ===== verification/Ext_Cancel.thy ===== *)
theory Ext_Cancel
  imports Ext_Calls
begin

text \<open>
  What a CANCEL of an extension does to the call it is about: the call is found while it is being
  placed, and from then on it is not answered, whatever the carrier says.
\<close>

section \<open>Calls that are being placed\<close>

definition said_ok :: "outgoing \<Rightarrow> nat \<Rightarrow> bool" where
  "said_ok s j \<longleftrightarrow> (\<exists>tx r. os_txs s j = Some tx \<and> st_last_response tx = Some r \<and> is_2xx r)"

fun pending_job :: "out_task \<Rightarrow> out_job option" where
  "pending_job (Placing job) = Some job"
| "pending_job (Pausing job deadline notified response) = Some job"
| "pending_job (Replacing job plan) = Some job"
| "pending_job t = None"

fun pause_fine :: "out_task \<Rightarrow> bool" where
  "pause_fine (Pausing job deadline notified response) = (\<not> is_2xx response)"
| "pause_fine t = True"

definition no_job :: "outgoing \<Rightarrow> nat \<Rightarrow> bool" where
  "no_job s k \<longleftrightarrow> pred_option (\<lambda>t. pending_job t = None) (os_tasks s k)"

text \<open>Nothing of the call has been told or kept.\<close>

definition unheard :: "outgoing \<Rightarrow> nat \<Rightarrow> bool" where
  "unheard s k \<longleftrightarrow>
     \<not> said_ok s k \<and> os_ext_dialogs s k = None \<and> (\<forall>c e. or_by_ext (os_registry s) c = Some e \<longrightarrow> oc_id e \<noteq> k)"

definition call_fine :: "outgoing \<Rightarrow> nat \<Rightarrow> bool" where
  "call_fine s k \<longleftrightarrow>
     (\<forall>t job. os_tasks s k = Some t \<longrightarrow> pending_job t = Some job \<longrightarrow> unheard s k \<and> pause_fine t)
     \<and> (\<forall>c. or_pending (os_registry s) c = Some k \<longrightarrow>
          c \<noteq> [] \<and> c \<noteq> ''<no-call-id>''
          \<and> (\<exists>t job. os_tasks s k = Some t \<and> pending_job t = Some job \<and> oj_call_id job = c))"

definition placing_inv :: "outgoing \<Rightarrow> bool" where
  "placing_inv s \<longleftrightarrow>
     (\<forall>k \<ge> os_next s. os_tasks s k = None \<and> os_ext_dialogs s k = None)
     \<and> (\<forall>c e. or_by_ext (os_registry s) c = Some e \<longrightarrow> oc_id e < os_next s)
     \<and> (\<forall>k. call_fine s k)"

text \<open>A step of one task: the calls of the others stay as they are.\<close>

definition reg_near :: "nat \<Rightarrow> 'a out_registry \<Rightarrow> 'a out_registry \<Rightarrow> bool" where
  "reg_near k r r' \<longleftrightarrow>
     (\<forall>c e. or_by_ext r' c = Some e \<longrightarrow> or_by_ext r c = Some e \<or> oc_id e = k)
     \<and> (\<forall>c j. or_pending r' c = Some j \<longrightarrow> or_pending r c = Some j)"

definition near :: "nat \<Rightarrow> outgoing \<Rightarrow> outgoing \<Rightarrow> bool" where
  "near k s s' \<longleftrightarrow>
     os_next s' = os_next s
     \<and> (\<forall>j. j \<noteq> k \<longrightarrow> os_tasks s' j = os_tasks s j \<and> (said_ok s' j \<longrightarrow> said_ok s j)
          \<and> (os_ext_dialogs s j = None \<longrightarrow> os_ext_dialogs s' j = None))
     \<and> reg_near k (os_registry s) (os_registry s')"

lemma reg_near_refl [simp]: "reg_near k r r"
  by (simp add: reg_near_def)

lemma near_refl [simp]: "near k s s"
  by (simp add: near_def)

lemma near_trans: "near k s s1 \<Longrightarrow> near k s1 s2 \<Longrightarrow> near k s s2"
  unfolding near_def reg_near_def by simp blast

lemma respond_class: "\<exists>r'. st_last_response (snd (respond tx r now)) = Some r' \<and> is_2xx r' = is_2xx r"
  by (auto simp: respond_def start_completed_timers_def is_2xx_def Let_def)

lemma said_respond [simp]:
  "said_ok (ext_respond now k r s) j \<longleftrightarrow> (if j = k \<and> os_txs s k \<noteq> None then is_2xx r else said_ok s j)"
proof (cases "os_txs s k")
  case (Some tx)
  then show ?thesis using respond_class [of tx r now] by (auto simp: said_ok_def ext_respond_def)
qed (simp add: ext_respond_def)

lemma said_quick [simp]:
  "said_ok (ext_quick env k code why s) j
     \<longleftrightarrow> (if j = k \<and> os_txs s k \<noteq> None then 200 \<le> code \<and> code < 300 else said_ok s j)"
proof (cases "os_txs s k")
  case (Some tx)
  let ?q = "build_response_skeleton (ue_to (oe_uas env)) (st_request tx) code why"
  let ?r = "if code \<noteq> 100 then uas_ensure_to_tag (ue_tag (oe_uas env)) ?q else ?q"
  have "is_2xx ?r = (200 \<le> code \<and> code < 300)" by (simp add: is_2xx_def)
  moreover have "quick (oe_uas env) tx code why = respond tx ?r (ue_now (oe_uas env))" by (simp only: quick_def Let_def)
  ultimately have "\<exists>r'. st_last_response (snd (quick (oe_uas env) tx code why)) = Some r' \<and> is_2xx r' = (200 \<le> code \<and> code < 300)"
    using respond_class [of tx ?r "ue_now (oe_uas env)"] by metis
  then show ?thesis using Some by (auto simp: said_ok_def ext_quick_def)
qed (simp add: ext_quick_def)

text \<open>What the helpers leave alone here.\<close>

lemma said_same: "os_txs s' = os_txs s \<Longrightarrow> said_ok s' j = said_ok s j"
  by (simp add: said_ok_def)

lemma said_frame [simp]:
  "said_ok (out_count rs s) j = said_ok s j" "said_ok (count_retry ro s) j = said_ok s j" "said_ok (out_dec_active s) j = said_ok s j"
  "said_ok (out_log_start env n cid s) j = said_ok s j" "said_ok (out_log_end env cid oc s) j = said_ok s j"
  "said_ok (out_stop_call b s) j = said_ok s j" "said_ok (end_out_task k s) j = said_ok s j" "said_ok (set_out_task k t s) j = said_ok s j"
  "said_ok (out_task_panics k s) j = said_ok s j" "said_ok (hand_to_ngn qs s) j = said_ok s j" "said_ok (hand_to_ext qs s) j = said_ok s j"
  "said_ok (bye_ngn env i s) j = said_ok s j" "said_ok (send_refer_notify env entry l1 l2 s) j = said_ok s j"
  "said_ok (teardown_transferred env entry s) j = said_ok s j" "said_ok (leave_pending job s) j = said_ok s j"
  by (rule said_same, simp)+

lemma said_update [simp]:
  "said_ok (s\<lparr>os_registry := x1\<rparr>) j = said_ok s j" "said_ok (s\<lparr>os_limiter := x2\<rparr>) j = said_ok s j"
  "said_ok (s\<lparr>os_ext_dialogs := x3\<rparr>) j = said_ok s j" "said_ok (s\<lparr>os_ngn_dialogs := x4\<rparr>) j = said_ok s j"
  "said_ok (s\<lparr>os_blocked := x5\<rparr>) j = said_ok s j" "said_ok (s\<lparr>os_intervals := x6\<rparr>) j = said_ok s j"
  "said_ok (s\<lparr>os_5xx := x7\<rparr>) j = said_ok s j" "said_ok (s\<lparr>os_internal := x8\<rparr>) j = said_ok s j"
  "said_ok (s\<lparr>os_transfers := x9\<rparr>) j = said_ok s j" "said_ok (s\<lparr>os_forwarded := x10\<rparr>) j = said_ok s j"
  "said_ok (s\<lparr>os_call_active := x11\<rparr>) j = said_ok s j" "said_ok (s\<lparr>os_injected := x12\<rparr>) j = said_ok s j"
  "said_ok (s\<lparr>os_tasks := x13\<rparr>) j = said_ok s j"
  by (simp_all add: said_ok_def)

lemma ext_dialogs_frame [simp]:
  "os_ext_dialogs (out_count rs s) = os_ext_dialogs s" "os_ext_dialogs (count_retry ro s) = os_ext_dialogs s"
  "os_ext_dialogs (out_dec_active s) = os_ext_dialogs s" "os_ext_dialogs (out_log_start env n cid s) = os_ext_dialogs s"
  "os_ext_dialogs (out_log_end env cid oc s) = os_ext_dialogs s" "os_ext_dialogs (out_stop_call b s) = os_ext_dialogs s"
  "os_ext_dialogs (end_out_task k s) = os_ext_dialogs s" "os_ext_dialogs (set_out_task k t s) = os_ext_dialogs s"
  "os_ext_dialogs (out_task_panics k s) = os_ext_dialogs s" "os_ext_dialogs (hand_to_ngn qs s) = os_ext_dialogs s"
  "os_ext_dialogs (hand_to_ext qs s) = os_ext_dialogs s" "os_ext_dialogs (bye_ngn env i s) = os_ext_dialogs s"
  "os_ext_dialogs (leave_pending job s) = os_ext_dialogs s" "os_ext_dialogs (arrives_out tx s) = os_ext_dialogs s"
  by (simp_all add: out_count_def count_retry_def out_dec_active_def out_log_start_def out_log_end_def out_stop_call_def end_out_task_def
      set_out_task_def out_task_panics_def hand_to_ngn_def hand_to_ext_def bye_ngn_def leave_pending_def arrives_out_def
      split: option.splits prod.splits)

lemma near_helpers [simp]:
  "near k s (ext_respond now k r s') \<longleftrightarrow> near k s s'" "near k s (ext_quick env k c w s') \<longleftrightarrow> near k s s'"
  "near k s (out_count rs s') \<longleftrightarrow> near k s s'" "near k s (count_retry ro s') \<longleftrightarrow> near k s s'"
  "near k s (out_dec_active s') \<longleftrightarrow> near k s s'" "near k s (out_log_start env n cid s') \<longleftrightarrow> near k s s'"
  "near k s (out_log_end env cid oc s') \<longleftrightarrow> near k s s'" "near k s (out_stop_call b s') \<longleftrightarrow> near k s s'"
  "near k s (end_out_task k s') \<longleftrightarrow> near k s s'" "near k s (set_out_task k t s') \<longleftrightarrow> near k s s'"
  "near k s (out_task_panics k s') \<longleftrightarrow> near k s s'" "near k s (hand_to_ngn qs s') \<longleftrightarrow> near k s s'"
  "near k s (hand_to_ext qs s') \<longleftrightarrow> near k s s'" "near k s (bye_ngn env i s') \<longleftrightarrow> near k s s'"
  by (simp_all add: near_def)

lemma near_refusal: "near k s s' \<Longrightarrow> \<not> (200 \<le> code \<and> code < 300) \<Longrightarrow> near k s (ext_quick env j code w s')"
  by (auto simp: near_def)

lemma near_update [simp]:
  "near k s (s'\<lparr>os_limiter := x2\<rparr>) \<longleftrightarrow> near k s s'" "near k s (s'\<lparr>os_ngn_dialogs := x4\<rparr>) \<longleftrightarrow> near k s s'"
  "near k s (s'\<lparr>os_blocked := x5\<rparr>) \<longleftrightarrow> near k s s'" "near k s (s'\<lparr>os_intervals := x6\<rparr>) \<longleftrightarrow> near k s s'"
  "near k s (s'\<lparr>os_5xx := x7\<rparr>) \<longleftrightarrow> near k s s'" "near k s (s'\<lparr>os_internal := x8\<rparr>) \<longleftrightarrow> near k s s'"
  "near k s (s'\<lparr>os_transfers := x9\<rparr>) \<longleftrightarrow> near k s s'" "near k s (s'\<lparr>os_forwarded := x10\<rparr>) \<longleftrightarrow> near k s s'"
  "near k s (s'\<lparr>os_call_active := x11\<rparr>) \<longleftrightarrow> near k s s'" "near k s (s'\<lparr>os_injected := x12\<rparr>) \<longleftrightarrow> near k s s'"
  by (simp_all add: near_def)

text \<open>The registry: an operation takes calls away, or adds the one of the task.\<close>

lemma reg_near_trans: "reg_near k r r1 \<Longrightarrow> reg_near k r1 r2 \<Longrightarrow> reg_near k r r2"
  unfolding reg_near_def by blast

lemma reg_near_ops:
  "reg_near k r (snd (remove_by_ext r x))" "reg_near k r (snd (take_pending r x))" "oc_id e = k \<Longrightarrow> reg_near k r (insert_confirmed r e)"
  by (auto simp: remove_by_ext_def take_pending_def insert_confirmed_def reg_near_def split: option.splits if_splits)

lemma reg_near_removed:
  "remove_by_ext r x = (res, r') \<Longrightarrow> reg_near k r r'" "remove_by_ngn r x = (res, r') \<Longrightarrow> reg_near k r r'"
  by (auto simp: remove_by_ext_def remove_by_ngn_def reg_near_def split: option.splits if_splits)

lemma reg_near_drain: "drain_ids xs r = (es, r') \<Longrightarrow> reg_near k r r'"
proof (induction xs r arbitrary: es r' rule: drain_ids.induct)
  case (2 x xs r)
  then show ?case
    by (auto simp: Let_def split: prod.splits option.splits) (meson reg_near_removed(1) reg_near_trans)
qed simp

lemma near_registry: "near k s s' \<Longrightarrow> reg_near k (os_registry s') r \<Longrightarrow> near k s (s'\<lparr>os_registry := r\<rparr>)"
  by (auto simp: near_def intro: reg_near_trans)

lemma near_leave [simp]: "near k s s' \<Longrightarrow> near k s (leave_pending job s')"
  by (simp add: leave_pending_def near_registry reg_near_ops)

lemma near_dialog:
  "near k s s' \<Longrightarrow> os_ext_dialogs s' i = None \<longrightarrow> x = None \<Longrightarrow> near k s (s'\<lparr>os_ext_dialogs := (os_ext_dialogs s')(i := x)\<rparr>)"
  by (simp add: near_def)

lemma near_notify [simp]: "near k s s' \<Longrightarrow> near k s (send_refer_notify env entry l1 l2 s')"
  by (auto simp: send_refer_notify_def intro!: near_dialog split: option.splits prod.splits)

lemma near_teardown [simp]: "near k s s' \<Longrightarrow> near k s (teardown_transferred env entry s')"
proof (cases "os_ext_dialogs s' (oc_id entry)")
  case (Some d)
  assume "near k s s'"
  then have "near k s (s'\<lparr>os_ext_dialogs := (os_ext_dialogs s')(oc_id entry \<mapsto> x)\<rparr>)" for x
    using Some by (simp add: near_dialog)
  then show ?thesis using Some by (simp add: teardown_transferred_def split: prod.split)
qed (simp add: teardown_transferred_def)

lemma near_media: "same_but_media s s1 \<Longrightarrow> os_ext_dialogs s1 = os_ext_dialogs s \<Longrightarrow> near k s s1"
  by (simp add: near_def same_but_media_def said_ok_def)

text \<open>The operations.\<close>

lemma bridge_dialogs:
  "prepare_outbound_bridge cfg env offer s = (r, s1) \<Longrightarrow> os_ext_dialogs s1 = os_ext_dialogs s"
  "offer_to_ngn cfg env offer s = (r', s1) \<Longrightarrow> os_ext_dialogs s1 = os_ext_dialogs s"
  "finalize_outbound_bridge env ctx offer answer s = (r2, s1) \<Longrightarrow> os_ext_dialogs s1 = os_ext_dialogs s"
proof -
  show p: "prepare_outbound_bridge cfg env offer s = (r, s1) \<Longrightarrow> os_ext_dialogs s1 = os_ext_dialogs s" for r
    by (auto simp: prepare_outbound_bridge_def out_bind_relay_def Let_def split: if_splits sum.splits prod.splits option.splits)
  show "os_ext_dialogs s1 = os_ext_dialogs s" if f: "offer_to_ngn cfg env offer s = (r', s1)"
  proof -
    obtain r1 s2 where q: "prepare_outbound_bridge cfg env offer s = (r1, s2)" by fastforce
    then have "s2 = s1" using f by (simp add: offer_to_ngn_def Let_def)
    then show ?thesis using p q by simp
  qed
  show "finalize_outbound_bridge env ctx offer answer s = (r2, s1) \<Longrightarrow> os_ext_dialogs s1 = os_ext_dialogs s"
    by (auto simp: finalize_outbound_bridge_def Let_def split: if_splits sum.splits prod.splits option.splits)
qed

lemma offer_near: "offer_to_ngn cfg env offer s = (r, s1) \<Longrightarrow> near k s s1"
  by (rule near_media [OF offer_media bridge_dialogs(2)])

lemma finalize_near: "finalize_outbound_bridge env ctx offer answer s = (r, s1) \<Longrightarrow> near k s s1"
  by (rule near_media [OF finalize_media bridge_dialogs(3)])

lemma call_up_near: "near k s (call_up cfg env k job call s)"
proof -
  obtain r s1 where f: "finalize_outbound_bridge env (oj_bridge job) (oj_offer job) (resp_body (ec_response call)) s = (r, s1)"
    by fastforce
  have reg: "near k s (register_call cfg k job resp ud bridge s')" if "near k s s'" for resp ud bridge s'
  proof -
    have "near k s (s'\<lparr>os_ext_dialogs := (os_ext_dialogs s')(k \<mapsto> d)\<rparr>)" for d using that by (simp add: near_def)
    then show ?thesis using that by (auto simp: register_call_def intro!: near_registry reg_near_ops split: sum.split)
  qed
  show ?thesis
    using f finalize_near [OF f, of k] by (auto simp: call_up_def Let_def intro!: reg split: sum.splits bridge_error.splits prod.splits)
qed

lemma call_over_near: "near k s (call_refused env k job response s)" "near k s (call_lost env k job s)"
  by (auto simp: call_refused_def call_lost_def Let_def split: option.splits)

lemmas near_parts = near_trans [OF _ call_over_near(1)] near_trans [OF _ call_over_near(2)] near_trans [OF _ call_up_near]

lemma settle_near: "near k s (settle_call cfg env k job outcome s)"
  by (auto simp: settle_call_def Let_def intro!: near_parts split: sum.splits invite_outcome.splits prod.splits)

lemmas near_settle = near_trans [OF _ settle_near]

lemma attempt_near:
  "near k s (first_attempt cfg env k job s)" "near k s (second_attempt cfg env k job plan s)"
  "near k s (pause_over cfg env k job deadline notified response s)"
  by (auto simp: first_attempt_def second_attempt_def pause_over_def Let_def intro!: near_settle
      split: prod.splits sum.splits invite_outcome.splits retry_decision.splits)

lemma hang_up_near:
  "near k s (ext_bye cfg env k request s)" "near k s (bye_finished env k entry cid s)" "near k s (hung_up k entry s)"
  "near k s (call_unplaced env k job s)" "near k s (cancel_finished cfg env k j plan s)"
proof -
  show "near k s (ext_bye cfg env k request s)"
    by (auto simp: ext_bye_def Let_def intro!: near_registry dest: reg_near_removed split: option.splits prod.splits)
  show "near k s (bye_finished env k entry cid s)" "near k s (hung_up k entry s)" "near k s (call_unplaced env k job s)"
    by (auto simp: bye_finished_def hung_up_def call_unplaced_def)
  show "near k s (cancel_finished cfg env k j plan s)"
    by (auto simp: cancel_finished_def near_refusal split: prod.splits)
qed

lemma unregister_near: "near k s (ext_unregister env k aor s)" "near k s (unregistered env k entry rest s)"
proof -
  have n: "near k s (next_unregistered env k entries s')" if "near k s s'" for entries s'
    using that by (auto simp: next_unregistered_def split: list.split)
  show "near k s (ext_unregister env k aor s)"
    by (auto simp: ext_unregister_def drain_by_aor_def intro!: n near_registry dest: reg_near_drain split: prod.splits)
  show "near k s (unregistered env k entry rest s)"
    by (auto simp: unregistered_def intro!: n near_dialog)
qed

lemma in_call_near:
  "near k s (ext_reinvite cfg env k request s)" "near k s (reinvite_answered cfg env k request r s)"
  "near k s (reinvite_forwarded env k request entry r' s)" "near k s (ext_refer cfg env k request s)"
  "near k s (refer_step env k entry cid target stage s)" "near k s (ext_info env k request s)"
proof -
  show "near k s (ext_reinvite cfg env k request s)" "near k s (reinvite_answered cfg env k request r s)"
    "near k s (reinvite_forwarded env k request entry r' s)" "near k s (ext_info env k request s)"
    by (auto simp: ext_reinvite_def reinvite_answered_def reinvite_forwarded_def ext_info_def inject_dtmf_event_to_ngn_def Let_def
        split: option.splits prod.splits sum.splits)
  show "near k s (ext_refer cfg env k request s)" by (auto simp: ext_refer_def Let_def split: option.splits)
  have "near k s (teardown_transferred env entry s)" by simp
  then show "near k s (refer_step env k entry cid target stage s)"
    by (auto simp: refer_step_def refer_over_def Let_def intro!: near_registry reg_near_ops
        split: refer_stage.splits option.splits leg_outcome.splits)
qed

lemma forward_near:
  "forward_bye env k cid s = Some s' \<Longrightarrow> near k s s'" "forward_reinvite env k request s = Some s' \<Longrightarrow> near k s s'"
proof -
  have d: "near k s (s1\<lparr>os_ext_dialogs := (os_ext_dialogs s)(i \<mapsto> x)\<rparr>)"
    if "near k s s1" "os_ext_dialogs s1 = os_ext_dialogs s" "os_ext_dialogs s i = Some y" for s1 i x y
    using that near_dialog [of k s s1 i "Some x"] by simp
  show "forward_bye env k cid s = Some s' \<Longrightarrow> near k s s'"
    by (auto simp: forward_bye_def intro!: d near_registry dest: reg_near_removed split: option.splits prod.splits)
  show "forward_reinvite env k request s = Some s' \<Longrightarrow> near k s s'"
    by (auto simp: forward_reinvite_def intro!: d split: option.splits prod.splits)
qed

lemma resume_near: "near k s (resume_task cfg env k t s)"
  by (cases t) (auto simp: resume_task_def attempt_near hang_up_near unregister_near in_call_near split: list.splits)

section \<open>The table of the calls being placed\<close>

lemma placing_stepI:
  assumes i: "placing_inv s" "k < os_next s"
    and n: "near k s (s'\<lparr>os_registry := (os_registry s')\<lparr>or_pending := or_pending (os_registry s)\<rparr>\<rparr>)"
    and p: "\<And>c j. or_pending (os_registry s') c = Some j \<Longrightarrow> j \<noteq> k \<Longrightarrow> or_pending (os_registry s) c = Some j"
    and f: "call_fine s' k"
  shows "placing_inv s'"
proof -
  have t: "os_next s' = os_next s" "\<And>j. j \<noteq> k \<Longrightarrow> os_tasks s' j = os_tasks s j" "\<And>j. j \<noteq> k \<Longrightarrow> said_ok s' j \<Longrightarrow> said_ok s j"
    "\<And>j. j \<noteq> k \<Longrightarrow> os_ext_dialogs s j = None \<Longrightarrow> os_ext_dialogs s' j = None"
    "\<And>c e. or_by_ext (os_registry s') c = Some e \<Longrightarrow> or_by_ext (os_registry s) c = Some e \<or> oc_id e = k"
    using n by (auto simp: near_def reg_near_def)
  have "call_fine s' j" if "j \<noteq> k" for j
  proof -
    have c: "call_fine s j" using i(1) by (simp add: placing_inv_def)
    have "unheard s j \<Longrightarrow> unheard s' j" using t that unfolding unheard_def by metis
    then show ?thesis using c t(2) [OF that] p that unfolding call_fine_def by auto
  qed
  then have "call_fine s' j" for j using f by (cases "j = k") auto
  moreover have "os_tasks s' j = None \<and> os_ext_dialogs s' j = None" if "os_next s' \<le> j" for j
    using i t(1) t(2) [of j] t(4) [of j] that by (auto simp: placing_inv_def)
  moreover have "oc_id e < os_next s'" if "or_by_ext (os_registry s') c = Some e" for c e
    using i t(1) t(5) [OF that] by (auto simp: placing_inv_def)
  ultimately show ?thesis by (simp add: placing_inv_def)
qed

lemma near_inv:
  assumes "placing_inv s" "near k s s'" "k < os_next s" "call_fine s' k"
  shows "placing_inv s'"
  by (rule placing_stepI [OF assms(1,3)]) (use assms in \<open>auto simp: near_def reg_near_def\<close>)

lemma idle_inv:
  assumes "placing_inv s" "near k s s'" "k < os_next s" "no_job s k" "no_job s' k"
  shows "placing_inv s'"
proof (rule near_inv [OF assms(1-3)])
  have "or_pending (os_registry s') c \<noteq> Some k" for c
  proof
    assume "or_pending (os_registry s') c = Some k"
    then have "or_pending (os_registry s) c = Some k" using assms(2) by (simp add: near_def reg_near_def)
    moreover have "call_fine s k" using assms(1) by (simp add: placing_inv_def)
    ultimately obtain t job where "os_tasks s k = Some t" "pending_job t = Some job" by (auto simp: call_fine_def)
    then show False using assms(4) by (simp add: no_job_def)
  qed
  then show "call_fine s' k" using assms(5) by (auto simp: call_fine_def no_job_def)
qed

lemma call_fine_job:
  assumes "call_fine s k" "os_tasks s k = Some t" "pending_job t = Some job"
    and "os_tasks s' k = Some t'" "pending_job t' = Some job'" "oj_call_id job' = oj_call_id job" "pause_fine t'"
    and "os_registry s' = os_registry s" "os_ext_dialogs s' k = os_ext_dialogs s k" "said_ok s' k = said_ok s k"
  shows "call_fine s' k"
  using assms by (simp add: call_fine_def unheard_def)

subsection \<open>The outcome of a call\<close>

lemma call_up_done: "os_tasks (call_up cfg env k job call s) k = None"
  by (simp add: call_up_def Let_def split: prod.split sum.split bridge_error.split)

lemma settle_tasks: "no_job (settle_call cfg env k job outcome s) k"
  by (simp add: settle_call_def no_job_def Let_def call_up_done split: sum.split invite_outcome.split prod.split)

lemma settle_from: "near k (leave_pending job s) (settle_call cfg env k job outcome s)"
  by (auto simp: settle_call_def Let_def intro!: near_parts split: sum.splits invite_outcome.splits prod.splits)

lemma settle_fine:
  assumes "\<And>c. or_pending (os_registry s) c = Some k \<Longrightarrow> c = oj_call_id job \<and> c \<noteq> [] \<and> c \<noteq> ''<no-call-id>''"
  shows "call_fine (settle_call cfg env k job outcome s) k"
proof -
  have "or_pending (os_registry (leave_pending job s)) c \<noteq> Some k" for c
    using assms [of c] by (auto simp: leave_pending_def take_pending_def split: if_splits)
  moreover have "or_pending (os_registry (settle_call cfg env k job outcome s)) c = Some j
      \<Longrightarrow> or_pending (os_registry (leave_pending job s)) c = Some j" for c j
    using settle_from [of k job s cfg env outcome] unfolding near_def reg_near_def by blast
  ultimately have "or_pending (os_registry (settle_call cfg env k job outcome s)) c \<noteq> Some k" for c by blast
  then show ?thesis using settle_tasks [of cfg env k job outcome s] by (auto simp: call_fine_def no_job_def)
qed

lemma invite_failed: "invite md5 ly rnds u plan = (Inr (InviteFailed response), rs) \<Longrightarrow> \<not> is_2xx response"
  by (auto simp: invite_def finalize_2xx_def finalize_2xx_to_def Let_def
      split: prod.splits sum.splits option.splits if_splits)

lemma attempt_inv:
  assumes i: "placing_inv s" and t: "os_tasks s k = Some t" "pending_job t = Some job"
  shows "placing_inv (first_attempt cfg env k job s)" "placing_inv (second_attempt cfg env k job plan s)"
    "t = Pausing job deadline notified response \<Longrightarrow> placing_inv (pause_over cfg env k job deadline notified response s)"
proof -
  have k: "k < os_next s" using i t by (metis linorder_not_less option.distinct(1) placing_inv_def)
  have f: "call_fine s k" using i by (simp add: placing_inv_def)
  have p: "or_pending (os_registry s) c = Some k \<Longrightarrow> c = oj_call_id job \<and> c \<noteq> [] \<and> c \<noteq> ''<no-call-id>''" for c
    using f t by (auto simp: call_fine_def)
  have st: "call_fine (settle_call cfg env k job r s1) k" if "os_registry s1 = os_registry s" for r s1
    by (rule settle_fine) (use p that in auto)
  have reg: "os_registry (count_retry ro (hand_to_ngn rs s)) = os_registry s" for ro rs by simp
  show "placing_inv (first_attempt cfg env k job s)"
  proof (rule near_inv [OF i attempt_near(1) k])
    show "call_fine (first_attempt cfg env k job s) k"
      by (auto simp: first_attempt_def Let_def intro!: st call_fine_job [OF f t] dest: invite_failed
          split: prod.splits sum.splits invite_outcome.splits retry_decision.splits)
  qed
  show "placing_inv (second_attempt cfg env k job plan s)"
    by (rule near_inv [OF i attempt_near(2) k]) (simp add: second_attempt_def st split: prod.split)
  show "placing_inv (pause_over cfg env k job deadline notified response s)" if "t = Pausing job deadline notified response"
  proof (rule near_inv [OF i attempt_near(3) k])
    have "placing_inv s \<Longrightarrow> call_fine s k" by (simp add: placing_inv_def)
    then show "call_fine (pause_over cfg env k job deadline notified response s) k"
      using i by (auto simp: pause_over_def Let_def intro!: st call_fine_job [OF f t])
  qed
qed

subsection \<open>A new call\<close>

lemma start_call_inv:
  assumes i: "placing_inv s0" "k < os_next s0" "no_job s0 k"
    and s: "near k s0 s" "os_tasks s k = None" "unheard s k"
  shows "placing_inv (start_call cfg env k aor request remote s)"
proof -
  have none: "or_pending (os_registry s) c \<noteq> Some k" for c
  proof
    assume "or_pending (os_registry s) c = Some k"
    then have "or_pending (os_registry s0) c = Some k" using s(1) by (simp add: near_def reg_near_def)
    then show False using i by (fastforce simp: placing_inv_def call_fine_def no_job_def)
  qed
  obtain r s1 where f: "offer_to_ngn cfg env (req_body request) s = (r, s1)" by fastforce
  note m = offer_media [OF f, unfolded same_but_media_def] and d = bridge_dialogs(2) [OF f]
  have n: "near k s0 s1" using near_trans [OF s(1) offer_near [OF f]] .
  show ?thesis
  proof (cases r)
    case (Inl e)
    then have "start_call cfg env k aor request remote s = out_task_panics k s1" using f by (simp add: start_call_def Let_def)
    moreover have "placing_inv (out_task_panics k s1)"
      by (rule idle_inv [OF i(1) _ i(2,3)]) (use n in \<open>simp_all add: no_job_def\<close>)
    ultimately show ?thesis by simp
  next
    case (Inr x)
    let ?s = "start_call cfg env k aor request remote s" and ?cid = "request_call_id ''<no-call-id>'' request"
    obtain ctx sdp where x: "x = (ctx, sdp)" by fastforce
    let ?job = "\<lparr>oj_aor = aor, oj_request = request, oj_remote = remote, oj_call_id = ?cid, oj_target = ngn_target cfg request,
      oj_offer = req_body request, oj_sdp = sdp, oj_bridge = ctx,
      oj_plan = build_invite (oe_routes env) (oe_rnd env) (oh_uac cfg) (ngn_target cfg request) sdp None, oj_cancelled = False\<rparr>"
    have e: "os_next ?s = os_next s1" "os_tasks ?s = (os_tasks s1)(k \<mapsto> Placing ?job)" "oj_call_id ?job = ?cid"
      "os_ext_dialogs ?s = os_ext_dialogs s1" "os_txs ?s = os_txs s1"
      "os_registry ?s = (if ?cid \<noteq> [] \<and> ?cid \<noteq> ''<no-call-id>'' then insert_pending (os_registry s1) ?cid k else os_registry s1)"
      using f Inr x by (auto simp: start_call_def Let_def)
    have said: "said_ok ?s j = said_ok s1 j" for j using e(5) by (simp add: said_ok_def)
    show ?thesis
    proof (rule placing_stepI [OF i(1,2)])
      show "near k s0 (?s\<lparr>os_registry := (os_registry ?s)\<lparr>or_pending := or_pending (os_registry s0)\<rparr>\<rparr>)"
        using n by (auto simp: near_def reg_near_def e(1,2,4,6) said insert_pending_def)
      show "or_pending (os_registry ?s) c = Some j \<Longrightarrow> j \<noteq> k \<Longrightarrow> or_pending (os_registry s0) c = Some j" for c j
        using n by (auto simp: near_def reg_near_def e(6) insert_pending_def split: if_splits)
      have "unheard ?s k"
        using s(3) m d unfolding unheard_def by (simp add: e(4,5,6) insert_pending_def said_ok_def)
      then show "call_fine ?s k" using none m by (auto simp: call_fine_def e(2,3,6) insert_pending_def split: if_splits)
    qed
  qed
qed

lemma ext_invite_inv:
  assumes i: "placing_inv s" "k < os_next s" "os_tasks s k = None" "unheard s k"
  shows "placing_inv (ext_invite cfg env k aor request remote s)"
proof -
  have j: "no_job s k" using i(3) by (simp add: no_job_def)
  have idle: "placing_inv s'" if "near k s s'" "os_tasks s' k = None" for s'
    using idle_inv [OF i(1) that(1) i(2) j] that(2) by (simp add: no_job_def)
  have place: "placing_inv (start_call cfg env k aor request remote (s\<lparr>os_limiter := l, os_intervals := v\<rparr>))" for l v
    using i by (intro start_call_inv [OF i(1,2) j]) (simp_all add: unheard_def)
  show ?thesis
    using i(3) by (auto simp: ext_invite_def call_denied_def intro!: place idle
        split: internal_route.splits prod.splits rate_limit_decision.splits)
qed

lemma arrives_inv:
  assumes "placing_inv s"
  shows "placing_inv (arrives_out tx s)" "os_tasks (arrives_out tx s) (os_next s) = None"
    "\<not> said_ok (arrives_out tx s) (os_next s) \<Longrightarrow> unheard (arrives_out tx s) (os_next s)"
proof -
  have f: "os_tasks s (os_next s) = None" "os_ext_dialogs s (os_next s) = None"
    and e: "or_by_ext (os_registry s) c = Some e \<Longrightarrow> oc_id e \<noteq> os_next s" for c e
    using assms unfolding placing_inv_def by (blast, blast, metis nat_neq_iff)
  then show "os_tasks (arrives_out tx s) (os_next s) = None"
    "\<not> said_ok (arrives_out tx s) (os_next s) \<Longrightarrow> unheard (arrives_out tx s) (os_next s)"
    by (auto simp: unheard_def)
  have "said_ok (arrives_out tx s) j = said_ok s j" if "j \<noteq> os_next s" for j
    using that by (simp add: said_ok_def arrives_out_def split: option.split)
  then have "call_fine (arrives_out tx s) j" if "j \<noteq> os_next s" for j
    using assms that by (auto simp: placing_inv_def call_fine_def unheard_def)
  moreover have "call_fine (arrives_out tx s) (os_next s)"
  proof -
    have "call_fine s (os_next s)" using assms by (simp add: placing_inv_def)
    then show ?thesis using f(1) by (simp add: call_fine_def)
  qed
  ultimately have "call_fine (arrives_out tx s) j" for j by (cases "j = os_next s") auto
  then show "placing_inv (arrives_out tx s)" using assms by (fastforce simp: placing_inv_def)
qed

subsection \<open>The other tasks\<close>

lemma event_idle:
  "os_tasks s k = None \<Longrightarrow> no_job (ext_reinvite cfg env k request s) k" "os_tasks s k = None \<Longrightarrow> no_job (ext_bye cfg env k request s) k"
  "os_tasks s k = None \<Longrightarrow> no_job (ext_info env k request s) k" "os_tasks s k = None \<Longrightarrow> no_job (ext_refer cfg env k request s) k"
  "no_job (ext_unregister env k aor s) k"
  by (simp_all add: no_job_def ext_reinvite_def ext_bye_def ext_info_def ext_refer_def ext_unregister_def next_unregistered_def
      inject_dtmf_event_to_ngn_def Let_def split: option.split prod.split sum.split list.split)

lemma forward_idle:
  "forward_bye env k cid s = Some s' \<Longrightarrow> os_tasks s k = None \<Longrightarrow> no_job s' k"
  "forward_reinvite env k request s = Some s' \<Longrightarrow> os_tasks s k = None \<Longrightarrow> no_job s' k"
  by (auto simp: no_job_def forward_bye_def forward_reinvite_def split: option.splits prod.splits)

lemma resume_idle:
  assumes "pending_job t = None" "os_tasks s k = Some t"
  shows "no_job (resume_task cfg env k t s) k"
  using assms
  by (cases t) (auto simp: no_job_def resume_task_def call_unplaced_def cancel_finished_def bye_finished_def hung_up_def
      unregistered_def next_unregistered_def reinvite_answered_def reinvite_forwarded_def refer_step_def refer_over_def Let_def
      split: list.splits prod.splits sum.splits option.splits refer_stage.splits leg_outcome.splits)

section \<open>CANCEL\<close>

lemma cancel_job_pending [simp]:
  "pending_job (cancel_job t) = map_option (oj_cancelled_update (\<lambda>_. True)) (pending_job t)" "pause_fine (cancel_job t) = pause_fine t"
  by (cases t; simp)+

text \<open>A CANCEL for a call in the table marks its task; any other changes nothing.\<close>

lemma ext_cancel_cases:
  assumes i: "placing_inv s"
  obtains "ext_cancel k request s = s"
  | cid j t job where "hdr_get (req_headers request) ''call-id'' = Some cid" "get_pending (os_registry s) cid = Some j"
      "os_tasks s j = Some t" "pending_job t = Some job"
      "ext_cancel k request s = set_out_task k (Cancelling j (oj_plan job)) (s\<lparr>os_tasks := (os_tasks s)(j \<mapsto> cancel_job t)\<rparr>)"
proof (cases "ext_cancel k request s = s")
  case False
  then obtain cid j job0 where c: "hdr_get (req_headers request) ''call-id'' = Some cid" "get_pending (os_registry s) cid = Some j"
    by (auto simp: ext_cancel_def split: option.splits)
  then obtain t job where t: "os_tasks s j = Some t" "pending_job t = Some job"
  proof -
    have "call_fine s j" using i by (simp add: placing_inv_def)
    then show ?thesis using that c(2) by (auto simp: get_pending_def call_fine_def)
  qed
  then have "job_of t = Some job" by (cases t) auto
  then show ?thesis using that(2) [OF c t] c t by (simp add: ext_cancel_def)
qed (use that in blast)

lemma mark_inv:
  assumes i: "placing_inv s" and t: "os_tasks s j = Some t" "pending_job t = Some job"
  shows "placing_inv (s\<lparr>os_tasks := (os_tasks s)(j \<mapsto> cancel_job t)\<rparr>)"
proof (rule near_inv [OF i])
  show "near j s (s\<lparr>os_tasks := (os_tasks s)(j \<mapsto> cancel_job t)\<rparr>)" by (simp add: near_def)
  show "j < os_next s" using i t(1) by (metis linorder_not_less option.distinct(1) placing_inv_def)
  have "call_fine s j" using i by (simp add: placing_inv_def)
  moreover from this t have "pause_fine t" by (simp add: call_fine_def)
  ultimately show "call_fine (s\<lparr>os_tasks := (os_tasks s)(j \<mapsto> cancel_job t)\<rparr>) j"
    using t by (elim call_fine_job [where t' = "cancel_job t" and job' = "job\<lparr>oj_cancelled := True\<rparr>"]) simp_all
qed

lemma ext_cancel_inv':
  assumes i: "placing_inv s" "k < os_next s" "os_tasks s k = None"
  shows "placing_inv (ext_cancel k request s)"
proof (cases rule: ext_cancel_cases [OF i(1), of k request])
  case (2 cid j t job)
  have jk: "j \<noteq> k" using 2(3) i(3) by auto
  let ?s = "s\<lparr>os_tasks := (os_tasks s)(j \<mapsto> cancel_job t)\<rparr>"
  have "placing_inv ?s" by (rule mark_inv [OF i(1) 2(3,4)])
  then show ?thesis
    unfolding 2(5)
  proof (rule idle_inv)
    show "near k ?s (set_out_task k (Cancelling j (oj_plan job)) ?s)" by simp
    show "k < os_next ?s" using i(2) by simp
    show "no_job ?s k" using i(3) jk by (simp add: no_job_def)
    show "no_job (set_out_task k (Cancelling j (oj_plan job)) ?s) k" by (simp add: no_job_def)
  qed
qed (use i in simp)

section \<open>The machine\<close>

text \<open>The server hands over an INVITE that it has not answered with success itself.\<close>

fun fresh_event :: "'p out_event \<Rightarrow> bool" where
  "fresh_event (ExtEvent env ev) =
     (case ev of UasInvite aor request remote tx \<Rightarrow> pred_option (\<lambda>r. \<not> is_2xx r) (st_last_response tx) | _ \<Rightarrow> True)"
| "fresh_event e = True"

lemma handle_placing:
  assumes i: "placing_inv s" and e: "fresh_event (ExtEvent env ev :: 'p out_event)"
  shows "placing_inv (handle_event cfg (env :: 'p out_env) ev s)"
proof -
  let ?k = "os_next s"
  note a = arrives_inv [OF i]
  have idle: "placing_inv (f (arrives_out tx s))" if "near ?k (arrives_out tx s) (f (arrives_out tx s))" "no_job (f (arrives_out tx s)) ?k" for f tx
    by (rule idle_inv [OF a(1) that(1) _ _ that(2)]) (use a(2) in \<open>simp_all add: no_job_def\<close>)
  have others: "placing_inv (ext_reinvite cfg env ?k q (arrives_out tx s))" "placing_inv (ext_bye cfg env ?k q (arrives_out tx s))"
    "placing_inv (ext_info env ?k q (arrives_out tx s))" "placing_inv (ext_refer cfg env ?k q (arrives_out tx s))"
    "placing_inv (ext_unregister env ?k aor (arrives_out tx s))" for q tx aor
    by (rule idle; intro in_call_near hang_up_near unregister_near event_idle a(2))+
  show ?thesis
  proof (cases ev)
    case (UasInvite aor request remote tx)
    then have "\<not> said_ok (arrives_out (Some tx) s) ?k" using e by (auto simp: said_ok_def arrives_out_def)
    then have "unheard (arrives_out (Some tx) s) ?k" by (rule a(3))
    then have "placing_inv (ext_invite cfg env ?k aor request remote (arrives_out (Some tx) s))"
      by (intro ext_invite_inv a(1,2)) simp_all
    then show ?thesis using UasInvite by (simp add: handle_event_def)
  next
    case (UasCancel request remote tx)
    have "placing_inv (ext_cancel ?k request (arrives_out (Some tx) s))" by (intro ext_cancel_inv' a(1,2)) simp_all
    then show ?thesis using UasCancel by (simp add: handle_event_def)
  qed (use i in \<open>simp_all add: handle_event_def others\<close>)
qed

lemma placing_step:
  assumes i: "placing_inv s" and e: "fresh_event e"
  shows "placing_inv (out_step cfg s e)"
proof (cases e)
  case (ExtEvent env ev)
  then show ?thesis using handle_placing [OF i, of env ev] e by simp
next
  case (NgnBye env cid)
  have "placing_inv s'" if "forward_bye env (os_next s) cid (arrives_out None s) = Some s'" for s'
    using idle_inv [OF arrives_inv(1) [OF i] forward_near(1) [OF that]] forward_idle(1) [OF that] arrives_inv(2) [OF i]
    by (simp add: no_job_def)
  then show ?thesis using NgnBye i by (simp split: option.split)
next
  case (NgnReinvite env request)
  have "placing_inv s'" if "forward_reinvite env (os_next s) request (arrives_out None s) = Some s'" for s'
    using idle_inv [OF arrives_inv(1) [OF i] forward_near(2) [OF that]] forward_idle(2) [OF that] arrives_inv(2) [OF i]
    by (simp add: no_job_def)
  then show ?thesis using NgnReinvite i by (simp split: option.split)
next
  case (Resume env k)
  show ?thesis
  proof (cases "os_tasks s k")
    case (Some t)
    then have k: "k < os_next s" using i by (metis linorder_not_less option.distinct(1) placing_inv_def)
    show ?thesis
    proof (cases "pending_job t")
      case None
      have "placing_inv (resume_task cfg env k t s)"
        by (rule idle_inv [OF i resume_near k _ resume_idle [OF None Some]]) (simp add: no_job_def Some None)
      then show ?thesis using Resume Some by simp
    next
      fix job
      assume j: "pending_job t = Some job"
      show ?thesis using attempt_inv [OF i Some j] Resume Some j by (cases t) (auto simp: resume_task_def)
    qed
  qed (use Resume i in simp)
qed

interpretation cnm: guarded_machine "out_step cfg" "\<lambda>_. fresh_event" placing_inv for cfg
  by unfold_locales (rule placing_step)

section \<open>After the CANCEL\<close>

text \<open>A call that was called off: nothing is told or kept of it, and its task, if there is one still, knows of the CANCEL.\<close>

definition task_off :: "out_task \<Rightarrow> bool" where
  "task_off t \<longleftrightarrow>
     (case pending_job t of Some job \<Rightarrow> oj_cancelled job \<and> pause_fine t | None \<Rightarrow> (\<exists>job. t = Unplacing job))"

definition called_off :: "nat \<Rightarrow> outgoing \<Rightarrow> bool" where
  "called_off j s \<longleftrightarrow> j < os_next s \<and> unheard s j \<and> pred_option task_off (os_tasks s j)"

lemma unheard_near: "unheard s j \<Longrightarrow> near k s s' \<Longrightarrow> j \<noteq> k \<Longrightarrow> unheard s' j"
  unfolding near_def reg_near_def unheard_def by metis

lemma called_off_near: "called_off j s \<Longrightarrow> near k s s' \<Longrightarrow> j \<noteq> k \<Longrightarrow> called_off j s'"
  unfolding called_off_def using unheard_near [of s j k s'] by (auto simp: near_def)

lemma refused_unheard: "\<not> is_2xx response \<Longrightarrow> unheard s k \<Longrightarrow> unheard (call_refused env k job response s) k"
  by (auto simp: call_refused_def unheard_def Let_def ensure_tag_status is_2xx_def split: option.splits)

lemma settle_off:
  assumes "oj_cancelled job" "unheard s k" "\<And>response. r = Inr (InviteFailed response) \<Longrightarrow> \<not> is_2xx response" "k < os_next s"
  shows "called_off k (settle_call cfg env k job r s)"
proof -
  have u: "unheard (leave_pending job s) k" using assms(2) by (simp add: unheard_def leave_pending_def take_pending_def)
  have v: "unheard (end_out_task k s') k = unheard s' k" "unheard (set_out_task k t s') k = unheard s' k"
    "unheard (hand_to_ngn rs s') k = unheard s' k" "unheard (s'\<lparr>os_limiter := l\<rparr>) k = unheard s' k" for s' t rs l
    by (simp_all add: unheard_def)
  have n: "os_next (settle_call cfg env k job r s) = os_next s" using settle_near [of k s cfg env job r] by (simp add: near_def)
  show ?thesis
  proof (cases r)
    case (Inl e)
    then show ?thesis using assms(1,4) n u by (simp add: called_off_def settle_call_def Let_def call_lost_def unheard_def)
  next
    case (Inr o1)
    show ?thesis
    proof (cases o1)
      case (Established call)
      then show ?thesis using assms(1,4) n u Inr by (simp add: called_off_def settle_call_def Let_def v task_off_def split: prod.splits)
    next
      case (InviteFailed response)
      then show ?thesis
        using assms(3,4) n u Inr refused_unheard [of response "leave_pending job s" k env job]
        by (simp add: called_off_def settle_call_def Let_def v)
    qed
  qed
qed

lemma attempt_off:
  assumes c: "called_off k s" and t: "os_tasks s k = Some t" "pending_job t = Some job"
  shows "called_off k (first_attempt cfg env k job s)" "called_off k (second_attempt cfg env k job plan s)"
    "t = Pausing job deadline notified response \<Longrightarrow> called_off k (pause_over cfg env k job deadline notified response s)"
proof -
  have j: "oj_cancelled job" "unheard s k" "pause_fine t" "k < os_next s" using c t by (auto simp: called_off_def task_off_def)
  have st: "called_off k (settle_call cfg env k job r (count_retry ro (hand_to_ngn rs s)))"
    if "\<And>response. r = Inr (InviteFailed response) \<Longrightarrow> \<not> is_2xx response" for r ro rs
    by (rule settle_off [OF j(1) _ that]) (use j in \<open>simp_all add: unheard_def\<close>)
  have off: "called_off k (set_out_task k (Pausing job d n response) (hand_to_ngn rs s))" if "\<not> is_2xx response" for d n response rs
    using j that by (simp add: called_off_def unheard_def task_off_def)
  show "called_off k (first_attempt cfg env k job s)"
    by (auto simp: first_attempt_def Let_def intro!: st off dest: invite_failed
        split: prod.splits sum.splits invite_outcome.splits retry_decision.splits)
  show "called_off k (second_attempt cfg env k job plan s)"
    by (auto simp: second_attempt_def Let_def intro!: st dest: invite_failed split: prod.splits)
  show "called_off k (pause_over cfg env k job deadline notified response s)" if p: "t = Pausing job deadline notified response"
  proof -
    have "called_off k (settle_call cfg env k job (Inr (InviteFailed response)) (count_retry RetryAbortedByCancel s))"
      by (rule settle_off [OF j(1)]) (use j p in \<open>simp_all add: unheard_def\<close>)
    then show ?thesis using c j(1) by (simp add: pause_over_def)
  qed
qed

lemma cancel_off:
  assumes "called_off j s" "placing_inv s" "k \<noteq> j"
  shows "called_off j (ext_cancel k request s)"
proof (cases rule: ext_cancel_cases [OF assms(2), of k request])
  case (2 cid i t job)
  then show ?thesis
    unfolding 2(5) using assms(1,3)
    by (auto simp: called_off_def unheard_def task_off_def split: option.splits)
qed (use assms in simp)

lemma unplaced_off: "called_off k s \<Longrightarrow> called_off k (call_unplaced env k job s)"
  by (simp add: called_off_def call_unplaced_def unheard_def)

lemma start_call_off: "called_off j s \<Longrightarrow> j \<noteq> k \<Longrightarrow> called_off j (start_call cfg env k aor request remote s)"
proof -
  assume c: "called_off j s" "j \<noteq> k"
  obtain r s1 where f: "offer_to_ngn cfg env (req_body request) s = (r, s1)" by fastforce
  have "called_off j s1" by (rule called_off_near [OF c(1) offer_near [OF f] c(2)])
  then show ?thesis
    using c(2) f by (auto simp: start_call_def Let_def called_off_def unheard_def insert_pending_def split: sum.splits prod.splits)
qed

lemma invite_off: "called_off j s \<Longrightarrow> j \<noteq> k \<Longrightarrow> called_off j (ext_invite cfg env k aor request remote s)"
proof -
  assume c: "called_off j s" "j \<noteq> k"
  have near: "called_off j s'" if "near k s s'" for s' by (rule called_off_near [OF c(1) that c(2)])
  have "called_off j (start_call cfg env k aor request remote (s\<lparr>os_limiter := l, os_intervals := v\<rparr>))" for l v
    by (rule start_call_off [OF near c(2)]) simp
  then show ?thesis
    by (auto simp: ext_invite_def call_denied_def intro!: near split: internal_route.splits prod.splits rate_limit_decision.splits)
qed

lemma called_off_step:
  assumes c: "called_off j s" and i: "placing_inv s"
  shows "called_off j (out_step cfg s (e :: 'a out_event))"
proof -
  let ?k = "os_next s"
  have jk: "j \<noteq> ?k" using c by (simp add: called_off_def)
  have a: "called_off j (arrives_out tx s)" for tx
    using c jk by (auto simp: called_off_def unheard_def said_ok_def arrives_out_def split: option.split)
  note near = called_off_near [OF a _ jk]
  have others: "called_off j (ext_reinvite cfg env ?k q (arrives_out tx s))" "called_off j (ext_bye cfg env ?k q (arrives_out tx s))"
    "called_off j (ext_info env ?k q (arrives_out tx s))" "called_off j (ext_refer cfg env ?k q (arrives_out tx s))"
    "called_off j (ext_unregister env ?k aor (arrives_out tx s))" for env :: "'a out_env" and q tx aor
    by (rule near [OF in_call_near(1)], rule near [OF hang_up_near(1)], rule near [OF in_call_near(6)], rule near [OF in_call_near(4)],
        rule near [OF unregister_near(1)])
  show ?thesis
  proof (cases e)
    case (ExtEvent env ev)
    show ?thesis
    proof (cases ev)
      case (UasInvite aor request remote tx)
      then show ?thesis using ExtEvent invite_off [OF a jk] by (simp add: handle_event_def)
    next
      case (UasCancel request remote tx)
      then show ?thesis using ExtEvent cancel_off [OF a arrives_inv(1) [OF i] jk [symmetric]] by (simp add: handle_event_def)
    qed (use c ExtEvent in \<open>simp_all add: handle_event_def others\<close>)
  next
    case (NgnBye env cid)
    have "called_off j s'" if "forward_bye env ?k cid (arrives_out None s) = Some s'" for s' by (rule near [OF forward_near(1) [OF that]])
    then show ?thesis using NgnBye c by (simp split: option.split)
  next
    case (NgnReinvite env request)
    have "called_off j s'" if "forward_reinvite env ?k request (arrives_out None s) = Some s'" for s' by (rule near [OF forward_near(2) [OF that]])
    then show ?thesis using NgnReinvite c by (simp split: option.split)
  next
    case (Resume env k)
    show ?thesis
    proof (cases "os_tasks s k")
      case (Some t)
      show ?thesis
      proof (cases "k = j")
        case False
        then show ?thesis using Resume Some called_off_near [OF c resume_near, of k] by auto
      next
        case True
        then have "task_off t" using c Some by (simp add: called_off_def)
        moreover have tj: "os_tasks s j = Some t" using Some True by simp
        ultimately have "called_off j (resume_task cfg env j t s)"
          by (cases t) (simp_all add: task_off_def resume_task_def unplaced_off c attempt_off [OF c tj])
        then show ?thesis using Resume Some True by simp
      qed
    qed (use Resume c in simp)
  qed
qed

interpretation off: guarded_machine "out_step cfg" "\<lambda>_. fresh_event" "\<lambda>s. placing_inv s \<and> called_off j s" for cfg j
  by unfold_locales (blast intro: placing_step called_off_step)

lemma placing_start: "placing_inv (out_start lim mgr counter cl)"
  by (simp add: placing_inv_def call_fine_def out_start_def out_registry_new_def)

text \<open>The CANCEL itself: the call is found, and called off.\<close>

lemma cancel_calls_off:
  assumes i: "placing_inv s" and c: "hdr_get (req_headers request) ''call-id'' = Some cid" "get_pending (os_registry s) cid = Some j"
  shows "called_off j (handle_event cfg env (UasCancel request remote tx) s)"
    "\<exists>t job. os_tasks s j = Some t \<and> pending_job t = Some job \<and> oj_call_id job = cid"
proof -
  let ?s = "arrives_out (Some tx) s"
  have f: "call_fine s j" using i by (simp add: placing_inv_def)
  then obtain t job where t: "os_tasks s j = Some t" "pending_job t = Some job" "oj_call_id job = cid" "unheard s j" "pause_fine t"
    using c(2) by (auto simp: call_fine_def get_pending_def)
  then show "\<exists>t job. os_tasks s j = Some t \<and> pending_job t = Some job \<and> oj_call_id job = cid" by blast
  have j: "j < os_next s" using i t(1) by (metis linorder_not_less option.distinct(1) placing_inv_def)
  have "unheard ?s j" using t(4) j by (auto simp: unheard_def said_ok_def arrives_out_def)
  moreover have "job_of t = Some job" using t(2) by (cases t) auto
  ultimately have "called_off j (ext_cancel (os_next s) request ?s)"
    using c t j by (auto simp: ext_cancel_def called_off_def unheard_def task_off_def)
  then show "called_off j (handle_event cfg env (UasCancel request remote tx) s)" by (simp add: handle_event_def)
qed

section \<open>Property\<close>


definition ext_cancel_ex :: sip_request where
  "ext_cancel_ex = \<lparr>req_method = Cancel, req_uri = ''sip:117@h'', req_headers = [(''via'', via_ex), (''call-id'', ''c1'')], req_body = []\<rparr>"


end
