(* ===== verification/Ext_Hangup.thy ===== *)
theory Ext_Hangup
  imports Ext_Cancel
begin

text \<open>
  Hanging up: for every call in the registry the dialogs of both legs are there, with its Call-IDs,
  so that a BYE of one side becomes a BYE of the same call on the other.
\<close>

section \<open>The dialogs of a call\<close>

definition same_names :: "('d \<Rightarrow> dialog) \<Rightarrow> (nat \<rightharpoonup> 'd) \<Rightarrow> (nat \<rightharpoonup> 'd) \<Rightarrow> bool" where
  "same_names f m m' \<longleftrightarrow> (\<forall>i x. m i = Some x \<longrightarrow> (\<exists>y. m' i = Some y \<and> dlg_id (f y) = dlg_id (f x)))"

definition job_named :: "out_task \<Rightarrow> bool" where
  "job_named t \<longleftrightarrow> pred_option (\<lambda>job. oj_call_id job = request_call_id ''<no-call-id>'' (oj_request job)) (job_of t)"

definition legs_there :: "outgoing \<Rightarrow> ext_entry \<Rightarrow> bool" where
  "legs_there s e \<longleftrightarrow>
     (\<exists>ud. os_ngn_dialogs s (oc_id e) = Some ud \<and> dlg_call_id (dlg_id (ud_inner ud)) = oc_ngn_call_id e)
     \<and> (\<exists>d. os_ext_dialogs s (oc_id e) = Some d \<and> dlg_call_id (dlg_id d) = oc_ext_call_id e)"

definition legs_inv :: "outgoing \<Rightarrow> bool" where
  "legs_inv s \<longleftrightarrow>
     (\<forall>c e. or_by_ext (os_registry s) c = Some e \<longrightarrow> legs_there s e \<and> oc_ext_call_id e = c)
     \<and> (\<forall>k. pred_option job_named (os_tasks s k))"

text \<open>A step of one task that makes no call: dialogs stay, under their names, and calls may go.\<close>

definition reg_less :: "'a out_registry \<Rightarrow> 'a out_registry \<Rightarrow> bool" where
  "reg_less r r' \<longleftrightarrow> (\<forall>c e. or_by_ext r' c = Some e \<longrightarrow> or_by_ext r c = Some e)"

definition keeps :: "nat \<Rightarrow> outgoing \<Rightarrow> outgoing \<Rightarrow> bool" where
  "keeps k s s' \<longleftrightarrow>
     same_names ud_inner (os_ngn_dialogs s) (os_ngn_dialogs s') \<and> same_names id (os_ext_dialogs s) (os_ext_dialogs s')
     \<and> reg_less (os_registry s) (os_registry s')
     \<and> (\<forall>j. j \<noteq> k \<longrightarrow> os_tasks s' j = os_tasks s j)
     \<and> (os_tasks s' k = os_tasks s k \<or> pred_option job_named (os_tasks s' k))"

lemma same_names_refl [simp]: "same_names f m m"
  by (simp add: same_names_def)

lemma same_names_trans: "same_names f m m1 \<Longrightarrow> same_names f m1 m2 \<Longrightarrow> same_names f m m2"
  unfolding same_names_def by metis

lemma same_names_upd: "m i = Some x \<Longrightarrow> dlg_id (f y) = dlg_id (f x) \<Longrightarrow> same_names f m (m(i \<mapsto> y))"
  by (auto simp: same_names_def)

lemma reg_less_refl [simp]: "reg_less r r"
  by (simp add: reg_less_def)

lemma reg_less_trans: "reg_less r r1 \<Longrightarrow> reg_less r1 r2 \<Longrightarrow> reg_less r r2"
  by (simp add: reg_less_def)

lemma reg_less_ops:
  "reg_less r (snd (remove_by_ext r x))" "reg_less r (snd (take_pending r x))" "reg_less r (insert_pending r x k)"
  by (auto simp: remove_by_ext_def take_pending_def insert_pending_def reg_less_def split: option.splits if_splits)

lemma reg_less_removed:
  "remove_by_ext r x = (res, r') \<Longrightarrow> reg_less r r'" "remove_by_ngn r x = (res, r') \<Longrightarrow> reg_less r r'"
  by (auto simp: remove_by_ext_def remove_by_ngn_def reg_less_def split: option.splits if_splits)

lemma reg_less_drain: "drain_ids xs r = (es, r') \<Longrightarrow> reg_less r r'"
proof (induction xs r arbitrary: es r' rule: drain_ids.induct)
  case (2 x xs r)
  then show ?case
    by (auto simp: Let_def split: prod.splits option.splits) (meson reg_less_removed(1) reg_less_trans)
qed simp

lemma keeps_refl [simp]: "keeps k s s"
  by (simp add: keeps_def)

lemma keeps_trans: "keeps k s s1 \<Longrightarrow> keeps k s1 s2 \<Longrightarrow> keeps k s s2"
  unfolding keeps_def by (auto intro: same_names_trans reg_less_trans)

lemma legs_keeps:
  assumes "legs_inv s" "keeps k s s'"
  shows "legs_inv s'"
proof -
  have "legs_there s' e" if "legs_there s e" for e
    using assms(2) that unfolding keeps_def same_names_def legs_there_def by (metis id_apply)
  moreover have "pred_option job_named (os_tasks s' j)" for j
    using assms unfolding legs_inv_def keeps_def by (cases "j = k") metis+
  ultimately show ?thesis using assms unfolding legs_inv_def keeps_def reg_less_def by blast
qed

section \<open>The operations\<close>

lemma ngn_dialogs_frame [simp]:
  "os_ngn_dialogs (out_count rs s) = os_ngn_dialogs s" "os_ngn_dialogs (count_retry ro s) = os_ngn_dialogs s"
  "os_ngn_dialogs (out_dec_active s) = os_ngn_dialogs s" "os_ngn_dialogs (out_log_start env n cid s) = os_ngn_dialogs s"
  "os_ngn_dialogs (out_log_end env cid oc s) = os_ngn_dialogs s" "os_ngn_dialogs (out_stop_call b s) = os_ngn_dialogs s"
  "os_ngn_dialogs (end_out_task k s) = os_ngn_dialogs s" "os_ngn_dialogs (set_out_task k t s) = os_ngn_dialogs s"
  "os_ngn_dialogs (out_task_panics k s) = os_ngn_dialogs s" "os_ngn_dialogs (hand_to_ngn qs s) = os_ngn_dialogs s"
  "os_ngn_dialogs (hand_to_ext qs s) = os_ngn_dialogs s" "os_ngn_dialogs (leave_pending job s) = os_ngn_dialogs s"
  "os_ngn_dialogs (arrives_out tx s) = os_ngn_dialogs s" "os_ngn_dialogs (send_refer_notify env entry l1 l2 s) = os_ngn_dialogs s"
  "os_ngn_dialogs (teardown_transferred env entry s) = os_ngn_dialogs s"
  by (simp_all add: out_count_def count_retry_def out_dec_active_def out_log_start_def out_log_end_def out_stop_call_def end_out_task_def
      set_out_task_def out_task_panics_def hand_to_ngn_def hand_to_ext_def leave_pending_def arrives_out_def send_refer_notify_def
      teardown_transferred_def Let_def split: option.splits prod.splits)

lemma keeps_helpers [simp]:
  "keeps k s (ext_respond now j r s') \<longleftrightarrow> keeps k s s'" "keeps k s (ext_quick env j c w s') \<longleftrightarrow> keeps k s s'"
  "keeps k s (out_count rs s') \<longleftrightarrow> keeps k s s'" "keeps k s (count_retry ro s') \<longleftrightarrow> keeps k s s'"
  "keeps k s (out_dec_active s') \<longleftrightarrow> keeps k s s'" "keeps k s (out_log_start env n cid s') \<longleftrightarrow> keeps k s s'"
  "keeps k s (out_log_end env cid oc s') \<longleftrightarrow> keeps k s s'" "keeps k s (out_stop_call b s') \<longleftrightarrow> keeps k s s'"
  "keeps k s (hand_to_ngn qs s') \<longleftrightarrow> keeps k s s'" "keeps k s (hand_to_ext qs s') \<longleftrightarrow> keeps k s s'"
  "keeps k s (arrives_out tx s') \<longleftrightarrow> keeps k s s'" "keeps k (arrives_out tx s) s' \<longleftrightarrow> keeps k s s'"
  by (simp_all add: keeps_def)

lemma keeps_update [simp]:
  "keeps k s (s'\<lparr>os_limiter := x2\<rparr>) \<longleftrightarrow> keeps k s s'" "keeps k s (s'\<lparr>os_blocked := x5\<rparr>) \<longleftrightarrow> keeps k s s'"
  "keeps k s (s'\<lparr>os_intervals := x6\<rparr>) \<longleftrightarrow> keeps k s s'" "keeps k s (s'\<lparr>os_5xx := x7\<rparr>) \<longleftrightarrow> keeps k s s'"
  "keeps k s (s'\<lparr>os_internal := x8\<rparr>) \<longleftrightarrow> keeps k s s'" "keeps k s (s'\<lparr>os_transfers := x9\<rparr>) \<longleftrightarrow> keeps k s s'"
  "keeps k s (s'\<lparr>os_forwarded := x10\<rparr>) \<longleftrightarrow> keeps k s s'" "keeps k s (s'\<lparr>os_call_active := x11\<rparr>) \<longleftrightarrow> keeps k s s'"
  "keeps k s (s'\<lparr>os_injected := x12\<rparr>) \<longleftrightarrow> keeps k s s'"
  by (simp_all add: keeps_def)

lemma keeps_task [intro!]:
  "keeps k s s' \<Longrightarrow> keeps k s (end_out_task k s')" "keeps k s s' \<Longrightarrow> keeps k s (out_task_panics k s')"
  "job_named t \<Longrightarrow> keeps k s s' \<Longrightarrow> keeps k s (set_out_task k t s')"
  by (auto simp: keeps_def)

lemma job_named_simps [simp]:
  "job_of t = None \<Longrightarrow> job_named t"
  by (simp add: job_named_def)

lemma keeps_registry: "keeps k s s' \<Longrightarrow> reg_less (os_registry s') r \<Longrightarrow> keeps k s (s'\<lparr>os_registry := r\<rparr>)"
  by (auto simp: keeps_def intro: reg_less_trans)

lemma keeps_leave: "keeps k s s' \<Longrightarrow> keeps k s (leave_pending job s')"
  by (simp add: leave_pending_def keeps_registry reg_less_ops)

lemma keeps_ext_dialog:
  "keeps k s s' \<Longrightarrow> os_ext_dialogs s' i = Some d \<Longrightarrow> dlg_id d' = dlg_id d
   \<Longrightarrow> keeps k s (s'\<lparr>os_ext_dialogs := (os_ext_dialogs s')(i \<mapsto> d')\<rparr>)"
  using same_names_upd [of "os_ext_dialogs s'" i d id d'] by (auto simp: keeps_def intro: same_names_trans)

lemma keeps_ngn_dialog:
  "keeps k s s' \<Longrightarrow> os_ngn_dialogs s' i = Some ud \<Longrightarrow> dlg_id (ud_inner ud') = dlg_id (ud_inner ud)
   \<Longrightarrow> keeps k s (s'\<lparr>os_ngn_dialogs := (os_ngn_dialogs s')(i \<mapsto> ud')\<rparr>)"
  using same_names_upd [of "os_ngn_dialogs s'" i ud ud_inner ud'] by (auto simp: keeps_def intro: same_names_trans)

text \<open>The requests of a dialog leave its name.\<close>

lemma build_name:
  "build_bye d r = (q, d') \<Longrightarrow> dlg_id d' = dlg_id d" "build_notify_refer_sipfrag d r a b = (q, d') \<Longrightarrow> dlg_id d' = dlg_id d"
  "build_reinvite d r body se mse = (q, d') \<Longrightarrow> dlg_id d' = dlg_id d"
  using build_snd(1) [of d r] build_snd(2) [of d r a b] build_snd(3) [of d r body se mse] by auto

lemma terminate_name [simp]: "dlg_id (terminate d) = dlg_id d"
  by (simp add: terminate_def)

lemma send_name:
  "send_bye ly r ud = (res, ud', rs) \<Longrightarrow> dlg_id (ud_inner ud') = dlg_id (ud_inner ud)"
  "send_reinvite ly r1 r2 offer ud = (res, ud', rs) \<Longrightarrow> dlg_id (ud_inner ud') = dlg_id (ud_inner ud)"
  by (auto simp: send_bye_def send_reinvite_def Let_def split: prod.splits sum.splits option.splits if_splits dest: build_name)

lemma keeps_bye: "keeps k s s' \<Longrightarrow> keeps k s (bye_ngn env i s')"
  by (auto simp: bye_ngn_def intro!: keeps_ngn_dialog dest: send_name(1) split: option.splits prod.splits)

lemma keeps_notify: "keeps k s s' \<Longrightarrow> keeps k s (send_refer_notify env entry l1 l2 s')"
  by (auto simp: send_refer_notify_def intro!: keeps_ext_dialog dest: build_name split: option.splits prod.splits)

lemma keeps_teardown: "keeps k s s' \<Longrightarrow> keeps k s (teardown_transferred env entry s')"
  by (auto simp: teardown_transferred_def intro!: keeps_ext_dialog dest: build_name split: option.splits prod.splits)

text \<open>A call that is established is the only step that adds a call, with the dialogs of its two legs.\<close>

lemma offer_keeps: "offer_to_ngn cfg env offer s = (r, s1) \<Longrightarrow> os_ngn_dialogs s1 = os_ngn_dialogs s"
proof -
  assume f: "offer_to_ngn cfg env offer s = (r, s1)"
  obtain r1 s2 where q: "prepare_outbound_bridge cfg env offer s = (r1, s2)" by fastforce
  then have "s2 = s1" using f by (simp add: offer_to_ngn_def Let_def)
  then show ?thesis
    using q by (auto simp: prepare_outbound_bridge_def out_bind_relay_def Let_def split: if_splits sum.splits prod.splits option.splits)
qed

lemma finalize_keeps: "finalize_outbound_bridge env ctx offer answer s = (r, s1) \<Longrightarrow> os_ngn_dialogs s1 = os_ngn_dialogs s"
  by (auto simp: finalize_outbound_bridge_def Let_def split: if_splits sum.splits prod.splits option.splits)

lemma keeps_media: "same_but_media s s1 \<Longrightarrow> os_ext_dialogs s1 = os_ext_dialogs s \<Longrightarrow> os_ngn_dialogs s1 = os_ngn_dialogs s \<Longrightarrow> keeps k s s1"
  by (simp add: keeps_def same_but_media_def)

lemma legs_unheard: "unheard s k \<Longrightarrow> or_by_ext (os_registry s) c = Some e \<Longrightarrow> oc_id e \<noteq> k"
  by (auto simp: unheard_def)

lemma register_legs:
  assumes l: "legs_inv s" and u: "\<And>c e. or_by_ext (os_registry s) c = Some e \<Longrightarrow> oc_id e \<noteq> k"
    and n: "oj_call_id job = request_call_id ''<no-call-id>'' (oj_request job)"
  shows "legs_inv (register_call cfg k job resp ud bridge s)"
proof (cases "from_uas_invite (oj_request job) resp (build_ext_dialog_cfg cfg (oj_request job))")
  case (Inr d)
  let ?e = "\<lparr>oc_ext_call_id = oj_call_id job, oc_ngn_call_id = dlg_call_id (dlg_id (ud_inner ud)), oc_from_aor = oj_aor job,
      oc_id = k, oc_ext_remote = oj_remote job, oc_bridge = bridge\<rparr>"
  let ?s = "s\<lparr>os_ext_dialogs := (os_ext_dialogs s)(k \<mapsto> d), os_ngn_dialogs := (os_ngn_dialogs s)(k \<mapsto> ud),
      os_registry := insert_confirmed (os_registry s) ?e\<rparr>"
  have "dlg_call_id (dlg_id d) = oj_call_id job"
    using Inr by (auto simp: from_uas_invite_def n request_call_id_def Let_def)
  then have "legs_there ?s ?e" by (simp add: legs_there_def)
  moreover have "legs_there ?s e" if "or_by_ext (os_registry s) c = Some e" for c e
    using l u [OF that] that unfolding legs_inv_def legs_there_def by fastforce
  ultimately have "legs_inv ?s" using l unfolding legs_inv_def by (auto simp: insert_confirmed_def)
  then show ?thesis using Inr l by (simp add: register_call_def)
qed (use l in \<open>simp add: register_call_def\<close>)

lemma call_up_legs:
  assumes l: "legs_inv s" and u: "unheard s k" and n: "oj_call_id job = request_call_id ''<no-call-id>'' (oj_request job)"
  shows "legs_inv (call_up cfg env k job call s)"
proof -
  obtain r s1 where f: "finalize_outbound_bridge env (oj_bridge job) (oj_offer job) (resp_body (ec_response call)) s = (r, s1)"
    by fastforce
  have m: "keeps k s s1" by (rule keeps_media [OF finalize_media [OF f] bridge_dialogs(3) [OF f] finalize_keeps [OF f]])
  have less: "or_by_ext (os_registry s') c = Some e \<Longrightarrow> oc_id e \<noteq> k" if "keeps k s s'" for s' c e
    using that u unfolding keeps_def reg_less_def unheard_def by blast
  have reg: "legs_inv (end_out_task k (register_call cfg k job resp ud bridge s'))" if "keeps k s s'" for resp ud bridge s'
  proof -
    have "legs_inv (register_call cfg k job resp ud bridge s')"
      by (rule register_legs [OF legs_keeps [OF l that] _ n]) (rule less [OF that])
    then show ?thesis by (rule legs_keeps) auto
  qed
  have p: "legs_inv (out_task_panics k s1)" by (rule legs_keeps [OF l]) (use m in auto)
  show ?thesis
    using f by (auto simp: call_up_def Let_def intro!: reg p m split: sum.splits bridge_error.splits prod.splits)
qed

lemma call_over_keeps: "keeps k s (call_refused env k job response s)" "keeps k s (call_lost env k job s)"
  by (auto simp: call_refused_def call_lost_def Let_def split: option.splits)

lemma settle_legs:
  assumes l: "legs_inv s0" and s: "keeps k s0 s" and u: "unheard s k" and n: "job_named (Unplacing job)"
  shows "legs_inv (settle_call cfg env k job outcome s)"
proof -
  let ?s = "leave_pending job s"
  have k: "keeps k s0 ?s" using s by (rule keeps_leave)
  have over: "legs_inv (end_out_task k (call_refused env k job response ?s))" "legs_inv (end_out_task k (call_lost env k job ?s))" for response
    by (rule legs_keeps [OF legs_keeps [OF l k]], rule keeps_task(1), rule call_over_keeps)+
  have un: "legs_inv (set_out_task k (Unplacing job) (hand_to_ngn rs (?s\<lparr>os_limiter := v\<rparr>)))" for rs v
    by (rule legs_keeps [OF l]) (use k n in auto)
  have u': "unheard (?s\<lparr>os_limiter := v\<rparr>) k" for v using u by (simp add: unheard_def leave_pending_def take_pending_def)
  have up: "legs_inv (call_up cfg env k job call (?s\<lparr>os_limiter := v\<rparr>))" for call v
    by (rule call_up_legs [OF _ u']) (use legs_keeps [OF l] k n in \<open>auto simp: job_named_def\<close>)
  show ?thesis
    by (auto simp: settle_call_def Let_def intro!: over un up split: sum.splits invite_outcome.splits prod.splits)
qed

lemma attempt_legs:
  assumes l: "legs_inv s" and t: "os_tasks s k = Some t" "pending_job t = Some job" and u: "unheard s k"
  shows "legs_inv (first_attempt cfg env k job s)" "legs_inv (second_attempt cfg env k job plan s)"
    "legs_inv (pause_over cfg env k job deadline notified response s)"
proof -
  have "job_named t" using l t(1) unfolding legs_inv_def by (metis option.pred_inject(2))
  moreover have "job_of t = Some job" using t(2) by (cases t) auto
  ultimately have n: "job_named (Unplacing job)" "job_named (Replacing job p)" "job_named (Pausing job d b r)" for p d b r
    by (simp_all add: job_named_def)
  have st: "legs_inv (settle_call cfg env k job r s1)" if "keeps k s s1" "unheard s1 k" for r s1
    by (rule settle_legs [OF l that n(1)])
  have go: "legs_inv (set_out_task k t' (hand_to_ngn rs s))" if "job_named t'" for t' rs
    by (rule legs_keeps [OF l]) (use that in auto)
  have u': "unheard (count_retry ro (hand_to_ngn rs s)) k" "unheard (count_retry ro s) k" for ro rs using u by (simp_all add: unheard_def)
  show "legs_inv (first_attempt cfg env k job s)"
    by (auto simp: first_attempt_def Let_def intro!: st u' go n split: prod.splits sum.splits invite_outcome.splits retry_decision.splits)
  show "legs_inv (second_attempt cfg env k job plan s)"
    by (auto simp: second_attempt_def Let_def intro!: st u' split: prod.splits)
  show "legs_inv (pause_over cfg env k job deadline notified response s)"
    using l by (auto simp: pause_over_def Let_def intro!: st u' go n)
qed

text \<open>A new call, and the other steps.\<close>

lemma start_call_keeps: "keeps k s (start_call cfg env k aor request remote s)"
proof -
  obtain r s1 where f: "offer_to_ngn cfg env (req_body request) s = (r, s1)" by fastforce
  have m: "keeps k s s1" by (rule keeps_media [OF offer_media [OF f] bridge_dialogs(2) [OF f] offer_keeps [OF f]])
  show ?thesis
    using f m by (auto simp: start_call_def Let_def job_named_def intro!: keeps_registry reg_less_ops split: sum.splits prod.splits)
qed

lemma ext_invite_keeps: "keeps k s (ext_invite cfg env k aor request remote s)"
  by (auto simp: ext_invite_def call_denied_def intro: keeps_trans [OF _ start_call_keeps]
      split: internal_route.splits prod.splits rate_limit_decision.splits)

lemma hang_up_keeps:
  "keeps k s (ext_bye cfg env k request s)" "keeps k s (bye_finished env k entry cid s)" "keeps k s (hung_up k entry s)"
  "keeps k s (call_unplaced env k job s)" "keeps k s (cancel_finished cfg env k j plan s)"
proof -
  show "keeps k s (ext_bye cfg env k request s)"
    by (auto simp: ext_bye_def Let_def intro!: keeps_bye keeps_registry dest: reg_less_removed split: option.splits prod.splits)
  show "keeps k s (bye_finished env k entry cid s)" "keeps k s (hung_up k entry s)" "keeps k s (call_unplaced env k job s)"
    "keeps k s (cancel_finished cfg env k j plan s)"
    by (auto simp: bye_finished_def hung_up_def call_unplaced_def cancel_finished_def split: prod.splits)
qed

lemma unregister_keeps: "keeps k s (ext_unregister env k aor s)" "keeps k s (unregistered env k entry rest s)"
proof -
  have n: "keeps k s (next_unregistered env k entries s')" if "keeps k s s'" for entries s'
    using that by (auto simp: next_unregistered_def intro: keeps_bye split: list.split)
  show "keeps k s (ext_unregister env k aor s)"
    by (auto simp: ext_unregister_def drain_by_aor_def intro!: n keeps_registry dest: reg_less_drain split: prod.splits)
  have "keeps k s (s\<lparr>os_ext_dialogs := (os_ext_dialogs s)(i := map_option terminate (os_ext_dialogs s i))\<rparr>)" for i
    by (cases "os_ext_dialogs s i") (auto simp: keeps_def same_names_def)
  then show "keeps k s (unregistered env k entry rest s)" by (auto simp: unregistered_def intro!: n)
qed

lemma in_call_keeps:
  "keeps k s (ext_reinvite cfg env k request s)" "keeps k s (reinvite_answered cfg env k request r s)"
  "keeps k s (reinvite_forwarded env k request entry r' s)" "keeps k s (ext_refer cfg env k request s)"
  "keeps k s (refer_step env k entry cid target stage s)" "keeps k s (ext_info env k request s)"
proof -
  show "keeps k s (ext_reinvite cfg env k request s)"
    by (auto simp: ext_reinvite_def Let_def intro!: keeps_ngn_dialog dest: send_name(2) split: option.splits prod.splits sum.splits)
  show "keeps k s (reinvite_answered cfg env k request r s)" "keeps k s (reinvite_forwarded env k request entry r' s)"
    "keeps k s (ext_info env k request s)"
    by (auto simp: reinvite_answered_def reinvite_forwarded_def ext_info_def inject_dtmf_event_to_ngn_def Let_def
        split: option.splits prod.splits sum.splits)
  show "keeps k s (ext_refer cfg env k request s)" by (auto simp: ext_refer_def Let_def intro!: keeps_notify split: option.splits)
  show "keeps k s (refer_step env k entry cid target stage s)"
    by (auto simp: refer_step_def refer_over_def Let_def intro!: keeps_registry keeps_bye keeps_notify keeps_teardown reg_less_ops
        split: refer_stage.splits option.splits leg_outcome.splits)
qed

lemma forward_keeps:
  "forward_bye env k cid s = Some s' \<Longrightarrow> keeps k s s'" "forward_reinvite env k request s = Some s' \<Longrightarrow> keeps k s s'"
proof -
  have d: "keeps k s (s1\<lparr>os_ext_dialogs := (os_ext_dialogs s)(i \<mapsto> x)\<rparr>)"
    if "keeps k s s1" "os_ext_dialogs s1 = os_ext_dialogs s" "map_option dlg_id (os_ext_dialogs s i) = Some (dlg_id x)" for s1 i x
    using that keeps_ext_dialog [of k s s1 i _ x] by auto
  show "forward_bye env k cid s = Some s' \<Longrightarrow> keeps k s s'"
    by (auto simp: forward_bye_def intro!: d keeps_registry dest: reg_less_removed dest!: build_name split: option.splits prod.splits)
  show "forward_reinvite env k request s = Some s' \<Longrightarrow> keeps k s s'"
    by (auto simp: forward_reinvite_def intro!: d dest!: build_name split: option.splits prod.splits)
qed

lemma ext_cancel_legs:
  assumes "legs_inv s" "placing_inv s"
  shows "legs_inv (ext_cancel k request s)"
proof (cases rule: ext_cancel_cases [OF assms(2), of k request])
  case (2 cid j t job)
  have "job_named t" using assms(1) 2(3) unfolding legs_inv_def by (metis option.pred_inject(2))
  then have "job_named (cancel_job t)" by (cases t) (simp_all add: job_named_def)
  then have "keeps j s (s\<lparr>os_tasks := (os_tasks s)(j \<mapsto> cancel_job t)\<rparr>)" by (simp add: keeps_def)
  then have "legs_inv (s\<lparr>os_tasks := (os_tasks s)(j \<mapsto> cancel_job t)\<rparr>)" by (rule legs_keeps [OF assms(1)])
  then show ?thesis unfolding 2(5) by (rule legs_keeps) auto
qed (use assms in simp)

section \<open>The machine\<close>

lemma resume_legs:
  assumes l: "legs_inv s" and i: "placing_inv s" and t: "os_tasks s k = Some t"
  shows "legs_inv (resume_task cfg env k t s)"
proof (cases "pending_job t")
  case (Some job)
  have "call_fine s k" using i by (simp add: placing_inv_def)
  then have "unheard s k" using t Some by (simp add: call_fine_def)
  then show ?thesis using attempt_legs [OF l t Some] Some by (cases t) (simp_all add: resume_task_def)
next
  case None
  then have "keeps k s (resume_task cfg env k t s)"
    by (cases t) (auto simp: resume_task_def hang_up_keeps unregister_keeps in_call_keeps split: list.splits)
  then show ?thesis by (rule legs_keeps [OF l])
qed

lemma legs_step:
  assumes l: "legs_inv s" and i: "placing_inv s"
  shows "legs_inv (out_step cfg s (e :: 'a out_event))"
proof -
  let ?k = "os_next s"
  have a: "legs_inv (arrives_out tx s)" "placing_inv (arrives_out tx s)" for tx
    using legs_keeps [OF l, of ?k "arrives_out tx s"] arrives_inv(1) [OF i] by simp_all
  have others: "legs_inv (ext_reinvite cfg env ?k q (arrives_out tx s))" "legs_inv (ext_bye cfg env ?k q (arrives_out tx s))"
    "legs_inv (ext_info env ?k q (arrives_out tx s))" "legs_inv (ext_refer cfg env ?k q (arrives_out tx s))"
    "legs_inv (ext_unregister env ?k aor (arrives_out tx s))" "legs_inv (ext_invite cfg env ?k aor q rem (arrives_out tx s))"
    for env :: "'a out_env" and q tx aor rem
    by (rule legs_keeps [OF a(1) in_call_keeps(1)], rule legs_keeps [OF a(1) hang_up_keeps(1)], rule legs_keeps [OF a(1) in_call_keeps(6)],
        rule legs_keeps [OF a(1) in_call_keeps(4)], rule legs_keeps [OF a(1) unregister_keeps(1)], rule legs_keeps [OF a(1) ext_invite_keeps])
  show ?thesis
  proof (cases e)
    case (ExtEvent env ev)
    then show ?thesis using l others ext_cancel_legs [OF a] by (cases ev) (simp_all add: handle_event_def)
  next
    case (NgnBye env cid)
    have "legs_inv s'" if "forward_bye env ?k cid (arrives_out None s) = Some s'" for s'
      by (rule legs_keeps [OF a(1) forward_keeps(1) [OF that]])
    then show ?thesis using NgnBye l by (simp split: option.split)
  next
    case (NgnReinvite env request)
    have "legs_inv s'" if "forward_reinvite env ?k request (arrives_out None s) = Some s'" for s'
      by (rule legs_keeps [OF a(1) forward_keeps(2) [OF that]])
    then show ?thesis using NgnReinvite l by (simp split: option.split)
  next
    case (Resume env k)
    then show ?thesis using l resume_legs [OF l i] by (cases "os_tasks s k") simp_all
  qed
qed

interpretation legs: guarded_machine "out_step cfg" "\<lambda>_. fresh_event" "\<lambda>s. placing_inv s \<and> legs_inv s" for cfg
  by unfold_locales (blast intro: placing_step legs_step)

lemma legs_run:
  assumes "list_all fresh_event evs"
  shows "legs_inv (run_steps (out_step cfg) (out_start lim mgr counter cl) evs)"
proof -
  have "legs_inv (out_start lim mgr counter cl)" by (simp add: legs_inv_def out_start_def out_registry_new_def)
  with placing_start legs.run_inv [of "out_start lim mgr counter cl" cfg evs] assms show ?thesis by (simp add: allowed_static)
qed

section \<open>Hanging up\<close>

lemma bye_request:
  "req_method (fst (build_bye d r)) = Bye" "hdr_get (req_headers (fst (build_bye d r))) ''call-id'' = Some (dlg_call_id (dlg_id d))"
  by (simp_all add: build_bye_def draw_cseq_def Let_def fill_common_headers_get request_new_def split: prod.split)

lemma send_bye_request:
  "\<exists>res ud' bye dest. send_bye ly r ud = (res, ud', [(bye, dest)]) \<and> req_method bye = Bye
     \<and> hdr_get (req_headers bye) ''call-id'' = Some (dlg_call_id (dlg_id (ud_inner ud)))"
proof -
  obtain bye d where b: "build_bye (ud_inner ud) r = (bye, d)" by fastforce
  then show ?thesis
    using bye_request [of "ud_inner ud" r] by (auto simp: send_bye_def Let_def split: sum.split)
qed

lemma removed_both:
  "or_by_ext r x = Some e \<Longrightarrow> \<exists>r'. remove_by_ext r x = (Some e, r') \<and> lookup_by_ext r' x = None \<and> lookup_by_ngn r' (oc_ngn_call_id e) = None"
  "or_ngn_to_ext r n = Some x \<Longrightarrow> or_by_ext r x = Some e
   \<Longrightarrow> \<exists>r'. remove_by_ngn r n = (Some e, r') \<and> lookup_by_ext r' x = None \<and> lookup_by_ngn r' n = None"
  by (auto simp: remove_by_ext_def remove_by_ngn_def lookup_by_ext_def lookup_by_ngn_def)

text \<open>C7. Hanging up crosses the program: in every run, a BYE of the extension for a call in the registry is
  answered and becomes one BYE to the carrier with the Call-ID of the other leg; a BYE of the carrier becomes
  one BYE to the extension with the Call-ID of its leg; and either way the call is in neither index afterwards.\<close>

theorem hang_up_crosses:
  assumes "list_all fresh_event evs" "s = run_steps (out_step cfg) (out_start lim mgr counter cl) evs"
    and "lookup_by_ext (os_registry s) cid = Some entry"
  shows "(hdr_get (req_headers request) ''call-id'' = Some cid \<longrightarrow>
      (let s' = out_step cfg s (ExtEvent env (UasBye request remote tx))
       in (\<exists>bye dest. os_to_ngn s' = os_to_ngn s @ [(bye, dest)] \<and> req_method bye = Bye
             \<and> hdr_get (req_headers bye) ''call-id'' = Some (oc_ngn_call_id entry))
          \<and> (\<exists>tx' r. os_txs s' (os_next s) = Some tx' \<and> st_last_response tx' = Some r \<and> is_2xx r)
          \<and> lookup_by_ext (os_registry s') cid = None \<and> lookup_by_ngn (os_registry s') (oc_ngn_call_id entry) = None))
    \<and> (lookup_by_ngn (os_registry s) nid = Some entry \<longrightarrow>
      (let s' = out_step cfg s (NgnBye env nid)
       in (\<exists>bye. os_to_ext s' = os_to_ext s @ [(bye, oc_ext_remote entry)] \<and> req_method bye = Bye
             \<and> hdr_get (req_headers bye) ''call-id'' = Some cid)
          \<and> lookup_by_ext (os_registry s') cid = None \<and> lookup_by_ngn (os_registry s') nid = None))"
proof (intro conjI impI)
  have l: "legs_inv s" unfolding assms(2) by (rule legs_run [OF assms(1)])
  have e: "or_by_ext (os_registry s) cid = Some entry" using assms(3) by (simp add: lookup_by_ext_def)
  then have "legs_there s entry" and x: "oc_ext_call_id entry = cid" using l by (simp_all add: legs_inv_def)
  then obtain ud d where d: "os_ngn_dialogs s (oc_id entry) = Some ud" "dlg_call_id (dlg_id (ud_inner ud)) = oc_ngn_call_id entry"
    "os_ext_dialogs s (oc_id entry) = Some d" "dlg_call_id (dlg_id d) = cid" "oc_ext_call_id entry = cid"
    by (auto simp: legs_there_def)
  let ?k = "os_next s"
  {
    assume h: "hdr_get (req_headers request) ''call-id'' = Some cid"
    let ?s1 = "ext_quick env ?k 200 ''OK'' (arrives_out (Some tx) s)"
    obtain reg where g: "remove_by_ext (os_registry s) cid = (Some entry, reg)" "lookup_by_ext reg cid = None"
      "lookup_by_ngn reg (oc_ngn_call_id entry) = None" using removed_both(1) [OF e] by blast
    obtain res ud' bye dest where b: "send_bye (oe_layer env) (oe_branch env) ud = (res, ud', [(bye, dest)])" "req_method bye = Bye"
      "hdr_get (req_headers bye) ''call-id'' = Some (oc_ngn_call_id entry)"
      using send_bye_request [of "oe_layer env" "oe_branch env" ud] d(2) by auto
    have "os_ngn_dialogs ?s1 (oc_id entry) = Some ud" using d(1) by simp
    then have s': "out_step cfg s (ExtEvent env (UasBye request remote tx)) =
        set_out_task ?k (HangingUp entry cid) (hand_to_ngn [(bye, dest)]
          (?s1\<lparr>os_registry := reg, os_ngn_dialogs := (os_ngn_dialogs ?s1)(oc_id entry \<mapsto> ud')\<rparr>))"
      using h g(1) b(1) by (simp add: handle_event_def ext_bye_def bye_ngn_def Let_def)
    have "said_ok ?s1 ?k" by (simp add: arrives_out_def)
    then have "\<exists>tx' r. os_txs ?s1 ?k = Some tx' \<and> st_last_response tx' = Some r \<and> is_2xx r" by (simp add: said_ok_def)
    then show "let s' = out_step cfg s (ExtEvent env (UasBye request remote tx))
       in (\<exists>bye dest. os_to_ngn s' = os_to_ngn s @ [(bye, dest)] \<and> req_method bye = Bye
             \<and> hdr_get (req_headers bye) ''call-id'' = Some (oc_ngn_call_id entry))
          \<and> (\<exists>tx' r. os_txs s' (os_next s) = Some tx' \<and> st_last_response tx' = Some r \<and> is_2xx r)
          \<and> lookup_by_ext (os_registry s') cid = None \<and> lookup_by_ngn (os_registry s') (oc_ngn_call_id entry) = None"
      unfolding Let_def s' using g(2,3) b(2,3) by simp
  next
    assume n: "lookup_by_ngn (os_registry s) nid = Some entry"
    then obtain x where x: "or_ngn_to_ext (os_registry s) nid = Some x" "or_by_ext (os_registry s) x = Some entry"
      by (auto simp: lookup_by_ngn_def bind_eq_Some_conv)
    then have "x = cid" using l d(5) by (auto simp: legs_inv_def)
    then obtain reg where g: "remove_by_ngn (os_registry s) nid = (Some entry, reg)" "lookup_by_ext reg cid = None"
      "lookup_by_ngn reg nid = None" using removed_both(2) [OF x] by blast
    obtain bye d1 where b: "build_bye d (oe_branch env) = (bye, d1)" by fastforce
    then have q: "req_method bye = Bye" "hdr_get (req_headers bye) ''call-id'' = Some cid"
      using bye_request [of d "oe_branch env"] d(4) by simp_all
    have s': "out_step cfg s (NgnBye env nid) = set_out_task ?k (HungUp entry) (hand_to_ext [(bye, oc_ext_remote entry)]
        ((arrives_out None s)\<lparr>os_registry := reg, os_ext_dialogs := (os_ext_dialogs s)(oc_id entry \<mapsto> terminate d1)\<rparr>))"
      using n g(1) d(3) b by (simp add: forward_bye_def)
    have hand: "os_to_ext (set_out_task ?k t (hand_to_ext rs ((arrives_out None s)\<lparr>os_registry := reg, os_ext_dialogs := m\<rparr>)))
        = os_to_ext s @ rs" for t rs m
      by (simp add: set_out_task_def hand_to_ext_def arrives_out_def)
    show "let s' = out_step cfg s (NgnBye env nid)
       in (\<exists>bye. os_to_ext s' = os_to_ext s @ [(bye, oc_ext_remote entry)] \<and> req_method bye = Bye
             \<and> hdr_get (req_headers bye) ''call-id'' = Some cid)
          \<and> lookup_by_ext (os_registry s') cid = None \<and> lookup_by_ngn (os_registry s') nid = None"
      unfolding Let_def s' hand using g(2,3) q by simp
  }
qed

section \<open>An example\<close>

text \<open>A call is placed, the carrier answers it, and both legs can hang up.\<close>

definition full_call_ex :: sip_request where
  "full_call_ex = \<lparr>req_method = Invite, req_uri = ''sip:117@h'',
     req_headers = [(''via'', via_ex), (''from'', ''<sip:a>;tag=1''), (''to'', ''<sip:b>;tag=2''), (''contact'', ''<sip:x>''),
       (''call-id'', ''c1'')], req_body = []\<rparr>"

abbreviation full_placed_ex :: "unit out_event" where
  "full_placed_ex \<equiv> ExtEvent (out_env_ex 0) (UasInvite ''a'' full_call_ex remote_ex ext_tx_ex)"

lemma dialog_made: "\<exists>d. from_uac_response (ip_request (build_invite rl rnd uac_ex target sdp se)) response_ex cfg = Inr d"
  using parse_tag_from [OF plan_ex_local]
  by (simp add: from_uac_response_def build_invite_get cseq_read_invite [of 1, simplified] response_ex_def hdr_get_def [of "(_, _) # _"] hdr_simps
      trim_ex parse_tag_def [of "''<sip:b>;tag=2''"] strip_prefix_def state_of_status_def)

lemma invite_established:
  assumes "plan = build_invite rl rnd uac_ex target sdp se"
  shows "\<exists>call rs. invite md5 layer_ex rnds uac_ex plan = (Inr (Established call), rs) \<and> resp_body (ec_response call) = []"
proof -
  have "is_2xx response_ex" "resp_body response_ex = []" by (simp_all add: is_2xx_def response_ex_def)
  then show ?thesis
    using dialog_made [of rl rnd target sdp se "\<lparr>cfg_local_uri = uc_local_uri (ua_config uac_ex), cfg_remote_uri = ip_target_uri plan,
        cfg_local_contact = contact_uri (ua_config uac_ex), cfg_sent_by = sent_by (ua_config uac_ex)\<rparr>"]
    by (cases rnds) (auto simp: assms invite_def layer_ex_def finalize_2xx_def finalize_2xx_to_def Let_def)
qed

lemma full_call_facts:
  "hdr_get (req_headers full_call_ex) ''call-id'' = Some ''c1''" "hdr_get (req_headers full_call_ex) ''to'' = Some ''<sip:b>;tag=2''"
  "hdr_get (req_headers full_call_ex) ''from'' = Some ''<sip:a>;tag=1''" "hdr_get (req_headers full_call_ex) ''contact'' = Some ''<sip:x>''"
  "req_body full_call_ex = []"
  by (simp_all add: full_call_ex_def hdr_get_def hdr_simps)

lemma full_dialog: "\<exists>d. from_uas_invite full_call_ex (build_2xx_to_ext n m full_call_ex [] contact) cfg = Inr d"
proof -
  have t: "has_to_tag ''<sip:b>;tag=2''" by (simp add: has_to_tag_def trim_ex param_is_nonempty_tag_def)
  have "hdr_get (resp_headers (build_2xx_to_ext n m full_call_ex [] contact)) ''to'' = Some ''<sip:b>;tag=2''"
    by (simp add: build_2xx_to_ext_def Let_def ensure_tag_to hdr_simps skeleton_get full_call_facts t)
  moreover have "resp_status (build_2xx_to_ext n m full_call_ex [] contact) = 200" by (simp add: build_2xx_to_ext_def Let_def)
  ultimately show ?thesis
    by (simp add: from_uas_invite_def full_call_facts parse_tag_def trim_ex strip_prefix_def state_of_status_def)
qed

lemma full_placed:
  "\<exists>job. os_tasks (out_step out_config_ex out_start_ex full_placed_ex) 0 = Some (Placing job)
     \<and> oj_request job = full_call_ex \<and> oj_call_id job = ''c1'' \<and> \<not> oj_cancelled job \<and> oj_bridge job = None
     \<and> (\<exists>rl rnd target. oj_plan job = build_invite rl rnd uac_ex target None None)"
proof -
  have c: "request_call_id ''<no-call-id>'' full_call_ex = ''c1''" by (simp add: request_call_id_def full_call_facts)
  have u: "oh_uac out_config_ex = uac_ex" by (simp add: out_config_ex_def)
  have route: "route_inside out_config_ex (out_env_ex 0) ''a'' full_call_ex = Outside"
    by (simp add: route_inside_def out_config_ex_def)
  obtain l1 where lim: "check_and_record_at limiter_new ''a'' 0 = (Allow None, l1)"
    by (simp add: check_and_record_at_def limiter_new_def with_config_def)
  let ?s = "(arrives_out (Some ext_tx_ex) out_start_ex)\<lparr>os_limiter := l1, os_intervals := []\<rparr>"
  have b: "offer_to_ngn out_config_ex (out_env_ex 0) [] ?s = (Inr (None, None), ?s)"
    by (simp add: offer_to_ngn_def prepare_outbound_bridge_def force_rewrite_sdp_for_ngn_def Let_def)
  have f: "os_next out_start_ex = 0" "os_limiter (arrives_out (Some ext_tx_ex) out_start_ex) = limiter_new"
    "os_intervals (arrives_out (Some ext_tx_ex) out_start_ex) = []" "oe_instant (out_env_ex 0) = 0"
    by (simp_all add: out_start_def arrives_out_def out_env_ex_def)
  have e: "out_step out_config_ex out_start_ex full_placed_ex
      = start_call out_config_ex (out_env_ex 0) 0 ''a'' full_call_ex remote_ex ?s"
    by (subst out_step.simps, simp only: handle_event_def f(1) Let_def uas_event.case, simp only: ext_invite_def route f lim)
      (simp only: f prod.case internal_route.case rate_limit_decision.case option.case append.simps)
  show ?thesis unfolding e by (simp add: start_call_def c u b full_call_facts(5) Let_def) blast
qed

lemma full_answered:
  assumes "oj_request job = full_call_ex" "oj_call_id job = ''c1''" "\<not> oj_cancelled job" "oj_bridge job = None"
    "oj_plan job = build_invite rl rnd uac_ex target None None" and env: "env = out_env_ex 1"
  shows "\<exists>e. or_by_ext (os_registry (first_attempt out_config_ex env 0 job s)) ''c1'' = Some e"
proof -
  have x: "oh_md5 out_config_ex = id" "oe_layer env = layer_ex" "oe_invite_rnds env = (6, 7, 8)"
    "oh_uac out_config_ex = uac_ex" "oh_layer out_config_ex"
    by (simp_all add: out_config_ex_def env out_env_ex_def)
  obtain call rs where v: "invite id layer_ex (6, 7, 8) uac_ex (oj_plan job) = (Inr (Established call), rs)" "resp_body (ec_response call) = []"
    using invite_established [OF assms(5)] by blast
  have g: "finalize_outbound_bridge env None offer [] s' = (Inr ([], None), s')" for env :: "unit out_env" and offer s'
    by (simp add: finalize_outbound_bridge_def)
  obtain d where d: "from_uas_invite full_call_ex (build_2xx_to_ext (ue_to (oe_uas env)) (ue_tag (oe_uas env))
      full_call_ex [] (ext_contact_uri out_config_ex)) (build_ext_dialog_cfg out_config_ex full_call_ex) = Inr d"
    using full_dialog by blast
  show ?thesis
    by (simp add: first_attempt_def x v settle_call_def assms(1-4) call_up_def g register_call_def d insert_confirmed_def Let_def)
qed

theorem hang_up_crosses_witness:
  "let s = run_steps (out_step out_config_ex) out_start_ex [full_placed_ex, Resume (out_env_ex 1) 0];
       s' = out_step out_config_ex s (ExtEvent (out_env_ex 2) (UasBye ext_cancel_ex remote_ex ext_tx_ex))
   in \<exists>entry bye dest. lookup_by_ext (os_registry s) ''c1'' = Some entry \<and> os_to_ngn s' = os_to_ngn s @ [(bye, dest)]
     \<and> req_method bye = Bye \<and> lookup_by_ext (os_registry s') ''c1'' = None"
proof -
  define s where "s = run_steps (out_step out_config_ex) out_start_ex [full_placed_ex, Resume (out_env_ex 1) 0]"
  have ok: "list_all fresh_event [full_placed_ex, Resume (out_env_ex 1) 0]" by (simp add: ext_tx_ex_def)
  have h: "hdr_get (req_headers ext_cancel_ex) ''call-id'' = Some ''c1''" by (simp add: ext_cancel_ex_def hdr_get_def hdr_simps)
  obtain job rl rnd target where j: "os_tasks (out_step out_config_ex out_start_ex full_placed_ex) 0 = Some (Placing job)"
    "oj_request job = full_call_ex" "oj_call_id job = ''c1''" "\<not> oj_cancelled job" "oj_bridge job = None"
    "oj_plan job = build_invite rl rnd uac_ex target None None"
    using full_placed by blast
  have "s = first_attempt out_config_ex (out_env_ex 1) 0 job (out_step out_config_ex out_start_ex full_placed_ex)"
    unfolding s_def run_steps.simps by (subst out_step.simps(4)) (simp only: j(1) option.case resume_task_def out_task.case)
  then obtain entry where e: "lookup_by_ext (os_registry s) ''c1'' = Some entry"
    using full_answered [OF j(2-6) refl] unfolding lookup_by_ext_def by blast
  note c = hang_up_crosses [OF ok s_def e, of ext_cancel_ex "out_env_ex 2" remote_ex ext_tx_ex, THEN conjunct1, rule_format, OF h]
  show ?thesis unfolding Let_def s_def [symmetric] using c [unfolded Let_def] e by blast
qed

end
