(* ===== verification/Spec2Isabelle.thy ===== *)
theory Spec2Isabelle
  imports Rtcp G711 Rtp_Jitter Sip_Dialog Sip_Exchange Carrier_Retry Dtmf Call_Manager Call_Logs Intercom Routing Uac Codec_Pipeline Http_Date Extension_Fork Ngn_Prack Ext_Hangup
begin

text \<open>
  Verification library for \<^emph>\<open>sabiden\<close>, a SIP back-to-back user agent in Rust
  that registers with the NTT NGN telephone network and connects its calls to extensions and
  browsers. Paths are those of the repository under \<^verbatim>\<open>src/src/\<close>.

  \<^bold>\<open>The program.\<close> Datagrams from the SIP socket are parsed by the message layer
  (\<^verbatim>\<open>sip/message.rs\<close>) in the receive loop of the transaction layer
  (\<^verbatim>\<open>sip/transaction.rs\<close>). A response is put into the channel of the client
  transaction it names; a request is handed to the user agents, which answer through a server
  transaction. The client and server transactions own the retransmission timers. Accepted calls
  become dialogs (\<^verbatim>\<open>sip/dialog.rs\<close>), from which the requests inside a call
  are built. Extensions register with digest authentication (\<^verbatim>\<open>sip/auth.rs\<close>)
  in the table of bindings (\<^verbatim>\<open>sip/registrar.rs\<close>). An incoming call is routed
  by rules (\<^verbatim>\<open>call/routing.rs\<close>) to extensions, which are called in parallel,
  and the first to answer wins (\<^verbatim>\<open>call/manager.rs\<close>); a dialled number goes
  to another extension (\<^verbatim>\<open>call/intercom.rs\<close>) or to the carrier, through a
  rate limiter (\<^verbatim>\<open>call/rate_limiter.rs\<close>) and with a retry policy
  (\<^verbatim>\<open>call/carrier_retry.rs\<close>). The bodies of the messages are SDP
  (\<^verbatim>\<open>sdp/\<close>): they are parsed, restricted to the codecs of the carrier,
  converted between the profile of the carrier and that of browsers, pointed at the relay, and
  written again. The voice of a call is RTP (\<^verbatim>\<open>rtp/packet.rs\<close>), reordered by
  the jitter buffer (\<^verbatim>\<open>rtp/jitter.rs\<close>), reported on by RTCP
  (\<^verbatim>\<open>rtp/rtcp.rs\<close>), coded with G.711
  (\<^verbatim>\<open>rtp/mod.rs\<close>), with key presses as telephone events
  (\<^verbatim>\<open>call/dtmf.rs\<close>). Calls and text messages are kept in ring buffers
  (\<^verbatim>\<open>observability/call_log.rs\<close>,
  \<^verbatim>\<open>call/message_log.rs\<close>). Above these are the orchestrator and the WebRTC
  side (\<^verbatim>\<open>webrtc/\<close>).

  \<^bold>\<open>The theories.\<close>
  \<^item> \<^verbatim>\<open>Prelude\<close>: the result type and its question-mark operator,
    \<^verbatim>\<open>run_steps\<close>, changing the first match of a list, windows on a list, and
    the interfaces \<^verbatim>\<open>inv_machine\<close> (steps keep an invariant),
    \<^verbatim>\<open>monotone_machine\<close> (steps never lower a rank),
    \<^verbatim>\<open>simulation\<close> (a machine follows its specification) and
    \<^verbatim>\<open>wire_format\<close> (a decoder undoes an encoder).
  \<^item> \<^verbatim>\<open>Rust_Bytes\<close>, \<^verbatim>\<open>Rust_Str\<close>,
    \<^verbatim>\<open>Rust_Net\<close>, \<^verbatim>\<open>Rust_Btree\<close>: what the code uses
    of the standard library. A Rust string is the list of its UTF-8 octets; trimming follows the
    Unicode white space of \<^verbatim>\<open>str::trim\<close>; lossy decoding, splitting, number
    parsing, IP addresses of both families with their text forms and the round trip of these,
    ordered maps behind the interface \<^verbatim>\<open>ordered_map\<close>.
  \<^item> \<^verbatim>\<open>Sip_Message\<close>: methods, header table (interface
    \<^verbatim>\<open>header_table\<close>), serialisers, classifying parser, the skeleton for a
    400 answer, SIP URIs. Printing and parsing are inverse on well-formed messages, everything the
    parser accepts can be sent on, and the body is framed by Content-Length alone.
  \<^item> \<^verbatim>\<open>Sip_Utils\<close>: random identifiers (the drawn number is an
    argument) and the scanner for To tags.
  \<^item> \<^verbatim>\<open>Sip_Dialog\<close>: dialogs of both roles, the requests inside them
    and their routing.
  \<^item> \<^verbatim>\<open>Sip_Transaction\<close>: transaction identifiers, rewriting of the Via
    field, response skeletons, the ACK of a refused INVITE.
  \<^item> \<^verbatim>\<open>Client_Transaction\<close>:
    \<^verbatim>\<open>ClientTransaction::run\<close> as a step relation on the state and the clock
    (milliseconds): a response arrives, a timer fires, or the channel closes. A timer fires at its
    deadline and nothing happens after a deadline that is due, as in
    \<^verbatim>\<open>tokio::select!\<close> on an idle executor; ties are broken either way. The
    record keeps the instants of all sendings.
  \<^item> \<^verbatim>\<open>Server_Transaction\<close>:
    \<^verbatim>\<open>ServerTransaction\<close> with its timer task as a machine over the calls of
    the user and the expiries of Timers G, H, I and J.
  \<^item> \<^verbatim>\<open>Transaction_Layer\<close>: the table of client transactions with the
    progress of each INVITE, dispatching, and one turn of the receive loop with its 400 answers.
  \<^item> \<^verbatim>\<open>Sip_Exchange\<close>: the messages the transaction code makes are well
    formed.
  \<^item> \<^verbatim>\<open>Digest_Auth\<close>: both sides of the digest exchange; the digest
    itself is a parameter.
  \<^item> \<^verbatim>\<open>Extension_Uas\<close>: the server for extensions
    (\<^verbatim>\<open>sip/uas.rs\<close>): one turn answers a request, changes the table of
    bindings and hands events to call control.
  \<^item> \<^verbatim>\<open>Register_Client\<close>: the registration with the carrier
    (\<^verbatim>\<open>sip/register.rs\<close>), also against the server above.
  \<^item> \<^verbatim>\<open>Uac\<close>: outgoing calls and messages
    (\<^verbatim>\<open>sip/uac.rs\<close>), with the digest retry and the wait of a CANCEL.
  \<^item> \<^verbatim>\<open>Codec_Pipeline\<close>: the codec of a leg and the media plan
    (\<^verbatim>\<open>call/codec_pipeline.rs\<close>).
  \<^item> \<^verbatim>\<open>Http_Date\<close>: the date in the responses of the orchestrator.
  \<^item> \<^verbatim>\<open>Inbound_Headers\<close>: the readers and writers of header fields in
    \<^verbatim>\<open>call/orchestrator.rs\<close> (option tags, session timers, RAck, To tags,
    addresses, failures of the carrier, bodies for the carrier).
  \<^item> \<^verbatim>\<open>Extension_Fork\<close>: the fork of an incoming call over the
    bindings, legs of browsers among them: the waiters for answers
    (\<^verbatim>\<open>webrtc/signaling.rs\<close>), the registry of offered legs, the
    choice of the winner or of the best failure, and the ports of the relay.
  \<^item> \<^verbatim>\<open>Ngn_Inbound\<close>: the handler of requests from the carrier
    (\<^verbatim>\<open>NgnInboundHandler\<close> of \<^verbatim>\<open>call/orchestrator.rs\<close>)
    as a machine: the tables its tasks share are one record, the work of a task between two waits is
    one step, and the draws of a step (clock, random numbers, sockets, bindings) are its environment.
    \<^verbatim>\<open>Ngn_Calls\<close>: what holds of every call in every run, with the
    interface \<^verbatim>\<open>guarded_machine\<close> of invariants under conditions on the events.
    \<^verbatim>\<open>Ngn_Prack\<close>: reliable ringing.
  \<^item> \<^verbatim>\<open>Outbound_Registry\<close>, \<^verbatim>\<open>Ext_Outbound\<close>:
    the registry of the calls of the extensions and the handler of what the extensions do
    (\<^verbatim>\<open>OutboundCallRegistry\<close> and \<^verbatim>\<open>UasEventHandler\<close>
    of \<^verbatim>\<open>call/orchestrator.rs\<close>), a machine like that of the carrier: calls to
    the carrier with the limiter, the repeated attempt and the CANCEL, hanging up, renegotiation and
    transfer, key presses, and extensions that go away. A call that stays inside is handed on, which
    the state records. \<^verbatim>\<open>Ext_Calls\<close>: what holds of what it sends.
    \<^verbatim>\<open>Ext_Cancel\<close>: the table of the calls being placed, and what a CANCEL does.
    \<^verbatim>\<open>Ext_Hangup\<close>: the dialogs of the calls in the registry, and hanging up.
  \<^item> \<^verbatim>\<open>Registrar\<close>, \<^verbatim>\<open>Intercom\<close>,
    \<^verbatim>\<open>Routing\<close>, \<^verbatim>\<open>Call_Manager\<close>,
    \<^verbatim>\<open>Call_Logs\<close>: the tables of call control with the instant as an
    argument, the choice of destinations, forking over the outcomes of the legs, and the ring
    buffers.
  \<^item> \<^verbatim>\<open>Rate_Limiter\<close>, \<^verbatim>\<open>Carrier_Retry\<close>: what
    an outgoing call has to wait for.
  \<^item> \<^verbatim>\<open>Sdp\<close>: descriptions, their parser and serialiser.
    \<^verbatim>\<open>Sdp_Bytes\<close>: bodies as octets and the interface
    \<^verbatim>\<open>sdp_transform\<close> of a change that keeps descriptions well formed.
    \<^verbatim>\<open>Sdp_Negotiation\<close>: the negotiator (interface
    \<^verbatim>\<open>codec_policy\<close>) and directions. \<^verbatim>\<open>Sdp_Builder\<close>:
    the other transformations.
  \<^item> \<^verbatim>\<open>Rtp_Packet\<close>, \<^verbatim>\<open>Rtcp\<close>,
    \<^verbatim>\<open>G711\<close>, \<^verbatim>\<open>Rtp_Jitter\<close>,
    \<^verbatim>\<open>Dtmf\<close>: the media formats at the width of their fields, the companding
    of samples, the jitter buffer as a machine of pushes, pulls and drains, and the packets of a key
    press.

  \<^bold>\<open>What is shown.\<close> Round trips of every wire format, and of the digest
  exchange; soundness of the framing; the schedule, the bound and the outcome of client
  transactions, with and without responses; what server transactions repeat, to whom and until when;
  exactness of the dispatch table and of the progress that gates a CANCEL; agreement of the two ends
  of a dialog and the numbering of its requests; order and accounting of the jitter buffer;
  that calls come only from registered extensions and every request is answered; the requests of an
  outgoing call and of a registration whatever the far end answers; that the line scanners of the
  media plan agree with the parser; that an incoming call gets exactly one final response, in the
  dialog of its ringing response and, where ringing was reliable, after its PRACK, in every run of
  the inbound handler;
  refinement of an abstract log by the table of bindings and by the ring buffers; agreement of the
  two indices of intercom calls; that forking and routing choose what their specifications say;
  that in every run of the handler of the extensions the calls of one extension are spaced and every
  INVITE carries a description the carrier takes, whatever the extension sent, and that a call that
  was cancelled is not answered and a BYE of one side reaches the other;
  and, at the end of this theory, that a request written by
  one instance is answered by another and the answer reaches the transaction that waits for it.

  \<^bold>\<open>Bounds.\<close> A slice or string is shorter than \<^verbatim>\<open>2^64\<close>
  octets, the range of \<^verbatim>\<open>usize\<close>, where a length is written into a header.
  \<^verbatim>\<open>client_silent\<close> runs a transaction without responses on fuel 12: eleven
  expiries of the retransmission timer and the timeout. All other functions are total. Counters of
  the jitter statistics and instants of time are unbounded numbers; CSeq numbers, call identifiers,
  RTP fields and RTCP fields are words of their width.

  \<^bold>\<open>Not modelled.\<close> Sockets, logging, tracing and locks (every operation that
  holds the lock of a table is one step); failures of a socket send; texts of error messages; JSON
  and TOML; floating point (the jitter estimate is a rational). Of the orchestrator
  (\<^verbatim>\<open>call/orchestrator.rs\<close>) only the parts named above are modelled:
  calls between extensions and calls of browsers, hold and messages (the
  \<^verbatim>\<open>dispatch\<close> and \<^verbatim>\<open>pwa\<close> functions of
  \<^verbatim>\<open>UasEventHandler\<close>) are left out, because they drive the WebRTC session; the
  inbound handler sees what it forwards to the handler of the extensions as part of the environment. The
  WebRTC session, push service, HTTP endpoints and the transcoder rest on external crates and are
  left out.
\<close>

section \<open>Across the components\<close>

text \<open>C1. Two instances of the program understand each other: the bytes of a well-formed
  request that a client transaction was created for are received and answered by the other
  side with one datagram to the source, and that datagram, received by the client, puts
  exactly one response with the chosen status into the channel of that transaction, no
  matter which of the two rewrote the Via or added a To tag.\<close>

theorem exchange_delivers:
  assumes "wf_request req" "create_client tb req = Inr (tb1, i)"
    and "hdr_get (req_headers req) ''cseq'' = Some c" "split_whitespace c = n # method_as_str (req_method req) # ws"
    and "status < 2 ^ 16" "no_crlf reason" "valid_utf8 reason"
  shows "\<exists>bytes resp. answer_datagram rnd srv (request_to_bytes req) remote status reason now = [(remote, bytes)]
    \<and> resp_status resp = status \<and> resp_reason resp = reason
    \<and> fst (recv_datagram rnd' tb1 bytes src) = dispatch_response tb1 resp
    \<and> tb_clients (dispatch_response tb1 resp) = (tb_clients tb1)(i \<mapsto> [resp])"
proof -
  let ?req = "req\<lparr>req_headers := relay_headers (req_headers req) (req_body req)\<rparr>"
  have i: "id_from_request req = Inr i" "tb_clients tb1 i = Some []"
    using assms(2) by (auto simp: create_client_def Let_def split: if_splits)
  then obtain via where via: "hdr_get (req_headers req) ''via'' = Some via" using id_from_request_ok by blast
  have wf: "list_all wf_header (req_headers req)" "wf_method (req_method req)"
    using assms(1) by (simp_all add: wf_request_def Let_def)
  let ?resp = "answer_response rnd ?req via remote status reason"
  let ?got = "?resp\<lparr>resp_headers := relay_headers (resp_headers ?resp) (resp_body ?resp)\<rparr>"
  have "wf_response ?resp" using assms(5,6,7) wf via by (intro wf_answer) (simp_all add: relay_get hdr_simps wf_relay_headers)
  from recv_written_response [OF this]
  have rc: "fst (recv_datagram rnd' tb1 (response_to_bytes ?resp) src) = dispatch_response tb1 ?got" by simp
  have "id_from_response ?got = Inr i"
    using id_from_response_of_request [OF i(1) assms(3,4) wf(2)] answer_get(1) via assms(3)
      parse_via_rewritten wf_hdr_get [OF wf(1) via]
    by (simp add: relay_get hdr_simps answer_get wf_value_def)
  with i(2) have "tb_clients (dispatch_response tb1 ?got) = (tb_clients tb1)(i \<mapsto> [?got])"
    by (simp add: dispatch_response_def Let_def split: option.splits)
  moreover have "resp_status ?got = status" "resp_reason ?got = reason" by simp_all
  ultimately show ?thesis using answer_written [OF assms(1) i(1) via] rc by blast
qed

theorem exchange_delivers_witness:
  "\<exists>bytes resp tb1 i. create_client table_empty register_ex = Inr (tb1, i)
    \<and> answer_datagram 0 table_empty (request_to_bytes register_ex) remote_ex 200 ''OK'' 0 = [(remote_ex, bytes)]
    \<and> resp_status resp = 200
    \<and> tb_clients (dispatch_response tb1 resp) = (tb_clients tb1)(i \<mapsto> [resp])"
proof -
  obtain tb1 i where c: "create_client table_empty register_ex = Inr (tb1, i)"
    using register_ex_facts(1) by (simp add: create_client_def Let_def)
  have "wf_request register_ex"
    using trim_via_ex
    by (simp add: register_ex_def wf_request_def wf_method_def method_from_str_def wf_header_def hdr_simps
        trim_def trim_start_id trim_end_id ws_eval char_eval no_CR_no_crlf valid_utf8_all_ascii via_ex_def)
  moreover have "hdr_get (req_headers register_ex) ''cseq'' = Some ''1 REGISTER''"
    "split_whitespace ''1 REGISTER'' = ''1'' # method_as_str (req_method register_ex) # []"
    using register_ex_facts(2) by (simp_all add: register_ex_def hdr_get_def hdr_simps)
  ultimately show ?thesis
    using exchange_delivers [OF _ c, of "''1 REGISTER''" "''1''" "[]" 200 "''OK''" 0 table_empty remote_ex 0 0 remote_ex] c
    by (simp add: no_CR_no_crlf valid_utf8_all_ascii octet_of_def) blast
qed

end
